(* ===== verification/Prelude.thy ===== *)
theory Prelude
  imports Main "HOL-Library.Word"
begin

text \<open>
  Shared vocabulary of the riak-cpp development: bytes and C++ strings, the ways an
  operation can fail to return, host and network byte order, the printing of integers by an
  output stream, and the locale that every state machine of the library uses:
  \<open>step_system\<close> lifts a one-step invariant to runs.
\<close>

unbundle bit_operations_syntax

named_theorems wire_simps \<open>unfolding rules of the wire format\<close>
named_theorems client_simps \<open>unfolding rules of the client operations\<close>
named_theorems sched_simps \<open>unfolding rules of the scheduler operations\<close>

subsection \<open>Bytes and strings\<close>

text \<open>
  Every \<open>std::string\<close> of the library that carries data (keys, vector clocks, protocol
  buffers, network input) is a byte string. Sizes of in-memory containers are natural numbers:
  no container of the program reaches the width of \<open>std::size_t\<close>. Integers that the code
  computes at a smaller width keep that width.
\<close>

type_synonym byte = "8 word"
type_synonym bytes = "byte list"
type_synonym u32 = "32 word"

text \<open>What an output stream prints for a byte string and for an unsigned integer.\<close>

definition text_of :: "bytes \<Rightarrow> string" where
  "text_of bs = map (\<lambda>b. char_of (unat b)) bs"

fun string_of_nat :: "nat \<Rightarrow> string" where
  "string_of_nat n =
     (if n < 10 then [char_of (48 + n)]
      else string_of_nat (n div 10) @ [char_of (48 + n mod 10)])"

declare string_of_nat.simps [simp del]

subsection \<open>Faults\<close>

text \<open>
  An operation that does not return normally yields one of these: a failed \<open>assert\<close>, a
  C++ exception of the standard library or of the program, or a use of the language that has
  no defined behaviour.
\<close>

datatype fault =
    Assertion_failure
  | Out_of_range
  | Bad_function_call
  | Bad_weak_ptr
  | System_error int
  | Null_dereference
  | Invalid_iterator

subsection \<open>Host and network byte order\<close>

text \<open>
  The code reads and writes a \<open>uint32_t\<close> through its object representation, which
  depends on the host, and converts with \<open>ntohl\<close> and \<open>htonl\<close>. Both are modelled for
  a little-endian and for a big-endian host.
\<close>

datatype endian = Little_endian | Big_endian

definition word32_of_be :: "bytes \<Rightarrow> u32" where
  "word32_of_be bs = foldl (\<lambda>acc b. push_bit 8 acc OR ucast b) 0 bs"

definition be_of_word32 :: "u32 \<Rightarrow> bytes" where
  "be_of_word32 w = map (\<lambda>k. ucast (drop_bit (8 * k) w)) [3, 2, 1, 0]"

fun load32 :: "endian \<Rightarrow> bytes \<Rightarrow> u32" where
  "load32 Big_endian bs = word32_of_be bs"
| "load32 Little_endian bs = word32_of_be (rev bs)"

fun store32 :: "endian \<Rightarrow> u32 \<Rightarrow> bytes" where
  "store32 Big_endian w = be_of_word32 w"
| "store32 Little_endian w = rev (be_of_word32 w)"

definition bswap32 :: "u32 \<Rightarrow> u32" where
  "bswap32 w = word32_of_be (rev (be_of_word32 w))"

fun ntohl :: "endian \<Rightarrow> u32 \<Rightarrow> u32" where
  "ntohl Big_endian w = w"
| "ntohl Little_endian w = bswap32 w"

fun htonl :: "endian \<Rightarrow> u32 \<Rightarrow> u32" where
  "htonl Big_endian w = w"
| "htonl Little_endian w = bswap32 w"

lemma length_be_of_word32 [simp]: "length (be_of_word32 w) = 4"
  by (simp add: be_of_word32_def)

lemma word32_of_be_of_word32 [simp]: "word32_of_be (be_of_word32 w) = w"
  unfolding word32_of_be_def be_of_word32_def
proof (rule bit_word_eqI)
  fix n :: nat
  assume "n < LENGTH(32)"
  then consider "n < 8" | "8 \<le> n \<and> n < 16" | "16 \<le> n \<and> n < 24" | "24 \<le> n \<and> n < 32"
    by fastforce
  then show "bit (foldl (\<lambda>acc (b :: byte). push_bit 8 acc OR ucast b) (0 :: u32)
      (map (\<lambda>k. ucast (drop_bit (8 * k) w)) [3, 2, 1, 0])) n = bit w n"
    by cases (auto simp: bit_simps)
qed

lemma byte_bit_beyond [simp]: "8 \<le> n \<Longrightarrow> \<not> bit (b :: byte) n"
  by (auto dest: bit_imp_le_length)

lemma be_of_word32_of_be: "be_of_word32 (word32_of_be [a, b, c, d]) = [a, b, c, d]"
  unfolding word32_of_be_def be_of_word32_def
  by (auto intro!: bit_word_eqI simp: bit_simps byte_bit_beyond)

lemma length4_cases: "length bs = 4 \<Longrightarrow> (\<And>a b c d. bs = [a, b, c, d] \<Longrightarrow> P) \<Longrightarrow> P"
  by (auto simp: numeral_eq_Suc length_Suc_conv)

lemma be_of_word32_inverse: "length bs = 4 \<Longrightarrow> be_of_word32 (word32_of_be bs) = bs"
  by (erule length4_cases) (simp add: be_of_word32_of_be)

text \<open>Reading a network-order integer gives the same value on either kind of host.\<close>

lemma ntohl_load32: "length bs = 4 \<Longrightarrow> ntohl en (load32 en bs) = word32_of_be bs"
  by (cases en) (simp_all add: bswap32_def be_of_word32_inverse)

lemma store32_htonl: "store32 en (htonl en w) = be_of_word32 w"
  by (cases en) (simp_all add: bswap32_def be_of_word32_inverse)

subsection \<open>Runs of a state machine\<close>

text \<open>
  A component is a state and a step for each event. \<open>run_steps\<close> performs a list of
  events; an invariant of the steps is an invariant of the runs, and a state predicate that
  no step leaves is never left.
\<close>

fun run_steps :: "('s \<Rightarrow> 'e \<Rightarrow> 's) \<Rightarrow> 's \<Rightarrow> 'e list \<Rightarrow> 's" where
  "run_steps step s [] = s"
| "run_steps step s (e # es) = run_steps step (step s e) es"

lemma run_steps_append: "run_steps step s (xs @ ys) = run_steps step (run_steps step s xs) ys"
  by (induction xs arbitrary: s) auto

text \<open>Whether every event of a run is allowed in the state that it meets.\<close>

fun allowed_run :: "('s \<Rightarrow> 'e \<Rightarrow> 's) \<Rightarrow> ('s \<Rightarrow> 'e \<Rightarrow> bool) \<Rightarrow> 's \<Rightarrow> 'e list \<Rightarrow> bool" where
  "allowed_run step allowed s [] = True"
| "allowed_run step allowed s (e # es) = (allowed s e \<and> allowed_run step allowed (step s e) es)"

lemma allowed_runI:
  "(\<And>s e. e \<in> set es \<Longrightarrow> allowed s e) \<Longrightarrow> allowed_run step allowed s es"
  by (induction es arbitrary: s) auto

lemma allowed_run_mono:
  "allowed_run step P s es \<Longrightarrow> (\<And>s e. P s e \<Longrightarrow> Q s e) \<Longrightarrow> allowed_run step Q s es"
  by (induction es arbitrary: s) auto

locale step_system =
  fixes step :: "'s \<Rightarrow> 'e \<Rightarrow> 's"
    and allowed :: "'s \<Rightarrow> 'e \<Rightarrow> bool"
    and inv :: "'s \<Rightarrow> bool"
  assumes step_inv: "inv s \<Longrightarrow> allowed s e \<Longrightarrow> inv (step s e)"
begin

lemma run_inv: "inv s \<Longrightarrow> allowed_run step allowed s es \<Longrightarrow> inv (run_steps step s es)"
  by (induction es arbitrary: s) (auto intro: step_inv)

lemma run_inv_always: "inv s \<Longrightarrow> (\<And>t e. e \<in> set es \<Longrightarrow> allowed t e) \<Longrightarrow> inv (run_steps step s es)"
  by (rule run_inv) (auto intro: allowed_runI)

end

end
