(* ===== verification/Errors.thy ===== *)
theory Errors
  imports Prelude
begin

text \<open>
  Error codes: \<open>riak/error.hxx\<close> and \<open>riak/error.cxx\<close>. An \<open>std::error_code\<close> is
  an \<open>int\<close> value and the identity of a category; it converts to true when its value is not
  0. The library adds one category, whose values are the enumeration
  \<open>communication_failure\<close>. The categories of the standard library and of Boost appear as
  further constructors; their texts (\<open>strerror\<close>) are not code of the repository and enter
  as a parameter where they are printed.
\<close>

datatype communication_failure =
    no_failure
  | unparseable_response
  | inappropriate_response_content
  | missing_vector_clock
  | response_timeout

datatype error_category =
    generic_category
  | system_category
  | communication_failure_category

record error_code =
  ec_value :: int
  ec_category :: error_category

text \<open>\<open>static_cast<int>\<close> of the enumeration, and the cast back.\<close>

fun failure_value :: "communication_failure \<Rightarrow> int" where
  "failure_value no_failure = 0"
| "failure_value unparseable_response = 1"
| "failure_value inappropriate_response_content = 2"
| "failure_value missing_vector_clock = 3"
| "failure_value response_timeout = 4"

definition failure_of_value :: "int \<Rightarrow> communication_failure option" where
  "failure_of_value v =
     (if v = 0 then Some no_failure
      else if v = 1 then Some unparseable_response
      else if v = 2 then Some inappropriate_response_content
      else if v = 3 then Some missing_vector_clock
      else if v = 4 then Some response_timeout
      else None)"

definition make_error_code :: "communication_failure \<Rightarrow> error_code" where
  "make_error_code failure =
     \<lparr>ec_value = failure_value failure, ec_category = communication_failure_category\<rparr>"

text \<open>\<open>std::error_code()\<close>, \<open>std::make_error_code(std::errc)\<close> and \<open>operator bool\<close>.\<close>

definition std_no_error :: error_code where
  "std_no_error = \<lparr>ec_value = 0, ec_category = system_category\<rparr>"

definition make_errc :: "int \<Rightarrow> error_code" where
  "make_errc v = \<lparr>ec_value = v, ec_category = generic_category\<rparr>"

definition is_error :: "error_code \<Rightarrow> bool" where
  "is_error e \<longleftrightarrow> ec_value e \<noteq> 0"

text \<open>
  The two \<open>std::errc\<close> values that the code names, with their numbers on Linux.
\<close>

definition network_down :: int where "network_down = 100"
definition network_reset :: int where "network_reset = 102"

text \<open>
  The texts of the library's category. A value outside the enumeration reaches the
  \<open>default\<close> label, whose assertion fails.
\<close>

definition category_name :: string where
  "category_name = ''communication failure with riak server''"

definition category_message :: "int \<Rightarrow> fault + string" where
  "category_message ev = (case failure_of_value ev of
       Some no_failure \<Rightarrow> Inr ''No network failure observed.''
     | Some unparseable_response \<Rightarrow>
         Inr ''The Riak server responded with unparseable or corrupt data.''
     | Some inappropriate_response_content \<Rightarrow>
         Inr ''The Riak server sent a response that was parseable, but with invalid content.''
     | Some missing_vector_clock \<Rightarrow>
         Inr (''Object found, but vector clock was missing -- this object may be poisoned '' @
              ''and create siblings uncontrollably.'')
     | Some response_timeout \<Rightarrow> Inr ''The response took too long to arrive.''
     | None \<Rightarrow> Inl Assertion_failure)"

subsection \<open>Properties of error codes\<close>

lemma failure_of_value_inverse [simp]: "failure_of_value (failure_value f) = Some f"
  by (cases f) (simp_all add: failure_of_value_def)

lemma failure_value_inject [simp]: "failure_value f = failure_value g \<longleftrightarrow> f = g"
  by (metis failure_of_value_inverse option.inject)

lemma failure_of_value_SomeD: "failure_of_value v = Some f \<Longrightarrow> v = failure_value f"
  by (auto simp: failure_of_value_def split: if_splits)

lemma make_error_code_inject [simp]: "make_error_code f = make_error_code g \<longleftrightarrow> f = g"
  by (simp add: make_error_code_def)

lemma is_error_make_error_code [simp]: "is_error (make_error_code f) \<longleftrightarrow> f \<noteq> no_failure"
  by (cases f) (simp_all add: is_error_def make_error_code_def)

lemma is_error_std_no_error [simp]: "\<not> is_error std_no_error"
  by (simp add: is_error_def std_no_error_def)

lemma is_error_make_errc [simp]: "is_error (make_errc v) \<longleftrightarrow> v \<noteq> 0"
  by (simp add: is_error_def make_errc_def)

lemma make_errc_neq_make_error_code [simp]:
  "make_errc v \<noteq> make_error_code f" "make_error_code f \<noteq> make_errc v"
  by (simp_all add: make_errc_def make_error_code_def)

lemma category_message_Inr_iff:
  "(\<exists>t. category_message v = Inr t) \<longleftrightarrow> (\<exists>f. v = failure_value f)"
proof
  assume "\<exists>t. category_message v = Inr t"
  then show "\<exists>f. v = failure_value f"
    by (auto simp: category_message_def dest: failure_of_value_SomeD split: option.splits)
next
  assume "\<exists>f. v = failure_value f"
  then obtain f where "v = failure_value f" ..
  then show "\<exists>t. category_message v = Inr t"
    by (cases f) (simp_all only: category_message_def failure_of_value_inverse option.case
        communication_failure.case, simp_all)
qed

text \<open>Distinct constructors have distinct texts.\<close>

lemma category_message_text:
  "category_message (failure_value f) = category_message (failure_value g) \<longleftrightarrow> f = g"
  by (cases f; cases g)
    (simp_all only: category_message_def failure_of_value_inverse option.case
      communication_failure.case communication_failure.distinct, simp_all)

end
