(* ===== verification/Riak_Proto.thy ===== *)
theory Riak_Proto
  imports Prelude
begin

text \<open>
  The protocol buffer messages that the client exchanges with the store, from
  \<open>riak/riakclient.proto\<close>: an optional field is an \<open>option\<close>, a repeated field a list, a
  required field a value. The C++ classes that \<open>protoc\<close> generates from them, and the
  serialisation of the protocol buffer library, are not code of the repository: the record
  \<open>protobuf\<close> holds the serialisers and parsers that the client calls, as a parameter of the
  model. A parser yields \<open>None\<close> where \<open>ParseFromString\<close> returns false.
\<close>

record rpb_pair =
  pair_key :: bytes
  pair_value :: "bytes option"

record rpb_link =
  link_bucket :: "bytes option"
  link_key :: "bytes option"
  link_tag :: "bytes option"

record rpb_content =
  ct_value :: bytes
  ct_content_type :: "bytes option"
  ct_charset :: "bytes option"
  ct_content_encoding :: "bytes option"
  ct_vtag :: "bytes option"
  ct_links :: "rpb_link list"
  ct_last_mod :: "u32 option"
  ct_last_mod_usecs :: "u32 option"
  ct_usermeta :: "rpb_pair list"
  ct_indexes :: "rpb_pair list"

record rpb_get_req =
  gq_bucket :: bytes
  gq_key :: bytes
  gq_r :: "u32 option"
  gq_pr :: "u32 option"
  gq_basic_quorum :: "bool option"
  gq_notfound_ok :: "bool option"
  gq_if_modified :: "bytes option"
  gq_head :: "bool option"
  gq_deletedvclock :: "bool option"

record rpb_get_resp =
  gs_content :: "rpb_content list"
  gs_vclock :: "bytes option"
  gs_unchanged :: "bool option"

record rpb_put_req =
  pq_bucket :: bytes
  pq_key :: "bytes option"
  pq_vclock :: "bytes option"
  pq_content :: rpb_content
  pq_w :: "u32 option"
  pq_dw :: "u32 option"
  pq_return_body :: "bool option"
  pq_pw :: "u32 option"
  pq_if_not_modified :: "bool option"
  pq_if_none_match :: "bool option"
  pq_return_head :: "bool option"

record rpb_put_resp =
  ps_content :: "rpb_content list"
  ps_vclock :: "bytes option"
  ps_key :: "bytes option"

record rpb_del_req =
  dq_bucket :: bytes
  dq_key :: bytes
  dq_rw :: "u32 option"
  dq_vclock :: "bytes option"
  dq_r :: "u32 option"
  dq_w :: "u32 option"
  dq_pr :: "u32 option"
  dq_pw :: "u32 option"
  dq_dw :: "u32 option"

record protobuf =
  serialize_get_req :: "rpb_get_req \<Rightarrow> bytes"
  serialize_put_req :: "rpb_put_req \<Rightarrow> bytes"
  serialize_del_req :: "rpb_del_req \<Rightarrow> bytes"
  parse_get_req :: "bytes \<Rightarrow> rpb_get_req option"
  parse_put_req :: "bytes \<Rightarrow> rpb_put_req option"
  parse_get_resp :: "bytes \<Rightarrow> rpb_get_resp option"
  parse_put_resp :: "bytes \<Rightarrow> rpb_put_resp option"

text \<open>\<open>riak/core_types.hxx\<close> and \<open>riak/sibling_resolution.hxx\<close> name three of these types.\<close>

type_synonym key = bytes
type_synonym vector_clock = bytes
type_synonym object = rpb_content
type_synonym siblings = "object list"
type_synonym sibling_resolution = "siblings \<Rightarrow> object option"

text \<open>
  A message whose required fields are empty and whose other fields are absent: what the
  default constructors of the generated classes build, before any setter is called.
\<close>

definition empty_get_req :: rpb_get_req where
  "empty_get_req = \<lparr>gq_bucket = [], gq_key = [], gq_r = None, gq_pr = None,
     gq_basic_quorum = None, gq_notfound_ok = None, gq_if_modified = None, gq_head = None,
     gq_deletedvclock = None\<rparr>"

definition empty_content :: rpb_content where
  "empty_content = \<lparr>ct_value = [], ct_content_type = None, ct_charset = None,
     ct_content_encoding = None, ct_vtag = None, ct_links = [], ct_last_mod = None,
     ct_last_mod_usecs = None, ct_usermeta = [], ct_indexes = []\<rparr>"

definition empty_put_req :: rpb_put_req where
  "empty_put_req = \<lparr>pq_bucket = [], pq_key = None, pq_vclock = None, pq_content = empty_content,
     pq_w = None, pq_dw = None, pq_return_body = None, pq_pw = None, pq_if_not_modified = None,
     pq_if_none_match = None, pq_return_head = None\<rparr>"

definition empty_del_req :: rpb_del_req where
  "empty_del_req = \<lparr>dq_bucket = [], dq_key = [], dq_rw = None, dq_vclock = None, dq_r = None,
     dq_w = None, dq_pr = None, dq_pw = None, dq_dw = None\<rparr>"

end
