(* ===== verification/Wire_Message.thy ===== *)
theory Wire_Message
  imports Errors Riak_Proto
begin

text \<open>
  The wire format of \<open>riak/message.hxx\<close> and \<open>riak/message.cxx\<close>: a 32-bit length in
  network order that counts the code and the body, an 8-bit message code, and the body. The
  theory models the packaging of requests, the recognition of a complete message at the head
  of a buffer, the buffering handler that reassembles messages from a stream, and the checks
  made on a received message. Its lemmas show that framing and recognition are inverse, that
  reassembly does not depend on how the network cuts the stream, and where the checks go wrong.
\<close>

subsection \<open>Message codes\<close>

text \<open>
  A \<open>code\<close> holds a byte and whether it was ever assigned; converting an unassigned one to
  \<open>uint8_t\<close> fails the assertion of \<open>operator uint8_t\<close>.
\<close>

datatype code = Invalid_code | Code byte

fun code_to_uint8 :: "code \<Rightarrow> fault + byte" where
  "code_to_uint8 Invalid_code = Inl Assertion_failure"
| "code_to_uint8 (Code v) = Inr v"

definition code_equal :: "code \<Rightarrow> code \<Rightarrow> fault + bool" where
  "code_equal c d = (case code_to_uint8 c of Inl f \<Rightarrow> Inl f
     | Inr u \<Rightarrow> (case code_to_uint8 d of Inl f \<Rightarrow> Inl f | Inr v \<Rightarrow> Inr (u = v)))"

definition GetRequest :: code where "GetRequest = Code 9"
definition GetResponse :: code where "GetResponse = Code 10"
definition PutRequest :: code where "PutRequest = Code 11"
definition PutResponse :: code where "PutResponse = Code 12"
definition DeleteRequest :: code where "DeleteRequest = Code 13"
definition DeleteResponse :: code where "DeleteResponse = Code 14"

lemmas code_defs =
  GetRequest_def GetResponse_def PutRequest_def PutResponse_def DeleteRequest_def
  DeleteResponse_def

subsection \<open>Packaging a request\<close>

record wire_package =
  wp_message_code :: code
  wp_body :: bytes

text \<open>\<open>message_length\<close> is a \<open>uint32_t\<close>: a sum beyond its range wraps around.\<close>

definition to_string :: "endian \<Rightarrow> wire_package \<Rightarrow> fault + bytes" where
  "to_string en p =
     (let message_length = (word_of_nat (1 + length (wp_body p)) :: u32);
          encoded_length = htonl en message_length;
          full_message = store32 en encoded_length
      in case code_to_uint8 (wp_message_code p) of
           Inl f \<Rightarrow> Inl f
         | Inr c \<Rightarrow> Inr (full_message @ [c] @ wp_body p))"

definition package_with_code :: "code \<Rightarrow> ('m \<Rightarrow> bytes) \<Rightarrow> 'm \<Rightarrow> wire_package" where
  "package_with_code message_code serialize b =
     \<lparr>wp_message_code = message_code, wp_body = serialize b\<rparr>"

definition encode_get_req :: "protobuf \<Rightarrow> rpb_get_req \<Rightarrow> wire_package" where
  "encode_get_req pb b = package_with_code GetRequest (serialize_get_req pb) b"
definition encode_put_req :: "protobuf \<Rightarrow> rpb_put_req \<Rightarrow> wire_package" where
  "encode_put_req pb b = package_with_code PutRequest (serialize_put_req pb) b"
definition encode_del_req :: "protobuf \<Rightarrow> rpb_del_req \<Rightarrow> wire_package" where
  "encode_del_req pb b = package_with_code DeleteRequest (serialize_del_req pb) b"

subsection \<open>Recognising a complete message\<close>

text \<open>
  \<open>next_partial_response\<close> returns an iterator; the model returns its distance from
  \<open>begin\<close>. The distance is 0 unless a complete message is at the head of the buffer.
\<close>

definition next_partial_response :: "endian \<Rightarrow> bytes \<Rightarrow> nat" where
  "next_partial_response en buf =
     (if 4 \<le> length buf then
        let encoded_length = load32 en (take 4 buf);
            data_length = ntohl en encoded_length
        in if unat data_length \<le> length buf - 4 then 4 + unat data_length else 0
      else 0)"

text \<open>
  A message handler takes an error, a size and the data, and returns whether the request is
  completely satisfied. The model threads the state of the handler, and a handler may fail.
  \<open>handle_streaming_requests\<close> is the buffering handler: its own state is the buffer that
  \<open>make_buffering_handler\<close> allocates and every copy of the handler shares.
\<close>

type_synonym 's handler = "error_code \<Rightarrow> nat \<Rightarrow> bytes \<Rightarrow> 's \<Rightarrow> 's \<times> (fault + bool)"

definition handle_streaming_requests :: "endian \<Rightarrow> 's handler \<Rightarrow> (bytes \<times> 's) handler" where
  "handle_streaming_requests en consume_complete_message error bytes_received input st =
     (case st of (buffer, s) \<Rightarrow>
        if \<not> is_error error then
          let buffer = buffer @ input;
              next_response = next_partial_response en buffer;
              matched_whole_request = (next_response \<noteq> 0)
          in if matched_whole_request then
               let one_request = take next_response buffer;
                   buffer = drop next_response buffer;
                   (s', r) = consume_complete_message error (length one_request) one_request s
               in ((buffer, s'), r)
             else ((buffer, s), Inr False)
        else
          let (s', r) = consume_complete_message error 0 [] s in ((buffer, s'), r))"

definition make_buffering_handler ::
  "endian \<Rightarrow> 's handler \<Rightarrow> 's \<Rightarrow> (bytes \<times> 's) handler \<times> (bytes \<times> 's)" where
  "make_buffering_handler en h s = (handle_streaming_requests en h, ([], s))"

subsection \<open>Checking a received message\<close>

text \<open>
  \<open>extract_code_if_valid\<close> reads through an \<open>std::istringstream\<close> into variables that are
  not initialised. A read at the end of the stream leaves (the rest of) its destination as it
  was; the record \<open>indeterminate\<close> holds what the two variables contain before the reads.
\<close>

record indeterminate =
  ind_length :: bytes
  ind_code :: byte

definition istream_read :: "bytes \<Rightarrow> bytes \<Rightarrow> bytes \<times> bytes" where
  "istream_read destination stream =
     (take (length destination) stream @ drop (length stream) destination,
      drop (length destination) stream)"

definition extract_code_if_valid ::
  "endian \<Rightarrow> indeterminate \<Rightarrow> code \<Rightarrow> nat \<Rightarrow> bytes \<Rightarrow> code \<times> bool" where
  "extract_code_if_valid en ind c bytes_available input =
     (if 4 \<le> bytes_available then
        let (encoded_length, input_data) = istream_read (ind_length ind) input;
            data_length = ntohl en (load32 en encoded_length);
            bytes_available = bytes_available - 4
        in if unat data_length = bytes_available then
             let (code_value, input_data) = istream_read [ind_code ind] input_data
             in (Code (hd code_value), True)
           else (c, False)
      else (c, False))"

text \<open>
  \<open>retrieve_body_with_code\<close> returns the decoded body, \<open>None\<close> for a return of false, or
  the exception that \<open>std::string::substr\<close> throws when the position is past the end.
\<close>

definition retrieve_body_with_code ::
  "endian \<Rightarrow> indeterminate \<Rightarrow> code \<Rightarrow> (bytes \<Rightarrow> 'm option) \<Rightarrow> nat \<Rightarrow> bytes \<Rightarrow> fault + 'm option" where
  "retrieve_body_with_code en ind expected_code parse bytes_available input =
     (let (received_code, format_valid) =
            extract_code_if_valid en ind Invalid_code bytes_available input
      in if format_valid then
           (case code_equal received_code expected_code of
              Inl f \<Rightarrow> Inl f
            | Inr False \<Rightarrow> Inr None
            | Inr True \<Rightarrow>
                let size_of_header = 5
                in if length input < size_of_header then Inl Out_of_range
                   else Inr (parse (drop size_of_header input)))
         else Inr None)"

definition retrieve_get_req ::
  "endian \<Rightarrow> indeterminate \<Rightarrow> protobuf \<Rightarrow> nat \<Rightarrow> bytes \<Rightarrow> fault + rpb_get_req option" where
  "retrieve_get_req en ind pb n input =
     retrieve_body_with_code en ind GetRequest (parse_get_req pb) n input"

definition retrieve_get_resp ::
  "endian \<Rightarrow> indeterminate \<Rightarrow> protobuf \<Rightarrow> nat \<Rightarrow> bytes \<Rightarrow> fault + rpb_get_resp option" where
  "retrieve_get_resp en ind pb n input =
     retrieve_body_with_code en ind GetResponse (parse_get_resp pb) n input"

definition retrieve_put_req ::
  "endian \<Rightarrow> indeterminate \<Rightarrow> protobuf \<Rightarrow> nat \<Rightarrow> bytes \<Rightarrow> fault + rpb_put_req option" where
  "retrieve_put_req en ind pb n input =
     retrieve_body_with_code en ind PutRequest (parse_put_req pb) n input"

definition retrieve_put_resp ::
  "endian \<Rightarrow> indeterminate \<Rightarrow> protobuf \<Rightarrow> nat \<Rightarrow> bytes \<Rightarrow> fault + rpb_put_resp option" where
  "retrieve_put_resp en ind pb n input =
     retrieve_body_with_code en ind PutResponse (parse_put_resp pb) n input"

definition verify_code ::
  "endian \<Rightarrow> indeterminate \<Rightarrow> code \<Rightarrow> nat \<Rightarrow> bytes \<Rightarrow> fault + bool" where
  "verify_code en ind expected_code bytes_received input =
     (let (received_code, extraction_successful) =
            extract_code_if_valid en ind Invalid_code bytes_received input
      in if extraction_successful then code_equal received_code expected_code else Inr False)"

subsection \<open>Complete messages\<close>

text \<open>
  The specification of the frame: the first four bytes, read as a big-endian number, count the
  bytes that follow.
\<close>

definition complete_message :: "bytes \<Rightarrow> bool" where
  "complete_message m \<longleftrightarrow>
     4 \<le> length m \<and> unat (word32_of_be (take 4 m)) = length m - 4"

lemma complete_message_length: "complete_message m \<Longrightarrow> 4 \<le> length m"
  by (simp add: complete_message_def)

lemma next_partial_response_be:
  "next_partial_response en buf =
     (if 4 \<le> length buf \<and> unat (word32_of_be (take 4 buf)) \<le> length buf - 4
      then 4 + unat (word32_of_be (take 4 buf)) else 0)"
  by (simp add: next_partial_response_def ntohl_load32 Let_def)

text \<open>
  The contract between a framing and its reader: the reader cuts a buffer right after the
  first whole frame, and returns 0 when there is none.
\<close>

locale framing =
  fixes cut :: "bytes \<Rightarrow> nat"
    and whole :: "bytes \<Rightarrow> bool"
  assumes cut_whole: "whole m \<Longrightarrow> cut (m @ rest) = length m"
    and cut_sound: "cut buf \<noteq> 0 \<Longrightarrow> cut buf \<le> length buf \<and> whole (take (cut buf) buf)"
    and whole_nonempty: "whole m \<Longrightarrow> m \<noteq> []"
begin

lemma cut_0_iff: "cut buf = 0 \<longleftrightarrow> \<not> (\<exists>m rest. buf = m @ rest \<and> whole m)"
  by (metis append_take_drop_id cut_sound cut_whole length_0_conv whole_nonempty)

lemma whole_unique: "whole m \<Longrightarrow> whole m' \<Longrightarrow> m @ rest = m' @ rest' \<Longrightarrow> m = m' \<and> rest = rest'"
  by (metis append_eq_append_conv cut_whole)

lemma cut_append: "cut buf \<noteq> 0 \<Longrightarrow> cut (buf @ later) = cut buf"
  by (metis append_assoc append_take_drop_id cut_sound cut_whole length_take min_absorb2)

lemma whole_prefix_free:
  assumes "whole m" and "n < length m"
  shows "cut (take n m) = 0"
proof (rule ccontr)
  assume cut: "cut (take n m) \<noteq> 0"
  then have "cut (take n m @ drop n m) = cut (take n m)" by (rule cut_append)
  moreover have "cut (take n m @ drop n m) = length m"
    using cut_whole [OF assms(1), of "[]"] by simp
  moreover have "cut (take n m) \<le> length (take n m)" using cut_sound [OF cut] by simp
  ultimately show False using assms(2) by simp
qed

text \<open>Cutting repeatedly takes a stream of frames apart.\<close>

fun cut_all :: "nat \<Rightarrow> bytes \<Rightarrow> bytes list" where
  "cut_all 0 buf = []"
| "cut_all (Suc fuel) buf =
     (if cut buf = 0 then [] else take (cut buf) buf # cut_all fuel (drop (cut buf) buf))"

lemma cut_all_concat:
  "\<forall>m \<in> set ms. whole m \<Longrightarrow> cut rest = 0 \<Longrightarrow> length ms \<le> fuel \<Longrightarrow>
   cut_all fuel (concat ms @ rest) = ms"
proof (induction ms arbitrary: fuel)
  case Nil
  then show ?case by (cases fuel) simp_all
next
  case (Cons m ms)
  then obtain fuel' where "fuel = Suc fuel'" by (cases fuel) auto
  with Cons show ?case by (simp add: cut_whole whole_nonempty)
qed

end

interpretation stream: framing "next_partial_response en" complete_message for en
proof unfold_locales
  fix m rest buf
  show "complete_message m \<Longrightarrow> next_partial_response en (m @ rest) = length m"
    by (auto simp: next_partial_response_be complete_message_def)
  show "next_partial_response en buf \<noteq> 0 \<Longrightarrow> next_partial_response en buf \<le> length buf \<and>
      complete_message (take (next_partial_response en buf) buf)"
    by (auto simp: next_partial_response_be complete_message_def min_def split: if_splits)
  show "complete_message m \<Longrightarrow> m \<noteq> []"
    by (auto simp: complete_message_def)
qed

subsection \<open>Frames written by the client\<close>

text \<open>The frame of a code and a body, when the length fits in 32 bits.\<close>

definition frame :: "byte \<Rightarrow> bytes \<Rightarrow> bytes" where
  "frame c body = be_of_word32 (word_of_nat (1 + length body)) @ [c] @ body"

lemma length_frame [simp]: "length (frame c body) = 5 + length body"
  by (simp add: frame_def)

lemma to_string_frame [wire_simps]:
  "to_string en \<lparr>wp_message_code = Code c, wp_body = body\<rparr> = Inr (frame c body)"
  by (simp add: to_string_def store32_htonl frame_def)

lemma take4_frame: "take 4 (frame c body) = be_of_word32 (word_of_nat (1 + length body))"
  by (simp add: frame_def)

lemma drop5_frame [simp]: "drop 5 (frame c body) = body"
  by (simp add: frame_def)

lemma nth4_frame [simp]: "frame c body ! 4 = c"
  by (simp add: frame_def nth_append)

lemma unat_word_of_nat_u32: "n < 2 ^ 32 \<Longrightarrow> unat (word_of_nat n :: u32) = n"
  by (simp add: unat_of_nat take_bit_nat_eq_self)

lemma complete_frame: "1 + length body < 2 ^ 32 \<Longrightarrow> complete_message (frame c body)"
  by (simp only: complete_message_def take4_frame word32_of_be_of_word32 unat_word_of_nat_u32
      length_frame)
    simp

subsection \<open>The checks on a complete message\<close>

lemma istream_read_enough:
  "length d \<le> length s \<Longrightarrow> istream_read d s = (take (length d) s, drop (length d) s)"
  by (simp add: istream_read_def)

lemma extract_code_complete:
  assumes "complete_message m" and "5 \<le> length m" and "length (ind_length ind) = 4"
  shows "extract_code_if_valid en ind c (length m) m = (Code (m ! 4), True)"
proof -
  have "ntohl en (load32 en (take 4 m)) = word32_of_be (take 4 m)"
    using assms(2) by (simp add: ntohl_load32)
  moreover have "drop 4 m \<noteq> [] \<and> hd (drop 4 m) = m ! 4"
    using assms(2) by (simp add: hd_drop_conv_nth)
  ultimately show ?thesis
    using assms by (cases "drop 4 m")
      (simp_all add: extract_code_if_valid_def istream_read_enough complete_message_def
        istream_read_def)
qed

lemma extract_code_incomplete:
  assumes "\<not> complete_message m" and "length (ind_length ind) = 4"
  shows "extract_code_if_valid en ind c (length m) m = (c, False)"
  using assms by (auto simp: extract_code_if_valid_def istream_read_enough complete_message_def
      ntohl_load32)

lemma retrieve_complete [wire_simps]:
  assumes "complete_message m" and "5 \<le> length m" and "length (ind_length ind) = 4"
  shows "retrieve_body_with_code en ind (Code c) parse (length m) m =
    Inr (if m ! 4 = c then parse (drop 5 m) else None)"
  using assms by (simp add: retrieve_body_with_code_def extract_code_complete code_equal_def)

lemma verify_complete [wire_simps]:
  assumes "complete_message m" and "5 \<le> length m" and "length (ind_length ind) = 4"
  shows "verify_code en ind (Code c) (length m) m = Inr (m ! 4 = c)"
  using assms by (simp add: verify_code_def extract_code_complete code_equal_def)

lemma retrieve_incomplete:
  assumes "\<not> complete_message m" and "length (ind_length ind) = 4"
  shows "retrieve_body_with_code en ind (Code c) parse (length m) m = Inr None"
  using assms by (simp add: retrieve_body_with_code_def extract_code_incomplete)

text \<open>A length field of zero: the message has no byte for the code.\<close>

lemma extract_code_empty_message:
  assumes "complete_message m" and "length m = 4" and "length (ind_length ind) = 4"
  shows "extract_code_if_valid en ind c (length m) m = (Code (ind_code ind), True)"
  using assms by (simp add: extract_code_if_valid_def istream_read_enough complete_message_def
      ntohl_load32 istream_read_def)

lemma retrieve_empty_message:
  assumes "complete_message m" and "length m = 4" and "length (ind_length ind) = 4"
  shows "retrieve_body_with_code en ind (Code c) parse (length m) m =
    (if ind_code ind = c then Inl Out_of_range else Inr None)"
  using assms extract_code_empty_message [OF assms]
  by (simp add: retrieve_body_with_code_def code_equal_def)

subsection \<open>Reassembly\<close>

text \<open>
  A network delivers a message in chunks. \<open>feed\<close> hands the chunks to a buffering handler
  one at a time, as long as the handler is not satisfied and does not fail.
\<close>

fun feed :: "'s handler \<Rightarrow> bytes list \<Rightarrow> 's \<Rightarrow> 's \<times> (fault + bool)" where
  "feed h [] s = (s, Inr False)"
| "feed h (c # cs) s = (case h std_no_error (length c) c s of
      (s', Inr False) \<Rightarrow> feed h cs s'
    | (s', r) \<Rightarrow> (s', r))"

lemma streaming_incomplete:
  "next_partial_response en (buf @ c) = 0 \<Longrightarrow>
   handle_streaming_requests en consume std_no_error n c (buf, s) = ((buf @ c, s), Inr False)"
  by (simp add: handle_streaming_requests_def)

lemma streaming_complete:
  "complete_message m \<Longrightarrow>
   buf @ c = m @ rest \<Longrightarrow>
   handle_streaming_requests en consume std_no_error n c (buf, s) =
     (case consume std_no_error (length m) m s of (s', r) \<Rightarrow> ((rest, s'), r))"
  using stream.cut_whole [of m en rest] complete_message_length [of m]
  by (auto simp: handle_streaming_requests_def Let_def)

lemma streaming_error:
  "is_error e \<Longrightarrow> handle_streaming_requests en consume e n c (buf, s) =
     (case consume e 0 [] s of (s', r) \<Rightarrow> ((buf, s'), r))"
  by (simp add: handle_streaming_requests_def)

lemma feed_incomplete:
  "next_partial_response en (buf @ concat cs) = 0 \<Longrightarrow>
   feed (handle_streaming_requests en consume) cs (buf, s) = ((buf @ concat cs, s), Inr False)"
proof (induction cs arbitrary: buf)
  case (Cons c cs)
  then have "next_partial_response en (buf @ c) = 0"
    using stream.cut_append [of en "buf @ c" "concat cs"] by force
  with Cons show ?case by (simp add: streaming_incomplete)
qed simp

lemma feed_complete:
  assumes "complete_message m" and "buf @ concat cs = m @ rest"
    and "next_partial_response en buf = 0"
    and "consume std_no_error (length m) m s = (s', Inr True)"
  shows "\<exists>left later. rest = left @ concat later \<and>
    feed (handle_streaming_requests en consume) cs (buf, s) = ((left, s'), Inr True)"
  using assms(2,3)
proof (induction cs arbitrary: buf)
  case Nil
  then show ?case
    using stream.cut_whole [OF assms(1), of en rest] assms(1)
    by (simp add: complete_message_def)
next
  case (Cons c cs)
  show ?case
  proof (cases "next_partial_response en (buf @ c) = 0")
    case True
    with Cons show ?thesis by (simp add: streaming_incomplete)
  next
    case False
    then obtain m' left where m': "buf @ c = m' @ left" "complete_message m'"
      using stream.cut_0_iff [of en "buf @ c"] by auto
    have "buf @ c @ concat cs = m @ rest" using Cons.prems(1) by simp
    with m'(1) have "m' @ (left @ concat cs) = m @ rest"
      by (simp only: append_assoc [symmetric])
    from stream.whole_unique [OF m'(2) assms(1) this]
    have "m' = m" "rest = left @ concat cs" by auto
    from m' \<open>m' = m\<close> have "buf @ c = m @ left" by simp
    from streaming_complete [OF assms(1) this, of en consume "length c" s] assms(4)
    have "feed (handle_streaming_requests en consume) (c # cs) (buf, s) = ((left, s'), Inr True)"
      by simp
    with \<open>rest = left @ concat cs\<close> show ?thesis by blast
  qed
qed

end
