(* ===== verification/Wire_Properties.thy ===== *)
theory Wire_Properties
  imports Wire_Message
begin

text \<open>
  The properties of the wire format: packaging and recognition are inverse, reassembly does not
  depend on the chunks of the stream, the verdict on a received message on every branch, and
  the two places where the format goes wrong (a message without a code, a length that wraps).
\<close>

text \<open>
  C11: A packaged request of less than 4 GiB survives the wire. Whatever follows it in the
  stream, the receiver, on a host of either byte order, cuts the stream exactly after the
  request, finds the request's code, and hands the request's body to the parser.
\<close>

theorem wire_roundtrip:
  assumes size: "1 + length body < 2 ^ 32" and ind: "length (ind_length ind) = 4"
    and sent: "to_string sender \<lparr>wp_message_code = Code c, wp_body = body\<rparr> = Inr msg"
  shows "next_partial_response receiver (msg @ rest) = length msg \<and>
    verify_code receiver ind (Code c') (length msg) msg = Inr (c = c') \<and>
    retrieve_body_with_code receiver ind (Code c) parse (length msg) msg = Inr (parse body)"
proof -
  have msg: "msg = frame c body" using sent by (simp add: to_string_frame)
  have whole: "complete_message msg" using complete_frame [OF size] msg by simp
  have long: "5 \<le> length msg" and parts: "msg ! 4 = c" "drop 5 msg = body"
    by (simp_all add: msg del: length_frame) simp
  show ?thesis
    using verify_complete [OF whole long ind] retrieve_complete [OF whole long ind, of receiver c parse]
      stream.cut_whole [OF whole]
    by (simp add: parts)
qed

theorem wire_roundtrip_witness:
  "next_partial_response Big_endian ([0, 0, 0, 3, 9, 7, 8] @ [1, 2]) =
     length [0, 0, 0, 3, 9, 7, 8 :: byte] \<and>
   retrieve_body_with_code Big_endian \<lparr>ind_length = [0, 0, 0, 0], ind_code = 0\<rparr> (Code 9)
     Some (length [0, 0, 0, 3, 9, 7, 8 :: byte]) [0, 0, 0, 3, 9, 7, 8] = Inr (Some [7, 8])"
proof -
  have sent: "to_string Little_endian \<lparr>wp_message_code = Code 9, wp_body = [7, 8]\<rparr> =
      Inr [0, 0, 0, 3, 9, 7, 8]"
    by (simp add: to_string_frame frame_def be_of_word32_def)
  have "1 + length [7, 8 :: byte] < 2 ^ 32"
    and "length (ind_length \<lparr>ind_length = [0, 0, 0, 0], ind_code = 0\<rparr>) = 4"
    by simp_all
  from wire_roundtrip [OF this sent, of Big_endian "[1, 2]" _ Some]
  show ?thesis by blast
qed

text \<open>
  C6: Reassembly does not depend on how the network cuts the stream. If the chunks begin, put
  together, with a complete message, then the buffering handler calls its consumer with exactly
  that message, once, and is satisfied with it; the chunks that complete it may carry more, which
  stays in the buffer or is not read. If the chunks hold no complete message, then the consumer
  is not called, the handler asks for more, and the buffer holds all that arrived.
\<close>

theorem reassembly_is_independent_of_chunks:
  assumes "\<And>s. consume std_no_error (length m) m s = (f s, Inr True)"
  shows "(complete_message m \<longrightarrow> concat chunks = m @ rest \<longrightarrow>
      (\<exists>left later. rest = left @ concat later \<and>
        feed (handle_streaming_requests en consume) chunks ([], s) = ((left, f s), Inr True))) \<and>
    (\<not> (\<exists>m' rest'. concat chunks = m' @ rest' \<and> complete_message m') \<longrightarrow>
      feed (handle_streaming_requests en consume) chunks ([], s) = ((concat chunks, s), Inr False))"
proof (intro conjI impI)
  assume "complete_message m" and "concat chunks = m @ rest"
  then show "\<exists>left later. rest = left @ concat later \<and>
      feed (handle_streaming_requests en consume) chunks ([], s) = ((left, f s), Inr True)"
    using feed_complete [of m "[]" chunks rest en consume s "f s"] assms
    by (simp add: next_partial_response_def)
next
  assume "\<not> (\<exists>m' rest'. concat chunks = m' @ rest' \<and> complete_message m')"
  then have "next_partial_response en ([] @ concat chunks) = 0"
    using stream.cut_0_iff [of en "concat chunks"] by simp
  then show "feed (handle_streaming_requests en consume) chunks ([], s) =
      ((concat chunks, s), Inr False)"
    using feed_incomplete [of en "[]" chunks consume s] by simp
qed

theorem reassembly_is_independent_of_chunks_witness:
  "\<exists>left later. [9] = left @ concat later \<and>
     feed (handle_streaming_requests Little_endian (\<lambda>e n d s. (s @ [d], Inr True)))
       [[0, 0], [0, 1], [14, 9]] ([], []) = ((left, [[0, 0, 0, 1, 14]]), Inr True)"
  using reassembly_is_independent_of_chunks
    [of "\<lambda>e n d s. (s @ [d], Inr True)" "[0, 0, 0, 1, 14]" "\<lambda>s. s @ [[0, 0, 0, 1, 14]]"
      "[[0, 0], [0, 1], [14, 9]]" "[9]" Little_endian "[]"]
  by (simp add: complete_message_def word32_of_be_def)

text \<open>
  The verdict on a whole received message, on every branch. Anything that is not a complete
  message is refused; a complete message with a code is decoded exactly when the code is the
  expected one; and a message of length zero, which is complete but has no code, is judged by
  the byte that happens to be in the uninitialised variable: refused, or an exception.
\<close>

theorem retrieve_verdict:
  assumes "length (ind_length ind) = 4"
  shows "retrieve_body_with_code en ind (Code c) parse (length m) m =
    (if \<not> complete_message m then Inr None
     else if 5 \<le> length m then Inr (if m ! 4 = c then parse (drop 5 m) else None)
     else if ind_code ind = c then Inl Out_of_range else Inr None)"
proof (cases "complete_message m \<and> \<not> 5 \<le> length m")
  case True
  then have "length m = 4" using complete_message_length [of m] by linarith
  from retrieve_empty_message [OF _ this assms, of en c parse] True show ?thesis by simp
next
  case False
  then show ?thesis
    using retrieve_complete [OF _ _ assms, of m en c parse]
      retrieve_incomplete [OF _ assms, of m en c parse]
    by auto
qed

theorem retrieve_verdict_witness:
  "retrieve_body_with_code Little_endian \<lparr>ind_length = [0, 0, 0, 0], ind_code = 12\<rparr> (Code 12)
     (\<lambda>d. Some d) (length [0, 0, 0, 0 :: byte]) [0, 0, 0, 0] = Inl Out_of_range"
  by (subst retrieve_verdict) (simp_all add: complete_message_def word32_of_be_def)

text \<open>
  The length field wraps around. A body of 2 ^ 32 - 1 bytes is packaged with a length of
  zero, so that the receiver takes the first four bytes for a whole message.
\<close>

theorem length_field_wraps:
  assumes "length body = 2 ^ 32 - 1"
  shows "to_string en \<lparr>wp_message_code = Code c, wp_body = body\<rparr> =
      Inr ([0, 0, 0, 0] @ [c] @ body) \<and>
    next_partial_response receiver ([0, 0, 0, 0] @ [c] @ body) = 4"
proof
  have "(word_of_nat (1 + length body) :: u32) = 0"
    by (simp add: assms word_of_nat_eq_0_iff)
  then show "to_string en \<lparr>wp_message_code = Code c, wp_body = body\<rparr> =
      Inr ([0, 0, 0, 0] @ [c] @ body)"
    by (simp add: to_string_frame frame_def be_of_word32_def del: of_nat_add of_nat_Suc)
  show "next_partial_response receiver ([0, 0, 0, 0] @ [c] @ body) = 4"
    by (simp add: next_partial_response_be word32_of_be_def)
qed

theorem length_field_wraps_witness:
  "to_string Little_endian \<lparr>wp_message_code = Code 11, wp_body = replicate (2 ^ 32 - 1) 0\<rparr> =
     Inr ([0, 0, 0, 0] @ [11] @ replicate (2 ^ 32 - 1) 0)"
  by (rule length_field_wraps [THEN conjunct1]) (simp only: length_replicate)

end
