(* ===== verification/Parameters.thy ===== *)
theory Parameters
  imports Prelude
begin

text \<open>
  The two parameter sets an application hands to the client:
  \<open>riak/object_access_parameters.hxx\<close> (overrides of the store's quorum settings, all of
  them optional) and \<open>riak/request_failure_parameters.hxx\<close> (timeout and retries). The
  C++ amendments copy the set, assign one member and return the copy.
\<close>

record object_access_parameters =
  ap_r :: "u32 option"
  ap_pr :: "u32 option"
  ap_w :: "u32 option"
  ap_pw :: "u32 option"
  ap_dw :: "u32 option"
  ap_rw :: "u32 option"
  ap_basic_quorum :: "bool option"
  ap_notfound_ok :: "bool option"

text \<open>The default constructor leaves every \<open>boost::optional\<close> disengaged.\<close>

definition default_access :: object_access_parameters where
  "default_access =
     \<lparr>ap_r = None, ap_pr = None, ap_w = None, ap_pw = None, ap_dw = None, ap_rw = None,
      ap_basic_quorum = None, ap_notfound_ok = None\<rparr>"

definition with_r :: "u32 \<Rightarrow> object_access_parameters \<Rightarrow> object_access_parameters" where
  "with_r v p = p\<lparr>ap_r := Some v\<rparr>"
definition with_pr :: "u32 \<Rightarrow> object_access_parameters \<Rightarrow> object_access_parameters" where
  "with_pr v p = p\<lparr>ap_pr := Some v\<rparr>"
definition with_w :: "u32 \<Rightarrow> object_access_parameters \<Rightarrow> object_access_parameters" where
  "with_w v p = p\<lparr>ap_w := Some v\<rparr>"
definition with_dw :: "u32 \<Rightarrow> object_access_parameters \<Rightarrow> object_access_parameters" where
  "with_dw v p = p\<lparr>ap_dw := Some v\<rparr>"
definition with_pw :: "u32 \<Rightarrow> object_access_parameters \<Rightarrow> object_access_parameters" where
  "with_pw v p = p\<lparr>ap_pw := Some v\<rparr>"
definition with_rw :: "u32 \<Rightarrow> object_access_parameters \<Rightarrow> object_access_parameters" where
  "with_rw v p = p\<lparr>ap_rw := Some v\<rparr>"

definition without_r :: "object_access_parameters \<Rightarrow> object_access_parameters" where
  "without_r p = p\<lparr>ap_r := None\<rparr>"
definition without_pr :: "object_access_parameters \<Rightarrow> object_access_parameters" where
  "without_pr p = p\<lparr>ap_pr := None\<rparr>"
definition without_w :: "object_access_parameters \<Rightarrow> object_access_parameters" where
  "without_w p = p\<lparr>ap_w := None\<rparr>"
definition without_dw :: "object_access_parameters \<Rightarrow> object_access_parameters" where
  "without_dw p = p\<lparr>ap_dw := None\<rparr>"
definition without_pw :: "object_access_parameters \<Rightarrow> object_access_parameters" where
  "without_pw p = p\<lparr>ap_pw := None\<rparr>"
definition without_rw :: "object_access_parameters \<Rightarrow> object_access_parameters" where
  "without_rw p = p\<lparr>ap_rw := None\<rparr>"

definition with_basic_quorum :: "bool \<Rightarrow> object_access_parameters \<Rightarrow> object_access_parameters" where
  "with_basic_quorum v p = p\<lparr>ap_basic_quorum := Some v\<rparr>"
definition with_notfound_ok :: "bool \<Rightarrow> object_access_parameters \<Rightarrow> object_access_parameters" where
  "with_notfound_ok v p = p\<lparr>ap_notfound_ok := Some v\<rparr>"
definition without_basic_quorum :: "object_access_parameters \<Rightarrow> object_access_parameters" where
  "without_basic_quorum p = p\<lparr>ap_basic_quorum := None\<rparr>"
definition without_notfound_ok :: "object_access_parameters \<Rightarrow> object_access_parameters" where
  "without_notfound_ok p = p\<lparr>ap_notfound_ok := None\<rparr>"

lemmas amendment_defs =
  with_r_def with_pr_def with_w_def with_dw_def with_pw_def with_rw_def
  without_r_def without_pr_def without_w_def without_dw_def without_pw_def without_rw_def
  with_basic_quorum_def with_notfound_ok_def without_basic_quorum_def without_notfound_ok_def

subsection \<open>Failure parameters\<close>

text \<open>
  \<open>std::chrono::milliseconds\<close> counts in a signed integer, \<open>retries_permitted\<close> is a
  \<open>std::size_t\<close>. The object to which \<open>client::failure_defaults\<close> applies its two
  amendments is value-initialised.
\<close>

record request_failure_parameters =
  fp_response_timeout :: int
  fp_retries_permitted :: nat

definition with_response_timeout ::
  "int \<Rightarrow> request_failure_parameters \<Rightarrow> request_failure_parameters" where
  "with_response_timeout t p = p\<lparr>fp_response_timeout := t\<rparr>"

definition with_retries_permitted ::
  "nat \<Rightarrow> request_failure_parameters \<Rightarrow> request_failure_parameters" where
  "with_retries_permitted n p = p\<lparr>fp_retries_permitted := n\<rparr>"

subsection \<open>Amendments as lenses\<close>

text \<open>
  An amendable parameter is a getter with an engaging and a disengaging setter. The laws are
  the promise of the header: the result is equivalent to the original with the exception of
  the indicated value, so amendments may be chained in any order.
\<close>

locale amendable =
  fixes get :: "'p \<Rightarrow> 'v option"
    and put :: "'v \<Rightarrow> 'p \<Rightarrow> 'p"
    and clear :: "'p \<Rightarrow> 'p"
  assumes get_put: "get (put v p) = Some v"
    and get_clear: "get (clear p) = None"
    and put_get: "get p = Some v \<Longrightarrow> put v p = p"
    and clear_get: "get p = None \<Longrightarrow> clear p = p"
    and put_put: "put v (put u p) = put v p"
    and put_clear: "put v (clear p) = put v p"
    and clear_put: "clear (put v p) = clear p"
begin

definition amend :: "'v option \<Rightarrow> 'p \<Rightarrow> 'p" where
  "amend c p = (case c of None \<Rightarrow> clear p | Some v \<Rightarrow> put v p)"

lemma clear_idem: "clear (clear p) = clear p"
  by (rule clear_get) (rule get_clear)

lemma get_amend: "get (amend c p) = c"
  by (cases c) (simp_all add: amend_def get_put get_clear)

lemma amend_get: "amend (get p) p = p"
  by (cases "get p") (simp_all add: amend_def put_get clear_get)

lemma amend_amend: "amend c (amend d p) = amend c p"
  by (cases c; cases d) (simp_all add: amend_def put_put put_clear clear_put clear_idem)

end

interpretation r_param: amendable ap_r with_r without_r
  by unfold_locales (auto simp: amendment_defs)
interpretation pr_param: amendable ap_pr with_pr without_pr
  by unfold_locales (auto simp: amendment_defs)
interpretation w_param: amendable ap_w with_w without_w
  by unfold_locales (auto simp: amendment_defs)
interpretation pw_param: amendable ap_pw with_pw without_pw
  by unfold_locales (auto simp: amendment_defs)
interpretation dw_param: amendable ap_dw with_dw without_dw
  by unfold_locales (auto simp: amendment_defs)
interpretation rw_param: amendable ap_rw with_rw without_rw
  by unfold_locales (auto simp: amendment_defs)
interpretation basic_quorum_param: amendable ap_basic_quorum with_basic_quorum without_basic_quorum
  by unfold_locales (auto simp: amendment_defs)
interpretation notfound_ok_param: amendable ap_notfound_ok with_notfound_ok without_notfound_ok
  by unfold_locales (auto simp: amendment_defs)

text \<open>Amending a parameter is assigning its member.\<close>

lemma amend_fields [simp]:
  "r_param.amend c p = p\<lparr>ap_r := c\<rparr>"
  "pr_param.amend c p = p\<lparr>ap_pr := c\<rparr>"
  "w_param.amend c p = p\<lparr>ap_w := c\<rparr>"
  "pw_param.amend c p = p\<lparr>ap_pw := c\<rparr>"
  "dw_param.amend c p = p\<lparr>ap_dw := c\<rparr>"
  "rw_param.amend c p = p\<lparr>ap_rw := c\<rparr>"
  "basic_quorum_param.amend d p = p\<lparr>ap_basic_quorum := d\<rparr>"
  "notfound_ok_param.amend d p = p\<lparr>ap_notfound_ok := d\<rparr>"
  by (simp_all add: r_param.amend_def pr_param.amend_def w_param.amend_def pw_param.amend_def
      dw_param.amend_def rw_param.amend_def basic_quorum_param.amend_def
      notfound_ok_param.amend_def amendment_defs split: option.split)

end
