(* ===== verification/Request_Context.thy ===== *)
theory Request_Context
  imports Errors Parameters
begin

text \<open>
  The context of an application's request and its log lines:
  \<open>riak/application_request_context.hxx\<close>, \<open>riak/application_request_context.cxx\<close> and
  \<open>riak/log.hxx\<close>. A context is the two parameter sets and a fresh identifier; each log
  statement opens a record, tags it with the identifier, streams its text and pushes the
  record when the stream dies. The random generator and the filter of the logging core are
  Boost's and enter as parameters.
\<close>

subsection \<open>Severities\<close>

datatype severity = trace | info | warning | severe

text \<open>The enumerators in the order of \<open>log.hxx\<close>; \<open>severe\<close> is \<open>severity::error\<close>.\<close>

fun severity_rank :: "severity \<Rightarrow> nat" where
  "severity_rank trace = 0"
| "severity_rank info = 1"
| "severity_rank warning = 2"
| "severity_rank severe = 3"

lemma severity_rank_inject: "severity_rank a = severity_rank b \<Longrightarrow> a = b"
  by (cases a; cases b) simp_all

instantiation severity :: linorder
begin

definition less_eq_severity :: "severity \<Rightarrow> severity \<Rightarrow> bool" where
  "a \<le> b \<longleftrightarrow> severity_rank a \<le> severity_rank b"

definition less_severity :: "severity \<Rightarrow> severity \<Rightarrow> bool" where
  "a < b \<longleftrightarrow> severity_rank a < severity_rank b"

instance
  by standard
    (auto simp: less_eq_severity_def less_severity_def dest: severity_rank_inject)

end

subsection \<open>Contexts\<close>

text \<open>
  A UUID has 128 bits. The static generator \<open>new_uuid\<close> is shared by the whole program; the
  model passes the stream of its results and the number of results already drawn.
\<close>

type_synonym uuid = "128 word"

record request_context =
  rc_access_overrides :: object_access_parameters
  rc_failure_defaults :: request_failure_parameters
  rc_request_id :: uuid

definition application_request_context ::
  "(nat \<Rightarrow> uuid) \<Rightarrow> object_access_parameters \<Rightarrow> request_failure_parameters \<Rightarrow> nat \<Rightarrow>
   request_context \<times> nat" where
  "application_request_context new_uuid oap rfp drawn =
     (\<lparr>rc_access_overrides = oap, rc_failure_defaults = rfp, rc_request_id = new_uuid drawn\<rparr>,
      Suc drawn)"

definition copy_with_new_request_id ::
  "(nat \<Rightarrow> uuid) \<Rightarrow> request_context \<Rightarrow> nat \<Rightarrow> request_context \<times> nat" where
  "copy_with_new_request_id new_uuid ctx drawn =
     application_request_context new_uuid (rc_access_overrides ctx) (rc_failure_defaults ctx) drawn"

subsection \<open>Log records and the stream that pushes them\<close>

record log_record =
  lr_severity :: severity
  lr_request_id :: "uuid option"
  lr_message :: string

text \<open>
  \<open>open_record\<close> of a Boost logger yields an empty record when the filters of the logging
  core reject the line; \<open>accepts\<close> is that decision. The stream's members are the record
  (possibly empty) and the pointer to the inner stream, which only the constructor sets and
  a move empties.
\<close>

definition open_record :: "(severity \<Rightarrow> bool) \<Rightarrow> severity \<Rightarrow> log_record option" where
  "open_record accepts sev =
     (if accepts sev
      then Some \<lparr>lr_severity = sev, lr_request_id = None, lr_message = []\<rparr> else None)"

record record_ostream =
  os_record :: "log_record option"
  os_stream :: bool

definition make_ostream :: "log_record option \<Rightarrow> fault + record_ostream" where
  "make_ostream r =
     (case r of None \<Rightarrow> Inl Assertion_failure
      | Some _ \<Rightarrow> Inr \<lparr>os_record = r, os_stream = True\<rparr>)"

text \<open>The move constructor: the new stream, and what is left of the old one.\<close>

definition move_ostream :: "record_ostream \<Rightarrow> record_ostream \<times> record_ostream" where
  "move_ostream other = (other, \<lparr>os_record = None, os_stream = False\<rparr>)"

text \<open>The destructor: the records it pushes to the logger.\<close>

definition destroy_ostream :: "record_ostream \<Rightarrow> log_record list" where
  "destroy_ostream st = (case os_record st of None \<Rightarrow> [] | Some r \<Rightarrow> [r])"

text \<open>\<open>operator<<\<close> of text, and of \<open>boost::log::add_value\<close> with the identifier.\<close>

definition put_text :: "string \<Rightarrow> record_ostream \<Rightarrow> fault + record_ostream" where
  "put_text t st =
     (if os_stream st
      then Inr (st\<lparr>os_record := map_option (\<lambda>r. r\<lparr>lr_message := lr_message r @ t\<rparr>) (os_record st)\<rparr>)
      else Inl Null_dereference)"

definition put_request_id :: "uuid \<Rightarrow> record_ostream \<Rightarrow> fault + record_ostream" where
  "put_request_id i st =
     (if os_stream st
      then Inr (st\<lparr>os_record := map_option (\<lambda>r. r\<lparr>lr_request_id := Some i\<rparr>) (os_record st)\<rparr>)
      else Inl Null_dereference)"

text \<open>
  \<open>log\<close> builds the stream, tags it and returns it by move; the moved-from stream dies, and
  what it pushes is part of the result.
\<close>

definition log ::
  "(severity \<Rightarrow> bool) \<Rightarrow> request_context \<Rightarrow> severity \<Rightarrow> fault + record_ostream \<times> log_record list" where
  "log accepts ctx sev =
     (case make_ostream (open_record accepts sev) of
        Inl f \<Rightarrow> Inl f
      | Inr stream \<Rightarrow>
          (case put_request_id (rc_request_id ctx) stream of
             Inl f \<Rightarrow> Inl f
           | Inr stream \<Rightarrow>
               let (result, stream) = move_ostream stream
               in Inr (result, destroy_ostream stream)))"

fun put_parts :: "string list \<Rightarrow> record_ostream \<Rightarrow> fault + record_ostream" where
  "put_parts [] st = Inr st"
| "put_parts (t # ts) st =
     (case put_text t st of Inl f \<Rightarrow> Inl f | Inr st' \<Rightarrow> put_parts ts st')"

text \<open>A whole statement \<open>log(sev) << t1 << t2 ... ;\<close> and the records it pushes.\<close>

definition log_statement ::
  "(severity \<Rightarrow> bool) \<Rightarrow> request_context \<Rightarrow> severity \<Rightarrow> string list \<Rightarrow> fault + log_record list" where
  "log_statement accepts ctx sev parts =
     (case log accepts ctx sev of
        Inl f \<Rightarrow> Inl f
      | Inr (stream, pushed) \<Rightarrow>
          (case put_parts parts stream of
             Inl f \<Rightarrow> Inl f
           | Inr stream \<Rightarrow> Inr (pushed @ destroy_ostream stream)))"

lemma put_parts_stream:
  "put_parts parts \<lparr>os_record = Some r, os_stream = True\<rparr> =
     Inr \<lparr>os_record = Some (r\<lparr>lr_message := lr_message r @ concat parts\<rparr>), os_stream = True\<rparr>"
  by (induction parts arbitrary: r) (simp_all add: put_text_def)

lemma log_statement_accepted:
  "accepts sev \<Longrightarrow> log_statement accepts ctx sev parts =
     Inr [\<lparr>lr_severity = sev, lr_request_id = Some (rc_request_id ctx), lr_message = concat parts\<rparr>]"
  by (simp add: log_statement_def log_def open_record_def make_ostream_def put_request_id_def
      move_ostream_def destroy_ostream_def put_parts_stream)

lemma log_statement_rejected:
  "\<not> accepts sev \<Longrightarrow> log_statement accepts ctx sev parts = Inl Assertion_failure"
  by (simp add: log_statement_def log_def open_record_def make_ostream_def)

end
