(* ===== verification/Value_Properties.thy ===== *)
theory Value_Properties
  imports Request_Context
begin

text \<open>
  The properties of the values that an application exchanges with the library: parameter sets,
  error codes and log records.
\<close>

text \<open>
  A parameter set is what its amendments say. From any set, the eight amendments with the
  values of another set give that other set, and they may be made in the opposite order; so every
  set can be built from the default one, and an amendment never disturbs another parameter.
\<close>

theorem parameters_by_amendment:
  "r_param.amend (ap_r p) (pr_param.amend (ap_pr p) (w_param.amend (ap_w p)
     (pw_param.amend (ap_pw p) (dw_param.amend (ap_dw p) (rw_param.amend (ap_rw p)
     (basic_quorum_param.amend (ap_basic_quorum p)
     (notfound_ok_param.amend (ap_notfound_ok p) q))))))) = p \<and>
   notfound_ok_param.amend (ap_notfound_ok p) (basic_quorum_param.amend (ap_basic_quorum p)
     (rw_param.amend (ap_rw p) (dw_param.amend (ap_dw p) (pw_param.amend (ap_pw p)
     (w_param.amend (ap_w p) (pr_param.amend (ap_pr p) (r_param.amend (ap_r p) q))))))) = p"
  by (cases p; cases q) simp

text \<open>
  Error codes tell failures apart. Only \<open>no_failure\<close> makes a false error code, an error
  code of the library is never equal to one made from an \<open>errno\<close> value, different failures
  have different values and different texts, and the category has a text for a value exactly
  when the value belongs to the enumeration; for every other value the assertion fails.
\<close>

theorem error_codes_faithful:
  "(is_error (make_error_code f) \<longleftrightarrow> f \<noteq> no_failure) \<and> make_error_code f \<noteq> make_errc v \<and>
   (make_error_code f = make_error_code g \<longleftrightarrow> f = g) \<and>
   (category_message (failure_value f) = category_message (failure_value g) \<longleftrightarrow> f = g) \<and>
   (if v \<in> range failure_value then \<exists>t. category_message v = Inr t
    else category_message v = Inl Assertion_failure)"
proof -
  have "category_message v = Inl Assertion_failure" if "v \<notin> range failure_value"
  proof -
    have "failure_of_value v = None"
      using that by (cases "failure_of_value v") (auto dest: failure_of_value_SomeD)
    then show ?thesis by (simp add: category_message_def)
  qed
  then show ?thesis using category_message_Inr_iff [of v] category_message_text [of f g] by auto
qed

text \<open>
  A log statement pushes exactly one record, which has the statement's severity, the
  request's identifier and the concatenation of what was streamed, although the stream is moved
  out of the function that tags it; and when the filter of the logging core rejects the
  statement, the assertion on the empty record fails.
\<close>

theorem log_statement_pushes_one:
  "log_statement accepts ctx sev parts =
     (if accepts sev
      then Inr [\<lparr>lr_severity = sev, lr_request_id = Some (rc_request_id ctx),
                 lr_message = concat parts\<rparr>]
      else Inl Assertion_failure)"
  by (simp add: log_statement_accepted log_statement_rejected)

end
