(* ===== verification/Client.thy ===== *)
theory Client
  imports Wire_Message Request_Context
begin

text \<open>
  The client of \<open>riak/client.hxx\<close> and \<open>riak/client.cxx\<close>. The code is written with
  callbacks: every \<open>std::bind\<close> of a member of \<open>request_runner\<close> becomes a constructor of
  \<open>message_handler\<close> or \<open>value_updater\<close> that holds the bound arguments, and a call of the
  bound function becomes the application of \<open>run_handler\<close> or \<open>run_updater\<close>. The effects
  of an operation (log lines, requests handed to the transport, answers to the application)
  are appended to a trace in the order in which the code performs them. A handler never acts
  after it has answered the application, so a reaction of the application (storing a new
  value, say) is a later operation on the resulting world.
\<close>

subsection \<open>Handlers, events and the world\<close>

text \<open>An application's callback is known by a number.\<close>

type_synonym app_handler = nat

datatype value_updater =
    No_value_updater
  | Put_value request_context key key "vector_clock option"

datatype message_handler =
    Accept_delete request_context app_handler
  | Accept_get request_context key key app_handler
  | Accept_put request_context app_handler
  | Resolved_sibling request_context key key object app_handler

record wire_request =
  wr_data :: bytes
  wr_response_timeout :: int
  wr_handler :: message_handler

datatype event =
    Logged log_record
  | Dispatched wire_request
  | Answered_delete app_handler error_code
  | Answered_put app_handler error_code
  | Answered_get app_handler error_code "object option" value_updater

text \<open>
  \<open>transport_up\<close> says whether the delivery provider accepts requests; the single serial
  socket throws once it is shutting down. \<open>outstanding\<close> holds the requests that were
  dispatched and whose handler has not run yet.
\<close>

record world =
  uuids_drawn :: nat
  transport_up :: bool
  outstanding :: "wire_request list"
  events :: "event list"

record environment =
  env_pb :: protobuf
  env_host :: endian
  env_indeterminate :: indeterminate
  env_uuid :: "nat \<Rightarrow> uuid"
  env_strerror :: "error_category \<Rightarrow> int \<Rightarrow> string"

record client =
  cl_resolve_siblings :: sibling_resolution
  cl_access_overrides :: object_access_parameters
  cl_failure_defaults :: request_failure_parameters

definition access_override_defaults :: object_access_parameters where
  "access_override_defaults = default_access"

definition failure_defaults :: request_failure_parameters where
  "failure_defaults = with_retries_permitted 1 (with_response_timeout 3000
     \<lparr>fp_response_timeout = 0, fp_retries_permitted = 0\<rparr>)"

definition make_client ::
  "sibling_resolution \<Rightarrow> request_failure_parameters \<Rightarrow> object_access_parameters \<Rightarrow> client" where
  "make_client sr fp ao =
     \<lparr>cl_resolve_siblings = sr, cl_access_overrides = ao, cl_failure_defaults = fp\<rparr>"

subsection \<open>Effects\<close>

definition emit :: "event \<Rightarrow> world \<Rightarrow> world" where
  "emit e w = w\<lparr>events := events w @ [e]\<rparr>"

text \<open>A log statement on a logger that accepts every record.\<close>

definition log_line :: "request_context \<Rightarrow> severity \<Rightarrow> string list \<Rightarrow> world \<Rightarrow> world" where
  "log_line ctx sev parts w =
     (case log_statement (\<lambda>_. True) ctx sev parts of
        Inr records \<Rightarrow> w\<lparr>events := events w @ map Logged records\<rparr>
      | Inl _ \<Rightarrow> w)"

text \<open>\<open>error.message()\<close>, by category.\<close>

definition error_message :: "environment \<Rightarrow> error_code \<Rightarrow> fault + string" where
  "error_message env e =
     (case ec_category e of
        communication_failure_category \<Rightarrow> category_message (ec_value e)
      | c \<Rightarrow> Inr (env_strerror env c (ec_value e)))"

text \<open>
  The common tail of every request: package, wrap the handler for buffering, make the
  \<open>request_with_timeout\<close> and dispatch it. An exception of the delivery provider leaves
  nothing behind.
\<close>

definition dispatch ::
  "environment \<Rightarrow> wire_package \<Rightarrow> int \<Rightarrow> message_handler \<Rightarrow> world \<Rightarrow> world \<times> (fault + unit)" where
  "dispatch env query timeout_length handle_whole_response w =
     (case to_string (env_host env) query of
        Inl f \<Rightarrow> (w, Inl f)
      | Inr data \<Rightarrow>
          if transport_up w then
            let r = \<lparr>wr_data = data, wr_response_timeout = timeout_length,
                     wr_handler = handle_whole_response\<rparr>
            in (emit (Dispatched r) (w\<lparr>outstanding := outstanding w @ [r]\<rparr>), Inr ())
          else (w, Inl (System_error network_down)))"

definition draw_context ::
  "environment \<Rightarrow> object_access_parameters \<Rightarrow> request_failure_parameters \<Rightarrow> world \<Rightarrow>
   request_context \<times> world" where
  "draw_context env oap rfp w =
     (let (ctx, n) = application_request_context (env_uuid env) oap rfp (uuids_drawn w)
      in (ctx, w\<lparr>uuids_drawn := n\<rparr>))"

definition redraw_context ::
  "environment \<Rightarrow> request_context \<Rightarrow> world \<Rightarrow> request_context \<times> world" where
  "redraw_context env ctx w =
     (let (ctx', n) = copy_with_new_request_id (env_uuid env) ctx (uuids_drawn w)
      in (ctx', w\<lparr>uuids_drawn := n\<rparr>))"

subsection \<open>Deleting\<close>

definition delete_request :: "object_access_parameters \<Rightarrow> key \<Rightarrow> key \<Rightarrow> rpb_del_req" where
  "delete_request overridden bucket k =
     empty_del_req\<lparr>dq_bucket := bucket, dq_key := k,
       dq_r := ap_r overridden, dq_rw := ap_rw overridden, dq_w := ap_w overridden,
       dq_dw := ap_dw overridden, dq_pr := ap_pr overridden, dq_pw := ap_pw overridden\<rparr>"

definition delete_object ::
  "environment \<Rightarrow> client \<Rightarrow> key \<Rightarrow> key \<Rightarrow> app_handler \<Rightarrow> world \<Rightarrow> world \<times> (fault + unit)" where
  "delete_object env cl bucket k h w =
     (if bucket = [] \<or> k = [] then (w, Inl Assertion_failure)
      else
        let (ctx, w) = draw_context env (cl_access_overrides cl) (cl_failure_defaults cl) w;
            w = log_line ctx info [''DELETE '', [CHR 39], text_of bucket, [CHR 39], '' / '',
                  [CHR 39], text_of k, [CHR 39]] w;
            request = delete_request (cl_access_overrides cl) bucket k
        in dispatch env (encode_del_req (env_pb env) request)
             (fp_response_timeout (cl_failure_defaults cl)) (Accept_delete ctx h) w)"

definition accept_delete_response ::
  "environment \<Rightarrow> request_context \<Rightarrow> app_handler \<Rightarrow> error_code \<Rightarrow> nat \<Rightarrow> bytes \<Rightarrow> world \<Rightarrow>
   world \<times> (fault + bool)" where
  "accept_delete_response env ctx respond_to_application error bytes_received data w =
     (if \<not> is_error error then
        let w = log_line ctx trace [''Parsing server response ...''] w
        in case verify_code (env_host env) (env_indeterminate env) DeleteResponse bytes_received
               data of
             Inl f \<Rightarrow> (w, Inl f)
           | Inr True \<Rightarrow>
               let w = log_line ctx info [''Delete successful.''] w
               in (emit (Answered_delete respond_to_application (make_error_code no_failure)) w,
                   Inr True)
           | Inr False \<Rightarrow>
               let w = log_line ctx severe
                     [''Received something other than a DELETE reply (parsing failed).''] w
               in (emit (Answered_delete respond_to_application
                     (make_error_code unparseable_response)) w, Inr True)
      else case error_message env error of
             Inl f \<Rightarrow> (w, Inl f)
           | Inr text \<Rightarrow>
               let w = log_line ctx severe [''Request failed: '', text] w
               in (emit (Answered_delete respond_to_application error) w, Inr True))"

subsection \<open>Storing\<close>

text \<open>
  \<open>CopyFrom(*content)\<close> dereferences the shared pointer; \<open>None\<close> is the null pointer.
\<close>

definition basic_put_request_for ::
  "key \<Rightarrow> key \<Rightarrow> object option \<Rightarrow> request_context \<Rightarrow> fault + rpb_put_req" where
  "basic_put_request_for bucket k content ctx =
     (case content of
        None \<Rightarrow> Inl Null_dereference
      | Some c \<Rightarrow>
          let overridden = rc_access_overrides ctx
          in Inr (empty_put_req\<lparr>pq_bucket := bucket, pq_key := Some k, pq_content := c,
               pq_w := ap_w overridden, pq_dw := ap_dw overridden, pq_pw := ap_pw overridden\<rparr>))"

definition send_put_request ::
  "environment \<Rightarrow> request_context \<Rightarrow> rpb_put_req \<Rightarrow> message_handler \<Rightarrow> world \<Rightarrow>
   world \<times> (fault + unit)" where
  "send_put_request env ctx r handle_whole_put_response w =
     dispatch env (encode_put_req (env_pb env) r)
       (fp_response_timeout (rc_failure_defaults ctx)) handle_whole_put_response w"

definition put_with_vclock ::
  "environment \<Rightarrow> request_context \<Rightarrow> key \<Rightarrow> key \<Rightarrow> vector_clock option \<Rightarrow> object option \<Rightarrow>
   app_handler \<Rightarrow> world \<Rightarrow> world \<times> (fault + unit)" where
  "put_with_vclock env ctx bucket k vclock content application_response w =
     (let w = log_line ctx info [''PUT '', [CHR 39], text_of bucket, [CHR 39], '' / '',
                [CHR 39], text_of k, [CHR 39]] w
      in case basic_put_request_for bucket k content ctx of
           Inl f \<Rightarrow> (w, Inl f)
         | Inr request \<Rightarrow>
             let (request, w) = (case vclock of
                     Some vc \<Rightarrow> (request\<lparr>pq_vclock := Some vc\<rparr>,
                       log_line ctx trace
                         [''New value has vector clock '', [CHR 39], text_of vc, [CHR 39]] w)
                   | None \<Rightarrow> (request,
                       log_line ctx trace [''Putting new value (no ancestor).''] w));
                 request = request\<lparr>pq_return_body := Some False, pq_if_not_modified := Some False,
                   pq_if_none_match := Some False, pq_return_head := Some False\<rparr>
             in send_put_request env ctx request (Accept_put ctx application_response) w)"

definition put_resolved_sibling ::
  "environment \<Rightarrow> request_context \<Rightarrow> key \<Rightarrow> key \<Rightarrow> vector_clock \<Rightarrow> object \<Rightarrow> message_handler \<Rightarrow>
   world \<Rightarrow> world \<times> (fault + unit)" where
  "put_resolved_sibling env ctx bucket k vclock content response_handler w =
     (case basic_put_request_for bucket k (Some content) ctx of
        Inl f \<Rightarrow> (w, Inl f)
      | Inr request \<Rightarrow>
          let request = request\<lparr>pq_vclock := Some vclock, pq_return_body := Some False,
                pq_if_not_modified := Some False, pq_if_none_match := Some False,
                pq_return_head := Some True\<rparr>
          in send_put_request env ctx request response_handler w)"

definition accept_put_response ::
  "environment \<Rightarrow> request_context \<Rightarrow> app_handler \<Rightarrow> error_code \<Rightarrow> nat \<Rightarrow> bytes \<Rightarrow> world \<Rightarrow>
   world \<times> (fault + bool)" where
  "accept_put_response env ctx respond_to_application error bytes_received data w =
     (if \<not> is_error error then
        let w = log_line ctx trace [''Parsing server response ...''] w
        in case retrieve_put_resp (env_host env) (env_indeterminate env) (env_pb env)
               (length data) data of
             Inl f \<Rightarrow> (w, Inl f)
           | Inr (Some _) \<Rightarrow>
               let w = log_line ctx info [''PUT successful.''] w
               in (emit (Answered_put respond_to_application (make_error_code no_failure)) w,
                   Inr True)
           | Inr None \<Rightarrow>
               let w = log_line ctx severe
                     [''Received something other than a PUT reply (parsing failed).''] w
               in (emit (Answered_put respond_to_application
                     (make_error_code unparseable_response)) w, Inr True)
      else case error_message env error of
             Inl f \<Rightarrow> (w, Inl f)
           | Inr text \<Rightarrow>
               let w = log_line ctx severe [''Request failed: '', text] w
               in (emit (Answered_put respond_to_application error) w, Inr True))"

subsection \<open>Fetching\<close>

definition get_request :: "object_access_parameters \<Rightarrow> key \<Rightarrow> key \<Rightarrow> rpb_get_req" where
  "get_request overridden bucket k =
     empty_get_req\<lparr>gq_bucket := bucket, gq_key := k,
       gq_r := ap_r overridden, gq_pr := ap_pr overridden,
       gq_basic_quorum := ap_basic_quorum overridden,
       gq_notfound_ok := ap_notfound_ok overridden,
       gq_if_modified := None, gq_head := Some False, gq_deletedvclock := Some True\<rparr>"

definition run_get_request ::
  "environment \<Rightarrow> request_context \<Rightarrow> key \<Rightarrow> key \<Rightarrow> app_handler \<Rightarrow> world \<Rightarrow>
   world \<times> (fault + unit)" where
  "run_get_request env ctx bucket k handle_get_result w =
     (let request = get_request (rc_access_overrides ctx) bucket k
      in dispatch env (encode_get_req (env_pb env) request)
           (fp_response_timeout (rc_failure_defaults ctx))
           (Accept_get ctx bucket k handle_get_result) w)"

definition get_object ::
  "environment \<Rightarrow> client \<Rightarrow> key \<Rightarrow> key \<Rightarrow> app_handler \<Rightarrow> world \<Rightarrow> world \<times> (fault + unit)" where
  "get_object env cl bucket k handle_get_result w =
     (if bucket = [] \<or> k = [] then (w, Inl Assertion_failure)
      else
        let (ctx, w) = draw_context env (cl_access_overrides cl) (cl_failure_defaults cl) w;
            w = log_line ctx info [''GET '', [CHR 39], text_of bucket, [CHR 39], '' / '',
                  [CHR 39], text_of k, [CHR 39]] w
        in run_get_request env ctx bucket k handle_get_result w)"

definition resolve_siblings_and_put ::
  "environment \<Rightarrow> sibling_resolution \<Rightarrow> request_context \<Rightarrow> key \<Rightarrow> key \<Rightarrow> rpb_get_resp \<Rightarrow>
   app_handler \<Rightarrow> world \<Rightarrow> world \<times> (fault + unit)" where
  "resolve_siblings_and_put env resolve_siblings ctx bucket k response respond_to_application w =
     (if \<not> 1 < length (gs_content response) then (w, Inl Assertion_failure)
      else
        let vclock = (case gs_vclock response of None \<Rightarrow> [] | Some vc \<Rightarrow> vc)
        in case resolve_siblings (gs_content response) of
             Some resolved_content \<Rightarrow>
               let w = log_line ctx trace [''Resolved value has vector clock '', [CHR 39],
                         text_of vclock, [CHR 39], ''. Transmitting ...''] w
               in put_resolved_sibling env ctx bucket k vclock resolved_content
                    (Resolved_sibling ctx bucket k resolved_content respond_to_application) w
           | None \<Rightarrow>
               let w = log_line ctx warning
                     [''Sibling resolution yielded NULL. Responding as for '', [CHR 39],
                      ''no content'', [CHR 39], ''.''] w;
                   (new_ctx, w) = redraw_context env ctx w;
                   add_content = Put_value new_ctx bucket k None
               in (emit (Answered_get respond_to_application (make_error_code no_failure) None
                     add_content) w, Inr ()))"

definition accept_get_response ::
  "environment \<Rightarrow> sibling_resolution \<Rightarrow> request_context \<Rightarrow> key \<Rightarrow> key \<Rightarrow> app_handler \<Rightarrow>
   error_code \<Rightarrow> nat \<Rightarrow> bytes \<Rightarrow> world \<Rightarrow> world \<times> (fault + bool)" where
  "accept_get_response env resolve_siblings ctx bucket k respond_to_application error
     bytes_received data w =
     (let report_error = (\<lambda>e. emit (Answered_get respond_to_application e None No_value_updater))
      in if \<not> is_error error then
        let w = log_line ctx trace [''Parsing server response ...''] w
        in if bytes_received = 0 \<or> bytes_received \<noteq> length data then (w, Inl Assertion_failure)
        else case retrieve_get_resp (env_host env) (env_indeterminate env) (env_pb env)
               (length data) data of
          Inl f \<Rightarrow> (w, Inl f)
        | Inr (Some response) \<Rightarrow>
            let (new_ctx, w) = redraw_context env ctx w;
                add_content = Put_value new_ctx bucket k None
            in if 1 < length (gs_content response) then
              (case gs_vclock response of
                 Some _ \<Rightarrow>
                   let w = log_line ctx trace [''Found '',
                         string_of_nat (length (gs_content response)),
                         '' siblings; attempting resolution.''] w
                   in (case resolve_siblings_and_put env resolve_siblings ctx bucket k response
                         respond_to_application w of
                         (w, Inl f) \<Rightarrow> (w, Inl f)
                       | (w, Inr _) \<Rightarrow> (w, Inr True))
               | None \<Rightarrow>
                   let w = log_line ctx severe [''Found '',
                         string_of_nat (length (gs_content response)),
                         '' siblings with no vector clock -- cannot resolve.''] w
                   in (report_error (make_error_code inappropriate_response_content) w, Inr True))
            else if length (gs_content response) = 1 then
              (let the_value = last (gs_content response)
               in case gs_vclock response of
                 Some vc \<Rightarrow>
                   let w = log_line ctx info [''GET successful (found object).''] w;
                       update_content = Put_value new_ctx bucket k (Some vc)
                   in (emit (Answered_get respond_to_application (make_error_code no_failure)
                         (Some the_value) update_content) w, Inr True)
               | None \<Rightarrow>
                   let w = log_line ctx warning [''Found 1 object with no vector clock -- '',
                         ''storing to this index may create siblings.''] w
                   in (emit (Answered_get respond_to_application
                         (make_error_code missing_vector_clock) (Some the_value) add_content) w,
                       Inr True))
            else
              let w = log_line ctx info [''GET successful (no content).''] w
              in (emit (Answered_get respond_to_application (make_error_code no_failure) None
                    add_content) w, Inr True)
        | Inr None \<Rightarrow>
            let w = log_line ctx severe
                  [''Received a reply from the server that could not be decoded.''] w
            in (report_error (make_error_code unparseable_response) w, Inr True)
      else case error_message env error of
          Inl f \<Rightarrow> (w, Inl f)
        | Inr text \<Rightarrow>
            let w = log_line ctx severe [''Request failed: '', text] w
            in (report_error error w, Inr True))"

definition return_successfully_resolved_sibling_or_retry ::
  "environment \<Rightarrow> request_context \<Rightarrow> key \<Rightarrow> key \<Rightarrow> object \<Rightarrow> app_handler \<Rightarrow> error_code \<Rightarrow> nat \<Rightarrow>
   bytes \<Rightarrow> world \<Rightarrow> world \<times> (fault + bool)" where
  "return_successfully_resolved_sibling_or_retry env ctx bucket k cached_object
     respond_to_application error bytes_received data w =
     (let add_sibling = Put_value ctx bucket k None
      in if \<not> is_error error then
        let w = log_line ctx trace [''Processing result of sibling resolution ...''] w
        in if bytes_received = 0 \<or> bytes_received \<noteq> length data then (w, Inl Assertion_failure)
        else case retrieve_put_resp (env_host env) (env_indeterminate env) (env_pb env)
               (length data) data of
          Inl f \<Rightarrow> (w, Inl f)
        | Inr (Some response) \<Rightarrow>
            (case (length (ps_content response) = 1, ps_vclock response) of
               (True, Some vc) \<Rightarrow>
                 let put_new_value = Put_value ctx bucket k (Some vc);
                     w = log_line ctx info
                       [''GET successful after applying sibling resolution.''] w
                 in (emit (Answered_get respond_to_application (make_error_code no_failure)
                       (Some cached_object) put_new_value) w, Inr True)
             | _ \<Rightarrow>
                 let w = log_line ctx trace
                       [''Value collided again upon resolution. Fetching new siblings ...''] w
                 in (case run_get_request env ctx bucket k respond_to_application w of
                       (w, Inl f) \<Rightarrow> (w, Inl f)
                     | (w, Inr _) \<Rightarrow> (w, Inr True)))
        | Inr None \<Rightarrow>
            let w = log_line ctx severe [''Sibling resolution was interrupted by an unusable '',
                  ''response from the server.''] w
            in (emit (Answered_get respond_to_application (make_error_code unparseable_response)
                  None add_sibling) w, Inr True)
      else case error_message env error of
          Inl f \<Rightarrow> (w, Inl f)
        | Inr text \<Rightarrow>
            let w = log_line ctx severe [''Sibling resolution was interrupted by a network '',
                  ''failure: '', [CHR 34], text, [CHR 34]] w
            in (emit (Answered_get respond_to_application error None add_sibling) w, Inr True))"

subsection \<open>Calling a bound function\<close>

definition run_handler ::
  "environment \<Rightarrow> client \<Rightarrow> message_handler \<Rightarrow> error_code \<Rightarrow> nat \<Rightarrow> bytes \<Rightarrow> world \<Rightarrow>
   world \<times> (fault + bool)" where
  "run_handler env cl handler error n data w =
     (case handler of
        Accept_delete ctx h \<Rightarrow> accept_delete_response env ctx h error n data w
      | Accept_get ctx bucket k h \<Rightarrow>
          accept_get_response env (cl_resolve_siblings cl) ctx bucket k h error n data w
      | Accept_put ctx h \<Rightarrow> accept_put_response env ctx h error n data w
      | Resolved_sibling ctx bucket k cached h \<Rightarrow>
          return_successfully_resolved_sibling_or_retry env ctx bucket k cached h error n data w)"

text \<open>Calling an empty \<open>std::function\<close> throws.\<close>

definition run_updater ::
  "environment \<Rightarrow> value_updater \<Rightarrow> object option \<Rightarrow> app_handler \<Rightarrow> world \<Rightarrow>
   world \<times> (fault + unit)" where
  "run_updater env u content h w =
     (case u of
        No_value_updater \<Rightarrow> (w, Inl Bad_function_call)
      | Put_value ctx bucket k vclock \<Rightarrow> put_with_vclock env ctx bucket k vclock content h w)"

end
