(* ===== verification/Client_Accounting.thy ===== *)
theory Client_Accounting
  imports Client
begin

text \<open>
  Exactly one answer per operation. The client system is the world together with the list of
  application handlers that were accepted so far; its events are the application's calls and
  the replies that the transport hands to an outstanding request. The accounting invariant
  says that every accepted handler has been answered or has exactly one request outstanding.
\<close>

subsection \<open>Effects, simplified\<close>

lemma log_line_emit [client_simps]:
  "log_line ctx sev parts w = emit (Logged \<lparr>lr_severity = sev,
     lr_request_id = Some (rc_request_id ctx), lr_message = concat parts\<rparr>) w"
  by (simp add: log_line_def log_statement_accepted emit_def)

lemma emit_fields [simp]:
  "events (emit e w) = events w @ [e]"
  "outstanding (emit e w) = outstanding w"
  "transport_up (emit e w) = transport_up w"
  "uuids_drawn (emit e w) = uuids_drawn w"
  by (simp_all add: emit_def)

lemma to_string_package [simp]:
  "to_string en (encode_get_req pb g) = Inr (frame 9 (serialize_get_req pb g))"
  "to_string en (encode_put_req pb p) = Inr (frame 11 (serialize_put_req pb p))"
  "to_string en (encode_del_req pb d) = Inr (frame 13 (serialize_del_req pb d))"
  by (simp_all add: encode_get_req_def encode_put_req_def encode_del_req_def
      package_with_code_def code_defs to_string_frame)

lemma draw_context_eq [client_simps]:
  "draw_context env oap rfp w =
     (\<lparr>rc_access_overrides = oap, rc_failure_defaults = rfp,
       rc_request_id = env_uuid env (uuids_drawn w)\<rparr>,
      w\<lparr>uuids_drawn := Suc (uuids_drawn w)\<rparr>)"
  by (simp add: draw_context_def application_request_context_def)

lemma redraw_context_eq [client_simps]:
  "redraw_context env ctx w =
     (ctx\<lparr>rc_request_id := env_uuid env (uuids_drawn w)\<rparr>,
      w\<lparr>uuids_drawn := Suc (uuids_drawn w)\<rparr>)"
  by (simp add: redraw_context_def copy_with_new_request_id_def application_request_context_def)

subsection \<open>Counting answers and outstanding requests\<close>

fun handler_app :: "message_handler \<Rightarrow> app_handler" where
  "handler_app (Accept_delete ctx h) = h"
| "handler_app (Accept_get ctx b k h) = h"
| "handler_app (Accept_put ctx h) = h"
| "handler_app (Resolved_sibling ctx b k c h) = h"

fun answers_to :: "app_handler \<Rightarrow> event \<Rightarrow> bool" where
  "answers_to h (Answered_delete h' e) = (h = h')"
| "answers_to h (Answered_put h' e) = (h = h')"
| "answers_to h (Answered_get h' e c u) = (h = h')"
| "answers_to h (Logged r) = False"
| "answers_to h (Dispatched r) = False"

definition answers :: "app_handler \<Rightarrow> world \<Rightarrow> nat" where
  "answers h w = length (filter (answers_to h) (events w))"

definition waiting :: "app_handler \<Rightarrow> world \<Rightarrow> nat" where
  "waiting h w = length (filter (\<lambda>r. handler_app (wr_handler r) = h) (outstanding w))"

definition credit :: "app_handler \<Rightarrow> world \<Rightarrow> nat" where
  "credit h w = answers h w + waiting h w"

text \<open>\<open>gains h n w w'\<close>: between the worlds, \<open>n h'\<close> is the growth of the credit.\<close>

definition gains :: "app_handler \<Rightarrow> world \<Rightarrow> world \<Rightarrow> bool" where
  "gains h w w' \<longleftrightarrow> (\<forall>h'. credit h' w' = credit h' w + (if h' = h then 1 else 0)) \<and>
     transport_up w' = transport_up w"

lemma credit_emit [simp]: "credit h (emit e w) = credit h w + (if answers_to h e then 1 else 0)"
  by (simp add: credit_def answers_def waiting_def)

lemma credit_uuids [simp]: "credit h (w\<lparr>uuids_drawn := n\<rparr>) = credit h w"
  by (simp add: credit_def answers_def waiting_def)

lemma gains_log [simp]: "gains h (log_line ctx sev parts w) w' = gains h w w'"
  by (simp add: gains_def client_simps)

lemma gains_uuids [simp]: "gains h (w\<lparr>uuids_drawn := n\<rparr>) w' = gains h w w'"
  by (simp add: gains_def)

lemma gains_answer [intro]:
  "gains h w (emit (Answered_delete h e) w)"
  "gains h w (emit (Answered_put h e) w)"
  "gains h w (emit (Answered_get h e c u) w)"
  by (simp_all add: gains_def)

lemma gains_log_answer [simp]:
  "gains h w (emit (Answered_delete h e) (log_line ctx sev parts w'))
     \<longleftrightarrow> gains h w (emit (Answered_delete h e) w')"
  "gains h w (emit (Answered_put h e) (log_line ctx sev parts w'))
     \<longleftrightarrow> gains h w (emit (Answered_put h e) w')"
  "gains h w (emit (Answered_get h e c u) (log_line ctx sev parts w'))
     \<longleftrightarrow> gains h w (emit (Answered_get h e c u) w')"
  by (simp_all add: gains_def client_simps)

lemma gains_uuids_answer [simp]:
  "gains h w (emit (Answered_get h e c u) (w'\<lparr>uuids_drawn := n\<rparr>))
     \<longleftrightarrow> gains h w (emit (Answered_get h e c u) w')"
  by (simp add: gains_def)

lemma transport_up_log [simp]: "transport_up (log_line ctx sev parts w) = transport_up w"
  by (simp add: client_simps)

text \<open>A dispatch that succeeds is one more request outstanding; one that fails is nothing.\<close>

lemma dispatch_gains:
  "dispatch env q t handler w = (w', Inr u) \<Longrightarrow> gains (handler_app handler) w w'"
  by (auto simp: dispatch_def gains_def credit_def answers_def waiting_def Let_def
      split: sum.splits if_splits)

lemma dispatch_fault: "dispatch env q t handler w = (w', Inl f) \<Longrightarrow> w' = w"
  by (auto simp: dispatch_def Let_def split: sum.splits if_splits)

subsection \<open>Every operation adds one credit\<close>

lemma run_get_request_gains:
  "run_get_request env ctx b k h w = (w', Inr u) \<Longrightarrow> gains h w w'"
  by (auto simp: run_get_request_def dest: dispatch_gains)

lemma put_resolved_sibling_gains:
  "put_resolved_sibling env ctx b k vc c handler w = (w', Inr u) \<Longrightarrow> gains (handler_app handler) w w'"
  by (auto simp: put_resolved_sibling_def send_put_request_def Let_def
      split: sum.splits dest: dispatch_gains)

lemma put_with_vclock_gains:
  "put_with_vclock env ctx b k vc c h w = (w', Inr u) \<Longrightarrow> gains h w w'"
  by (auto simp: put_with_vclock_def send_put_request_def Let_def
      split: sum.splits option.splits dest!: dispatch_gains)

lemma get_object_gains: "get_object env cl b k h w = (w', Inr u) \<Longrightarrow> gains h w w'"
  by (auto simp: get_object_def draw_context_eq Let_def split: if_splits
      dest!: run_get_request_gains)

lemma delete_object_gains: "delete_object env cl b k h w = (w', Inr u) \<Longrightarrow> gains h w w'"
  by (auto simp: delete_object_def draw_context_eq Let_def split: if_splits dest!: dispatch_gains)

lemma run_updater_gains: "run_updater env u c h w = (w', Inr x) \<Longrightarrow> gains h w w'"
  by (auto simp: run_updater_def split: value_updater.splits dest: put_with_vclock_gains)

lemma resolve_siblings_and_put_gains:
  "resolve_siblings_and_put env sr ctx b k resp h w = (w', Inr u) \<Longrightarrow> gains h w w'"
  by (auto simp: resolve_siblings_and_put_def redraw_context_eq Let_def
      split: if_splits option.splits dest!: put_resolved_sibling_gains)

lemma accept_delete_gains:
  "accept_delete_response env ctx h e n d w = (w', Inr r) \<Longrightarrow> gains h w w' \<and> r"
  by (auto simp: accept_delete_response_def Let_def split: if_splits sum.splits bool.splits)

lemma accept_put_gains:
  "accept_put_response env ctx h e n d w = (w', Inr r) \<Longrightarrow> gains h w w' \<and> r"
  by (auto simp: accept_put_response_def Let_def split: if_splits sum.splits option.splits)

lemma accept_get_gains:
  "accept_get_response env sr ctx b k h e n d w = (w', Inr r) \<Longrightarrow> gains h w w' \<and> r"
  by (auto simp: accept_get_response_def redraw_context_eq Let_def
      split: if_splits sum.splits option.splits prod.splits dest!: resolve_siblings_and_put_gains)

lemma retry_gains:
  "return_successfully_resolved_sibling_or_retry env ctx b k c h e n d w = (w', Inr r) \<Longrightarrow>
   gains h w w' \<and> r"
  by (auto simp: return_successfully_resolved_sibling_or_retry_def Let_def
      split: if_splits sum.splits option.splits prod.splits bool.splits
      dest!: run_get_request_gains)

lemma run_handler_gains:
  "run_handler env cl handler e n d w = (w', Inr r) \<Longrightarrow> gains (handler_app handler) w w' \<and> r"
  by (auto simp: run_handler_def split: message_handler.splits
      dest: accept_delete_gains accept_put_gains accept_get_gains retry_gains)

subsection \<open>An operation that throws adds none\<close>

definition keeps :: "world \<Rightarrow> world \<Rightarrow> bool" where
  "keeps w w' \<longleftrightarrow> (\<forall>h. credit h w' = credit h w) \<and> transport_up w' = transport_up w"

lemma keeps_simps [simp]:
  "keeps w w"
  "keeps (log_line ctx sev parts w) w' = keeps w w'"
  "keeps (w\<lparr>uuids_drawn := n\<rparr>) w' = keeps w w'"
  "keeps w (log_line ctx sev parts w') = keeps w w'"
  "keeps w (w'\<lparr>uuids_drawn := n\<rparr>) = keeps w w'"
  by (simp_all add: keeps_def client_simps)

lemma get_object_fault: "get_object env cl b k h w = (w', Inl f) \<Longrightarrow> keeps w w'"
  by (auto simp: get_object_def run_get_request_def draw_context_eq Let_def
      split: if_splits dest!: dispatch_fault)

lemma delete_object_fault: "delete_object env cl b k h w = (w', Inl f) \<Longrightarrow> keeps w w'"
  by (auto simp: delete_object_def draw_context_eq Let_def split: if_splits dest!: dispatch_fault)

lemma run_updater_fault: "run_updater env u c h w = (w', Inl f) \<Longrightarrow> keeps w w'"
  by (auto simp: run_updater_def put_with_vclock_def send_put_request_def Let_def
      split: value_updater.splits sum.splits option.splits dest!: dispatch_fault)

subsection \<open>Replies that no handler fails on\<close>

text \<open>
  What reaches a message handler: an error whose text exists, or a complete message with a
  code, whose size is passed along.
\<close>

definition has_text :: "error_code \<Rightarrow> bool" where
  "has_text e \<longleftrightarrow> (ec_category e = communication_failure_category \<longrightarrow>
     failure_of_value (ec_value e) \<noteq> None)"

definition sound_reply :: "error_code \<Rightarrow> nat \<Rightarrow> bytes \<Rightarrow> bool" where
  "sound_reply e n d \<longleftrightarrow>
     (if is_error e then has_text e else complete_message d \<and> 5 \<le> length d \<and> n = length d)"

lemma has_text_make_error_code [simp]: "has_text (make_error_code f)"
  by (simp add: has_text_def make_error_code_def)

lemma error_message_text: "has_text e \<Longrightarrow> \<exists>t. error_message env e = Inr t"
  by (auto simp: error_message_def has_text_def category_message_def split: error_category.splits
      communication_failure.splits)

lemma dispatch_up:
  "transport_up w \<Longrightarrow> to_string (env_host env) q = Inr data \<Longrightarrow>
   \<exists>w'. dispatch env q t handler w = (w', Inr ())"
  by (simp add: dispatch_def Let_def)

lemma run_get_request_up:
  "transport_up w \<Longrightarrow> \<exists>w'. run_get_request env ctx b k h w = (w', Inr ())"
  by (simp add: run_get_request_def dispatch_up)

lemma put_resolved_sibling_up:
  "transport_up w \<Longrightarrow> \<exists>w'. put_resolved_sibling env ctx b k vc c handler w = (w', Inr ())"
  by (simp add: put_resolved_sibling_def basic_put_request_for_def send_put_request_def
      dispatch_up Let_def)

lemma resolve_siblings_and_put_up:
  assumes "transport_up w" and "1 < length (gs_content resp)"
  shows "\<exists>w'. resolve_siblings_and_put env sr ctx b k resp h w = (w', Inr ())"
  using assms
  by (auto simp: resolve_siblings_and_put_def redraw_context_eq Let_def
      intro!: put_resolved_sibling_up split: option.splits)

lemma retrieve_sound [wire_simps]:
  assumes "complete_message d" and "5 \<le> length d" and "length (ind_length ind) = 4"
  shows "retrieve_get_resp en ind pb (length d) d =
      Inr (if d ! 4 = 10 then parse_get_resp pb (drop 5 d) else None)"
    and "retrieve_put_resp en ind pb (length d) d =
      Inr (if d ! 4 = 12 then parse_put_resp pb (drop 5 d) else None)"
    and "verify_code en ind DeleteResponse (length d) d = Inr (d ! 4 = 14)"
  using assms by (simp_all add: retrieve_get_resp_def retrieve_put_resp_def code_defs
      retrieve_complete verify_complete)

lemma accept_delete_sound:
  assumes "sound_reply e n d" and "length (ind_length (env_indeterminate env)) = 4"
  shows "\<exists>w'. accept_delete_response env ctx h e n d w = (w', Inr True)"
  using assms error_message_text [of e env]
  by (auto simp: sound_reply_def accept_delete_response_def retrieve_sound Let_def
      split: bool.splits)

lemma accept_put_sound:
  assumes "sound_reply e n d" and "length (ind_length (env_indeterminate env)) = 4"
  shows "\<exists>w'. accept_put_response env ctx h e n d w = (w', Inr True)"
  using assms error_message_text [of e env]
  by (auto simp: sound_reply_def accept_put_response_def retrieve_sound Let_def
      split: option.splits)

text \<open>The tail of a handler that starts another request, and then reports completion.\<close>

lemma then_True:
  "\<exists>w'. X = (w', Inr ()) \<Longrightarrow>
   \<exists>w'. (case X of (w, Inl f) \<Rightarrow> (w, Inl f) | (w, Inr _) \<Rightarrow> (w, Inr True)) = (w', Inr True)"
  by auto

lemma accept_get_sound:
  assumes "sound_reply e n d" and "length (ind_length (env_indeterminate env)) = 4"
    and "transport_up w"
  shows "\<exists>w'. accept_get_response env sr ctx b k h e n d w = (w', Inr True)"
proof (cases "is_error e")
  case True
  with assms error_message_text [of e env] show ?thesis
    by (auto simp: sound_reply_def accept_get_response_def Let_def)
next
  case False
  then have "complete_message d" "5 \<le> length d" "n = length d" "d \<noteq> []"
    using assms(1) by (auto simp: sound_reply_def)
  with False assms(2,3) show ?thesis
    by (cases "if d ! 4 = 10 then parse_get_resp (env_pb env) (drop 5 d) else None")
      (simp_all add: accept_get_response_def retrieve_sound redraw_context_eq Let_def
        then_True resolve_siblings_and_put_up split: option.split)
qed

lemma retry_sound:
  assumes "sound_reply e n d" and "length (ind_length (env_indeterminate env)) = 4"
    and "transport_up w"
  shows "\<exists>w'. return_successfully_resolved_sibling_or_retry env ctx b k c h e n d w = (w', Inr True)"
proof (cases "is_error e")
  case True
  with assms error_message_text [of e env] show ?thesis
    by (auto simp: sound_reply_def return_successfully_resolved_sibling_or_retry_def Let_def)
next
  case False
  then have "complete_message d" "5 \<le> length d" "n = length d" "d \<noteq> []"
    using assms(1) by (auto simp: sound_reply_def)
  with False assms(2,3) show ?thesis
    by (cases "if d ! 4 = 12 then parse_put_resp (env_pb env) (drop 5 d) else None")
      (simp_all add: return_successfully_resolved_sibling_or_retry_def retrieve_sound Let_def
        then_True run_get_request_up split: option.split bool.split)
qed

lemma run_handler_sound:
  assumes "sound_reply e n d" and "length (ind_length (env_indeterminate env)) = 4"
    and "transport_up w"
  shows "\<exists>w'. run_handler env cl handler e n d w = (w', Inr True)"
  using assms by (cases handler) (simp_all add: run_handler_def accept_delete_sound
      accept_put_sound accept_get_sound retry_sound)

subsection \<open>The client system\<close>

datatype client_event =
    App_get key key app_handler
  | App_delete key key app_handler
  | App_put value_updater "object option" app_handler
  | Reply nat error_code nat bytes

definition accept_call ::
  "app_handler \<Rightarrow> app_handler list \<Rightarrow> world \<times> (fault + unit) \<Rightarrow> world \<times> app_handler list" where
  "accept_call h issued res =
     (case res of (w, Inl f) \<Rightarrow> (w, issued) | (w, Inr _) \<Rightarrow> (w, issued @ [h]))"

text \<open>
  A reply takes its request out of the outstanding ones and runs the handler. A reply to a
  request that is not outstanding does nothing.
\<close>

fun client_step ::
  "environment \<Rightarrow> client \<Rightarrow> world \<times> app_handler list \<Rightarrow> client_event \<Rightarrow> world \<times> app_handler list"
where
  "client_step env cl (w, issued) (App_get b k h) =
     accept_call h issued (get_object env cl b k h w)"
| "client_step env cl (w, issued) (App_delete b k h) =
     accept_call h issued (delete_object env cl b k h w)"
| "client_step env cl (w, issued) (App_put u c h) =
     accept_call h issued (run_updater env u c h w)"
| "client_step env cl (w, issued) (Reply i e n d) =
     (if i < length (outstanding w) then
        (fst (run_handler env cl (wr_handler (outstanding w ! i)) e n d
           (w\<lparr>outstanding := take i (outstanding w) @ drop (Suc i) (outstanding w)\<rparr>)), issued)
      else (w, issued))"

fun sound_event :: "client_event \<Rightarrow> bool" where
  "sound_event (Reply i e n d) = sound_reply e n d"
| "sound_event _ = True"

definition accounted :: "world \<times> app_handler list \<Rightarrow> bool" where
  "accounted st \<longleftrightarrow> (\<forall>h. credit h (fst st) = count_list (snd st) h) \<and> transport_up (fst st)"

lemma count_list_append: "count_list (xs @ ys) x = count_list xs x + count_list ys x"
  by (induction xs) auto

lemma accept_call_accounted:
  assumes "accounted (w, issued)"
    and "\<And>w' u. res = (w', Inr u) \<Longrightarrow> gains h w w'"
    and "\<And>w' f. res = (w', Inl f) \<Longrightarrow> keeps w w'"
  shows "accounted (accept_call h issued res)"
proof (cases res)
  case (Pair w' r)
  with assms show ?thesis
    by (cases r) (auto simp: accept_call_def accounted_def gains_def keeps_def count_list_append)
qed

lemma waiting_remove:
  assumes "i < length (outstanding w)"
  shows "waiting h w =
    waiting h (w\<lparr>outstanding := take i (outstanding w) @ drop (Suc i) (outstanding w)\<rparr>) +
    (if handler_app (wr_handler (outstanding w ! i)) = h then 1 else 0)"
proof -
  have "outstanding w = take i (outstanding w) @ outstanding w ! i # drop (Suc i) (outstanding w)"
    using assms by (rule id_take_nth_drop)
  then have "waiting h w = length (filter (\<lambda>r. handler_app (wr_handler r) = h)
      (take i (outstanding w) @ outstanding w ! i # drop (Suc i) (outstanding w)))"
    by (simp only: waiting_def)
  then show ?thesis by (simp add: waiting_def)
qed

lemma reply_accounted:
  assumes acc: "accounted (w, issued)" and "sound_reply e n d"
    and "length (ind_length (env_indeterminate env)) = 4" and i: "i < length (outstanding w)"
  shows "accounted (client_step env cl (w, issued) (Reply i e n d))"
proof -
  define r where "r = wr_handler (outstanding w ! i)"
  define v where "v = w\<lparr>outstanding := take i (outstanding w) @ drop (Suc i) (outstanding w)\<rparr>"
  have up: "transport_up v" using acc by (simp add: v_def accounted_def)
  with assms obtain w' where w': "run_handler env cl r e n d v = (w', Inr True)"
    using run_handler_sound by blast
  then have gain: "gains (handler_app r) v w'" by (blast dest: run_handler_gains)
  have credit: "credit h w = credit h v + (if handler_app r = h then 1 else 0)" for h
    using waiting_remove [OF i, of h] by (simp add: credit_def answers_def v_def r_def)
  have step: "client_step env cl (w, issued) (Reply i e n d) = (w', issued)"
    using i w' by (simp add: v_def r_def)
  have "credit h w' = count_list issued h" for h
  proof -
    have "credit h w' = credit h v + (if h = handler_app r then 1 else 0)"
      using gain by (simp add: gains_def)
    also have "\<dots> = credit h w" using credit [of h] by (simp add: eq_commute)
    also have "\<dots> = count_list issued h" using acc by (simp add: accounted_def)
    finally show ?thesis .
  qed
  moreover have "transport_up w'" using gain up by (simp add: gains_def)
  ultimately show ?thesis by (simp only: step) (simp add: accounted_def)
qed

lemma client_step_accounted:
  assumes "accounted st" and "sound_event ev"
    and ind: "length (ind_length (env_indeterminate env)) = 4"
  shows "accounted (client_step env cl st ev)"
proof -
  obtain w issued where st: "st = (w, issued)" by (cases st)
  show ?thesis
  proof (cases ev)
    case (Reply i e n d)
    with assms st show ?thesis
      using reply_accounted [of w issued e n d env i cl]
      by (cases "i < length (outstanding w)") auto
  qed (use assms st in \<open>auto intro!: accept_call_accounted
      dest: get_object_gains get_object_fault delete_object_gains delete_object_fault
        run_updater_gains run_updater_fault\<close>)
qed

interpretation client_system: step_system
  "client_step env cl"
  "\<lambda>_ ev. sound_event ev \<and> length (ind_length (env_indeterminate env)) = 4" accounted
  for env cl
  by unfold_locales (auto intro: client_step_accounted)

end
