(* ===== verification/Demo.thy ===== *)
theory Demo
  imports Client_Accounting
begin

text \<open>
  A concrete environment and client, at which the witnesses of the library evaluate its
  theorems. The protocol buffer library is instantiated by a small format of two bytes for
  responses (the number of values, and a vector clock that is absent when the byte is 0) and
  by the concatenation of bucket and key for requests.
\<close>

definition demo_object :: "byte \<Rightarrow> object" where
  "demo_object b = empty_content\<lparr>ct_value := [b]\<rparr>"

fun demo_values :: "nat \<Rightarrow> object list" where
  "demo_values 0 = []"
| "demo_values (Suc n) = demo_object (word_of_nat n) # demo_values n"

definition demo_vclock :: "byte \<Rightarrow> vector_clock option" where
  "demo_vclock v = (if v = 0 then None else Some [v])"

fun demo_parse_get :: "bytes \<Rightarrow> rpb_get_resp option" where
  "demo_parse_get [n, v] =
     Some \<lparr>gs_content = demo_values (unat n), gs_vclock = demo_vclock v, gs_unchanged = None\<rparr>"
| "demo_parse_get _ = None"

fun demo_parse_put :: "bytes \<Rightarrow> rpb_put_resp option" where
  "demo_parse_put [n, v] =
     Some \<lparr>ps_content = demo_values (unat n), ps_vclock = demo_vclock v, ps_key = None\<rparr>"
| "demo_parse_put _ = None"

definition demo_pb :: protobuf where
  "demo_pb = \<lparr>serialize_get_req = (\<lambda>q. gq_bucket q @ gq_key q),
     serialize_put_req = (\<lambda>q. pq_bucket q), serialize_del_req = (\<lambda>q. dq_bucket q @ dq_key q),
     parse_get_req = (\<lambda>_. None), parse_put_req = (\<lambda>_. None),
     parse_get_resp = demo_parse_get, parse_put_resp = demo_parse_put\<rparr>"

definition demo_env :: environment where
  "demo_env = \<lparr>env_pb = demo_pb, env_host = Little_endian,
     env_indeterminate = \<lparr>ind_length = [0, 0, 0, 0], ind_code = 0\<rparr>,
     env_uuid = word_of_nat, env_strerror = (\<lambda>_ _. ''error'')\<rparr>"

definition demo_client :: client where
  "demo_client = make_client (\<lambda>s. Some (demo_object 42)) failure_defaults access_override_defaults"

definition demo_world :: world where
  "demo_world = \<lparr>uuids_drawn = 0, transport_up = True, outstanding = [], events = []\<rparr>"

lemma demo_world_simps [simp]:
  "uuids_drawn demo_world = 0" "transport_up demo_world" "outstanding demo_world = []"
  "events demo_world = []"
  by (simp_all add: demo_world_def)

lemma demo_env_simps [simp]:
  "env_pb demo_env = demo_pb" "env_host demo_env = Little_endian"
  "length (ind_length (env_indeterminate demo_env)) = 4"
  "env_strerror demo_env c v = ''error''" "env_uuid demo_env = word_of_nat"
  by (simp_all add: demo_env_def)

text \<open>Replies of the demonstration server.\<close>

definition reply_get :: "byte \<Rightarrow> byte \<Rightarrow> bytes" where
  "reply_get n v = [0, 0, 0, 3, 10, n, v]"

definition reply_put :: "byte \<Rightarrow> byte \<Rightarrow> bytes" where
  "reply_put n v = [0, 0, 0, 3, 12, n, v]"

definition reply_delete :: bytes where
  "reply_delete = [0, 0, 0, 1, 14]"

lemma complete_reply [simp]:
  "complete_message (reply_get n v)" "complete_message (reply_put n v)"
  "complete_message reply_delete"
  by (simp_all add: complete_message_def reply_get_def reply_put_def reply_delete_def
      word32_of_be_def)

lemma length_reply [simp]:
  "length (reply_get n v) = 7" "length (reply_put n v) = 7" "length reply_delete = 5"
  by (simp_all add: reply_get_def reply_put_def reply_delete_def)

lemma demo_values_simps [simp]:
  "demo_values 1 = [demo_object 0]" "demo_values 2 = [demo_object 1, demo_object 0]"
  by (simp_all add: numeral_2_eq_2)

lemma reply_parts [simp]:
  "reply_get n v ! 4 = 10" "reply_put n v ! 4 = 12" "reply_delete ! 4 = 14"
  "drop 5 (reply_get n v) = [n, v]" "drop 5 (reply_put n v) = [n, v]" "drop 5 reply_delete = []"
  by (simp_all add: reply_get_def reply_put_def reply_delete_def)

lemma demo_pb_simps [simp]:
  "parse_get_resp demo_pb = demo_parse_get" "parse_put_resp demo_pb = demo_parse_put"
  by (simp_all add: demo_pb_def)

lemma demo_client_simps [simp]:
  "cl_resolve_siblings demo_client = (\<lambda>s. Some (demo_object 42))"
  "cl_access_overrides demo_client = access_override_defaults"
  "cl_failure_defaults demo_client = failure_defaults"
  by (simp_all add: demo_client_def make_client_def)

lemma demo_sound [simp]:
  "sound_reply std_no_error 7 (reply_get n v)" "sound_reply std_no_error 7 (reply_put n v)"
  "sound_reply std_no_error 5 reply_delete"
  by (simp_all add: sound_reply_def)

end
