(* ===== verification/Get_Protocol.thy ===== *)
theory Get_Protocol
  imports Demo
begin

text \<open>
  The contract of a fetch: an abstract machine over decoded replies, which the callbacks of the
  request runner implement. A fetch is waiting for the reply to a GET, waiting for the reply to
  the PUT that stores a resolved sibling, or finished with what the application was told. The
  theory shows that every reply drives the code as it drives the machine, and derives what an
  application may rely on over a whole conversation.
\<close>

subsection \<open>The abstract machine\<close>

datatype update_kind = No_update | Add_value | Update_value vector_clock

datatype get_state =
    Fetching
  | Storing object
  | Finished error_code "object option" update_kind

datatype decoded_reply =
    Failed error_code
  | Garbled
  | Got rpb_get_resp
  | Stored rpb_put_resp

fun fetched :: "sibling_resolution \<Rightarrow> rpb_get_resp \<Rightarrow> get_state" where
  "fetched resolve resp = (case gs_content resp of
       [] \<Rightarrow> Finished (make_error_code no_failure) None Add_value
     | [c] \<Rightarrow> (case gs_vclock resp of
           Some vc \<Rightarrow> Finished (make_error_code no_failure) (Some c) (Update_value vc)
         | None \<Rightarrow> Finished (make_error_code missing_vector_clock) (Some c) Add_value)
     | sibs \<Rightarrow> (case gs_vclock resp of
           None \<Rightarrow> Finished (make_error_code inappropriate_response_content) None No_update
         | Some vc \<Rightarrow> (case resolve sibs of
               Some c \<Rightarrow> Storing c
             | None \<Rightarrow> Finished (make_error_code no_failure) None Add_value)))"

fun stored :: "object \<Rightarrow> rpb_put_resp \<Rightarrow> get_state" where
  "stored c resp = (case (ps_content resp, ps_vclock resp) of
       ([_], Some vc) \<Rightarrow> Finished (make_error_code no_failure) (Some c) (Update_value vc)
     | _ \<Rightarrow> Fetching)"

fun get_protocol :: "sibling_resolution \<Rightarrow> get_state \<Rightarrow> decoded_reply \<Rightarrow> get_state" where
  "get_protocol resolve Fetching (Failed e) = Finished e None No_update"
| "get_protocol resolve Fetching (Got resp) = fetched resolve resp"
| "get_protocol resolve Fetching _ = Finished (make_error_code unparseable_response) None No_update"
| "get_protocol resolve (Storing c) (Failed e) = Finished e None Add_value"
| "get_protocol resolve (Storing c) (Stored resp) = stored c resp"
| "get_protocol resolve (Storing c) _ =
     Finished (make_error_code unparseable_response) None Add_value"
| "get_protocol resolve (Finished e c u) _ = Finished e c u"

declare fetched.simps [simp del] stored.simps [simp del]

subsection \<open>The code's state, seen abstractly\<close>

fun update_kind_of :: "value_updater \<Rightarrow> update_kind" where
  "update_kind_of No_value_updater = No_update"
| "update_kind_of (Put_value ctx b k None) = Add_value"
| "update_kind_of (Put_value ctx b k (Some vc)) = Update_value vc"

fun updater_on :: "key \<Rightarrow> key \<Rightarrow> value_updater \<Rightarrow> bool" where
  "updater_on b k No_value_updater = True"
| "updater_on b k (Put_value ctx b' k' vc) = (b = b' \<and> k = k')"

text \<open>The handler of an outstanding request of the fetch \<open>(b, k, h)\<close>, as a state.\<close>

fun handler_state :: "key \<Rightarrow> key \<Rightarrow> app_handler \<Rightarrow> message_handler \<Rightarrow> get_state option" where
  "handler_state b k h (Accept_get ctx b' k' h') =
     (if b = b' \<and> k = k' \<and> h = h' then Some Fetching else None)"
| "handler_state b k h (Resolved_sibling ctx b' k' c h') =
     (if b = b' \<and> k = k' \<and> h = h' then Some (Storing c) else None)"
| "handler_state b k h _ = None"

fun event_state :: "key \<Rightarrow> key \<Rightarrow> app_handler \<Rightarrow> event \<Rightarrow> get_state option" where
  "event_state b k h (Dispatched r) = handler_state b k h (wr_handler r)"
| "event_state b k h (Answered_get h' e c u) =
     (if h = h' \<and> updater_on b k u then Some (Finished e c (update_kind_of u)) else None)"
| "event_state b k h _ = None"

definition world_state :: "key \<Rightarrow> key \<Rightarrow> app_handler \<Rightarrow> world \<Rightarrow> get_state option" where
  "world_state b k h w =
     (if events w = [] then None else event_state b k h (last (events w)))"

text \<open>What a reply means to the handler that waits for it: a GET or a PUT response.\<close>

fun decode_reply :: "protobuf \<Rightarrow> get_state \<Rightarrow> error_code \<Rightarrow> bytes \<Rightarrow> decoded_reply" where
  "decode_reply pb st e d =
     (if is_error e then Failed e
      else case st of
        Fetching \<Rightarrow>
          (case (if d ! 4 = 10 then parse_get_resp pb (drop 5 d) else None) of
             Some r \<Rightarrow> Got r | None \<Rightarrow> Garbled)
      | _ \<Rightarrow>
          (case (if d ! 4 = 12 then parse_put_resp pb (drop 5 d) else None) of
             Some r \<Rightarrow> Stored r | None \<Rightarrow> Garbled))"

declare decode_reply.simps [simp del]

lemma world_state_emit [simp]: "world_state b k h (emit e w) = event_state b k h e"
  by (simp add: world_state_def)

subsection \<open>One reply\<close>

lemma dispatch_result:
  "transport_up w \<Longrightarrow> to_string (env_host env) q = Inr data \<Longrightarrow>
   dispatch env q t handler w =
     (emit (Dispatched \<lparr>wr_data = data, wr_response_timeout = t, wr_handler = handler\<rparr>)
       (w\<lparr>outstanding := outstanding w @
          [\<lparr>wr_data = data, wr_response_timeout = t, wr_handler = handler\<rparr>]\<rparr>), Inr ())"
  by (simp add: dispatch_def Let_def)

lemma run_get_request_state:
  "transport_up w \<Longrightarrow> \<exists>w'. run_get_request env ctx b k h w = (w', Inr ()) \<and>
     world_state b k h w' = Some Fetching"
  by (simp add: run_get_request_def dispatch_result Let_def)

lemma resolve_siblings_state:
  assumes "transport_up w" and "1 < length (gs_content resp)" and "gs_vclock resp = Some vc"
  shows "\<exists>w'. resolve_siblings_and_put env resolve ctx b k resp h w = (w', Inr ()) \<and>
    world_state b k h w' = Some (fetched resolve resp)"
proof -
  obtain x y zs where "gs_content resp = x # y # zs"
    using assms(2) by (cases "gs_content resp"; cases "tl (gs_content resp)") auto
  with assms show ?thesis
    by (simp add: resolve_siblings_and_put_def put_resolved_sibling_def send_put_request_def
        basic_put_request_for_def dispatch_result redraw_context_eq fetched.simps
        log_line_emit Let_def split: option.split)
qed

text \<open>Both ways on lead to the same tail.\<close>

lemma then_True_state:
  "\<exists>w'. X = (w', Inr ()) \<and> P w' \<Longrightarrow>
   \<exists>w'. (case X of (w, Inl f) \<Rightarrow> (w, Inl f) | (w, Inr _) \<Rightarrow> (w, Inr True)) = (w', Inr True) \<and> P w'"
  by auto

lemma length_1_conv: "length xs = Suc 0 \<longleftrightarrow> (\<exists>x. xs = [x])"
  by (auto simp: length_Suc_conv)

lemma accept_get_state:
  assumes "sound_reply e n d" and "length (ind_length (env_indeterminate env)) = 4"
    and "transport_up w"
  shows "\<exists>w'. accept_get_response env resolve ctx b k h e n d w = (w', Inr True) \<and>
    world_state b k h w' =
      Some (get_protocol resolve Fetching (decode_reply (env_pb env) Fetching e d))"
proof (cases "is_error e")
  case True
  with assms error_message_text [of e env] show ?thesis
    by (auto simp: sound_reply_def accept_get_response_def decode_reply.simps Let_def)
next
  case False
  then have d: "complete_message d" "5 \<le> length d" "n = length d" "d \<noteq> []"
    using assms(1) by (auto simp: sound_reply_def)
  show ?thesis
  proof (cases "if d ! 4 = 10 then parse_get_resp (env_pb env) (drop 5 d) else None")
    case None
    with False d assms(2) show ?thesis
      by (simp add: accept_get_response_def retrieve_sound decode_reply.simps Let_def)
  next
    case (Some resp)
    show ?thesis
    proof (cases "gs_content resp")
      case Nil
      with False d assms(2) Some show ?thesis
        by (simp add: accept_get_response_def retrieve_sound decode_reply.simps fetched.simps
            redraw_context_eq Let_def)
    next
      case (Cons c cs)
      show ?thesis
      proof (cases "cs = [] \<or> gs_vclock resp = None")
        case True
        with Cons False d assms(2) Some show ?thesis
          by (cases cs) (auto simp: accept_get_response_def retrieve_sound decode_reply.simps
              fetched.simps redraw_context_eq Let_def split: option.split)
      next
        case more: False
        then have "1 < length (gs_content resp)" and "\<exists>vc. gs_vclock resp = Some vc"
          using Cons by auto
        with False d assms(2,3) Some show ?thesis
          by (auto simp: accept_get_response_def retrieve_sound decode_reply.simps
              redraw_context_eq Let_def intro!: then_True_state resolve_siblings_state)
      qed
    qed
  qed
qed

lemma retry_state:
  assumes "sound_reply e n d" and "length (ind_length (env_indeterminate env)) = 4"
    and "transport_up w"
  shows "\<exists>w'. return_successfully_resolved_sibling_or_retry env ctx b k c h e n d w = (w', Inr True) \<and>
    world_state b k h w' = Some (get_protocol resolve (Storing c)
      (decode_reply (env_pb env) (Storing c) e d))"
proof (cases "is_error e")
  case True
  with assms error_message_text [of e env] show ?thesis
    by (auto simp: sound_reply_def return_successfully_resolved_sibling_or_retry_def
        decode_reply.simps Let_def)
next
  case False
  then have d: "complete_message d" "5 \<le> length d" "n = length d" "d \<noteq> []"
    using assms(1) by (auto simp: sound_reply_def)
  show ?thesis
  proof (cases "if d ! 4 = 12 then parse_put_resp (env_pb env) (drop 5 d) else None")
    case None
    with False d assms(2) show ?thesis
      by (simp add: return_successfully_resolved_sibling_or_retry_def retrieve_sound
          decode_reply.simps Let_def)
  next
    case (Some resp)
    show ?thesis
    proof (cases "length (ps_content resp) = 1 \<and> ps_vclock resp \<noteq> None")
      case True
      with False d assms(2) Some show ?thesis
        by (auto simp: return_successfully_resolved_sibling_or_retry_def retrieve_sound
            decode_reply.simps stored.simps length_1_conv Let_def)
    next
      case again: False
      then have "stored c resp = Fetching"
        by (auto simp: stored.simps split: list.split option.split)
      with again False d assms(2,3) Some show ?thesis
        by (auto simp: return_successfully_resolved_sibling_or_retry_def retrieve_sound
            decode_reply.simps Let_def intro!: then_True_state run_get_request_state
            split: bool.split option.split)
    qed
  qed
qed

text \<open>The simulation: a reply takes the code where it takes the machine.\<close>

lemma run_handler_simulates:
  assumes "handler_state b k h handler = Some st" and "sound_reply e n d"
    and "length (ind_length (env_indeterminate env)) = 4" and "transport_up w"
  shows "\<exists>w'. run_handler env cl handler e n d w = (w', Inr True) \<and>
    world_state b k h w' = Some (get_protocol (cl_resolve_siblings cl) st
      (decode_reply (env_pb env) st e d))"
  using assms
  by (cases handler)
    (auto simp: run_handler_def split: if_splits intro: accept_get_state retry_state)

subsection \<open>A whole conversation\<close>

text \<open>
  The replies to one fetch, each for the request that the reaction to the one before it
  dispatched. The conversation is over when a handler answers instead of dispatching.
\<close>

type_synonym raw_reply = "error_code \<times> nat \<times> bytes"

fun sound_raw :: "raw_reply \<Rightarrow> bool" where
  "sound_raw (e, n, d) = sound_reply e n d"

fun conversation ::
  "environment \<Rightarrow> client \<Rightarrow> message_handler \<Rightarrow> raw_reply list \<Rightarrow> world \<Rightarrow> world" where
  "conversation env cl handler [] w = w"
| "conversation env cl handler ((e, n, d) # rs) w =
     (case run_handler env cl handler e n d w of
        (w', Inl f) \<Rightarrow> w'
      | (w', Inr _) \<Rightarrow>
          (case last (events w') of
             Dispatched r \<Rightarrow> conversation env cl (wr_handler r) rs w'
           | _ \<Rightarrow> w'))"

fun protocol_run ::
  "sibling_resolution \<Rightarrow> protobuf \<Rightarrow> get_state \<Rightarrow> raw_reply list \<Rightarrow> get_state" where
  "protocol_run resolve pb st [] = st"
| "protocol_run resolve pb st ((e, n, d) # rs) =
     protocol_run resolve pb (get_protocol resolve st (decode_reply pb st e d)) rs"

lemma protocol_run_Finished [simp]:
  "protocol_run resolve pb (Finished e c u) rs = Finished e c u"
  by (induction rs) auto

lemma world_state_cases:
  assumes "world_state b k h w = Some st"
  obtains (Waiting) r where "last (events w) = Dispatched r" "handler_state b k h (wr_handler r) = Some st"
  | (Over) h' e c u where "last (events w) = Answered_get h' e c u" "st = Finished e c (update_kind_of u)"
  using assms by (cases "last (events w)") (auto simp: world_state_def split: if_splits)

lemma conversation_simulates:
  assumes "handler_state b k h handler = Some st" and "world_state b k h w = Some st"
    and "\<forall>r \<in> set rs. sound_raw r" and "transport_up w"
    and ind: "length (ind_length (env_indeterminate env)) = 4"
  shows "world_state b k h (conversation env cl handler rs w) =
    Some (protocol_run (cl_resolve_siblings cl) (env_pb env) st rs)"
  using assms(1-4)
proof (induction rs arbitrary: handler st w)
  case (Cons r rs)
  obtain e n d where r: "r = (e, n, d)" by (cases r)
  define st' where "st' = get_protocol (cl_resolve_siblings cl) st (decode_reply (env_pb env) st e d)"
  from Cons.prems r obtain w' where w': "run_handler env cl handler e n d w = (w', Inr True)"
    and st': "world_state b k h w' = Some st'"
    using run_handler_simulates [of b k h handler st e n d env w cl] ind by (auto simp: st'_def)
  have up: "transport_up w'"
    using run_handler_gains [OF w'] Cons.prems(4) by (simp add: gains_def)
  from st' show ?case
  proof (cases rule: world_state_cases)
    case (Waiting q)
    with Cons.IH [OF Waiting(2) st' _ up] Cons.prems(3) r w' show ?thesis
      by (simp add: st'_def)
  next
    case (Over h' e' c u)
    with r w' st' show ?thesis by (simp add: st'_def)
  qed
qed simp

subsection \<open>Collisions\<close>

text \<open>
  A collision is a reply that sends the machine back from storing to fetching. Without one, a
  fetch is over after two replies.
\<close>

fun collisions :: "sibling_resolution \<Rightarrow> protobuf \<Rightarrow> get_state \<Rightarrow> raw_reply list \<Rightarrow> nat" where
  "collisions resolve pb st [] = 0"
| "collisions resolve pb st ((e, n, d) # rs) =
     (let st' = get_protocol resolve st (decode_reply pb st e d)
      in (if st' = Fetching then 1 else 0) + collisions resolve pb st' rs)"

fun is_finished :: "get_state \<Rightarrow> bool" where
  "is_finished (Finished e c u) = True"
| "is_finished _ = False"

lemma get_protocol_not_Fetching: "get_protocol resolve Fetching r \<noteq> Fetching"
  by (cases r) (auto simp: fetched.simps split: list.split option.split)

lemma get_protocol_Storing_Storing: "get_protocol resolve (Storing c) r \<noteq> Storing c'"
  by (cases r) (auto simp: stored.simps split: list.split option.split)

lemma unfinished_length:
  "\<not> is_finished (protocol_run resolve pb st rs) \<Longrightarrow>
   length rs \<le> 2 * collisions resolve pb st rs + (if st = Fetching then 1 else 0)"
proof (induction rs arbitrary: st)
  case (Cons r rs)
  obtain e n d where r: "r = (e, n, d)" by (cases r)
  define st' where "st' = get_protocol resolve st (decode_reply pb st e d)"
  have IH: "length rs \<le> 2 * collisions resolve pb st' rs + (if st' = Fetching then 1 else 0)"
    using Cons r by (simp add: st'_def)
  show ?case
  proof (cases st)
    case Fetching
    then have "st' \<noteq> Fetching" using get_protocol_not_Fetching by (simp add: st'_def)
    with IH Fetching r show ?thesis by (simp add: st'_def Let_def)
  next
    case (Storing c)
    show ?thesis
    proof (cases "st' = Fetching")
      case True
      with IH Storing r show ?thesis by (simp add: st'_def Let_def)
    next
      case False
      then have "is_finished st'"
        using Storing get_protocol_Storing_Storing by (cases st') (auto simp: st'_def)
      with Cons.prems r show ?thesis by (cases st') (auto simp: st'_def)
    qed
  next
    case (Finished e' c u)
    with Cons.prems show ?thesis by simp
  qed
qed simp

end
