(* ===== verification/Client_Properties.thy ===== *)
theory Client_Properties
  imports Get_Protocol
begin

text \<open>
  The properties of the client: every accepted operation is answered exactly once, a fetch
  follows its protocol, errors end an operation at once, what is sent carries what the
  application asked for, and a value that was read is stored with the vector clock under which
  it was read. The section before them holds the facts they share.
\<close>

subsection \<open>First requests and single answers\<close>

lemma get_object_state:
  assumes "b \<noteq> []" and "k \<noteq> []" and "transport_up w"
  shows "\<exists>w' r. get_object env cl b k h w = (w', Inr ()) \<and> last (events w') = Dispatched r \<and>
    handler_state b k h (wr_handler r) = Some Fetching \<and> world_state b k h w' = Some Fetching \<and>
    transport_up w'"
  using assms
  by (simp add: get_object_def run_get_request_def dispatch_result draw_context_eq log_line_emit
      Let_def)

text \<open>The error that an answer reports.\<close>

fun reports :: "error_code \<Rightarrow> event \<Rightarrow> bool" where
  "reports e (Answered_delete h e') = (e = e')"
| "reports e (Answered_put h e') = (e = e')"
| "reports e (Answered_get h e' c u) = (e = e' \<and> c = None)"
| "reports e _ = False"

lemma run_handler_error:
  assumes "is_error e" and "has_text e"
  shows "\<exists>w' r a. run_handler env cl handler e n d w = (w', Inr True) \<and>
    events w' = events w @ [Logged r, a] \<and> answers_to (handler_app handler) a \<and> reports e a \<and>
    outstanding w' = outstanding w"
proof -
  obtain t where t: "error_message env e = Inr t" using error_message_text [OF assms(2)] by blast
  show ?thesis
    using assms(1) t
    by (cases handler)
      (simp_all add: run_handler_def accept_delete_response_def accept_put_response_def
        accept_get_response_def return_successfully_resolved_sibling_or_retry_def log_line_emit
        Let_def)
qed

subsection \<open>Collisions without end\<close>

lemma protocol_run_append:
  "protocol_run resolve pb st (xs @ ys) = protocol_run resolve pb (protocol_run resolve pb st xs) ys"
  by (induction resolve pb st xs rule: protocol_run.induct) auto

lemma fetch_store_collision:
  assumes "\<not> is_error e" and "d ! 4 = 10" and "parse_get_resp pb (drop 5 d) = Some resp"
    and "1 < length (gs_content resp)" and "gs_vclock resp = Some vc"
    and "resolve (gs_content resp) = Some c"
    and "\<not> is_error e'" and "d' ! 4 = 12" and "parse_put_resp pb (drop 5 d') = Some presp"
    and "length (ps_content presp) \<noteq> 1 \<or> ps_vclock presp = None"
  shows "protocol_run resolve pb Fetching [(e, n, d), (e', n', d')] = Fetching"
proof -
  obtain x y zs where "gs_content resp = x # y # zs"
    using assms(4) by (cases "gs_content resp"; cases "tl (gs_content resp)") auto
  moreover have "stored c presp = Fetching"
    using assms(10) by (auto simp: stored.simps split: list.split option.split)
  ultimately show ?thesis
    using assms by (simp add: decode_reply.simps fetched.simps)
qed

lemma endless_collisions:
  assumes "protocol_run resolve pb Fetching rs = Fetching"
  shows "protocol_run resolve pb Fetching (concat (replicate m rs)) = Fetching"
  by (induction m) (simp_all add: protocol_run_append assms)

subsection \<open>What is sent\<close>

text \<open>The message that stores a value, and the message that stores a resolved sibling.\<close>

definition store_message ::
  "request_context \<Rightarrow> key \<Rightarrow> key \<Rightarrow> vector_clock option \<Rightarrow> object \<Rightarrow> bool \<Rightarrow> rpb_put_req" where
  "store_message ctx b k vc c return_head =
     \<lparr>pq_bucket = b, pq_key = Some k, pq_vclock = vc, pq_content = c,
      pq_w = ap_w (rc_access_overrides ctx), pq_dw = ap_dw (rc_access_overrides ctx),
      pq_return_body = Some False, pq_pw = ap_pw (rc_access_overrides ctx),
      pq_if_not_modified = Some False, pq_if_none_match = Some False,
      pq_return_head = Some return_head\<rparr>"

lemma put_with_vclock_sends:
  assumes "transport_up w"
  shows "\<exists>w' r. put_with_vclock env ctx b k vc (Some c) h w = (w', Inr ()) \<and>
    last (events w') = Dispatched r \<and> wr_handler r = Accept_put ctx h \<and>
    wr_data r = frame 11 (serialize_put_req (env_pb env) (store_message ctx b k vc c False))"
  using assms
  by (auto simp: put_with_vclock_def basic_put_request_for_def send_put_request_def
      dispatch_result log_line_emit empty_put_req_def store_message_def Let_def split: option.split)

lemma accept_get_single:
  assumes "complete_message d" and "5 \<le> length d" and "d ! 4 = 10"
    and "length (ind_length (env_indeterminate env)) = 4"
    and "parse_get_resp (env_pb env) (drop 5 d) = Some resp"
    and "gs_content resp = [obj]" and "gs_vclock resp = Some vc"
  shows "\<exists>w' new. run_handler env cl (Accept_get ctx b k h) std_no_error (length d) d w =
      (w', Inr True) \<and>
    last (events w') = Answered_get h (make_error_code no_failure) (Some obj)
      (Put_value new b k (Some vc)) \<and>
    rc_access_overrides new = rc_access_overrides ctx \<and> transport_up w' = transport_up w"
proof -
  have "d \<noteq> []" using assms(2) by auto
  with assms show ?thesis
    by (simp add: run_handler_def accept_get_response_def retrieve_sound redraw_context_eq
        log_line_emit Let_def)
qed

text \<open>What the replies of the demonstration server mean.\<close>

lemma demo_decode:
  "decode_reply demo_pb Fetching std_no_error (reply_get n v) =
     Got \<lparr>gs_content = demo_values (unat n), gs_vclock = demo_vclock v, gs_unchanged = None\<rparr>"
  "decode_reply demo_pb (Storing c) std_no_error (reply_put n v) =
     Stored \<lparr>ps_content = demo_values (unat n), ps_vclock = demo_vclock v, ps_key = None\<rparr>"
  by (simp_all add: decode_reply.simps)

subsection \<open>Properties of the client\<close>

text \<open>
  C4: Exactly one answer. Start from a world without requests and let anything happen: fetches,
  stores and deletions, each accepted or refused, and replies of any content (or errors) to any
  outstanding request in any order. Then every application handler has been answered, or has a
  request outstanding, exactly as often as it was accepted; none is answered twice, and none is
  forgotten, however many siblings were resolved and retried on the way.
\<close>

theorem exactly_one_answer:
  assumes "events w0 = []" and "outstanding w0 = []" and "transport_up w0"
    and "length (ind_length (env_indeterminate env)) = 4"
    and "list_all sound_event evs"
    and "run_steps (client_step env cl) (w0, []) evs = (w, issued)"
  shows "answers h w + waiting h w = count_list issued h"
proof -
  have "accounted (w0, [])"
    using assms(1-3) by (simp add: accounted_def credit_def answers_def waiting_def)
  then have "accounted (run_steps (client_step env cl) (w0, []) evs)"
    by (rule client_system.run_inv_always) (use assms(4,5) in \<open>auto simp: list_all_iff\<close>)
  with assms(6) show ?thesis by (simp add: accounted_def credit_def)
qed

theorem exactly_one_answer_witness:
  "\<exists>w. run_steps (client_step demo_env demo_client) (demo_world, [])
      [App_get [1] [2] 7, Reply 0 std_no_error 7 (reply_get 2 5),
       Reply 0 std_no_error 7 (reply_put 1 6)] = (w, [7]) \<and>
     answers 7 w + waiting 7 w = 1"
proof -
  let ?evs = "[App_get [1] [2] 7, Reply 0 std_no_error 7 (reply_get 2 5),
      Reply 0 std_no_error 7 (reply_put 1 6)]"
  have "snd (run_steps (client_step demo_env demo_client) (demo_world, []) ?evs) = [7]"
    by (simp add: accept_call_def get_object_def run_get_request_def dispatch_result
        draw_context_eq log_line_emit Let_def)
  then obtain w where w: "run_steps (client_step demo_env demo_client) (demo_world, []) ?evs = (w, [7])"
    by (metis prod.collapse)
  have "list_all sound_event ?evs" by simp
  from exactly_one_answer [OF _ _ _ _ this w, of 7] w show ?thesis by simp
qed

text \<open>
  C5: A fetch refines its protocol. The first request of a fetch and the handlers of its replies
  run in step with the abstract machine: after any list of replies, each to the request that the
  handling of the one before it sent, the last thing the code did is to send the request that
  the machine waits for, or to give the application the result that the machine ends with.
\<close>

theorem fetch_refines_protocol:
  assumes "b \<noteq> []" and "k \<noteq> []" and "transport_up w"
    and "length (ind_length (env_indeterminate env)) = 4"
    and "list_all sound_raw rs"
  shows "\<exists>w' r. get_object env cl b k h w = (w', Inr ()) \<and> last (events w') = Dispatched r \<and>
    world_state b k h (conversation env cl (wr_handler r) rs w') =
      Some (protocol_run (cl_resolve_siblings cl) (env_pb env) Fetching rs)"
proof -
  obtain w' r where "get_object env cl b k h w = (w', Inr ())" "last (events w') = Dispatched r"
    and "handler_state b k h (wr_handler r) = Some Fetching" "world_state b k h w' = Some Fetching"
    and "transport_up w'"
    using get_object_state [OF assms(1-3)] by blast
  with conversation_simulates [OF this(3,4), of rs env cl] assms(4,5) show ?thesis
    by (auto simp: list_all_iff)
qed

theorem fetch_refines_protocol_witness:
  "\<exists>w' r. get_object demo_env demo_client [1] [2] 7 demo_world = (w', Inr ()) \<and>
     last (events w') = Dispatched r \<and>
     world_state [1] [2] 7 (conversation demo_env demo_client (wr_handler r)
       [(std_no_error, 7, reply_get 2 5), (std_no_error, 7, reply_put 1 6)] w') =
     Some (Finished (make_error_code no_failure) (Some (demo_object 42)) (Update_value [6]))"
  using fetch_refines_protocol [of "[1]" "[2]" demo_world demo_env
      "[(std_no_error, 7, reply_get 2 5), (std_no_error, 7, reply_put 1 6)]" demo_client 7]
  by (simp add: demo_decode fetched.simps stored.simps demo_vclock_def)

text \<open>
  C12: A fetch ends. As long as the resolved sibling does not collide again, two replies are
  enough; every collision costs at most two more. So once more than \<open>2 * collisions + 1\<close>
  replies have arrived, the application has its answer.
\<close>

theorem fetch_ends:
  assumes "b \<noteq> []" and "k \<noteq> []" and "transport_up w"
    and "length (ind_length (env_indeterminate env)) = 4"
    and "list_all sound_raw rs"
    and "2 * collisions (cl_resolve_siblings cl) (env_pb env) Fetching rs + 1 < length rs"
  shows "\<exists>w' r e c u. get_object env cl b k h w = (w', Inr ()) \<and>
    last (events w') = Dispatched r \<and>
    last (events (conversation env cl (wr_handler r) rs w')) = Answered_get h e c u"
proof -
  obtain w' r where w': "get_object env cl b k h w = (w', Inr ())" "last (events w') = Dispatched r"
    and r: "handler_state b k h (wr_handler r) = Some Fetching" "world_state b k h w' = Some Fetching"
    and up: "transport_up w'"
    using get_object_state [OF assms(1-3)] by blast
  have "is_finished (protocol_run (cl_resolve_siblings cl) (env_pb env) Fetching rs)"
    using unfinished_length [of "cl_resolve_siblings cl" "env_pb env" Fetching rs] assms(6) by auto
  then obtain e c u where
    "protocol_run (cl_resolve_siblings cl) (env_pb env) Fetching rs = Finished e c u"
    by (auto elim: is_finished.elims)
  with conversation_simulates [OF r, of rs env cl] up assms(4,5)
  have fin: "world_state b k h (conversation env cl (wr_handler r) rs w') = Some (Finished e c u)"
    by (simp add: list_all_iff)
  then have "\<exists>u. last (events (conversation env cl (wr_handler r) rs w')) = Answered_get h e c u"
  proof (cases rule: world_state_cases)
    case (Waiting q)
    then show ?thesis by (cases "wr_handler q") (auto split: if_splits)
  next
    case (Over h' e' c' u)
    with fin show ?thesis by (auto simp: world_state_def split: if_splits)
  qed
  with w' show ?thesis by blast
qed

theorem fetch_ends_witness:
  "\<exists>w' r e c u. get_object demo_env demo_client [1] [2] 7 demo_world = (w', Inr ()) \<and>
     last (events w') = Dispatched r \<and>
     last (events (conversation demo_env demo_client (wr_handler r)
       [(std_no_error, 7, reply_get 2 5), (std_no_error, 7, reply_put 1 6)] w')) =
     Answered_get 7 e c u"
  by (rule fetch_ends) (simp_all add: demo_decode fetched.simps stored.simps demo_vclock_def)

text \<open>
  Nothing bounds the retries of a fetch. If every GET finds siblings that resolve, and every
  store of the resolved sibling collides, then after any number of rounds the code has sent the
  next GET and the application has heard nothing.
\<close>

theorem fetch_may_never_end:
  assumes "b \<noteq> []" and "k \<noteq> []" and "transport_up w"
    and "length (ind_length (env_indeterminate env)) = 4"
    and "sound_reply std_no_error n d" and "sound_reply std_no_error n' d'"
    and "d ! 4 = 10" and "parse_get_resp (env_pb env) (drop 5 d) = Some resp"
    and "1 < length (gs_content resp)" and "gs_vclock resp = Some vc"
    and "cl_resolve_siblings cl (gs_content resp) = Some c"
    and "d' ! 4 = 12" and "parse_put_resp (env_pb env) (drop 5 d') = Some presp"
    and "length (ps_content presp) \<noteq> 1 \<or> ps_vclock presp = None"
  shows "\<exists>w' r. get_object env cl b k h w = (w', Inr ()) \<and> last (events w') = Dispatched r \<and>
    world_state b k h (conversation env cl (wr_handler r)
      (concat (replicate rounds [(std_no_error, n, d), (std_no_error, n', d')])) w') = Some Fetching"
proof -
  let ?rs = "concat (replicate rounds [(std_no_error, n, d), (std_no_error, n', d')])"
  obtain w' r where w': "get_object env cl b k h w = (w', Inr ())" "last (events w') = Dispatched r"
    and r: "handler_state b k h (wr_handler r) = Some Fetching" "world_state b k h w' = Some Fetching"
    and up: "transport_up w'"
    using get_object_state [OF assms(1-3)] by blast
  have "protocol_run (cl_resolve_siblings cl) (env_pb env) Fetching ?rs = Fetching"
    using fetch_store_collision [where resolve = "cl_resolve_siblings cl",
        OF is_error_std_no_error assms(7-11) is_error_std_no_error assms(12-14)]
    by (rule endless_collisions)
  moreover have "\<forall>r \<in> set ?rs. sound_raw r" using assms(5,6) by auto
  ultimately show ?thesis
    using w' conversation_simulates [OF r, of ?rs env cl] up assms(4) by auto
qed

theorem fetch_may_never_end_witness:
  "\<exists>w' r. get_object demo_env demo_client [1] [2] 7 demo_world = (w', Inr ()) \<and>
     last (events w') = Dispatched r \<and>
     world_state [1] [2] 7 (conversation demo_env demo_client (wr_handler r)
       (concat (replicate 1000 [(std_no_error, 7, reply_get 2 5), (std_no_error, 7, reply_put 2 6)]))
       w') = Some Fetching"
  by (rule fetch_may_never_end [where vc = "[5]"
        and resp = "\<lparr>gs_content = demo_values 2, gs_vclock = Some [5], gs_unchanged = None\<rparr>"
        and presp = "\<lparr>ps_content = demo_values 2, ps_vclock = Some [6], ps_key = None\<rparr>"])
    (simp_all add: demo_vclock_def)

text \<open>
  C10: Read, modify, write. A value that was read with a vector clock comes with an updater that
  stores the new value under exactly that vector clock, at the bucket and key it was read from,
  with the access overrides of the client; the bytes that go out are the frame of that message.
\<close>

theorem read_modify_write_keeps_vclock:
  assumes "complete_message d" and "5 \<le> length d" and "d ! 4 = 10"
    and "length (ind_length (env_indeterminate env)) = 4"
    and "parse_get_resp (env_pb env) (drop 5 d) = Some resp"
    and "gs_content resp = [obj]" and "gs_vclock resp = Some vc" and "transport_up w"
  shows "\<exists>w' u. run_handler env cl (Accept_get ctx b k h) std_no_error (length d) d w = (w', Inr True) \<and>
    last (events w') = Answered_get h (make_error_code no_failure) (Some obj) u \<and>
    (\<exists>w'' r. run_updater env u (Some c) h' w' = (w'', Inr ()) \<and> last (events w'') = Dispatched r \<and>
      wr_data r = frame 11 (serialize_put_req (env_pb env) (store_message ctx b k (Some vc) c False)))"
proof -
  obtain w' new where w': "run_handler env cl (Accept_get ctx b k h) std_no_error (length d) d w =
      (w', Inr True)"
    and "last (events w') = Answered_get h (make_error_code no_failure) (Some obj)
      (Put_value new b k (Some vc))"
    and new: "rc_access_overrides new = rc_access_overrides ctx" and up: "transport_up w'"
    using accept_get_single [OF assms(1-7), of cl ctx b k h w] assms(8) by auto
  moreover have "store_message new b k (Some vc) c False = store_message ctx b k (Some vc) c False"
    using new by (simp add: store_message_def)
  ultimately show ?thesis
    using put_with_vclock_sends [OF up, of env new b k "Some vc" c h']
    by (auto simp: run_updater_def)
qed

theorem read_modify_write_keeps_vclock_witness:
  "\<exists>w' u. run_handler demo_env demo_client (Accept_get \<lparr>rc_access_overrides = default_access,
      rc_failure_defaults = failure_defaults, rc_request_id = 0\<rparr> [1] [2] 7) std_no_error
      (length (reply_get 1 5)) (reply_get 1 5) demo_world = (w', Inr True) \<and>
    last (events w') = Answered_get 7 (make_error_code no_failure) (Some (demo_object 0)) u \<and>
    (\<exists>w'' r. run_updater demo_env u (Some (demo_object 3)) 8 w' = (w'', Inr ()) \<and>
      last (events w'') = Dispatched r \<and>
      wr_data r = frame 11 (serialize_put_req (env_pb demo_env)
        (store_message \<lparr>rc_access_overrides = default_access,
           rc_failure_defaults = failure_defaults, rc_request_id = 0\<rparr> [1] [2] (Some [5])
           (demo_object 3) False)))"
  by (rule read_modify_write_keeps_vclock [of _ _ "\<lparr>gs_content = [demo_object 0],
        gs_vclock = Some [5], gs_unchanged = None\<rparr>"])
    (simp_all add: demo_vclock_def)

text \<open>
  C20: An error ends an operation. Whatever a handler was waiting for, and however many retries
  the failure parameters permit, an error makes it log one line and give the application one
  answer that reports the error and no value; it sends nothing.
\<close>

theorem errors_are_final:
  assumes "is_error e" and "has_text e"
  shows "\<exists>w' r a. run_handler env cl handler e n d w = (w', Inr True) \<and>
    events w' = events w @ [Logged r, a] \<and> answers_to (handler_app handler) a \<and> reports e a \<and>
    outstanding w' = outstanding w"
  using assms by (rule run_handler_error)

theorem errors_are_final_witness:
  "\<exists>w' r a. run_handler demo_env
      (make_client (\<lambda>_. None) (with_retries_permitted 5 failure_defaults) default_access)
      (Accept_get \<lparr>rc_access_overrides = default_access,
         rc_failure_defaults = with_retries_permitted 5 failure_defaults, rc_request_id = 0\<rparr>
         [1] [2] 7) (make_errc 104) 0 [] demo_world = (w', Inr True) \<and>
    events w' = events demo_world @ [Logged r, a] \<and> answers_to (handler_app
      (Accept_get \<lparr>rc_access_overrides = default_access,
         rc_failure_defaults = with_retries_permitted 5 failure_defaults, rc_request_id = 0\<rparr>
         [1] [2] 7)) a \<and>
    reports (make_errc 104) a \<and> outstanding w' = outstanding demo_world"
  by (rule errors_are_final) (simp_all add: has_text_def make_errc_def is_error_def)

text \<open>
  C14: What the store receives for a fetch. If the protocol buffer library reads back the request
  it wrote, then the store, of either byte order, decodes from the bytes handed to the transport
  the bucket and the key, the client's read quorums and flags (each present exactly when it was
  overridden), and the two fixed flags; the request waits as long as the failure parameters say.
\<close>

theorem fetch_request_received:
  assumes "b \<noteq> []" and "k \<noteq> []" and "transport_up w"
    and "parse_get_req (env_pb env) (serialize_get_req (env_pb env)
      (get_request (cl_access_overrides cl) b k)) = Some (get_request (cl_access_overrides cl) b k)"
    and "1 + length (serialize_get_req (env_pb env) (get_request (cl_access_overrides cl) b k)) < 2 ^ 32"
    and "length (ind_length ind) = 4"
  shows "\<exists>w' r. get_object env cl b k h w = (w', Inr ()) \<and> last (events w') = Dispatched r \<and>
    wr_response_timeout r = fp_response_timeout (cl_failure_defaults cl) \<and>
    retrieve_get_req store ind (env_pb env) (length (wr_data r)) (wr_data r) =
      Inr (Some \<lparr>gq_bucket = b, gq_key = k,
        gq_r = ap_r (cl_access_overrides cl), gq_pr = ap_pr (cl_access_overrides cl),
        gq_basic_quorum = ap_basic_quorum (cl_access_overrides cl),
        gq_notfound_ok = ap_notfound_ok (cl_access_overrides cl),
        gq_if_modified = None, gq_head = Some False, gq_deletedvclock = Some True\<rparr>)"
proof -
  let ?q = "get_request (cl_access_overrides cl) b k"
  let ?f = "frame 9 (serialize_get_req (env_pb env) ?q)"
  have received: "retrieve_get_req store ind (env_pb env) (length ?f) ?f = Inr (Some ?q)"
    using retrieve_complete [OF complete_frame [OF assms(5)] _ assms(6), of 9 store 9
        "parse_get_req (env_pb env)"] assms(4)
    by (simp add: retrieve_get_req_def GetRequest_def)
  have "?q = \<lparr>gq_bucket = b, gq_key = k,
        gq_r = ap_r (cl_access_overrides cl), gq_pr = ap_pr (cl_access_overrides cl),
        gq_basic_quorum = ap_basic_quorum (cl_access_overrides cl),
        gq_notfound_ok = ap_notfound_ok (cl_access_overrides cl),
        gq_if_modified = None, gq_head = Some False, gq_deletedvclock = Some True\<rparr>"
    by (simp add: get_request_def empty_get_req_def)
  with assms(1-3) received show ?thesis
    by (auto simp: get_object_def run_get_request_def dispatch_result draw_context_eq log_line_emit
        Let_def simp del: length_frame)
qed

theorem fetch_request_received_witness:
  "\<exists>w' r. get_object (demo_env\<lparr>env_pb := demo_pb\<lparr>parse_get_req :=
        (\<lambda>_. Some (get_request (with_r 2 default_access) [1] [2]))\<rparr>\<rparr>)
      (make_client (\<lambda>_. None) failure_defaults (with_r 2 default_access)) [1] [2] 7 demo_world =
      (w', Inr ()) \<and>
    last (events w') = Dispatched r \<and> wr_response_timeout r = 3000 \<and>
    retrieve_get_req Big_endian \<lparr>ind_length = [0, 0, 0, 0], ind_code = 0\<rparr>
      (demo_pb\<lparr>parse_get_req := (\<lambda>_. Some (get_request (with_r 2 default_access) [1] [2]))\<rparr>)
      (length (wr_data r)) (wr_data r) =
      Inr (Some \<lparr>gq_bucket = [1], gq_key = [2], gq_r = Some 2, gq_pr = None, gq_basic_quorum = None,
        gq_notfound_ok = None, gq_if_modified = None, gq_head = Some False,
        gq_deletedvclock = Some True\<rparr>)"
  using fetch_request_received [of "[1]" "[2]" demo_world
      "demo_env\<lparr>env_pb := demo_pb\<lparr>parse_get_req :=
        (\<lambda>_. Some (get_request (with_r 2 default_access) [1] [2]))\<rparr>\<rparr>"
      "make_client (\<lambda>_. None) failure_defaults (with_r 2 default_access)"
      "\<lparr>ind_length = [0, 0, 0, 0], ind_code = 0\<rparr>" 7 Big_endian]
  by (simp add: make_client_def demo_pb_def get_request_def empty_get_req_def with_r_def
      default_access_def failure_defaults_def with_retries_permitted_def with_response_timeout_def)

text \<open>
  C15: What the store receives for a stored value: the bucket, the key, the value, the vector
  clock it was read under (if any) and the client's write quorums, under the same assumption on
  the protocol buffer library.
\<close>

theorem store_request_received:
  assumes "transport_up w" and "q = store_message ctx b k vc c False"
    and "parse_put_req (env_pb env) (serialize_put_req (env_pb env) q) = Some q"
    and "1 + length (serialize_put_req (env_pb env) q) < 2 ^ 32"
    and "length (ind_length ind) = 4"
  shows "\<exists>w' r. run_updater env (Put_value ctx b k vc) (Some c) h w = (w', Inr ()) \<and>
    last (events w') = Dispatched r \<and>
    retrieve_put_req store ind (env_pb env) (length (wr_data r)) (wr_data r) = Inr (Some q)"
proof -
  let ?f = "frame 11 (serialize_put_req (env_pb env) q)"
  have "retrieve_put_req store ind (env_pb env) (length ?f) ?f = Inr (Some q)"
    using retrieve_complete [OF complete_frame [OF assms(4)] _ assms(5), of 11 store 11
        "parse_put_req (env_pb env)"] assms(3)
    by (simp add: retrieve_put_req_def PutRequest_def)
  then show ?thesis
    using put_with_vclock_sends [OF assms(1), of env ctx b k vc c h] assms(2)
    by (auto simp: run_updater_def simp del: length_frame)
qed

theorem store_request_received_witness:
  "\<exists>w' r. run_updater (demo_env\<lparr>env_pb := demo_pb\<lparr>parse_put_req := (\<lambda>_. Some
        (store_message \<lparr>rc_access_overrides = default_access, rc_failure_defaults = failure_defaults,
          rc_request_id = 0\<rparr> [1] [2] (Some [5]) (demo_object 3) False))\<rparr>\<rparr>)
      (Put_value \<lparr>rc_access_overrides = default_access, rc_failure_defaults = failure_defaults,
          rc_request_id = 0\<rparr> [1] [2] (Some [5])) (Some (demo_object 3)) 7 demo_world = (w', Inr ()) \<and>
    last (events w') = Dispatched r \<and>
    retrieve_put_req Big_endian \<lparr>ind_length = [0, 0, 0, 0], ind_code = 0\<rparr>
      (env_pb (demo_env\<lparr>env_pb := demo_pb\<lparr>parse_put_req := (\<lambda>_. Some
        (store_message \<lparr>rc_access_overrides = default_access, rc_failure_defaults = failure_defaults,
          rc_request_id = 0\<rparr> [1] [2] (Some [5]) (demo_object 3) False))\<rparr>\<rparr>))
      (length (wr_data r)) (wr_data r) =
      Inr (Some (store_message \<lparr>rc_access_overrides = default_access,
        rc_failure_defaults = failure_defaults, rc_request_id = 0\<rparr> [1] [2] (Some [5])
        (demo_object 3) False))"
  by (rule store_request_received) (simp_all add: demo_pb_def store_message_def)

text \<open>
  A deletion needs a bucket and a key; it then sends one DELETE request that carries both
  and every quorum of the access overrides, waits as long as the failure parameters say, and
  draws one request identifier. Without a bucket or a key the assertion fails and nothing is sent.
\<close>

theorem delete_request_sent:
  assumes "transport_up w"
  shows "(if b = [] \<or> k = [] then delete_object env cl b k h w = (w, Inl Assertion_failure)
    else \<exists>w' r. delete_object env cl b k h w = (w', Inr ()) \<and> last (events w') = Dispatched r \<and>
      outstanding w' = outstanding w @ [r] \<and> uuids_drawn w' = Suc (uuids_drawn w) \<and>
      wr_response_timeout r = fp_response_timeout (cl_failure_defaults cl) \<and>
      handler_app (wr_handler r) = h \<and>
      wr_data r = frame 13 (serialize_del_req (env_pb env)
        \<lparr>dq_bucket = b, dq_key = k, dq_rw = ap_rw (cl_access_overrides cl), dq_vclock = None,
         dq_r = ap_r (cl_access_overrides cl), dq_w = ap_w (cl_access_overrides cl),
         dq_pr = ap_pr (cl_access_overrides cl), dq_pw = ap_pw (cl_access_overrides cl),
         dq_dw = ap_dw (cl_access_overrides cl)\<rparr>))"
  using assms
  by (auto simp: delete_object_def delete_request_def empty_del_req_def dispatch_result
      draw_context_eq log_line_emit Let_def)

theorem delete_request_sent_witness:
  "delete_object demo_env demo_client [] [2] 7 demo_world = (demo_world, Inl Assertion_failure)"
  using delete_request_sent [of demo_world "[]" "[2]" demo_env demo_client 7] by simp

text \<open>
  The verdicts on a deletion and on a store. Every whole reply ends the operation with one
  answer: success exactly when the reply has the expected code (and, for a store, a body that
  parses), and the unparseable-response error in every other case.
\<close>

theorem delete_and_store_verdicts:
  assumes "sound_reply std_no_error n d" and "length (ind_length (env_indeterminate env)) = 4"
  shows "(\<exists>w'. run_handler env cl (Accept_delete ctx h) std_no_error n d w = (w', Inr True) \<and>
      last (events w') = Answered_delete h (make_error_code
        (if d ! 4 = 14 then no_failure else unparseable_response)) \<and>
      outstanding w' = outstanding w) \<and>
    (\<exists>w'. run_handler env cl (Accept_put ctx h) std_no_error n d w = (w', Inr True) \<and>
      last (events w') = Answered_put h (make_error_code
        (if d ! 4 = 12 \<and> parse_put_resp (env_pb env) (drop 5 d) \<noteq> None
         then no_failure else unparseable_response)) \<and>
      outstanding w' = outstanding w)"
proof -
  have d: "complete_message d" "5 \<le> length d" "n = length d"
    using assms(1) by (simp_all add: sound_reply_def)
  show ?thesis
    by (simp add: run_handler_def accept_delete_response_def accept_put_response_def log_line_emit
        retrieve_sound [OF d(1,2) assms(2)] d(3) Let_def split: option.split bool.split)
qed

theorem delete_and_store_verdicts_witness:
  "\<exists>w'. run_handler demo_env demo_client (Accept_delete \<lparr>rc_access_overrides = default_access,
      rc_failure_defaults = failure_defaults, rc_request_id = 0\<rparr> 7) std_no_error 5 reply_delete
      demo_world = (w', Inr True) \<and>
    last (events w') = Answered_delete 7 (make_error_code no_failure) \<and>
    outstanding w' = outstanding demo_world"
  using delete_and_store_verdicts [OF demo_sound(3), of demo_env demo_client
      "\<lparr>rc_access_overrides = default_access, rc_failure_defaults = failure_defaults,
        rc_request_id = 0\<rparr>" 7 demo_world]
  by simp

text \<open>
  A collision while the transport closes is lost. When the stored sibling collides and the
  transport no longer accepts requests, the exception of the new GET leaves the handler: the
  application is not answered, and no request is outstanding that could answer it.
\<close>

theorem collision_lost_when_transport_closes:
  assumes "\<not> transport_up w" and "complete_message d" and "5 \<le> length d" and "d ! 4 = 12"
    and "length (ind_length (env_indeterminate env)) = 4"
    and "parse_put_resp (env_pb env) (drop 5 d) = Some presp"
    and "length (ps_content presp) \<noteq> 1 \<or> ps_vclock presp = None"
  shows "\<exists>w'. run_handler env cl (Resolved_sibling ctx b k c h) std_no_error (length d) d w =
      (w', Inl (System_error network_down)) \<and> answers h w' = answers h w \<and>
    waiting h w' = waiting h w"
proof -
  have "d \<noteq> []" using assms(3) by auto
  with assms show ?thesis
    by (auto simp: run_handler_def return_successfully_resolved_sibling_or_retry_def retrieve_sound
        run_get_request_def dispatch_def log_line_emit answers_def waiting_def Let_def
        split: option.split bool.split)
qed

theorem collision_lost_when_transport_closes_witness:
  "\<exists>w'. run_handler demo_env demo_client (Resolved_sibling \<lparr>rc_access_overrides = default_access,
      rc_failure_defaults = failure_defaults, rc_request_id = 0\<rparr> [1] [2] (demo_object 42) 7)
      std_no_error (length (reply_put 2 6)) (reply_put 2 6) (demo_world\<lparr>transport_up := False\<rparr>) =
      (w', Inl (System_error network_down)) \<and>
    answers 7 w' = answers 7 (demo_world\<lparr>transport_up := False\<rparr>) \<and>
    waiting 7 w' = waiting 7 (demo_world\<lparr>transport_up := False\<rparr>)"
  by (rule collision_lost_when_transport_closes
        [of _ _ _ "\<lparr>ps_content = demo_values 2, ps_vclock = Some [6], ps_key = None\<rparr>"])
    (simp_all add: demo_vclock_def)

end
