(* ===== verification/Timed_Request.thy ===== *)
theory Timed_Request
  imports Wire_Message
begin

text \<open>
  One request in flight: \<open>riak/request_with_timeout.hxx\<close> and
  \<open>riak/request_with_timeout.cxx\<close>. The object hands its data to the delivery provider,
  passes what arrives to its (buffering) callback, and gives up after a silence. \<open>on_response\<close>
  and \<open>on_timeout\<close> hold the mutex from their assertion to their end, so each is one step;
  \<open>dispatch_via\<close> holds none, and is one step all the same. The deadline timer
  is Boost's: a wait is pending until it expires or is cancelled, and then its handler is
  queued, with success or with \<open>operation_aborted\<close>; a cancellation does not recall a
  handler that is already queued. The theory proves, for any callback that is satisfied by
  an error, that a request is completed exactly once when the timer's handlers run without delay.
\<close>

datatype timer_wait = Pending | Expired | Aborted

text \<open>
  The trace of a request: what it does to the transport's termination option, and each call of
  its callback with the result of the call.
\<close>

datatype request_event =
    Delivered bytes
  | Terminated bool
  | Option_destroyed
  | Called_back error_code nat bytes "fault + bool"

record 's timed_request =
  tr_timeout_length :: int
  tr_request_data :: bytes
  tr_callback :: 's
  tr_terminate_request :: bool
  tr_succeeded :: bool
  tr_timed_out :: bool
  tr_waits :: "timer_wait list"
  tr_trace :: "request_event list"

definition request_with_timeout :: "bytes \<Rightarrow> int \<Rightarrow> 's \<Rightarrow> 's timed_request" where
  "request_with_timeout data timeout callback =
     \<lparr>tr_timeout_length = timeout, tr_request_data = data, tr_callback = callback,
      tr_terminate_request = False, tr_succeeded = False, tr_timed_out = False,
      tr_waits = [], tr_trace = []\<rparr>"

subsection \<open>The timer\<close>

definition cancel_timer :: "'s timed_request \<Rightarrow> 's timed_request" where
  "cancel_timer s = s\<lparr>tr_waits := map (\<lambda>x. if x = Pending then Aborted else x) (tr_waits s)\<rparr>"

text \<open>\<open>expires_from_now\<close> cancels any pending wait; \<open>async_wait\<close> starts a new one.\<close>

definition arm_timer :: "'s timed_request \<Rightarrow> 's timed_request" where
  "arm_timer s = (let s = cancel_timer s in s\<lparr>tr_waits := tr_waits s @ [Pending]\<rparr>)"

subsection \<open>The operations\<close>

definition happen :: "request_event \<Rightarrow> 's timed_request \<Rightarrow> 's timed_request" where
  "happen e s = s\<lparr>tr_trace := tr_trace s @ [e]\<rparr>"

definition call_back ::
  "'s handler \<Rightarrow> error_code \<Rightarrow> nat \<Rightarrow> bytes \<Rightarrow> 's timed_request \<Rightarrow> 's timed_request \<times> (fault + bool)" where
  "call_back h e n d s =
     (let (c, r) = h e n d (tr_callback s)
      in (happen (Called_back e n d r) (s\<lparr>tr_callback := c\<rparr>), r))"

text \<open>Resetting the optional destroys the option, if there is one.\<close>

definition reset_option :: "'s timed_request \<Rightarrow> 's timed_request" where
  "reset_option s =
     (if tr_terminate_request s then happen Option_destroyed (s\<lparr>tr_terminate_request := False\<rparr>)
      else s)"

text \<open>
  \<open>deliver\<close> is the delivery provider: it returns an option, or throws. The result of an
  operation is the new state and the fault that ended it, if any.
\<close>

definition dispatch_via ::
  "(bytes \<Rightarrow> fault option) \<Rightarrow> 's timed_request \<Rightarrow> 's timed_request \<times> fault option" where
  "dispatch_via deliver s =
     (if tr_terminate_request s \<or> tr_succeeded s \<or> tr_timed_out s
      then (s, Some Assertion_failure)
      else case deliver (tr_request_data s) of
             Some f \<Rightarrow> (s, Some f)
           | None \<Rightarrow>
               let s = happen (Delivered (tr_request_data s)) s;
                   s = s\<lparr>tr_terminate_request := True\<rparr>
               in (arm_timer s, None))"

definition on_response ::
  "'s handler \<Rightarrow> error_code \<Rightarrow> nat \<Rightarrow> bytes \<Rightarrow> 's timed_request \<Rightarrow> 's timed_request \<times> fault option" where
  "on_response h error bytes_received raw_data s =
     (if tr_succeeded s \<or> \<not> tr_terminate_request s then (s, Some Assertion_failure)
      else
        let s = cancel_timer s;
            error_condition = (tr_timed_out s \<or> is_error error)
        in if \<not> error_condition then
             (case call_back h std_no_error bytes_received raw_data s of
                (s, Inl f) \<Rightarrow> (s, Some f)
              | (s, Inr True) \<Rightarrow>
                  let s = happen (Terminated False) s;
                      s = s\<lparr>tr_succeeded := True\<rparr>
                  in (reset_option s, None)
              | (s, Inr False) \<Rightarrow> (arm_timer s, None))
           else
             let s = happen (Terminated True) s
             in if \<not> tr_timed_out s then
                  (case call_back h error 0 raw_data s of
                     (s, Inl f) \<Rightarrow> (s, Some f)
                   | (s, Inr _) \<Rightarrow> (reset_option s, None))
                else (reset_option s, None))"

text \<open>\<open>aborted\<close> is whether the wait's handler got \<open>operation_aborted\<close>.\<close>

definition on_timeout :: "'s handler \<Rightarrow> bool \<Rightarrow> 's timed_request \<Rightarrow> 's timed_request \<times> fault option" where
  "on_timeout h aborted s =
     (if tr_timed_out s then (s, Some Assertion_failure)
      else
        let s = s\<lparr>tr_timed_out := \<not> aborted\<rparr>
        in if tr_timed_out s then
             (case call_back h (make_error_code response_timeout) 0 [] s of
                (s, Inl f) \<Rightarrow> (s, Some f)
              | (s, Inr _) \<Rightarrow> (reset_option s, None))
           else (s, None))"

subsection \<open>Steps\<close>

text \<open>
  The transport calls \<open>on_response\<close>; a pending wait expires, which queues its handler; the
  service runs a queued handler. \<open>Timeout_now\<close> is an expiry whose handler runs at once.
\<close>

datatype request_input =
    Response error_code nat bytes
  | Wait_expires nat
  | Run_wait nat
  | Timeout_now nat

definition remove_wait :: "nat \<Rightarrow> 's timed_request \<Rightarrow> 's timed_request" where
  "remove_wait i s = s\<lparr>tr_waits := take i (tr_waits s) @ drop (Suc i) (tr_waits s)\<rparr>"

fun request_step ::
  "'s handler \<Rightarrow> 's timed_request \<Rightarrow> request_input \<Rightarrow> 's timed_request \<times> fault option" where
  "request_step h s (Response e n d) = on_response h e n d s"
| "request_step h s (Wait_expires i) =
     (if i < length (tr_waits s) \<and> tr_waits s ! i = Pending
      then (s\<lparr>tr_waits := (tr_waits s)[i := Expired]\<rparr>, None) else (s, None))"
| "request_step h s (Run_wait i) =
     (if i < length (tr_waits s) \<and> tr_waits s ! i \<noteq> Pending
      then on_timeout h (tr_waits s ! i = Aborted) (remove_wait i s) else (s, None))"
| "request_step h s (Timeout_now i) =
     (if i < length (tr_waits s) \<and> tr_waits s ! i = Pending
      then on_timeout h False (remove_wait i s) else (s, None))"

definition request_next :: "'s handler \<Rightarrow> 's timed_request \<Rightarrow> request_input \<Rightarrow> 's timed_request" where
  "request_next h s x = fst (request_step h s x)"

text \<open>
  A call completes the request when it hands over an error or is satisfied. \<open>completions\<close>
  counts the completing calls of the callback.
\<close>

fun completes :: "request_event \<Rightarrow> bool" where
  "completes (Called_back e n d r) \<longleftrightarrow> is_error e \<or> r = Inr True"
| "completes _ = False"

definition completions :: "'s timed_request \<Rightarrow> nat" where
  "completions s = length (filter completes (tr_trace s))"

subsection \<open>The life of a request\<close>

lemma happen_fields [simp]:
  "tr_waits (happen e s) = tr_waits s" "tr_terminate_request (happen e s) = tr_terminate_request s"
  "tr_succeeded (happen e s) = tr_succeeded s" "tr_timed_out (happen e s) = tr_timed_out s"
  "tr_callback (happen e s) = tr_callback s" "tr_trace (happen e s) = tr_trace s @ [e]"
  "tr_request_data (happen e s) = tr_request_data s"
  "tr_timeout_length (happen e s) = tr_timeout_length s"
  by (simp_all add: happen_def)

lemma cancel_fields [simp]:
  "tr_terminate_request (cancel_timer s) = tr_terminate_request s"
  "tr_succeeded (cancel_timer s) = tr_succeeded s" "tr_timed_out (cancel_timer s) = tr_timed_out s"
  "tr_callback (cancel_timer s) = tr_callback s" "tr_trace (cancel_timer s) = tr_trace s"
  by (simp_all add: cancel_timer_def)

lemma arm_fields [simp]:
  "tr_terminate_request (arm_timer s) = tr_terminate_request s"
  "tr_succeeded (arm_timer s) = tr_succeeded s" "tr_timed_out (arm_timer s) = tr_timed_out s"
  "tr_callback (arm_timer s) = tr_callback s" "tr_trace (arm_timer s) = tr_trace s"
  by (simp_all add: arm_timer_def Let_def)

lemma reset_fields [simp]:
  "tr_waits (reset_option s) = tr_waits s" "\<not> tr_terminate_request (reset_option s)"
  "tr_succeeded (reset_option s) = tr_succeeded s" "tr_timed_out (reset_option s) = tr_timed_out s"
  "tr_callback (reset_option s) = tr_callback s"
  by (simp_all add: reset_option_def)

lemma completions_simps [simp]:
  "completions (happen e s) = completions s + (if completes e then 1 else 0)"
  "completions (cancel_timer s) = completions s"
  "completions (arm_timer s) = completions s"
  "completions (reset_option s) = completions s"
  "completions (s\<lparr>tr_succeeded := b\<rparr>) = completions s"
  "completions (s\<lparr>tr_timed_out := b\<rparr>) = completions s"
  "completions (s\<lparr>tr_terminate_request := b\<rparr>) = completions s"
  "completions (s\<lparr>tr_callback := c\<rparr>) = completions s"
  "completions (s\<lparr>tr_waits := ws\<rparr>) = completions s"
  "completions (remove_wait i s) = completions s"
  by (simp_all add: completions_def reset_option_def remove_wait_def)

subsection \<open>Waits\<close>

definition pending_waits :: "'s timed_request \<Rightarrow> nat" where
  "pending_waits s = count_list (tr_waits s) Pending"

definition expired_waits :: "'s timed_request \<Rightarrow> nat" where
  "expired_waits s = count_list (tr_waits s) Expired"

lemma count_list_app [simp]: "count_list (xs @ ys) x = count_list xs x + count_list ys x"
  by (induction xs) auto

lemma waits_simps [simp]:
  "pending_waits (cancel_timer s) = 0" "expired_waits (cancel_timer s) = expired_waits s"
  "pending_waits (arm_timer s) = 1" "expired_waits (arm_timer s) = expired_waits s"
  "pending_waits (happen e s) = pending_waits s" "expired_waits (happen e s) = expired_waits s"
  "pending_waits (reset_option s) = pending_waits s"
  "expired_waits (reset_option s) = expired_waits s"
  "pending_waits (s\<lparr>tr_succeeded := b\<rparr>) = pending_waits s"
  "expired_waits (s\<lparr>tr_succeeded := b\<rparr>) = expired_waits s"
  "pending_waits (s\<lparr>tr_timed_out := b\<rparr>) = pending_waits s"
  "expired_waits (s\<lparr>tr_timed_out := b\<rparr>) = expired_waits s"
  "pending_waits (s\<lparr>tr_terminate_request := b\<rparr>) = pending_waits s"
  "expired_waits (s\<lparr>tr_terminate_request := b\<rparr>) = expired_waits s"
  "pending_waits (s\<lparr>tr_callback := c\<rparr>) = pending_waits s"
  "expired_waits (s\<lparr>tr_callback := c\<rparr>) = expired_waits s"
proof -
  have "count_list (map (\<lambda>x. if x = Pending then Aborted else x) ws) Pending = 0"
    and "count_list (map (\<lambda>x. if x = Pending then Aborted else x) ws) Expired = count_list ws Expired"
    for ws
    by (induction ws) auto
  then show "pending_waits (cancel_timer s) = 0" "expired_waits (cancel_timer s) = expired_waits s"
    "pending_waits (arm_timer s) = 1" "expired_waits (arm_timer s) = expired_waits s"
    by (simp_all add: pending_waits_def expired_waits_def cancel_timer_def arm_timer_def Let_def)
qed (simp_all add: pending_waits_def expired_waits_def)

lemma remove_wait_fields [simp]:
  "tr_terminate_request (remove_wait i s) = tr_terminate_request s"
  "tr_succeeded (remove_wait i s) = tr_succeeded s"
  "tr_timed_out (remove_wait i s) = tr_timed_out s"
  "tr_callback (remove_wait i s) = tr_callback s"
  "tr_trace (remove_wait i s) = tr_trace s"
  by (simp_all add: remove_wait_def)

lemma waits_remove:
  assumes "i < length (tr_waits s)"
  shows "pending_waits s =
      pending_waits (remove_wait i s) + (if tr_waits s ! i = Pending then 1 else 0)"
    and "expired_waits s =
      expired_waits (remove_wait i s) + (if tr_waits s ! i = Expired then 1 else 0)"
proof -
  have "count_list (tr_waits s) x =
      count_list (take i (tr_waits s) @ tr_waits s ! i # drop (Suc i) (tr_waits s)) x" for x
    using id_take_nth_drop [OF assms] by simp
  then show "pending_waits s =
      pending_waits (remove_wait i s) + (if tr_waits s ! i = Pending then 1 else 0)"
    and "expired_waits s =
      expired_waits (remove_wait i s) + (if tr_waits s ! i = Expired then 1 else 0)"
    by (simp_all add: pending_waits_def expired_waits_def remove_wait_def)
qed

subsection \<open>Completed exactly once\<close>

text \<open>
  In flight: the option is held, one wait is pending, nothing has completed. Over: the option
  is gone, no wait can expire, one call has completed.
\<close>

definition in_flight :: "'s timed_request \<Rightarrow> bool" where
  "in_flight s \<longleftrightarrow> tr_terminate_request s \<and> \<not> tr_succeeded s \<and> \<not> tr_timed_out s \<and>
     pending_waits s = 1 \<and> expired_waits s = 0 \<and> completions s = 0"

definition over :: "'s timed_request \<Rightarrow> bool" where
  "over s \<longleftrightarrow> \<not> tr_terminate_request s \<and> pending_waits s = 0 \<and> expired_waits s = 0 \<and>
     completions s = 1"

definition request_inv :: "'s timed_request \<Rightarrow> bool" where
  "request_inv s \<longleftrightarrow> in_flight s \<or> over s"

text \<open>
  A prompt step: the transport keeps its promise to call back only while the option is held,
  no expiry waits in a queue, and the callback does not throw.
\<close>

fun prompt_step :: "'s handler \<Rightarrow> 's timed_request \<Rightarrow> request_input \<Rightarrow> bool" where
  "prompt_step h s (Response e n d) \<longleftrightarrow>
     tr_terminate_request s \<and> snd (request_step h s (Response e n d)) = None"
| "prompt_step h s (Wait_expires i) \<longleftrightarrow> False"
| "prompt_step h s x \<longleftrightarrow> snd (request_step h s x) = None"

text \<open>The contract of a callback: a return from a call with an error reports satisfaction.\<close>

locale completing_callback =
  fixes h :: "'s handler"
  assumes error_satisfies: "is_error e \<Longrightarrow> snd (h e n d s) \<noteq> Inr False"
begin

lemma call_back_cases:
  obtains (fault) s' f where "call_back h e n d s = (s', Inl f)"
  | (complete) c where "call_back h e n d s =
      (happen (Called_back e n d (Inr True)) (s\<lparr>tr_callback := c\<rparr>), Inr True)"
  | (partial) c where "\<not> is_error e" "call_back h e n d s =
      (happen (Called_back e n d (Inr False)) (s\<lparr>tr_callback := c\<rparr>), Inr False)"
proof (cases "h e n d (tr_callback s)")
  case (Pair c r)
  show thesis
  proof (cases r)
    case (Inl f)
    with Pair fault show thesis by (simp add: call_back_def)
  next
    case (Inr b)
    with Pair complete partial error_satisfies [of e n d "tr_callback s"] show thesis
      by (cases b) (auto simp: call_back_def)
  qed
qed

lemma on_response_inv:
  assumes "in_flight s" and "snd (on_response h e n d s) = None"
  shows "request_inv (fst (on_response h e n d s))"
proof (cases "is_error e")
  case True
  show ?thesis
  proof (cases rule: call_back_cases [of e 0 d "happen (Terminated True) (cancel_timer s)"])
    case fault
    with assms True show ?thesis by (simp add: on_response_def in_flight_def Let_def)
  next
    case complete
    with assms True show ?thesis
      by (simp add: on_response_def request_inv_def in_flight_def over_def Let_def)
  next
    case partial
    with True show ?thesis by simp
  qed
next
  case False
  show ?thesis
  proof (cases rule: call_back_cases [of std_no_error n d "cancel_timer s"])
    case fault
    with assms False show ?thesis by (simp add: on_response_def in_flight_def Let_def)
  next
    case complete
    with assms False show ?thesis
      by (simp add: on_response_def request_inv_def in_flight_def over_def Let_def)
  next
    case partial
    with assms False show ?thesis
      by (simp add: on_response_def request_inv_def in_flight_def over_def Let_def)
  qed
qed

lemma timeout_inv:
  assumes "in_flight s" and "i < length (tr_waits s)" and "tr_waits s ! i = Pending"
    and "snd (on_timeout h False (remove_wait i s)) = None"
  shows "request_inv (fst (on_timeout h False (remove_wait i s)))"
proof (cases rule: call_back_cases [of "make_error_code response_timeout" 0 "[]"
      "(remove_wait i s)\<lparr>tr_timed_out := True\<rparr>"])
  case fault
  with assms show ?thesis by (simp add: on_timeout_def in_flight_def Let_def)
next
  case complete
  with assms waits_remove [OF assms(2)] show ?thesis
    by (simp add: on_timeout_def request_inv_def in_flight_def over_def Let_def)
next
  case partial
  then show ?thesis by simp
qed

lemma aborted_wait_inv:
  assumes "request_inv s" and "i < length (tr_waits s)" and "tr_waits s ! i = Aborted"
    and "snd (on_timeout h True (remove_wait i s)) = None"
  shows "request_inv (fst (on_timeout h True (remove_wait i s)))"
  using assms waits_remove [OF assms(2)]
  by (auto simp: on_timeout_def request_inv_def in_flight_def over_def Let_def split: if_splits)

lemma expired_in_waits: "i < length (tr_waits s) \<Longrightarrow> expired_waits s = 0 \<Longrightarrow> tr_waits s ! i \<noteq> Expired"
  using waits_remove(2) [of i s] by auto

lemma pending_in_waits: "i < length (tr_waits s) \<Longrightarrow> pending_waits s = 0 \<Longrightarrow> tr_waits s ! i \<noteq> Pending"
  using waits_remove(1) [of i s] by auto

lemma prompt_step_inv:
  assumes inv: "request_inv s" and ok: "prompt_step h s x"
  shows "request_inv (fst (request_step h s x))"
proof (cases x)
  case (Response e n d)
  with inv ok show ?thesis
    using on_response_inv [of s e n d] by (auto simp: request_inv_def over_def)
next
  case (Wait_expires i)
  with ok show ?thesis by simp
next
  case (Run_wait i)
  show ?thesis
  proof (cases "i < length (tr_waits s) \<and> tr_waits s ! i \<noteq> Pending")
    case True
    moreover have "expired_waits s = 0"
      using inv by (auto simp: request_inv_def in_flight_def over_def)
    ultimately have "tr_waits s ! i = Aborted"
      using expired_in_waits [of i s] by (cases "tr_waits s ! i") auto
    with True Run_wait ok inv aborted_wait_inv [of s i] show ?thesis by simp
  next
    case False
    with Run_wait inv show ?thesis by auto
  qed
next
  case (Timeout_now i)
  show ?thesis
  proof (cases "i < length (tr_waits s) \<and> tr_waits s ! i = Pending")
    case True
    then have "in_flight s"
      using inv pending_in_waits [of i s] by (auto simp: request_inv_def over_def)
    with True Timeout_now ok timeout_inv [of s i] show ?thesis by simp
  next
    case False
    with Timeout_now inv show ?thesis by auto
  qed
qed

end

sublocale completing_callback \<subseteq> prompt:
  step_system "request_next h" "prompt_step h" request_inv
  by unfold_locales (simp only: request_next_def prompt_step_inv)

end
