(* ===== verification/Request_Properties.thy ===== *)
theory Request_Properties
  imports Client_Request
begin

text \<open>
  The properties of a client's request in flight: it is completed once as long as the timer's
  handlers run promptly, chunks are put together and end it cleanly, an error or a silence ends
  it with an error for the application, a reply that races with the timer completes it twice, and
  an exception in the handler leaves it without a timer.
\<close>

subsection \<open>The ends of a waiting request\<close>

lemma run_handler_error_callback:
  assumes "is_error e" and "has_text e"
  shows "\<exists>w' l a. client_callback env cl handler e n d (buf, w) = ((buf, w'), Inr True) \<and>
    events w' = events w @ [Logged l, a] \<and> answers_to (handler_app handler) a \<and> reports e a"
proof -
  obtain w' l a where "run_handler env cl handler e 0 [] w = (w', Inr True)"
      "events w' = events w @ [Logged l, a]" "answers_to (handler_app handler) a" "reports e a"
    using run_handler_error [OF assms, of env cl handler 0 "[]" w] by blast
  with assms(1) show ?thesis by (auto simp: client_callback_eq streaming_error)
qed

lemma waits_timeout:
  assumes s: "waits_with buf w s" and i: "i < length (tr_waits s)" "tr_waits s ! i = Pending"
  shows "\<exists>t w' l a. request_step (client_callback env cl handler) s (Timeout_now i) = (t, None) \<and>
    over t \<and> tr_callback t = (buf, w') \<and> events w' = events w @ [Logged l, a] \<and>
    answers_to (handler_app handler) a \<and> reports (make_error_code response_timeout) a \<and>
    tr_trace t = tr_trace s @
      [Called_back (make_error_code response_timeout) 0 [] (Inr True), Option_destroyed]"
proof -
  obtain w' l a where c: "client_callback env cl handler (make_error_code response_timeout) 0 []
      (buf, w) = ((buf, w'), Inr True)"
    and w': "events w' = events w @ [Logged l, a]" "answers_to (handler_app handler) a"
      "reports (make_error_code response_timeout) a"
    using run_handler_error_callback [of "make_error_code response_timeout"] by fastforce
  from c s i waits_remove [OF i(1)] show ?thesis
    using w'
    by (auto simp: waits_with_def in_flight_def on_timeout_def call_back_def over_def
        reset_option_def Let_def)
qed

lemma waits_error:
  assumes "waits_with buf w s" and "is_error e" and "has_text e"
  shows "\<exists>t w' l a. request_step (client_callback env cl handler) s (Response e n d) = (t, None) \<and>
    over t \<and> tr_callback t = (buf, w') \<and> events w' = events w @ [Logged l, a] \<and>
    answers_to (handler_app handler) a \<and> reports e a \<and>
    tr_trace t = tr_trace s @ [Terminated True, Called_back e 0 d (Inr True), Option_destroyed]"
proof -
  obtain w' l a where c: "client_callback env cl handler e 0 d (buf, w) = ((buf, w'), Inr True)"
    and w': "events w' = events w @ [Logged l, a]" "answers_to (handler_app handler) a" "reports e a"
    using run_handler_error_callback [OF assms(2,3)] by blast
  from c assms show ?thesis
    using w'
    by (auto simp: waits_with_def in_flight_def on_response_def call_back_def over_def
        reset_option_def Let_def)
qed

subsection \<open>A request without a timer\<close>

text \<open>The option is held, nothing has completed, and no wait will ever expire.\<close>

definition abandoned :: "'s timed_request \<Rightarrow> bool" where
  "abandoned s \<longleftrightarrow> tr_terminate_request s \<and> \<not> tr_timed_out s \<and> pending_waits s = 0 \<and>
     expired_waits s = 0 \<and> completions s = 0"

fun from_timer :: "request_input \<Rightarrow> bool" where
  "from_timer (Response e n d) = False"
| "from_timer _ = True"

lemma expired_not_waiting: "i < length (tr_waits s) \<Longrightarrow> expired_waits s = 0 \<Longrightarrow> tr_waits s ! i \<noteq> Expired"
  using waits_remove(2) [of i s] by auto

lemma pending_not_waiting: "i < length (tr_waits s) \<Longrightarrow> pending_waits s = 0 \<Longrightarrow> tr_waits s ! i \<noteq> Pending"
  using waits_remove(1) [of i s] by auto

lemma abandoned_step: "abandoned s \<Longrightarrow> from_timer x \<Longrightarrow> abandoned (request_next h s x)"
proof (cases x)
  case (Run_wait i)
  assume s: "abandoned s"
  show ?thesis
  proof (cases "i < length (tr_waits s)")
    case True
    with s have "tr_waits s ! i = Aborted"
      using expired_not_waiting [OF True] pending_not_waiting [OF True]
      by (cases "tr_waits s ! i") (auto simp: abandoned_def)
    with True s waits_remove [OF True] Run_wait show ?thesis
      by (auto simp: abandoned_def request_next_def on_timeout_def)
  next
    case False
    with s Run_wait show ?thesis by (simp add: request_next_def)
  qed
qed (auto simp: request_next_def abandoned_def dest: pending_not_waiting)

interpretation abandonment: step_system "request_next h" "\<lambda>_. from_timer" abandoned for h
  by unfold_locales (rule abandoned_step)

lemma fault_abandons:
  assumes s: "waits_with [] w s" and "is_error e = False"
    and "client_callback env cl handler std_no_error n d ([], w) = (c, Inl f)"
  shows "\<exists>t. request_step (client_callback env cl handler) s (Response e n d) = (t, Some f) \<and>
    abandoned t"
  using assms
  by (auto simp: waits_with_def in_flight_def on_response_def call_back_def abandoned_def
      Let_def)

lemma empty_message_fault:
  assumes "length (ind_length (env_indeterminate env)) = 4" and "ind_code (env_indeterminate env) = 10"
  shows "\<exists>c'. client_callback env cl (Accept_get ctx b k h) std_no_error 4 [0, 0, 0, 0] ([], w) =
    (c', Inl Out_of_range)"
proof -
  have m: "complete_message [0, 0, 0, 0]" by (simp add: complete_message_def word32_of_be_def)
  have "retrieve_get_resp (env_host env) (env_indeterminate env) (env_pb env)
      (length [0, 0, 0, 0 :: byte]) [0, 0, 0, 0] = Inl Out_of_range"
    unfolding retrieve_get_resp_def GetResponse_def
    using retrieve_empty_message [OF m _ assms(1), of "env_host env" 10 "parse_get_resp (env_pb env)"]
      assms(2)
    by simp
  then have "\<exists>w'. run_handler env cl (Accept_get ctx b k h) std_no_error
      (length [0, 0, 0, 0 :: byte]) [0, 0, 0, 0] w = (w', Inl Out_of_range)"
    by (simp add: run_handler_def accept_get_response_def Let_def)
  then show ?thesis
    using streaming_complete [OF m, of "[]" "[0, 0, 0, 0]" "[]" "env_host env"
        "run_handler env cl (Accept_get ctx b k h)" 4 w]
    by (auto simp: client_callback_eq)
qed

subsection \<open>Properties of a request\<close>

text \<open>
  C7: A request is completed exactly once, and always watched. Start the request of any
  operation and let chunks, whole replies, errors and timeouts happen in any order, each of the
  timer's expiries being handled before anything else and no handler failing. As long as the
  option is held, nothing has completed and exactly one wait is pending; once it is gone, exactly
  one call has completed the request and no wait is pending.
\<close>

theorem request_completed_once:
  assumes "start_request env cl deliver r w = (s0, None)"
    and "allowed_run (request_next (client_callback env cl (wr_handler r)))
      (prompt_step (client_callback env cl (wr_handler r))) s0 xs"
    and "s = run_steps (request_next (client_callback env cl (wr_handler r))) s0 xs"
  shows "completions s = (if tr_terminate_request s then 0 else 1) \<and>
    pending_waits s = (if tr_terminate_request s then 1 else 0)"
proof -
  have "deliver (wr_data r) = None"
    using assms(1)
    by (auto simp: start_request_def make_buffering_handler_def dispatch_via_def
        request_with_timeout_def split: option.splits)
  then have "request_inv s0"
    using start_request_waits [of deliver r env cl w] assms(1)
    by (simp add: request_inv_def waits_with_def)
  then have "request_inv s"
    unfolding assms(3) by (rule client_request.prompt.run_inv [OF _ assms(2)])
  then show ?thesis by (auto simp: request_inv_def in_flight_def over_def)
qed

definition demo_request :: wire_request where
  "demo_request = \<lparr>wr_data = [0, 0, 0, 3, 9, 1, 2], wr_response_timeout = 3000,
     wr_handler = Accept_get \<lparr>rc_access_overrides = default_access,
       rc_failure_defaults = failure_defaults, rc_request_id = 0\<rparr> [1] [2] 7\<rparr>"

definition demo_started :: "(bytes \<times> world) timed_request" where
  "demo_started = fst (start_request demo_env demo_client (\<lambda>_. None) demo_request demo_world)"

lemma demo_started_simps [simp]:
  "start_request demo_env demo_client (\<lambda>_. None) demo_request demo_world = (demo_started, None)"
  "waits_with [] demo_world demo_started" "tr_waits demo_started = [Pending]"
  using start_request_waits [of "\<lambda>_. None" demo_request demo_env demo_client demo_world]
  by (auto simp: demo_started_def)

theorem request_completed_once_witness:
  "let s = run_steps (request_next (client_callback demo_env demo_client (wr_handler demo_request)))
       demo_started [Timeout_now 0]
   in completions s = (if tr_terminate_request s then 0 else 1) \<and>
      pending_waits s = (if tr_terminate_request s then 1 else 0)"
proof -
  have "snd (request_step (client_callback demo_env demo_client (wr_handler demo_request))
      demo_started (Timeout_now 0)) = None"
    using waits_timeout [of "[]" demo_world demo_started 0 demo_env demo_client
        "wr_handler demo_request"]
    by auto
  then have "allowed_run (request_next (client_callback demo_env demo_client (wr_handler demo_request)))
      (prompt_step (client_callback demo_env demo_client (wr_handler demo_request)))
      demo_started [Timeout_now 0]"
    by simp
  from request_completed_once [OF demo_started_simps(1) this refl] show ?thesis by (simp add: Let_def)
qed

text \<open>
  A reply in any chunks ends its request cleanly. When the chunks complete a message only
  with the last one, every call of the callback before it asks for more, the last is satisfied,
  the message handler ran once, on the whole message, and the connection is handed back clean:
  the option is exercised with \<open>false\<close>, and then destroyed. Nothing fails on the way.
\<close>

theorem reply_in_chunks_ends_cleanly:
  assumes "deliver (wr_data r) = None"
    and "complete_message m" and "5 \<le> length m" and "concat cs @ c = m @ rest"
    and "length (concat cs) < length m"
    and "length (ind_length (env_indeterminate env)) = 4" and "transport_up w"
  shows "\<exists>s0 t w'. start_request env cl deliver r w = (s0, None) \<and>
    allowed_run (request_next (client_callback env cl (wr_handler r)))
      (prompt_step (client_callback env cl (wr_handler r))) s0 (responses (cs @ [c])) \<and>
    run_steps (request_next (client_callback env cl (wr_handler r))) s0 (responses (cs @ [c])) = t \<and>
    run_handler env cl (wr_handler r) std_no_error (length m) m w = (w', Inr True) \<and>
    tr_callback t = (rest, w') \<and>
    tr_trace t = Delivered (wr_data r) # map (\<lambda>c. called c False) cs @
      [called c True, Terminated False, Option_destroyed]"
proof -
  obtain w' where w': "run_handler env cl (wr_handler r) std_no_error (length m) m w = (w', Inr True)"
    using run_handler_sound [of std_no_error "length m" m env w cl "wr_handler r"] assms(2,3,6,7)
    by (auto simp: sound_reply_def)
  obtain s0 where s0: "start_request env cl deliver r w = (s0, None)" "waits_with [] w s0"
      "tr_trace s0 = [Delivered (wr_data r)]"
    using start_request_waits [of deliver r env cl w] assms(1) by blast
  with responses_run [OF assms(2) _ s0(2) _ w', of cs c rest] assms(4,5) w' show ?thesis by auto
qed

theorem reply_in_chunks_ends_cleanly_witness:
  "\<exists>s0 t w'. start_request demo_env demo_client (\<lambda>_. None) demo_request demo_world = (s0, None) \<and>
    allowed_run (request_next (client_callback demo_env demo_client (wr_handler demo_request)))
      (prompt_step (client_callback demo_env demo_client (wr_handler demo_request))) s0
      (responses ([[0, 0], [0, 3, 10]] @ [[1, 5, 77]])) \<and>
    run_steps (request_next (client_callback demo_env demo_client (wr_handler demo_request))) s0
      (responses ([[0, 0], [0, 3, 10]] @ [[1, 5, 77]])) = t \<and>
    run_handler demo_env demo_client (wr_handler demo_request) std_no_error
      (length (reply_get 1 5)) (reply_get 1 5) demo_world = (w', Inr True) \<and>
    tr_callback t = ([77], w') \<and>
    tr_trace t = Delivered (wr_data demo_request) # map (\<lambda>c. called c False) [[0, 0], [0, 3, 10]] @
      [called [1, 5, 77] True, Terminated False, Option_destroyed]"
  by (rule reply_in_chunks_ends_cleanly) (simp_all, simp_all add: reply_get_def)

text \<open>
  A silence ends a request with an error, but hands the connection back clean. When the
  pending wait of a waiting request expires, its application gets one answer, the response
  timeout; the option is destroyed without being exercised, which tells the transport that the
  connection is clean although a reply may still arrive on it.
\<close>

theorem timeout_leaves_connection_clean:
  assumes "waits_with buf w s" and "i < length (tr_waits s)" and "tr_waits s ! i = Pending"
  shows "\<exists>t w' l a. request_step (client_callback env cl handler) s (Timeout_now i) = (t, None) \<and>
    over t \<and> tr_callback t = (buf, w') \<and> events w' = events w @ [Logged l, a] \<and>
    answers_to (handler_app handler) a \<and> reports (make_error_code response_timeout) a \<and>
    tr_trace t = tr_trace s @
      [Called_back (make_error_code response_timeout) 0 [] (Inr True), Option_destroyed]"
  using assms by (rule waits_timeout)

theorem timeout_leaves_connection_clean_witness:
  "\<exists>t w' l a. request_step (client_callback demo_env demo_client (wr_handler demo_request))
      demo_started (Timeout_now 0) = (t, None) \<and>
    over t \<and> tr_callback t = ([], w') \<and> events w' = events demo_world @ [Logged l, a] \<and>
    answers_to (handler_app (wr_handler demo_request)) a \<and>
    reports (make_error_code response_timeout) a \<and>
    tr_trace t = tr_trace demo_started @
      [Called_back (make_error_code response_timeout) 0 [] (Inr True), Option_destroyed]"
  by (rule timeout_leaves_connection_clean) simp_all

text \<open>
  An error of the transport ends a request with that error and a dirty connection: the
  option is exercised with \<open>true\<close> before the application gets its one answer, which reports
  the error, and is then destroyed.
\<close>

theorem transport_error_marks_dirty:
  assumes "waits_with buf w s" and "is_error e" and "has_text e"
  shows "\<exists>t w' l a. request_step (client_callback env cl handler) s (Response e n d) = (t, None) \<and>
    over t \<and> tr_callback t = (buf, w') \<and> events w' = events w @ [Logged l, a] \<and>
    answers_to (handler_app handler) a \<and> reports e a \<and>
    tr_trace t = tr_trace s @ [Terminated True, Called_back e 0 d (Inr True), Option_destroyed]"
  using assms by (rule waits_error)

theorem transport_error_marks_dirty_witness:
  "\<exists>t w' l a. request_step (client_callback demo_env demo_client (wr_handler demo_request))
      demo_started (Response (make_errc network_reset) 0 []) = (t, None) \<and>
    over t \<and> tr_callback t = ([], w') \<and> events w' = events demo_world @ [Logged l, a] \<and>
    answers_to (handler_app (wr_handler demo_request)) a \<and> reports (make_errc network_reset) a \<and>
    tr_trace t = tr_trace demo_started @ [Terminated True,
      Called_back (make_errc network_reset) 0 [] (Inr True), Option_destroyed]"
  by (rule transport_error_marks_dirty) (simp_all add: has_text_def network_reset_def, simp add: make_errc_def)

text \<open>
  C17: A reply that races with the timer completes a request twice. If the wait has expired, but
  its handler has not run yet when the whole reply arrives, then the reply completes the request,
  and the handler of the expiry, which the cancellation does not recall, completes it again: the
  application's handler gains two answers (or requests that will answer it).
\<close>

theorem expiry_race_completes_twice:
  assumes "waits_with [] w s" and "tr_waits s = [Pending]"
    and "complete_message m" and "5 \<le> length m"
    and "length (ind_length (env_indeterminate env)) = 4" and "transport_up w"
  shows "\<exists>t. run_steps (request_next (client_callback env cl handler)) s
      [Wait_expires 0, Response std_no_error (length m) m, Run_wait 0] = t \<and>
    completions t = 2 \<and>
    credit (handler_app handler) (snd (tr_callback t)) = credit (handler_app handler) w + 2"
proof -
  obtain w1 where w1: "run_handler env cl handler std_no_error (length m) m w = (w1, Inr True)"
    using run_handler_sound [of std_no_error "length m" m env w cl handler] assms(3-6)
    by (auto simp: sound_reply_def)
  obtain w2 where w2: "run_handler env cl handler (make_error_code response_timeout) 0 [] w1 =
      (w2, Inr True)"
    using run_handler_error [of "make_error_code response_timeout" env cl handler 0 "[]" w1] by auto
  have credit: "credit (handler_app handler) w2 = credit (handler_app handler) w + 2"
    using run_handler_gains [OF w1] run_handler_gains [OF w2] by (simp add: gains_def)
  have c1: "client_callback env cl handler std_no_error (length m) m ([], w) = (([], w1), Inr True)"
    using streaming_complete [OF assms(3), of "[]" m "[]" "env_host env" "run_handler env cl handler"
        "length m" w] w1
    by (simp add: client_callback_eq)
  have c2: "client_callback env cl handler (make_error_code response_timeout) 0 [] ([], w1) =
      (([], w2), Inr True)"
    using w2 by (simp add: client_callback_eq streaming_error)
  show ?thesis
    using assms(1,2) c1 c2 credit
    by (simp add: waits_with_def in_flight_def request_next_def on_response_def call_back_def
        cancel_timer_def reset_option_def on_timeout_def remove_wait_def happen_def
        completions_def Let_def)
qed

theorem expiry_race_completes_twice_witness:
  "\<exists>t. run_steps (request_next (client_callback demo_env demo_client (wr_handler demo_request)))
      demo_started
      [Wait_expires 0, Response std_no_error (length (reply_get 1 5)) (reply_get 1 5), Run_wait 0] = t \<and>
    completions t = 2 \<and>
    credit (handler_app (wr_handler demo_request)) (snd (tr_callback t)) =
      credit (handler_app (wr_handler demo_request)) demo_world + 2"
  by (rule expiry_race_completes_twice) simp_all

text \<open>
  A reply of length zero can leave a fetch waiting forever. When the uninitialised code
  happens to be that of a GET response, the handler throws after the timer has been cancelled:
  the option is still held, the application has not been answered, and nothing that the timer
  does can ever complete the request.
\<close>

theorem empty_reply_abandons_fetch:
  assumes "waits_with [] w s" and "length (ind_length (env_indeterminate env)) = 4"
    and "ind_code (env_indeterminate env) = 10" and "list_all from_timer xs"
  shows "\<exists>t. request_step (client_callback env cl (Accept_get ctx b k h)) s
      (Response std_no_error 4 [0, 0, 0, 0]) = (t, Some Out_of_range) \<and>
    completions (run_steps (request_next (client_callback env cl (Accept_get ctx b k h))) t xs) = 0 \<and>
    tr_terminate_request (run_steps (request_next (client_callback env cl (Accept_get ctx b k h))) t xs)"
proof -
  let ?h = "client_callback env cl (Accept_get ctx b k h)"
  obtain c' where "?h std_no_error 4 [0, 0, 0, 0] ([], w) = (c', Inl Out_of_range)"
    using empty_message_fault [OF assms(2,3)] by blast
  from fault_abandons [OF assms(1) _ this, of std_no_error]
  obtain t where t: "request_step ?h s (Response std_no_error 4 [0, 0, 0, 0]) =
      (t, Some Out_of_range)" "abandoned t"
    by auto
  have "abandoned (run_steps (request_next ?h) t xs)"
    using t(2) by (rule abandonment.run_inv_always) (use assms(4) in \<open>auto simp: list_all_iff\<close>)
  with t show ?thesis by (simp add: abandoned_def)
qed

theorem empty_reply_abandons_fetch_witness:
  "\<exists>t. request_step (client_callback
      (demo_env\<lparr>env_indeterminate := \<lparr>ind_length = [0, 0, 0, 0], ind_code = 10\<rparr>\<rparr>) demo_client
      (Accept_get \<lparr>rc_access_overrides = default_access, rc_failure_defaults = failure_defaults,
        rc_request_id = 0\<rparr> [1] [2] 7)) demo_started
      (Response std_no_error 4 [0, 0, 0, 0]) = (t, Some Out_of_range) \<and>
    completions (run_steps (request_next (client_callback
      (demo_env\<lparr>env_indeterminate := \<lparr>ind_length = [0, 0, 0, 0], ind_code = 10\<rparr>\<rparr>) demo_client
      (Accept_get \<lparr>rc_access_overrides = default_access, rc_failure_defaults = failure_defaults,
        rc_request_id = 0\<rparr> [1] [2] 7))) t [Run_wait 0, Timeout_now 0]) = 0 \<and>
    tr_terminate_request (run_steps (request_next (client_callback
      (demo_env\<lparr>env_indeterminate := \<lparr>ind_length = [0, 0, 0, 0], ind_code = 10\<rparr>\<rparr>) demo_client
      (Accept_get \<lparr>rc_access_overrides = default_access, rc_failure_defaults = failure_defaults,
        rc_request_id = 0\<rparr> [1] [2] 7))) t [Run_wait 0, Timeout_now 0])"
  by (rule empty_reply_abandons_fetch [OF demo_started_simps(2)]) simp_all

end
