(* ===== verification/Transport.thy ===== *)
theory Transport
  imports Errors
begin

text \<open>
  The interface of \<open>riak/transport.hxx\<close>: a delivery provider takes a request and a response
  handler and returns an option to terminate the request. The option takes a dirty bit and,
  in the words of the header, must be idempotent. \<open>termination_option\<close> states that contract
  for an option on a transport whose state is threaded through; a transport may also fail.
\<close>

locale termination_option =
  fixes exercise :: "bool \<Rightarrow> 's \<Rightarrow> 's \<times> fault option"
    and spent :: "'s \<Rightarrow> bool"
  assumes exercise_spends: "exercise dirty s = (t, None) \<Longrightarrow> spent t"
    and spent_exercise: "spent s \<Longrightarrow> exercise dirty s = (s, None)"
begin

fun exercise_all :: "bool list \<Rightarrow> 's \<Rightarrow> 's \<times> fault option" where
  "exercise_all [] s = (s, None)"
| "exercise_all (d # ds) s =
     (case exercise d s of (t, Some f) \<Rightarrow> (t, Some f) | (t, None) \<Rightarrow> exercise_all ds t)"

lemma exercise_again: "exercise d s = (t, None) \<Longrightarrow> exercise d' t = (t, None)"
  by (blast intro: spent_exercise exercise_spends)

lemma spent_exercise_all: "spent s \<Longrightarrow> exercise_all ds s = (s, None)"
  by (induction ds) (auto simp: spent_exercise)

lemma only_first_counts: "exercise d s = (t, None) \<Longrightarrow> exercise_all (d # ds) s = (t, None)"
  by (simp add: spent_exercise_all exercise_spends)

end

end
