(* ===== verification/Scheduler.thy ===== *)
theory Scheduler
  imports Transport
begin

text \<open>
  The single serial socket: \<open>scheduler.hxx\<close> and \<open>scheduler.cxx\<close> under
  \<open>riak/transports/single_serial_socket\<close>, and the factory of \<open>delivery_provider.cxx\<close>.
  Requests wait in a list; one is active and owns the socket; its answers are handed to its
  response handler until its termination option is exercised. Every member function holds the
  scheduler's mutex for the part modelled here as one step (a response handler is called after
  the mutex is released, as the last act of the function, and appears as the event
  \<open>Called\<close>). The socket, the resolver and the service that runs completion handlers are
  Boost's and enter as the lists of started operations and queued tasks and as the record
  \<open>network\<close>.
\<close>

subsection \<open>State\<close>

record boost_error =
  be_value :: int
  be_category :: nat

definition boost_ok :: boost_error where
  "boost_ok = \<lparr>be_value = 0, be_category = 0\<rparr>"

text \<open>\<open>ECANCELED\<close> of the system category, \<open>HOST_NOT_FOUND\<close> of the resolver's category.\<close>

definition operation_aborted :: boost_error where
  "operation_aborted = \<lparr>be_value = 125, be_category = 0\<rparr>"

definition host_not_found :: boost_error where
  "host_not_found = \<lparr>be_value = 1, be_category = 1\<rparr>"

definition is_boost_error :: "boost_error \<Rightarrow> bool" where
  "is_boost_error e \<longleftrightarrow> be_value e \<noteq> 0"

text \<open>\<open>std::make_error_code(static_cast<std::errc>(error.value()))\<close>.\<close>

definition to_errc :: "boost_error \<Rightarrow> error_code" where
  "to_errc e = make_errc (be_value e)"

text \<open>
  A request is a shared pointer to its data and handler: the number is the pointer's identity.
\<close>

record enqueued_request =
  er_id :: nat
  er_data :: bytes

datatype socket_operation = Read_op nat | Write_op nat

datatype task =
    On_read nat boost_error bytes
  | On_write nat boost_error
  | Dequeue nat

datatype socket_event =
    Wrote nat bytes
  | Began_read nat
  | Cancelled
  | Shut_down
  | Closed
  | Connected nat boost_error
  | Called nat error_code nat bytes

datatype phase = Running | Draining | Awaiting_active | Destroyed

text \<open>
  \<open>sc_options\<close> and \<open>sc_exercised\<close> are the termination options by request;
  \<open>sc_finished_notified\<close> is whether anybody notified \<open>active_request_finished_\<close>.
\<close>

record scheduler =
  sc_pending :: "enqueued_request list"
  sc_active :: "enqueued_request option"
  sc_shutting_down :: bool
  sc_next_id :: nat
  sc_options :: "nat \<Rightarrow> enqueued_request option"
  sc_exercised :: "nat \<Rightarrow> bool"
  sc_operations :: "socket_operation list"
  sc_ready :: "task list"
  sc_trace :: "socket_event list"
  sc_resolutions :: nat
  sc_attempts :: nat
  sc_phase :: phase
  sc_finished_notified :: bool

text \<open>
  The network: what the n-th resolution yields, how the n-th connection attempt ends, and
  whether the write of a request completes as soon as it is started.
\<close>

record network =
  nw_resolve :: "nat \<Rightarrow> nat list"
  nw_connect :: "nat \<Rightarrow> nat \<Rightarrow> boost_error"
  nw_write_at_once :: "nat \<Rightarrow> bool"

subsection \<open>The socket\<close>

definition sock :: "socket_event \<Rightarrow> scheduler \<Rightarrow> scheduler" where
  "sock e s = s\<lparr>sc_trace := sc_trace s @ [e]\<rparr>"

definition start_write :: "network \<Rightarrow> enqueued_request \<Rightarrow> scheduler \<Rightarrow> scheduler" where
  "start_write net r s =
     sock (Wrote (er_id r) (er_data r))
       (if nw_write_at_once net (er_id r)
        then s\<lparr>sc_ready := sc_ready s @ [On_write (er_id r) boost_ok]\<rparr>
        else s\<lparr>sc_operations := sc_operations s @ [Write_op (er_id r)]\<rparr>)"

definition start_read :: "nat \<Rightarrow> scheduler \<Rightarrow> scheduler" where
  "start_read i s = sock (Began_read i) (s\<lparr>sc_operations := sc_operations s @ [Read_op i]\<rparr>)"

fun aborted :: "socket_operation \<Rightarrow> task" where
  "aborted (Read_op i) = On_read i operation_aborted []"
| "aborted (Write_op i) = On_write i operation_aborted"

definition abort_operations :: "scheduler \<Rightarrow> scheduler" where
  "abort_operations s =
     s\<lparr>sc_ready := sc_ready s @ map aborted (sc_operations s), sc_operations := []\<rparr>"

definition socket_cancel :: "scheduler \<Rightarrow> scheduler" where
  "socket_cancel s = sock Cancelled (abort_operations s)"

definition socket_shutdown :: "scheduler \<Rightarrow> scheduler" where
  "socket_shutdown s = sock Shut_down s"

definition socket_close :: "scheduler \<Rightarrow> scheduler" where
  "socket_close s = sock Closed (abort_operations s)"

subsection \<open>Connecting\<close>

text \<open>The loop over the endpoints, and the throw when the last attempt failed.\<close>

fun connect_loop ::
  "network \<Rightarrow> nat list \<Rightarrow> boost_error \<Rightarrow> scheduler \<Rightarrow> scheduler \<times> boost_error" where
  "connect_loop net [] error s = (s, error)"
| "connect_loop net (ep # eps) error s =
     (if is_boost_error error then
        let s = socket_close s;
            error = nw_connect net (sc_attempts s) ep
        in connect_loop net eps error
             (sock (Connected ep error) (s\<lparr>sc_attempts := Suc (sc_attempts s)\<rparr>))
      else (s, error))"

definition connect_socket :: "network \<Rightarrow> scheduler \<Rightarrow> scheduler \<times> fault option" where
  "connect_socket net s =
     (let endpoints = nw_resolve net (sc_resolutions s);
          s = s\<lparr>sc_resolutions := Suc (sc_resolutions s)\<rparr>;
          (s, error) = connect_loop net endpoints host_not_found s
      in if is_boost_error error then (s, Some (System_error (be_value error))) else (s, None))"

definition make_scheduler :: "network \<Rightarrow> scheduler \<times> fault option" where
  "make_scheduler net = connect_socket net
     \<lparr>sc_pending = [], sc_active = None, sc_shutting_down = False, sc_next_id = 0,
      sc_options = (\<lambda>_. None), sc_exercised = (\<lambda>_. False), sc_operations = [], sc_ready = [],
      sc_trace = [], sc_resolutions = 0, sc_attempts = 0, sc_phase = Running,
      sc_finished_notified = False\<rparr>"

subsection \<open>Requests\<close>

definition run_next_request :: "network \<Rightarrow> scheduler \<Rightarrow> scheduler" where
  "run_next_request net s =
     (case sc_pending s of
        r # rest \<Rightarrow> start_write net r (s\<lparr>sc_active := Some r, sc_pending := rest\<rparr>)
      | [] \<Rightarrow> s\<lparr>sc_active := None\<rparr>)"

text \<open>Delivering returns the option, named by its request, or throws.\<close>

definition deliver :: "network \<Rightarrow> bytes \<Rightarrow> scheduler \<Rightarrow> scheduler \<times> (fault + nat)" where
  "deliver net r s =
     (let packed_request = \<lparr>er_id = sc_next_id s, er_data = r\<rparr>
      in if \<not> sc_shutting_down s then
           let s = s\<lparr>sc_next_id := Suc (sc_next_id s), sc_pending := sc_pending s @ [packed_request]\<rparr>;
               s = (if sc_active s = None then run_next_request net s else s);
               s = s\<lparr>sc_options := (sc_options s)(er_id packed_request := Some packed_request),
                     sc_exercised := (sc_exercised s)(er_id packed_request := False)\<rparr>
           in (s, Inr (er_id packed_request))
         else (s, Inl (System_error network_down)))"

text \<open>The factory of \<open>delivery_provider.cxx\<close>: the transport and its bound \<open>deliver\<close>.\<close>

definition make_single_socket_transport ::
  "network \<Rightarrow> fault + scheduler \<times> (bytes \<Rightarrow> scheduler \<Rightarrow> scheduler \<times> (fault + nat))" where
  "make_single_socket_transport net =
     (case make_scheduler net of
        (s, Some f) \<Rightarrow> Inl f
      | (s, None) \<Rightarrow> Inr (s, deliver net))"

definition handle_socket_error ::
  "network \<Rightarrow> boost_error \<Rightarrow> scheduler \<Rightarrow> scheduler \<times> fault option" where
  "handle_socket_error net error s =
     (if error = operation_aborted then
        let s = s\<lparr>sc_active := None\<rparr>;
            s = socket_close (socket_shutdown s)
        in case connect_socket net s of
             (s, Some f) \<Rightarrow> (s, Some f)
           | (s, None) \<Rightarrow>
               (if \<not> sc_shutting_down s then run_next_request net s else s, None)
      else
        case sc_active s of
          None \<Rightarrow> (s, Some Null_dereference)
        | Some a \<Rightarrow> (sock (Called (er_id a) (to_errc error) 0 []) s, None))"

definition is_active :: "nat \<Rightarrow> scheduler \<Rightarrow> bool" where
  "is_active i s \<longleftrightarrow> map_option er_id (sc_active s) = Some i"

definition on_read ::
  "network \<Rightarrow> nat \<Rightarrow> boost_error \<Rightarrow> bytes \<Rightarrow> scheduler \<Rightarrow> scheduler \<times> fault option" where
  "on_read net intended_recipient error received_bytes s =
     (if is_active intended_recipient s then
        if \<not> is_boost_error error then
          let s = start_read intended_recipient s
          in (sock (Called intended_recipient (to_errc error) (length received_bytes)
                received_bytes) s, None)
        else handle_socket_error net error s
      else (s, None))"

definition on_write :: "network \<Rightarrow> nat \<Rightarrow> boost_error \<Rightarrow> scheduler \<Rightarrow> scheduler \<times> fault option" where
  "on_write net intended_recipient error s =
     (if is_active intended_recipient s then
        if \<not> is_boost_error error then (start_read intended_recipient s, None)
        else handle_socket_error net error s
      else (s, None))"

subsection \<open>The option to terminate a request\<close>

text \<open>
  \<open>exercise\<close> compares the data of the active request with its own; it runs either when the
  option is called or in its destructor, where \<open>shared_from_this\<close> throws.
\<close>

definition exercise_option ::
  "network \<Rightarrow> bool \<Rightarrow> nat \<Rightarrow> bool \<Rightarrow> scheduler \<Rightarrow> scheduler \<times> fault option" where
  "exercise_option net in_destructor i connection_is_dirty s =
     (case sc_options s i of
        None \<Rightarrow> (s, None)
      | Some this_request \<Rightarrow>
          if sc_exercised s i then (s, None)
          else case sc_active s of
            None \<Rightarrow> (s, Some Null_dereference)
          | Some active_request \<Rightarrow>
              if er_data active_request = er_data this_request then
                let s = (if \<not> connection_is_dirty then
                           if \<not> sc_shutting_down s then run_next_request net s else s
                         else s);
                    s = socket_cancel s
                in (s\<lparr>sc_exercised := (sc_exercised s)(i := True)\<rparr>, None)
              else if in_destructor then (s, Some Bad_weak_ptr)
              else (s\<lparr>sc_ready := sc_ready s @ [Dequeue i],
                      sc_exercised := (sc_exercised s)(i := True)\<rparr>, None))"

definition exercise :: "network \<Rightarrow> nat \<Rightarrow> bool \<Rightarrow> scheduler \<Rightarrow> scheduler \<times> fault option" where
  "exercise net i connection_is_dirty s = exercise_option net False i connection_is_dirty s"

definition destroy_option :: "network \<Rightarrow> nat \<Rightarrow> scheduler \<Rightarrow> scheduler \<times> fault option" where
  "destroy_option net i s =
     (let (s, f) = exercise_option net True i False s
      in (s\<lparr>sc_options := (sc_options s)(i := None)\<rparr>, f))"

text \<open>Erasing through an iterator whose element has left the list is undefined.\<close>

definition dequeue :: "nat \<Rightarrow> scheduler \<Rightarrow> scheduler \<times> fault option" where
  "dequeue i s =
     (if i \<in> set (map er_id (sc_pending s))
      then (s\<lparr>sc_pending := filter (\<lambda>r. er_id r \<noteq> i) (sc_pending s)\<rparr>, None)
      else (s, Some Invalid_iterator))"

subsection \<open>Destruction\<close>

text \<open>
  The destructor in three parts: it announces the end to the pending requests; once the list is
  empty it cancels the socket; once no request is active it closes. Each wait releases the
  mutex. \<open>finish_shutdown\<close> leaves the second wait, which ends on a notification.
\<close>

definition begin_shutdown :: "scheduler \<Rightarrow> scheduler" where
  "begin_shutdown s =
     s\<lparr>sc_shutting_down := True, sc_phase := Draining,
       sc_trace := sc_trace s @
         map (\<lambda>r. Called (er_id r) (make_errc network_reset) 0 []) (sc_pending s)\<rparr>"

definition finish_shutdown :: "scheduler \<Rightarrow> scheduler" where
  "finish_shutdown s = (socket_close (socket_shutdown s))\<lparr>sc_phase := Destroyed\<rparr>"

definition drained :: "scheduler \<Rightarrow> scheduler" where
  "drained s =
     (if sc_phase s = Draining \<and> sc_pending s = [] then
        let s = socket_cancel s
        in if sc_active s = None then finish_shutdown s else s\<lparr>sc_phase := Awaiting_active\<rparr>
      else s)"

definition woken :: "scheduler \<Rightarrow> scheduler" where
  "woken s =
     (if sc_phase s = Awaiting_active \<and> sc_finished_notified s then
        if sc_active s = None then finish_shutdown s else s\<lparr>sc_finished_notified := False\<rparr>
      else s)"

subsection \<open>Steps\<close>

text \<open>
  What can happen: a client delivers a request, exercises or drops an option; a started
  operation completes with some result; the service runs a queued task; the destructor moves.
\<close>

datatype sched_input =
    Deliver bytes
  | Exercise nat bool
  | Destroy_option nat
  | Complete nat boost_error bytes
  | Run_task nat
  | Begin_shutdown
  | Drained
  | Woken

definition run_task :: "network \<Rightarrow> task \<Rightarrow> scheduler \<Rightarrow> scheduler \<times> fault option" where
  "run_task net t s = (case t of
       On_read i e d \<Rightarrow> on_read net i e d s
     | On_write i e \<Rightarrow> on_write net i e s
     | Dequeue i \<Rightarrow> dequeue i s)"

fun completed :: "socket_operation \<Rightarrow> boost_error \<Rightarrow> bytes \<Rightarrow> task" where
  "completed (Read_op i) e d = On_read i e d"
| "completed (Write_op i) e d = On_write i e"

definition drop_nth :: "nat \<Rightarrow> 'a list \<Rightarrow> 'a list" where
  "drop_nth k xs = take k xs @ drop (Suc k) xs"

fun sched_step :: "network \<Rightarrow> scheduler \<Rightarrow> sched_input \<Rightarrow> scheduler \<times> fault option" where
  "sched_step net s (Deliver r) =
     (case deliver net r s of (s, Inl f) \<Rightarrow> (s, Some f) | (s, Inr _) \<Rightarrow> (s, None))"
| "sched_step net s (Exercise i dirty) = exercise net i dirty s"
| "sched_step net s (Destroy_option i) = destroy_option net i s"
| "sched_step net s (Complete k e d) =
     (if k < length (sc_operations s)
      then (s\<lparr>sc_ready := sc_ready s @ [completed (sc_operations s ! k) e d],
              sc_operations := drop_nth k (sc_operations s)\<rparr>, None)
      else (s, None))"
| "sched_step net s (Run_task k) =
     (if k < length (sc_ready s)
      then run_task net (sc_ready s ! k) (s\<lparr>sc_ready := drop_nth k (sc_ready s)\<rparr>)
      else (s, None))"
| "sched_step net s Begin_shutdown =
     (if sc_phase s = Running then (begin_shutdown s, None) else (s, None))"
| "sched_step net s Drained = (drained s, None)"
| "sched_step net s Woken = (woken s, None)"

definition sched_next :: "network \<Rightarrow> scheduler \<Rightarrow> sched_input \<Rightarrow> scheduler" where
  "sched_next net s x = fst (sched_step net s x)"

end
