(* ===== verification/Scheduler_Safety.thy ===== *)
theory Scheduler_Safety
  imports Scheduler
begin

text \<open>
  What the scheduler keeps true: requests are written in the order of their delivery and at
  most once, the active request is the one written last, and a request that has left the
  scheduler is never called again. The lemmas are grouped by operation and meet in one
  preservation lemma per invariant.
\<close>

subsection \<open>Frames\<close>

fun writes :: "socket_event list \<Rightarrow> nat list" where
  "writes [] = []"
| "writes (Wrote i d # es) = i # writes es"
| "writes (_ # es) = writes es"

lemma writes_append [simp]: "writes (xs @ ys) = writes xs @ writes ys"
  by (induction xs rule: writes.induct) auto

fun is_call :: "nat \<Rightarrow> socket_event \<Rightarrow> bool" where
  "is_call i (Called j e n d) = (i = j)"
| "is_call i _ = False"

definition calls_to :: "nat \<Rightarrow> scheduler \<Rightarrow> socket_event list" where
  "calls_to i s = filter (is_call i) (sc_trace s)"

lemma calls_to_upd [simp]:
  "calls_to i (s\<lparr>sc_options := o'\<rparr>) = calls_to i s"
  "calls_to i (s\<lparr>sc_exercised := x\<rparr>) = calls_to i s"
  "calls_to i (s\<lparr>sc_ready := r\<rparr>) = calls_to i s"
  "calls_to i (s\<lparr>sc_operations := ops\<rparr>) = calls_to i s"
  "calls_to i (s\<lparr>sc_active := a\<rparr>) = calls_to i s"
  "calls_to i (s\<lparr>sc_pending := p\<rparr>) = calls_to i s"
  "calls_to i (s\<lparr>sc_phase := ph\<rparr>) = calls_to i s"
  by (simp_all add: calls_to_def)

text \<open>Two states that differ only in socket operations, queued tasks and the log.\<close>

definition same_core :: "scheduler \<Rightarrow> scheduler \<Rightarrow> bool" where
  "same_core s t \<longleftrightarrow> sc_pending t = sc_pending s \<and> sc_active t = sc_active s \<and>
     sc_next_id t = sc_next_id s \<and> sc_shutting_down t = sc_shutting_down s \<and>
     sc_options t = sc_options s \<and> sc_exercised t = sc_exercised s \<and> sc_phase t = sc_phase s \<and>
     sc_finished_notified t = sc_finished_notified s \<and>
     writes (sc_trace t) = writes (sc_trace s) \<and> (\<forall>i. calls_to i t = calls_to i s)"

lemma same_core_refl [simp]: "same_core s s"
  by (simp add: same_core_def)

lemma same_core_trans: "same_core s t \<Longrightarrow> same_core t u \<Longrightarrow> same_core s u"
  by (simp add: same_core_def)

lemma same_coreD:
  assumes "same_core s t"
  shows "sc_pending t = sc_pending s" "sc_active t = sc_active s" "sc_next_id t = sc_next_id s"
    "sc_shutting_down t = sc_shutting_down s" "sc_options t = sc_options s"
    "sc_exercised t = sc_exercised s" "sc_phase t = sc_phase s"
    "sc_finished_notified t = sc_finished_notified s"
    "writes (sc_trace t) = writes (sc_trace s)" "calls_to i t = calls_to i s"
  using assms by (simp_all add: same_core_def)

lemma sock_fields [simp]:
  "sc_pending (sock e s) = sc_pending s" "sc_active (sock e s) = sc_active s"
  "sc_next_id (sock e s) = sc_next_id s" "sc_shutting_down (sock e s) = sc_shutting_down s"
  "sc_options (sock e s) = sc_options s" "sc_exercised (sock e s) = sc_exercised s"
  "sc_phase (sock e s) = sc_phase s" "sc_finished_notified (sock e s) = sc_finished_notified s"
  "sc_operations (sock e s) = sc_operations s" "sc_ready (sock e s) = sc_ready s"
  "sc_resolutions (sock e s) = sc_resolutions s" "sc_attempts (sock e s) = sc_attempts s"
  "sc_trace (sock e s) = sc_trace s @ [e]"
  "calls_to i (sock e s) = calls_to i s @ (if is_call i e then [e] else [])"
  by (simp_all add: sock_def calls_to_def)

lemma abort_fields [simp]:
  "sc_pending (abort_operations s) = sc_pending s" "sc_active (abort_operations s) = sc_active s"
  "sc_next_id (abort_operations s) = sc_next_id s"
  "sc_shutting_down (abort_operations s) = sc_shutting_down s"
  "sc_options (abort_operations s) = sc_options s"
  "sc_exercised (abort_operations s) = sc_exercised s"
  "sc_phase (abort_operations s) = sc_phase s"
  "sc_finished_notified (abort_operations s) = sc_finished_notified s"
  "sc_operations (abort_operations s) = []"
  "sc_ready (abort_operations s) = sc_ready s @ map aborted (sc_operations s)"
  "sc_trace (abort_operations s) = sc_trace s"
  "sc_resolutions (abort_operations s) = sc_resolutions s"
  "sc_attempts (abort_operations s) = sc_attempts s"
  "calls_to i (abort_operations s) = calls_to i s"
  by (simp_all add: abort_operations_def calls_to_def)

lemma same_core_socket [simp]:
  "same_core s (socket_cancel s)" "same_core s (socket_shutdown s)" "same_core s (socket_close s)"
  "same_core s (start_read i s)"
  by (simp_all add: same_core_def socket_cancel_def socket_shutdown_def socket_close_def
      start_read_def calls_to_def)

lemma connect_loop_core: "connect_loop net eps e s = (t, e') \<Longrightarrow> same_core s t"
proof (induction net eps e s arbitrary: t rule: connect_loop.induct)
  case (2 net ep eps e s)
  show ?case
  proof (cases "is_boost_error e")
    case True
    let ?s = "sock (Connected ep (nw_connect net (sc_attempts (socket_close s)) ep))
      (socket_close s\<lparr>sc_attempts := Suc (sc_attempts (socket_close s))\<rparr>)"
    have "same_core s ?s"
      by (simp add: same_core_def socket_close_def calls_to_def)
    moreover have "same_core ?s t"
      using True 2 by (simp add: Let_def)
    ultimately show ?thesis by (rule same_core_trans)
  next
    case False
    with 2 show ?thesis by simp
  qed
qed simp

lemma connect_socket_core: "connect_socket net s = (t, f) \<Longrightarrow> same_core s t"
proof -
  assume c: "connect_socket net s = (t, f)"
  obtain u e where u: "connect_loop net (nw_resolve net (sc_resolutions s)) host_not_found
      (s\<lparr>sc_resolutions := Suc (sc_resolutions s)\<rparr>) = (u, e)" by force
  then have "same_core (s\<lparr>sc_resolutions := Suc (sc_resolutions s)\<rparr>) u"
    by (rule connect_loop_core)
  moreover have "t = u" using c u by (auto simp: connect_socket_def Let_def split: if_splits)
  ultimately show ?thesis by (simp add: same_core_def calls_to_def)
qed

subsection \<open>First come, first written\<close>

definition queue_ids :: "scheduler \<Rightarrow> nat list" where
  "queue_ids s = writes (sc_trace s) @ map er_id (sc_pending s)"

definition sched_inv :: "scheduler \<Rightarrow> bool" where
  "sched_inv s \<longleftrightarrow> sorted_wrt (<) (queue_ids s) \<and> (\<forall>i \<in> set (queue_ids s). i < sc_next_id s) \<and>
     (\<forall>a. sc_active s = Some a \<longrightarrow>
        writes (sc_trace s) \<noteq> [] \<and> last (writes (sc_trace s)) = er_id a)"

lemma sched_inv_core: "same_core s t \<Longrightarrow> sched_inv t = sched_inv s"
  by (simp add: same_core_def sched_inv_def queue_ids_def)

lemma start_write_fields [simp]:
  "sc_pending (start_write net r s) = sc_pending s" "sc_active (start_write net r s) = sc_active s"
  "sc_next_id (start_write net r s) = sc_next_id s"
  "sc_shutting_down (start_write net r s) = sc_shutting_down s"
  "sc_options (start_write net r s) = sc_options s"
  "sc_exercised (start_write net r s) = sc_exercised s"
  "sc_phase (start_write net r s) = sc_phase s"
  "sc_finished_notified (start_write net r s) = sc_finished_notified s"
  "sc_trace (start_write net r s) = sc_trace s @ [Wrote (er_id r) (er_data r)]"
  "calls_to i (start_write net r s) = calls_to i s"
  by (simp_all add: start_write_def calls_to_def)

lemma run_next_request_fields [simp]:
  "sc_next_id (run_next_request net s) = sc_next_id s"
  "sc_shutting_down (run_next_request net s) = sc_shutting_down s"
  "sc_options (run_next_request net s) = sc_options s"
  "sc_exercised (run_next_request net s) = sc_exercised s"
  "sc_phase (run_next_request net s) = sc_phase s"
  "sc_finished_notified (run_next_request net s) = sc_finished_notified s"
  "calls_to i (run_next_request net s) = calls_to i s"
  by (simp_all add: run_next_request_def split: list.split)

lemma run_next_request_inv: "sched_inv s \<Longrightarrow> sched_inv (run_next_request net s)"
  by (auto simp: run_next_request_def sched_inv_def queue_ids_def split: list.split)

lemma active_None_inv: "sched_inv s \<Longrightarrow> sched_inv (s\<lparr>sc_active := None\<rparr>)"
  by (simp add: sched_inv_def queue_ids_def)

lemma sched_inv_upd [simp]:
  "sched_inv (s\<lparr>sc_options := o'\<rparr>) = sched_inv s"
  "sched_inv (s\<lparr>sc_exercised := x\<rparr>) = sched_inv s"
  "sched_inv (s\<lparr>sc_ready := r\<rparr>) = sched_inv s"
  "sched_inv (s\<lparr>sc_operations := ops\<rparr>) = sched_inv s"
  "sched_inv (s\<lparr>sc_phase := p\<rparr>) = sched_inv s"
  "sched_inv (s\<lparr>sc_finished_notified := b\<rparr>) = sched_inv s"
  by (simp_all add: sched_inv_def queue_ids_def)

lemma enqueue_inv:
  "sched_inv s \<Longrightarrow> sched_inv (s\<lparr>sc_next_id := Suc (sc_next_id s),
     sc_pending := sc_pending s @ [\<lparr>er_id = sc_next_id s, er_data = r\<rparr>]\<rparr>)"
  by (auto simp: sched_inv_def queue_ids_def sorted_wrt_append less_Suc_eq)

lemma deliver_inv: "sched_inv s \<Longrightarrow> sched_inv (fst (deliver net r s))"
  by (simp add: deliver_def Let_def enqueue_inv run_next_request_inv)

lemma called_inv [simp]: "sched_inv (sock (Called i e n d) s) = sched_inv s"
  by (simp add: sched_inv_def queue_ids_def)

lemma handle_socket_error_inv: "sched_inv s \<Longrightarrow> sched_inv (fst (handle_socket_error net e s))"
proof -
  assume inv: "sched_inv s"
  let ?s = "socket_close (socket_shutdown (s\<lparr>sc_active := None\<rparr>))"
  obtain t f where t: "connect_socket net ?s = (t, f)" by force
  have "same_core (s\<lparr>sc_active := None\<rparr>) ?s"
    by (rule same_core_trans [OF same_core_socket(2) same_core_socket(3)])
  then have "same_core (s\<lparr>sc_active := None\<rparr>) t"
    using connect_socket_core [OF t] by (rule same_core_trans)
  then have "sched_inv t" using sched_inv_core active_None_inv [OF inv] by blast
  with t inv show ?thesis
    by (auto simp: handle_socket_error_def Let_def run_next_request_inv split: option.split)
qed

lemma start_read_inv [simp]: "sched_inv (start_read i s) = sched_inv s"
  by (rule sched_inv_core) simp

lemma socket_inv [simp]:
  "sched_inv (socket_cancel s) = sched_inv s" "sched_inv (socket_shutdown s) = sched_inv s"
  "sched_inv (socket_close s) = sched_inv s"
  by (rule sched_inv_core, simp)+

lemma exercise_option_inv: "sched_inv s \<Longrightarrow> sched_inv (fst (exercise_option net b i d s))"
  by (auto simp: exercise_option_def Let_def run_next_request_inv split: option.split)

lemma dequeue_inv: "sched_inv s \<Longrightarrow> sched_inv (fst (dequeue i s))"
  by (auto simp: dequeue_def sched_inv_def queue_ids_def sorted_wrt_append sorted_wrt_map
      intro: sorted_wrt_filter)

lemma run_task_inv: "sched_inv s \<Longrightarrow> sched_inv (fst (run_task net t s))"
  by (simp add: run_task_def on_read_def on_write_def handle_socket_error_inv dequeue_inv Let_def
      split: task.split)

lemma writes_map_called [simp]: "writes (map (\<lambda>r. Called (f r) e n d) rs) = []"
  by (induction rs) auto

lemma begin_shutdown_inv: "sched_inv s \<Longrightarrow> sched_inv (begin_shutdown s)"
  by (simp add: begin_shutdown_def sched_inv_def queue_ids_def)

lemma drained_inv: "sched_inv s \<Longrightarrow> sched_inv (drained s)"
  by (simp add: drained_def finish_shutdown_def Let_def)

lemma woken_inv: "sched_inv s \<Longrightarrow> sched_inv (woken s)"
  by (simp add: woken_def finish_shutdown_def)

lemma sched_next_simps:
  "sched_next net s (Deliver r) = fst (deliver net r s)"
  "sched_next net s (Exercise i dirty) = fst (exercise_option net False i dirty s)"
  "sched_next net s (Destroy_option i) =
     (fst (exercise_option net True i False s))
       \<lparr>sc_options := (sc_options (fst (exercise_option net True i False s)))(i := None)\<rparr>"
  "sched_next net s (Complete k e d) =
     (if k < length (sc_operations s)
      then s\<lparr>sc_ready := sc_ready s @ [completed (sc_operations s ! k) e d],
             sc_operations := drop_nth k (sc_operations s)\<rparr>
      else s)"
  "sched_next net s (Run_task k) =
     (if k < length (sc_ready s)
      then fst (run_task net (sc_ready s ! k) (s\<lparr>sc_ready := drop_nth k (sc_ready s)\<rparr>)) else s)"
  "sched_next net s Begin_shutdown = (if sc_phase s = Running then begin_shutdown s else s)"
  "sched_next net s Drained = drained s"
  "sched_next net s Woken = woken s"
  by (simp_all add: sched_next_def exercise_def destroy_option_def split_beta Let_def
      split: sum.split)

lemma sched_next_inv: "sched_inv s \<Longrightarrow> sched_inv (sched_next net s x)"
  by (cases x) (simp_all add: sched_next_simps deliver_inv exercise_option_inv run_task_inv
      begin_shutdown_inv drained_inv woken_inv)

interpretation fifo: step_system "sched_next net" "\<lambda>_ _. True" sched_inv for net
  by unfold_locales (rule sched_next_inv)

subsection \<open>Gone for good\<close>

text \<open>
  A request that is neither pending nor active any more. No step brings it back, and no step
  calls its handler.
\<close>

definition gone :: "nat \<Rightarrow> scheduler \<Rightarrow> bool" where
  "gone i s \<longleftrightarrow> i < sc_next_id s \<and> i \<notin> set (map er_id (sc_pending s)) \<and> \<not> is_active i s"

definition silent :: "nat \<Rightarrow> socket_event list \<Rightarrow> scheduler \<Rightarrow> bool" where
  "silent i calls s \<longleftrightarrow> gone i s \<and> calls_to i s = calls"

lemma silent_core: "same_core s t \<Longrightarrow> silent i cs t = silent i cs s"
  by (simp add: same_core_def silent_def gone_def is_active_def)

lemma silent_upd [simp]:
  "silent i cs (s\<lparr>sc_options := o'\<rparr>) = silent i cs s"
  "silent i cs (s\<lparr>sc_exercised := x\<rparr>) = silent i cs s"
  "silent i cs (s\<lparr>sc_ready := r\<rparr>) = silent i cs s"
  "silent i cs (s\<lparr>sc_operations := ops\<rparr>) = silent i cs s"
  "silent i cs (s\<lparr>sc_phase := p\<rparr>) = silent i cs s"
  "silent i cs (s\<lparr>sc_finished_notified := b\<rparr>) = silent i cs s"
  by (simp_all add: silent_def gone_def is_active_def calls_to_def)

lemma silent_socket [simp]:
  "silent i cs (socket_cancel s) = silent i cs s" "silent i cs (socket_shutdown s) = silent i cs s"
  "silent i cs (socket_close s) = silent i cs s" "silent i cs (start_read j s) = silent i cs s"
  by (rule silent_core, simp)+

lemma silent_run_next: "silent i cs s \<Longrightarrow> silent i cs (run_next_request net s)"
  by (auto simp: run_next_request_def silent_def gone_def is_active_def calls_to_def start_write_def
      split: list.split)

lemma silent_active_None: "silent i cs s \<Longrightarrow> silent i cs (s\<lparr>sc_active := None\<rparr>)"
  by (simp add: silent_def gone_def is_active_def calls_to_def)

lemma silent_called: "silent i cs s \<Longrightarrow> is_active j s \<Longrightarrow> silent i cs (sock (Called j e n d) s)"
  by (auto simp: silent_def gone_def is_active_def)

lemma silent_enqueue:
  "silent i cs s \<Longrightarrow> silent i cs (s\<lparr>sc_next_id := Suc (sc_next_id s),
     sc_pending := sc_pending s @ [\<lparr>er_id = sc_next_id s, er_data = r\<rparr>]\<rparr>)"
  by (auto simp: silent_def gone_def is_active_def calls_to_def)

lemma deliver_silent: "silent i cs s \<Longrightarrow> silent i cs (fst (deliver net r s))"
  by (simp add: deliver_def Let_def silent_enqueue silent_run_next)

lemma handle_socket_error_silent:
  assumes inv: "silent i cs s"
  shows "silent i cs (fst (handle_socket_error net e s))"
proof -
  let ?s = "socket_close (socket_shutdown (s\<lparr>sc_active := None\<rparr>))"
  obtain t f where t: "connect_socket net ?s = (t, f)" by force
  have "silent i cs ?s" using silent_active_None [OF inv] by simp
  then have "silent i cs t" using silent_core [OF connect_socket_core [OF t]] by simp
  with t inv show ?thesis
    by (auto simp: handle_socket_error_def Let_def silent_run_next silent_called is_active_def
        split: option.split)
qed

lemma exercise_option_silent:
  "silent i cs s \<Longrightarrow> silent i cs (fst (exercise_option net b j d s))"
  by (auto simp: exercise_option_def Let_def silent_run_next split: option.split)

lemma dequeue_silent: "silent i cs s \<Longrightarrow> silent i cs (fst (dequeue j s))"
  by (auto simp: dequeue_def silent_def gone_def is_active_def calls_to_def)

lemma is_active_start_read [simp]: "is_active j (start_read i s) = is_active j s"
  by (simp add: is_active_def start_read_def)

lemma run_task_silent: "silent i cs s \<Longrightarrow> silent i cs (fst (run_task net t s))"
  by (simp add: run_task_def on_read_def on_write_def handle_socket_error_silent dequeue_silent
      silent_called Let_def split: task.split)

lemma filter_call_pending:
  "i \<notin> er_id ` set rs \<Longrightarrow> filter (is_call i) (map (\<lambda>r. Called (er_id r) e n d) rs) = []"
  by (induction rs) auto

lemma begin_shutdown_silent: "silent i cs s \<Longrightarrow> silent i cs (begin_shutdown s)"
  by (simp add: begin_shutdown_def silent_def gone_def is_active_def calls_to_def
      filter_call_pending)

lemma drained_silent: "silent i cs s \<Longrightarrow> silent i cs (drained s)"
  by (simp add: drained_def finish_shutdown_def Let_def)

lemma woken_silent: "silent i cs s \<Longrightarrow> silent i cs (woken s)"
  by (simp add: woken_def finish_shutdown_def)

lemma sched_next_silent: "silent i cs s \<Longrightarrow> silent i cs (sched_next net s x)"
  by (cases x) (simp_all add: sched_next_simps deliver_silent exercise_option_silent
      run_task_silent begin_shutdown_silent drained_silent woken_silent)

interpretation silence: step_system "sched_next net" "\<lambda>_ _. True" "silent i cs" for net i cs
  by unfold_locales (rule sched_next_silent)

lemma silent_run: "silent i cs s \<Longrightarrow> silent i cs (run_steps (sched_next net) s xs)"
  by (rule silence.run_inv_always) auto

lemma sched_inv_run: "sched_inv s \<Longrightarrow> sched_inv (run_steps (sched_next net) s xs)"
  by (rule fifo.run_inv_always) auto

lemma make_scheduler_inv: "sched_inv (fst (make_scheduler net))"
proof -
  let ?s = "\<lparr>sc_pending = [], sc_active = None, sc_shutting_down = False, sc_next_id = 0,
      sc_options = (\<lambda>_. None), sc_exercised = (\<lambda>_. False), sc_operations = [], sc_ready = [],
      sc_trace = [], sc_resolutions = 0, sc_attempts = 0, sc_phase = Running,
      sc_finished_notified = False\<rparr>"
  obtain t f where t: "make_scheduler net = (t, f)" by force
  then have "same_core ?s t" unfolding make_scheduler_def by (rule connect_socket_core)
  then have "sched_inv t = sched_inv ?s" by (rule sched_inv_core)
  with t show ?thesis by (simp add: sched_inv_def queue_ids_def)
qed

subsection \<open>The option keeps its contract\<close>

definition option_spent :: "nat \<Rightarrow> scheduler \<Rightarrow> bool" where
  "option_spent i s \<longleftrightarrow> sc_options s i = None \<or> sc_exercised s i"

lemma exercise_option_spent:
  "exercise_option net b i d s = (t, None) \<Longrightarrow> option_spent i t"
  by (auto simp: exercise_option_def option_spent_def Let_def split: option.splits if_splits)

lemma spent_exercise_option:
  "option_spent i s \<Longrightarrow> exercise_option net b i d s = (s, None)"
  by (auto simp: exercise_option_def option_spent_def split: option.split)

interpretation option: termination_option "exercise net i" "option_spent i" for net i
  by unfold_locales (auto simp: exercise_def exercise_option_spent spent_exercise_option)

lemma destroy_spent:
  "option_spent i s \<Longrightarrow> destroy_option net i s =
     (s\<lparr>sc_options := (sc_options s)(i := None)\<rparr>, None)"
  by (simp add: destroy_option_def spent_exercise_option)

end
