(* ===== verification/Scheduler_Failures.thy ===== *)
theory Scheduler_Failures
  imports Scheduler_Safety
begin

text \<open>
  Connecting, the exercise of options, socket errors and destruction, followed through the
  steps they lead to. Several lemmas show how the scheduler stops working or loses a request;
  each is stated for every state of the shape it needs, not for one run.
\<close>

subsection \<open>Connecting\<close>

text \<open>The loop tries the endpoints in order and stops at the first that accepts.\<close>

fun first_success :: "network \<Rightarrow> nat list \<Rightarrow> nat \<Rightarrow> nat option" where
  "first_success net [] k = None"
| "first_success net (ep # eps) k =
     (if \<not> is_boost_error (nw_connect net k ep) then Some 0
      else map_option Suc (first_success net eps (Suc k)))"

lemma socket_close_attempts [simp]: "sc_attempts (socket_close s) = sc_attempts s"
  by (simp add: socket_close_def)

lemma connect_loop_result:
  "is_boost_error e \<Longrightarrow>
   \<not> is_boost_error (snd (connect_loop net eps e s)) \<longleftrightarrow>
     first_success net eps (sc_attempts s) \<noteq> None"
proof (induction eps arbitrary: e s)
  case (Cons ep eps)
  let ?e = "nw_connect net (sc_attempts s) ep"
  show ?case
  proof (cases "is_boost_error ?e")
    case True
    with Cons show ?thesis by (simp add: Let_def)
  next
    case False
    then have "connect_loop net eps ?e t = (t, ?e)" for t by (cases eps) simp_all
    with False Cons.prems show ?thesis by (simp add: Let_def)
  qed
qed simp

lemma connect_loop_attempts:
  "is_boost_error e \<Longrightarrow>
   sc_attempts (fst (connect_loop net eps e s)) = sc_attempts s +
     (case first_success net eps (sc_attempts s) of None \<Rightarrow> length eps | Some k \<Rightarrow> Suc k)"
proof (induction eps arbitrary: e s)
  case (Cons ep eps)
  let ?e = "nw_connect net (sc_attempts s) ep"
  show ?case
  proof (cases "is_boost_error ?e")
    case True
    with Cons show ?thesis by (simp add: Let_def split: option.split)
  next
    case False
    then have "connect_loop net eps ?e t = (t, ?e)" for t by (cases eps) simp_all
    with False Cons.prems show ?thesis by (simp add: Let_def)
  qed
qed simp

lemma host_not_found_error [simp]: "is_boost_error host_not_found"
  by (simp add: is_boost_error_def host_not_found_def)

lemma connect_socket_None_iff:
  "snd (connect_socket net s) = None \<longleftrightarrow>
     first_success net (nw_resolve net (sc_resolutions s)) (sc_attempts s) \<noteq> None"
  using connect_loop_result [OF host_not_found_error, of net "nw_resolve net (sc_resolutions s)"
      "s\<lparr>sc_resolutions := Suc (sc_resolutions s)\<rparr>"]
  by (auto simp: connect_socket_def split_beta Let_def)

subsection \<open>After a socket error\<close>

text \<open>
  A request is active, no operation is started, and no task can change that. The only steps
  considered are those of the outside: deliveries, completions and queued tasks.
\<close>

definition stuck :: "enqueued_request \<Rightarrow> nat list \<Rightarrow> scheduler \<Rightarrow> bool" where
  "stuck a ws s \<longleftrightarrow> sc_active s = Some a \<and> sc_operations s = [] \<and>
     (\<forall>t \<in> set (sc_ready s). \<exists>i. t = Dequeue i) \<and> writes (sc_trace s) = ws"

fun outside :: "sched_input \<Rightarrow> bool" where
  "outside (Deliver r) = True"
| "outside (Complete k e d) = True"
| "outside (Run_task k) = True"
| "outside _ = False"

lemma set_drop_nth: "set (drop_nth k xs) \<subseteq> set xs"
  by (auto simp: drop_nth_def dest: in_set_takeD in_set_dropD)

lemma stuck_deliver: "stuck a ws s \<Longrightarrow> stuck a ws (fst (deliver net r s))"
  by (simp add: stuck_def deliver_def Let_def)

lemma stuck_dequeue: "stuck a ws s \<Longrightarrow> stuck a ws (fst (dequeue i s))"
  by (simp add: stuck_def dequeue_def)

lemma stuck_step: "stuck a ws s \<Longrightarrow> outside x \<Longrightarrow> stuck a ws (sched_next net s x)"
proof (cases x)
  case (Run_task k)
  assume stuck: "stuck a ws s"
  show ?thesis
  proof (cases "k < length (sc_ready s)")
    case True
    with stuck obtain i where "sc_ready s ! k = Dequeue i"
      using nth_mem [OF True] unfolding stuck_def by blast
    moreover have "stuck a ws (s\<lparr>sc_ready := drop_nth k (sc_ready s)\<rparr>)"
      using stuck set_drop_nth [of k "sc_ready s"] by (auto simp: stuck_def)
    ultimately show ?thesis
      using Run_task True by (simp add: sched_next_simps run_task_def stuck_dequeue)
  next
    case False
    with Run_task stuck show ?thesis by (simp add: sched_next_simps)
  qed
qed (auto simp: sched_next_simps stuck_deliver, auto simp: stuck_def)

interpretation wedge: step_system "sched_next net" "\<lambda>_. outside" "stuck a ws" for net a ws
  by unfold_locales (rule stuck_step)

lemma stuck_run:
  "stuck a ws s \<Longrightarrow> \<forall>x \<in> set xs. outside x \<Longrightarrow> stuck a ws (run_steps (sched_next net) s xs)"
  by (rule wedge.run_inv_always) auto

text \<open>A socket error in a read, and the client's reaction to it: terminate, then drop.\<close>

lemma read_error_then_dirty_termination:
  assumes "sc_active s = Some a" and "sc_operations s = []" and "sc_ready s = [On_read i e []]"
    and "i = er_id a" and "is_boost_error e" and "e \<noteq> operation_aborted"
    and "sc_options s i = Some a" and "\<not> sc_exercised s i"
  shows "stuck a (writes (sc_trace s)) (run_steps (sched_next net) s
    [Run_task 0, Exercise i True, Destroy_option i])"
    and "calls_to i (run_steps (sched_next net) s [Run_task 0, Exercise i True, Destroy_option i]) =
      calls_to i s @ [Called i (to_errc e) 0 []]"
  using assms
  by (simp_all add: sched_next_simps run_task_def on_read_def is_active_def handle_socket_error_def
      drop_nth_def exercise_option_def socket_cancel_def stuck_def calls_to_def Let_def)

subsection \<open>A clean end and the next request\<close>

text \<open>
  The active request ends cleanly while a read is started and another request is pending. The
  next request is written, and then the whole socket is cancelled.
\<close>

definition handover :: "enqueued_request \<Rightarrow> enqueued_request \<Rightarrow> enqueued_request list \<Rightarrow> scheduler \<Rightarrow> bool"
where
  "handover a b rest s \<longleftrightarrow> sc_active s = Some a \<and> sc_pending s = b # rest \<and>
     sc_operations s = [Read_op (er_id a)] \<and> sc_ready s = [] \<and> \<not> sc_shutting_down s \<and>
     sc_options s (er_id a) = Some a \<and> \<not> sc_exercised s (er_id a) \<and> sched_inv s \<and>
     er_id a < sc_next_id s"

lemma handover_exercise:
  assumes "handover a b rest s"
  shows "sched_next net s (Exercise (er_id a) False) =
    (socket_cancel (run_next_request net s))\<lparr>sc_exercised := (sc_exercised s)(er_id a := True)\<rparr>"
  using assms by (simp add: handover_def sched_next_simps exercise_option_def socket_cancel_def Let_def)

lemma handover_ids:
  assumes "handover a b rest s"
  shows "er_id a \<noteq> er_id b" and "er_id a \<notin> er_id ` set rest" and "er_id b \<notin> er_id ` set rest"
    and "er_id b < sc_next_id s"
proof -
  have q: "sorted_wrt (<) (writes (sc_trace s) @ er_id b # map er_id rest)"
    and last: "writes (sc_trace s) \<noteq> []" "last (writes (sc_trace s)) = er_id a"
    and "\<forall>i \<in> set (queue_ids s). i < sc_next_id s"
    using assms by (auto simp: handover_def sched_inv_def queue_ids_def)
  then have "er_id a \<in> set (writes (sc_trace s))" by (metis last_in_set)
  with q show "er_id a \<noteq> er_id b" "er_id a \<notin> er_id ` set rest" "er_id b \<notin> er_id ` set rest"
    by (auto simp: sorted_wrt_append)
  show "er_id b < sc_next_id s"
    using \<open>\<forall>i \<in> set (queue_ids s). i < sc_next_id s\<close> assms
    by (simp add: handover_def queue_ids_def)
qed

lemma handover_at_once:
  assumes h: "handover a b rest s" and eager: "nw_write_at_once net (er_id b)"
  defines "t \<equiv> run_steps (sched_next net) s [Exercise (er_id a) False, Run_task 0, Run_task 0]"
  shows "sc_active t = Some b" and "sc_pending t = rest"
    and "sc_operations t = [Read_op (er_id b)]" and "sc_ready t = []"
    and "sc_trace t = sc_trace s @ [Wrote (er_id b) (er_data b), Cancelled, Began_read (er_id b)]"
  using h eager handover_ids(1) [OF h] unfolding t_def
  by (simp_all add: handover_exercise [OF h] sched_next_simps(5))
    (simp_all add: handover_def run_next_request_def start_write_def socket_cancel_def
      run_task_def on_write_def on_read_def is_active_def start_read_def drop_nth_def
      is_boost_error_def boost_ok_def)

lemma aborted_error [simp]: "is_boost_error operation_aborted"
  by (simp add: is_boost_error_def operation_aborted_def)

lemma aborted_write_gone:
  assumes "sc_active s = Some b" and "er_id b \<notin> er_id ` set (sc_pending s)"
    and "er_id b < sc_next_id s"
  shows "silent (er_id b) (calls_to (er_id b) s) (fst (on_write net (er_id b) operation_aborted s))"
proof -
  let ?s = "socket_close (socket_shutdown (s\<lparr>sc_active := None\<rparr>))"
  obtain t f where t: "connect_socket net ?s = (t, f)" by force
  have "silent (er_id b) (calls_to (er_id b) s) (s\<lparr>sc_active := None\<rparr>)"
    using assms by (simp add: silent_def gone_def is_active_def calls_to_def)
  then have "silent (er_id b) (calls_to (er_id b) s) t"
    using silent_core [OF connect_socket_core [OF t]] by simp
  with t assms show ?thesis
    by (auto simp: on_write_def is_active_def handle_socket_error_def Let_def silent_run_next
        split: option.split)
qed

lemma handover_delayed:
  assumes h: "handover a b rest s" and slow: "\<not> nw_write_at_once net (er_id b)"
  shows "silent (er_id b) (calls_to (er_id b) s)
    (run_steps (sched_next net) s [Exercise (er_id a) False, Run_task 0, Run_task 0])"
proof -
  define u where "u = run_steps (sched_next net) s [Exercise (er_id a) False, Run_task 0]"
  have u: "sc_active u = Some b" "sc_pending u = rest" "sc_next_id u = sc_next_id s"
    "sc_ready u = [On_write (er_id b) operation_aborted]" "calls_to (er_id b) u = calls_to (er_id b) s"
    using h slow handover_ids(1) [OF h] unfolding u_def
    by (simp_all add: handover_exercise [OF h] sched_next_simps(5))
      (simp_all add: handover_def run_next_request_def start_write_def socket_cancel_def
        run_task_def on_read_def is_active_def drop_nth_def)
  have "silent (er_id b) (calls_to (er_id b) s)
      (fst (on_write net (er_id b) operation_aborted (u\<lparr>sc_ready := drop_nth 0 (sc_ready u)\<rparr>)))"
    using aborted_write_gone [of "u\<lparr>sc_ready := drop_nth 0 (sc_ready u)\<rparr>" b net] u
      handover_ids(3,4) [OF h]
    by simp
  moreover have "run_steps (sched_next net) s [Exercise (er_id a) False, Run_task 0, Run_task 0] =
      sched_next net u (Run_task 0)"
    by (simp add: u_def)
  ultimately show ?thesis using u by (simp add: sched_next_simps run_task_def)
qed

subsection \<open>Requests with the same bytes\<close>

lemma same_bytes_drop:
  assumes "sc_active s = Some a" and "sc_pending s = b # rest" and "er_data a = er_data b"
    and "sc_options s (er_id b) = Some b" and "\<not> sc_exercised s (er_id b)"
    and "\<not> sc_shutting_down s" and inv: "sched_inv s" and "er_id a < sc_next_id s"
  shows "silent (er_id a) (calls_to (er_id a) s) (sched_next net s (Destroy_option (er_id b)))"
    and "is_active (er_id b) (sched_next net s (Destroy_option (er_id b)))"
proof -
  have q: "sorted_wrt (<) (writes (sc_trace s) @ er_id b # map er_id rest)"
    and "writes (sc_trace s) \<noteq> []" "last (writes (sc_trace s)) = er_id a"
    using assms by (auto simp: sched_inv_def queue_ids_def)
  then have "er_id a \<in> set (writes (sc_trace s))" by (metis last_in_set)
  with q have "er_id a \<noteq> er_id b" "er_id a \<notin> er_id ` set rest"
    by (auto simp: sorted_wrt_append)
  with assms show "silent (er_id a) (calls_to (er_id a) s) (sched_next net s (Destroy_option (er_id b)))"
    and "is_active (er_id b) (sched_next net s (Destroy_option (er_id b)))"
    by (simp_all add: sched_next_simps exercise_option_def run_next_request_def silent_def gone_def
        is_active_def socket_cancel_def Let_def)
qed

subsection \<open>Options of requests that are not active\<close>

lemma drop_unexercised:
  assumes "sc_options s i = Some q" and "\<not> sc_exercised s i"
  shows "snd (sched_step net s (Destroy_option i)) =
    (case sc_active s of
       None \<Rightarrow> Some Null_dereference
     | Some a \<Rightarrow> if er_data a = er_data q then None else Some Bad_weak_ptr)"
  using assms by (simp add: destroy_option_def exercise_option_def Let_def split: option.split)

lemma dequeue_race:
  assumes "handover a b rest s" and "er_data a \<noteq> er_data b"
    and "sc_options s (er_id b) = Some b" and "\<not> sc_exercised s (er_id b)"
  shows "snd (sched_step net
    (run_steps (sched_next net) s [Exercise (er_id b) dirty, Exercise (er_id a) False]) (Run_task 0)) =
    Some Invalid_iterator"
proof -
  have "er_id b \<notin> er_id ` set rest" "er_id a \<noteq> er_id b"
    using handover_ids [OF assms(1)] by auto
  with assms show ?thesis
    by (simp add: handover_def sched_next_simps exercise_option_def run_next_request_def
        start_write_def socket_cancel_def run_task_def dequeue_def Let_def)
qed

subsection \<open>Destruction\<close>

text \<open>The second wait of the destructor: nothing notifies \<open>active_request_finished_\<close>.\<close>

definition waiting_forever :: "scheduler \<Rightarrow> bool" where
  "waiting_forever s \<longleftrightarrow> sc_phase s = Awaiting_active \<and> \<not> sc_finished_notified s"

lemma waiting_forever_core: "same_core s t \<Longrightarrow> waiting_forever t = waiting_forever s"
  by (simp add: same_core_def waiting_forever_def)

lemma waiting_forever_upd [simp]:
  "waiting_forever (s\<lparr>sc_options := o'\<rparr>) = waiting_forever s"
  "waiting_forever (s\<lparr>sc_exercised := x\<rparr>) = waiting_forever s"
  "waiting_forever (s\<lparr>sc_ready := r\<rparr>) = waiting_forever s"
  "waiting_forever (s\<lparr>sc_operations := ops\<rparr>) = waiting_forever s"
  "waiting_forever (s\<lparr>sc_active := a\<rparr>) = waiting_forever s"
  "waiting_forever (s\<lparr>sc_pending := p\<rparr>) = waiting_forever s"
  "waiting_forever (s\<lparr>sc_next_id := n\<rparr>) = waiting_forever s"
  "waiting_forever (sock e s) = waiting_forever s"
  "waiting_forever (run_next_request net s) = waiting_forever s"
  "waiting_forever (start_read i s) = waiting_forever s"
  "waiting_forever (socket_cancel s) = waiting_forever s"
  "waiting_forever (socket_shutdown s) = waiting_forever s"
  "waiting_forever (socket_close s) = waiting_forever s"
  by (simp_all add: waiting_forever_def socket_cancel_def socket_shutdown_def socket_close_def
      start_read_def)

lemma handle_socket_error_waiting:
  "waiting_forever (fst (handle_socket_error net e s)) = waiting_forever s"
proof -
  let ?s = "socket_close (socket_shutdown (s\<lparr>sc_active := None\<rparr>))"
  obtain t f where t: "connect_socket net ?s = (t, f)" by force
  then have "waiting_forever t = waiting_forever s"
    using waiting_forever_core [OF connect_socket_core [OF t]] by simp
  with t show ?thesis
    by (auto simp: handle_socket_error_def Let_def split: option.split)
qed

lemma waiting_forever_step: "waiting_forever s \<Longrightarrow> waiting_forever (sched_next net s x)"
  by (cases x) (auto simp: sched_next_simps deliver_def exercise_option_def run_task_def
      on_read_def on_write_def dequeue_def handle_socket_error_waiting Let_def
      split: option.split task.split,
      auto simp: waiting_forever_def drained_def woken_def)

interpretation hang: step_system "sched_next net" "\<lambda>_ _. True" waiting_forever for net
  by unfold_locales (rule waiting_forever_step)

lemma waiting_forever_run: "waiting_forever s \<Longrightarrow> waiting_forever (run_steps (sched_next net) s xs)"
  by (rule hang.run_inv_always) auto

end
