(* ===== verification/Scheduler_Service.thy ===== *)
theory Scheduler_Service
  imports Scheduler_Failures
begin

text \<open>
  The scheduler at work: what was delivered is what is written, a queue is served request by
  request, and a dirty end reconnects. The lemmas follow the steps of a request from its reply
  to the write of the next one, and end with the network of the witnesses.
\<close>

subsection \<open>What was delivered is what is written\<close>

fun sent :: "socket_event list \<Rightarrow> (nat \<times> bytes) list" where
  "sent [] = []"
| "sent (Wrote i d # es) = (i, d) # sent es"
| "sent (_ # es) = sent es"

lemma sent_append [simp]: "sent (xs @ ys) = sent xs @ sent ys"
  by (induction xs rule: sent.induct) auto

lemma map_fst_sent: "map fst (sent es) = writes es"
  by (induction es rule: sent.induct) auto

text \<open>The requests that the scheduler has taken in so far: those written and those pending.\<close>

definition taken :: "scheduler \<Rightarrow> (nat \<times> bytes) list" where
  "taken s = sent (sc_trace s) @ map (\<lambda>r. (er_id r, er_data r)) (sc_pending s)"

definition faithful :: "bytes list \<Rightarrow> scheduler \<Rightarrow> bool" where
  "faithful ds s \<longleftrightarrow> length ds = sc_next_id s \<and>
     (\<forall>i d. (i, d) \<in> set (taken s) \<longrightarrow> i < length ds \<and> ds ! i = d)"

text \<open>The data delivered in a run, as long as the scheduler accepts requests.\<close>

fun delivered :: "network \<Rightarrow> scheduler \<Rightarrow> sched_input list \<Rightarrow> bytes list" where
  "delivered net s [] = []"
| "delivered net s (x # xs) =
     (case x of Deliver r \<Rightarrow> if sc_shutting_down s then [] else [r] | _ \<Rightarrow> []) @
     delivered net (sched_next net s x) xs"

lemma sent_core: "sent (sc_trace t) = sent (sc_trace s) \<Longrightarrow> sc_pending t = sc_pending s \<Longrightarrow>
    sc_next_id t = sc_next_id s \<Longrightarrow> faithful ds t = faithful ds s"
  by (simp add: faithful_def taken_def)

lemma faithful_subset:
  "faithful ds s \<Longrightarrow> set (taken t) \<subseteq> set (taken s) \<Longrightarrow> sc_next_id t = sc_next_id s \<Longrightarrow>
   faithful ds t"
  by (auto simp: faithful_def dest: subsetD)

lemma connect_loop_sent: "sent (sc_trace (fst (connect_loop net eps e s))) = sent (sc_trace s)"
  by (induction net eps e s rule: connect_loop.induct) (simp_all add: socket_close_def Let_def)

lemma connect_socket_faithful: "faithful ds (fst (connect_socket net s)) = faithful ds s"
proof -
  have "sent (sc_trace (fst (connect_socket net s))) = sent (sc_trace s)"
    using connect_loop_sent [of net "nw_resolve net (sc_resolutions s)" host_not_found
        "s\<lparr>sc_resolutions := Suc (sc_resolutions s)\<rparr>"]
    by (simp add: connect_socket_def split_beta Let_def)
  moreover have "same_core s (fst (connect_socket net s))"
    by (rule connect_socket_core) (rule prod.collapse [symmetric])
  ultimately show ?thesis by (intro sent_core) (simp_all add: same_core_def)
qed

lemma faithful_upd [simp]:
  "faithful ds (s\<lparr>sc_options := o'\<rparr>) = faithful ds s"
  "faithful ds (s\<lparr>sc_exercised := x\<rparr>) = faithful ds s"
  "faithful ds (s\<lparr>sc_ready := r\<rparr>) = faithful ds s"
  "faithful ds (s\<lparr>sc_operations := ops\<rparr>) = faithful ds s"
  "faithful ds (s\<lparr>sc_active := a\<rparr>) = faithful ds s"
  "faithful ds (s\<lparr>sc_phase := p\<rparr>) = faithful ds s"
  "faithful ds (s\<lparr>sc_finished_notified := b\<rparr>) = faithful ds s"
  "faithful ds (sock (Called i e n d) s) = faithful ds s"
  "faithful ds (socket_cancel s) = faithful ds s" "faithful ds (socket_shutdown s) = faithful ds s"
  "faithful ds (socket_close s) = faithful ds s" "faithful ds (start_read i s) = faithful ds s"
  by (simp_all add: faithful_def taken_def socket_cancel_def socket_shutdown_def socket_close_def
      start_read_def)

lemma taken_run_next: "taken (run_next_request net s) = taken s"
  by (simp add: run_next_request_def taken_def split: list.split)

lemma run_next_faithful [simp]: "faithful ds (run_next_request net s) = faithful ds s"
  by (simp add: faithful_def taken_run_next)

lemma deliver_faithful:
  assumes "faithful ds s"
  shows "faithful (if sc_shutting_down s then ds else ds @ [r]) (fst (deliver net r s))"
proof -
  have "faithful (ds @ [r]) (s\<lparr>sc_next_id := Suc (sc_next_id s),
     sc_pending := sc_pending s @ [\<lparr>er_id = sc_next_id s, er_data = r\<rparr>]\<rparr>)"
    using assms unfolding faithful_def taken_def
    by (fastforce simp: nth_append less_Suc_eq)
  with assms show ?thesis by (simp add: deliver_def Let_def)
qed

lemma handle_socket_error_faithful:
  "faithful ds (fst (handle_socket_error net e s)) = faithful ds s"
proof -
  let ?s = "socket_close (socket_shutdown (s\<lparr>sc_active := None\<rparr>))"
  obtain t f where t: "connect_socket net ?s = (t, f)" by force
  then have "faithful ds t = faithful ds s" using connect_socket_faithful [of ds net ?s] by simp
  with t show ?thesis by (auto simp: handle_socket_error_def Let_def split: option.split)
qed

lemma dequeue_faithful: "faithful ds s \<Longrightarrow> faithful ds (fst (dequeue i s))"
  by (erule faithful_subset) (auto simp: dequeue_def taken_def)

lemma run_task_faithful: "faithful ds s \<Longrightarrow> faithful ds (fst (run_task net t s))"
  by (simp add: run_task_def on_read_def on_write_def handle_socket_error_faithful dequeue_faithful
      Let_def split: task.split)

lemma sent_map_called [simp]: "sent (map (\<lambda>r. Called (f r) e n d) rs) = []"
  by (induction rs) auto

lemma other_faithful:
  assumes "faithful ds s" and "\<nexists>r. x = Deliver r"
  shows "faithful ds (sched_next net s x)"
proof (cases x)
  case Begin_shutdown
  have "taken (begin_shutdown s) = taken s" by (simp add: begin_shutdown_def taken_def)
  with assms Begin_shutdown show ?thesis
    using faithful_subset [OF assms(1), of "begin_shutdown s"]
    by (simp add: sched_next_simps) (simp add: begin_shutdown_def)
qed (use assms in \<open>auto simp: sched_next_simps run_task_faithful exercise_option_def drained_def
    woken_def finish_shutdown_def Let_def split: option.split\<close>)

lemma delivered_faithful:
  "faithful ds s \<Longrightarrow> faithful (ds @ delivered net s xs) (run_steps (sched_next net) s xs)"
proof (induction xs arbitrary: ds s)
  case (Cons x xs)
  show ?case
  proof (cases x)
    case (Deliver r)
    let ?ds = "if sc_shutting_down s then ds else ds @ [r]"
    have "faithful ?ds (sched_next net s x)"
      using deliver_faithful [OF Cons.prems] Deliver by (simp add: sched_next_simps)
    from Cons.IH [OF this] Deliver show ?thesis by (simp split: if_splits)
  qed (use Cons other_faithful [OF Cons.prems, of x net] in auto)
qed simp

lemma make_scheduler_faithful: "faithful [] (fst (make_scheduler net))"
  by (simp add: make_scheduler_def connect_socket_faithful) (simp add: faithful_def taken_def)

subsection \<open>Reachable states\<close>

definition reachable :: "network \<Rightarrow> sched_input list \<Rightarrow> scheduler" where
  "reachable net xs = run_steps (sched_next net) (fst (make_scheduler net)) xs"

lemma reachable_inv: "sched_inv (reachable net xs)"
  unfolding reachable_def by (intro sched_inv_run make_scheduler_inv)

lemma active_written:
  assumes "sched_inv s" and "sc_active s = Some a"
  shows "er_id a < sc_next_id s" and "er_id a \<notin> set (map er_id (sc_pending s))"
proof -
  from assms have last: "writes (sc_trace s) \<noteq> []" "er_id a = last (writes (sc_trace s))"
    and q: "sorted_wrt (<) (writes (sc_trace s) @ map er_id (sc_pending s))"
    and lt: "\<forall>i \<in> set (writes (sc_trace s) @ map er_id (sc_pending s)). i < sc_next_id s"
    by (auto simp: sched_inv_def queue_ids_def)
  then have "er_id a \<in> set (writes (sc_trace s))" by simp
  with q lt show "er_id a < sc_next_id s" "er_id a \<notin> set (map er_id (sc_pending s))"
    by (fastforce simp: sorted_wrt_append)+
qed

text \<open>A clean end of the active request makes it silent.\<close>

lemma clean_end_silences:
  assumes inv: "sched_inv s" and a: "sc_active s = Some a" and "sc_options s (er_id a) = Some a"
    and "\<not> sc_exercised s (er_id a)" and "\<not> sc_shutting_down s"
  shows "silent (er_id a) (calls_to (er_id a) s) (fst (exercise_option net d (er_id a) False s))"
proof -
  have "silent (er_id a) (calls_to (er_id a) s) (run_next_request net s)"
    using active_written [OF inv a]
    by (auto simp: silent_def gone_def is_active_def run_next_request_def split: list.split)
  with assms show ?thesis by (simp add: exercise_option_def Let_def)
qed

subsection \<open>Serving a queue\<close>

text \<open>
  The active request waits for its reply, the others for their turn, and all hold their options.
\<close>

definition queued :: "enqueued_request \<Rightarrow> enqueued_request list \<Rightarrow> scheduler \<Rightarrow> bool" where
  "queued a rest s \<longleftrightarrow> sc_active s = Some a \<and> sc_pending s = rest \<and>
     sc_operations s = [Read_op (er_id a)] \<and> sc_ready s = [] \<and> \<not> sc_shutting_down s \<and>
     list_all (\<lambda>r. sc_options s (er_id r) = Some r \<and> \<not> sc_exercised s (er_id r)) (a # rest) \<and>
     sched_inv s"

text \<open>The reply arrives, its handler is called and is satisfied, and the tasks run.\<close>

definition serve :: "enqueued_request \<Rightarrow> bytes \<Rightarrow> sched_input list" where
  "serve r d = [Complete 0 boost_ok d, Run_task 0, Exercise (er_id r) False, Run_task 0, Run_task 0]"

definition reply_call :: "enqueued_request \<Rightarrow> bytes \<Rightarrow> socket_event" where
  "reply_call r d = Called (er_id r) (to_errc boost_ok) (length d) d"

lemma boost_ok_no_error [simp]: "\<not> is_boost_error boost_ok"
  by (simp add: is_boost_error_def boost_ok_def)

lemma start_read_fields:
  "sc_active (start_read i s) = sc_active s" "sc_pending (start_read i s) = sc_pending s"
  "sc_options (start_read i s) = sc_options s" "sc_exercised (start_read i s) = sc_exercised s"
  "sc_shutting_down (start_read i s) = sc_shutting_down s" "sc_ready (start_read i s) = sc_ready s"
  "sc_operations (start_read i s) = sc_operations s @ [Read_op i]"
  "sc_trace (start_read i s) = sc_trace s @ [Began_read i]"
  by (simp_all add: start_read_def)

lemma queued_reply:
  assumes "queued a rest s"
  shows "queued a rest (run_steps (sched_next net) s [Complete 0 boost_ok d, Run_task 0])"
    and "sc_trace (run_steps (sched_next net) s [Complete 0 boost_ok d, Run_task 0]) =
      sc_trace s @ [Began_read (er_id a), reply_call a d]"
  using assms
  by (simp_all add: queued_def sched_next_simps drop_nth_def run_task_def on_read_def is_active_def
      start_read_fields reply_call_def Let_def)

lemma queued_handover: "queued a (b # rest) s \<Longrightarrow> handover a b rest s"
  using active_written(1) [of s a] by (simp add: queued_def handover_def)

lemma handover_options:
  assumes h: "handover a b rest s" and "nw_write_at_once net (er_id b)"
  defines "t \<equiv> run_steps (sched_next net) s [Exercise (er_id a) False, Run_task 0, Run_task 0]"
  shows "sc_options t = sc_options s" "sc_exercised t = (sc_exercised s)(er_id a := True)"
    "sc_shutting_down t = sc_shutting_down s"
  using assms handover_ids(1) [OF h] unfolding t_def
  by (simp_all add: handover_exercise [OF h] sched_next_simps(5))
    (simp_all add: handover_def run_next_request_def start_write_def socket_cancel_def
      run_task_def on_write_def on_read_def is_active_def start_read_def drop_nth_def
      is_boost_error_def boost_ok_def)

lemma handover_queued:
  assumes q: "queued a (b # rest) s" and eager: "nw_write_at_once net (er_id b)"
  shows "queued b rest (run_steps (sched_next net) s
    [Exercise (er_id a) False, Run_task 0, Run_task 0])"
proof -
  note h = queued_handover [OF q]
  define t where "t = run_steps (sched_next net) s [Exercise (er_id a) False, Run_task 0, Run_task 0]"
  have "sched_inv t" unfolding t_def by (rule sched_inv_run) (use q in \<open>simp add: queued_def\<close>)
  moreover have "sc_options s (er_id r) = Some r \<and> \<not> ((sc_exercised s)(er_id a := True)) (er_id r)"
    if r: "r \<in> set (b # rest)" for r
  proof -
    have "er_id r \<noteq> er_id a"
      using r handover_ids(1,2) [OF h] by (cases "r = b") (fastforce simp: image_iff)+
    moreover have "sc_options s (er_id r) = Some r" "\<not> sc_exercised s (er_id r)"
      using q r unfolding queued_def list_all_iff by auto
    ultimately show ?thesis by simp
  qed
  then have "list_all (\<lambda>r. sc_options s (er_id r) = Some r \<and>
      \<not> ((sc_exercised s)(er_id a := True)) (er_id r)) (b # rest)"
    unfolding list_all_iff by blast
  ultimately have "queued b rest t"
    using handover_at_once(1-4) [OF h eager, folded t_def]
      handover_options [OF h eager, folded t_def] q
    by (simp add: queued_def)
  then show ?thesis by (simp only: t_def)
qed

lemma serve_next:
  assumes q: "queued a (b # rest) s" and eager: "nw_write_at_once net (er_id b)"
  shows "queued b rest (run_steps (sched_next net) s (serve a d))"
    and "sc_trace (run_steps (sched_next net) s (serve a d)) = sc_trace s @
      [Began_read (er_id a), reply_call a d, Wrote (er_id b) (er_data b), Cancelled, Began_read (er_id b)]"
proof -
  define u where "u = run_steps (sched_next net) s [Complete 0 boost_ok d, Run_task 0]"
  have run: "run_steps (sched_next net) s (serve a d) =
      run_steps (sched_next net) u [Exercise (er_id a) False, Run_task 0, Run_task 0]"
    by (simp add: serve_def u_def)
  have u: "queued a (b # rest) u" "sc_trace u = sc_trace s @ [Began_read (er_id a), reply_call a d]"
    unfolding u_def by (rule queued_reply [OF q])+
  show "queued b rest (run_steps (sched_next net) s (serve a d))"
    unfolding run by (rule handover_queued [OF u(1) eager])
  show "sc_trace (run_steps (sched_next net) s (serve a d)) = sc_trace s @
      [Began_read (er_id a), reply_call a d, Wrote (er_id b) (er_data b), Cancelled, Began_read (er_id b)]"
    unfolding run using handover_at_once(5) [OF queued_handover [OF u(1)] eager] u(2) by simp
qed

lemma serve_last:
  assumes "queued a [] s"
  shows "sc_active (run_steps (sched_next net) s (serve a d)) = None"
    and "sc_pending (run_steps (sched_next net) s (serve a d)) = []"
    and "sc_trace (run_steps (sched_next net) s (serve a d)) = sc_trace s @
      [Began_read (er_id a), reply_call a d, Cancelled]"
  using assms
  by (simp_all add: serve_def queued_def sched_next_simps drop_nth_def run_task_def on_read_def
      is_active_def start_read_def reply_call_def exercise_option_def run_next_request_def
      socket_cancel_def Let_def)

fun serve_all :: "enqueued_request list \<Rightarrow> (enqueued_request \<Rightarrow> bytes) \<Rightarrow> sched_input list" where
  "serve_all [] reply = []"
| "serve_all (r # rs) reply = serve r (reply r) @ serve_all rs reply"

fun replies :: "socket_event list \<Rightarrow> socket_event list" where
  "replies [] = []"
| "replies (Called i e n d # es) = Called i e n d # replies es"
| "replies (_ # es) = replies es"

lemma replies_append [simp]: "replies (xs @ ys) = replies xs @ replies ys"
  by (induction xs rule: replies.induct) auto

lemma serve_all_run:
  assumes "queued a rest s" and "list_all (\<lambda>r. nw_write_at_once net (er_id r)) rest"
  shows "sc_active (run_steps (sched_next net) s (serve_all (a # rest) reply)) = None \<and>
    sc_pending (run_steps (sched_next net) s (serve_all (a # rest) reply)) = [] \<and>
    sent (sc_trace (run_steps (sched_next net) s (serve_all (a # rest) reply))) =
      sent (sc_trace s) @ map (\<lambda>r. (er_id r, er_data r)) rest \<and>
    replies (sc_trace (run_steps (sched_next net) s (serve_all (a # rest) reply))) =
      replies (sc_trace s) @ map (\<lambda>r. reply_call r (reply r)) (a # rest)"
  using assms
proof (induction rest arbitrary: a s)
  case Nil
  from serve_last [OF Nil(1), of net "reply a"] show ?case by (simp add: reply_call_def)
next
  case (Cons b rest)
  from Cons.prems(2) have b: "nw_write_at_once net (er_id b)" by simp
  from Cons.IH [OF serve_next(1) [OF Cons.prems(1) b]] Cons.prems(2)
    serve_next(2) [OF Cons.prems(1) b, of "reply a"]
  show ?case by (simp add: run_steps_append reply_call_def)
qed

subsection \<open>A dirty end\<close>

lemma connect_loop_resolutions:
  "sc_resolutions (fst (connect_loop net eps e s)) = sc_resolutions s"
  by (induction net eps e s rule: connect_loop.induct) (simp_all add: socket_close_def Let_def)

lemma connect_socket_resolutions:
  "sc_resolutions (fst (connect_socket net s)) = Suc (sc_resolutions s)"
  using connect_loop_resolutions [of net "nw_resolve net (sc_resolutions s)" host_not_found
      "s\<lparr>sc_resolutions := Suc (sc_resolutions s)\<rparr>"]
  by (simp add: connect_socket_def split_beta Let_def)

text \<open>The state in which the aborted read of a request that ended dirty reconnects.\<close>

definition before_reconnect :: "enqueued_request \<Rightarrow> scheduler \<Rightarrow> scheduler" where
  "before_reconnect a s = socket_close (socket_shutdown ((socket_cancel s)
     \<lparr>sc_exercised := (sc_exercised s)(er_id a := True), sc_ready := [], sc_active := None\<rparr>))"

lemma before_reconnect_fields:
  assumes "handover a b rest s"
  shows "sc_pending (before_reconnect a s) = b # rest" "sc_active (before_reconnect a s) = None"
    "sc_resolutions (before_reconnect a s) = sc_resolutions s"
    "sc_attempts (before_reconnect a s) = sc_attempts s"
    "\<not> sc_shutting_down (before_reconnect a s)"
    "writes (sc_trace (before_reconnect a s)) = writes (sc_trace s)"
    "silent (er_id a) (calls_to (er_id a) s) (before_reconnect a s)"
proof -
  show "sc_pending (before_reconnect a s) = b # rest" "sc_active (before_reconnect a s) = None"
    "sc_resolutions (before_reconnect a s) = sc_resolutions s"
    "sc_attempts (before_reconnect a s) = sc_attempts s"
    "\<not> sc_shutting_down (before_reconnect a s)"
    "writes (sc_trace (before_reconnect a s)) = writes (sc_trace s)"
    using assms by (simp_all add: before_reconnect_def handover_def socket_close_def
        socket_shutdown_def socket_cancel_def)
  have "er_id a \<notin> set (map er_id (sc_pending s))" and "er_id a < sc_next_id s"
    using assms active_written [of s a] by (simp_all add: handover_def)
  then show "silent (er_id a) (calls_to (er_id a) s) (before_reconnect a s)"
    by (simp add: before_reconnect_def silent_def gone_def is_active_def socket_cancel_def
        socket_close_def socket_shutdown_def)
qed

lemma dirty_end_steps:
  assumes "handover a b rest s"
  shows "run_steps (sched_next net) s [Exercise (er_id a) True, Run_task 0] =
    (case connect_socket net (before_reconnect a s) of
       (v, Some f) \<Rightarrow> v | (v, None) \<Rightarrow> if \<not> sc_shutting_down v then run_next_request net v else v)"
proof -
  have "sched_next net s (Exercise (er_id a) True) =
      (socket_cancel s)\<lparr>sc_exercised := (sc_exercised s)(er_id a := True)\<rparr>"
    using assms by (simp add: handover_def sched_next_simps exercise_option_def socket_cancel_def)
  then show ?thesis
    using assms
    by (simp add: sched_next_simps(5) handover_def run_task_def on_read_def is_active_def drop_nth_def
        handle_socket_error_def before_reconnect_def socket_cancel_def Let_def
        split: prod.split option.split)
qed

text \<open>The network of the witnesses: two endpoints, the first of which refuses.\<close>

definition demo_net :: network where
  "demo_net = \<lparr>nw_resolve = (\<lambda>_. [1, 2]),
     nw_connect = (\<lambda>_ ep. if ep = 1 then \<lparr>be_value = 111, be_category = 0\<rparr> else boost_ok),
     nw_write_at_once = (\<lambda>_. True)\<rparr>"

end
