(* ===== verification/Scheduler_Properties.thy ===== *)
theory Scheduler_Properties
  imports Scheduler_Service
begin

text \<open>
  The properties of the single serial socket: requests go out once, in order and unaltered, a
  request whose option was exercised is never called again, a queue drains when every request
  ends cleanly, and the ways in which the scheduler loses a request, stops or throws.
\<close>

subsection \<open>Properties of the scheduler\<close>

text \<open>
  C8: First come, first written, unaltered, once. In every state that any sequence of
  deliveries, exercised and dropped options, completions and tasks leads to, the requests
  written to the socket so far are numbered in strictly increasing order of their delivery, each
  was written with exactly the bytes that were delivered, and the active request is the one that
  was written last.
\<close>

theorem requests_written_in_order:
  assumes "s = reachable net xs"
  shows "sorted_wrt (<) (writes (sc_trace s)) \<and>
    (\<forall>i d. (i, d) \<in> set (sent (sc_trace s)) \<longrightarrow>
       i < length (delivered net (fst (make_scheduler net)) xs) \<and>
       delivered net (fst (make_scheduler net)) xs ! i = d) \<and>
    (\<forall>a. sc_active s = Some a \<longrightarrow>
       writes (sc_trace s) \<noteq> [] \<and> last (writes (sc_trace s)) = er_id a)"
proof -
  have "sched_inv s" using assms reachable_inv by simp
  moreover have "faithful (delivered net (fst (make_scheduler net)) xs) s"
    using delivered_faithful [OF make_scheduler_faithful, of net net xs] assms
    by (simp add: reachable_def)
  ultimately show ?thesis
    unfolding sched_inv_def queue_ids_def faithful_def taken_def
    by (auto simp: sorted_wrt_append)
qed

theorem requests_written_in_order_witness:
  "sorted_wrt (<) (writes (sc_trace (reachable demo_net
     [Deliver [1], Deliver [2], Exercise 0 False])))"
  using requests_written_in_order [OF refl, of demo_net "[Deliver [1], Deliver [2], Exercise 0 False]"]
  by blast

text \<open>
  C13: A clean end is final. Once the owner of the active request has, for the first time,
  exercised its option with a clean connection while the scheduler is not shutting down, the
  request's handler is never called again, whatever happens later; this is what a request with a timeout relies on when it asserts that no response arrives after its end.
\<close>

theorem no_call_after_clean_end:
  assumes "s = reachable net xs" and "sc_active s = Some a" and "sc_options s (er_id a) = Some a"
    and "\<not> sc_exercised s (er_id a)" and "\<not> sc_shutting_down s"
  shows "calls_to (er_id a) (run_steps (sched_next net) (sched_next net s (Exercise (er_id a) False)) ys) =
    calls_to (er_id a) s"
proof -
  have "silent (er_id a) (calls_to (er_id a) s) (sched_next net s (Exercise (er_id a) False))"
    using clean_end_silences [OF _ assms(2-5), of net False] assms(1) reachable_inv
    by (simp add: sched_next_simps)
  then show ?thesis using silent_run by (simp add: silent_def)
qed

lemma demo_scheduler [simp]:
  "reachable demo_net [Deliver [7]] =
     \<lparr>sc_pending = [], sc_active = Some \<lparr>er_id = 0, er_data = [7]\<rparr>, sc_shutting_down = False,
      sc_next_id = 1, sc_options = (\<lambda>_. None)(0 \<mapsto> \<lparr>er_id = 0, er_data = [7]\<rparr>),
      sc_exercised = (\<lambda>_. False), sc_operations = [], sc_ready = [On_write 0 boost_ok],
      sc_trace = [Closed, Connected 1 \<lparr>be_value = 111, be_category = 0\<rparr>, Closed,
        Connected 2 boost_ok, Wrote 0 [7]], sc_resolutions = 1, sc_attempts = 2,
      sc_phase = Running, sc_finished_notified = False\<rparr>"
  by (simp add: reachable_def make_scheduler_def connect_socket_def demo_net_def socket_close_def
      abort_operations_def sock_def host_not_found_def is_boost_error_def sched_next_simps
      deliver_def run_next_request_def start_write_def Let_def boost_ok_def fun_upd_idem)

theorem no_call_after_clean_end_witness:
  "calls_to 0 (run_steps (sched_next demo_net)
     (sched_next demo_net (reachable demo_net [Deliver [7]]) (Exercise 0 False)) [Run_task 0]) =
   calls_to 0 (reachable demo_net [Deliver [7]])"
  using no_call_after_clean_end [OF refl, of demo_net "[Deliver [7]]" "\<lparr>er_id = 0, er_data = [7]\<rparr>"
      "[Run_task 0]"]
  by simp

text \<open>
  C9: A queue is served to its end. While every reply arrives, satisfies its handler and leaves
  the connection clean, and while the write of each request behind the active one completes at once,
  serving the active request, whose read is pending, and those behind it in turn writes each of
  those once, in order, calls each handler exactly once, with its own reply, and leaves the
  scheduler idle with nothing pending.
\<close>

theorem queue_is_served:
  assumes "queued a rest s" and "list_all (\<lambda>r. nw_write_at_once net (er_id r)) rest"
    and "t = run_steps (sched_next net) s (serve_all (a # rest) reply)"
  shows "sc_active t = None \<and> sc_pending t = [] \<and>
    sent (sc_trace t) = sent (sc_trace s) @ map (\<lambda>r. (er_id r, er_data r)) rest \<and>
    replies (sc_trace t) = replies (sc_trace s) @ map (\<lambda>r. reply_call r (reply r)) (a # rest)"
  unfolding assms(3) using assms(1,2) by (rule serve_all_run)

text \<open>Two requests of the witnesses, the first of which waits for its reply.\<close>

definition demo_first :: enqueued_request where
  "demo_first = \<lparr>er_id = 0, er_data = [7]\<rparr>"

definition demo_second :: enqueued_request where
  "demo_second = \<lparr>er_id = 1, er_data = [8]\<rparr>"

definition demo_queue :: scheduler where
  "demo_queue = reachable demo_net [Deliver [7], Run_task 0, Deliver [8]]"

lemma demo_queue_eq:
  "demo_queue =
     \<lparr>sc_pending = [demo_second], sc_active = Some demo_first, sc_shutting_down = False,
      sc_next_id = 2, sc_options = (\<lambda>_. None)(0 \<mapsto> demo_first, 1 \<mapsto> demo_second),
      sc_exercised = (\<lambda>_. False), sc_operations = [Read_op 0], sc_ready = [],
      sc_trace = [Closed, Connected 1 \<lparr>be_value = 111, be_category = 0\<rparr>, Closed,
        Connected 2 boost_ok, Wrote 0 [7], Began_read 0], sc_resolutions = 1, sc_attempts = 2,
      sc_phase = Running, sc_finished_notified = False\<rparr>"
proof -
  have "demo_queue = run_steps (sched_next demo_net) (reachable demo_net [Deliver [7]])
      [Run_task 0, Deliver [8]]"
    by (simp only: demo_queue_def reachable_def run_steps.simps)
  then show ?thesis
    by (simp add: sched_next_simps run_task_def on_write_def is_active_def start_read_def drop_nth_def
        deliver_def demo_first_def demo_second_def sock_def fun_upd_idem Let_def numeral_2_eq_2)
qed

lemma demo_queue_simps [simp]:
  "sc_active demo_queue = Some demo_first" "sc_pending demo_queue = [demo_second]"
  "\<not> sc_shutting_down demo_queue" "sc_next_id demo_queue = 2"
  "sc_options demo_queue 0 = Some demo_first" "sc_options demo_queue (Suc 0) = Some demo_second"
  "\<not> sc_exercised demo_queue i" "sc_operations demo_queue = [Read_op 0]"
  "sc_ready demo_queue = []" "sc_phase demo_queue = Running"
  "er_id demo_first = 0" "er_id demo_second = 1" "er_data demo_first = [7]" "er_data demo_second = [8]"
  by (simp_all add: demo_queue_eq demo_first_def demo_second_def)

lemma demo_queue_inv [simp]: "sched_inv demo_queue"
  by (simp add: demo_queue_def reachable_inv)

theorem queue_is_served_witness:
  "replies (sc_trace (run_steps (sched_next demo_net) demo_queue
     (serve_all [demo_first, demo_second] er_data))) =
   replies (sc_trace demo_queue) @ map (\<lambda>r. reply_call r (er_data r)) [demo_first, demo_second]"
  using queue_is_served [OF _ _ refl, of demo_first "[demo_second]" demo_queue demo_net er_data]
  by (simp add: queued_def demo_net_def)

text \<open>
  The option is idempotent, as the transport's interface demands. After an exercise that
  returned, a second exercise, clean or dirty, changes nothing, and destroying the option only
  destroys it.
\<close>

theorem exercise_is_idempotent:
  assumes "exercise net i d s = (t, None)"
  shows "exercise net i d' t = (t, None) \<and>
    destroy_option net i t = (t\<lparr>sc_options := (sc_options t)(i := None)\<rparr>, None)"
  using option.exercise_again [OF assms] option.exercise_spends [OF assms] destroy_spent by blast

theorem exercise_is_idempotent_witness:
  "exercise demo_net 1 False (demo_queue\<lparr>sc_ready := [Dequeue 1],
     sc_exercised := (sc_exercised demo_queue)(1 := True)\<rparr>) =
   (demo_queue\<lparr>sc_ready := [Dequeue 1], sc_exercised := (sc_exercised demo_queue)(1 := True)\<rparr>, None)"
  using exercise_is_idempotent [of demo_net 1 True demo_queue "demo_queue\<lparr>sc_ready := [Dequeue 1],
      sc_exercised := (sc_exercised demo_queue)(1 := True)\<rparr>" False]
  by (simp add: exercise_def exercise_option_def)

text \<open>
  C19: Who gets the socket after a clean end depends on the speed of a write. The next request is
  written before the whole socket is cancelled. If the write completes at once, the next request
  becomes active and its reply is read; if it does not, the cancellation aborts it, and the
  request is forgotten: its handler is never called, however the run goes on.
\<close>

theorem clean_end_may_lose_next:
  assumes "handover a b rest s"
    and "t = run_steps (sched_next net) s [Exercise (er_id a) False, Run_task 0, Run_task 0]"
  shows "if nw_write_at_once net (er_id b)
    then sc_active t = Some b \<and> sc_operations t = [Read_op (er_id b)] \<and> sc_pending t = rest
    else calls_to (er_id b) (run_steps (sched_next net) t ys) = calls_to (er_id b) s"
  using assms(2) handover_at_once [OF assms(1), of net]
    silent_run [OF handover_delayed [OF assms(1), of net], of net ys]
  by (simp add: silent_def)

theorem clean_end_may_lose_next_witness:
  "calls_to 1 (run_steps (sched_next (demo_net\<lparr>nw_write_at_once := (\<lambda>_. False)\<rparr>))
     (run_steps (sched_next (demo_net\<lparr>nw_write_at_once := (\<lambda>_. False)\<rparr>)) demo_queue
        [Exercise 0 False, Run_task 0, Run_task 0]) [Run_task 0, Complete 0 boost_ok [9]]) =
   calls_to 1 demo_queue"
  using clean_end_may_lose_next [OF _ refl, of demo_first demo_second "[]" demo_queue
      "demo_net\<lparr>nw_write_at_once := (\<lambda>_. False)\<rparr>" "[Run_task 0, Complete 0 boost_ok [9]]"]
  by (simp add: handover_def)

text \<open>
  C18: A socket error stops the scheduler. A read fails with an error that is not an abort; the
  handler of the active request is called with the error, exercises its option as dirty and
  drops it, as a request with a timeout does. From then on, until another option is exercised or
  dropped, no request is written again, whatever is delivered, whatever completes and whatever
  queued task runs: the request stays active and nothing is started.
\<close>

theorem socket_error_stops_scheduler:
  assumes "sc_active s = Some a" and "sc_operations s = []" and "sc_ready s = [On_read (er_id a) e []]"
    and "is_boost_error e" and "e \<noteq> operation_aborted"
    and "sc_options s (er_id a) = Some a" and "\<not> sc_exercised s (er_id a)"
    and "list_all outside xs"
    and "t = run_steps (sched_next net) s
      [Run_task 0, Exercise (er_id a) True, Destroy_option (er_id a)]"
  shows "calls_to (er_id a) t = calls_to (er_id a) s @ [Called (er_id a) (to_errc e) 0 []] \<and>
    writes (sc_trace (run_steps (sched_next net) t xs)) = writes (sc_trace s) \<and>
    sc_active (run_steps (sched_next net) t xs) = Some a"
proof -
  have "stuck a (writes (sc_trace s)) t"
    and "calls_to (er_id a) t = calls_to (er_id a) s @ [Called (er_id a) (to_errc e) 0 []]"
    unfolding assms(9)
    using read_error_then_dirty_termination [OF assms(1-3) refl assms(4-7)] by blast+
  moreover have "stuck a (writes (sc_trace s)) (run_steps (sched_next net) t xs)"
    using stuck_run [OF calculation(1)] assms(8) by (simp add: list_all_iff)
  ultimately show ?thesis by (simp add: stuck_def)
qed

theorem socket_error_stops_scheduler_witness:
  "writes (sc_trace (run_steps (sched_next demo_net) (run_steps (sched_next demo_net)
     (demo_queue\<lparr>sc_operations := [], sc_ready := [On_read 0 \<lparr>be_value = 104, be_category = 0\<rparr> []]\<rparr>)
     [Run_task 0, Exercise 0 True, Destroy_option 0]) [Deliver [5], Run_task 0])) =
   writes (sc_trace demo_queue)"
  using socket_error_stops_scheduler [of "demo_queue\<lparr>sc_operations := [],
      sc_ready := [On_read 0 \<lparr>be_value = 104, be_category = 0\<rparr> []]\<rparr>" demo_first
      "\<lparr>be_value = 104, be_category = 0\<rparr>" "[Deliver [5], Run_task 0]", OF _ _ _ _ _ _ _ _ refl]
  by (simp add: is_boost_error_def operation_aborted_def)

text \<open>
  C21: Requests with the same bytes are confused. The option compares the data of its request with
  that of the active request, not the requests. When the active request and the next one carry the
  same bytes (two fetches of one key, say), dropping the option of the next one ends the active
  one, whose handler is never called again, and starts the request that was dropped.
\<close>

theorem same_bytes_end_the_wrong_request:
  assumes "s = reachable net xs" and "sc_active s = Some a" and "sc_pending s = b # rest"
    and "er_data a = er_data b" and "sc_options s (er_id b) = Some b"
    and "\<not> sc_exercised s (er_id b)" and "\<not> sc_shutting_down s"
  shows "calls_to (er_id a) (run_steps (sched_next net)
      (sched_next net s (Destroy_option (er_id b))) ys) = calls_to (er_id a) s \<and>
    is_active (er_id b) (sched_next net s (Destroy_option (er_id b)))"
proof -
  have inv: "sched_inv s" using assms(1) reachable_inv by simp
  note drop = same_bytes_drop [OF assms(2-7) inv active_written(1) [OF inv assms(2)]]
  from silent_run [OF drop(1)] drop(2) show ?thesis by (simp add: silent_def)
qed

theorem same_bytes_end_the_wrong_request_witness:
  "calls_to 0 (run_steps (sched_next demo_net)
     (sched_next demo_net (reachable demo_net [Deliver [7], Deliver [7]]) (Destroy_option 1))
     [Run_task 0]) = calls_to 0 (reachable demo_net [Deliver [7], Deliver [7]])"
proof -
  have "reachable demo_net [Deliver [7], Deliver [7]] =
      sched_next demo_net (reachable demo_net [Deliver [7]]) (Deliver [7])"
    by (simp only: reachable_def run_steps.simps)
  then show ?thesis
    using same_bytes_end_the_wrong_request [OF refl, of demo_net "[Deliver [7], Deliver [7]]"
        "\<lparr>er_id = 0, er_data = [7]\<rparr>" "\<lparr>er_id = 1, er_data = [7]\<rparr>" "[]" "[Run_task 0]"]
    by (simp add: sched_next_simps(1) deliver_def Let_def)
qed

text \<open>
  Cancelling a pending request races with its turn. If the active request ends before the
  queued removal runs, the removal erases through an iterator whose element has already left
  the list; if the removal runs first, the pending request is gone for good.
\<close>

theorem cancelling_a_pending_request_races:
  assumes "handover a b rest s" and "er_data a \<noteq> er_data b"
    and "sc_options s (er_id b) = Some b" and "\<not> sc_exercised s (er_id b)"
  shows "snd (sched_step net (run_steps (sched_next net) s
      [Exercise (er_id b) d, Exercise (er_id a) False]) (Run_task 0)) = Some Invalid_iterator \<and>
    calls_to (er_id b) (run_steps (sched_next net) s ([Exercise (er_id b) d, Run_task 0] @ ys)) =
      calls_to (er_id b) s"
proof
  show "snd (sched_step net (run_steps (sched_next net) s
      [Exercise (er_id b) d, Exercise (er_id a) False]) (Run_task 0)) = Some Invalid_iterator"
    using assms by (rule dequeue_race)
  have "silent (er_id b) (calls_to (er_id b) s)
      (run_steps (sched_next net) s [Exercise (er_id b) d, Run_task 0])"
    using assms handover_ids [OF assms(1)]
    by (auto simp: handover_def sched_next_simps exercise_option_def run_task_def dequeue_def
        drop_nth_def silent_def gone_def is_active_def)
  from silent_run [OF this, of net ys]
  show "calls_to (er_id b) (run_steps (sched_next net) s ([Exercise (er_id b) d, Run_task 0] @ ys)) =
      calls_to (er_id b) s"
    by (simp only: run_steps_append silent_def)
qed

theorem cancelling_a_pending_request_races_witness:
  "snd (sched_step demo_net (run_steps (sched_next demo_net) demo_queue
     [Exercise (er_id demo_second) True, Exercise (er_id demo_first) False]) (Run_task 0)) =
   Some Invalid_iterator"
  by (rule cancelling_a_pending_request_races [of demo_first demo_second "[]", THEN conjunct1])
    (simp_all add: handover_def)

text \<open>
  Shutting down announces itself to the pending requests and to nobody else: each of them is
  called once, in order, with a connection reset, the active request is not called, and from then
  on every delivery is refused with an exception.
\<close>

theorem shutdown_announced_to_pending_only:
  assumes "s = reachable net xs" and "sc_phase s = Running"
  shows "sc_trace (sched_next net s Begin_shutdown) = sc_trace s @
      map (\<lambda>r. Called (er_id r) (make_errc network_reset) 0 []) (sc_pending s) \<and>
    (\<forall>a. sc_active s = Some a \<longrightarrow>
       calls_to (er_id a) (sched_next net s Begin_shutdown) = calls_to (er_id a) s) \<and>
    snd (deliver net d (sched_next net s Begin_shutdown)) = Inl (System_error network_down)"
proof -
  have "filter (is_call (er_id a)) (map (\<lambda>r. Called (er_id r) (make_errc network_reset) 0 [])
      (sc_pending s)) = []" if "sc_active s = Some a" for a
    using active_written(2) [OF _ that] assms(1) reachable_inv by (simp add: filter_call_pending)
  then show ?thesis
    using assms(2) by (auto simp: sched_next_simps begin_shutdown_def calls_to_def deliver_def)
qed

theorem shutdown_announced_to_pending_only_witness:
  "calls_to (er_id demo_first) (sched_next demo_net demo_queue Begin_shutdown) =
   calls_to (er_id demo_first) demo_queue"
  using shutdown_announced_to_pending_only [OF demo_queue_def, of "[]"] by simp

text \<open>
  The destructor never returns when it meets an active request. Once the pending requests
  are gone and the destructor waits for the active one, nothing ends the wait: whatever is
  delivered, exercised, dropped or completed later, the scheduler is not destroyed, because no
  function notifies the condition that it waits on.
\<close>

theorem destructor_waits_forever:
  assumes "sc_phase s = Draining" and "sc_pending s = []" and "sc_active s = Some a"
    and "\<not> sc_finished_notified s"
  shows "sc_phase (run_steps (sched_next net) s (Drained # xs)) = Awaiting_active"
proof -
  have "waiting_forever (sched_next net s Drained)"
    using assms by (simp add: sched_next_simps drained_def waiting_forever_def socket_cancel_def)
  then show ?thesis using waiting_forever_run by (simp add: waiting_forever_def)
qed

theorem destructor_waits_forever_witness:
  "sc_phase (run_steps (sched_next demo_net)
     (sched_next demo_net (reachable demo_net [Deliver [7]]) Begin_shutdown)
     (Drained # [Exercise 0 True, Destroy_option 0, Woken])) = Awaiting_active"
  by (rule destructor_waits_forever [where a = "\<lparr>er_id = 0, er_data = [7]\<rparr>"])
    (simp_all add: sched_next_simps begin_shutdown_def)

text \<open>
  Connecting succeeds exactly when some endpoint accepts, and tries no more than it needs.
  The endpoints are tried in the order of the resolver; the attempts stop at the first that
  accepts; when none does (or there is none), the error of the last attempt is thrown.
\<close>

theorem connect_tries_in_order:
  "(snd (connect_socket net s) = None \<longleftrightarrow>
     first_success net (nw_resolve net (sc_resolutions s)) (sc_attempts s) \<noteq> None) \<and>
   sc_attempts (fst (connect_socket net s)) = sc_attempts s +
     (case first_success net (nw_resolve net (sc_resolutions s)) (sc_attempts s) of
        None \<Rightarrow> length (nw_resolve net (sc_resolutions s)) | Some k \<Rightarrow> Suc k)"
  using connect_socket_None_iff [of net s]
    connect_loop_attempts [OF host_not_found_error, of net "nw_resolve net (sc_resolutions s)"
      "s\<lparr>sc_resolutions := Suc (sc_resolutions s)\<rparr>"]
  by (simp add: connect_socket_def split_beta Let_def)

text \<open>
  C16: A dirty end reconnects. When the active request ends with a dirty connection while its
  read is pending, the aborted read closes the socket and connects a new one before the next
  request is written, so that no late byte reaches it, and the ended request is never called
  again. If no endpoint accepts, nothing is active and the next request stays in the queue.
\<close>

theorem dirty_end_reconnects:
  assumes "handover a b rest s"
    and "t = run_steps (sched_next net) s [Exercise (er_id a) True, Run_task 0]"
  shows "calls_to (er_id a) (run_steps (sched_next net) t ys) = calls_to (er_id a) s \<and>
    sc_resolutions t = Suc (sc_resolutions s) \<and>
    (if first_success net (nw_resolve net (sc_resolutions s)) (sc_attempts s) \<noteq> None
     then sc_active t = Some b \<and> sc_pending t = rest \<and>
       writes (sc_trace t) = writes (sc_trace s) @ [er_id b]
     else sc_active t = None \<and> sc_pending t = b # rest \<and> writes (sc_trace t) = writes (sc_trace s))"
proof -
  obtain v f where v: "connect_socket net (before_reconnect a s) = (v, f)" by force
  note before = before_reconnect_fields [OF assms(1)]
  note core = same_coreD [OF connect_socket_core [OF v]]
  have f: "f = None \<longleftrightarrow> first_success net (nw_resolve net (sc_resolutions s)) (sc_attempts s) \<noteq> None"
    using connect_socket_None_iff [of net "before_reconnect a s"] v before by simp
  have t: "t = (if f = None then run_next_request net v else v)"
    using dirty_end_steps [OF assms(1), of net] assms(2) v core(4) before(5)
    by (simp split: option.split)
  have "silent (er_id a) (calls_to (er_id a) s) v"
    using silent_core [OF connect_socket_core [OF v]] before(7) by simp
  then have "silent (er_id a) (calls_to (er_id a) s) t" by (simp add: t silent_run_next)
  moreover have "sc_resolutions v = Suc (sc_resolutions s)"
    using connect_socket_resolutions [of net "before_reconnect a s"] v before(3) by simp
  ultimately show ?thesis
    using silent_run [of "er_id a" "calls_to (er_id a) s" t net ys] f core(1,2,9) before
    by (auto simp: t silent_def run_next_request_def start_write_def)
qed

theorem dirty_end_reconnects_witness:
  "writes (sc_trace (run_steps (sched_next demo_net) demo_queue
     [Exercise (er_id demo_first) True, Run_task 0])) =
   writes (sc_trace demo_queue) @ [er_id demo_second]"
proof -
  have "handover demo_first demo_second [] demo_queue" by (simp add: handover_def)
  moreover have "first_success demo_net (nw_resolve demo_net (sc_resolutions demo_queue))
      (sc_attempts demo_queue) \<noteq> None"
    by (simp add: demo_queue_eq demo_net_def is_boost_error_def boost_ok_def)
  ultimately show ?thesis
    using dirty_end_reconnects [OF _ refl, of demo_first demo_second "[]" demo_queue demo_net]
    by (simp only: if_True not_False_eq_True simp_thms)
qed

end
