(* ===== verification/Stack.thy ===== *)
theory Stack
  imports Client_Request Scheduler_Service
begin

text \<open>
  The whole stack: the client's handlers, inside their timed requests, on the single serial
  socket. The world's list of outstanding requests is the outbox of the handler that is running;
  it is emptied into the scheduler as soon as the handler has run. A call of the scheduler to a
  request is a response of the request, and what a response does to its termination option is
  done to the scheduler, in the order of the request's trace. Faults are collected. The theory
  shows that a stack that serves its requests in turn, with whole replies, goes through exactly
  the worlds of the client system, in which each reply meets the oldest outstanding request.
\<close>

subsection \<open>State and steps\<close>

record stack =
  st_world :: world
  st_sched :: scheduler
  st_requests :: "nat \<Rightarrow> (wire_request \<times> (bytes \<times> world) timed_request) option"
  st_faults :: "fault list"

text \<open>\<open>dispatch_via\<close> on the scheduler: the request is started, or the exception is a fault.\<close>

definition send :: "environment \<Rightarrow> client \<Rightarrow> network \<Rightarrow> wire_request \<Rightarrow> stack \<Rightarrow> stack" where
  "send env cl net r st =
     (case deliver net (wr_data r) (st_sched st) of
        (s, Inl f) \<Rightarrow> st\<lparr>st_sched := s, st_faults := st_faults st @ [f]\<rparr>
      | (s, Inr i) \<Rightarrow> st\<lparr>st_sched := s, st_requests := (st_requests st)
          (i \<mapsto> (r, fst (start_request env cl (\<lambda>_. None) r (st_world st))))\<rparr>)"

definition flush :: "environment \<Rightarrow> client \<Rightarrow> network \<Rightarrow> stack \<Rightarrow> stack" where
  "flush env cl net st =
     fold (send env cl net) (outstanding (st_world st))
       (st\<lparr>st_world := (st_world st)\<lparr>outstanding := []\<rparr>\<rparr>)"

definition add_fault :: "fault option \<Rightarrow> stack \<Rightarrow> stack" where
  "add_fault f st = (case f of None \<Rightarrow> st | Some x \<Rightarrow> st\<lparr>st_faults := st_faults st @ [x]\<rparr>)"

definition on_sched :: "scheduler \<times> fault option \<Rightarrow> stack \<Rightarrow> stack" where
  "on_sched res st = add_fault (snd res) (st\<lparr>st_sched := fst res\<rparr>)"

text \<open>An event of request \<open>i\<close>, done to the layers around it.\<close>

fun react :: "environment \<Rightarrow> client \<Rightarrow> network \<Rightarrow> nat \<Rightarrow> request_event \<Rightarrow> stack \<Rightarrow> stack" where
  "react env cl net i (Delivered d) st = st"
| "react env cl net i (Terminated dirty) st = on_sched (exercise net i dirty (st_sched st)) st"
| "react env cl net i Option_destroyed st = on_sched (destroy_option net i (st_sched st)) st"
| "react env cl net i (Called_back e n d r) st = flush env cl net st"

text \<open>The world as the client sees it: the transport refuses when the scheduler shuts down.\<close>

definition seen_world :: "stack \<Rightarrow> world" where
  "seen_world st = (st_world st)\<lparr>transport_up := \<not> sc_shutting_down (st_sched st)\<rparr>"

definition on_request ::
  "environment \<Rightarrow> client \<Rightarrow> network \<Rightarrow> nat \<Rightarrow> request_input \<Rightarrow> stack \<Rightarrow> stack" where
  "on_request env cl net i x st =
     (case st_requests st i of
        None \<Rightarrow> st
      | Some (r, t) \<Rightarrow>
          let t = t\<lparr>tr_callback := (fst (tr_callback t), seen_world st)\<rparr>;
              (t', f) = request_step (client_callback env cl (wr_handler r)) t x;
              st = st\<lparr>st_world := snd (tr_callback t'), st_requests := (st_requests st)(i \<mapsto> (r, t'))\<rparr>
          in add_fault f (fold (react env cl net i) (drop (length (tr_trace t)) (tr_trace t')) st))"

fun on_socket_event :: "environment \<Rightarrow> client \<Rightarrow> network \<Rightarrow> socket_event \<Rightarrow> stack \<Rightarrow> stack" where
  "on_socket_event env cl net (Called i e n d) st = on_request env cl net i (Response e n d) st"
| "on_socket_event env cl net _ st = st"

definition on_call ::
  "environment \<Rightarrow> client \<Rightarrow> network \<Rightarrow> world \<times> (fault + unit) \<Rightarrow> stack \<Rightarrow> stack" where
  "on_call env cl net res st =
     add_fault (case snd res of Inl f \<Rightarrow> Some f | Inr _ \<Rightarrow> None)
       (flush env cl net (st\<lparr>st_world := fst res\<rparr>))"

datatype stack_input =
    Get key key app_handler
  | Delete key key app_handler
  | Store value_updater "object option" app_handler
  | Network sched_input
  | Timer nat request_input

fun stack_step ::
  "environment \<Rightarrow> client \<Rightarrow> network \<Rightarrow> stack \<Rightarrow> stack_input \<Rightarrow> stack" where
  "stack_step env cl net st (Get b k h) = on_call env cl net (get_object env cl b k h (seen_world st)) st"
| "stack_step env cl net st (Delete b k h) =
     on_call env cl net (delete_object env cl b k h (seen_world st)) st"
| "stack_step env cl net st (Store u c h) = on_call env cl net (run_updater env u c h (seen_world st)) st"
| "stack_step env cl net st (Network x) =
     (let res = sched_step net (st_sched st) x
      in fold (on_socket_event env cl net)
           (drop (length (sc_trace (st_sched st))) (sc_trace (fst res))) (on_sched res st))"
| "stack_step env cl net st (Timer i x) = on_request env cl net i x st"

definition make_stack :: "network \<Rightarrow> stack" where
  "make_stack net =
     \<lparr>st_world = \<lparr>uuids_drawn = 0, transport_up = True, outstanding = [], events = []\<rparr>,
      st_sched = fst (make_scheduler net), st_requests = (\<lambda>_. None), st_faults = []\<rparr>"

subsection \<open>Outboxes\<close>

text \<open>No operation of the client looks at the requests that are already outstanding.\<close>

definition shift :: "wire_request list \<Rightarrow> world \<Rightarrow> world" where
  "shift rs w = w\<lparr>outstanding := rs @ outstanding w\<rparr>"

lemma shift_fields [simp]:
  "outstanding (shift rs w) = rs @ outstanding w" "events (shift rs w) = events w"
  "transport_up (shift rs w) = transport_up w" "uuids_drawn (shift rs w) = uuids_drawn w"
  by (simp_all add: shift_def)

lemma shift_ops [simp]:
  "emit e (shift rs w) = shift rs (emit e w)"
  "log_line ctx sev parts (shift rs w) = shift rs (log_line ctx sev parts w)"
  "(shift rs w)\<lparr>uuids_drawn := n\<rparr> = shift rs (w\<lparr>uuids_drawn := n\<rparr>)"
  "(shift rs w)\<lparr>outstanding := qs\<rparr> = w\<lparr>outstanding := qs\<rparr>"
  by (simp_all add: shift_def emit_def log_line_emit)

lemma dispatch_shift:
  "dispatch env q t handler (shift rs w) = map_prod (shift rs) id (dispatch env q t handler w)"
  by (auto simp: dispatch_def shift_def emit_def Let_def split: sum.split)

lemma run_get_request_shift:
  "run_get_request env ctx b k h (shift rs w) = map_prod (shift rs) id (run_get_request env ctx b k h w)"
  by (simp add: run_get_request_def dispatch_shift Let_def)

lemma put_resolved_sibling_shift:
  "put_resolved_sibling env ctx b k vc c handler (shift rs w) =
   map_prod (shift rs) id (put_resolved_sibling env ctx b k vc c handler w)"
  by (simp add: put_resolved_sibling_def send_put_request_def dispatch_shift Let_def split: sum.split)

lemma put_with_vclock_shift:
  "put_with_vclock env ctx b k vc c h (shift rs w) =
   map_prod (shift rs) id (put_with_vclock env ctx b k vc c h w)"
  by (simp add: put_with_vclock_def send_put_request_def dispatch_shift Let_def
      split: sum.split option.split)

lemma draw_shift [simp]:
  "draw_context env oap rfp (shift rs w) = map_prod id (shift rs) (draw_context env oap rfp w)"
  "redraw_context env ctx (shift rs w) = map_prod id (shift rs) (redraw_context env ctx w)"
  by (simp_all add: draw_context_eq redraw_context_eq)

lemma get_object_shift:
  "get_object env cl b k h (shift rs w) = map_prod (shift rs) id (get_object env cl b k h w)"
  by (simp add: get_object_def run_get_request_shift split_beta Let_def)

lemma delete_object_shift:
  "delete_object env cl b k h (shift rs w) = map_prod (shift rs) id (delete_object env cl b k h w)"
  by (simp add: delete_object_def dispatch_shift split_beta Let_def)

lemma run_updater_shift:
  "run_updater env u c h (shift rs w) = map_prod (shift rs) id (run_updater env u c h w)"
  by (simp add: run_updater_def put_with_vclock_shift split: value_updater.split)

lemma resolve_siblings_and_put_shift:
  "resolve_siblings_and_put env sr ctx b k resp h (shift rs w) =
   map_prod (shift rs) id (resolve_siblings_and_put env sr ctx b k resp h w)"
  by (simp add: resolve_siblings_and_put_def put_resolved_sibling_shift split_beta Let_def
      split: option.split)

text \<open>The tail of a handler that starts another request.\<close>

lemma then_True_shift:
  "(case map_prod (shift rs) id X of (w, Inl f) \<Rightarrow> (w, Inl f) | (w, Inr _) \<Rightarrow> (w, Inr True)) =
   map_prod (shift rs) id (case X of (w, Inl f) \<Rightarrow> (w, Inl f) | (w, Inr _) \<Rightarrow> (w, Inr True))"
  by (simp split: prod.split sum.split)

lemma accept_delete_shift:
  "accept_delete_response env ctx h e n d (shift rs w) =
   map_prod (shift rs) id (accept_delete_response env ctx h e n d w)"
  by (simp add: accept_delete_response_def Let_def split: sum.split bool.split)

lemma accept_put_shift:
  "accept_put_response env ctx h e n d (shift rs w) =
   map_prod (shift rs) id (accept_put_response env ctx h e n d w)"
  by (simp add: accept_put_response_def Let_def split: sum.split option.split)

lemma accept_get_shift:
  "accept_get_response env sr ctx b k h e n d (shift rs w) =
   map_prod (shift rs) id (accept_get_response env sr ctx b k h e n d w)"
proof (cases "is_error e \<or> n = 0 \<or> n \<noteq> length d")
  case True
  then show ?thesis by (auto simp: accept_get_response_def Let_def split: sum.split)
next
  case False
  then show ?thesis
    by (cases "retrieve_get_resp (env_host env) (env_indeterminate env) (env_pb env) (length d) d")
      (simp_all add: accept_get_response_def resolve_siblings_and_put_shift redraw_context_eq
        then_True_shift Let_def split: option.split)
qed

lemma retry_shift:
  "return_successfully_resolved_sibling_or_retry env ctx b k c h e n d (shift rs w) =
   map_prod (shift rs) id (return_successfully_resolved_sibling_or_retry env ctx b k c h e n d w)"
proof (cases "is_error e \<or> n = 0 \<or> n \<noteq> length d")
  case True
  then show ?thesis
    by (auto simp: return_successfully_resolved_sibling_or_retry_def Let_def split: sum.split)
next
  case False
  then show ?thesis
    by (cases "retrieve_put_resp (env_host env) (env_indeterminate env) (env_pb env) (length d) d")
      (simp_all add: return_successfully_resolved_sibling_or_retry_def run_get_request_shift
        then_True_shift Let_def split: option.split bool.split)
qed

lemma run_handler_shift:
  "run_handler env cl handler e n d (shift rs w) =
   map_prod (shift rs) id (run_handler env cl handler e n d w)"
  by (simp add: run_handler_def accept_delete_shift accept_put_shift accept_get_shift retry_shift
      split: message_handler.split)

subsection \<open>The end of a request, on the scheduler\<close>

definition closing :: "network \<Rightarrow> enqueued_request \<Rightarrow> scheduler \<Rightarrow> scheduler" where
  "closing net a s = fst (destroy_option net (er_id a) (fst (exercise net (er_id a) False s)))"

lemma closing_no_fault:
  assumes "queued a as s"
  shows "\<exists>e. exercise net (er_id a) False s = (e, None) \<and>
    destroy_option net (er_id a) e = (closing net a s, None)"
proof -
  obtain e where e: "exercise net (er_id a) False s = (e, None)"
    using assms by (simp add: queued_def exercise_def exercise_option_def Let_def)
  then have "option_spent (er_id a) e" by (rule option.exercise_spends)
  with e show ?thesis by (simp add: closing_def destroy_spent)
qed

lemma closing_inv: "sched_inv s \<Longrightarrow> sched_inv (closing net a s)"
  by (simp add: closing_def exercise_def destroy_option_def split_beta Let_def exercise_option_inv)

text \<open>The two tasks that remain, and the state that they lead to.\<close>

definition settled :: "enqueued_request list \<Rightarrow> scheduler \<Rightarrow> bool" where
  "settled qs s \<longleftrightarrow> (case qs of
       [] \<Rightarrow> sc_active s = None \<and> sc_pending s = [] \<and> sc_operations s = [] \<and> sc_ready s = [] \<and>
         \<not> sc_shutting_down s \<and> sched_inv s
     | a # as \<Rightarrow> queued a as s)"

lemma closing_idle:
  assumes "queued a [] s"
  shows "\<exists>u. sched_step net (closing net a s) (Run_task 0) = (u, None) \<and>
    sched_step net u (Run_task 0) = (u, None) \<and> sc_trace u = sc_trace (closing net a s) \<and>
    settled [] u"
proof -
  define c where "c = closing net a s"
  have c: "sc_active c = None" "sc_pending c = []" "sc_operations c = []"
    "sc_ready c = [On_read (er_id a) operation_aborted []]" "\<not> sc_shutting_down c"
    using assms
    by (simp_all add: c_def closing_def queued_def exercise_def destroy_option_def
        exercise_option_def run_next_request_def socket_cancel_def Let_def)
  moreover have "sched_inv c"
    unfolding c_def by (rule closing_inv) (use assms in \<open>simp add: queued_def\<close>)
  ultimately show ?thesis
    unfolding c_def [symmetric]
    by (simp add: run_task_def on_read_def is_active_def drop_nth_def settled_def)
qed

lemma queued_others:
  assumes "queued a as s" and "r \<in> set as"
  shows "er_id r \<noteq> er_id a" and "sc_options s (er_id r) = Some r" and "\<not> sc_exercised s (er_id r)"
proof -
  have "er_id r \<in> set (map er_id (sc_pending s))" using assms by (auto simp: queued_def)
  moreover have "sched_inv s" "sc_active s = Some a" using assms(1) by (simp_all add: queued_def)
  then have "er_id a \<notin> set (map er_id (sc_pending s))" by (rule active_written(2))
  ultimately show "er_id r \<noteq> er_id a" by metis
  show "sc_options s (er_id r) = Some r" "\<not> sc_exercised s (er_id r)"
    using assms unfolding queued_def list_all_iff by auto
qed

lemma closing_next:
  assumes q: "queued a (b # rest) s" and eager: "nw_write_at_once net (er_id b)"
  shows "\<exists>u v. sched_step net (closing net a s) (Run_task 0) = (u, None) \<and>
    sched_step net u (Run_task 0) = (v, None) \<and>
    sc_trace v = sc_trace (closing net a s) @ [Began_read (er_id b)] \<and>
    sc_trace u = sc_trace v \<and> settled (b # rest) v"
proof -
  define c where "c = closing net a s"
  have c: "sc_active c = Some b" "sc_pending c = rest" "sc_operations c = []"
    "sc_ready c = [On_write (er_id b) boost_ok, On_read (er_id a) operation_aborted []]"
    "\<not> sc_shutting_down c" "sc_options c = (sc_options s)(er_id a := None)"
    "sc_exercised c = (sc_exercised s)(er_id a := True)"
    using assms
    by (simp_all add: c_def closing_def queued_def exercise_def destroy_option_def
        exercise_option_def run_next_request_def start_write_def socket_cancel_def Let_def)
  have inv: "sched_inv c"
    unfolding c_def by (rule closing_inv) (use q in \<open>simp add: queued_def\<close>)
  have "sc_options c (er_id r) = Some r \<and> \<not> sc_exercised c (er_id r)" if "r \<in> set (b # rest)" for r
    using queued_others [OF q that] by (simp add: c(6,7))
  then have opts: "list_all (\<lambda>r. sc_options c (er_id r) = Some r \<and> \<not> sc_exercised c (er_id r)) (b # rest)"
    unfolding list_all_iff by blast
  have ne: "er_id b \<noteq> er_id a" by (rule queued_others(1) [OF q]) simp
  define u where "u = start_read (er_id b) (c\<lparr>sc_ready := [On_read (er_id a) operation_aborted []]\<rparr>)"
  have u: "sched_step net c (Run_task 0) = (u, None)"
    using c by (simp add: u_def run_task_def on_write_def is_active_def drop_nth_def)
  have v: "sched_step net u (Run_task 0) = (u\<lparr>sc_ready := []\<rparr>, None)"
    using c ne by (simp add: u_def run_task_def on_read_def is_active_def drop_nth_def start_read_fields)
  have "settled (b # rest) (u\<lparr>sc_ready := []\<rparr>)"
    using c inv opts by (simp add: settled_def queued_def u_def start_read_fields)
  with u v show ?thesis
    unfolding c_def [symmetric] by (simp add: u_def start_read_fields)
qed

subsection \<open>Delivering\<close>

definition holds :: "stack \<Rightarrow> enqueued_request \<Rightarrow> wire_request \<Rightarrow> bool" where
  "holds st q r \<longleftrightarrow> (\<exists>t w. st_requests st (er_id q) = Some (r, t) \<and> waits_with [] w t \<and>
     tr_waits t = [Pending])"

lemma pending_below: "sched_inv s \<Longrightarrow> r \<in> set (sc_pending s) \<Longrightarrow> er_id r < sc_next_id s"
  by (simp add: sched_inv_def queue_ids_def)

lemma deliver_queued:
  assumes "queued a as s"
  shows "\<exists>s'. deliver net d s = (s', Inr (sc_next_id s)) \<and>
    queued a (as @ [\<lparr>er_id = sc_next_id s, er_data = d\<rparr>]) s'"
proof -
  define q where "q = \<lparr>er_id = sc_next_id s, er_data = d\<rparr>"
  define s' where "s' = s\<lparr>sc_next_id := Suc (sc_next_id s), sc_pending := sc_pending s @ [q],
     sc_options := (sc_options s)(sc_next_id s := Some q),
     sc_exercised := (sc_exercised s)(sc_next_id s := False)\<rparr>"
  have d: "deliver net d s = (s', Inr (sc_next_id s))"
    using assms by (simp add: queued_def deliver_def q_def s'_def Let_def)
  have inv: "sched_inv s" using assms by (simp add: queued_def)
  have "er_id r < sc_next_id s" if "r \<in> set (a # as)" for r
    using that assms inv active_written(1) [of s a] pending_below [OF inv]
    by (auto simp: queued_def)
  then have "list_all (\<lambda>r. sc_options s' (er_id r) = Some r \<and> \<not> sc_exercised s' (er_id r))
      (a # as @ [q])"
    using assms unfolding queued_def list_all_iff by (fastforce simp: s'_def q_def)
  moreover have "sched_inv s'" using deliver_inv [OF inv, of net d] d by simp
  ultimately have "queued a (as @ [q]) s'" using assms by (simp add: queued_def s'_def)
  with d show ?thesis by (simp only: q_def) blast
qed

text \<open>
  \<open>queued_with a as qs rs st\<close>: \<open>a\<close> is active and \<open>as\<close> are pending, and the requests \<open>qs\<close> of the
  scheduler are the waiting requests of \<open>rs\<close>.
\<close>

definition queued_with ::
  "enqueued_request \<Rightarrow> enqueued_request list \<Rightarrow> enqueued_request list \<Rightarrow> wire_request list \<Rightarrow>
   stack \<Rightarrow> bool" where
  "queued_with a as qs rs st \<longleftrightarrow> queued a as (st_sched st) \<and> list_all2 (holds st) qs rs \<and>
     (\<forall>q \<in> set qs. er_id q < sc_next_id (st_sched st))"

lemma send_queued:
  assumes "queued_with a as qs rs st"
  shows "\<exists>q. queued_with a (as @ [q]) (qs @ [q]) (rs @ [r]) (send env cl net r st) \<and>
    st_world (send env cl net r st) = st_world st \<and> st_faults (send env cl net r st) = st_faults st"
proof -
  let ?s = "st_sched st" and ?i = "sc_next_id (st_sched st)"
  let ?q = "\<lparr>er_id = ?i, er_data = wr_data r\<rparr>"
  obtain s' where d: "deliver net (wr_data r) ?s = (s', Inr ?i)" "queued a (as @ [?q]) s'"
    using deliver_queued assms unfolding queued_with_def by blast
  have next_id: "sc_next_id s' = Suc ?i"
    using d(1) assms by (auto simp: deliver_def queued_with_def queued_def Let_def)
  obtain t where t: "start_request env cl (\<lambda>_. None) r (st_world st) = (t, None)"
      "waits_with [] (st_world st) t" "tr_waits t = [Pending]"
    using start_request_waits [of "\<lambda>_. None" r env cl "st_world st"] by auto
  define st' where "st' = send env cl net r st"
  have st': "st' = st\<lparr>st_sched := s', st_requests := (st_requests st)(?i \<mapsto> (r, t))\<rparr>"
    using d(1) t(1) by (simp add: st'_def send_def)
  have "holds st' ?q r" using t(2,3) by (auto simp: holds_def st')
  moreover have "list_all2 (holds st') qs rs"
  proof (rule list.rel_mono_strong)
    show "list_all2 (holds st) qs rs" using assms by (simp add: queued_with_def)
    fix q r'
    assume "q \<in> set qs" and "holds st q r'"
    moreover have "er_id q \<noteq> ?i" using assms calculation(1) by (auto simp: queued_with_def)
    ultimately show "holds st' q r'" by (simp add: holds_def st')
  qed
  ultimately have "list_all2 (holds st') (qs @ [?q]) (rs @ [r])"
    by (simp add: list_all2_appendI)
  moreover have "\<forall>q \<in> set (qs @ [?q]). er_id q < sc_next_id (st_sched st')"
    using assms by (auto simp: queued_with_def st' next_id)
  ultimately have "queued_with a (as @ [?q]) (qs @ [?q]) (rs @ [r]) st'"
    using d(2) by (simp add: queued_with_def st')
  then show ?thesis unfolding st'_def [symmetric] using st' by auto
qed

lemma send_all_queued:
  assumes "queued_with a as qs rs st"
  shows "\<exists>new. queued_with a (as @ new) (qs @ new) (rs @ out) (fold (send env cl net) out st) \<and>
    st_world (fold (send env cl net) out st) = st_world st \<and>
    st_faults (fold (send env cl net) out st) = st_faults st"
  using assms
proof (induction out arbitrary: as qs rs st)
  case Nil
  then show ?case by (intro exI [of _ "[]"]) simp
next
  case (Cons r out)
  obtain q where "queued_with a (as @ [q]) (qs @ [q]) (rs @ [r]) (send env cl net r st)"
    and same: "st_world (send env cl net r st) = st_world st"
      "st_faults (send env cl net r st) = st_faults st"
    using send_queued [OF Cons.prems] by blast
  from Cons.IH [OF this(1)] obtain new where
    "queued_with a ((as @ [q]) @ new) ((qs @ [q]) @ new) ((rs @ [r]) @ out)
      (fold (send env cl net) out (send env cl net r st))"
    "st_world (fold (send env cl net) out (send env cl net r st)) = st_world st"
    "st_faults (fold (send env cl net) out (send env cl net r st)) = st_faults st"
    using same by auto
  then show ?case by (intro exI [of _ "q # new"]) simp
qed

lemma flush_queued:
  assumes "queued_with a as qs rs st"
  shows "\<exists>new. queued_with a (as @ new) (qs @ new) (rs @ outstanding (st_world st)) (flush env cl net st) \<and>
    st_world (flush env cl net st) = (st_world st)\<lparr>outstanding := []\<rparr> \<and>
    st_faults (flush env cl net st) = st_faults st"
proof -
  let ?st = "st\<lparr>st_world := (st_world st)\<lparr>outstanding := []\<rparr>\<rparr>"
  have "holds ?st = holds st" by (simp add: holds_def fun_eq_iff)
  then have "queued_with a as qs rs ?st" using assms by (simp add: queued_with_def)
  from send_all_queued [OF this, of "outstanding (st_world st)" env cl net] show ?thesis
    by (simp add: flush_def)
qed

subsection \<open>A stack in order\<close>

text \<open>
  Nothing has failed, the outbox is empty, the scheduler has settled, and its requests are, in
  order, the waiting requests \<open>rs\<close>.
\<close>

definition in_order :: "wire_request list \<Rightarrow> stack \<Rightarrow> bool" where
  "in_order rs st \<longleftrightarrow> st_faults st = [] \<and> outstanding (st_world st) = [] \<and>
     transport_up (st_world st) \<and>
     (\<exists>qs. settled qs (st_sched st) \<and> list_all2 (holds st) qs rs)"

lemma holds_sched [simp]: "holds (st\<lparr>st_sched := s\<rparr>) = holds st"
  by (simp add: holds_def fun_eq_iff)

lemma queued_fields:
  assumes "queued a as s"
  shows "\<not> sc_shutting_down s" "sched_inv s" "sc_active s = Some a" "sc_pending s = as"
  using assms by (simp_all add: queued_def)

lemma seen_world_up:
  "\<not> sc_shutting_down (st_sched st) \<Longrightarrow> transport_up (st_world st) \<Longrightarrow> seen_world st = st_world st"
  by (simp add: seen_world_def)

lemma on_socket_events_quiet:
  "replies evs = [] \<Longrightarrow> fold (on_socket_event env cl net) evs st = st"
proof (induction evs)
  case (Cons e evs)
  then show ?case by (cases e) simp_all
qed simp

lemma network_step:
  assumes "sched_step net (st_sched st) x = (u, None)"
    and "sc_trace u = sc_trace (st_sched st) @ evs"
  shows "stack_step env cl net st (Network x) =
    fold (on_socket_event env cl net) evs (st\<lparr>st_sched := u\<rparr>)"
  using assms by (simp add: on_sched_def add_fault_def Let_def)

lemma network_quiet:
  assumes "sched_step net (st_sched st) x = (u, None)"
    and "sc_trace u = sc_trace (st_sched st) @ evs" and "replies evs = []"
  shows "stack_step env cl net st (Network x) = st\<lparr>st_sched := u\<rparr>"
  using network_step [OF assms(1,2)] on_socket_events_quiet [OF assms(3)] by simp

subsection \<open>What a request does with a chunk, a whole reply, a silence\<close>

text \<open>The active request \<open>a\<close> is the wire request \<open>r\<close> and has buffered \<open>buf\<close>.\<close>

definition reading :: "bytes \<Rightarrow> enqueued_request \<Rightarrow> wire_request \<Rightarrow> stack \<Rightarrow> bool" where
  "reading buf a r st \<longleftrightarrow> (\<exists>t w. st_requests st (er_id a) = Some (r, t) \<and> waits_with buf w t)"

lemma holds_reading: "holds st q r \<Longrightarrow> reading [] q r st"
  by (auto simp: holds_def reading_def)

lemma to_errc_no_error [simp]: "\<not> is_error (to_errc boost_ok)"
  by (simp add: to_errc_def boost_ok_def)

lemma waits_with_seen: "waits_with buf w t \<Longrightarrow> waits_with buf v (t\<lparr>tr_callback := (fst (tr_callback t), v)\<rparr>)"
  by (simp add: waits_with_def in_flight_def pending_waits_def expired_waits_def completions_def)

text \<open>A step of the request whose trace grows by \<open>evs\<close>.\<close>

lemma on_request_step:
  assumes "st_requests st i = Some (r, t)"
    and "request_step (client_callback env cl (wr_handler r))
      (t\<lparr>tr_callback := (fst (tr_callback t), seen_world st)\<rparr>) x = (t', None)"
    and "tr_trace t' = tr_trace t @ evs"
  shows "on_request env cl net i x st = fold (react env cl net i) evs
    (st\<lparr>st_world := snd (tr_callback t'), st_requests := (st_requests st)(i \<mapsto> (r, t'))\<rparr>)"
  using assms by (simp add: on_request_def add_fault_def Let_def del: fun_upd_apply)

lemma on_request_chunk:
  assumes "reading buf a r st" and "seen_world st = st_world st" and "outstanding (st_world st) = []"
    and "next_partial_response (env_host env) (buf @ c) = 0"
  shows "\<exists>t'. on_request env cl net (er_id a) (Response (to_errc boost_ok) (length c) c) st =
      st\<lparr>st_requests := (st_requests st)(er_id a \<mapsto> (r, t'))\<rparr> \<and> waits_with (buf @ c) (st_world st) t'"
proof -
  obtain t w where t: "st_requests st (er_id a) = Some (r, t)" "waits_with buf w t"
    using assms(1) by (auto simp: reading_def)
  let ?t = "t\<lparr>tr_callback := (fst (tr_callback t), seen_world st)\<rparr>"
  from partial_response [OF waits_with_seen [OF t(2), of "seen_world st"] assms(4), of cl "wr_handler r"]
  obtain t' where t': "request_step (client_callback env cl (wr_handler r)) ?t
      (Response (to_errc boost_ok) (length c) c) = (t', None)"
      "waits_with (buf @ c) (st_world st) t'" "tr_trace t' = tr_trace t @ [called c False]"
    using assms(2) by (auto simp: on_response_code [OF to_errc_no_error])
  have same: "st\<lparr>st_world := st_world st, st_requests := f\<rparr> = st\<lparr>st_requests := f\<rparr>" for f by simp
  have empty: "(st_world st)\<lparr>outstanding := []\<rparr> = st_world st"
    using assms(3) by (cases "st_world st") simp
  have "on_request env cl net (er_id a) (Response (to_errc boost_ok) (length c) c) st =
      flush env cl net (st\<lparr>st_world := snd (tr_callback t'), st_requests := (st_requests st)(er_id a \<mapsto> (r, t'))\<rparr>)"
    using on_request_step [OF t(1) t'(1,3), of net] by (simp add: called_def)
  also have "\<dots> = st\<lparr>st_requests := (st_requests st)(er_id a \<mapsto> (r, t'))\<rparr>"
    using t'(2) assms(3) by (simp add: flush_def waits_with_def empty same)
  finally show ?thesis using t'(2) by blast
qed

lemma on_request_whole:
  assumes "reading buf a r st" and "seen_world st = v" and "complete_message d" and "buf @ c = d"
    and "run_handler env cl (wr_handler r) std_no_error (length d) d v = (w', Inr True)"
  shows "\<exists>t'. on_request env cl net (er_id a) (Response (to_errc boost_ok) (length c) c) st =
    react env cl net (er_id a) Option_destroyed (react env cl net (er_id a) (Terminated False)
      (flush env cl net (st\<lparr>st_world := w', st_requests := (st_requests st)(er_id a \<mapsto> (r, t'))\<rparr>)))"
proof -
  obtain t w where t: "st_requests st (er_id a) = Some (r, t)" "waits_with buf w t"
    using assms(1) by (auto simp: reading_def)
  let ?t = "t\<lparr>tr_callback := (fst (tr_callback t), seen_world st)\<rparr>"
  have "waits_with buf v ?t" unfolding assms(2) by (rule waits_with_seen [OF t(2)])
  from whole_response [OF this assms(3) _ assms(5), of c "[]"] assms(4)
  obtain t' where t': "request_step (client_callback env cl (wr_handler r)) ?t
      (Response (to_errc boost_ok) (length c) c) = (t', None)" "tr_callback t' = ([], w')"
      "tr_trace t' = tr_trace t @ [called c True, Terminated False, Option_destroyed]"
    by (auto simp: on_response_code [OF to_errc_no_error])
  show ?thesis using on_request_step [OF t(1) t'(1,3), of net] t'(2) by (auto simp: called_def)
qed

lemma on_request_timeout:
  assumes "holds st a r" and "seen_world st = v"
    and "run_handler env cl (wr_handler r) (make_error_code response_timeout) 0 [] v = (w', Inr True)"
  shows "\<exists>t'. on_request env cl net (er_id a) (Timeout_now 0) st =
    react env cl net (er_id a) Option_destroyed
      (flush env cl net (st\<lparr>st_world := w', st_requests := (st_requests st)(er_id a \<mapsto> (r, t'))\<rparr>))"
proof -
  obtain t w where t: "st_requests st (er_id a) = Some (r, t)" "waits_with [] w t" "tr_waits t = [Pending]"
    using assms(1) by (auto simp: holds_def)
  let ?t = "t\<lparr>tr_callback := (fst (tr_callback t), seen_world st)\<rparr>"
  obtain t' where t': "request_step (client_callback env cl (wr_handler r)) ?t (Timeout_now 0) = (t', None)"
      "tr_callback t' = ([], w')" "tr_trace t' = tr_trace t @
        [Called_back (make_error_code response_timeout) 0 [] (Inr True), Option_destroyed]"
    using t(2,3) assms(2,3)
    by (simp add: waits_with_def in_flight_def on_timeout_def call_back_def client_callback_eq
        streaming_error reset_option_def remove_wait_def Let_def)
  show ?thesis using on_request_step [OF t(1) t'(1,3), of net] t'(2) by auto
qed

lemma closing_react:
  assumes "queued a as (st_sched st)"
  shows "react env cl net (er_id a) Option_destroyed (react env cl net (er_id a) (Terminated False) st) =
    st\<lparr>st_sched := closing net a (st_sched st)\<rparr>"
proof -
  obtain e where "exercise net (er_id a) False (st_sched st) = (e, None)"
      "destroy_option net (er_id a) e = (closing net a (st_sched st), None)"
    using closing_no_fault [OF assms] by blast
  then show ?thesis by (simp add: on_sched_def add_fault_def)
qed

text \<open>Dropping the option of the active request ends it just as cleanly.\<close>

lemma dropping_react:
  assumes "queued a as (st_sched st)"
  shows "react env cl net (er_id a) Option_destroyed st = st\<lparr>st_sched := closing net a (st_sched st)\<rparr>"
proof -
  obtain e where e: "exercise net (er_id a) False (st_sched st) = (e, None)"
      "destroy_option net (er_id a) e = (closing net a (st_sched st), None)"
    using closing_no_fault [OF assms] by blast
  moreover have "exercise_option net True (er_id a) False (st_sched st) =
      exercise net (er_id a) False (st_sched st)"
    using assms by (simp add: exercise_def exercise_option_def queued_def)
  ultimately have "destroy_option net (er_id a) (st_sched st) = (closing net a (st_sched st), None)"
    using destroy_spent [OF option.exercise_spends [OF e(1)]] by (simp add: destroy_option_def)
  then show ?thesis by (simp add: on_sched_def add_fault_def)
qed

subsection \<open>The end of the active request\<close>

definition eager :: "network \<Rightarrow> bool" where
  "eager net \<longleftrightarrow> (\<forall>i. nw_write_at_once net i)"

lemma closing_settles:
  assumes "queued a as s" and "eager net"
  shows "\<exists>u v evs. sched_step net (closing net a s) (Run_task 0) = (u, None) \<and>
    sched_step net u (Run_task 0) = (v, None) \<and> sc_trace u = sc_trace (closing net a s) @ evs \<and>
    replies evs = [] \<and> sc_trace v = sc_trace u \<and> settled as v"
proof (cases as)
  case Nil
  with closing_idle [of a s net] assms(1) show ?thesis by fastforce
next
  case (Cons b rest)
  with closing_next [of a b rest s net] assms show ?thesis by (fastforce simp: eager_def)
qed

lemma settled_below:
  assumes "queued a as s" and "q \<in> set (a # as)"
  shows "er_id q < sc_next_id s"
  using active_written(1) [of s a] pending_below [of s q] assms by (auto simp: queued_def)

lemma others_hold:
  assumes "queued a as s" and "list_all2 (holds st) as rs"
    and "\<And>i. i \<noteq> er_id a \<Longrightarrow> st_requests st' i = st_requests st i"
  shows "list_all2 (holds st') as rs"
proof (rule list.rel_mono_strong [OF assms(2)])
  fix x y
  assume "x \<in> set as" and "holds st x y"
  then show "holds st' x y" using queued_others(1) [OF assms(1), of x] assms(3) by (simp add: holds_def)
qed

text \<open>
  The handler of the active request has run and left the world \<open>w'\<close>: its requests join the
  queue, its option goes, and the two tasks that remain run.
\<close>

definition two_tasks :: "stack_input list" where
  "two_tasks = [Network (Run_task 0), Network (Run_task 0)]"

lemma end_in_order:
  assumes q: "queued a as (st_sched st)" and as: "list_all2 (holds st) as rs"
    and ok: "st_faults st = []" "transport_up (st_world st)" and net: "eager net"
    and st': "st' = (flush env cl net st)\<lparr>st_sched := closing net a (st_sched (flush env cl net st))\<rparr>"
  shows "in_order (rs @ outstanding (st_world st)) (run_steps (stack_step env cl net) st' two_tasks)"
    and "st_world (run_steps (stack_step env cl net) st' two_tasks) = (st_world st)\<lparr>outstanding := []\<rparr>"
proof -
  have "queued_with a as as rs st" using q as settled_below [OF q] by (simp add: queued_with_def)
  from flush_queued [OF this, of env cl net] obtain new where
    f: "queued_with a (as @ new) (as @ new) (rs @ outstanding (st_world st)) (flush env cl net st)"
      "st_world (flush env cl net st) = (st_world st)\<lparr>outstanding := []\<rparr>"
      "st_faults (flush env cl net st) = []"
    using ok(1) by auto
  have q2: "queued a (as @ new) (st_sched (flush env cl net st))" using f(1) by (simp add: queued_with_def)
  obtain u v evs where u: "sched_step net (st_sched st') (Run_task 0) = (u, None)"
      "sc_trace u = sc_trace (st_sched st') @ evs" "replies evs = []"
    and v: "sched_step net u (Run_task 0) = (v, None)" "sc_trace v = sc_trace u" "settled (as @ new) v"
    using closing_settles [OF q2 net] by (auto simp: st')
  have fin: "run_steps (stack_step env cl net) st' two_tasks = st'\<lparr>st_sched := v\<rparr>"
    using network_quiet [OF u] network_quiet [of net "st'\<lparr>st_sched := u\<rparr>" "Run_task 0" v "[]"] v(1,2)
    by (simp add: two_tasks_def del: stack_step.simps)
  show "st_world (run_steps (stack_step env cl net) st' two_tasks) = (st_world st)\<lparr>outstanding := []\<rparr>"
    unfolding fin using f(2) by (simp add: st')
  show "in_order (rs @ outstanding (st_world st)) (run_steps (stack_step env cl net) st' two_tasks)"
    unfolding fin in_order_def using f v(3) ok(2) by (auto simp: st' queued_with_def)
qed

subsection \<open>Serving a reply\<close>

text \<open>A chunk arrives and its task runs.\<close>

definition arrive :: "bytes \<Rightarrow> stack_input list" where
  "arrive c = [Network (Complete 0 boost_ok c), Network (Run_task 0)]"

definition serve_stack :: "bytes list \<Rightarrow> stack_input list" where
  "serve_stack cs = concat (map arrive cs) @ two_tasks"

lemma bytes_reach_request:
  assumes q: "queued a as (st_sched st)"
  shows "\<exists>s. queued a as s \<and> run_steps (stack_step env cl net) st (arrive c) =
    on_request env cl net (er_id a) (Response (to_errc boost_ok) (length c) c) (st\<lparr>st_sched := s\<rparr>)"
proof -
  let ?s = "st_sched st"
  define s1 where "s1 = ?s\<lparr>sc_ready := [On_read (er_id a) boost_ok c], sc_operations := []\<rparr>"
  define s2 where "s2 = sock (reply_call a c) (start_read (er_id a) (s1\<lparr>sc_ready := []\<rparr>))"
  have step1: "sched_step net ?s (Complete 0 boost_ok c) = (s1, None)"
    using q by (simp add: queued_def s1_def drop_nth_def)
  have step2: "sched_step net s1 (Run_task 0) = (s2, None)"
    using q
    by (simp add: s1_def s2_def queued_def run_task_def on_read_def is_active_def drop_nth_def
        reply_call_def Let_def)
  have s2: "queued a as s2"
    "sc_trace s2 = sc_trace ?s @ [Began_read (er_id a), reply_call a c]"
    using q by (simp_all add: s1_def s2_def queued_def start_read_fields reply_call_def)
  have net1: "stack_step env cl net st (Network (Complete 0 boost_ok c)) = st\<lparr>st_sched := s1\<rparr>"
    by (rule network_quiet [where evs = "[]", OF step1]) (simp_all add: s1_def)
  have "sched_step net (st_sched (st\<lparr>st_sched := s1\<rparr>)) (Run_task 0) = (s2, None)"
    using step2 by simp
  moreover have "sc_trace s2 = sc_trace (st_sched (st\<lparr>st_sched := s1\<rparr>)) @
      [Began_read (er_id a), reply_call a c]"
    using s2(2) by (simp add: s1_def)
  ultimately have "stack_step env cl net (st\<lparr>st_sched := s1\<rparr>) (Network (Run_task 0)) =
      fold (on_socket_event env cl net) [Began_read (er_id a), reply_call a c]
        (st\<lparr>st_sched := s1, st_sched := s2\<rparr>)"
    by (rule network_step)
  moreover have "st\<lparr>st_sched := s1, st_sched := s2\<rparr> = st\<lparr>st_sched := s2\<rparr>" by simp
  ultimately have "run_steps (stack_step env cl net) st (arrive c) =
      fold (on_socket_event env cl net) [Began_read (er_id a), reply_call a c] (st\<lparr>st_sched := s2\<rparr>)"
    by (simp only: arrive_def run_steps.simps net1)
  then show ?thesis using s2(1) by (auto simp: reply_call_def)
qed

lemma queued_seen:
  assumes "queued a as s" and "transport_up (st_world st)"
  shows "seen_world (st\<lparr>st_sched := s\<rparr>) = st_world st"
  using seen_world_up [of "st\<lparr>st_sched := s\<rparr>"] queued_fields(1) [OF assms(1)] assms(2) by simp

text \<open>Chunks that do not complete the reply only fill the buffer.\<close>

lemma chunks_buffered:
  assumes "complete_message d" and "buf @ concat cs @ c = d" and "c \<noteq> []"
    and "queued a as (st_sched st)" and "reading buf a r st"
    and "transport_up (st_world st)" and "outstanding (st_world st) = []"
  shows "\<exists>s f. run_steps (stack_step env cl net) st (concat (map arrive cs)) =
      st\<lparr>st_sched := s, st_requests := f\<rparr> \<and> queued a as s \<and>
    reading (buf @ concat cs) a r (st\<lparr>st_sched := s, st_requests := f\<rparr>) \<and>
    (\<forall>i. i \<noteq> er_id a \<longrightarrow> f i = st_requests st i)"
  using assms(2,4-7)
proof (induction cs arbitrary: buf st)
  case Nil
  then show ?case by (intro exI [of _ "st_sched st"] exI [of _ "st_requests st"]) simp
next
  case (Cons b cs)
  obtain s where s: "queued a as s" "run_steps (stack_step env cl net) st (arrive b) =
      on_request env cl net (er_id a) (Response (to_errc boost_ok) (length b) b) (st\<lparr>st_sched := s\<rparr>)"
    using bytes_reach_request [OF Cons.prems(2)] by blast
  have "length (buf @ b) < length d" using arg_cong [OF Cons.prems(1), of length] assms(3)
    by (cases c) simp_all
  moreover have "buf @ b = take (length (buf @ b)) d"
    unfolding Cons.prems(1) [symmetric] by simp
  ultimately have "next_partial_response (env_host env) (buf @ b) = 0"
    using stream.whole_prefix_free [OF assms(1)] by metis
  moreover have "reading buf a r (st\<lparr>st_sched := s\<rparr>)" using Cons.prems(3) by (simp add: reading_def)
  moreover have "seen_world (st\<lparr>st_sched := s\<rparr>) = st_world (st\<lparr>st_sched := s\<rparr>)"
    using queued_seen [OF s(1) Cons.prems(4)] by simp
  ultimately obtain t where t: "on_request env cl net (er_id a) (Response (to_errc boost_ok) (length b) b)
        (st\<lparr>st_sched := s\<rparr>) =
      st\<lparr>st_sched := s, st_requests := (st_requests st)(er_id a \<mapsto> (r, t))\<rparr>"
      "waits_with (buf @ b) (st_world st) t"
    using on_request_chunk [of buf a r "st\<lparr>st_sched := s\<rparr>" env b cl net] Cons.prems(5) by auto
  define st1 where "st1 = st\<lparr>st_sched := s, st_requests := (st_requests st)(er_id a \<mapsto> (r, t))\<rparr>"
  have "reading (buf @ b) a r st1" using t(2) by (auto simp: reading_def st1_def)
  moreover have "queued a as (st_sched st1)" "transport_up (st_world st1)" "outstanding (st_world st1) = []"
    using s(1) Cons.prems by (simp_all add: st1_def)
  ultimately obtain u f where u: "run_steps (stack_step env cl net) st1 (concat (map arrive cs)) =
      st1\<lparr>st_sched := u, st_requests := f\<rparr>" "queued a as u"
      "reading ((buf @ b) @ concat cs) a r (st1\<lparr>st_sched := u, st_requests := f\<rparr>)"
      "\<forall>i. i \<noteq> er_id a \<longrightarrow> f i = st_requests st1 i"
    using Cons.IH [of "buf @ b" st1] Cons.prems(1) by auto
  have "run_steps (stack_step env cl net) st (concat (map arrive (b # cs))) =
      st1\<lparr>st_sched := u, st_requests := f\<rparr>"
    by (simp add: run_steps_append s(2) t(1) u(1) [unfolded st1_def] st1_def)
  then show ?case using u(2-4) by (intro exI [of _ u] exI [of _ f]) (simp add: st1_def)
qed

lemma last_chunk_in_order:
  assumes q: "queued a as (st_sched st)" and a: "reading buf a r st" and as: "list_all2 (holds st) as rs"
    and ok: "st_faults st = []" "transport_up (st_world st)" and net: "eager net"
    and d: "complete_message d" "buf @ c = d"
    and h: "run_handler env cl (wr_handler r) std_no_error (length d) d (st_world st) = (w', Inr True)"
    and up: "transport_up w'"
  shows "in_order (rs @ outstanding w') (run_steps (stack_step env cl net) st (arrive c @ two_tasks)) \<and>
    st_world (run_steps (stack_step env cl net) st (arrive c @ two_tasks)) = w'\<lparr>outstanding := []\<rparr>"
proof -
  obtain s where s: "queued a as s" "run_steps (stack_step env cl net) st (arrive c) =
      on_request env cl net (er_id a) (Response (to_errc boost_ok) (length c) c) (st\<lparr>st_sched := s\<rparr>)"
    using bytes_reach_request [OF q] by blast
  have "reading buf a r (st\<lparr>st_sched := s\<rparr>)" using a by (simp add: reading_def)
  from on_request_whole [OF this queued_seen [OF s(1) ok(2)] d h, of net] obtain t' where
    t': "run_steps (stack_step env cl net) st (arrive c) =
      react env cl net (er_id a) Option_destroyed (react env cl net (er_id a) (Terminated False)
        (flush env cl net (st\<lparr>st_sched := s, st_world := w',
           st_requests := (st_requests st)(er_id a \<mapsto> (r, t'))\<rparr>)))"
    using s(2) by auto
  define st1 where "st1 = st\<lparr>st_sched := s, st_world := w',
      st_requests := (st_requests st)(er_id a \<mapsto> (r, t'))\<rparr>"
  have st1: "queued a as (st_sched st1)" "st_faults st1 = []" "st_world st1 = w'"
    using s(1) ok(1) by (simp_all add: st1_def)
  have hold: "list_all2 (holds st1) as rs"
    by (rule others_hold [OF q as]) (simp add: st1_def)
  have "\<exists>new. queued a (as @ new) (st_sched (flush env cl net st1))"
    using flush_queued [of a as as rs st1 env cl net] st1(1) hold settled_below [OF st1(1)]
    by (auto simp: queued_with_def)
  then have "run_steps (stack_step env cl net) st (arrive c) =
      (flush env cl net st1)\<lparr>st_sched := closing net a (st_sched (flush env cl net st1))\<rparr>"
    unfolding t' st1_def [symmetric] using closing_react by blast
  from end_in_order [OF st1(1) hold st1(2) _ net this] up st1(3) show ?thesis
    by (simp add: run_steps_append)
qed

text \<open>The reply \<open>d\<close> to the oldest request arrives in the chunks \<open>cs\<close>.\<close>

definition chunks_of :: "bytes \<Rightarrow> bytes list \<Rightarrow> bool" where
  "chunks_of d cs \<longleftrightarrow> concat cs = d \<and> cs \<noteq> [] \<and> last cs \<noteq> []"

lemma serve_in_order:
  assumes ord: "in_order (r # rs) st" and net: "eager net" and d: "complete_message d" "chunks_of d cs"
    and h: "run_handler env cl (wr_handler r) std_no_error (length d) d (st_world st) = (w', Inr True)"
    and up: "transport_up w'"
  shows "in_order (rs @ outstanding w') (run_steps (stack_step env cl net) st (serve_stack cs)) \<and>
    st_world (run_steps (stack_step env cl net) st (serve_stack cs)) = w'\<lparr>outstanding := []\<rparr>"
proof -
  obtain qs where qs: "settled qs (st_sched st)" "list_all2 (holds st) qs (r # rs)"
    using ord by (auto simp: in_order_def)
  then obtain a as where "qs = a # as" by (cases qs) auto
  with qs have q: "queued a as (st_sched st)" and a: "holds st a r" and as: "list_all2 (holds st) as rs"
    by (simp_all add: settled_def)
  have ok: "st_faults st = []" "transport_up (st_world st)" "outstanding (st_world st) = []"
    using ord by (simp_all add: in_order_def)
  obtain bs c where cs: "cs = bs @ [c]" "c \<noteq> []" "concat bs @ c = d"
    using d(2) by (cases cs rule: rev_cases) (auto simp: chunks_of_def)
  obtain s f where s: "run_steps (stack_step env cl net) st (concat (map arrive bs)) =
      st\<lparr>st_sched := s, st_requests := f\<rparr>" "queued a as s"
      "reading (concat bs) a r (st\<lparr>st_sched := s, st_requests := f\<rparr>)"
      "\<And>i. i \<noteq> er_id a \<Longrightarrow> f i = st_requests st i"
    using chunks_buffered [OF d(1) _ cs(2) q holds_reading [OF a] ok(2,3), of bs env cl net] cs(3) by auto
  have "list_all2 (holds (st\<lparr>st_sched := s, st_requests := f\<rparr>)) as rs"
    by (rule others_hold [OF q as]) (simp add: s(4))
  from last_chunk_in_order [OF _ s(3) this _ _ net d(1) cs(3) _ up, of env cl] s(2) ok h
  have "in_order (rs @ outstanding w') (run_steps (stack_step env cl net)
      (st\<lparr>st_sched := s, st_requests := f\<rparr>) (arrive c @ two_tasks)) \<and>
    st_world (run_steps (stack_step env cl net)
      (st\<lparr>st_sched := s, st_requests := f\<rparr>) (arrive c @ two_tasks)) = w'\<lparr>outstanding := []\<rparr>"
    by (simp del: run_steps.simps)
  moreover have "serve_stack cs = concat (map arrive bs) @ (arrive c @ two_tasks)"
    by (simp add: serve_stack_def cs(1))
  ultimately show ?thesis by (simp only: run_steps_append [of _ _ "concat (map arrive bs)"] s(1))
qed

subsection \<open>A silence\<close>

text \<open>The timer of request \<open>i\<close> expires, and the two tasks that remain run.\<close>

definition silence :: "nat \<Rightarrow> stack_input list" where
  "silence i = Timer i (Timeout_now 0) # two_tasks"

lemma silence_in_order:
  assumes ord: "in_order (r # rs) st" and net: "eager net"
    and h: "run_handler env cl (wr_handler r) (make_error_code response_timeout) 0 [] (st_world st) =
      (w', Inr True)"
    and up: "transport_up w'"
  shows "\<exists>a. sc_active (st_sched st) = Some a \<and>
    in_order (rs @ outstanding w') (run_steps (stack_step env cl net) st (silence (er_id a))) \<and>
    st_world (run_steps (stack_step env cl net) st (silence (er_id a))) = w'\<lparr>outstanding := []\<rparr>"
proof -
  obtain qs where qs: "settled qs (st_sched st)" "list_all2 (holds st) qs (r # rs)"
    using ord by (auto simp: in_order_def)
  then obtain a as where "qs = a # as" by (cases qs) auto
  with qs have q: "queued a as (st_sched st)" and a: "holds st a r" and as: "list_all2 (holds st) as rs"
    by (simp_all add: settled_def)
  have ok: "st_faults st = []" "transport_up (st_world st)" using ord by (simp_all add: in_order_def)
  have "seen_world st = st_world st" by (rule seen_world_up [OF queued_fields(1) [OF q] ok(2)])
  from on_request_timeout [OF a this h, of net] obtain t' where
    t': "on_request env cl net (er_id a) (Timeout_now 0) st = react env cl net (er_id a) Option_destroyed
      (flush env cl net (st\<lparr>st_world := w', st_requests := (st_requests st)(er_id a \<mapsto> (r, t'))\<rparr>))"
    by blast
  define st1 where "st1 = st\<lparr>st_world := w', st_requests := (st_requests st)(er_id a \<mapsto> (r, t'))\<rparr>"
  have st1: "queued a as (st_sched st1)" "st_faults st1 = []" "st_world st1 = w'"
    using q ok(1) by (simp_all add: st1_def)
  have hold: "list_all2 (holds st1) as rs"
    by (rule others_hold [OF q as]) (simp add: st1_def)
  have "\<exists>new. queued a (as @ new) (st_sched (flush env cl net st1))"
    using flush_queued [of a as as rs st1 env cl net] st1(1) hold settled_below [OF st1(1)]
    by (auto simp: queued_with_def)
  then have "stack_step env cl net st (Timer (er_id a) (Timeout_now 0)) =
      (flush env cl net st1)\<lparr>st_sched := closing net a (st_sched (flush env cl net st1))\<rparr>"
    unfolding stack_step.simps t' st1_def [symmetric] using dropping_react by blast
  from end_in_order [OF st1(1) hold st1(2) _ net this] up st1(3) queued_fields(3) [OF q] show ?thesis
    by (simp add: silence_def del: stack_step.simps)
qed

subsection \<open>Calls of the application\<close>

lemma one_request:
  "dispatch env q t handler w = (w', Inr u) \<Longrightarrow> \<exists>r. outstanding w' = outstanding w @ [r]"
  by (auto simp: dispatch_def Let_def split: sum.splits if_splits)

lemma outstanding_log [simp]: "outstanding (log_line ctx sev parts w) = outstanding w"
  by (simp add: log_line_emit)

lemma call_one_request:
  "get_object env cl b k h w = (w', Inr u) \<Longrightarrow> \<exists>r. outstanding w' = outstanding w @ [r]"
  "delete_object env cl b k h w = (w', Inr u) \<Longrightarrow> \<exists>r. outstanding w' = outstanding w @ [r]"
  "run_updater env up c h w = (w', Inr u) \<Longrightarrow> \<exists>r. outstanding w' = outstanding w @ [r]"
  by (auto simp: get_object_def run_get_request_def delete_object_def run_updater_def
      put_with_vclock_def send_put_request_def draw_context_eq Let_def
      split: if_splits value_updater.splits sum.splits option.splits dest!: one_request)

lemma send_idle:
  assumes "settled [] (st_sched st)" and "eager net"
  shows "\<exists>q s. st_sched (send env cl net r st) = s \<and> holds (send env cl net r st) q r \<and>
    st_world (send env cl net r st) = st_world st \<and> st_faults (send env cl net r st) = st_faults st \<and>
    (\<exists>u. sched_step net s (Run_task 0) = (u, None) \<and> sc_trace u = sc_trace s @ [Began_read (er_id q)] \<and>
      settled [q] u)"
proof -
  let ?s = "st_sched st" and ?i = "sc_next_id (st_sched st)"
  define q where "q = \<lparr>er_id = ?i, er_data = wr_data r\<rparr>"
  obtain s where d: "deliver net (wr_data r) ?s = (s, Inr ?i)"
    and s: "sc_active s = Some q" "sc_pending s = []" "sc_operations s = []"
      "sc_ready s = [On_write ?i boost_ok]" "\<not> sc_shutting_down s" "sc_options s ?i = Some q"
      "\<not> sc_exercised s ?i"
    using assms by (simp add: settled_def eager_def deliver_def run_next_request_def
        start_write_def q_def Let_def)
  have inv: "sched_inv s" using deliver_inv [of ?s net "wr_data r"] d assms(1) by (simp add: settled_def)
  define u where "u = start_read ?i (s\<lparr>sc_ready := []\<rparr>)"
  have u: "sched_step net s (Run_task 0) = (u, None)"
    using s by (simp add: u_def run_task_def on_write_def is_active_def drop_nth_def q_def)
  have "settled [q] u"
    using s inv by (simp add: settled_def queued_def u_def start_read_fields q_def)
  moreover have "sc_trace u = sc_trace s @ [Began_read (er_id q)]"
    by (simp add: u_def start_read_fields q_def)
  moreover obtain t where t: "start_request env cl (\<lambda>_. None) r (st_world st) = (t, None)"
      "waits_with [] (st_world st) t" "tr_waits t = [Pending]"
    using start_request_waits [of "\<lambda>_. None" r env cl "st_world st"] by auto
  then have "send env cl net r st = st\<lparr>st_sched := s, st_requests := (st_requests st)(?i \<mapsto> (r, t))\<rparr>"
    using d by (simp add: send_def)
  moreover have "holds (st\<lparr>st_sched := s, st_requests := (st_requests st)(?i \<mapsto> (r, t))\<rparr>) q r"
    using t(2,3) by (auto simp: holds_def q_def)
  ultimately show ?thesis using u by (intro exI [of _ q] exI [of _ s]) auto
qed

text \<open>A call that succeeds adds its request at the end of the queue.\<close>

lemma call_in_order:
  assumes ord: "in_order rs st" and net: "eager net" and up: "transport_up w'"
    and out: "outstanding w' = [r]"
    and call: "\<And>st. stack_step env cl net st c = on_call env cl net (f (seen_world st)) st"
    and f: "f (st_world st) = (w', Inr ())"
  shows "in_order (rs @ [r]) (run_steps (stack_step env cl net) st [c, Network (Run_task 0)]) \<and>
    st_world (run_steps (stack_step env cl net) st [c, Network (Run_task 0)]) = w'\<lparr>outstanding := []\<rparr>"
proof -
  obtain qs where qs: "settled qs (st_sched st)" "list_all2 (holds st) qs rs"
    and ok: "st_faults st = []" "transport_up (st_world st)"
    using ord by (auto simp: in_order_def)
  have "\<not> sc_shutting_down (st_sched st)"
    using qs(1) by (cases qs) (simp_all add: settled_def queued_def)
  then have seen: "seen_world st = st_world st" using ok(2) by (rule seen_world_up)
  define st0 where "st0 = st\<lparr>st_world := w'\<rparr>"
  define st1 where "st1 = flush env cl net st0"
  have step: "stack_step env cl net st c = st1"
    using call [of st] f seen by (simp add: on_call_def add_fault_def st1_def st0_def)
  have "holds st0 = holds st" by (simp add: holds_def st0_def fun_eq_iff)
  with qs(2) have qs0: "list_all2 (holds st0) qs rs" by simp
  show ?thesis
  proof (cases qs)
    case Nil
    let ?st = "st\<lparr>st_world := w'\<lparr>outstanding := []\<rparr>\<rparr>"
    have st1: "st1 = send env cl net r ?st"
      by (simp add: st1_def st0_def flush_def out)
    have "settled [] (st_sched ?st)" using qs(1) Nil by simp
    from send_idle [OF this net, of env cl r] obtain q u where
      q: "holds st1 q r" "st_world st1 = w'\<lparr>outstanding := []\<rparr>" "st_faults st1 = []"
        "sched_step net (st_sched st1) (Run_task 0) = (u, None)"
        "sc_trace u = sc_trace (st_sched st1) @ [Began_read (er_id q)]" "settled [q] u"
      using ok(1) unfolding st1 by auto
    have run: "run_steps (stack_step env cl net) st [c, Network (Run_task 0)] = st1\<lparr>st_sched := u\<rparr>"
      using network_quiet [OF q(4,5), of env cl] step by (simp del: stack_step.simps)
    have "in_order [r] (st1\<lparr>st_sched := u\<rparr>)"
      unfolding in_order_def using q up by (auto intro!: exI [of _ "[q]"])
    then show ?thesis using run q(2) qs(2) Nil by simp
  next
    case (Cons a as)
    then have "queued a as (st_sched st0)" using qs(1) by (simp add: settled_def st0_def)
    then have "queued_with a as (a # as) rs st0"
      using qs0 Cons settled_below [of a as "st_sched st0"] by (simp add: queued_with_def)
    from flush_queued [OF this, of env cl net] obtain new where
      f: "queued_with a (as @ new) ((a # as) @ new) (rs @ [r]) st1"
        "st_world st1 = w'\<lparr>outstanding := []\<rparr>" "st_faults st1 = []"
      using ok(1) by (auto simp: st1_def [symmetric]) (auto simp: st0_def out)
    then have "sc_ready (st_sched st1) = []" by (simp add: queued_with_def queued_def)
    then have "sched_step net (st_sched st1) (Run_task 0) = (st_sched st1, None)" by simp
    from network_quiet [OF this, of "[]" env cl]
    have run: "run_steps (stack_step env cl net) st [c, Network (Run_task 0)] = st1"
      using step by (simp del: stack_step.simps)
    have "settled (a # as @ new) (st_sched st1)" using f(1) by (simp add: queued_with_def settled_def)
    then have "in_order (rs @ [r]) st1"
      using f up unfolding in_order_def queued_with_def by auto
    with run f(2) show ?thesis by simp
  qed
qed

subsection \<open>Refinement of the client system\<close>

text \<open>
  What an event of the client system is in the stack. A call is the member function and the task
  that may then be queued; a reply is its chunks from the network and the tasks that they lead
  to; an error is the silence of the active request. The list holds the chunks of a reply.
\<close>

definition active_id :: "stack \<Rightarrow> nat" where
  "active_id st = (case sc_active (st_sched st) of None \<Rightarrow> 0 | Some a \<Rightarrow> er_id a)"

fun enact :: "stack \<Rightarrow> client_event \<times> bytes list \<Rightarrow> stack_input list" where
  "enact st (App_get b k h, cs) = [Get b k h, Network (Run_task 0)]"
| "enact st (App_delete b k h, cs) = [Delete b k h, Network (Run_task 0)]"
| "enact st (App_put u c h, cs) = [Store u c h, Network (Run_task 0)]"
| "enact st (Reply i e n d, cs) =
     (if is_error e then silence (active_id st) else serve_stack cs)"

definition stack_next ::
  "environment \<Rightarrow> client \<Rightarrow> network \<Rightarrow> stack \<Rightarrow> client_event \<times> bytes list \<Rightarrow> stack" where
  "stack_next env cl net st x = run_steps (stack_step env cl net) st (enact st x)"

fun chunked :: "client_event \<times> bytes list \<Rightarrow> bool" where
  "chunked (Reply i e n d, cs) \<longleftrightarrow> is_error e \<or> chunks_of d cs"
| "chunked _ \<longleftrightarrow> True"

text \<open>
  Calls meet their preconditions; the oldest request gets a whole reply or none within its time.
\<close>

fun orderly :: "world \<times> app_handler list \<Rightarrow> client_event \<Rightarrow> bool" where
  "orderly cs (App_get b k h) \<longleftrightarrow> b \<noteq> [] \<and> k \<noteq> []"
| "orderly cs (App_delete b k h) \<longleftrightarrow> b \<noteq> [] \<and> k \<noteq> []"
| "orderly cs (App_put u c h) \<longleftrightarrow> u \<noteq> No_value_updater \<and> c \<noteq> None"
| "orderly cs (Reply i e n d) \<longleftrightarrow> outstanding (fst cs) \<noteq> [] \<and> i = 0 \<and>
     (e = make_error_code response_timeout \<and> n = 0 \<and> d = [] \<or>
      e = std_no_error \<and> n = length d \<and> complete_message d \<and> 5 \<le> length d)"

text \<open>The stack holds, in order, the requests that are outstanding in the client system.\<close>

definition mirrors :: "world \<Rightarrow> stack \<Rightarrow> bool" where
  "mirrors w st \<longleftrightarrow> in_order (outstanding w) st \<and> st_world st = w\<lparr>outstanding := []\<rparr>"

lemma mirrors_shift: "mirrors w st \<Longrightarrow> w = shift (outstanding w) (st_world st)"
  by (simp add: mirrors_def shift_def)

lemma mirrors_up: "mirrors w st \<Longrightarrow> transport_up (st_world st)"
  unfolding mirrors_def in_order_def by blast

lemma get_object_up:
  assumes "b \<noteq> []" and "k \<noteq> []" and "transport_up w"
  shows "\<exists>w'. get_object env cl b k h w = (w', Inr ())"
  using assms by (auto simp: get_object_def draw_context_eq Let_def intro!: run_get_request_up)

lemma delete_object_up:
  assumes "b \<noteq> []" and "k \<noteq> []" and "transport_up w"
  shows "\<exists>w'. delete_object env cl b k h w = (w', Inr ())"
  using assms by (auto simp: delete_object_def draw_context_eq Let_def intro!: dispatch_up)

lemma run_updater_up:
  assumes "u \<noteq> No_value_updater" and "c \<noteq> None" and "transport_up w"
  shows "\<exists>w'. run_updater env u c h w = (w', Inr ())"
  using assms
  by (cases u) (auto simp: run_updater_def put_with_vclock_def basic_put_request_for_def
      send_put_request_def Let_def intro!: dispatch_up split: option.split)

lemma call_mirrors:
  assumes m: "mirrors w st" and net: "eager net"
    and call: "\<And>st. stack_step env cl net st c = on_call env cl net (f (seen_world st)) st"
    and shifts: "\<And>rs v. f (shift rs v) = map_prod (shift rs) id (f v)"
    and up: "\<And>v. transport_up v \<Longrightarrow> \<exists>v'. f v = (v', Inr ())"
    and one: "\<And>v v'. f v = (v', Inr ()) \<Longrightarrow> \<exists>r. outstanding v' = outstanding v @ [r]"
    and gains: "\<And>v v'. f v = (v', Inr ()) \<Longrightarrow> gains h v v'"
  shows "\<exists>w'. f w = (w', Inr ()) \<and>
    mirrors w' (run_steps (stack_step env cl net) st [c, Network (Run_task 0)])"
proof -
  obtain v' where v': "f (st_world st) = (v', Inr ())" using up [OF mirrors_up [OF m]] by blast
  have ord: "in_order (outstanding w) st" using m by (simp add: mirrors_def)
  then have "outstanding (st_world st) = []" by (simp add: in_order_def)
  with one [OF v'] obtain r where r: "outstanding v' = [r]" by auto
  have "transport_up v'" using gains [OF v'] mirrors_up [OF m] by (simp add: gains_def)
  from call_in_order [where f = f, OF ord net this r call v'] r
  have "mirrors (shift (outstanding w) v') (run_steps (stack_step env cl net) st [c, Network (Run_task 0)])"
    by (simp add: mirrors_def del: run_steps.simps)
  moreover have "f w = (shift (outstanding w) v', Inr ())"
    using shifts [of "outstanding w" "st_world st"] mirrors_shift [OF m] v' by simp
  ultimately show ?thesis by blast
qed

lemma error_of_timeout [simp]: "is_error (make_error_code response_timeout)"
  by (simp add: make_error_code_def is_error_def)

lemma error_of_none [simp]: "\<not> is_error std_no_error"
  by (simp add: std_no_error_def is_error_def)

lemma reply_mirrors:
  assumes m: "mirrors w st" and net: "eager net" and rs: "outstanding w = r # rs"
    and ok: "orderly (w, issued) (Reply i e n d)" and cs: "chunked (Reply i e n d, cs)"
    and ind: "length (ind_length (env_indeterminate env)) = 4"
  shows "\<exists>w'. run_handler env cl (wr_handler r) e n d (w\<lparr>outstanding := rs\<rparr>) = (w', Inr True) \<and>
    mirrors w' (stack_next env cl net st (Reply i e n d, cs))"
proof -
  have ord: "in_order (r # rs) st" using m rs by (simp add: mirrors_def)
  have "sound_reply e n d" using ok by (auto simp: sound_reply_def)
  from run_handler_sound [OF this ind mirrors_up [OF m], of cl "wr_handler r"] obtain v' where
    v': "run_handler env cl (wr_handler r) e n d (st_world st) = (v', Inr True)"
    by blast
  then have up: "transport_up v'" using run_handler_gains mirrors_up [OF m] by (fastforce simp: gains_def)
  have "mirrors (shift rs v') (stack_next env cl net st (Reply i e n d, cs))"
  proof (cases "is_error e")
    case True
    with ok have "e = make_error_code response_timeout" "n = 0" "d = []" by auto
    with silence_in_order [OF ord net _ up, of env cl] v' show ?thesis
      by (auto simp: mirrors_def stack_next_def active_id_def)
  next
    case False
    with ok have "e = std_no_error" "n = length d" "complete_message d" by auto
    with serve_in_order [OF ord net _ _ _ up, of d cs env cl] v' cs False show ?thesis
      by (simp add: mirrors_def stack_next_def)
  qed
  moreover have "w\<lparr>outstanding := rs\<rparr> = shift rs (st_world st)"
    using m by (simp add: mirrors_def shift_def)
  ultimately show ?thesis using v' by (simp add: run_handler_shift)
qed

text \<open>
  One event of the client system is simulated by what enacts it, and a call is accepted.
\<close>

fun caller :: "client_event \<Rightarrow> app_handler list" where
  "caller (App_get b k h) = [h]"
| "caller (App_delete b k h) = [h]"
| "caller (App_put u c h) = [h]"
| "caller (Reply i e n d) = []"

lemma enact_mirrors:
  assumes m: "mirrors w st" and net: "eager net" and ok: "orderly (w, issued) ev" "chunked (ev, cs)"
    and ind: "length (ind_length (env_indeterminate env)) = 4"
    and step: "client_step env cl (w, issued) ev = (w', issued')"
  shows "mirrors w' (stack_next env cl net st (ev, cs)) \<and> issued' = issued @ caller ev"
proof (cases ev)
  case (App_get b k h)
  have "\<exists>w'. get_object env cl b k h w = (w', Inr ()) \<and>
      mirrors w' (run_steps (stack_step env cl net) st [Get b k h, Network (Run_task 0)])"
    by (rule call_mirrors [where h = h, OF m net])
      (use ok App_get in \<open>auto intro: get_object_up get_object_shift call_one_request(1) get_object_gains\<close>)
  then show ?thesis using step App_get
    by (auto simp: accept_call_def stack_next_def simp del: run_steps.simps)
next
  case (App_delete b k h)
  have "\<exists>w'. delete_object env cl b k h w = (w', Inr ()) \<and>
      mirrors w' (run_steps (stack_step env cl net) st [Delete b k h, Network (Run_task 0)])"
    by (rule call_mirrors [where h = h, OF m net])
      (use ok App_delete in \<open>auto intro: delete_object_up delete_object_shift call_one_request(2) delete_object_gains\<close>)
  then show ?thesis using step App_delete
    by (auto simp: accept_call_def stack_next_def simp del: run_steps.simps)
next
  case (App_put u c h)
  have "\<exists>w'. run_updater env u c h w = (w', Inr ()) \<and>
      mirrors w' (run_steps (stack_step env cl net) st [Store u c h, Network (Run_task 0)])"
    by (rule call_mirrors [where h = h, OF m net])
      (use ok App_put in \<open>auto intro: run_updater_up run_updater_shift call_one_request(3) run_updater_gains\<close>)
  then show ?thesis using step App_put
    by (auto simp: accept_call_def stack_next_def simp del: run_steps.simps)
next
  case (Reply i e n d)
  with ok obtain r rs where rs: "outstanding w = r # rs" by (cases "outstanding w") auto
  have "i = 0" using ok(1) Reply by simp
  with reply_mirrors [OF m net rs _ _ ind, of issued i e n d cs cl] ok Reply step rs
  show ?thesis by (auto simp del: orderly.simps chunked.simps)
qed

lemma enact_run:
  assumes "eager net" and "length (ind_length (env_indeterminate env)) = 4"
  shows "mirrors w st \<Longrightarrow> allowed_run (client_step env cl) orderly (w, issued) (map fst xs) \<Longrightarrow>
    list_all chunked xs \<Longrightarrow>
    mirrors (fst (run_steps (client_step env cl) (w, issued) (map fst xs)))
      (run_steps (stack_next env cl net) st xs) \<and>
    snd (run_steps (client_step env cl) (w, issued) (map fst xs)) =
      issued @ concat (map (\<lambda>x. caller (fst x)) xs)"
proof (induction xs arbitrary: w issued st)
  case (Cons x xs)
  obtain w' issued' where s: "client_step env cl (w, issued) (fst x) = (w', issued')" by fastforce
  have "mirrors w' (stack_next env cl net st x) \<and> issued' = issued @ caller (fst x)"
    using enact_mirrors [OF Cons.prems(1) assms(1) _ _ assms(2) s, of "snd x"] Cons.prems(2,3) by simp
  with Cons.IH [of w' "stack_next env cl net st x" issued'] Cons.prems(2,3) s
  show ?case by simp
qed simp

text \<open>A stack whose socket has connected mirrors a client without requests.\<close>

lemma connect_loop_idle:
  "sc_operations s = [] \<Longrightarrow> sc_ready s = [] \<Longrightarrow>
   sc_operations (fst (connect_loop net eps e s)) = [] \<and> sc_ready (fst (connect_loop net eps e s)) = []"
  by (induction net eps e s rule: connect_loop.induct)
    (simp_all add: socket_close_def abort_operations_def Let_def)

lemma make_scheduler_settled: "settled [] (fst (make_scheduler net))"
proof -
  let ?s = "\<lparr>sc_pending = [], sc_active = None, sc_shutting_down = False, sc_next_id = 0,
      sc_options = (\<lambda>_. None), sc_exercised = (\<lambda>_. False), sc_operations = [], sc_ready = [],
      sc_trace = [], sc_resolutions = 0, sc_attempts = 0, sc_phase = Running,
      sc_finished_notified = False\<rparr>"
  obtain t f where t: "make_scheduler net = (t, f)" by force
  then have "same_core ?s t" unfolding make_scheduler_def by (rule connect_socket_core)
  moreover have "sc_operations t = [] \<and> sc_ready t = []"
    using t connect_loop_idle [of "?s\<lparr>sc_resolutions := 1\<rparr>" net "nw_resolve net 0" host_not_found]
    by (auto simp: make_scheduler_def connect_socket_def split: prod.splits if_splits)
  ultimately show ?thesis
    using t make_scheduler_inv [of net] by (auto simp: settled_def dest: same_coreD)
qed

lemma make_stack_mirrors: "mirrors (st_world (make_stack net)) (make_stack net)"
  using make_scheduler_settled [of net]
  by (auto simp: mirrors_def in_order_def make_stack_def intro!: exI [of _ "[]"])

text \<open>The requests of the scheduler, and those of them that end with handler \<open>h\<close>.\<close>

definition queue :: "scheduler \<Rightarrow> enqueued_request list" where
  "queue s = (case sc_active s of None \<Rightarrow> [] | Some a \<Rightarrow> [a]) @ sc_pending s"

definition waits_for :: "app_handler \<Rightarrow> stack \<Rightarrow> enqueued_request \<Rightarrow> bool" where
  "waits_for h st q \<longleftrightarrow> (case st_requests st (er_id q) of
     None \<Rightarrow> False | Some (r, t) \<Rightarrow> handler_app (wr_handler r) = h)"

lemma settled_queue: "settled qs s \<Longrightarrow> queue s = qs"
  by (cases qs) (simp_all add: settled_def queue_def queued_def)

lemma waiting_queue:
  "list_all2 (holds st) qs rs \<Longrightarrow>
   length (filter (waits_for h st) qs) = length (filter (\<lambda>r. handler_app (wr_handler r) = h) rs)"
  by (induction rule: list_all2_induct) (auto simp: holds_def waits_for_def)

lemma mirrors_waiting:
  assumes "mirrors w st"
  shows "length (filter (waits_for h st) (queue (st_sched st))) = waiting h w"
  using assms by (auto simp: mirrors_def in_order_def waiting_def settled_queue waiting_queue)

lemma mirrors_answers: "mirrors w st \<Longrightarrow> answers h (st_world st) = answers h w"
  by (simp add: mirrors_def answers_def)

lemma orderly_sound: "orderly cs ev \<Longrightarrow> sound_event ev"
  by (cases ev) (auto simp: sound_reply_def)

lemma orderly_accounted:
  assumes "allowed_run (client_step env cl) orderly (st_world (make_stack net), []) evs"
    and "length (ind_length (env_indeterminate env)) = 4"
  shows "accounted (run_steps (client_step env cl) (st_world (make_stack net), []) evs)"
proof (rule client_system.run_inv)
  show "accounted (st_world (make_stack net), [])"
    by (simp add: accounted_def make_stack_def credit_def answers_def waiting_def)
  show "allowed_run (client_step env cl)
      (\<lambda>_ ev. sound_event ev \<and> length (ind_length (env_indeterminate env)) = 4)
      (st_world (make_stack net), []) evs"
    by (rule allowed_run_mono [OF assms(1)]) (simp add: assms(2) orderly_sound)
qed

end
