(* ===== verification/Stack_Properties.thy ===== *)
theory Stack_Properties
  imports Stack
begin

text \<open>Properties of the whole stack of \<open>Stack\<close>, and their witnesses.\<close>

text \<open>
  Two fetches; the first meets siblings and stores their resolution behind the second. The reply
  to the second comes in two chunks, and a third fetch gets none in time.
\<close>

definition demo_events :: "(client_event \<times> bytes list) list" where
  "demo_events = [(App_get [1] [2] 7, []), (App_get [3] [4] 8, []),
     (Reply 0 std_no_error 7 (reply_get 2 5), [reply_get 2 5]),
     (Reply 0 std_no_error 7 (reply_get 1 5), [[0, 0], [0, 3, 10, 1, 5]]),
     (App_get [5] [6] 9, []),
     (Reply 0 std_no_error 7 (reply_put 1 6), [reply_put 1 6]),
     (Reply 0 (make_error_code response_timeout) 0 [], [])]"

lemma demo_eager [simp]: "eager demo_net"
  by (simp add: eager_def demo_net_def)

lemma demo_stack_world [simp]: "st_world (make_stack net) = demo_world"
  by (simp add: make_stack_def demo_world_def)

lemma demo_retrieve:
  "retrieve_get_resp en (env_indeterminate demo_env) demo_pb 7 (reply_get n v) =
     Inr (demo_parse_get [n, v])"
  "retrieve_put_resp en (env_indeterminate demo_env) demo_pb 7 (reply_put n v) =
     Inr (demo_parse_put [n, v])"
  using retrieve_sound(1) [of "reply_get n v" "env_indeterminate demo_env" en demo_pb]
    retrieve_sound(2) [of "reply_put n v" "env_indeterminate demo_env" en demo_pb]
  by (simp_all del: demo_parse_get.simps demo_parse_put.simps)

lemma demo_events_orderly:
  "allowed_run (client_step demo_env demo_client) orderly (demo_world, []) (map fst demo_events)"
  by (simp add: demo_events_def accept_call_def get_object_def run_get_request_def dispatch_result
      draw_context_eq log_line_emit run_handler_def accept_get_response_def demo_retrieve
      redraw_context_eq resolve_siblings_and_put_def put_resolved_sibling_def send_put_request_def
      basic_put_request_for_def return_successfully_resolved_sibling_or_retry_def
      demo_vclock_def Let_def)

lemma demo_events_chunked: "list_all chunked demo_events"
  by (simp add: demo_events_def chunks_of_def reply_get_def reply_put_def)

lemma demo_callers: "concat (map (\<lambda>x. caller (fst x)) demo_events) = [7, 8, 9]"
  by (simp add: demo_events_def)

text \<open>
  C1: The stack refines the client system. Let the application make calls that meet their
  preconditions, and let the socket, which has connected and whose writes all complete at once
  (\<open>eager\<close>), deliver one whole reply after another, each of a code and a body and so of at least
  five bytes, and cut into chunks in any way, or leave the oldest request without one until its
  timer expires (\<open>orderly\<close>, \<open>chunked\<close>). Then the client behind timeouts and behind the
  single socket logs, sends and answers exactly what it does in the client system in which each
  reply meets the oldest outstanding request: the worlds are equal but for the outstanding
  requests, which the scheduler now holds, in order; and no layer has thrown.
\<close>

theorem stack_refines_client:
  assumes "eager net" and "length (ind_length (env_indeterminate env)) = 4"
    and "allowed_run (client_step env cl) orderly (st_world (make_stack net), []) (map fst xs)"
    and "list_all chunked xs"
    and "run_steps (client_step env cl) (st_world (make_stack net), []) (map fst xs) = (w, issued)"
    and "st = run_steps (stack_next env cl net) (make_stack net) xs"
  shows "st_world st = w\<lparr>outstanding := []\<rparr> \<and> st_faults st = [] \<and>
    list_all2 (holds st) (queue (st_sched st)) (outstanding w)"
proof -
  have "mirrors w st"
    using enact_run [OF assms(1,2) make_stack_mirrors assms(3,4)] assms(5,6) by simp
  then show ?thesis by (auto simp: mirrors_def in_order_def settled_queue)
qed

theorem stack_refines_client_witness:
  "\<exists>w st. st = run_steps (stack_next demo_env demo_client demo_net) (make_stack demo_net) demo_events \<and>
     run_steps (client_step demo_env demo_client) (demo_world, []) (map fst demo_events) = (w, [7, 8, 9]) \<and>
     st_world st = w\<lparr>outstanding := []\<rparr> \<and> st_faults st = []"
proof -
  obtain w issued where w: "run_steps (client_step demo_env demo_client) (demo_world, [])
      (map fst demo_events) = (w, issued)"
    by fastforce
  with stack_refines_client [OF demo_eager _ _ demo_events_chunked _ refl, of demo_env demo_client w issued]
    demo_events_orderly enact_run [OF demo_eager _ make_stack_mirrors _ demo_events_chunked,
      of demo_env demo_client demo_net "[]"]
  show ?thesis by (simp add: demo_callers)
qed

text \<open>
  C2: The stack answers every call once. Under the same conditions (every write completes at
  once, the calls meet their preconditions, and what follows them are whole replies of at least five
  bytes to the oldest request, in any chunks, or its timeouts) every call has been answered, or its
  request is one that the scheduler holds, exactly as often as it was made.
\<close>

theorem stack_answers_every_call:
  assumes "eager net" and "length (ind_length (env_indeterminate env)) = 4"
    and "allowed_run (client_step env cl) orderly (st_world (make_stack net), []) (map fst xs)"
    and "list_all chunked xs"
    and "st = run_steps (stack_next env cl net) (make_stack net) xs"
  shows "answers h (st_world st) + length (filter (waits_for h st) (queue (st_sched st))) =
    count_list (concat (map (\<lambda>x. caller (fst x)) xs)) h"
proof -
  obtain w issued where w:
      "run_steps (client_step env cl) (st_world (make_stack net), []) (map fst xs) = (w, issued)"
    by fastforce
  have m: "mirrors w st" and issued: "issued = concat (map (\<lambda>x. caller (fst x)) xs)"
    using enact_run [OF assms(1,2) make_stack_mirrors assms(3,4)] w assms(5) by simp_all
  have "credit h w = count_list issued h"
    using orderly_accounted [OF assms(3,2)] w by (simp add: accounted_def)
  then show ?thesis
    by (simp add: mirrors_answers [OF m] mirrors_waiting [OF m] credit_def issued)
qed

theorem stack_answers_every_call_witness:
  "answers 7 (st_world (run_steps (stack_next demo_env demo_client demo_net) (make_stack demo_net)
      demo_events)) +
   length (filter (waits_for 7 (run_steps (stack_next demo_env demo_client demo_net)
      (make_stack demo_net) demo_events))
      (queue (st_sched (run_steps (stack_next demo_env demo_client demo_net)
      (make_stack demo_net) demo_events)))) = 1"
  using stack_answers_every_call [OF demo_eager _ _ demo_events_chunked refl, of demo_env demo_client 7]
    demo_events_orderly
  by (simp add: demo_callers)

text \<open>
  C3: A late reply answers the wrong call. Whenever two requests are outstanding and the oldest gets
  no reply in time, its application is told of the timeout; when its reply arrives after all,
  in whatever chunks, it is taken for the reply to the next request. If that is a fetch, then its
  application is told that the first request's object is the value of its own key, with an
  updater that stores at its own key under the first object's vector clock. No layer notices.
\<close>

theorem late_reply_answers_next_call:
  assumes "mirrors w st" and "outstanding w = r # s # rs" and "wr_handler s = Accept_get ctx bk k h"
    and "eager net" and "length (ind_length (env_indeterminate env)) = 4"
    and "complete_message d" and "5 \<le> length d" and "d ! 4 = 10" and "chunks_of d cs"
    and "parse_get_resp (env_pb env) (drop 5 d) = Some resp"
    and "gs_content resp = [obj]" and "gs_vclock resp = Some vc"
    and "t = run_steps (stack_step env cl net) st (silence (active_id st))"
    and "u = run_steps (stack_step env cl net) t (serve_stack cs)"
  shows "\<exists>l a new. events (st_world t) = events (st_world st) @ [Logged l, a] \<and>
    answers_to (handler_app (wr_handler r)) a \<and> reports (make_error_code response_timeout) a \<and>
    last (events (st_world u)) = Answered_get h (make_error_code no_failure) (Some obj)
      (Put_value new bk k (Some vc)) \<and>
    st_faults u = []"
proof -
  let ?late = "Reply 0 (make_error_code response_timeout) 0 []"
  have t: "t = stack_next env cl net st (?late, [])" using assms(13) by (simp add: stack_next_def)
  have u: "u = stack_next env cl net t (Reply 0 std_no_error (length d) d, cs)"
    using assms(14) by (simp add: stack_next_def)
  obtain w1 l a where w1: "run_handler env cl (wr_handler r) (make_error_code response_timeout) 0 []
      (w\<lparr>outstanding := s # rs\<rparr>) = (w1, Inr True)"
    and ans: "events w1 = events w @ [Logged l, a]" "answers_to (handler_app (wr_handler r)) a"
      "reports (make_error_code response_timeout) a" and out: "outstanding w1 = s # rs"
    using run_handler_error [of "make_error_code response_timeout" env cl "wr_handler r" 0 "[]"
        "w\<lparr>outstanding := s # rs\<rparr>"]
    by auto
  have m1: "mirrors w1 t"
    using reply_mirrors [OF assms(1,4,2) _ _ assms(5), of "[]" 0 "make_error_code response_timeout" 0 "[]" "[]" cl]
      w1 t assms(2) by simp
  obtain w2 new where w2: "run_handler env cl (wr_handler s) std_no_error (length d) d
      (w1\<lparr>outstanding := rs\<rparr>) = (w2, Inr True)"
      "last (events w2) = Answered_get h (make_error_code no_failure) (Some obj) (Put_value new bk k (Some vc))"
    using accept_get_single [OF assms(6-8,5,10-12), of cl ctx bk k h "w1\<lparr>outstanding := rs\<rparr>"]
    unfolding assms(3) by blast
  have "mirrors w2 u"
    using reply_mirrors [OF m1 assms(4) out _ _ assms(5), of "[]" 0 std_no_error "length d" d cs cl]
      w2(1) u out assms(6,7,9) by simp
  then have "events (st_world u) = events w2" "st_faults u = []"
    by (auto simp: mirrors_def in_order_def)
  moreover have "events (st_world t) = events w1" "events (st_world st) = events w"
    using m1 assms(1) by (simp_all add: mirrors_def)
  ultimately show ?thesis using ans w2(2) by metis
qed

definition demo_fetches :: "(client_event \<times> bytes list) list" where
  "demo_fetches = [(App_get [1] [2] 7, []), (App_get [3] [4] 8, [])]"

lemma demo_fetches_run:
  "\<exists>w r s. run_steps (client_step demo_env demo_client) (demo_world, []) (map fst demo_fetches) = (w, [7, 8]) \<and>
     outstanding w = [r, s] \<and> handler_app (wr_handler r) = 7 \<and>
     wr_handler s = Accept_get \<lparr>rc_access_overrides = access_override_defaults,
       rc_failure_defaults = failure_defaults, rc_request_id = 1\<rparr> [3] [4] 8"
  by (simp add: demo_fetches_def accept_call_def get_object_def run_get_request_def dispatch_result
      draw_context_eq log_line_emit Let_def)

theorem late_reply_answers_next_call_witness:
  "let st = run_steps (stack_next demo_env demo_client demo_net) (make_stack demo_net) demo_fetches;
       t = run_steps (stack_step demo_env demo_client demo_net) st (silence (active_id st));
       u = run_steps (stack_step demo_env demo_client demo_net) t (serve_stack [[0, 0], [0, 3, 10, 1, 5]])
   in \<exists>l a new. events (st_world t) = events (st_world st) @ [Logged l, a] \<and> answers_to 7 a \<and>
     reports (make_error_code response_timeout) a \<and>
     last (events (st_world u)) = Answered_get 8 (make_error_code no_failure) (Some (demo_object 0))
       (Put_value new [3] [4] (Some [5])) \<and>
     st_faults u = []"
proof -
  let ?st = "run_steps (stack_next demo_env demo_client demo_net) (make_stack demo_net) demo_fetches"
  obtain w r s where w: "run_steps (client_step demo_env demo_client) (demo_world, [])
      (map fst demo_fetches) = (w, [7, 8])" "outstanding w = [r, s]" "handler_app (wr_handler r) = 7"
    and s: "wr_handler s = Accept_get \<lparr>rc_access_overrides = access_override_defaults,
       rc_failure_defaults = failure_defaults, rc_request_id = 1\<rparr> [3] [4] 8"
    using demo_fetches_run by blast
  have "allowed_run (client_step demo_env demo_client) orderly (demo_world, []) (map fst demo_fetches)"
    and "list_all chunked demo_fetches"
    by (auto intro: allowed_runI simp: demo_fetches_def)
  then have m: "mirrors w ?st"
    using enact_run [OF demo_eager _ make_stack_mirrors, of demo_env demo_client demo_net "[]" demo_fetches] w(1)
    by simp
  show ?thesis
    unfolding Let_def w(3) [symmetric]
    by (rule late_reply_answers_next_call [OF m w(2) s demo_eager _ _ _ _ _ _ _ _ refl refl,
          where d = "reply_get 1 5"
          and resp = "\<lparr>gs_content = [demo_object 0], gs_vclock = Some [5], gs_unchanged = None\<rparr>"])
      (simp_all add: chunks_of_def demo_vclock_def, simp_all add: reply_get_def)
qed

end
