(* ===== verification/Bipartite_Matching.thy ===== *)
theory Bipartite_Matching
  imports Prelude
begin

text \<open>
  The search behind \<open>UnorderedElementsAre\<close> in the vendored \<open>gmock/src/gmock-matchers.cc\<close>, by
  which the unit tests compare containers: a connectivity matrix of elements and matchers, a
  depth-first search for augmenting paths, and the loop over the elements. A \<open>vector<size_t>\<close>
  of nodes in which \<open>kUnused\<close> means no node is a partial map; the flags \<open>seen\<close> are a predicate.
  The theory proves that the pairs that come out are a matching of the largest size there is,
  although the loop looks at each element once only.
\<close>

subsection \<open>The connectivity matrix\<close>

text \<open>The flags are flattened, element after element.\<close>

record match_matrix =
  mm_elements :: nat
  mm_matchers :: nat
  mm_matched :: "bool list"

definition make_matrix :: "nat \<Rightarrow> nat \<Rightarrow> match_matrix" where
  "make_matrix num_elements num_matchers =
     \<lparr>mm_elements = num_elements, mm_matchers = num_matchers,
      mm_matched = replicate (num_elements * num_matchers) False\<rparr>"

definition space_index :: "match_matrix \<Rightarrow> nat \<Rightarrow> nat \<Rightarrow> nat" where
  "space_index g ilhs irhs = ilhs * mm_matchers g + irhs"

definition has_edge :: "match_matrix \<Rightarrow> nat \<Rightarrow> nat \<Rightarrow> bool" where
  "has_edge g ilhs irhs = mm_matched g ! space_index g ilhs irhs"

definition set_edge :: "nat \<Rightarrow> nat \<Rightarrow> bool \<Rightarrow> match_matrix \<Rightarrow> match_matrix" where
  "set_edge ilhs irhs b g = g\<lparr>mm_matched := (mm_matched g)[space_index g ilhs irhs := b]\<rparr>"

subsection \<open>The search for an augmenting path\<close>

type_synonym node_map = "nat \<Rightarrow> nat option"

text \<open>
  \<open>try_augment g ilhs irhs seen left right\<close> is the loop of \<open>TryAugment(ilhs, seen)\<close> from its
  counter \<open>irhs\<close> on; the call itself starts at 0.
\<close>

function try_augment ::
  "match_matrix \<Rightarrow> nat \<Rightarrow> nat \<Rightarrow> (nat \<Rightarrow> bool) \<Rightarrow> node_map \<Rightarrow> node_map \<Rightarrow>
   bool \<times> (nat \<Rightarrow> bool) \<times> node_map \<times> node_map"
where
  "try_augment g ilhs irhs seen left right =
     (if irhs < mm_matchers g then
        if seen irhs \<or> \<not> has_edge g ilhs irhs
        then try_augment g ilhs (Suc irhs) seen left right
        else case right irhs of
            None \<Rightarrow> (True, seen(irhs := True), left(ilhs \<mapsto> irhs), right(irhs \<mapsto> ilhs))
          | Some l \<Rightarrow>
              (let (found, seen, left, right) = try_augment g l 0 (seen(irhs := True)) left right
               in if found then (True, seen, left(ilhs \<mapsto> irhs), right(irhs \<mapsto> ilhs))
                  else try_augment g ilhs (Suc irhs) seen left right)
      else (False, seen, left, right))"
  by pat_completeness auto

text \<open>The search never forgets what it has seen, so it runs out of matchers to look at.\<close>

lemma try_augment_seen_dom:
  "try_augment_dom (g, ilhs, irhs, seen, left, right) \<Longrightarrow> seen r \<Longrightarrow>
   fst (snd (try_augment g ilhs irhs seen left right)) r"
proof (induction g ilhs irhs seen left right rule: try_augment.pinduct)
  case (1 g ilhs irhs seen left right)
  note eq = try_augment.psimps [OF 1(1)]
  show ?case
  proof (cases "irhs < mm_matchers g \<and> \<not> (seen irhs \<or> \<not> has_edge g ilhs irhs)")
    case False
    then show ?thesis using 1 by (auto simp: eq)
  next
    case True
    show ?thesis
    proof (cases "right irhs")
      case None
      with True 1(5) show ?thesis by (simp add: eq)
    next
      case (Some l)
      obtain b s lf rt where t: "(b, s, lf, rt) = try_augment g l 0 (seen(irhs := True)) left right"
        by (cases "try_augment g l 0 (seen(irhs := True)) left right") auto
      have "fst (snd (try_augment g l 0 (seen(irhs := True)) left right)) r"
        using True by (intro 1(3) [OF _ _ Some]) (auto simp: 1(5))
      then have "s r" by (simp add: t [symmetric])
      then have "\<not> b \<Longrightarrow> fst (snd (try_augment g ilhs (Suc irhs) s lf rt)) r"
        using True by (intro 1(4) [OF _ _ Some t refl refl refl]) auto
      with True Some \<open>s r\<close> show ?thesis by (simp add: eq t [symmetric])
    qed
  qed
qed

definition unseen :: "match_matrix \<Rightarrow> (nat \<Rightarrow> bool) \<Rightarrow> nat set" where
  "unseen g seen = {r. r < mm_matchers g \<and> \<not> seen r}"

lemma finite_unseen [simp]: "finite (unseen g seen)"
  by (simp add: unseen_def)

lemma unseen_less:
  assumes "r < mm_matchers g" and "\<not> seen r" and "seen' r" and "\<And>i. seen i \<Longrightarrow> seen' i"
  shows "card (unseen g seen') < card (unseen g seen)"
  by (rule psubset_card_mono) (use assms in \<open>auto simp: unseen_def\<close>)

termination try_augment
proof (relation "measures [\<lambda>(g, ilhs, irhs, seen, left, right). card (unseen g seen),
    \<lambda>(g, ilhs, irhs, seen, left, right). mm_matchers g - irhs]", goal_cases)
  case (4 g ilhs irhs seen left right l x b y s ya lf rt)
  have "s r" if "seen r \<or> r = irhs" for r
    using try_augment_seen_dom [OF 4(9), of r] that
    unfolding 4(4) [symmetric] 4(5) [symmetric] 4(6) [symmetric] 4(7) [symmetric] by auto
  then have "card (unseen g s) < card (unseen g seen)"
    using 4(1,2) by (intro unseen_less [of irhs]) auto
  then show ?case by simp
qed (auto intro: unseen_less)


declare try_augment.simps [simp del]

text \<open>
  The loop as a set of rules: it ends, it skips a matcher, it finds a free one, it pushes along
  an augmenting path behind a taken one, or it comes back from a dead end.
\<close>

lemma try_augment_rule [consumes 1, case_names finish skip free push retreat]:
  assumes "try_augment g l i s lf rt = (b, s', lf', rt')"
    and finish: "\<And>l i s lf rt. \<not> i < mm_matchers g \<Longrightarrow> P l i s lf rt False s lf rt"
    and skip: "\<And>l i s lf rt b s' lf' rt'. i < mm_matchers g \<Longrightarrow> s i \<or> \<not> has_edge g l i \<Longrightarrow>
      P l (Suc i) s lf rt b s' lf' rt' \<Longrightarrow> P l i s lf rt b s' lf' rt'"
    and free: "\<And>l i s lf rt. i < mm_matchers g \<Longrightarrow> \<not> s i \<Longrightarrow> has_edge g l i \<Longrightarrow> rt i = None \<Longrightarrow>
      P l i s lf rt True (s(i := True)) (lf(l \<mapsto> i)) (rt(i \<mapsto> l))"
    and push: "\<And>l i s lf rt k s' lf' rt'. i < mm_matchers g \<Longrightarrow> \<not> s i \<Longrightarrow> has_edge g l i \<Longrightarrow>
      rt i = Some k \<Longrightarrow> P k 0 (s(i := True)) lf rt True s' lf' rt' \<Longrightarrow>
      P l i s lf rt True s' (lf'(l \<mapsto> i)) (rt'(i \<mapsto> l))"
    and retreat: "\<And>l i s lf rt k s1 lf1 rt1 b s' lf' rt'. i < mm_matchers g \<Longrightarrow> \<not> s i \<Longrightarrow>
      has_edge g l i \<Longrightarrow> rt i = Some k \<Longrightarrow> P k 0 (s(i := True)) lf rt False s1 lf1 rt1 \<Longrightarrow>
      P l (Suc i) s1 lf1 rt1 b s' lf' rt' \<Longrightarrow> P l i s lf rt b s' lf' rt'"
  shows "P l i s lf rt b s' lf' rt'"
proof -
  have "P l i s lf rt b s' lf' rt'" if "h = g" and "try_augment h l i s lf rt = (b, s', lf', rt')" for h
    using that
  proof (induction h l i s lf rt arbitrary: b s' lf' rt' rule: try_augment.induct)
    case (1 h l i s lf rt)
    note eq = try_augment.simps [of g l i s lf rt]
    have res: "try_augment g l i s lf rt = (b, s', lf', rt')" using "1.prems" by simp
    consider "\<not> i < mm_matchers g" | "i < mm_matchers g" "s i \<or> \<not> has_edge g l i"
      | "i < mm_matchers g" "\<not> s i" "has_edge g l i" "rt i = None"
      | k where "i < mm_matchers g" "\<not> s i" "has_edge g l i" "rt i = Some k"
      by (cases "rt i") auto
    then show ?case
    proof cases
      case 1
      with finish show ?thesis using res by (auto simp: eq)
    next
      case 2
      then have "try_augment h l (Suc i) s lf rt = (b, s', lf', rt')"
        using res "1.prems"(1) by (simp add: eq)
      then have "P l (Suc i) s lf rt b s' lf' rt'" using "1.IH"(1) 2 "1.prems"(1) by blast
      with 2 show ?thesis by (rule skip)
    next
      case 3
      then have "b" "s' = s(i := True)" "lf' = lf(l \<mapsto> i)" "rt' = rt(i \<mapsto> l)"
        using res by (simp_all add: eq)
      with free [where i = i and s = s and l = l and rt = rt and lf = lf] 3
      show ?thesis by (simp del: fun_upd_apply)
    next
      case (4 k)
      obtain c s1 lf1 rt1 where t: "(c, s1, lf1, rt1) = try_augment h k 0 (s(i := True)) lf rt"
        by (cases "try_augment h k 0 (s(i := True)) lf rt") auto
      have P1: "P k 0 (s(i := True)) lf rt c s1 lf1 rt1"
        using 4 "1.prems"(1) t by (intro "1.IH"(2) [of k]) (auto simp del: fun_upd_apply)
      have "try_augment g k 0 (s(i := True)) lf rt = (c, s1, lf1, rt1)" using t "1.prems"(1) by simp
      then have step: "(b, s', lf', rt') = (if c then (True, s1, lf1(l \<mapsto> i), rt1(i \<mapsto> l))
          else try_augment g l (Suc i) s1 lf1 rt1)"
        using res 4 unfolding eq by (simp del: fun_upd_apply)
      show ?thesis
      proof (cases c)
        case True
        with P1 have "P k 0 (s(i := True)) lf rt True s1 lf1 rt1" by simp
        then have "P l i s lf rt True s1 (lf1(l \<mapsto> i)) (rt1(i \<mapsto> l))" by (intro push [where k = k] 4)
        with step True show ?thesis by (simp del: fun_upd_apply)
      next
        case False
        with step "1.prems"(1) have "try_augment h l (Suc i) s1 lf1 rt1 = (b, s', lf', rt')" by simp
        then have "P l (Suc i) s1 lf1 rt1 b s' lf' rt'"
          using 4 "1.prems"(1) False by (intro "1.IH"(3) [OF _ _ _ t refl refl refl]) auto
        moreover from P1 False have "P k 0 (s(i := True)) lf rt False s1 lf1 rt1" by simp
        ultimately show ?thesis
          using retreat [of i s l rt k lf s1 lf1 rt1 b s' lf' rt'] 4 by simp
      qed
    qed
  qed
  then show ?thesis using assms(1) by simp
qed

subsection \<open>What a search does\<close>

text \<open>A search that fails leaves the pairs alone, and has seen every matcher that it could reach.\<close>

lemma try_augment_seen:
  "try_augment g l i s lf rt = (b, s', lf', rt') \<Longrightarrow> s r \<Longrightarrow> s' r"
  by (induction rule: try_augment_rule) auto

lemma try_augment_fails:
  assumes "try_augment g l i s lf rt = (b, s', lf', rt')" and "\<not> b"
  shows "lf' = lf \<and> rt' = rt \<and>
    (\<forall>r. i \<le> r \<longrightarrow> r < mm_matchers g \<longrightarrow> has_edge g l r \<longrightarrow> s' r) \<and>
    (\<forall>r. s' r \<longrightarrow> \<not> s r \<longrightarrow> r < mm_matchers g \<and>
      (\<exists>k. rt r = Some k \<and> (\<forall>r2 < mm_matchers g. has_edge g k r2 \<longrightarrow> s' r2)))"
proof -
  have "(\<forall>r. s r \<longrightarrow> s' r) \<and> (\<not> b \<longrightarrow> lf' = lf \<and> rt' = rt \<and>
    (\<forall>r. i \<le> r \<longrightarrow> r < mm_matchers g \<longrightarrow> has_edge g l r \<longrightarrow> s' r) \<and>
    (\<forall>r. s' r \<longrightarrow> \<not> s r \<longrightarrow> r < mm_matchers g \<and>
      (\<exists>k. rt r = Some k \<and> (\<forall>r2 < mm_matchers g. has_edge g k r2 \<longrightarrow> s' r2))))"
    using assms(1)
  proof (induction rule: try_augment_rule)
    case (skip l i s lf rt b s' lf' rt')
    have "s' i \<or> \<not> has_edge g l i" using skip(2,3) by blast
    then have "s' r" if "\<not> b" "i \<le> r" "r < mm_matchers g" "has_edge g l r" for r
      using skip(3) that by (cases "r = i") auto
    with skip(3) show ?case by blast
  next
    case (retreat l i s lf rt k s1 lf1 rt1 b s' lf' rt')
    have s1: "s1 i" "\<And>r. s r \<Longrightarrow> s1 r" "\<And>r. s1 r \<Longrightarrow> s' r" using retreat(5,6) by auto
    have "s' r" if "\<not> b" "i \<le> r" "r < mm_matchers g" "has_edge g l r" for r
      using retreat(6) that s1 by (cases "r = i") auto
    moreover have "r < mm_matchers g \<and> (\<exists>k. rt r = Some k \<and> (\<forall>r2 < mm_matchers g. has_edge g k r2 \<longrightarrow> s' r2))"
      if "\<not> b" "s' r" "\<not> s r" for r
    proof -
      have rt1: "rt1 = rt" using retreat(5) by simp
      have k: "\<forall>r2 < mm_matchers g. has_edge g k r2 \<longrightarrow> s' r2" using retreat(5) s1(3) by auto
      consider (new) "\<not> s1 r" | (this) "r = i" | (old) "s1 r" "r \<noteq> i" by blast
      then show ?thesis
      proof cases
        case new
        then show ?thesis using retreat(6) that rt1 by auto
      next
        case old
        then have "r < mm_matchers g \<and> (\<exists>k. rt r = Some k \<and>
            (\<forall>r2 < mm_matchers g. has_edge g k r2 \<longrightarrow> s1 r2))"
          using retreat(5) that(3) by auto
        then show ?thesis using s1(3) by blast
      qed (use retreat(1,4) k in blast)
    qed
    moreover have "\<not> b \<longrightarrow> lf' = lf \<and> rt' = rt" using retreat(5,6) by simp
    ultimately show ?case using s1 by blast
  qed auto
  then show ?thesis using assms(2) by blast
qed

text \<open>
  A set of matchers is closed when all of them are taken, and the elements that took them have
  edges into the set only. A search from an element whose edges lead into a closed set fails,
  and no search changes what a closed set is paired with.
\<close>

definition closed_set :: "match_matrix \<Rightarrow> node_map \<Rightarrow> nat set \<Rightarrow> bool" where
  "closed_set g rt D \<longleftrightarrow> (\<forall>r \<in> D. \<exists>k. rt r = Some k \<and>
     (\<forall>r2 < mm_matchers g. has_edge g k r2 \<longrightarrow> r2 \<in> D))"

lemma try_augment_closed:
  assumes "try_augment g l i s lf rt = (b, s', lf', rt')" and "closed_set g rt D"
  shows "(\<forall>r. i \<le> r \<longrightarrow> r < mm_matchers g \<longrightarrow> has_edge g l r \<longrightarrow> r \<in> D) \<Longrightarrow> \<not> b"
    and "\<forall>r \<in> D. rt' r = rt r"
proof -
  have "closed_set g rt D \<longrightarrow>
    ((\<forall>r. i \<le> r \<longrightarrow> r < mm_matchers g \<longrightarrow> has_edge g l r \<longrightarrow> r \<in> D) \<longrightarrow> \<not> b) \<and>
    (\<forall>r \<in> D. rt' r = rt r)"
    using assms(1)
  proof (induction rule: try_augment_rule)
    case (free l i s lf rt)
    then have "closed_set g rt D \<Longrightarrow> i \<notin> D" by (auto simp: closed_set_def)
    with free show ?case by auto
  next
    case (push l i s lf rt k s' lf' rt')
    have "closed_set g rt D \<Longrightarrow> i \<notin> D"
      using push(4,5) by (auto simp: closed_set_def)
    with push show ?case by auto
  next
    case (retreat l i s lf rt k s1 lf1 rt1 b s' lf' rt')
    have "closed_set g rt D \<Longrightarrow> closed_set g rt1 D" using retreat(5) by (simp add: closed_set_def)
    with retreat show ?case by (auto dest: Suc_leD)
  qed (auto dest: Suc_leD)
  then show "(\<forall>r. i \<le> r \<longrightarrow> r < mm_matchers g \<longrightarrow> has_edge g l r \<longrightarrow> r \<in> D) \<Longrightarrow> \<not> b"
    and "\<forall>r \<in> D. rt' r = rt r"
    using assms(2) by blast+
qed

text \<open>
  A search that succeeds pairs one element more: its own. Only the matcher that the element had
  before still names it, until the caller gives that matcher to another element.
\<close>

definition mutual :: "node_map \<Rightarrow> node_map \<Rightarrow> bool" where
  "mutual lf rt \<longleftrightarrow> (\<forall>l r. lf l = Some r \<longleftrightarrow> rt r = Some l)"

definition passed_on :: "nat \<Rightarrow> node_map \<Rightarrow> node_map \<Rightarrow> node_map \<Rightarrow> bool" where
  "passed_on l lf lf' rt' \<longleftrightarrow>
     (\<forall>k r. lf' k = Some r \<longleftrightarrow> rt' r = Some k \<and> \<not> (k = l \<and> lf l = Some r))"

definition untouched :: "nat \<Rightarrow> (nat \<Rightarrow> bool) \<Rightarrow> node_map \<Rightarrow> node_map \<Rightarrow> node_map \<Rightarrow> node_map \<Rightarrow> bool" where
  "untouched l s lf rt lf' rt' \<longleftrightarrow>
     (\<forall>k. k \<noteq> l \<longrightarrow> (\<forall>r. lf k = Some r \<longrightarrow> s r) \<longrightarrow> lf' k = lf k) \<and> (\<forall>r. s r \<longrightarrow> rt' r = rt r)"

lemma passed_on_free:
  assumes "mutual lf rt" and "rt i = None"
  shows "passed_on l lf (lf(l \<mapsto> i)) (rt(i \<mapsto> l))"
  using assms by (auto simp: mutual_def passed_on_def)

lemma passed_on_push:
  assumes "mutual lf rt" and "rt i = Some k" and "\<not> s i" and "\<forall>r. lf l = Some r \<longrightarrow> s r"
    and "passed_on k lf lf1 rt1" and "untouched k (s(i := True)) lf rt lf1 rt1"
  shows "passed_on l lf (lf1(l \<mapsto> i)) (rt1(i \<mapsto> l))"
proof -
  have lk: "l \<noteq> k" and li: "lf l \<noteq> Some i" using assms(1-4) by (auto simp: mutual_def)
  have "rt1 i = Some k" using assms(2,6) by (simp add: untouched_def)
  moreover have "lf1 l = lf l" using assms(4,6) lk unfolding untouched_def by auto
  ultimately show ?thesis
    using assms(5) lk li assms(1,2) unfolding passed_on_def mutual_def
    by (auto split: if_splits) (metis option.inject)+
qed

lemma try_augment_succeeds:
  assumes "try_augment g l i s lf rt = (b, s', lf', rt')" and "b"
    and "mutual lf rt" and "\<forall>r. lf l = Some r \<longrightarrow> s r"
  shows "passed_on l lf lf' rt' \<and> untouched l s lf rt lf' rt' \<and> dom lf' = insert l (dom lf) \<and>
    (\<forall>k r. lf' k = Some r \<longrightarrow> lf k = Some r \<or> r < mm_matchers g \<and> has_edge g k r)"
proof -
  have "(\<forall>r. s r \<longrightarrow> s' r) \<and> (\<not> b \<longrightarrow> lf' = lf \<and> rt' = rt) \<and>
    (b \<longrightarrow> mutual lf rt \<longrightarrow> (\<forall>r. lf l = Some r \<longrightarrow> s r) \<longrightarrow>
      passed_on l lf lf' rt' \<and> untouched l s lf rt lf' rt' \<and> dom lf' = insert l (dom lf) \<and>
      (\<forall>k r. lf' k = Some r \<longrightarrow> lf k = Some r \<or> r < mm_matchers g \<and> has_edge g k r))"
    using assms(1)
  proof (induction rule: try_augment_rule)
    case (free l i s lf rt)
    have "passed_on l lf (lf(l \<mapsto> i)) (rt(i \<mapsto> l))" if "mutual lf rt"
      using that free(4) by (rule passed_on_free)
    moreover have "untouched l s lf rt (lf(l \<mapsto> i)) (rt(i \<mapsto> l))"
      using free(2) by (auto simp: untouched_def)
    moreover have "\<forall>k r. (lf(l \<mapsto> i)) k = Some r \<longrightarrow> lf k = Some r \<or> r < mm_matchers g \<and> has_edge g k r"
      using free(1,3) by auto
    ultimately show ?case by (simp del: fun_upd_apply) (simp add: free(2))
  next
    case (push l i s lf rt k s' lf' rt')
    have "passed_on l lf (lf'(l \<mapsto> i)) (rt'(i \<mapsto> l)) \<and> untouched l s lf rt (lf'(l \<mapsto> i)) (rt'(i \<mapsto> l)) \<and>
        dom (lf'(l \<mapsto> i)) = insert l (dom lf) \<and>
        (\<forall>a r. (lf'(l \<mapsto> i)) a = Some r \<longrightarrow> lf a = Some r \<or> r < mm_matchers g \<and> has_edge g a r)"
      if m: "mutual lf rt" and old: "\<forall>r. lf l = Some r \<longrightarrow> s r"
    proof -
      have k: "lf k = Some i" using m push(4) by (simp add: mutual_def)
      then have pre: "\<forall>r. lf k = Some r \<longrightarrow> (s(i := True)) r" by simp
      have IH: "passed_on k lf lf' rt'" "untouched k (s(i := True)) lf rt lf' rt'"
        "dom lf' = insert k (dom lf)"
        "\<forall>a r. lf' a = Some r \<longrightarrow> lf a = Some r \<or> r < mm_matchers g \<and> has_edge g a r"
        using push(5) m pre by blast+
      have "lf' a = lf a" if "a \<noteq> l" "\<forall>r. lf a = Some r \<longrightarrow> s r" for a
        using IH(2) that k push(2) unfolding untouched_def by (cases "a = k") auto
      then have "untouched l s lf rt (lf'(l \<mapsto> i)) (rt'(i \<mapsto> l))"
        using IH(2) push(2) by (auto simp: untouched_def)
      moreover have "dom (lf'(l \<mapsto> i)) = insert l (dom lf)" using IH(3) k by auto
      ultimately show ?thesis
        using passed_on_push [OF m push(4,2) old IH(1,2)] IH(4) push(1,3) by auto
    qed
    moreover have "\<forall>r. s r \<longrightarrow> s' r" using push(5) by auto
    ultimately show ?case by blast
  next
    case (retreat l i s lf rt k s1 lf1 rt1 b s' lf' rt')
    have s1: "\<And>r. s r \<Longrightarrow> s1 r" "\<And>r. s1 r \<Longrightarrow> s' r" "lf1 = lf" "rt1 = rt"
      using retreat(5,6) by auto
    then have "untouched l s1 lf rt lf' rt' \<Longrightarrow> untouched l s lf rt lf' rt'"
      by (auto simp: untouched_def)
    with retreat(6) s1 show ?case by blast
  qed auto
  with assms(2-4) show ?thesis by blast
qed

subsection \<open>The loop over the elements\<close>

text \<open>
  \<open>Compute\<close> starts a search from each element; an element that already has a matcher when its
  turn comes fails a check. The result lists the pairs in the order of the elements.
\<close>

primrec augment_from ::
  "match_matrix \<Rightarrow> nat list \<Rightarrow> node_map \<Rightarrow> node_map \<Rightarrow> fault + node_map \<times> node_map"
where
  "augment_from g [] left right = Inr (left, right)"
| "augment_from g (ilhs # rest) left right =
     (if left ilhs \<noteq> None then Inl Assertion_failure
      else let (found, seen, left, right) = try_augment g ilhs 0 (\<lambda>_. False) left right
           in augment_from g rest left right)"

definition pairs_of :: "node_map \<Rightarrow> nat \<Rightarrow> (nat \<times> nat) list" where
  "pairs_of left n =
     concat (map (\<lambda>ilhs. case left ilhs of None \<Rightarrow> [] | Some irhs \<Rightarrow> [(ilhs, irhs)]) [0..<n])"

definition find_max_bipartite_matching :: "match_matrix \<Rightarrow> fault + (nat \<times> nat) list" where
  "find_max_bipartite_matching g =
     (case augment_from g [0..<mm_elements g] (\<lambda>_. None) (\<lambda>_. None) of
        Inl f \<Rightarrow> Inl f
      | Inr (left, right) \<Rightarrow> Inr (pairs_of left (mm_elements g)))"

text \<open>
  The invariant of the loop: the maps name each other, along edges of the graph and from elements
  that were looked at; and the elements that were looked at in vain lead into a closed set.
\<close>

definition loop_inv :: "match_matrix \<Rightarrow> nat set \<Rightarrow> node_map \<Rightarrow> node_map \<Rightarrow> bool" where
  "loop_inv g X lf rt \<longleftrightarrow> mutual lf rt \<and> dom lf \<subseteq> X \<and>
     (\<forall>l r. lf l = Some r \<longrightarrow> r < mm_matchers g \<and> has_edge g l r) \<and>
     (\<exists>D. closed_set g rt D \<and>
       (\<forall>l \<in> X. lf l = None \<longrightarrow> (\<forall>r < mm_matchers g. has_edge g l r \<longrightarrow> r \<in> D)))"

lemma mutual_passed_on: "lf l = None \<Longrightarrow> passed_on l lf lf' rt' \<Longrightarrow> mutual lf' rt'"
  by (simp add: passed_on_def mutual_def)

lemma closed_set_union: "closed_set g rt D \<Longrightarrow> closed_set g rt E \<Longrightarrow> closed_set g rt (D \<union> E)"
  unfolding closed_set_def by (intro ballI) (erule UnE; drule (1) bspec; fast)

lemma loop_step:
  assumes inv: "loop_inv g X lf rt" and l: "l \<notin> X"
    and t: "try_augment g l 0 (\<lambda>_. False) lf rt = (b, s, lf', rt')"
  shows "loop_inv g (insert l X) lf' rt'"
proof -
  have none: "lf l = None" using inv l by (auto simp: loop_inv_def)
  obtain D where D: "closed_set g rt D"
      "\<And>k r. k \<in> X \<Longrightarrow> lf k = None \<Longrightarrow> r < mm_matchers g \<Longrightarrow> has_edge g k r \<Longrightarrow> r \<in> D"
    and m: "mutual lf rt" and sub: "dom lf \<subseteq> X"
      "\<And>k r. lf k = Some r \<Longrightarrow> r < mm_matchers g \<and> has_edge g k r"
    using inv unfolding loop_inv_def by metis
  show ?thesis
  proof (cases b)
    case True
    have new: "passed_on l lf lf' rt'" "dom lf' = insert l (dom lf)"
      "\<And>k r. lf' k = Some r \<Longrightarrow> lf k = Some r \<or> r < mm_matchers g \<and> has_edge g k r"
      using try_augment_succeeds [OF t True m] none by simp_all
    have "mutual lf' rt'" using new none mutual_passed_on [of lf l lf' rt'] by simp
    moreover have dom: "dom lf' = insert l (dom lf)" using new none by simp
    moreover have "closed_set g rt' D"
      using D(1) try_augment_closed(2) [OF t D(1)] by (simp add: closed_set_def)
    moreover have "lf k = None \<and> k \<noteq> l" if "lf' k = None" for k using dom that
      by (metis domIff insertCI)
    moreover have "\<forall>k r. lf' k = Some r \<longrightarrow> r < mm_matchers g \<and> has_edge g k r"
      using new none sub(2) by blast
    ultimately show ?thesis using sub(1) D(2) unfolding loop_inv_def by blast
  next
    case False
    note old = try_augment_fails [OF t False]
    have "closed_set g rt {r. s r}" using old by (auto simp: closed_set_def)
    with D(1) have "closed_set g rt (D \<union> {r. s r})" by (rule closed_set_union)
    moreover have "r \<in> D \<union> {r. s r}" if "k \<in> insert l X" "lf k = None" "r < mm_matchers g" "has_edge g k r" for k r
      using that D(2) old by auto
    moreover have "lf' = lf" "rt' = rt" using old by simp_all
    ultimately show ?thesis using m sub unfolding loop_inv_def by blast
  qed
qed

lemma augment_from_inv:
  assumes "loop_inv g X lf rt" and "distinct ls" and "set ls \<inter> X = {}"
  shows "\<exists>lf' rt'. augment_from g ls lf rt = Inr (lf', rt') \<and> loop_inv g (X \<union> set ls) lf' rt'"
  using assms
proof (induction ls arbitrary: X lf rt)
  case (Cons l ls)
  obtain b s lf1 rt1 where t: "try_augment g l 0 (\<lambda>_. False) lf rt = (b, s, lf1, rt1)"
    by (cases "try_augment g l 0 (\<lambda>_. False) lf rt") auto
  have "l \<notin> X" using Cons.prems(3) by auto
  with loop_step [OF Cons.prems(1) _ t] have "loop_inv g (insert l X) lf1 rt1" by simp
  moreover have "lf l = None" using Cons.prems(1) \<open>l \<notin> X\<close> by (auto simp: loop_inv_def)
  ultimately show ?case using Cons.IH [of "insert l X" lf1 rt1] Cons.prems(2,3) t by auto
qed simp

subsection \<open>The pairs are a matching of the largest size\<close>

definition is_matching :: "match_matrix \<Rightarrow> (nat \<times> nat) set \<Rightarrow> bool" where
  "is_matching g M \<longleftrightarrow> (\<forall>(l, r) \<in> M. l < mm_elements g \<and> r < mm_matchers g \<and> has_edge g l r) \<and>
     inj_on fst M \<and> inj_on snd M"

lemma set_pairs_of: "set (pairs_of lf n) = {(l, r). l < n \<and> lf l = Some r}"
  by (auto simp: pairs_of_def split: option.splits)

lemma pairs_of_Suc:
  "pairs_of lf (Suc n) = pairs_of lf n @ (case lf n of None \<Rightarrow> [] | Some r \<Rightarrow> [(n, r)])"
  by (simp add: pairs_of_def split: option.split)

lemma distinct_pairs_of: "distinct (pairs_of lf n)"
proof (induction n)
  case (Suc n)
  then show ?case by (auto simp: pairs_of_Suc set_pairs_of split: option.split)
qed (simp add: pairs_of_def)

text \<open>
  The elements outside the closed set that has swallowed every unmatched element, and the matchers
  inside of it, meet every edge; and each of them belongs to a pair of its own.
\<close>

lemma matching_at_most:
  assumes inv: "loop_inv g {..<mm_elements g} lf rt" and M: "is_matching g M"
  shows "card M \<le> card (ran lf)"
proof -
  obtain D where D: "closed_set g rt D"
      "\<And>l r. l < mm_elements g \<Longrightarrow> lf l = None \<Longrightarrow> r < mm_matchers g \<Longrightarrow> has_edge g l r \<Longrightarrow> r \<in> D"
    and m: "\<And>l r. lf l = Some r \<longleftrightarrow> rt r = Some l" and fin: "dom lf \<subseteq> {..<mm_elements g}"
    using inv unfolding loop_inv_def mutual_def by (metis lessThan_iff)
  define f where "f = (\<lambda>(l, r). if r \<in> D then r else the (lf l))"
  have edge: "l < mm_elements g" "r < mm_matchers g" "has_edge g l r" if "(l, r) \<in> M" for l r
    using M that by (auto simp: is_matching_def)
  have out: "\<exists>k. lf l = Some k \<and> k \<notin> D" if "(l, r) \<in> M" and "r \<notin> D" for l r
  proof (cases "lf l")
    case None
    then show ?thesis using D(2) edge [OF that(1)] that(2) by blast
  next
    case (Some k)
    then have "rt k = Some l" using m by simp
    then have "k \<notin> D" using D(1) edge [OF that(1)] that(2) by (fastforce simp: closed_set_def)
    with Some show ?thesis by blast
  qed
  have into: "f x \<in> ran lf" if "x \<in> M" for x
  proof (cases "snd x \<in> D")
    case True
    then show ?thesis using D(1) m by (auto simp: f_def closed_set_def ran_def split: prod.split)
  next
    case False
    then show ?thesis using out [of "fst x" "snd x"] that by (auto simp: f_def ran_def split: prod.split)
  qed
  have "inj_on f M"
  proof (rule inj_onI)
    fix x y
    assume xy: "x \<in> M" "y \<in> M" and eq: "f x = f y"
    have inj: "fst x = fst y \<or> snd x = snd y \<Longrightarrow> x = y"
      using M xy unfolding is_matching_def inj_on_def by blast
    consider "snd x \<in> D" "snd y \<in> D" | "snd x \<in> D" "snd y \<notin> D"
      | "snd x \<notin> D" "snd y \<in> D" | "snd x \<notin> D" "snd y \<notin> D" by blast
    then show "x = y"
    proof cases
      case 1
      then show ?thesis using eq inj by (simp add: f_def split_beta)
    next
      case 2
      then show ?thesis using eq out [of "fst y" "snd y"] xy by (auto simp: f_def split_beta)
    next
      case 3
      then show ?thesis using eq out [of "fst x" "snd x"] xy by (auto simp: f_def split_beta)
    next
      case 4
      then obtain a b where ab: "lf (fst x) = Some a" "lf (fst y) = Some b"
        using out [of "fst x" "snd x"] out [of "fst y" "snd y"] xy by force
      then have "a = b" using 4 eq by (simp add: f_def split_beta)
      with ab have "rt a = Some (fst x)" "rt a = Some (fst y)" using m by simp_all
      then have "fst x = fst y" by simp
      with inj show ?thesis by blast
    qed
  qed
  moreover have "f ` M \<subseteq> ran lf" using into by blast
  moreover have "finite (ran lf)"
    by (rule finite_ran) (use fin finite_subset in blast)
  ultimately show ?thesis by (meson card_inj_on_le)
qed

lemma pairs_of_ran:
  assumes "mutual lf rt" and "dom lf \<subseteq> {..<n}"
  shows "length (pairs_of lf n) = card (ran lf)"
proof -
  have "ran lf = snd ` set (pairs_of lf n)"
    using assms(2) by (force simp: set_pairs_of ran_def dom_def)
  moreover have "inj_on snd (set (pairs_of lf n))"
    using assms(1) by (auto simp: set_pairs_of inj_on_def mutual_def)
  ultimately have "card (ran lf) = card (set (pairs_of lf n))" by (simp add: card_image)
  then show ?thesis by (simp add: distinct_card distinct_pairs_of)
qed

lemma max_matching:
  "\<exists>ps. find_max_bipartite_matching g = Inr ps \<and> distinct ps \<and> is_matching g (set ps) \<and>
    (\<forall>M. is_matching g M \<longrightarrow> card M \<le> length ps)"
proof -
  have "loop_inv g {} (\<lambda>_. None) (\<lambda>_. None)"
    by (auto simp: loop_inv_def mutual_def closed_set_def)
  from augment_from_inv [OF this, of "[0..<mm_elements g]"] obtain lf rt where
    t: "augment_from g [0..<mm_elements g] (\<lambda>_. None) (\<lambda>_. None) = Inr (lf, rt)"
    and inv: "loop_inv g {..<mm_elements g} lf rt"
    by (auto simp: atLeast0LessThan)
  let ?ps = "pairs_of lf (mm_elements g)"
  have mut: "mutual lf rt" and dom: "dom lf \<subseteq> {..<mm_elements g}"
    and edges: "\<And>l r. lf l = Some r \<Longrightarrow> r < mm_matchers g \<and> has_edge g l r"
    using inv by (auto simp: loop_inv_def)
  have "is_matching g (set ?ps)"
  proof -
    have "inj_on snd (set ?ps)" using mut by (auto simp: set_pairs_of inj_on_def mutual_def)
    moreover have "inj_on fst (set ?ps)" by (auto simp: set_pairs_of inj_on_def)
    ultimately show ?thesis using edges by (auto simp: is_matching_def set_pairs_of)
  qed
  moreover have "card M \<le> length ?ps" if "is_matching g M" for M
    using matching_at_most [OF inv that] pairs_of_ran [OF mut dom] by simp
  ultimately show ?thesis using t by (simp add: find_max_bipartite_matching_def distinct_pairs_of)
qed

end
