(* ===== verification/Gtest_Base.thy ===== *)
theory Gtest_Base
  imports Prelude "HOL-Library.Char_ord"
begin

text \<open>
  What the theories of the vendored gtest share: C strings and the characters of ASCII. A
  \<open>const char*\<close> is the list of the characters before the terminator, so that the empty list is
  the place where the code reads \<open>'\0'\<close>; \<open>NULL\<close> is \<open>None\<close>. The character functions of
  \<open>gtest-port.h\<close> are those of the "C" locale.
\<close>

named_theorems gtest_simps \<open>unfolding rules of gtest's helpers\<close>

abbreviation backslash :: char where "backslash \<equiv> CHR 0x5C"
abbreviation quote :: char where "quote \<equiv> CHR 0x22"
abbreviation apostrophe :: char where "apostrophe \<equiv> CHR 0x27"
abbreviation nul :: char where "nul \<equiv> CHR 0x00"

definition newline :: string where
  "newline = [CHR 0x0A]"

text \<open>What a stream prints for a signed integer.\<close>

definition string_of_int :: "int \<Rightarrow> string" where
  "string_of_int i = (if i < 0 then ''-'' else []) @ string_of_nat (nat \<bar>i\<bar>)"

text \<open>Whether the code of a character lies between two others.\<close>

definition between :: "char \<Rightarrow> char \<Rightarrow> char \<Rightarrow> bool" where
  "between lo hi ch \<longleftrightarrow> (of_char lo :: nat) \<le> of_char ch \<and> (of_char ch :: nat) \<le> of_char hi"

definition is_digit :: "char \<Rightarrow> bool" where
  "is_digit ch = between CHR ''0'' CHR ''9'' ch"

definition is_lower :: "char \<Rightarrow> bool" where
  "is_lower ch = between CHR ''a'' CHR ''z'' ch"

definition is_upper :: "char \<Rightarrow> bool" where
  "is_upper ch = between CHR ''A'' CHR ''Z'' ch"

definition is_alpha :: "char \<Rightarrow> bool" where
  "is_alpha ch \<longleftrightarrow> is_lower ch \<or> is_upper ch"

definition is_alnum :: "char \<Rightarrow> bool" where
  "is_alnum ch \<longleftrightarrow> is_alpha ch \<or> is_digit ch"

definition is_space :: "char \<Rightarrow> bool" where
  "is_space ch \<longleftrightarrow> ch = CHR '' '' \<or> between CHR 0x09 CHR 0x0D ch"

definition is_xdigit :: "char \<Rightarrow> bool" where
  "is_xdigit ch \<longleftrightarrow> is_digit ch \<or> between CHR ''a'' CHR ''f'' ch \<or> between CHR ''A'' CHR ''F'' ch"

definition to_lower :: "char \<Rightarrow> char" where
  "to_lower ch = (if is_upper ch then char_of (of_char ch + 32 :: nat) else ch)"

definition to_upper :: "char \<Rightarrow> char" where
  "to_upper ch = (if is_lower ch then char_of (of_char ch - 32 :: nat) else ch)"

text \<open>A list of items, each behind a separator; the first separator is another one.\<close>

fun separated :: "string \<Rightarrow> string \<Rightarrow> string list \<Rightarrow> string" where
  "separated first later [] = []"
| "separated first later (x # xs) = first @ x @ separated later later xs"

text \<open>\<open>FormatFileLocation\<close>, as it is not compiled for Visual C++.\<close>

definition format_file_location :: "string option \<Rightarrow> int \<Rightarrow> string" where
  "format_file_location file line =
     (let file_name = (case file of None \<Rightarrow> ''unknown file'' | Some f \<Rightarrow> f)
      in if line < 0 then file_name @ '':'' else file_name @ '':'' @ string_of_int line @ '':'')"

end
