(* ===== verification/Unordered_Elements.thy ===== *)
theory Unordered_Elements
  imports Bipartite_Matching Gtest_Base
begin

text \<open>
  \<open>UnorderedElementsAre\<close> of the vendored gmock: the rest of \<open>gmock/src/gmock-matchers.cc\<close> and the
  template \<open>UnorderedElementsAreMatcherImpl\<close> of \<open>gmock-matchers.h\<close>. A matcher is a record of
  what its virtual functions do; a listener holds the text that was streamed to it, or is
  \<open>None\<close> when nobody is interested. The theory proves that the verdict is the existence of a
  permutation, and that \<open>NextGraph\<close> counts.
\<close>

subsection \<open>Matchers and listeners\<close>

record 'a matcher =
  mt_match_and_explain :: "'a \<Rightarrow> bool \<times> string"
  mt_describe_to :: string
  mt_describe_negation_to :: string

definition matches :: "'a matcher \<Rightarrow> 'a \<Rightarrow> bool" where
  "matches m x = fst (mt_match_and_explain m x)"

type_synonym listener = "string option"

definition listen :: "string \<Rightarrow> listener \<Rightarrow> listener" where
  "listen text l = map_option (\<lambda>t. t @ text) l"

lemma listen_interested [simp]: "listen text l = None \<longleftrightarrow> l = None"
  by (simp add: listen_def)

subsection \<open>Descriptions\<close>

fun join_as_tuple :: "string list \<Rightarrow> string" where
  "join_as_tuple [] = []"
| "join_as_tuple [x] = x"
| "join_as_tuple (x # xs) = ''('' @ x @ separated '', '' '', '' xs @ '')''"

definition elements_text :: "nat \<Rightarrow> string" where
  "elements_text n = string_of_nat n @ '' element'' @ (if n = 1 then [] else ''s'')"

definition numbered :: "string \<Rightarrow> string list \<Rightarrow> string list" where
  "numbered prefix xs = map (\<lambda>(i, x). prefix @ string_of_nat i @ x) (zip [0..<length xs] xs)"

definition describe_to_impl :: "string list \<Rightarrow> string" where
  "describe_to_impl describers =
     (if describers = [] then ''is empty''
      else if length describers = 1
      then ''has '' @ elements_text 1 @ '' and that element '' @ describers ! 0
      else ''has '' @ elements_text (length describers) @
        '' and there exists some permutation of elements such that:'' @ newline @
        separated [] ('', and'' @ newline) (numbered '' - element #'' (map (\<lambda>d. '' '' @ d) describers)))"

text \<open>The negation prints the plain descriptions of the matchers, one matcher alone excepted.\<close>

definition describe_negation_to_impl :: "string list \<Rightarrow> string list \<Rightarrow> string" where
  "describe_negation_to_impl describers negations =
     (if describers = [] then ''isn'' @ [CHR 39] @ ''t empty''
      else if length describers = 1
      then ''doesn'' @ [CHR 39] @ ''t have '' @ elements_text 1 @ '', or has '' @ elements_text 1 @
        '' that '' @ negations ! 0
      else ''doesn'' @ [CHR 39] @ ''t have '' @ elements_text (length describers) @
        '', or there exists no permutation of elements such that:'' @ newline @
        separated [] ('', and'' @ newline) (numbered '' - element #'' (map (\<lambda>d. '' '' @ d) describers)))"

subsection \<open>Pairing\<close>

definition pair_text :: "nat \<times> nat \<Rightarrow> string" where
  "pair_text p = newline @ ''  ('' @ ''element #'' @ string_of_nat (fst p) @ '', '' @
     ''matcher #'' @ string_of_nat (snd p) @ '')''"

definition log_element_matcher_pair_vec :: "(nat \<times> nat) list \<Rightarrow> string" where
  "log_element_matcher_pair_vec pairs =
     ''{'' @ separated [] '','' (map pair_text pairs) @ newline @ ''}''"

definition find_pairing :: "match_matrix \<Rightarrow> listener \<Rightarrow> fault + bool \<times> listener" where
  "find_pairing g l =
     (case find_max_bipartite_matching g of
        Inl f \<Rightarrow> Inl f
      | Inr pairs \<Rightarrow>
          let max_flow = length pairs
          in if max_flow \<noteq> mm_matchers g
             then Inr (False, listen (''where no permutation of the elements can '' @
               ''satisfy all matchers, and the closest match is '' @ string_of_nat max_flow @
               '' of '' @ string_of_nat (mm_matchers g) @ '' matchers with the pairings:'' @ newline @
               log_element_matcher_pair_vec pairs) l)
             else if 1 < length pairs
             then Inr (True, listen (separated (''where:'' @ newline) ('','' @ newline)
               (map (\<lambda>p. '' - element #'' @ string_of_nat (fst p) @ '' is matched by matcher #'' @
                  string_of_nat (snd p)) pairs)) l)
             else Inr (True, l))"

subsection \<open>The graph as a number\<close>

text \<open>The two loops of \<open>NextGraph\<close> and of \<open>Randomize\<close> visit the flags in this order.\<close>

definition matrix_cells :: "match_matrix \<Rightarrow> nat list" where
  "matrix_cells g = concat (map (\<lambda>ilhs. map (space_index g ilhs) [0..<mm_matchers g]) [0..<mm_elements g])"

fun next_cells :: "nat list \<Rightarrow> bool list \<Rightarrow> bool \<times> bool list" where
  "next_cells [] bs = (False, bs)"
| "next_cells (i # is) bs = (if \<not> bs ! i then (True, bs[i := True]) else next_cells is (bs[i := False]))"

definition next_graph :: "match_matrix \<Rightarrow> bool \<times> match_matrix" where
  "next_graph g =
     (let (r, bs) = next_cells (matrix_cells g) (mm_matched g) in (r, g\<lparr>mm_matched := bs\<rparr>))"

text \<open>\<open>draw\<close> is what \<open>rand()\<close> returns, call after call.\<close>

definition randomize :: "(nat \<Rightarrow> int) \<Rightarrow> match_matrix \<Rightarrow> match_matrix" where
  "randomize draw g = g\<lparr>mm_matched :=
     fold (\<lambda>(k, i) bs. bs[i := odd (draw k)]) (zip [0..<length (matrix_cells g)] (matrix_cells g))
       (mm_matched g)\<rparr>"

definition debug_string :: "match_matrix \<Rightarrow> string" where
  "debug_string g = separated [] '';'' (map (\<lambda>i. concat (map (\<lambda>j. if has_edge g i j then ''1'' else ''0'')
     [0..<mm_matchers g])) [0..<mm_elements g])"

subsection \<open>Verdict\<close>

definition verify_all_elements_and_matchers_are_matched ::
  "string list \<Rightarrow> string list \<Rightarrow> match_matrix \<Rightarrow> listener \<Rightarrow> bool \<times> listener" where
  "verify_all_elements_and_matchers_are_matched describers element_printouts g l =
     (let element_matched = map (\<lambda>ilhs. list_ex (has_edge g ilhs) [0..<mm_matchers g]) [0..<mm_elements g];
          matcher_matched = map (\<lambda>irhs. list_ex (\<lambda>ilhs. has_edge g ilhs irhs) [0..<mm_elements g])
            [0..<mm_matchers g];
          bad_matchers = filter (\<lambda>mi. \<not> matcher_matched ! mi) [0..<mm_matchers g];
          bad_elements = filter (\<lambda>ei. \<not> element_matched ! ei) [0..<mm_elements g];
          l = (if l = None then None else listen (separated
                 (''where the following matchers don'' @ [CHR 39] @ ''t match any elements:'' @ newline)
                 ('','' @ newline)
                 (map (\<lambda>mi. ''matcher #'' @ string_of_nat mi @ '': '' @ describers ! mi) bad_matchers)) l);
          l = (if l = None then None else listen (separated
                 ((if bad_matchers \<noteq> [] then newline @ ''and '' else []) @
                  ''where the following elements don'' @ [CHR 39] @ ''t match any matchers:'' @ newline)
                 ('','' @ newline)
                 (map (\<lambda>ei. ''element #'' @ string_of_nat ei @ '': '' @ element_printouts ! ei)
                    bad_elements)) l)
      in (bad_matchers = [] \<and> bad_elements = [], l))"

definition set_edges :: "bool list \<Rightarrow> match_matrix \<Rightarrow> match_matrix" where
  "set_edges did_match g =
     fold (\<lambda>((ilhs, irhs), b) g. set_edge ilhs irhs b g)
       (zip (concat (map (\<lambda>ilhs. map (Pair ilhs) [0..<mm_matchers g]) [0..<mm_elements g])) did_match) g"

definition analyze_elements ::
  "'a matcher list \<Rightarrow> ('a \<Rightarrow> string) \<Rightarrow> 'a list \<Rightarrow> listener \<Rightarrow> match_matrix \<times> string list" where
  "analyze_elements ms print_to_string xs l =
     (let element_printouts = (if l = None then [] else map print_to_string xs);
          did_match = concat (map (\<lambda>x. map (\<lambda>m. matches m x) ms) xs)
      in (set_edges did_match (make_matrix (length xs) (length ms)), element_printouts))"

definition match_unordered ::
  "'a matcher list \<Rightarrow> ('a \<Rightarrow> string) \<Rightarrow> 'a list \<Rightarrow> listener \<Rightarrow> fault + bool \<times> listener" where
  "match_unordered ms print_to_string container l =
     (let (matrix, element_printouts) = analyze_elements ms print_to_string container l;
          actual_count = mm_elements matrix
      in if actual_count = 0 \<and> ms = [] then Inr (True, l)
         else if actual_count \<noteq> length ms
         then Inr (False, if actual_count \<noteq> 0 then listen (''which has '' @ elements_text actual_count) l else l)
         else case verify_all_elements_and_matchers_are_matched (map mt_describe_to ms)
                element_printouts matrix l of
             (False, l) \<Rightarrow> Inr (False, l)
           | (True, l) \<Rightarrow> find_pairing matrix l)"

subsection \<open>The graph counts\<close>

lemma matrix_cells_upto: "matrix_cells g = [0..<mm_elements g * mm_matchers g]"
proof -
  have "concat (map (\<lambda>i. map (\<lambda>j. i * m + j) [0..<m]) [0..<n]) = [0..<n * m]" for n m :: nat
  proof (induction n)
    case (Suc n)
    have "map (\<lambda>j. n * m + j) [0..<m] = [n * m..<n * m + m]"
      by (rule nth_equalityI) auto
    moreover have "[0..<Suc n * m] = [0..<n * m] @ [n * m..<n * m + m]"
      using upt_add_eq_append [of 0 "n * m" m] by (simp add: add.commute)
    ultimately show ?case using Suc by simp
  qed simp
  then show ?thesis by (simp add: matrix_cells_def space_index_def [abs_def])
qed

text \<open>The flags as a binary number, the first flag being the least significant bit.\<close>

fun number_of :: "bool list \<Rightarrow> nat" where
  "number_of [] = 0"
| "number_of (b # bs) = of_bool b + 2 * number_of bs"

lemma number_of_append: "number_of (xs @ ys) = number_of xs + 2 ^ length xs * number_of ys"
  by (induction xs) auto

lemma number_of_bound: "number_of bs < 2 ^ length bs"
  by (induction bs) auto

lemma number_of_replicate [simp]: "number_of (replicate n False) = 0"
  by (induction n) auto

lemma number_of_Trues: "number_of (replicate n True) + 1 = 2 ^ n"
  by (induction n) auto

lemma next_cells_count:
  assumes "bs = replicate k False @ rest"
  shows "case next_cells [k..<length bs] bs of (r, bs') \<Rightarrow> length bs' = length bs \<and>
    (r \<longleftrightarrow> False \<in> set rest) \<and>
    number_of bs' = (if False \<in> set rest then 2 ^ k * (number_of rest + 1) else 0)"
  using assms
proof (induction rest arbitrary: k bs)
  case (Cons b rest)
  have k: "k < length bs" "bs ! k = b" using Cons.prems by (simp_all add: nth_append)
  note cells = upt_conv_Cons [OF k(1)]
  show ?case
  proof (cases b)
    case False
    then have "bs[k := True] = replicate k False @ True # rest" using Cons.prems by (simp add: list_update_append)
    with False k cells Cons.prems show ?thesis by (simp add: number_of_append algebra_simps)
  next
    case True
    have "bs[k := False] = replicate (Suc k) False @ rest"
      using Cons.prems by (simp add: list_update_append replicate_append_same)
    from Cons.IH [OF this] True k cells show ?thesis by (auto simp: algebra_simps split: prod.splits)
  qed
qed simp

lemma next_graph_counts:
  assumes "length (mm_matched g) = mm_elements g * mm_matchers g" and "next_graph g = (r, g')"
  shows "length (mm_matched g') = length (mm_matched g) \<and>
    number_of (mm_matched g') = (number_of (mm_matched g) + 1) mod 2 ^ length (mm_matched g) \<and>
    (r \<longleftrightarrow> number_of (mm_matched g') \<noteq> 0)"
proof -
  let ?bs = "mm_matched g"
  obtain bs' where bs': "next_cells [0..<length ?bs] ?bs = (r, bs')" "g' = g\<lparr>mm_matched := bs'\<rparr>"
    using assms by (auto simp: next_graph_def matrix_cells_upto split: prod.splits)
  have count: "length bs' = length ?bs" "r \<longleftrightarrow> False \<in> set ?bs"
    "number_of bs' = (if False \<in> set ?bs then number_of ?bs + 1 else 0)"
    using next_cells_count [of ?bs 0 ?bs] bs'(1) by simp_all
  show ?thesis
  proof (cases "False \<in> set ?bs")
    case True
    then have "number_of ?bs + 1 < 2 ^ length ?bs"
      using number_of_bound [of bs'] count by simp
    with True count bs'(2) show ?thesis by simp
  next
    case False
    then have "?bs = replicate (length ?bs) True" by (auto simp: list_eq_iff_nth_eq set_conv_nth)
    then have "number_of ?bs + 1 = 2 ^ length ?bs" using number_of_Trues by metis
    with False count bs'(2) show ?thesis by simp
  qed
qed

subsection \<open>The verdict is a permutation\<close>

lemma set_edges_fields [simp]:
  "mm_elements (set_edge l r b g) = mm_elements g" "mm_matchers (set_edge l r b g) = mm_matchers g"
  by (simp_all add: set_edge_def)

text \<open>Setting the flags one after the other is storing the list of verdicts.\<close>

lemma fold_set_edges:
  "fold (\<lambda>((ilhs, irhs), b) g. set_edge ilhs irhs b g) (zip cells bs) g =
   g\<lparr>mm_matched := fold (\<lambda>(i, b) ms. ms[i := b]) (zip (map (\<lambda>(l, r). space_index g l r) cells) bs)
     (mm_matched g)\<rparr>"
proof (induction cells arbitrary: bs g)
  case (Cons c cells)
  show ?case
  proof (cases bs)
    case (Cons b bs')
    obtain l r where c: "c = (l, r)" by (cases c)
    have "space_index (set_edge l r b g) = space_index g" by (simp add: space_index_def fun_eq_iff)
    with Cons.IH [of bs' "set_edge l r b g"] Cons c show ?thesis by (simp add: set_edge_def)
  qed simp
qed simp

lemma fold_updates:
  "k + length bs \<le> length ms \<Longrightarrow>
   fold (\<lambda>(i, b) ms. ms[i := b]) (zip [k..<k + length bs] bs) ms = take k ms @ bs @ drop (k + length bs) ms"
proof (induction bs arbitrary: k ms)
  case (Cons b bs)
  have "zip [k..<k + length (b # bs)] (b # bs) = (k, b) # zip [Suc k..<Suc k + length bs] bs"
    by (simp add: upt_conv_Cons del: upt_Suc)
  then show ?case
    using Cons.IH [of "Suc k" "ms[k := b]"] Cons.prems by (simp add: take_Suc_conv_app_nth)
qed simp

lemma set_edges_matched:
  assumes "length bs = n * m"
  shows "set_edges bs (make_matrix n m) = \<lparr>mm_elements = n, mm_matchers = m, mm_matched = bs\<rparr>"
proof -
  let ?g = "make_matrix n m"
  have "map (\<lambda>(l, r). space_index ?g l r) (concat (map (\<lambda>l. map (Pair l) [0..<m]) [0..<n])) = matrix_cells ?g"
    by (simp add: matrix_cells_def make_matrix_def map_concat comp_def)
  then have "set_edges bs ?g = ?g\<lparr>mm_matched :=
      fold (\<lambda>(i, b) ms. ms[i := b]) (zip [0..<0 + length bs] bs) (replicate (n * m) False)\<rparr>"
    unfolding set_edges_def fold_set_edges using assms by (simp add: matrix_cells_upto) (simp add: make_matrix_def)
  then show ?thesis using assms by (subst (asm) fold_updates) (simp_all add: make_matrix_def)
qed

lemma nth_concat_same:
  "\<forall>ys \<in> set xss. length ys = m \<Longrightarrow> i < length xss \<Longrightarrow> j < m \<Longrightarrow> concat xss ! (i * m + j) = xss ! i ! j"
proof (induction xss arbitrary: i)
  case (Cons ys xss)
  then show ?case by (cases i) (auto simp: nth_append add.assoc)
qed simp

lemma length_concat_same: "\<forall>ys \<in> set xss. length ys = m \<Longrightarrow> length (concat xss) = length xss * m"
  by (induction xss) auto

lemma analyze_edges:
  assumes "analyze_elements ms pr xs l = (g, ps)"
  shows "mm_elements g = length xs \<and> mm_matchers g = length ms \<and>
    (\<forall>i < length xs. \<forall>j < length ms. has_edge g i j = matches (ms ! j) (xs ! i))"
proof -
  let ?rows = "map (\<lambda>x. map (\<lambda>m. matches m x) ms) xs"
  have "length (concat ?rows) = length xs * length ms"
    by (subst length_concat_same [where m = "length ms"]) auto
  then have "g = \<lparr>mm_elements = length xs, mm_matchers = length ms, mm_matched = concat ?rows\<rparr>"
    using assms by (auto simp: analyze_elements_def set_edges_matched)
  moreover have "concat ?rows ! (i * length ms + j) = matches (ms ! j) (xs ! i)"
    if "i < length xs" "j < length ms" for i j
    using that by (subst nth_concat_same) auto
  ultimately show ?thesis by (simp add: has_edge_def space_index_def)
qed

definition perfect :: "match_matrix \<Rightarrow> bool" where
  "perfect g \<longleftrightarrow> (\<exists>f. bij_betw f {..<mm_elements g} {..<mm_matchers g} \<and> (\<forall>l < mm_elements g. has_edge g l (f l)))"

lemma verify_verdict:
  "fst (verify_all_elements_and_matchers_are_matched ds ps g l) \<longleftrightarrow>
   (\<forall>i < mm_elements g. \<exists>j < mm_matchers g. has_edge g i j) \<and>
   (\<forall>j < mm_matchers g. \<exists>i < mm_elements g. has_edge g i j)"
  by (auto simp: verify_all_elements_and_matchers_are_matched_def Let_def filter_empty_conv list_ex_iff Bex_def)

lemma perfect_verified:
  assumes "perfect g"
  shows "fst (verify_all_elements_and_matchers_are_matched ds ps g l)"
proof -
  obtain f where f: "bij_betw f {..<mm_elements g} {..<mm_matchers g}" "\<And>l. l < mm_elements g \<Longrightarrow> has_edge g l (f l)"
    using assms unfolding perfect_def by blast
  have "f l < mm_matchers g" if "l < mm_elements g" for l
    using bij_betwE [OF f(1)] that by auto
  moreover have "\<exists>l < mm_elements g. f l = r" if "r < mm_matchers g" for r
    using bij_betw_imp_surj_on [OF f(1)] that by (metis imageE lessThan_iff)
  ultimately show ?thesis unfolding verify_verdict using f(2) by metis
qed

lemma find_pairing_verdict:
  assumes "mm_elements g = mm_matchers g"
  shows "\<exists>l'. find_pairing g l = Inr (perfect g, l')"
proof -
  obtain ps where ps: "find_max_bipartite_matching g = Inr ps" "distinct ps" "is_matching g (set ps)"
    and max: "\<And>M. is_matching g M \<Longrightarrow> card M \<le> length ps"
    using max_matching [of g] by blast
  have inj: "inj_on fst (set ps)" "inj_on snd (set ps)" using ps(3) by (simp_all add: is_matching_def)
  have sub: "fst ` set ps \<subseteq> {..<mm_elements g}" "snd ` set ps \<subseteq> {..<mm_matchers g}"
    using ps(3) by (auto simp: is_matching_def)
  have len: "card (fst ` set ps) = length ps" "card (snd ` set ps) = length ps"
    using inj ps(2) by (simp_all add: card_image distinct_card)
  have le: "length ps \<le> mm_matchers g" using card_mono [OF _ sub(2)] len(2) by simp
  have "length ps = mm_matchers g" if p: "perfect g"
  proof -
    obtain f where f: "bij_betw f {..<mm_elements g} {..<mm_matchers g}"
        "\<And>l. l < mm_elements g \<Longrightarrow> has_edge g l (f l)"
      using p unfolding perfect_def by blast
    let ?M = "(\<lambda>l. (l, f l)) ` {..<mm_elements g}"
    have "is_matching g ?M"
      using f bij_betwE [OF f(1)] bij_betw_imp_inj_on [OF f(1)]
      by (auto simp: is_matching_def inj_on_def)
    moreover have "card ?M = mm_elements g" by (subst card_image) (auto simp: inj_on_def)
    ultimately show ?thesis using max [of ?M] le assms by simp
  qed
  moreover have "perfect g" if "length ps = mm_matchers g"
  proof -
    have all: "fst ` set ps = {..<mm_elements g}" "snd ` set ps = {..<mm_matchers g}"
      using sub len that assms by (simp_all add: card_subset_eq)
    define f where "f = (\<lambda>l. snd (the_inv_into (set ps) fst l))"
    have pair: "(l, f l) \<in> set ps" if "l < mm_elements g" for l
      using that the_inv_into_into [OF inj(1), of l "set ps"] f_the_inv_into_f [OF inj(1), of l] all(1)
      by (metis f_def lessThan_iff order_refl prod.collapse)
    have "inj_on f {..<mm_elements g}"
    proof (rule inj_onI)
      fix a b assume "a \<in> {..<mm_elements g}" "b \<in> {..<mm_elements g}" "f a = f b"
      then show "a = b" using inj_onD [OF inj(2) _ pair pair, of a b] by simp
    qed
    moreover have "f ` {..<mm_elements g} \<subseteq> {..<mm_matchers g}"
      using pair ps(3) by (auto simp: is_matching_def)
    ultimately have "bij_betw f {..<mm_elements g} {..<mm_matchers g}"
      using assms endo_inj_surj [of "{..<mm_matchers g}" f] by (simp add: bij_betw_def)
    moreover have "\<forall>l < mm_elements g. has_edge g l (f l)"
      using pair ps(3) by (auto simp: is_matching_def)
    ultimately show ?thesis by (auto simp: perfect_def)
  qed
  ultimately have "length ps = mm_matchers g \<longleftrightarrow> perfect g" by blast
  then show ?thesis using ps(1) by (auto simp: find_pairing_def Let_def)
qed

lemma match_unordered_verdict:
  "\<exists>l'. match_unordered ms pr xs l = Inr (length xs = length ms \<and>
     (\<exists>f. bij_betw f {..<length xs} {..<length ms} \<and> (\<forall>i < length xs. matches (ms ! f i) (xs ! i))), l')"
proof -
  obtain g ps where g: "analyze_elements ms pr xs l = (g, ps)" by fastforce
  note size = analyze_edges [OF g]
  have "perfect g \<longleftrightarrow> (\<exists>f. bij_betw f {..<length xs} {..<length ms} \<and>
      (\<forall>i < length xs. matches (ms ! f i) (xs ! i)))"
  proof -
    have "has_edge g i (f i) = matches (ms ! f i) (xs ! i)"
      if "bij_betw f {..<length xs} {..<length ms}" "i < length xs" for f i
      using size bij_betwE [OF that(1)] that(2) by auto
    then show ?thesis unfolding perfect_def using size by (metis (no_types, lifting))
  qed
  moreover have "\<exists>l'. match_unordered ms pr xs l = Inr (length xs = length ms \<and> perfect g, l')"
  proof (cases "length xs = length ms")
    case True
    obtain v l1 where v: "verify_all_elements_and_matchers_are_matched (map mt_describe_to ms) ps g l = (v, l1)"
      by fastforce
    obtain l2 where "find_pairing g l1 = Inr (perfect g, l2)"
      using find_pairing_verdict [of g l1] size True by auto
    moreover have "perfect g \<Longrightarrow> v"
      using perfect_verified [of g "map mt_describe_to ms" ps l] v by simp
    moreover have "perfect g" if "ms = []"
      using that True size by (simp add: perfect_def bij_betw_def)
    ultimately show ?thesis using g v size True
      by (cases v) (auto simp: match_unordered_def Let_def perfect_def bij_betw_def)
  next
    case False
    then show ?thesis using g size by (auto simp: match_unordered_def Let_def)
  qed
  ultimately show ?thesis by simp
qed

end
