(* ===== verification/Simple_Regex.thy ===== *)
theory Simple_Regex
  imports Gtest_Base
begin

text \<open>
  The regular expressions of \<open>gtest/src/gtest-port.cc\<close> on platforms without POSIX ones: the
  validation, the matcher, and the class \<open>RE\<close>. The theory gives the expressions a meaning as
  languages, by a parser into items that repeat, and proves that the validation accepts what the
  parser does and that the matcher decides the language.
\<close>

subsection \<open>Characters\<close>

definition is_in_set :: "char \<Rightarrow> string \<Rightarrow> bool" where
  "is_in_set ch str \<longleftrightarrow> ch \<noteq> nul \<and> ch \<in> set str"

definition is_ascii_digit :: "char \<Rightarrow> bool" where
  "is_ascii_digit ch = between CHR ''0'' CHR ''9'' ch"

definition is_ascii_punct :: "char \<Rightarrow> bool" where
  "is_ascii_punct ch = is_in_set ch
     (''^-!'' @ [quote] @ ''#$%&'' @ [apostrophe] @ ''()*+,./:;<=>?@['' @ [backslash] @ '']_`{|}~'')"

definition is_repeat :: "char \<Rightarrow> bool" where
  "is_repeat ch = is_in_set ch ''?*+''"

definition is_ascii_white_space :: "char \<Rightarrow> bool" where
  "is_ascii_white_space ch = is_in_set ch [CHR '' '', CHR 0x0C, CHR 0x0A, CHR 0x0D, CHR 0x09, CHR 0x0B]"

definition is_ascii_word_char :: "char \<Rightarrow> bool" where
  "is_ascii_word_char ch \<longleftrightarrow> between CHR ''a'' CHR ''z'' ch \<or> between CHR ''A'' CHR ''Z'' ch \<or>
     between CHR ''0'' CHR ''9'' ch \<or> ch = CHR ''_''"

definition is_valid_escape :: "char \<Rightarrow> bool" where
  "is_valid_escape c \<longleftrightarrow> is_ascii_punct c \<or> is_in_set c ''dDfnrsStvwW''"

definition atom_matches_char :: "bool \<Rightarrow> char \<Rightarrow> char \<Rightarrow> bool" where
  "atom_matches_char escaped pattern_char ch =
     (if escaped then
        if pattern_char = CHR ''d'' then is_ascii_digit ch
        else if pattern_char = CHR ''D'' then \<not> is_ascii_digit ch
        else if pattern_char = CHR ''f'' then ch = CHR 0x0C
        else if pattern_char = CHR ''n'' then ch = CHR 0x0A
        else if pattern_char = CHR ''r'' then ch = CHR 0x0D
        else if pattern_char = CHR ''s'' then is_ascii_white_space ch
        else if pattern_char = CHR ''S'' then \<not> is_ascii_white_space ch
        else if pattern_char = CHR ''t'' then ch = CHR 0x09
        else if pattern_char = CHR ''v'' then ch = CHR 0x0B
        else if pattern_char = CHR ''w'' then is_ascii_word_char ch
        else if pattern_char = CHR ''W'' then \<not> is_ascii_word_char ch
        else is_ascii_punct pattern_char \<and> pattern_char = ch
      else (pattern_char = CHR ''.'' \<and> ch \<noteq> CHR 0x0A) \<or> pattern_char = ch)"

subsection \<open>Validation\<close>

definition format_regex_syntax_error :: "string \<Rightarrow> nat \<Rightarrow> string" where
  "format_regex_syntax_error regex index =
     ''Syntax error at index '' @ string_of_nat index @ '' in simple regular expression '' @
     [quote] @ regex @ [quote] @ '': ''"

text \<open>
  \<open>validate_from regex i prev_repeatable is_valid rest\<close> is the loop when \<open>rest\<close> is what
  follows the index \<open>i\<close>; it returns the verdict and the failures that were added.
\<close>

fun validate_from :: "string \<Rightarrow> nat \<Rightarrow> bool \<Rightarrow> bool \<Rightarrow> string \<Rightarrow> bool \<times> string list" where
  "validate_from regex i prev_repeatable is_valid [] = (is_valid, [])"
| "validate_from regex i prev_repeatable is_valid (ch # rest) =
     (let failed = (\<lambda>at text. format_regex_syntax_error regex at @ text)
      in if ch = backslash then
        (case rest of
           [] \<Rightarrow> (False, [failed i ([apostrophe, backslash, apostrophe] @ '' cannot appear at the end.'')])
         | c # rest' \<Rightarrow>
             (if \<not> is_valid_escape c
              then let (v, fs) = validate_from regex (i + 2) True False rest'
                in (v, failed i (''invalid escape sequence '' @ [quote, backslash, c, quote] @ ''.'') # fs)
              else validate_from regex (i + 2) True is_valid rest'))
      else
        let failure =
              (if ch = CHR ''^'' \<and> 0 < i
               then Some ([apostrophe] @ ''^'' @ [apostrophe] @ '' can only appear at the beginning.'')
               else if ch = CHR ''$'' \<and> rest \<noteq> []
               then Some ([apostrophe] @ ''$'' @ [apostrophe] @ '' can only appear at the end.'')
               else if is_in_set ch ''()[]{}|''
               then Some ([apostrophe, ch, apostrophe] @ '' is unsupported.'')
               else if is_repeat ch \<and> \<not> prev_repeatable
               then Some ([apostrophe, ch, apostrophe] @ '' can only follow a repeatable token.'')
               else None);
            (v, fs) = validate_from regex (i + 1) (\<not> is_in_set ch ''^$?*+'')
              (is_valid \<and> failure = None) rest
        in (v, (case failure of None \<Rightarrow> [] | Some text \<Rightarrow> [failed i text]) @ fs))"

definition validate_regex :: "string option \<Rightarrow> bool \<times> string list" where
  "validate_regex regex =
     (case regex of
        None \<Rightarrow> (False, [''NULL is not a valid simple regular expression.''])
      | Some r \<Rightarrow> validate_from r 0 False True r)"

subsection \<open>Matching\<close>

text \<open>The largest count of repetitions, where \<open>size_t\<close> has 64 bits.\<close>

definition min_count :: "char \<Rightarrow> nat" where
  "min_count repeat = (if repeat = CHR ''+'' then 1 else 0)"

definition max_count :: "char \<Rightarrow> nat" where
  "max_count repeat = (if repeat = CHR ''?'' then 1 else 2 ^ 64 - 2)"

text \<open>
  A result of \<open>None\<close> is a read behind the terminator of the expression: a backslash at its end.
  The loop of \<open>MatchRepetitionAndRegexAtHead\<close> has the counter \<open>i\<close>, and \<open>str\<close> is what it has
  not yet passed; the function itself starts with 0.
\<close>

function match_regex_at_head :: "string \<Rightarrow> string \<Rightarrow> bool option"
  and match_repetition_from :: "bool \<Rightarrow> char \<Rightarrow> char \<Rightarrow> string \<Rightarrow> nat \<Rightarrow> string \<Rightarrow> bool option"
where
  "match_regex_at_head regex str =
     (case regex of
        [] \<Rightarrow> Some True
      | first # behind \<Rightarrow>
          if first = CHR ''$'' then Some (str = [])
          else
            let escaped = (first = backslash); regex = (if escaped then behind else first # behind)
            in case regex of
                 [] \<Rightarrow> None
               | c # [] \<Rightarrow>
                   if str \<noteq> [] \<and> atom_matches_char escaped c (hd str)
                   then match_regex_at_head [] (tl str) else Some False
               | c # repeat # tail \<Rightarrow>
                   if is_repeat repeat then match_repetition_from escaped c repeat tail 0 str
                   else if str \<noteq> [] \<and> atom_matches_char escaped c (hd str)
                   then match_regex_at_head (repeat # tail) (tl str) else Some False)"
| "match_repetition_from escaped c repeat regex i str =
     (case (if min_count repeat \<le> i then match_regex_at_head regex str else Some False) of
        None \<Rightarrow> None
      | Some True \<Rightarrow> Some True
      | Some False \<Rightarrow>
          if str = [] \<or> \<not> atom_matches_char escaped c (hd str) then Some False
          else if i < max_count repeat
          then match_repetition_from escaped c repeat regex (i + 1) (tl str)
          else Some False)"
  by pat_completeness auto

termination
  by (relation "measures [\<lambda>x. case x of Inl (regex, str) \<Rightarrow> 2 * length regex
        | Inr (e, c, rep, regex, i, str) \<Rightarrow> 2 * length regex + 1,
      \<lambda>x. case x of Inl (regex, str) \<Rightarrow> length str | Inr (e, c, rep, regex, i, str) \<Rightarrow> length str]")
    (auto split: if_splits)

declare match_regex_at_head.simps [simp del] match_repetition_from.simps [simp del]

definition match_repetition_and_regex_at_head ::
  "bool \<Rightarrow> char \<Rightarrow> char \<Rightarrow> string \<Rightarrow> string \<Rightarrow> bool option" where
  "match_repetition_and_regex_at_head escaped c repeat regex str =
     match_repetition_from escaped c repeat regex 0 str"

text \<open>The loop of \<open>MatchRegexAnywhere\<close> over the suffixes, the empty one included.\<close>

fun match_regex_somewhere :: "string \<Rightarrow> string \<Rightarrow> bool option" where
  "match_regex_somewhere regex str =
     (case match_regex_at_head regex str of
        None \<Rightarrow> None
      | Some True \<Rightarrow> Some True
      | Some False \<Rightarrow> (case str of [] \<Rightarrow> Some False | _ # str \<Rightarrow> match_regex_somewhere regex str))"

declare match_regex_somewhere.simps [simp del]

definition match_regex_anywhere :: "string option \<Rightarrow> string option \<Rightarrow> bool option" where
  "match_regex_anywhere regex str =
     (case (regex, str) of
        (Some regex, Some str) \<Rightarrow>
          if regex \<noteq> [] \<and> hd regex = CHR ''^'' then match_regex_at_head (tl regex) str
          else match_regex_somewhere regex str
      | _ \<Rightarrow> Some False)"

subsection \<open>The class \<open>RE\<close>\<close>

record re =
  re_pattern :: "string option"
  re_is_valid :: bool
  re_full_pattern :: "string option"

definition re_init :: "string option \<Rightarrow> re \<times> string list" where
  "re_init regex =
     (let (valid, failures) = validate_regex regex
      in (\<lparr>re_pattern = regex, re_is_valid = valid,
           re_full_pattern = (if \<not> valid then None else map_option (\<lambda>r.
              (if r = [] \<or> hd r \<noteq> CHR ''^'' then ''^'' else []) @ r @
              (if r = [] \<or> last r \<noteq> CHR ''$'' then ''$'' else [])) regex)\<rparr>, failures))"

definition re_full_match :: "string option \<Rightarrow> re \<Rightarrow> bool option" where
  "re_full_match str re = (if re_is_valid re then match_regex_anywhere (re_full_pattern re) str else Some False)"

definition re_partial_match :: "string option \<Rightarrow> re \<Rightarrow> bool option" where
  "re_partial_match str re = (if re_is_valid re then match_regex_anywhere (re_pattern re) str else Some False)"

subsection \<open>The language of an expression\<close>

text \<open>
  An expression without its leading caret is a list of items (an atom, escaped or not, and a
  repetition) and perhaps a dollar at its end.
\<close>

type_synonym item = "bool \<times> char \<times> char option"

definition take_repeat :: "string \<Rightarrow> char option \<times> string" where
  "take_repeat r = (case r of rep # r' \<Rightarrow> if is_repeat rep then (Some rep, r') else (None, r) | [] \<Rightarrow> (None, []))"

lemma take_repeat_shorter [termination_simp]: "(rep, r') = take_repeat r \<Longrightarrow> length r' \<le> length r"
  by (auto simp: take_repeat_def split: list.splits if_splits)

fun parse_regex :: "string \<Rightarrow> (item list \<times> bool) option" where
  "parse_regex [] = Some ([], False)"
| "parse_regex (ch # rest) =
     (if ch = CHR ''$'' then (if rest = [] then Some ([], True) else None)
      else if ch = backslash then
        (case rest of
           [] \<Rightarrow> None
         | c # rest \<Rightarrow>
             if is_valid_escape c
             then let (rep, rest) = take_repeat rest in map_option (apfst (Cons (True, c, rep))) (parse_regex rest)
             else None)
      else if ch \<in> set ''^()[]{}|?*+'' then None
      else let (rep, rest) = take_repeat rest in map_option (apfst (Cons (False, ch, rep))) (parse_regex rest))"

definition strip_caret :: "string \<Rightarrow> string" where
  "strip_caret r = (if r \<noteq> [] \<and> hd r = CHR ''^'' then tl r else r)"

fun repeats :: "char option \<Rightarrow> nat \<Rightarrow> bool" where
  "repeats None n = (n = 1)"
| "repeats (Some rep) n = (if rep = CHR ''?'' then n \<le> 1 else if rep = CHR ''+'' then 1 \<le> n else True)"

fun items_lang :: "item list \<Rightarrow> string set" where
  "items_lang [] = {[]}"
| "items_lang ((escaped, c, rep) # items) =
     {u @ v |u v. list_all (atom_matches_char escaped c) u \<and> repeats rep (length u) \<and> v \<in> items_lang items}"

definition regex_lang :: "string \<Rightarrow> string set" where
  "regex_lang r = (case parse_regex (strip_caret r) of None \<Rightarrow> {} | Some (items, dollar) \<Rightarrow> items_lang items)"

definition ends_in_dollar :: "string \<Rightarrow> bool" where
  "ends_in_dollar r = (case parse_regex (strip_caret r) of None \<Rightarrow> False | Some (items, dollar) \<Rightarrow> dollar)"

subsection \<open>Validation is parsing\<close>

fun well_formed :: "bool \<Rightarrow> bool \<Rightarrow> string \<Rightarrow> bool" where
  "well_formed prev start [] = True"
| "well_formed prev start (ch # rest) =
     (if ch = backslash
      then (case rest of [] \<Rightarrow> False | c # rest \<Rightarrow> is_valid_escape c \<and> well_formed True False rest)
      else (ch = CHR ''^'' \<longrightarrow> start) \<and> (ch = CHR ''$'' \<longrightarrow> rest = []) \<and> \<not> is_in_set ch ''()[]{}|'' \<and>
        (is_repeat ch \<longrightarrow> prev) \<and> well_formed (\<not> is_in_set ch ''^$?*+'') False rest)"

lemma fst_keep [simp]: "fst (case p of (v, fs) \<Rightarrow> (v, f fs)) = fst p"
  by (cases p) simp

lemma validate_from_verdict:
  "fst (validate_from regex i prev v rest) \<longleftrightarrow> v \<and> well_formed prev (i = 0) rest"
proof (induction regex i prev v rest rule: validate_from.induct)
  case (2 regex i prev v ch rest)
  show ?case
  proof (cases "ch = backslash")
    case True
    then show ?thesis using "2.IH"(1,2) by (cases rest) (simp_all add: Let_def)
  next
    case False
    then show ?thesis using "2.IH"(3) by (auto simp: Let_def)
  qed
qed simp

lemma is_repeat_chars: "is_repeat ch \<longleftrightarrow> ch = CHR ''?'' \<or> ch = CHR ''*'' \<or> ch = CHR ''+''"
  by (auto simp: is_repeat_def is_in_set_def)

lemma well_formed_after_repeat:
  "is_repeat rep \<Longrightarrow> well_formed True False (rep # r) = well_formed False False r"
  unfolding is_repeat_chars by (elim disjE) (simp_all add: is_in_set_def is_repeat_def)

lemma well_formed_repeat:
  assumes "\<And>r'. length r' \<le> length r \<Longrightarrow> well_formed False False r' \<longleftrightarrow> parse_regex r' \<noteq> None"
  shows "well_formed True False r \<longleftrightarrow> parse_regex (snd (take_repeat r)) \<noteq> None"
proof (cases r)
  case (Cons rep r')
  show ?thesis
  proof (cases "is_repeat rep")
    case True
    then show ?thesis using assms [of r'] Cons
      by (simp add: take_repeat_def well_formed_after_repeat del: well_formed.simps)
  next
    case False
    then have "well_formed True False r = well_formed False False r" using Cons by simp
    then show ?thesis using False assms [of r] Cons
      by (simp add: take_repeat_def del: well_formed.simps parse_regex.simps)
  qed
qed (simp add: take_repeat_def)

lemma well_formed_parses: "well_formed False False r \<longleftrightarrow> parse_regex r \<noteq> None"
proof (induction "length r" arbitrary: r rule: less_induct)
  case less
  show ?case
  proof (cases r)
    case (Cons ch rest)
    have IH: "well_formed False False r' \<longleftrightarrow> parse_regex r' \<noteq> None" if "length r' \<le> length rest" for r'
      using less [of r'] that Cons by simp
    have rep: "well_formed True False r' \<longleftrightarrow> parse_regex (snd (take_repeat r')) \<noteq> None"
      if "length r' \<le> length rest" for r'
      by (rule well_formed_repeat) (use IH that in auto)
    consider "ch = backslash" | "ch = CHR ''$''" | "ch \<in> set ''^()[]{}|?*+''"
      | "ch \<noteq> backslash" "ch \<noteq> CHR ''$''" "ch \<notin> set ''^()[]{}|?*+''"
      by blast
    then show ?thesis
    proof cases
      case 1
      then show ?thesis using Cons rep by (auto split: list.splits prod.splits)
    next
      case 2
      then show ?thesis using Cons by (auto simp: is_in_set_def is_repeat_def)
    next
      case 3
      then show ?thesis using Cons by (auto simp: is_in_set_def is_repeat_def)
    next
      case 4
      then have "\<not> is_in_set ch ''()[]{}|''" "\<not> is_repeat ch" "\<not> is_in_set ch ''^$?*+''" "ch \<noteq> CHR ''^''"
        by (auto simp: is_in_set_def is_repeat_def)
      then show ?thesis using 4 Cons rep [of rest] by (auto split: prod.splits)
    qed
  qed simp
qed

lemma well_formed_caret: "well_formed False True r \<longleftrightarrow> parse_regex (strip_caret r) \<noteq> None"
proof (cases "r \<noteq> [] \<and> hd r = CHR ''^''")
  case True
  then obtain r' where "r = CHR ''^'' # r'" by (cases r) auto
  then show ?thesis by (simp add: strip_caret_def is_in_set_def is_repeat_def well_formed_parses)
next
  case False
  then have "well_formed False True r = well_formed False False r" by (cases r) auto
  then show ?thesis using False by (auto simp: strip_caret_def well_formed_parses)
qed

lemma validate_parses: "fst (validate_regex (Some r)) \<longleftrightarrow> parse_regex (strip_caret r) \<noteq> None"
  by (simp add: validate_regex_def validate_from_verdict well_formed_caret)

subsection \<open>The matcher decides the language\<close>

text \<open>A prefix of the text is in the language of the items, all of the text behind a dollar.\<close>

definition at_head :: "item list \<Rightarrow> bool \<Rightarrow> string \<Rightarrow> bool" where
  "at_head items dollar str \<longleftrightarrow> (\<exists>p q. str = p @ q \<and> p \<in> items_lang items \<and> (dollar \<longrightarrow> q = []))"

lemma at_head_Nil: "at_head [] dollar str \<longleftrightarrow> (dollar \<longrightarrow> str = [])"
  by (auto simp: at_head_def)

lemma items_lang_ConsI:
  "list_all (atom_matches_char escaped c) u \<Longrightarrow> repeats rep (length u) \<Longrightarrow> v \<in> items_lang items \<Longrightarrow>
   u @ v \<in> items_lang ((escaped, c, rep) # items)"
  by auto

lemma at_head_Cons:
  "at_head ((escaped, c, rep) # items) dollar str \<longleftrightarrow>
   (\<exists>k \<le> length str. repeats rep k \<and> list_all (atom_matches_char escaped c) (take k str) \<and>
      at_head items dollar (drop k str))"
proof
  assume "at_head ((escaped, c, rep) # items) dollar str"
  then obtain p q where "str = p @ q" "p \<in> items_lang ((escaped, c, rep) # items)" "dollar \<longrightarrow> q = []"
    unfolding at_head_def by blast
  moreover from this(2) obtain u v where "p = u @ v" "list_all (atom_matches_char escaped c) u"
      "repeats rep (length u)" "v \<in> items_lang items"
    by auto
  ultimately have "str = u @ v @ q" "list_all (atom_matches_char escaped c) u" "repeats rep (length u)"
      "at_head items dollar (v @ q)"
    by (auto simp: at_head_def)
  then show "\<exists>k \<le> length str. repeats rep k \<and> list_all (atom_matches_char escaped c) (take k str) \<and>
      at_head items dollar (drop k str)"
    by (intro exI [of _ "length u"]) simp
next
  assume "\<exists>k \<le> length str. repeats rep k \<and> list_all (atom_matches_char escaped c) (take k str) \<and>
      at_head items dollar (drop k str)"
  then obtain k p q where "k \<le> length str" "repeats rep k" "list_all (atom_matches_char escaped c) (take k str)"
      "drop k str = p @ q" "p \<in> items_lang items" "dollar \<longrightarrow> q = []"
    by (auto simp: at_head_def)
  moreover from this have "take k str @ p \<in> items_lang ((escaped, c, rep) # items)"
    by (intro items_lang_ConsI) (simp_all add: min_def)
  moreover have "str = (take k str @ p) @ q"
    using \<open>drop k str = p @ q\<close> append_take_drop_id [of k str] by simp
  ultimately show "at_head ((escaped, c, rep) # items) dollar str"
    unfolding at_head_def by blast
qed

text \<open>The greatest length of a text, with which a count of repetitions cannot run out.\<close>

definition text_limit :: nat where
  "text_limit = 2 ^ 64 - 2"

lemma repeats_counts:
  "is_repeat rep \<Longrightarrow> k \<le> text_limit \<Longrightarrow> repeats (Some rep) k \<longleftrightarrow> min_count rep \<le> k \<and> k \<le> max_count rep"
  by (auto simp: is_repeat_chars min_count_def max_count_def text_limit_def)

lemma max_count_pos [simp]: "0 < max_count rep"
  by (simp add: max_count_def)

lemma ex_le_Suc_split: "(\<exists>k \<le> Suc n. P k) \<longleftrightarrow> P 0 \<or> (\<exists>k \<le> n. P (Suc k))"
  by (metis Suc_le_mono le0 not0_implies_Suc)

lemma match_repetition_from_counts:
  assumes tail: "\<And>str'. length str' \<le> length str \<Longrightarrow> match_regex_at_head regex str' = Some (H str')"
    and "i \<le> max_count rep"
  shows "match_repetition_from escaped c rep regex i str =
    Some (\<exists>k \<le> length str. min_count rep \<le> i + k \<and> i + k \<le> max_count rep \<and>
      list_all (atom_matches_char escaped c) (take k str) \<and> H (drop k str))"
  using assms
proof (induction str arbitrary: i)
  case Nil
  then show ?case by (subst match_repetition_from.simps) (auto split: bool.split)
next
  case (Cons a str)
  let ?ok = "\<lambda>i str k. min_count rep \<le> i + k \<and> i + k \<le> max_count rep \<and>
      list_all (atom_matches_char escaped c) (take k str) \<and> H (drop k str)"
  have "(\<exists>k \<le> length (a # str). ?ok i (a # str) k) \<longleftrightarrow>
      ?ok i (a # str) 0 \<or> (\<exists>k \<le> length str. ?ok i (a # str) (Suc k))"
    unfolding length_Cons ex_le_Suc_split ..
  also have "\<dots> \<longleftrightarrow> min_count rep \<le> i \<and> H (a # str) \<or>
      atom_matches_char escaped c a \<and> i < max_count rep \<and> (\<exists>k \<le> length str. ?ok (Suc i) str k)"
    using Cons.prems(2) Suc_le_eq by auto
  finally have split: "(\<exists>k \<le> length (a # str). ?ok i (a # str) k) \<longleftrightarrow> \<dots>" .
  have "match_repetition_from escaped c rep regex (Suc i) str = Some (\<exists>k \<le> length str. ?ok (Suc i) str k)"
    if "i < max_count rep"
    by (rule Cons.IH) (use Cons.prems that in auto)
  then show ?case unfolding split using Cons.prems
    by (subst match_repetition_from.simps) (auto split: bool.split)
qed

lemma parse_regex_Nil:
  "parse_regex r = Some ([], dollar) \<Longrightarrow> r = (if dollar then ''$'' else [])"
  by (cases r) (auto split: if_splits list.splits prod.splits)

lemma not_special:
  assumes "ch \<notin> set ''^()[]{}|?*+''"
  shows "\<not> is_repeat ch"
  using assms by (auto simp: is_repeat_chars)

lemma parse_regex_Cons:
  assumes "parse_regex r = Some ((escaped, c, rep) # items, dollar)"
  obtains rest where "r = (if escaped then [backslash] else []) @ c # rest" "\<not> escaped \<Longrightarrow> c \<noteq> backslash"
    "\<not> escaped \<Longrightarrow> c \<noteq> CHR ''$''"
    "fst (take_repeat rest) = rep" "parse_regex (snd (take_repeat rest)) = Some (items, dollar)"
proof (cases r)
  case Nil
  then show ?thesis using assms by simp
next
  case (Cons ch rest)
  consider "ch = backslash" | "ch = CHR ''$'' \<or> ch \<in> set ''^()[]{}|?*+''"
    | "ch \<noteq> backslash" "ch \<noteq> CHR ''$''" "ch \<notin> set ''^()[]{}|?*+''"
    by blast
  then show ?thesis
  proof cases
    case 1
    then obtain d rest' where "rest = d # rest'" using assms Cons by (cases rest) auto
    then show ?thesis using 1 assms Cons by (intro that [of rest']) (auto split: if_splits prod.splits)
  next
    case 2
    then show ?thesis using assms Cons by (auto split: if_splits)
  next
    case 3
    then show ?thesis using assms Cons by (intro that [of rest]) (auto split: prod.splits)
  qed
qed

lemma take_repeat_cases:
  "take_repeat rest = (None, tail) \<Longrightarrow> rest = tail \<and> (tail = [] \<or> \<not> is_repeat (hd tail))"
  "take_repeat rest = (Some rep, tail) \<Longrightarrow> rest = rep # tail \<and> is_repeat rep"
  by (auto simp: take_repeat_def split: list.splits if_splits)

lemma match_regex_at_head_item:
  assumes "r = (if escaped then [backslash] else []) @ c # rest" "\<not> escaped \<Longrightarrow> c \<noteq> backslash"
    "\<not> escaped \<Longrightarrow> c \<noteq> CHR ''$''"
  shows "match_regex_at_head r str =
    (case take_repeat rest of
       (Some rep, tail) \<Rightarrow> match_repetition_from escaped c rep tail 0 str
     | (None, tail) \<Rightarrow> if str \<noteq> [] \<and> atom_matches_char escaped c (hd str)
         then match_regex_at_head tail (tl str) else Some False)"
  using assms by (subst match_regex_at_head.simps) (auto simp: take_repeat_def Let_def split: list.split)

lemma match_regex_at_head_lang:
  "parse_regex r = Some (items, dollar) \<Longrightarrow> length str \<le> text_limit \<Longrightarrow>
   match_regex_at_head r str = Some (at_head items dollar str)"
proof (induction items arbitrary: r str)
  case Nil
  then show ?case using parse_regex_Nil [OF Nil(1)]
    by (subst match_regex_at_head.simps) (auto simp: at_head_Nil)
next
  case (Cons item items)
  obtain escaped c rep where item: "item = (escaped, c, rep)" by (cases item)
  obtain rest where r: "r = (if escaped then [backslash] else []) @ c # rest" "\<not> escaped \<Longrightarrow> c \<noteq> backslash"
      "\<not> escaped \<Longrightarrow> c \<noteq> CHR ''$''"
    and rest: "fst (take_repeat rest) = rep" "parse_regex (snd (take_repeat rest)) = Some (items, dollar)"
    using parse_regex_Cons Cons.prems(1) item by metis
  obtain tail where tail: "take_repeat rest = (rep, tail)" using rest(1) by (cases "take_repeat rest") auto
  have IH: "match_regex_at_head tail str' = Some (at_head items dollar str')" if "length str' \<le> length str" for str'
    using Cons.IH [of tail str'] Cons.prems(2) that rest(2) tail by simp
  show ?case
  proof (cases rep)
    case None
    show ?thesis
    proof (cases str)
      case Nil
      then show ?thesis using match_regex_at_head_item [OF r, of str] tail None item by (simp add: at_head_Cons)
    next
      case (Cons a str')
      then have "at_head (item # items) dollar str \<longleftrightarrow> atom_matches_char escaped c a \<and> at_head items dollar str'"
        by (auto simp: item None at_head_Cons)
      then show ?thesis using match_regex_at_head_item [OF r, of str] tail None Cons IH [of str'] by simp
    qed
  next
    case (Some rp)
    then have "is_repeat rp" using take_repeat_cases(2) tail by metis
    then have "repeats rep k \<longleftrightarrow> min_count rp \<le> k \<and> k \<le> max_count rp" if "k \<le> length str" for k
      using repeats_counts that Cons.prems(2) Some by simp
    moreover have "match_regex_at_head r str = match_repetition_from escaped c rp tail 0 str"
      using match_regex_at_head_item [OF r, of str] tail Some by simp
    moreover note match_repetition_from_counts [OF IH, of str 0 rp escaped c]
    ultimately show ?thesis by (auto simp: item at_head_Cons)
  qed
qed

subsection \<open>The class \<open>RE\<close>\<close>

lemma parse_append_dollar:
  "parse_regex r = Some (items, False) \<Longrightarrow> parse_regex (r @ ''$'') = Some (items, True)"
proof (induction items arbitrary: r)
  case Nil
  then show ?case using parse_regex_Nil [OF Nil] by simp
next
  case (Cons item items)
  obtain escaped c rep where item: "item = (escaped, c, rep)" by (cases item)
  obtain rest where r: "r = (if escaped then [backslash] else []) @ c # rest" "\<not> escaped \<Longrightarrow> c \<noteq> backslash"
      "\<not> escaped \<Longrightarrow> c \<noteq> CHR ''$''"
    and rest: "fst (take_repeat rest) = rep" "parse_regex (snd (take_repeat rest)) = Some (items, False)"
    using parse_regex_Cons Cons.prems(1) item by metis
  have more: "take_repeat (rest @ ''$'') = (rep, snd (take_repeat rest) @ ''$'')"
    using rest(1) by (auto simp: take_repeat_def is_repeat_chars split: list.splits)
  have "escaped \<Longrightarrow> is_valid_escape c" "\<not> escaped \<Longrightarrow> c \<notin> set ''^()[]{}|?*+''"
    using Cons.prems r item by (auto split: if_splits)
  then show ?case using r item more Cons.IH [OF rest(2)] by (cases escaped) auto
qed

lemma parse_dollar_last: "parse_regex r = Some (items, True) \<Longrightarrow> r \<noteq> [] \<and> last r = CHR ''$''"
proof (induction items arbitrary: r)
  case Nil
  then show ?case using parse_regex_Nil [OF Nil] by simp
next
  case (Cons item items)
  obtain escaped c rep where item: "item = (escaped, c, rep)" by (cases item)
  obtain rest where "r = (if escaped then [backslash] else []) @ c # rest"
    and rest: "parse_regex (snd (take_repeat rest)) = Some (items, True)"
    using parse_regex_Cons Cons.prems(1) item by metis
  moreover from Cons.IH [OF rest] have "rest \<noteq> []" "last rest = CHR ''$''"
    by (auto simp: take_repeat_def split: list.splits if_splits)
  ultimately show ?case by simp
qed

lemma items_lang_match: "at_head items dollar str \<longleftrightarrow> (\<exists>w v. str = w @ v \<and> w \<in> items_lang items \<and> (dollar \<longrightarrow> v = []))"
  by (simp add: at_head_def)

lemma match_regex_somewhere_lang:
  "parse_regex r = Some (items, dollar) \<Longrightarrow> length str \<le> text_limit \<Longrightarrow>
   match_regex_somewhere r str = Some (\<exists>u w. str = u @ w \<and> at_head items dollar w)"
proof (induction str)
  case Nil
  then show ?case by (subst match_regex_somewhere.simps) (simp add: match_regex_at_head_lang split: bool.split)
next
  case (Cons a str)
  have "(\<exists>u w. a # str = u @ w \<and> at_head items dollar w) \<longleftrightarrow>
      at_head items dollar (a # str) \<or> (\<exists>u w. str = u @ w \<and> at_head items dollar w)"
    by (metis append_Cons append_Nil neq_Nil_conv list.inject)
  then show ?case using Cons
    by (subst match_regex_somewhere.simps) (simp add: match_regex_at_head_lang split: bool.split)
qed

lemma re_init_fields:
  assumes "fst (validate_regex (Some r))"
  shows "fst (re_init (Some r)) = \<lparr>re_pattern = Some r, re_is_valid = True, re_full_pattern =
    Some (''^'' @ strip_caret r @ (if r = [] \<or> last r \<noteq> CHR ''$'' then ''$'' else []))\<rparr>"
proof -
  obtain fs where "validate_regex (Some r) = (True, fs)"
    using assms by (cases "validate_regex (Some r)") simp
  then show ?thesis by (cases r) (auto simp: re_init_def strip_caret_def)
qed

lemma full_match_language:
  assumes "fst (validate_regex (Some r))" and "length str \<le> text_limit"
    and "ends_in_dollar r \<or> r = [] \<or> last r \<noteq> CHR ''$''"
  shows "re_full_match (Some str) (fst (re_init (Some r))) = Some (str \<in> regex_lang r)"
proof -
  obtain items dollar where parse: "parse_regex (strip_caret r) = Some (items, dollar)"
    using assms(1) validate_parses by auto
  have "r \<noteq> [] \<and> last r = CHR ''$''" if dollar
    using parse_dollar_last [of "strip_caret r" items] parse that
    by (auto simp: strip_caret_def last_tl split: if_splits)
  then have "parse_regex (strip_caret r @ (if r = [] \<or> last r \<noteq> CHR ''$'' then ''$'' else [])) = Some (items, True)"
    using assms(3) parse parse_append_dollar [of "strip_caret r" items] by (cases dollar) (auto simp: ends_in_dollar_def)
  from match_regex_at_head_lang [OF this assms(2)] show ?thesis
    using assms(1) parse by (simp add: re_full_match_def match_regex_anywhere_def re_init_fields at_head_def regex_lang_def)
qed

lemma partial_match_language:
  assumes "fst (validate_regex (Some r))" and "length str \<le> text_limit"
  shows "re_partial_match (Some str) (fst (re_init (Some r))) =
    Some (\<exists>u w v. str = u @ w @ v \<and> w \<in> regex_lang r \<and>
      (strip_caret r \<noteq> r \<longrightarrow> u = []) \<and> (ends_in_dollar r \<longrightarrow> v = []))"
proof -
  obtain items dollar where parse: "parse_regex (strip_caret r) = Some (items, dollar)"
    using assms(1) validate_parses by auto
  show ?thesis
  proof (cases "r \<noteq> [] \<and> hd r = CHR ''^''")
    case True
    then obtain r' where r: "r = CHR ''^'' # r'" by (cases r) auto
    then have "strip_caret r = r'" by (simp add: strip_caret_def)
    then show ?thesis using assms(1) parse r match_regex_at_head_lang [OF _ assms(2), of r']
      by (auto simp: re_partial_match_def re_init_fields match_regex_anywhere_def regex_lang_def
          ends_in_dollar_def at_head_def)
  next
    case False
    then have "strip_caret r = r" by (auto simp: strip_caret_def)
    then show ?thesis using assms(1) parse False match_regex_somewhere_lang [OF _ assms(2), of r]
      by (auto simp: re_partial_match_def re_init_fields match_regex_anywhere_def regex_lang_def
          ends_in_dollar_def at_head_def)
  qed
qed

text \<open>
  Where the expression ends in an escaped dollar, no dollar is appended to it, and every word of
  its language ends in a dollar.
\<close>

lemma full_match_escaped_dollar:
  assumes "fst (validate_regex (Some r))" and "length str \<le> text_limit"
    and "\<not> ends_in_dollar r" and "r \<noteq> []" and "last r = CHR ''$''"
  shows "re_full_match (Some str) (fst (re_init (Some r))) = Some (\<exists>w v. str = w @ v \<and> w \<in> regex_lang r)"
proof -
  obtain items where parse: "parse_regex (strip_caret r) = Some (items, False)"
    using assms(1,3) validate_parses by (auto simp: ends_in_dollar_def)
  then show ?thesis
    using match_regex_at_head_lang [OF parse assms(2)] assms(1,4,5)
    by (simp add: re_full_match_def match_regex_anywhere_def re_init_fields at_head_def regex_lang_def)
qed

lemma take_repeat_splits:
  assumes "take_repeat r = (rep, r')"
  shows "r = (case rep of None \<Rightarrow> [] | Some c \<Rightarrow> [c]) @ r' \<and> (\<forall>c. rep = Some c \<longrightarrow> is_repeat c)"
  using assms take_repeat_cases by (cases rep) auto

lemma repeat_is_no_dollar: "is_repeat rep \<Longrightarrow> rep \<noteq> CHR ''$''"
  by (auto simp: is_repeat_def is_in_set_def)

lemma parse_escaped_dollar_last:
  "parse_regex r = Some (items, False) \<Longrightarrow> r \<noteq> [] \<Longrightarrow> last r = CHR ''$'' \<Longrightarrow>
   \<exists>its. items = its @ [(True, CHR ''$'', None)]"
proof (induction r arbitrary: items rule: parse_regex.induct)
  case (2 ch rest)
  have step: "\<exists>its. x # items' = its @ [(True, CHR ''$'', None)]" if "\<exists>its. items' = its @ [(True, CHR ''$'', None)]" for x items'
    using that by (metis append_Cons)
  show ?case
  proof (cases "ch = backslash")
    case True
    have plain: "ch \<noteq> CHR ''$''" using True by simp
    from True obtain c rest1 where rest: "rest = c # rest1" "is_valid_escape c"
      using 2(3) by (auto split: list.splits if_splits)
    obtain rep rest2 where take: "take_repeat rest1 = (rep, rest2)" by fastforce
    obtain items' where items: "items = (True, c, rep) # items'" "parse_regex rest2 = Some (items', False)"
      using 2(3) True rest take by auto
    show ?thesis
    proof (cases "rest2 = []")
      case True
      then have "rest1 = [] \<and> rep = None" using 2(5) rest(1) take_repeat_splits [OF take] repeat_is_no_dollar
        by (cases rep) auto
      then show ?thesis using 2(5) rest(1) items True by simp
    next
      case False
      then have "last rest2 = CHR ''$''" using 2(5) rest(1) take_repeat_splits [OF take] by (cases rep) auto
      then have "\<exists>its. items' = its @ [(True, CHR ''$'', None)]"
        using 2(1) True rest take [symmetric] items(2) False plain by simp
      then show ?thesis unfolding items(1) by (rule step)
    qed
  next
    case no: False
    have plain: "ch \<noteq> CHR ''$''" "ch \<notin> set ''^()[]{}|?*+''" using 2(3) no by (auto split: if_splits)
    obtain rep rest2 where take: "take_repeat rest = (rep, rest2)" by fastforce
    obtain items' where items: "items = (False, ch, rep) # items'" "parse_regex rest2 = Some (items', False)"
      using 2(3) no plain take by auto
    have "rest2 \<noteq> [] \<and> last rest2 = CHR ''$''"
      using 2(5) take_repeat_splits [OF take] plain(1) repeat_is_no_dollar by (cases rep) (auto split: if_splits)
    then have "\<exists>its. items' = its @ [(True, CHR ''$'', None)]"
      using 2(2) no plain take [symmetric] items(2) by simp
    then show ?thesis unfolding items(1) by (rule step)
  qed
qed simp

lemma items_lang_append: "w \<in> items_lang (its @ its') \<Longrightarrow> \<exists>u v. w = u @ v \<and> v \<in> items_lang its'"
proof (induction its arbitrary: w)
  case (Cons item its)
  then show ?case by (cases item) (auto, metis append.assoc)
qed auto

lemma escaped_dollar_words:
  assumes "w \<in> regex_lang r" and "\<not> ends_in_dollar r" and "r \<noteq> []" and "last r = CHR ''$''"
  shows "w \<noteq> [] \<and> last w = CHR ''$''"
proof -
  obtain items where parse: "parse_regex (strip_caret r) = Some (items, False)" and w: "w \<in> items_lang items"
    using assms(1,2) by (auto simp: regex_lang_def ends_in_dollar_def split: option.splits)
  have "strip_caret r \<noteq> [] \<and> last (strip_caret r) = CHR ''$''"
    using assms(3,4) by (cases r) (auto simp: strip_caret_def split: if_splits)
  then obtain its where "items = its @ [(True, CHR ''$'', None)]" using parse_escaped_dollar_last [OF parse] by blast
  with w obtain u v where v: "w = u @ v" "v \<in> items_lang [(True, CHR ''$'', None)]" using items_lang_append by blast
  then have "v = ''$''" by (auto simp: atom_matches_char_def is_ascii_punct_def is_in_set_def length_Suc_conv split: if_splits)
  then show ?thesis using v(1) by simp
qed

end
