(* ===== verification/Gtest_Text.thy ===== *)
theory Gtest_Text
  imports Gtest_Base
begin

text \<open>
  The text utilities of \<open>gtest/src/gtest.cc\<close>: messages and assertion results, UTF-8, comparison
  of C strings, number formats and the assertions on strings. A wide character is a 32-bit word;
  \<open>wchar_size\<close> is \<open>sizeof(wchar_t)\<close>. The theory proves that what is encoded decodes to the code
  points it was made from, and shows which numbers past the last code point are encoded too.
\<close>

subsection \<open>Messages\<close>

text \<open>\<open>StringStreamToString\<close>: NUL bytes become a backslash and a zero.\<close>

definition string_stream_to_string :: "string \<Rightarrow> string" where
  "string_stream_to_string str = concat (map (\<lambda>ch. if ch = nul then [backslash, CHR ''0''] else [ch]) str)"

definition show_c_string :: "string option \<Rightarrow> string" where
  "show_c_string pointer = (case pointer of None \<Rightarrow> ''(null)'' | Some str \<Rightarrow> str)"

text \<open>What a \<open>std::string\<close> gives to a function that takes a C string.\<close>

definition c_str :: "string \<Rightarrow> string" where
  "c_str str = takeWhile (\<lambda>ch. ch \<noteq> nul) str"

definition append_user_message :: "string \<Rightarrow> string \<Rightarrow> string" where
  "append_user_message gtest_msg user_msg =
     (let user_msg_string = string_stream_to_string user_msg
      in if user_msg_string = [] then gtest_msg else gtest_msg @ newline @ user_msg_string)"

record assertion_result =
  ar_success :: bool
  ar_message :: "string option"

definition assertion_success :: assertion_result where
  "assertion_success = \<lparr>ar_success = True, ar_message = None\<rparr>"

definition assertion_failure :: assertion_result where
  "assertion_failure = \<lparr>ar_success = False, ar_message = None\<rparr>"

definition assertion_message :: "assertion_result \<Rightarrow> string" where
  "assertion_message r = (case ar_message r of None \<Rightarrow> [] | Some text \<Rightarrow> c_str text)"

definition append_message :: "assertion_result \<Rightarrow> string \<Rightarrow> assertion_result" where
  "append_message r text =
     (let old = (case ar_message r of None \<Rightarrow> [] | Some old \<Rightarrow> old)
      in r\<lparr>ar_message := Some (old @ string_stream_to_string text)\<rparr>)"

definition negate_result :: "assertion_result \<Rightarrow> assertion_result" where
  "negate_result r =
     (let negation = \<lparr>ar_success = \<not> ar_success r, ar_message = None\<rparr>
      in case ar_message r of None \<Rightarrow> negation | Some text \<Rightarrow> append_message negation text)"

text \<open>A failure with the pieces of text that are streamed into it.\<close>

definition failure_with :: "string list \<Rightarrow> assertion_result" where
  "failure_with pieces = foldl append_message assertion_failure pieces"

definition eq_failure :: "string \<Rightarrow> string \<Rightarrow> string \<Rightarrow> string \<Rightarrow> bool \<Rightarrow> assertion_result" where
  "eq_failure expected_expression actual_expression expected_value actual_value ignoring_case =
     append_message assertion_failure
       (''Value of: '' @ actual_expression @
        (if actual_value \<noteq> actual_expression then newline @ ''  Actual: '' @ actual_value else []) @
        newline @ ''Expected: '' @ expected_expression @
        (if ignoring_case then '' (ignoring case)'' else []) @
        (if expected_value \<noteq> expected_expression then newline @ ''Which is: '' @ expected_value else []))"

definition get_bool_assertion_failure_message :: "assertion_result \<Rightarrow> string \<Rightarrow> string \<Rightarrow> string \<Rightarrow> string" where
  "get_bool_assertion_failure_message assertion_result expression_text actual_predicate_value
     expected_predicate_value =
     (let actual_message = assertion_message assertion_result
      in string_stream_to_string
        (''Value of: '' @ expression_text @ newline @ ''  Actual: '' @ actual_predicate_value @
         (if actual_message \<noteq> [] then '' ('' @ actual_message @ '')'' else []) @
         newline @ ''Expected: '' @ expected_predicate_value))"

subsection \<open>Number formats\<close>

definition hex_digit :: "nat \<Rightarrow> char" where
  "hex_digit n = (if n < 10 then char_of (48 + n) else char_of (55 + n))"

fun hex_of_nat :: "nat \<Rightarrow> string" where
  "hex_of_nat n = (if n < 16 then [hex_digit n] else hex_of_nat (n div 16) @ [hex_digit (n mod 16)])"

declare hex_of_nat.simps [simp del]

text \<open>\<open>setw(2)\<close> and \<open>setfill('0')\<close>; a negative number is filled in front of its sign.\<close>

definition width2 :: "string \<Rightarrow> string" where
  "width2 text = replicate (2 - length text) CHR ''0'' @ text"

definition format_int_width2 :: "int \<Rightarrow> string" where
  "format_int_width2 value = width2 (string_of_int value)"

definition format_hex_int :: "u32 \<Rightarrow> string" where
  "format_hex_int value = hex_of_nat (unat value)"

definition format_byte :: "byte \<Rightarrow> string" where
  "format_byte value = width2 (hex_of_nat (unat value))"

definition format_word_list :: "string list \<Rightarrow> string" where
  "format_word_list words = string_stream_to_string (concat (map (\<lambda>(i, word).
     (if 0 < i \<and> 2 < length words then '', '' else []) @
     (if i = length words - 1 then ''and '' else []) @ [apostrophe] @ word @ [apostrophe])
     (zip [0..<length words] words)))"

subsection \<open>UTF-8\<close>

definition k_max_code_point1 :: u32 where "k_max_code_point1 = push_bit 7 1 - 1"
definition k_max_code_point2 :: u32 where "k_max_code_point2 = push_bit (5 + 6) 1 - 1"
definition k_max_code_point3 :: u32 where "k_max_code_point3 = push_bit (4 + 2 * 6) 1 - 1"
definition k_max_code_point4 :: u32 where "k_max_code_point4 = push_bit (3 + 3 * 6) 1 - 1"

text \<open>Returns the low bits and what is left of the pattern.\<close>

definition chop_low_bits :: "u32 \<Rightarrow> nat \<Rightarrow> u32 \<times> u32" where
  "chop_low_bits bits n = (bits AND (push_bit n 1 - 1), drop_bit n bits)"

definition to_char :: "u32 \<Rightarrow> char" where
  "to_char w = char_of (unat w)"

definition code_point_to_utf8 :: "u32 \<Rightarrow> string" where
  "code_point_to_utf8 code_point =
     (if k_max_code_point4 < code_point
      then ''(Invalid Unicode 0x'' @ format_hex_int code_point @ '')''
      else c_str
        (if code_point \<le> k_max_code_point1 then [to_char code_point]
         else if code_point \<le> k_max_code_point2 then
           let (low1, code_point) = chop_low_bits code_point 6
           in [to_char (0xC0 OR code_point), to_char (0x80 OR low1)]
         else if code_point \<le> k_max_code_point3 then
           let (low2, code_point) = chop_low_bits code_point 6;
               (low1, code_point) = chop_low_bits code_point 6
           in [to_char (0xE0 OR code_point), to_char (0x80 OR low1), to_char (0x80 OR low2)]
         else
           let (low3, code_point) = chop_low_bits code_point 6;
               (low2, code_point) = chop_low_bits code_point 6;
               (low1, code_point) = chop_low_bits code_point 6
           in [to_char (0xF0 OR code_point), to_char (0x80 OR low1), to_char (0x80 OR low2),
               to_char (0x80 OR low3)]))"

definition is_utf16_surrogate_pair :: "nat \<Rightarrow> u32 \<Rightarrow> u32 \<Rightarrow> bool" where
  "is_utf16_surrogate_pair wchar_size first second \<longleftrightarrow>
     wchar_size = 2 \<and> first AND 0xFC00 = 0xD800 \<and> second AND 0xFC00 = 0xDC00"

definition create_code_point_from_utf16_surrogate_pair :: "nat \<Rightarrow> u32 \<Rightarrow> u32 \<Rightarrow> u32" where
  "create_code_point_from_utf16_surrogate_pair wchar_size first second =
     (let mask = push_bit 10 1 - 1
      in if wchar_size = 2
         then (push_bit 10 (first AND mask) OR (second AND mask)) + 0x10000
         else first)"

text \<open>
  The loop of \<open>WideStringToUtf8\<close> over the characters that \<open>num_chars\<close> admits; with -1 these are
  the characters before the terminator.
\<close>

fun wide_chars_loop :: "nat \<Rightarrow> u32 list \<Rightarrow> string" where
  "wide_chars_loop wchar_size [] = []"
| "wide_chars_loop wchar_size [w] = (if w = 0 then [] else code_point_to_utf8 w)"
| "wide_chars_loop wchar_size (w # v # ws) =
     (if w = 0 then []
      else if is_utf16_surrogate_pair wchar_size w v
      then code_point_to_utf8 (create_code_point_from_utf16_surrogate_pair wchar_size w v) @
        wide_chars_loop wchar_size ws
      else code_point_to_utf8 w @ wide_chars_loop wchar_size (v # ws))"

definition wide_string_to_utf8 :: "nat \<Rightarrow> u32 list \<Rightarrow> string" where
  "wide_string_to_utf8 wchar_size ws = string_stream_to_string (wide_chars_loop wchar_size ws)"

definition show_wide_c_string :: "nat \<Rightarrow> u32 list option \<Rightarrow> string" where
  "show_wide_c_string wchar_size wide_c_str =
     (case wide_c_str of None \<Rightarrow> ''(null)'' | Some ws \<Rightarrow> wide_string_to_utf8 wchar_size ws)"

text \<open>A \<open>std::wstring\<close> with NUL characters is streamed in pieces.\<close>

function stream_wide_chars_to_message :: "nat \<Rightarrow> u32 list \<Rightarrow> string" where
  "stream_wide_chars_to_message wchar_size [] = []"
| "stream_wide_chars_to_message wchar_size (w # ws) =
     (if w \<noteq> 0
      then wide_string_to_utf8 wchar_size (w # ws) @
        stream_wide_chars_to_message wchar_size (dropWhile (\<lambda>v. v \<noteq> 0) (w # ws))
      else nul # stream_wide_chars_to_message wchar_size ws)"
  by pat_completeness auto

termination
  by (relation "measure (\<lambda>(_, ws). length ws)") (auto simp: less_Suc_eq_le length_dropWhile_le)

subsection \<open>Comparison of C strings\<close>

definition c_string_equals :: "string option \<Rightarrow> string option \<Rightarrow> bool" where
  "c_string_equals lhs rhs =
     (case lhs of None \<Rightarrow> rhs = None | Some l \<Rightarrow> (case rhs of None \<Rightarrow> False | Some r \<Rightarrow> l = r))"

definition wide_c_string_equals :: "u32 list option \<Rightarrow> u32 list option \<Rightarrow> bool" where
  "wide_c_string_equals lhs rhs =
     (case lhs of None \<Rightarrow> rhs = None | Some l \<Rightarrow> (case rhs of None \<Rightarrow> False | Some r \<Rightarrow> l = r))"

text \<open>\<open>strcasecmp\<close> returns 0.\<close>

definition str_case_equal :: "string \<Rightarrow> string \<Rightarrow> bool" where
  "str_case_equal l r \<longleftrightarrow> map to_lower l = map to_lower r"

definition case_insensitive_c_string_equals :: "string option \<Rightarrow> string option \<Rightarrow> bool" where
  "case_insensitive_c_string_equals lhs rhs =
     (case lhs of None \<Rightarrow> rhs = None
      | Some l \<Rightarrow> (case rhs of None \<Rightarrow> False | Some r \<Rightarrow> str_case_equal l r))"

definition ends_with_case_insensitive :: "string \<Rightarrow> string \<Rightarrow> bool" where
  "ends_with_case_insensitive str suffix \<longleftrightarrow>
     length suffix \<le> length str \<and>
     case_insensitive_c_string_equals (Some (c_str (drop (length str - length suffix) str))) (Some (c_str suffix))"

text \<open>\<open>towlower\<close> is that of the current locale.\<close>

definition case_insensitive_wide_c_string_equals ::
  "(u32 \<Rightarrow> u32) \<Rightarrow> u32 list option \<Rightarrow> u32 list option \<Rightarrow> bool" where
  "case_insensitive_wide_c_string_equals towlower lhs rhs =
     (case lhs of None \<Rightarrow> rhs = None
      | Some l \<Rightarrow> (case rhs of None \<Rightarrow> False | Some r \<Rightarrow> map towlower l = map towlower r))"

subsection \<open>Decoding\<close>

fun continuation :: "nat \<Rightarrow> nat \<Rightarrow> string \<Rightarrow> (nat \<times> string) option" where
  "continuation 0 acc cs = Some (acc, cs)"
| "continuation (Suc k) acc [] = None"
| "continuation (Suc k) acc (c # cs) =
     (let n = of_char c in if 0x80 \<le> n \<and> n < 0xC0 then continuation k (acc * 64 + (n - 0x80)) cs else None)"

fun decode_utf8 :: "string \<Rightarrow> (nat \<times> string) option" where
  "decode_utf8 [] = None"
| "decode_utf8 (c # cs) =
     (let n = of_char c
      in if n < 0x80 then Some (n, cs)
         else if n < 0xC0 then None
         else if n < 0xE0 then continuation 1 (n - 0xC0) cs
         else if n < 0xF0 then continuation 2 (n - 0xE0) cs
         else if n < 0xF8 then continuation 3 (n - 0xF0) cs
         else None)"

lemma or_is_add:
  assumes "unat (x :: u32) < 2 ^ n" and "h AND mask n = 0"
  shows "h OR x = h + x"
proof -
  have "uint x < 2 ^ n" using assms(1) of_nat_less_iff [of "unat x" "2 ^ n", where 'a = int] by simp
  then have x: "x AND mask n = x" by (rule mask_eq_iff [THEN iffD2])
  have "h AND (x AND mask n) = (h AND mask n) AND x" by (simp only: and.assoc and.commute and.left_commute)
  then have "h AND x = 0" by (simp add: x assms(2))
  then show ?thesis by (simp add: disjunctive_add_eq_or)
qed

lemma or_unat:
  assumes "unat (x :: u32) < 2 ^ n" and "h AND mask n = 0" and "unat h + unat x < 2 ^ 32"
  shows "unat (h OR x) = unat h + unat x"
  using or_is_add [OF assms(1,2)] assms(3) unat_add_lem [of h x] by simp

lemma chop_low_bits_unat:
  "chop_low_bits bits 6 = (lo, hi) \<Longrightarrow> unat lo = unat bits mod 64 \<and> unat hi = unat bits div 64"
proof -
  assume chop: "chop_low_bits bits 6 = (lo, hi)"
  have "lo = take_bit 6 bits" using chop by (auto simp: chop_low_bits_def take_bit_eq_mask mask_eq_exp_minus_1)
  moreover have "hi = drop_bit 6 bits" using chop by (simp add: chop_low_bits_def)
  ultimately show ?thesis
    by (simp add: unsigned_take_bit_eq unsigned_drop_bit_eq take_bit_eq_mod drop_bit_eq_div
        unat_mod unat_div)
qed

lemma of_char_to_char: "of_char (to_char w) = unat w mod 256"
  by (simp add: to_char_def)

text \<open>A continuation byte and the three kinds of leading bytes.\<close>

lemma continuation_byte: "unat x < 64 \<Longrightarrow> of_char (to_char (0x80 OR x)) = 0x80 + unat x"
  by (subst of_char_to_char, subst or_unat [of _ 6]) (simp_all add: mask_eq_exp_minus_1)

lemma lead_bytes:
  "unat x < 32 \<Longrightarrow> of_char (to_char (0xC0 OR x)) = 0xC0 + unat x"
  "unat x < 16 \<Longrightarrow> of_char (to_char (0xE0 OR x)) = 0xE0 + unat x"
  "unat x < 8 \<Longrightarrow> of_char (to_char (0xF0 OR x)) = 0xF0 + unat x"
  by (subst of_char_to_char, subst or_unat [of _ 5], simp_all add: mask_eq_exp_minus_1)
    (subst of_char_to_char, subst or_unat [of _ 4], simp_all add: mask_eq_exp_minus_1,
      subst of_char_to_char, subst or_unat [of _ 3], simp_all add: mask_eq_exp_minus_1)

lemma not_nul: "0 < (of_char c :: nat) \<Longrightarrow> c \<noteq> nul"
  by (auto simp: of_char_def)

lemma max_code_points:
  "unat k_max_code_point1 = 0x7F" "unat k_max_code_point2 = 0x7FF"
  "unat k_max_code_point3 = 0xFFFF" "unat k_max_code_point4 = 0x1FFFFF"
  by (simp_all add: k_max_code_point1_def k_max_code_point2_def k_max_code_point3_def k_max_code_point4_def)

lemma decode_code_point:
  assumes "0 < cp" and "cp \<le> k_max_code_point4"
  shows "decode_utf8 (code_point_to_utf8 cp @ cs) = Some (unat cp, cs)"
proof -
  obtain l3 c3 where c3: "chop_low_bits cp 6 = (l3, c3)" by fastforce
  obtain l2 c2 where c2: "chop_low_bits c3 6 = (l2, c2)" by fastforce
  obtain l1 c1 where c1: "chop_low_bits c2 6 = (l1, c1)" by fastforce
  note chops = chop_low_bits_unat [OF c3] chop_low_bits_unat [OF c2] chop_low_bits_unat [OF c1]
  have pos: "0 < unat cp" using assms(1) by (simp add: unat_gt_0 word_neq_0_conv)
  have small: "unat l1 < 64" "unat l2 < 64" "unat l3 < 64" using chops by simp_all
  note cont = continuation_byte [OF small(1)] continuation_byte [OF small(2)] continuation_byte [OF small(3)]
  have notnul: "to_char (0x80 OR l1) \<noteq> nul" "to_char (0x80 OR l2) \<noteq> nul" "to_char (0x80 OR l3) \<noteq> nul"
    by (rule not_nul, simp add: cont)+
  have sum: "unat cp = unat c3 * 64 + unat l3" "unat c3 = unat c2 * 64 + unat l2" "unat c2 = unat c1 * 64 + unat l1"
    using chops by simp_all
  have bound: "unat cp \<le> 0x1FFFFF" using assms(2) max_code_points by (simp add: word_le_nat_alt)
  consider "unat cp \<le> 0x7F" | "0x7F < unat cp" "unat cp \<le> 0x7FF" | "0x7FF < unat cp" "unat cp \<le> 0xFFFF"
    | "0xFFFF < unat cp"
    by linarith
  then show ?thesis
  proof cases
    case 1
    then have "of_char (to_char cp) = unat cp" by (simp add: of_char_to_char)
    moreover from this pos have "to_char cp \<noteq> nul" by (intro not_nul) simp
    ultimately show ?thesis using 1 assms(2)
      by (simp add: code_point_to_utf8_def word_le_nat_alt max_code_points word_less_nat_alt c_str_def)
  next
    case 2
    then have "unat c3 < 32" using sum by linarith
    note lead = lead_bytes(1) [OF this]
    moreover from lead have "to_char (0xC0 OR c3) \<noteq> nul" by (intro not_nul) simp
    ultimately show ?thesis using 2 assms(2) cont notnul sum c3 \<open>unat c3 < 32\<close> small
      by (simp add: code_point_to_utf8_def word_le_nat_alt max_code_points word_less_nat_alt c_str_def)
  next
    case 3
    then have "unat c2 < 16" using sum by linarith
    note lead = lead_bytes(2) [OF this]
    moreover from lead have "to_char (0xE0 OR c2) \<noteq> nul" by (intro not_nul) simp
    ultimately show ?thesis using 3 assms(2) cont notnul sum c3 c2 \<open>unat c2 < 16\<close> small
      by (simp add: code_point_to_utf8_def word_le_nat_alt max_code_points word_less_nat_alt c_str_def
          numeral_2_eq_2)
  next
    case 4
    then have "unat c1 < 8" using sum bound by linarith
    note lead = lead_bytes(3) [OF this]
    moreover from lead have "to_char (0xF0 OR c1) \<noteq> nul" by (intro not_nul) simp
    ultimately show ?thesis using 4 assms(2) cont notnul sum c3 c2 c1 \<open>unat c1 < 8\<close> small
      by (simp add: code_point_to_utf8_def word_le_nat_alt max_code_points word_less_nat_alt c_str_def
          numeral_3_eq_3)
  qed
qed

lemma decode_utf8_shorter:
  "continuation k acc cs = Some (n, rest) \<Longrightarrow> length rest \<le> length cs"
  "decode_utf8 cs = Some (n, rest) \<Longrightarrow> length rest < length cs"
proof -
  show *: "length rest \<le> length cs" if "continuation k acc cs = Some (n, rest)" for k acc cs
    using that by (induction k acc cs rule: continuation.induct) (auto simp: Let_def split: if_splits)
  show "length rest < length cs" if "decode_utf8 cs = Some (n, rest)"
    using that by (cases cs) (auto simp: Let_def less_Suc_eq_le split: if_splits dest: *)
qed

function decode_all :: "string \<Rightarrow> nat list option" where
  "decode_all cs =
     (if cs = [] then Some []
      else case decode_utf8 cs of None \<Rightarrow> None | Some (n, cs) \<Rightarrow> map_option (Cons n) (decode_all cs))"
  by pat_completeness auto

termination
  by (relation "measure length") (auto dest: decode_utf8_shorter)

declare decode_all.simps [simp del]

lemma decode_all_Nil [simp]: "decode_all [] = Some []"
  by (simp add: decode_all.simps)

lemma decode_all_point:
  assumes "0 < cp" and "cp \<le> k_max_code_point4"
  shows "decode_all (code_point_to_utf8 cp @ cs) = map_option (Cons (unat cp)) (decode_all cs)"
proof -
  have "code_point_to_utf8 cp @ cs \<noteq> []" using decode_code_point [OF assms, of cs] by (auto simp del: append_is_Nil_conv)
  then show ?thesis using decode_code_point [OF assms, of cs] by (subst decode_all.simps) simp
qed

lemma string_stream_identity: "nul \<notin> set str \<Longrightarrow> string_stream_to_string str = str"
  by (induction str) (auto simp: string_stream_to_string_def)

lemma c_str_no_nul [simp]: "nul \<notin> set (c_str str)"
  by (auto simp: c_str_def dest: set_takeWhileD)

lemma code_point_no_nul: "cp \<le> k_max_code_point4 \<Longrightarrow> nul \<notin> set (code_point_to_utf8 cp)"
  by (simp add: code_point_to_utf8_def linorder_not_le [symmetric])

subsection \<open>Wide strings come back\<close>

text \<open>A valid code point of UTF-32: neither NUL nor past what four bytes hold.\<close>

definition encodable :: "u32 \<Rightarrow> bool" where
  "encodable w \<longleftrightarrow> 0 < w \<and> w \<le> k_max_code_point4"

lemma utf32_loop:
  assumes "wchar_size \<noteq> 2" and "list_all encodable ws"
  shows "nul \<notin> set (wide_chars_loop wchar_size ws) \<and> decode_all (wide_chars_loop wchar_size ws) = Some (map unat ws)"
  using assms
proof (induction wchar_size ws rule: wide_chars_loop.induct)
  case (2 wchar_size w)
  then show ?case using decode_all_point [of w "[]"] by (auto simp: encodable_def code_point_no_nul)
next
  case (3 wchar_size w v ws)
  then show ?case using decode_all_point [of w]
    by (auto simp: encodable_def code_point_no_nul is_utf16_surrogate_pair_def)
qed simp

lemma wide_string_utf32:
  "list_all encodable ws \<Longrightarrow> decode_all (wide_string_to_utf8 4 ws) = Some (map unat ws)"
  using utf32_loop [of 4 ws] by (simp add: wide_string_to_utf8_def string_stream_identity)

text \<open>The UTF-16 code units of a code point, and the code points that Unicode has.\<close>

definition utf16_of :: "u32 \<Rightarrow> u32 list" where
  "utf16_of cp =
     (if cp < 0x10000 then [cp]
      else [0xD800 OR drop_bit 10 (cp - 0x10000), 0xDC00 OR take_bit 10 (cp - 0x10000)])"

definition scalar_value :: "u32 \<Rightarrow> bool" where
  "scalar_value cp \<longleftrightarrow> 0 < cp \<and> cp \<le> 0x10FFFF \<and> \<not> (0xD800 \<le> cp \<and> cp \<le> 0xDFFF)"

lemma scalar_encodable: "scalar_value cp \<Longrightarrow> encodable cp"
  by (auto simp: scalar_value_def encodable_def word_le_nat_alt max_code_points)

lemma and_fc00:
  assumes "unat (x :: u32) < 1024" and "h AND 0x3FF = 0"
  shows "(h OR x) AND 0xFC00 = h AND 0xFC00" and "(h OR x) AND 0x3FF = x"
proof -
  have "uint x < 2 ^ 10" using assms(1) of_nat_less_iff [of "unat x" "2 ^ 10", where 'a = int] by simp
  then have "x AND mask 10 = x" by (rule mask_eq_iff [THEN iffD2])
  then have x: "x AND 0x3FF = x" by (simp add: mask_eq_exp_minus_1)
  have "x AND 0xFC00 = x AND (0x3FF AND 0xFC00)" by (subst x [symmetric]) (simp add: and.assoc)
  then show "(h OR x) AND 0xFC00 = h AND 0xFC00" by (simp add: bit.conj_disj_distrib2)
  show "(h OR x) AND 0x3FF = x" using x assms(2) by (simp add: bit.conj_disj_distrib2)
qed

lemma surrogates:
  assumes "0x10000 \<le> cp" and "cp \<le> 0x10FFFF"
  shows "is_utf16_surrogate_pair 2 (0xD800 OR drop_bit 10 (cp - 0x10000)) (0xDC00 OR take_bit 10 (cp - 0x10000))"
    and "create_code_point_from_utf16_surrogate_pair 2 (0xD800 OR drop_bit 10 (cp - 0x10000))
      (0xDC00 OR take_bit 10 (cp - 0x10000)) = cp"
proof -
  let ?d = "cp - 0x10000"
  have "unat ?d = unat cp - 0x10000" "unat cp \<le> 0x10FFFF"
    using assms by (simp_all add: unat_sub word_le_nat_alt)
  then have "unat (drop_bit 10 ?d) < 1024"
    by (simp add: drop_bit_eq_div unat_div)
  moreover have "unat (take_bit 10 ?d) < 1024"
    by (simp add: take_bit_eq_mod unat_mod)
  ultimately have parts:
      "(0xD800 OR drop_bit 10 ?d) AND 0xFC00 = 0xD800 AND 0xFC00" "(0xD800 OR drop_bit 10 ?d) AND 0x3FF = drop_bit 10 ?d"
      "(0xDC00 OR take_bit 10 ?d) AND 0xFC00 = 0xDC00 AND 0xFC00" "(0xDC00 OR take_bit 10 ?d) AND 0x3FF = take_bit 10 ?d"
    using and_fc00 [of "drop_bit 10 ?d" "0xD800"] and_fc00 [of "take_bit 10 ?d" "0xDC00"] by simp_all
  then show "is_utf16_surrogate_pair 2 (0xD800 OR drop_bit 10 ?d) (0xDC00 OR take_bit 10 ?d)"
    unfolding is_utf16_surrogate_pair_def by simp
  have whole: "push_bit 10 (drop_bit 10 ?d) OR take_bit 10 ?d = ?d"
    by (rule bit_word_eqI) (auto simp: bit_simps)
  have mask: "push_bit 10 1 - 1 = (0x3FF :: u32)" by simp
  then show "create_code_point_from_utf16_surrogate_pair 2 (0xD800 OR drop_bit 10 ?d)
      (0xDC00 OR take_bit 10 ?d) = cp"
    unfolding create_code_point_from_utf16_surrogate_pair_def Let_def mask parts whole by simp
qed

lemma bmp_no_surrogate:
  assumes "cp < 0x10000" and "scalar_value cp"
  shows "\<not> is_utf16_surrogate_pair 2 cp v"
proof
  assume "is_utf16_surrogate_pair 2 cp v"
  then have fc: "cp AND 0xFC00 = 0xD800" by (simp add: is_utf16_surrogate_pair_def)
  have "cp = cp AND 0xFFFF"
    using assms(1) mask_eq_iff [of cp 16] by (simp add: mask_eq_exp_minus_1 word_less_def)
  also have "\<dots> = (cp AND 0xFC00) OR (cp AND 0x3FF)"
    by (simp add: bit.conj_disj_distrib [symmetric])
  finally have cp: "cp = 0xD800 OR (cp AND 0x3FF)" using fc by simp
  have "cp AND 0x3FF = take_bit 10 cp" by (simp add: take_bit_eq_mask mask_eq_exp_minus_1)
  then have low: "unat (cp AND 0x3FF) < 1024" by (simp add: take_bit_eq_mod unat_mod)
  have "unat (0xD800 OR (cp AND 0x3FF)) = 0xD800 + unat (cp AND 0x3FF)"
    using low by (subst or_unat [of _ 10]) (simp_all add: mask_eq_exp_minus_1)
  then have "unat cp = 0xD800 + unat (cp AND 0x3FF)" using cp by simp
  then show False using low assms(2) by (simp add: scalar_value_def word_le_nat_alt)
qed

lemma utf16_loop_Cons:
  assumes "scalar_value cp"
  shows "wide_chars_loop 2 (utf16_of cp @ ws) = code_point_to_utf8 cp @ wide_chars_loop 2 ws"
proof (cases "cp < 0x10000")
  case True
  then show ?thesis using assms bmp_no_surrogate [OF True assms]
    by (cases ws) (auto simp: utf16_of_def scalar_value_def)
next
  case False
  then have "0x10000 \<le> cp" "cp \<le> 0x10FFFF" using assms by (simp_all add: scalar_value_def)
  note pair = surrogates [OF this]
  moreover have "0xD800 OR drop_bit 10 (cp - 0x10000) \<noteq> 0"
    using pair(1) by (auto simp: is_utf16_surrogate_pair_def)
  ultimately show ?thesis using False by (simp add: utf16_of_def)
qed

lemma wide_string_utf16:
  assumes "list_all scalar_value cps"
  shows "decode_all (wide_string_to_utf8 2 (concat (map utf16_of cps))) = Some (map unat cps)"
proof -
  have "nul \<notin> set (wide_chars_loop 2 (concat (map utf16_of cps))) \<and>
      decode_all (wide_chars_loop 2 (concat (map utf16_of cps))) = Some (map unat cps)"
    using assms
  proof (induction cps)
    case (Cons cp cps)
    then have "encodable cp" by (simp add: scalar_encodable)
    with Cons show ?case
      by (simp add: utf16_loop_Cons encodable_def code_point_no_nul decode_all_point)
  qed simp
  then show ?thesis by (simp add: wide_string_to_utf8_def string_stream_identity)
qed

text \<open>The numbers past the last code point that four bytes still hold are encoded as well.\<close>

lemma invalid_code_point_encoded:
  assumes "0x10FFFF < cp" and "cp \<le> 0x1FFFFF"
  shows "decode_utf8 (code_point_to_utf8 cp) = Some (unat cp, [])"
proof -
  have "0 < cp" "cp \<le> k_max_code_point4"
    using assms max_code_points by (auto simp: word_less_nat_alt word_le_nat_alt)
  from decode_code_point [OF this, of "[]"] show ?thesis by simp
qed

end
