(* ===== verification/Gtest_Printers.thy ===== *)
theory Gtest_Printers
  imports Gtest_Text
begin

text \<open>
  The universal printer of gtest: \<open>gtest/src/gtest-printers.cc\<close> and the templates of
  \<open>gtest-printers.h\<close>. A narrow or wide character is given by its code, zero-extended to 32 bits;
  how an element of a container is printed is an argument, as in the templates, and so is the
  text of an address. A reader of C++ string literals gives the output its meaning: what is
  printed for a string reads back as that string, unless a digit follows a NUL.
\<close>

subsection \<open>Bytes of an object\<close>

definition print_byte_segment_in_object_to :: "byte list \<Rightarrow> nat \<Rightarrow> nat \<Rightarrow> string" where
  "print_byte_segment_in_object_to obj_bytes start count =
     concat (map (\<lambda>i. let j = start + i
       in (if i \<noteq> 0 then (if j mod 2 = 0 then '' '' else ''-'') else []) @ format_byte (obj_bytes ! j))
       [0..<count])"

definition print_bytes_in_object_to :: "byte list \<Rightarrow> string" where
  "print_bytes_in_object_to obj_bytes =
     (let count = length obj_bytes; k_threshold = 132; k_chunk_size = 64
      in string_of_nat count @ ''-byte object <'' @
        (if count < k_threshold then print_byte_segment_in_object_to obj_bytes 0 count
         else let resume_pos = (count - k_chunk_size + 1) div 2 * 2
           in print_byte_segment_in_object_to obj_bytes 0 k_chunk_size @ '' ... '' @
             print_byte_segment_in_object_to obj_bytes resume_pos (count - resume_pos)) @ ''>'')"

subsection \<open>Characters\<close>

datatype char_format = As_is | Hex_escape | Special_escape

definition is_printable_ascii :: "u32 \<Rightarrow> bool" where
  "is_printable_ascii c \<longleftrightarrow> 0x20 \<le> c \<and> c \<le> 0x7E"

definition print_as_char_literal_to :: "u32 \<Rightarrow> char_format \<times> string" where
  "print_as_char_literal_to c =
     (if c = 0x00 then (Special_escape, [backslash] @ ''0'')
      else if c = 0x27 then (Special_escape, [backslash, apostrophe])
      else if c = 0x5C then (Special_escape, [backslash, backslash])
      else if c = 0x07 then (Special_escape, [backslash] @ ''a'')
      else if c = 0x08 then (Special_escape, [backslash] @ ''b'')
      else if c = 0x0C then (Special_escape, [backslash] @ ''f'')
      else if c = 0x0A then (Special_escape, [backslash] @ ''n'')
      else if c = 0x0D then (Special_escape, [backslash] @ ''r'')
      else if c = 0x09 then (Special_escape, [backslash] @ ''t'')
      else if c = 0x0B then (Special_escape, [backslash] @ ''v'')
      else if is_printable_ascii c then (As_is, [to_char c])
      else (Hex_escape, [backslash] @ ''x'' @ format_hex_int c))"

definition print_as_string_literal_to :: "u32 \<Rightarrow> char_format \<times> string" where
  "print_as_string_literal_to c =
     (if c = 0x27 then (As_is, [apostrophe])
      else if c = 0x22 then (Special_escape, [backslash, quote])
      else print_as_char_literal_to c)"

text \<open>\<open>code\<close> is the value of the character as an \<open>int\<close>, which depends on its signedness.\<close>

definition print_char_and_code_to :: "bool \<Rightarrow> u32 \<Rightarrow> int \<Rightarrow> string" where
  "print_char_and_code_to wide c code =
     (let (format, literal) = print_as_char_literal_to c
      in (if wide then ''L'' else []) @ [apostrophe] @ literal @ [apostrophe] @
        (if c = 0 then []
         else '' ('' @ string_of_int code @
           (if format = Hex_escape \<or> (1 \<le> code \<and> code \<le> 9) then [] else '', 0x'' @ format_hex_int c) @ '')''))"

definition print_unsigned_char :: "byte \<Rightarrow> string" where
  "print_unsigned_char c = print_char_and_code_to False (ucast c) (uint c)"

definition print_signed_char :: "byte \<Rightarrow> string" where
  "print_signed_char c = print_char_and_code_to False (ucast c) (sint c)"

definition print_wchar :: "u32 \<Rightarrow> string" where
  "print_wchar wc = print_char_and_code_to True wc (sint wc)"

definition print_bool :: "bool \<Rightarrow> string" where
  "print_bool x = (if x then ''true'' else ''false'')"

subsection \<open>Strings\<close>

definition is_xdigit_code :: "u32 \<Rightarrow> bool" where
  "is_xdigit_code c \<longleftrightarrow> unat c < 256 \<and> is_xdigit (to_char c)"

definition quote_begin :: "bool \<Rightarrow> string" where
  "quote_begin wide = (if wide then ''L'' else []) @ [quote]"

text \<open>The loop of \<open>PrintCharsAsStringTo\<close> with its flag \<open>is_previous_hex\<close>.\<close>

fun print_chars_loop :: "bool \<Rightarrow> bool \<Rightarrow> u32 list \<Rightarrow> string" where
  "print_chars_loop wide is_previous_hex [] = []"
| "print_chars_loop wide is_previous_hex (cur # rest) =
     (if is_previous_hex \<and> is_xdigit_code cur then [quote] @ '' '' @ quote_begin wide else []) @
     (let (format, literal) = print_as_string_literal_to cur
      in literal @ print_chars_loop wide (format = Hex_escape) rest)"

definition print_chars_as_string_to :: "bool \<Rightarrow> u32 list \<Rightarrow> string" where
  "print_chars_as_string_to wide codes = quote_begin wide @ print_chars_loop wide False codes @ [quote]"

definition universal_print_char_array :: "bool \<Rightarrow> u32 list \<Rightarrow> string" where
  "universal_print_char_array wide codes =
     (if codes \<noteq> [] \<and> last codes = 0 then print_chars_as_string_to wide (butlast codes)
      else print_chars_as_string_to wide codes @ '' (no terminating NUL)'')"

text \<open>A pointer to characters: its address and what is there.\<close>

definition print_c_string_to :: "bool \<Rightarrow> (string \<times> u32 list) option \<Rightarrow> string" where
  "print_c_string_to wide s =
     (case s of None \<Rightarrow> ''NULL''
      | Some (address, codes) \<Rightarrow> address @ '' pointing to '' @ print_chars_as_string_to wide codes)"

text \<open>\<open>PrintToString\<close> of a pointer to characters, by the terse printer.\<close>

definition print_c_string_tersely :: "bool \<Rightarrow> u32 list option \<Rightarrow> string" where
  "print_c_string_tersely wide s =
     (case s of None \<Rightarrow> ''NULL'' | Some codes \<Rightarrow> print_chars_as_string_to wide codes)"

text \<open>The codes of a narrow string.\<close>

definition codes_of :: "string \<Rightarrow> u32 list" where
  "codes_of str = map (\<lambda>ch. of_nat (of_char ch)) str"

subsection \<open>Containers\<close>

text \<open>The loop of \<open>DefaultPrintTo\<close> for containers, with its count of printed elements.\<close>

fun print_container_loop :: "('a \<Rightarrow> string) \<Rightarrow> nat \<Rightarrow> 'a list \<Rightarrow> string" where
  "print_container_loop print count [] = (if 0 < count then '' '' else [])"
| "print_container_loop print count (x # xs) =
     (if 0 < count \<and> count = 32 then '', ...'' @ '' ''
      else (if 0 < count then '','' else []) @ '' '' @ print x @ print_container_loop print (count + 1) xs)"

definition print_container :: "('a \<Rightarrow> string) \<Rightarrow> 'a list \<Rightarrow> string" where
  "print_container print container = ''{'' @ print_container_loop print 0 container @ ''}''"

definition print_raw_array_to :: "('a \<Rightarrow> string) \<Rightarrow> 'a list \<Rightarrow> string" where
  "print_raw_array_to print a = print (hd a) @ concat (map (\<lambda>x. '', '' @ print x) (tl a))"

definition universal_print_array :: "('a \<Rightarrow> string) \<Rightarrow> 'a list \<Rightarrow> string" where
  "universal_print_array print a =
     (if a = [] then ''{}''
      else ''{ '' @
        (let len = length a; k_threshold = 18; k_chunk_size = 8
         in if len \<le> k_threshold then print_raw_array_to print a
            else print_raw_array_to print (take k_chunk_size a) @ '', ..., '' @
              print_raw_array_to print (drop (len - k_chunk_size) a)) @ '' }'')"

definition print_pair :: "('a \<Rightarrow> string) \<Rightarrow> ('b \<Rightarrow> string) \<Rightarrow> 'a \<times> 'b \<Rightarrow> string" where
  "print_pair print1 print2 value = ''('' @ print1 (fst value) @ '', '' @ print2 (snd value) @ '')''"

text \<open>A pointer that is neither null nor a pointer to characters prints its address.\<close>

definition print_pointer :: "string option \<Rightarrow> string" where
  "print_pointer p = (case p of None \<Rightarrow> ''NULL'' | Some address \<Rightarrow> address)"

definition print_reference :: "string \<Rightarrow> string \<Rightarrow> string" where
  "print_reference address value = ''@'' @ address @ '' '' @ value"

text \<open>The fields of a tuple are given as the texts that the printers of their types make.\<close>

fun print_prefix_to :: "string list \<Rightarrow> nat \<Rightarrow> string" where
  "print_prefix_to texts 0 = []"
| "print_prefix_to texts (Suc n) =
     (if n = 0 then texts ! 0 else print_prefix_to texts n @ '', '' @ texts ! n)"

definition print_tuple_to :: "string list \<Rightarrow> string" where
  "print_tuple_to texts = ''('' @ print_prefix_to texts (length texts) @ '')''"

definition print_protobuf :: "string \<Rightarrow> string \<Rightarrow> string" where
  "print_protobuf short_debug_string debug_string =
     (let pretty = (if length short_debug_string \<le> 50 then short_debug_string else newline @ debug_string)
      in ''<'' @ pretty @ ''>'')"

subsection \<open>Reading a literal\<close>

definition xdigit_value :: "char \<Rightarrow> nat" where
  "xdigit_value ch =
     (if is_digit ch then of_char ch - 48 else if between CHR ''a'' CHR ''f'' ch then of_char ch - 87
      else of_char ch - 55)"

definition number_in :: "nat \<Rightarrow> string \<Rightarrow> nat" where
  "number_in base ds = foldl (\<lambda>a d. a * base + xdigit_value d) 0 ds"

definition is_octal :: "char \<Rightarrow> bool" where
  "is_octal ch = between CHR ''0'' CHR ''7'' ch"

definition simple_escape :: "char \<Rightarrow> nat option" where
  "simple_escape e =
     map_of [(CHR ''a'', 7), (CHR ''b'', 8), (CHR ''t'', 9), (CHR ''n'', 10), (CHR ''v'', 11), (CHR ''f'', 12),
       (CHR ''r'', 13), (quote, 0x22), (apostrophe, 0x27), (CHR ''?'', 0x3F), (backslash, 0x5C)] e"

text \<open>
  What a C++ compiler makes of the characters behind the opening quote: a hexadecimal escape
  takes all the digits there are, an octal one up to three, and adjacent literals are one.
\<close>

function read_literal :: "bool \<Rightarrow> string \<Rightarrow> nat list option" where
  "read_literal wide [] = None"
| "read_literal wide (c # cs) =
     (if c = quote then
        (if cs = [] then Some []
         else if take (Suc (length (quote_begin wide))) cs = CHR '' '' # quote_begin wide
         then read_literal wide (drop (Suc (length (quote_begin wide))) cs) else None)
      else if c = backslash then
        (case cs of
           [] \<Rightarrow> None
         | e # cs' \<Rightarrow>
             if e = CHR ''x'' then
               (if takeWhile is_xdigit cs' = [] then None
                else map_option (Cons (number_in 16 (takeWhile is_xdigit cs')))
                  (read_literal wide (dropWhile is_xdigit cs')))
             else if is_octal e then
               (let ds = takeWhile is_octal (take 3 cs)
                in map_option (Cons (number_in 8 ds)) (read_literal wide (drop (length ds) cs)))
             else (case simple_escape e of
                 None \<Rightarrow> None
               | Some v \<Rightarrow> map_option (Cons v) (read_literal wide cs')))
      else map_option (Cons (of_char c)) (read_literal wide cs))"
  by pat_completeness auto

termination
  by (relation "measure (\<lambda>(_, cs). length cs)") (auto simp: less_Suc_eq_le length_dropWhile_le intro: le_SucI)

declare read_literal.simps [simp del]

lemma is_xdigit_hex_digit: "n < 16 \<Longrightarrow> is_xdigit (hex_digit n) \<and> xdigit_value (hex_digit n) = n"
  by (auto simp: hex_digit_def is_xdigit_def is_digit_def between_def xdigit_value_def)

lemma hex_of_nat_digits: "list_all is_xdigit (hex_of_nat n) \<and> hex_of_nat n \<noteq> [] \<and> number_in 16 (hex_of_nat n) = n"
proof (induction n rule: hex_of_nat.induct)
  case (1 n)
  show ?case
  proof (cases "n < 16")
    case True
    then show ?thesis by (simp add: hex_of_nat.simps [of n] is_xdigit_hex_digit number_in_def)
  next
    case False
    then show ?thesis using 1 by (simp add: hex_of_nat.simps [of n] is_xdigit_hex_digit number_in_def)
  qed
qed

lemma takeWhile_list_all:
  "list_all P xs \<Longrightarrow> ys = [] \<or> \<not> P (hd ys) \<Longrightarrow> takeWhile P (xs @ ys) = xs \<and> dropWhile P (xs @ ys) = ys"
  by (induction xs) (cases ys, auto)+

text \<open>One character: its escape reads as its code.\<close>

lemma read_hex_escape:
  assumes "rest = [] \<or> \<not> is_xdigit (hd rest)"
  shows "read_literal wide (backslash # CHR ''x'' # format_hex_int c @ rest) =
    map_option (Cons (unat c)) (read_literal wide rest)"
  using takeWhile_list_all [of is_xdigit "hex_of_nat (unat c)" rest] assms hex_of_nat_digits [of "unat c"]
  by (subst read_literal.simps) (simp add: format_hex_int_def)

lemma read_simple_escape:
  assumes "simple_escape e = Some v" and "e \<noteq> CHR ''x''" and "\<not> is_octal e"
  shows "read_literal wide (backslash # e # rest) = map_option (Cons v) (read_literal wide rest)"
  using assms by (subst read_literal.simps) simp

lemma read_nul:
  assumes "rest = [] \<or> \<not> is_octal (hd rest)"
  shows "read_literal wide (backslash # CHR ''0'' # rest) = map_option (Cons 0) (read_literal wide rest)"
proof -
  have "is_octal (CHR ''0'')" "xdigit_value (CHR ''0'') = 0"
    by (simp_all add: is_octal_def xdigit_value_def is_digit_def between_def)
  moreover have "takeWhile is_octal (take 2 rest) = []" using assms by (cases rest) auto
  ultimately show ?thesis by (subst read_literal.simps) (simp add: number_in_def)
qed

lemma read_plain:
  assumes "c \<noteq> quote" and "c \<noteq> backslash"
  shows "read_literal wide (c # rest) = map_option (Cons (of_char c)) (read_literal wide rest)"
  using assms by (subst read_literal.simps) simp

subsection \<open>What is printed reads back\<close>

definition is_octal_code :: "u32 \<Rightarrow> bool" where
  "is_octal_code c \<longleftrightarrow> 0x30 \<le> c \<and> c \<le> 0x37"

fun nul_before_digit :: "u32 list \<Rightarrow> bool" where
  "nul_before_digit (c # d # cs) \<longleftrightarrow> (c = 0 \<and> is_octal_code d) \<or> nul_before_digit (d # cs)"
| "nul_before_digit cs \<longleftrightarrow> False"

lemma of_char_printable: "is_printable_ascii c \<Longrightarrow> of_char (to_char c) = unat c \<and> unat c < 0x7F"
  by (auto simp: is_printable_ascii_def of_char_to_char word_le_nat_alt)

lemma printable_char:
  assumes "is_printable_ascii c" and "of_char ch = (n :: nat)" and "c \<noteq> of_nat n"
  shows "to_char c \<noteq> ch"
proof
  assume "to_char c = ch"
  then have "unat c = n" using of_char_printable [OF assms(1)] assms(2) by simp
  then show False using assms(3) by auto
qed

lemma read_printed:
  assumes "fst (print_as_string_literal_to c) = Hex_escape \<Longrightarrow> rest = [] \<or> \<not> is_xdigit (hd rest)"
    and "c = 0 \<Longrightarrow> rest = [] \<or> \<not> is_octal (hd rest)"
  shows "read_literal wide (snd (print_as_string_literal_to c) @ rest) = map_option (Cons (unat c)) (read_literal wide rest)"
proof -
  consider "c = 0" | e v where "c = of_nat v" "v < 256" "simple_escape e = Some v" "e \<noteq> CHR ''x''" "\<not> is_octal e"
      "snd (print_as_string_literal_to c) = [backslash, e]"
    | "c = 0x27" | "c \<noteq> 0x22" "c \<noteq> 0x5C" "c \<noteq> 0x27" "is_printable_ascii c" "snd (print_as_string_literal_to c) = [to_char c]"
    | "print_as_string_literal_to c = (Hex_escape, [backslash] @ ''x'' @ format_hex_int c)"
  proof -
    assume a: "c = 0 \<Longrightarrow> thesis" and b: "\<And>v e. c = of_nat v \<Longrightarrow> v < 256 \<Longrightarrow> simple_escape e = Some v \<Longrightarrow> e \<noteq> CHR ''x'' \<Longrightarrow>
        \<not> is_octal e \<Longrightarrow> snd (print_as_string_literal_to c) = [backslash, e] \<Longrightarrow> thesis"
      and c: "c = 0x27 \<Longrightarrow> thesis" and d: "c \<noteq> 0x22 \<Longrightarrow> c \<noteq> 0x5C \<Longrightarrow> c \<noteq> 0x27 \<Longrightarrow> is_printable_ascii c \<Longrightarrow>
        snd (print_as_string_literal_to c) = [to_char c] \<Longrightarrow> thesis"
      and e: "print_as_string_literal_to c = (Hex_escape, [backslash] @ ''x'' @ format_hex_int c) \<Longrightarrow> thesis"
    have esc: "c = of_nat v \<Longrightarrow> v \<in> {7, 8, 9, 10, 11, 12, 13, 0x22, 0x5C} \<Longrightarrow> thesis" for v
      using b [of 7 "CHR ''a''"] b [of 8 "CHR ''b''"] b [of 9 "CHR ''t''"] b [of 10 "CHR ''n''"] b [of 11 "CHR ''v''"]
        b [of 12 "CHR ''f''"] b [of 13 "CHR ''r''"] b [of 34 quote] b [of 92 backslash]
      by (auto simp: print_as_string_literal_to_def print_as_char_literal_to_def simple_escape_def is_octal_def between_def)
    show thesis
    proof (cases "c \<in> {0, 0x27, 7, 8, 9, 10, 11, 12, 13, 0x22, 0x5C}")
      case True
      then show thesis
        using a c esc [of 7] esc [of 8] esc [of 9] esc [of 10] esc [of 11] esc [of 12] esc [of 13] esc [of 34] esc [of 92]
        by auto
    next
      case False
      then show thesis using d e
        by (cases "is_printable_ascii c") (simp_all add: print_as_string_literal_to_def print_as_char_literal_to_def)
    qed
  qed
  then show ?thesis
  proof cases
    case 1
    then show ?thesis using assms(2)
      by (simp add: print_as_string_literal_to_def print_as_char_literal_to_def read_nul)
  next
    case (2 e v)
    then show ?thesis using read_simple_escape [OF 2(3-5)] by (simp add: unat_of_nat)
  next
    case 3
    then show ?thesis using read_plain [of apostrophe wide rest] by (simp add: print_as_string_literal_to_def)
  next
    case 4
    then have "to_char c \<noteq> quote" "to_char c \<noteq> backslash"
      using printable_char [of c quote 34] printable_char [of c backslash 92] by simp_all
    from read_plain [OF this] show ?thesis using 4 of_char_printable by simp
  next
    case 5
    then show ?thesis using read_hex_escape assms(1) by simp
  qed
qed

lemma printed_head:
  "hd (snd (print_as_string_literal_to c) @ rest) = backslash \<or>
   hd (snd (print_as_string_literal_to c) @ rest) = apostrophe \<or>
   (is_printable_ascii c \<and> hd (snd (print_as_string_literal_to c) @ rest) = to_char c)"
  by (auto simp: print_as_string_literal_to_def print_as_char_literal_to_def)

lemma printable_digit:
  assumes "is_printable_ascii c"
  shows "is_xdigit (to_char c) \<longleftrightarrow> is_xdigit_code c" and "is_octal (to_char c) \<longleftrightarrow> is_octal_code c"
  using of_char_printable [OF assms]
  by (auto simp: is_xdigit_code_def is_octal_def is_octal_code_def between_def word_le_nat_alt)

lemma no_digits [simp]:
  "\<not> is_xdigit backslash" "\<not> is_xdigit apostrophe" "\<not> is_xdigit quote"
  "\<not> is_octal backslash" "\<not> is_octal apostrophe" "\<not> is_octal quote"
  by (simp_all add: is_xdigit_def is_digit_def is_octal_def between_def)

lemma printed_no_digit:
  assumes "print_as_string_literal_to c = (format, literal)"
  shows "\<not> is_xdigit_code c \<Longrightarrow> \<not> is_xdigit (hd (literal @ rest))"
    and "\<not> is_octal_code c \<Longrightarrow> \<not> is_octal (hd (literal @ rest))"
  using printed_head [of c rest] assms by (auto simp: printable_digit)

lemma loop_head_after_hex: "\<not> is_xdigit (hd (print_chars_loop wide True codes @ quote # rest))"
proof (cases codes)
  case (Cons cur codes')
  obtain format literal where "print_as_string_literal_to cur = (format, literal)" by fastforce
  then show ?thesis using printed_no_digit(1) Cons by (cases "is_xdigit_code cur") simp_all
qed simp

lemma loop_head_after_nul:
  "codes = [] \<or> \<not> is_octal_code (hd codes) \<Longrightarrow> \<not> is_octal (hd (print_chars_loop wide False codes @ quote # rest))"
proof (cases codes)
  case (Cons cur codes')
  obtain format literal where "print_as_string_literal_to cur = (format, literal)" by fastforce
  moreover assume "codes = [] \<or> \<not> is_octal_code (hd codes)"
  ultimately show ?thesis using printed_no_digit(2) Cons by simp
qed simp

lemma read_break:
  "read_literal wide (quote # CHR '' '' # quote_begin wide @ cs) = read_literal wide cs"
  by (subst read_literal.simps) simp

lemma read_loop:
  "\<not> nul_before_digit codes \<Longrightarrow>
   read_literal wide (print_chars_loop wide prev codes @ [quote]) = Some (map unat codes)"
proof (induction codes arbitrary: prev)
  case Nil
  then show ?case by (simp add: read_literal.simps)
next
  case (Cons cur codes)
  obtain format literal where p: "print_as_string_literal_to cur = (format, literal)" by fastforce
  let ?rest = "print_chars_loop wide (format = Hex_escape) codes @ [quote]"
  have IH: "read_literal wide ?rest = Some (map unat codes)"
    using Cons by (cases codes) auto
  have "read_literal wide (literal @ ?rest) = Some (map unat (cur # codes))"
  proof -
    have "format = Hex_escape \<Longrightarrow> \<not> is_xdigit (hd ?rest)"
      using loop_head_after_hex [of wide codes "[]"] by simp
    moreover have "\<not> is_octal (hd ?rest)" if "cur = 0"
    proof -
      have "format = Special_escape"
        using p that by (simp add: print_as_string_literal_to_def print_as_char_literal_to_def)
      then show ?thesis using loop_head_after_nul [of codes wide "[]"] Cons.prems that by (cases codes) auto
    qed
    ultimately show ?thesis using read_printed [of cur ?rest wide] p IH by simp
  qed
  then show ?case using p read_break [of wide "literal @ ?rest"] by simp
qed

lemma printed_string_reads_back:
  assumes "\<not> nul_before_digit codes"
  shows "\<exists>body. print_chars_as_string_to wide codes = quote_begin wide @ body \<and>
    read_literal wide body = Some (map unat codes)"
  using read_loop [OF assms, of wide False] by (auto simp: print_chars_as_string_to_def)

text \<open>A NUL in front of a digit is printed as an octal escape of another character.\<close>

lemma nul_before_digit_misread:
  "print_chars_as_string_to False [0, 0x31] = quote_begin False @ [backslash] @ ''01'' @ [quote] \<and>
   read_literal False ([backslash] @ ''01'' @ [quote]) = Some [1]"
proof -
  have "read_literal False [quote] = Some []" by (simp add: read_literal.simps)
  then have "read_literal False (backslash # CHR ''0'' # CHR ''1'' # [quote]) = Some [1]"
    by (subst read_literal.simps)
      (simp add: is_octal_def between_def number_in_def xdigit_value_def is_digit_def)
  then show ?thesis
    by (simp add: print_chars_as_string_to_def print_as_string_literal_to_def print_as_char_literal_to_def
        is_printable_ascii_def to_char_def char_of_def bit_0)
qed

subsection \<open>Long containers\<close>

lemma print_container_short:
  assumes "length xs \<le> 32" and "xs \<noteq> []"
  shows "print_container print xs = ''{'' @ separated '' '' '', '' (map print xs) @ '' }''"
proof -
  have "print_container_loop print count ys = (if count = 0 then separated '' '' '', '' (map print ys) @ (if ys = [] then [] else '' '')
      else separated '', '' '', '' (map print ys) @ '' '')" if "count + length ys \<le> 32" for count ys
    using that by (induction print count ys rule: print_container_loop.induct) auto
  from this [of 0 xs] show ?thesis using assms by (simp add: print_container_def)
qed

text \<open>No container prints more than 32 of its elements.\<close>

lemma print_container_long:
  assumes "32 < length xs"
  shows "print_container print xs = ''{'' @ separated '' '' '', '' (map print (take 32 xs)) @ '', ... }''"
proof -
  have "print_container_loop print count ys = (if count = 0 then separated '' '' '', '' (map print (take (32 - count) ys))
      else separated '', '' '', '' (map print (take (32 - count) ys))) @ '', ... ''"
    if "32 < count + length ys" "count \<le> 32" for count ys
    using that
  proof (induction print count ys rule: print_container_loop.induct)
    case (2 print count x xs)
    show ?case
    proof (cases "count = 32")
      case False
      then have "32 - count = Suc (32 - Suc count)" using 2(3) by simp
      then have "take (32 - count) (x # xs) = x # take (32 - Suc count) xs" by (metis take_Suc_Cons)
      then show ?thesis using False 2 by simp
    qed simp
  qed simp
  from this [of 0 xs] show ?thesis using assms by (simp add: print_container_def)
qed

end
