(* ===== verification/Gtest_Assertions.thy ===== *)
theory Gtest_Assertions
  imports Gtest_Printers
begin

text \<open>
  The predicates behind the assertion macros of gtest: comparison of integers and of C strings,
  substrings (\<open>gtest/src/gtest.cc\<close>), and the comparison of floating-point numbers by units in
  the last place (\<open>FloatingPoint\<close> of \<open>gtest-internal.h\<close>), which works on the bits of the
  numbers: words of 32 or 64 bits. The theory proves that this distance is the distance of the
  numbers of sign and magnitude, without a wrap-around.
\<close>

subsection \<open>Integers\<close>

definition cmp_helper_eq :: "string \<Rightarrow> string \<Rightarrow> int \<Rightarrow> int \<Rightarrow> assertion_result" where
  "cmp_helper_eq expected_expression actual_expression expected actual =
     (if expected = actual then assertion_success
      else eq_failure expected_expression actual_expression (string_of_int expected) (string_of_int actual) False)"

definition cmp_helper_op ::
  "string \<Rightarrow> (int \<Rightarrow> int \<Rightarrow> bool) \<Rightarrow> string \<Rightarrow> string \<Rightarrow> int \<Rightarrow> int \<Rightarrow> assertion_result" where
  "cmp_helper_op op_text op expr1 expr2 val1 val2 =
     (if op val1 val2 then assertion_success
      else failure_with [''Expected: ('', expr1, '') '', op_text, '' ('', expr2, ''), actual: '',
        string_of_int val1, '' vs '', string_of_int val2])"

definition cmp_helper_ne where "cmp_helper_ne = cmp_helper_op ''!='' (\<noteq>)"
definition cmp_helper_le where "cmp_helper_le = cmp_helper_op ''<='' (\<le>)"
definition cmp_helper_lt where "cmp_helper_lt = cmp_helper_op ''<'' (<)"
definition cmp_helper_ge where "cmp_helper_ge = cmp_helper_op ''>='' (\<ge>)"
definition cmp_helper_gt where "cmp_helper_gt = cmp_helper_op ''>'' (>)"

subsection \<open>C strings\<close>

definition print_narrow :: "string option \<Rightarrow> string" where
  "print_narrow s = print_c_string_tersely False (map_option codes_of s)"

definition cmp_helper_streq :: "string \<Rightarrow> string \<Rightarrow> string option \<Rightarrow> string option \<Rightarrow> assertion_result" where
  "cmp_helper_streq expected_expression actual_expression expected actual =
     (if c_string_equals expected actual then assertion_success
      else eq_failure expected_expression actual_expression (print_narrow expected) (print_narrow actual) False)"

definition cmp_helper_strcaseeq :: "string \<Rightarrow> string \<Rightarrow> string option \<Rightarrow> string option \<Rightarrow> assertion_result" where
  "cmp_helper_strcaseeq expected_expression actual_expression expected actual =
     (if case_insensitive_c_string_equals expected actual then assertion_success
      else eq_failure expected_expression actual_expression (print_narrow expected) (print_narrow actual) True)"

definition cmp_helper_strne :: "string \<Rightarrow> string \<Rightarrow> string option \<Rightarrow> string option \<Rightarrow> assertion_result" where
  "cmp_helper_strne s1_expression s2_expression s1 s2 =
     (if \<not> c_string_equals s1 s2 then assertion_success
      else failure_with [''Expected: ('', s1_expression, '') != ('', s2_expression, ''), actual: '' @ [quote],
        show_c_string s1, [quote] @ '' vs '' @ [quote], show_c_string s2, [quote]])"

definition cmp_helper_strcasene :: "string \<Rightarrow> string \<Rightarrow> string option \<Rightarrow> string option \<Rightarrow> assertion_result" where
  "cmp_helper_strcasene s1_expression s2_expression s1 s2 =
     (if \<not> case_insensitive_c_string_equals s1 s2 then assertion_success
      else failure_with [''Expected: ('', s1_expression, '') != ('', s2_expression,
        '') (ignoring case), actual: '' @ [quote],
        show_c_string s1, [quote] @ '' vs '' @ [quote], show_c_string s2, [quote]])"

definition cmp_helper_wide_streq ::
  "string \<Rightarrow> string \<Rightarrow> u32 list option \<Rightarrow> u32 list option \<Rightarrow> assertion_result" where
  "cmp_helper_wide_streq expected_expression actual_expression expected actual =
     (if wide_c_string_equals expected actual then assertion_success
      else eq_failure expected_expression actual_expression (print_c_string_tersely True expected)
        (print_c_string_tersely True actual) False)"

definition cmp_helper_wide_strne ::
  "string \<Rightarrow> string \<Rightarrow> u32 list option \<Rightarrow> u32 list option \<Rightarrow> assertion_result" where
  "cmp_helper_wide_strne s1_expression s2_expression s1 s2 =
     (if \<not> wide_c_string_equals s1 s2 then assertion_success
      else failure_with [''Expected: ('', s1_expression, '') != ('', s2_expression, ''), actual: '',
        print_c_string_tersely True s1, '' vs '', print_c_string_tersely True s2])"

subsection \<open>Substrings\<close>

fun contains :: "'a list \<Rightarrow> 'a list \<Rightarrow> bool" where
  "contains needle [] \<longleftrightarrow> needle = []"
| "contains needle (x # xs) \<longleftrightarrow> take (length needle) (x # xs) = needle \<or> contains needle xs"

lemma contains_iff: "contains needle haystack \<longleftrightarrow> (\<exists>u v. haystack = u @ needle @ v)"
proof (induction haystack)
  case (Cons x xs)
  have "(\<exists>u v. x # xs = u @ needle @ v) \<longleftrightarrow> (\<exists>v. x # xs = needle @ v) \<or> (\<exists>u v. xs = u @ needle @ v)"
    by (metis append_Cons append_Nil append_eq_Cons_conv)
  moreover have "(\<exists>v. x # xs = needle @ v) \<longleftrightarrow> take (length needle) (x # xs) = needle"
    by (metis append_eq_conv_conj append_take_drop_id)
  ultimately show ?case using Cons by auto
qed simp

definition is_substring_pred_c :: "'a list option \<Rightarrow> 'a list option \<Rightarrow> bool" where
  "is_substring_pred_c needle haystack =
     (case (needle, haystack) of
        (Some n, Some h) \<Rightarrow> contains n h
      | _ \<Rightarrow> needle = None \<and> haystack = None)"

definition is_substring_pred_str :: "'a list \<Rightarrow> 'a list \<Rightarrow> bool" where
  "is_substring_pred_str needle haystack = contains needle haystack"

text \<open>
  \<open>found\<close> is what \<open>IsSubstringPred\<close> returns, \<open>needle\<close> and \<open>haystack\<close> are the texts of the two
  strings in a message.
\<close>

definition is_substring_impl :: "bool \<Rightarrow> string \<Rightarrow> string \<Rightarrow> bool \<Rightarrow> string \<Rightarrow> string \<Rightarrow> bool \<Rightarrow> assertion_result" where
  "is_substring_impl expected_to_be_substring needle_expr haystack_expr is_wide_string needle haystack found =
     (if found = expected_to_be_substring then assertion_success
      else let begin_string_quote = (if is_wide_string then ''L'' else []) @ [quote]
        in failure_with [''Value of: '', needle_expr, newline, ''  Actual: '', begin_string_quote, needle,
          [quote] @ newline, ''Expected: '', (if expected_to_be_substring then [] else ''not ''),
          ''a substring of '', haystack_expr, newline, ''Which is: '', begin_string_quote, haystack, [quote]])"

text \<open>\<open>IsSubstring\<close> and, with the flag \<open>False\<close>, \<open>IsNotSubstring\<close>.\<close>

definition is_substring_c :: "bool \<Rightarrow> string \<Rightarrow> string \<Rightarrow> string option \<Rightarrow> string option \<Rightarrow> assertion_result" where
  "is_substring_c expected needle_expr haystack_expr needle haystack =
     is_substring_impl expected needle_expr haystack_expr False (show_c_string needle) (show_c_string haystack)
       (is_substring_pred_c needle haystack)"

definition is_substring_str :: "bool \<Rightarrow> string \<Rightarrow> string \<Rightarrow> string \<Rightarrow> string \<Rightarrow> assertion_result" where
  "is_substring_str expected needle_expr haystack_expr needle haystack =
     is_substring_impl expected needle_expr haystack_expr False needle haystack
       (is_substring_pred_str needle haystack)"

definition is_substring_wide_c ::
  "nat \<Rightarrow> bool \<Rightarrow> string \<Rightarrow> string \<Rightarrow> u32 list option \<Rightarrow> u32 list option \<Rightarrow> assertion_result" where
  "is_substring_wide_c wchar_size expected needle_expr haystack_expr needle haystack =
     is_substring_impl expected needle_expr haystack_expr True (show_wide_c_string wchar_size needle)
       (show_wide_c_string wchar_size haystack) (is_substring_pred_c needle haystack)"

definition is_substring_wide_str ::
  "nat \<Rightarrow> bool \<Rightarrow> string \<Rightarrow> string \<Rightarrow> u32 list \<Rightarrow> u32 list \<Rightarrow> assertion_result" where
  "is_substring_wide_str wchar_size expected needle_expr haystack_expr needle haystack =
     is_substring_impl expected needle_expr haystack_expr True (stream_wide_chars_to_message wchar_size needle)
       (stream_wide_chars_to_message wchar_size haystack) (is_substring_pred_str needle haystack)"

lemma append_message_success [simp]: "ar_success (append_message r text) = ar_success r"
  by (simp add: append_message_def Let_def)

lemma failure_with_success [simp]: "\<not> ar_success (failure_with pieces)"
proof -
  have "ar_success (foldl append_message r pieces) = ar_success r" for r
    by (induction pieces arbitrary: r) auto
  then show ?thesis by (simp add: failure_with_def assertion_failure_def)
qed

lemma is_substring_c_verdict:
  "ar_success (is_substring_c expected ne he needle haystack) \<longleftrightarrow>
   (expected = (case (needle, haystack) of
      (Some n, Some h) \<Rightarrow> (\<exists>u v. h = u @ n @ v)
    | (None, None) \<Rightarrow> True
    | _ \<Rightarrow> False))"
  by (auto simp: is_substring_c_def is_substring_impl_def is_substring_pred_c_def assertion_success_def
      Let_def contains_iff split: option.splits)

subsection \<open>Floating-point numbers\<close>

text \<open>\<open>fraction\<close> is the number of fraction bits: 23 for \<open>float\<close>, 52 for \<open>double\<close>.\<close>

definition k_sign_bit_mask :: "'a :: len word" where
  "k_sign_bit_mask = push_bit (LENGTH('a) - 1) 1"

definition k_exponent_bit_count :: "'a :: len itself \<Rightarrow> nat \<Rightarrow> nat" where
  "k_exponent_bit_count _ fraction = LENGTH('a) - 1 - fraction"

definition k_fraction_bit_mask :: "nat \<Rightarrow> 'a :: len word" where
  "k_fraction_bit_mask fraction = drop_bit (k_exponent_bit_count TYPE('a) fraction + 1) (NOT 0)"

definition k_exponent_bit_mask :: "nat \<Rightarrow> 'a :: len word" where
  "k_exponent_bit_mask fraction = NOT (k_sign_bit_mask OR k_fraction_bit_mask fraction)"

definition is_nan :: "nat \<Rightarrow> 'a :: len word \<Rightarrow> bool" where
  "is_nan fraction bits \<longleftrightarrow> k_exponent_bit_mask fraction AND bits = k_exponent_bit_mask fraction \<and>
     k_fraction_bit_mask fraction AND bits \<noteq> 0"

definition sign_and_magnitude_to_biased :: "'a :: len word \<Rightarrow> 'a word" where
  "sign_and_magnitude_to_biased sam =
     (if k_sign_bit_mask AND sam \<noteq> 0 then NOT sam + 1 else k_sign_bit_mask OR sam)"

definition distance_between_sign_and_magnitude_numbers :: "'a :: len word \<Rightarrow> 'a word \<Rightarrow> 'a word" where
  "distance_between_sign_and_magnitude_numbers sam1 sam2 =
     (let biased1 = sign_and_magnitude_to_biased sam1; biased2 = sign_and_magnitude_to_biased sam2
      in if biased2 \<le> biased1 then biased1 - biased2 else biased2 - biased1)"

definition almost_equals :: "nat \<Rightarrow> 'a :: len word \<Rightarrow> 'a word \<Rightarrow> bool" where
  "almost_equals fraction lhs rhs \<longleftrightarrow>
     \<not> is_nan fraction lhs \<and> \<not> is_nan fraction rhs \<and>
     uint (distance_between_sign_and_magnitude_numbers lhs rhs) \<le> 4"

text \<open>The number that a word of sign and magnitude stands for.\<close>

definition sam_value :: "'a :: len word \<Rightarrow> int" where
  "sam_value w =
     (if bit w (LENGTH('a) - 1) then - (uint w - 2 ^ (LENGTH('a) - 1)) else uint w)"

lemma top_bit: "bit (w :: 'a :: len word) (LENGTH('a) - 1) \<longleftrightarrow> 2 ^ (LENGTH('a) - 1) \<le> uint w"
proof -
  let ?n = "LENGTH('a) - 1"
  have len: "2 ^ LENGTH('a) = 2 * (2 :: int) ^ ?n"
    by (metis One_nat_def Suc_pred len_gt_0 power_Suc)
  have "uint w < 2 ^ LENGTH('a)" by simp
  moreover have "2 ^ ?n * (uint w div 2 ^ ?n) \<le> uint w"
    using mult_div_mod_eq [of "2 ^ ?n" "uint w"] pos_mod_sign [of "2 ^ ?n" "uint w"]
    by (metis le_add_same_cancel1 zero_less_numeral zero_less_power)
  moreover have "2 ^ ?n * 2 \<le> 2 ^ ?n * (uint w div 2 ^ ?n)" if "2 \<le> uint w div 2 ^ ?n"
    using that by (intro mult_left_mono) auto
  ultimately have "uint w div 2 ^ ?n < 2" using len by linarith
  moreover have nonneg: "0 \<le> uint w div 2 ^ ?n" by (simp add: pos_imp_zdiv_nonneg_iff)
  ultimately have "uint w div 2 ^ ?n = 0 \<or> uint w div 2 ^ ?n = 1" by linarith
  then have "odd (uint w div 2 ^ ?n) \<longleftrightarrow> uint w div 2 ^ ?n \<noteq> 0" by auto
  moreover have "bit w ?n \<longleftrightarrow> bit (uint w) ?n" by (simp add: bit_unsigned_iff)
  moreover have "bit (uint w) ?n \<longleftrightarrow> odd (uint w div 2 ^ ?n)" by (rule bit_iff_odd)
  moreover have "uint w div 2 ^ ?n \<noteq> 0 \<longleftrightarrow> 2 ^ ?n \<le> uint w"
    using nonneg by (auto simp: zdiv_eq_0_iff not_less not_le)
  ultimately show ?thesis by blast
qed

lemma sign_bit_set: "k_sign_bit_mask AND w \<noteq> 0 \<longleftrightarrow> bit (w :: 'a :: len word) (LENGTH('a) - 1)"
proof -
  have "k_sign_bit_mask AND w = (if bit w (LENGTH('a) - 1) then k_sign_bit_mask else 0)"
    by (rule bit_word_eqI) (auto simp: k_sign_bit_mask_def bit_simps)
  moreover have "(k_sign_bit_mask :: 'a word) \<noteq> 0" by (simp add: k_sign_bit_mask_def)
  ultimately show ?thesis by simp
qed

lemma uint_sign_bit_mask: "uint (k_sign_bit_mask :: 'a :: len word) = 2 ^ (LENGTH('a) - 1)"
proof -
  have "uint (push_bit (LENGTH('a) - 1) 1 :: 'a word) = take_bit LENGTH('a) (push_bit (LENGTH('a) - 1) 1)"
    by (simp only: unsigned_push_bit_eq uint_1)
  then show ?thesis by (simp add: k_sign_bit_mask_def take_bit_push_bit)
qed

lemma uint_negate: "w \<noteq> 0 \<Longrightarrow> uint (- w :: 'a :: len word) = 2 ^ LENGTH('a) - uint w"
  by (simp add: uint_word_ariths zmod_zminus1_eq_if uint_0_iff)

lemma biased_value:
  "uint (sign_and_magnitude_to_biased w) = 2 ^ (LENGTH('a) - 1) + sam_value (w :: 'a :: len word)"
proof -
  have len: "2 ^ LENGTH('a) = 2 * (2 :: int) ^ (LENGTH('a) - 1)"
    by (metis One_nat_def Suc_pred len_gt_0 power_Suc)
  show ?thesis
  proof (cases "bit w (LENGTH('a) - 1)")
    case True
    then have "w \<noteq> 0" by auto
    moreover have "NOT w + 1 = - w" by (simp add: minus_eq_not_plus_1)
    ultimately have "uint (NOT w + 1) = 2 ^ LENGTH('a) - uint w" using uint_negate [of w] by presburger
    with True len show ?thesis
      by (simp only: sign_and_magnitude_to_biased_def sign_bit_set sam_value_def if_True)
  next
    case False
    then have small: "uint w < 2 ^ (LENGTH('a) - 1)" using top_bit [of w] by linarith
    have "k_sign_bit_mask AND w = 0" using False sign_bit_set by blast
    then have "k_sign_bit_mask OR w = k_sign_bit_mask + w" by (simp add: disjunctive_add_eq_or)
    moreover have "uint (k_sign_bit_mask + w) = uint (k_sign_bit_mask :: 'a word) + uint w"
      using small len uint_add_lem [of "k_sign_bit_mask :: 'a word" w] uint_sign_bit_mask [where 'a = 'a] by simp
    ultimately have "uint (k_sign_bit_mask OR w) = 2 ^ (LENGTH('a) - 1) + uint w"
      by (simp only: uint_sign_bit_mask)
    with False show ?thesis
      by (simp only: sign_and_magnitude_to_biased_def sign_bit_set sam_value_def if_False)
  qed
qed

lemma distance_value:
  "uint (distance_between_sign_and_magnitude_numbers a b) = \<bar>sam_value a - sam_value b\<bar>"
  using biased_value [of a] biased_value [of b]
    uint_sub_lem [of "sign_and_magnitude_to_biased a" "sign_and_magnitude_to_biased b"]
    uint_sub_lem [of "sign_and_magnitude_to_biased b" "sign_and_magnitude_to_biased a"]
  by (auto simp: distance_between_sign_and_magnitude_numbers_def Let_def word_le_def)

lemma almost_equals_distance:
  "almost_equals fraction a b \<longleftrightarrow>
   \<not> is_nan fraction a \<and> \<not> is_nan fraction b \<and> \<bar>sam_value a - sam_value b\<bar> \<le> 4"
  by (simp add: almost_equals_def distance_value)

text \<open>What the masks are for a \<open>float\<close>; its zeros are equal, and its greatest number almost infinity.\<close>

lemma float_masks:
  "k_sign_bit_mask = (0x80000000 :: u32)" "k_fraction_bit_mask 23 = (0x7FFFFF :: u32)"
  "k_exponent_bit_mask 23 = (0x7F800000 :: u32)"
proof -
  show sign: "k_sign_bit_mask = (0x80000000 :: u32)" by (simp add: k_sign_bit_mask_def)
  have "drop_bit 9 (- 1 :: u32) = mask 23" by (rule bit_word_eqI) (auto simp: bit_simps)
  then show fraction: "k_fraction_bit_mask 23 = (0x7FFFFF :: u32)"
    by (simp add: k_fraction_bit_mask_def k_exponent_bit_count_def mask_eq_exp_minus_1)
  show "k_exponent_bit_mask 23 = (0x7F800000 :: u32)"
    by (simp add: k_exponent_bit_mask_def sign fraction)
qed

lemma float_zeros_and_infinity:
  "almost_equals 23 (0x80000000 :: u32) 0 \<and> almost_equals 23 (0x7F7FFFFF :: u32) 0x7F800000 \<and>
   \<not> almost_equals 23 (0x7F800001 :: u32) 0x7F800001"
  unfolding almost_equals_distance is_nan_def float_masks sam_value_def
  using top_bit [of "0x80000000 :: u32"] top_bit [of "0 :: u32"] top_bit [of "0x7F7FFFFF :: u32"]
    top_bit [of "0x7F800000 :: u32"]
  by simp

end
