(* ===== verification/Gtest_Flags.thy ===== *)
theory Gtest_Flags
  imports Gtest_Text
begin

text \<open>
  The flags of gtest: their defaults, which come from the environment (\<open>gtest/src/gtest.cc\<close> and
  \<open>gtest-port.cc\<close>), the parsing of the command line, sharding variables, random seeds, and the
  object that saves and restores the flags around a test. The environment is a partial function,
  and what is printed to the standard output is returned. The theory proves that an argument
  reaches its own flag only, that the arguments that are not flags are kept in order, and that a
  printed integer parses as that integer.
\<close>

subsection \<open>Integers\<close>

definition decimal :: "string \<Rightarrow> nat" where
  "decimal ds = foldl (\<lambda>a d. a * 10 + (of_char d - 48)) 0 ds"

text \<open>\<open>strtol\<close> in base 10 with a 64-bit \<open>long\<close>: the value, and what was not consumed.\<close>

definition long_min :: int where "long_min = - (2 ^ 63)"
definition long_max :: int where "long_max = 2 ^ 63 - 1"

definition strtol :: "string \<Rightarrow> int \<times> string" where
  "strtol str =
     (let s = dropWhile is_space str;
          (negative, s) = (case s of c # r \<Rightarrow> if c = CHR ''-'' then (True, r) else if c = CHR ''+'' then (False, r)
            else (False, s) | [] \<Rightarrow> (False, s));
          digits = takeWhile is_digit s;
          n = int (decimal digits);
          v = (if negative then - n else n)
      in if digits = [] then (0, str)
         else (max long_min (min long_max v), dropWhile is_digit s))"

text \<open>\<open>static_cast<Int32>\<close> of a \<open>long\<close>.\<close>

definition to_int32 :: "int \<Rightarrow> int" where
  "to_int32 i = sint (word_of_int i :: u32)"

definition parse_int32 :: "string \<Rightarrow> string \<Rightarrow> int option \<times> string" where
  "parse_int32 src_text str =
     (let (long_value, end_ptr) = strtol str; result = to_int32 long_value
      in if end_ptr \<noteq> []
         then (None, ''WARNING: '' @ src_text @ '' is expected to be a 32-bit integer, but actually'' @
           '' has value '' @ [quote] @ str @ [quote] @ ''.'' @ newline)
         else if long_value = long_max \<or> long_value = long_min \<or> result \<noteq> long_value
         then (None, ''WARNING: '' @ src_text @ '' is expected to be a 32-bit integer, but actually'' @
           '' has value '' @ str @ '', which overflows.'' @ newline)
         else (Some result, []))"

subsection \<open>The environment\<close>

type_synonym environment = "string \<Rightarrow> string option"

definition flag_to_env_var :: "string \<Rightarrow> string" where
  "flag_to_env_var flag = map to_upper (''gtest_'' @ flag)"

definition bool_from_gtest_env :: "environment \<Rightarrow> string \<Rightarrow> bool \<Rightarrow> bool" where
  "bool_from_gtest_env env flag default_value =
     (case env (flag_to_env_var flag) of None \<Rightarrow> default_value | Some string_value \<Rightarrow> string_value \<noteq> ''0'')"

definition int32_from_gtest_env :: "environment \<Rightarrow> string \<Rightarrow> int \<Rightarrow> int \<times> string" where
  "int32_from_gtest_env env flag default_value =
     (let env_var = flag_to_env_var flag
      in case env env_var of
           None \<Rightarrow> (default_value, [])
         | Some string_value \<Rightarrow>
             (case parse_int32 (''Environment variable '' @ env_var) string_value of
                (None, warning) \<Rightarrow>
                  (default_value, warning @ ''The default value '' @ string_of_int default_value @ '' is used.'' @ newline)
              | (Some result, warning) \<Rightarrow> (result, warning)))"

definition string_from_gtest_env :: "environment \<Rightarrow> string \<Rightarrow> string \<Rightarrow> string" where
  "string_from_gtest_env env flag default_value =
     (case env (flag_to_env_var flag) of None \<Rightarrow> default_value | Some v \<Rightarrow> v)"

text \<open>\<open>Inl\<close> is the end of the process, with what was printed.\<close>

definition int32_from_env_or_die :: "environment \<Rightarrow> string \<Rightarrow> int \<Rightarrow> string + int" where
  "int32_from_env_or_die env var default_val =
     (case env var of
        None \<Rightarrow> Inr default_val
      | Some str_val \<Rightarrow>
          (case parse_int32 (''The value of environment variable '' @ var) str_val of
             (None, warning) \<Rightarrow> Inl warning
           | (Some result, _) \<Rightarrow> Inr result))"

subsection \<open>The flags\<close>

record gtest_flags =
  fl_also_run_disabled_tests :: bool
  fl_break_on_failure :: bool
  fl_catch_exceptions :: bool
  fl_color :: string
  fl_death_test_style :: string
  fl_death_test_use_fork :: bool
  fl_filter :: string
  fl_internal_run_death_test :: string
  fl_list_tests :: bool
  fl_output :: string
  fl_print_time :: bool
  fl_random_seed :: int
  fl_repeat :: int
  fl_shuffle :: bool
  fl_stack_trace_depth :: int
  fl_stream_result_to :: string
  fl_throw_on_failure :: bool
  fl_show_internal_stack_frames :: bool

definition default_flags :: "environment \<Rightarrow> gtest_flags" where
  "default_flags env =
     \<lparr>fl_also_run_disabled_tests = bool_from_gtest_env env ''also_run_disabled_tests'' False,
      fl_break_on_failure = bool_from_gtest_env env ''break_on_failure'' False,
      fl_catch_exceptions = bool_from_gtest_env env ''catch_exceptions'' True,
      fl_color = string_from_gtest_env env ''color'' ''auto'',
      fl_death_test_style = string_from_gtest_env env ''death_test_style'' ''fast'',
      fl_death_test_use_fork = bool_from_gtest_env env ''death_test_use_fork'' False,
      fl_filter = string_from_gtest_env env ''filter'' ''*'',
      fl_internal_run_death_test = [],
      fl_list_tests = False,
      fl_output = string_from_gtest_env env ''output'' [],
      fl_print_time = bool_from_gtest_env env ''print_time'' True,
      fl_random_seed = fst (int32_from_gtest_env env ''random_seed'' 0),
      fl_repeat = fst (int32_from_gtest_env env ''repeat'' 1),
      fl_shuffle = bool_from_gtest_env env ''shuffle'' False,
      fl_stack_trace_depth = fst (int32_from_gtest_env env ''stack_trace_depth'' 100),
      fl_stream_result_to = string_from_gtest_env env ''stream_result_to'' [],
      fl_throw_on_failure = bool_from_gtest_env env ''throw_on_failure'' False,
      fl_show_internal_stack_frames = False\<rparr>"

text \<open>
  The constructor of \<open>GTestFlagSaver\<close> copies the flags, the destructor writes them back; the
  flag of the internal stack frames is not among them.
\<close>

definition restore_flags :: "gtest_flags \<Rightarrow> gtest_flags \<Rightarrow> gtest_flags" where
  "restore_flags saved current =
     saved\<lparr>fl_show_internal_stack_frames := fl_show_internal_stack_frames current\<rparr>"

subsection \<open>The command line\<close>

text \<open>What is left behind the prefix, or \<open>None\<close>.\<close>

definition skip_prefix :: "string \<Rightarrow> string \<Rightarrow> string option" where
  "skip_prefix prefix str = (if take (length prefix) str = prefix then Some (drop (length prefix) str) else None)"

definition parse_flag_value :: "string option \<Rightarrow> string option \<Rightarrow> bool \<Rightarrow> string option" where
  "parse_flag_value str flag def_optional =
     (case (str, flag) of
        (Some str, Some flag) \<Rightarrow>
          (let flag_str = ''--'' @ ''gtest_'' @ flag; flag_len = length flag_str
           in if take flag_len str \<noteq> flag_str then None
              else let flag_end = drop flag_len str
                in if def_optional \<and> flag_end = [] then Some flag_end
                   else if flag_end = [] \<or> hd flag_end \<noteq> CHR ''='' then None
                   else Some (tl flag_end))
      | _ \<Rightarrow> None)"

definition parse_bool_flag :: "string \<Rightarrow> string \<Rightarrow> bool option" where
  "parse_bool_flag str flag =
     map_option (\<lambda>v. \<not> (v \<noteq> [] \<and> (hd v = CHR ''0'' \<or> hd v = CHR ''f'' \<or> hd v = CHR ''F'')))
       (parse_flag_value (Some str) (Some flag) True)"

definition parse_int32_flag :: "string \<Rightarrow> string \<Rightarrow> int option \<times> string" where
  "parse_int32_flag str flag =
     (case parse_flag_value (Some str) (Some flag) False of
        None \<Rightarrow> (None, [])
      | Some value_str \<Rightarrow> parse_int32 (''The value of flag --'' @ flag) value_str)"

definition parse_string_flag :: "string \<Rightarrow> string \<Rightarrow> string option" where
  "parse_string_flag str flag = parse_flag_value (Some str) (Some flag) False"

definition has_google_test_flag_prefix :: "string \<Rightarrow> bool" where
  "has_google_test_flag_prefix str =
     (let skipped = (case skip_prefix ''--'' str of Some r \<Rightarrow> Some r
            | None \<Rightarrow> (case skip_prefix ''-'' str of Some r \<Rightarrow> Some r | None \<Rightarrow> skip_prefix ''/'' str))
      in case skipped of
           None \<Rightarrow> False
         | Some str \<Rightarrow> skip_prefix (''gtest_'' @ ''internal_'') str = None \<and>
             (skip_prefix ''gtest_'' str \<noteq> None \<or> skip_prefix ''gtest-'' str \<noteq> None))"

text \<open>Tries a flag: the new flags when it is this one.\<close>

definition try_bool ::
  "string \<Rightarrow> string \<Rightarrow> ((bool \<Rightarrow> bool) \<Rightarrow> gtest_flags \<Rightarrow> gtest_flags) \<Rightarrow> gtest_flags \<Rightarrow> gtest_flags option \<times> string" where
  "try_bool arg flag update fl =
     (map_option (\<lambda>v. update (\<lambda>_. v) fl) (parse_bool_flag arg flag), [])"

definition try_string ::
  "string \<Rightarrow> string \<Rightarrow> ((string \<Rightarrow> string) \<Rightarrow> gtest_flags \<Rightarrow> gtest_flags) \<Rightarrow> gtest_flags \<Rightarrow> gtest_flags option \<times> string" where
  "try_string arg flag update fl =
     (map_option (\<lambda>v. update (\<lambda>_. v) fl) (parse_string_flag arg flag), [])"

definition try_int32 ::
  "string \<Rightarrow> string \<Rightarrow> ((int \<Rightarrow> int) \<Rightarrow> gtest_flags \<Rightarrow> gtest_flags) \<Rightarrow> gtest_flags \<Rightarrow> gtest_flags option \<times> string" where
  "try_int32 arg flag update fl =
     (let (v, warning) = parse_int32_flag arg flag in (map_option (\<lambda>v. update (\<lambda>_. v) fl) v, warning))"

text \<open>The operator \<open>||\<close> between two attempts, with what they print.\<close>

definition or_else ::
  "gtest_flags option \<times> string \<Rightarrow> gtest_flags option \<times> string \<Rightarrow> gtest_flags option \<times> string" where
  "or_else a b = (if fst a \<noteq> None then a else (fst b, snd a @ snd b))"

definition parse_google_test_flag :: "string \<Rightarrow> gtest_flags \<Rightarrow> gtest_flags option \<times> string" where
  "parse_google_test_flag arg fl =
     foldr or_else
       [try_bool arg ''also_run_disabled_tests'' fl_also_run_disabled_tests_update fl,
        try_bool arg ''break_on_failure'' fl_break_on_failure_update fl,
        try_bool arg ''catch_exceptions'' fl_catch_exceptions_update fl,
        try_string arg ''color'' fl_color_update fl,
        try_string arg ''death_test_style'' fl_death_test_style_update fl,
        try_bool arg ''death_test_use_fork'' fl_death_test_use_fork_update fl,
        try_string arg ''filter'' fl_filter_update fl,
        try_string arg ''internal_run_death_test'' fl_internal_run_death_test_update fl,
        try_bool arg ''list_tests'' fl_list_tests_update fl,
        try_string arg ''output'' fl_output_update fl,
        try_bool arg ''print_time'' fl_print_time_update fl,
        try_int32 arg ''random_seed'' fl_random_seed_update fl,
        try_int32 arg ''repeat'' fl_repeat_update fl,
        try_bool arg ''shuffle'' fl_shuffle_update fl,
        try_int32 arg ''stack_trace_depth'' fl_stack_trace_depth_update fl,
        try_string arg ''stream_result_to'' fl_stream_result_to_update fl,
        try_bool arg ''throw_on_failure'' fl_throw_on_failure_update fl] (None, [])"

definition asks_for_help :: "string \<Rightarrow> bool" where
  "asks_for_help arg \<longleftrightarrow> arg = ''--help'' \<or> arg = ''-h'' \<or> arg = ''-?'' \<or> arg = ''/?'' \<or> has_google_test_flag_prefix arg"

text \<open>
  The loop over the arguments behind the program's name: the flags, whether help was asked for,
  the arguments that are kept, and what was printed.
\<close>

fun parse_flags_loop :: "string list \<Rightarrow> gtest_flags \<Rightarrow> bool \<Rightarrow> gtest_flags \<times> bool \<times> string list \<times> string" where
  "parse_flags_loop [] fl help = (fl, help, [], [])"
| "parse_flags_loop (a # args) fl help =
     (let arg = string_stream_to_string a
      in case parse_google_test_flag (c_str arg) fl of
           (Some fl, printed) \<Rightarrow>
             (let (fl, help, kept, more) = parse_flags_loop args fl help in (fl, help, kept, printed @ more))
         | (None, printed) \<Rightarrow>
             (let (fl, help, kept, more) = parse_flags_loop args fl (help \<or> asks_for_help arg)
              in (fl, help, a # kept, printed @ more)))"

definition parse_google_test_flags_only ::
  "string list \<Rightarrow> gtest_flags \<Rightarrow> bool \<Rightarrow> gtest_flags \<times> bool \<times> string list \<times> string" where
  "parse_google_test_flags_only argv fl help =
     (case argv of
        [] \<Rightarrow> (fl, help, [], [])
      | program # args \<Rightarrow>
          (let (fl, help, kept, printed) = parse_flags_loop args fl help in (fl, help, program # kept, printed)))"

subsection \<open>Text with colours\<close>

datatype gtest_color = Color_default | Color_red | Color_green | Color_yellow

lemma dropWhile_Cons_shorter: "dropWhile P xs = y # ys \<Longrightarrow> length ys < length xs"
  using length_dropWhile_le [of P xs] by simp

text \<open>The segments that \<open>PrintColorEncoded\<close> prints, each with its colour.\<close>

function print_color_encoded :: "gtest_color \<Rightarrow> string \<Rightarrow> (gtest_color \<times> string) list" where
  "print_color_encoded color str =
     (case dropWhile (\<lambda>c. c \<noteq> CHR ''@'') str of
        [] \<Rightarrow> [(color, str)]
      | at # rest \<Rightarrow>
          (color, takeWhile (\<lambda>c. c \<noteq> CHR ''@'') str) #
          (case rest of
             [] \<Rightarrow> print_color_encoded color []
           | ch # after \<Rightarrow>
               if ch = CHR ''@'' then (color, ''@'') # print_color_encoded color after
               else if ch = CHR ''D'' then print_color_encoded Color_default after
               else if ch = CHR ''R'' then print_color_encoded Color_red after
               else if ch = CHR ''G'' then print_color_encoded Color_green after
               else if ch = CHR ''Y'' then print_color_encoded Color_yellow after
               else print_color_encoded color (ch # after)))"
  by pat_completeness auto

termination
  by (relation "measure (\<lambda>(_, str). length str)") (auto dest: dropWhile_Cons_shorter)

declare print_color_encoded.simps [simp del]

subsection \<open>Sharding and seeds\<close>

definition should_shard :: "environment \<Rightarrow> string \<Rightarrow> string \<Rightarrow> bool \<Rightarrow> string + bool" where
  "should_shard env total_shards_env shard_index_env in_subprocess_for_death_test =
     (if in_subprocess_for_death_test then Inr False
      else case int32_from_env_or_die env total_shards_env (- 1) of
        Inl e \<Rightarrow> Inl e
      | Inr total_shards \<Rightarrow>
          (case int32_from_env_or_die env shard_index_env (- 1) of
             Inl e \<Rightarrow> Inl e
           | Inr shard_index \<Rightarrow>
               if total_shards = - 1 \<and> shard_index = - 1 then Inr False
               else if total_shards = - 1 \<and> shard_index \<noteq> - 1
               then Inl (''Invalid environment variables: you have '' @ ''GTEST_SHARD_INDEX'' @ '' = '' @
                 string_of_int shard_index @ '', but have left '' @ ''GTEST_TOTAL_SHARDS'' @ '' unset.'' @ newline)
               else if total_shards \<noteq> - 1 \<and> shard_index = - 1
               then Inl (''Invalid environment variables: you have '' @ ''GTEST_TOTAL_SHARDS'' @ '' = '' @
                 string_of_int total_shards @ '', but have left '' @ ''GTEST_SHARD_INDEX'' @ '' unset.'' @ newline)
               else if shard_index < 0 \<or> total_shards \<le> shard_index
               then Inl (''Invalid environment variables: we require 0 <= '' @ ''GTEST_SHARD_INDEX'' @ '' < '' @
                 ''GTEST_TOTAL_SHARDS'' @ '', but you have '' @ ''GTEST_SHARD_INDEX'' @ ''='' @
                 string_of_int shard_index @ '', '' @ ''GTEST_TOTAL_SHARDS'' @ ''='' @
                 string_of_int total_shards @ ''.'' @ newline)
               else Inr (1 < total_shards)))"

definition k_max_random_seed :: int where
  "k_max_random_seed = 99999"

text \<open>\<open>now\<close> is the time in milliseconds.\<close>

definition get_random_seed_from_flag :: "int \<Rightarrow> int \<Rightarrow> int" where
  "get_random_seed_from_flag now random_seed_flag =
     (let raw_seed = (if random_seed_flag = 0 then word_of_int now else word_of_int random_seed_flag :: u32)
      in uint ((raw_seed - 1) mod word_of_int k_max_random_seed) + 1)"

definition get_next_random_seed :: "int \<Rightarrow> fault + int" where
  "get_next_random_seed seed =
     (if \<not> (1 \<le> seed \<and> seed \<le> k_max_random_seed) then Inl Assertion_failure
      else let next_seed = seed + 1 in Inr (if k_max_random_seed < next_seed then 1 else next_seed))"

subsection \<open>Integers come back\<close>

lemma decimal_snoc: "decimal (ds @ [d]) = decimal ds * 10 + (of_char d - 48)"
  by (simp add: decimal_def)

lemma digit_char: "n < 10 \<Longrightarrow> is_digit (char_of (48 + n)) \<and> of_char (char_of (48 + n) :: char) = (48 + n :: nat)"
  by (simp add: is_digit_def between_def)

lemma string_of_nat_decimal:
  "list_all is_digit (string_of_nat n) \<and> string_of_nat n \<noteq> [] \<and> decimal (string_of_nat n) = n"
proof (induction n rule: string_of_nat.induct)
  case (1 n)
  show ?case
  proof (cases "n < 10")
    case True
    then show ?thesis using digit_char [of n] by (simp add: string_of_nat.simps [of n] decimal_def)
  next
    case False
    then show ?thesis using 1 digit_char [of "n mod 10"] by (simp add: string_of_nat.simps [of n] decimal_snoc)
  qed
qed

lemma digits_all: "list_all P ds \<Longrightarrow> takeWhile P ds = ds \<and> dropWhile P ds = []"
  by (induction ds) auto

lemma digit_not_space: "is_digit c \<Longrightarrow> \<not> is_space c \<and> c \<noteq> CHR ''-'' \<and> c \<noteq> CHR ''+''"
  by (auto simp: is_digit_def is_space_def between_def)

lemma minus_not_space [simp]: "\<not> is_space CHR ''-''"
  by (simp add: is_space_def between_def)

lemma strtol_string_of_int: "strtol (string_of_int i) = (max long_min (min long_max i), [])"
proof -
  let ?ds = "string_of_nat (nat \<bar>i\<bar>)"
  have digits: "list_all is_digit ?ds" "?ds \<noteq> []" "decimal ?ds = nat \<bar>i\<bar>"
    using string_of_nat_decimal by auto
  then obtain d ds where ds: "?ds = d # ds" "is_digit d" by (cases ?ds) auto
  note d = digit_not_space [OF ds(2)]
  show ?thesis
  proof (cases "i < 0")
    case True
    then show ?thesis using digits digits_all [OF digits(1)]
      by (simp add: strtol_def string_of_int_def Let_def del: takeWhile_eq_all_conv dropWhile_eq_Nil_conv)
  next
    case False
    then have "string_of_int i = d # ds" using ds by (simp add: string_of_int_def)
    then show ?thesis using digits digits_all [OF digits(1)] d ds False
      by (simp add: strtol_def Let_def del: takeWhile_eq_all_conv dropWhile_eq_Nil_conv)
  qed
qed

lemma to_int32_id: "- (2 ^ 31) \<le> i \<Longrightarrow> i < 2 ^ 31 \<Longrightarrow> to_int32 i = i"
  by (simp add: to_int32_def signed_of_int signed_take_bit_int_eq_self)

lemma parse_int32_inverse:
  assumes "- (2 ^ 31) \<le> i" and "i < 2 ^ 31"
  shows "parse_int32 text (string_of_int i) = (Some i, [])"
proof -
  have "strtol (string_of_int i) = (i, [])"
    using assms by (simp add: strtol_string_of_int long_min_def long_max_def)
  then show ?thesis using assms to_int32_id [OF assms]
    by (simp add: parse_int32_def long_min_def long_max_def)
qed

lemma parse_int32_printed:
  "fst (parse_int32 text (string_of_int i)) = (if - (2 ^ 31) \<le> i \<and> i < 2 ^ 31 then Some i else None)"
proof (cases "- (2 ^ 31) \<le> i \<and> i < 2 ^ 31")
  case True
  then show ?thesis using parse_int32_inverse [of i "text"] by simp
next
  case False
  let ?v = "max long_min (min long_max i)"
  have "\<not> (- (2 ^ 31) \<le> ?v \<and> ?v < 2 ^ 31)" using False by (auto simp: long_min_def long_max_def)
  then have "to_int32 ?v \<noteq> ?v"
    using sint_ge [of "word_of_int ?v :: u32"] sint_lt [of "word_of_int ?v :: u32"] unfolding to_int32_def by auto
  then show ?thesis using False unfolding parse_int32_def strtol_string_of_int Let_def prod.case by simp
qed

text \<open>What parses fits in 32 bits; the empty text parses as 0.\<close>

lemma to_int32_range: "- (2 ^ 31) \<le> to_int32 i \<and> to_int32 i < 2 ^ 31"
  using sint_ge [of "word_of_int i :: u32"] sint_lt [of "word_of_int i :: u32"] by (simp add: to_int32_def)

lemma parse_int32_range:
  "parse_int32 text str = (Some v, w) \<Longrightarrow> - (2 ^ 31) \<le> v \<and> v < 2 ^ 31 \<and> v = fst (strtol str) \<and> w = []"
  using to_int32_range [of "fst (strtol str)"]
  by (auto simp: parse_int32_def Let_def split: prod.splits if_splits)

lemma parse_int32_empty: "parse_int32 text [] = (Some 0, [])"
  by (simp add: parse_int32_def strtol_def to_int32_def long_min_def long_max_def)

subsection \<open>An argument reaches its own flag\<close>

definition flag_argument :: "string \<Rightarrow> string \<Rightarrow> string" where
  "flag_argument flag v = ''--gtest_'' @ flag @ ''='' @ v"

lemma parse_flag_value_own: "parse_flag_value (Some (flag_argument flag v)) (Some flag) opt = Some v"
  by (simp add: parse_flag_value_def flag_argument_def)

lemma parse_flag_value_other:
  assumes "CHR ''='' \<notin> set flag" and "CHR ''='' \<notin> set flag'" and "flag \<noteq> flag'"
  shows "parse_flag_value (Some (flag_argument flag v)) (Some flag') opt = None"
proof (rule ccontr)
  let ?text = "flag @ ''='' @ v"
  assume "\<not> ?thesis"
  then have "take (length flag') ?text = flag'" and rest: "drop (length flag') ?text = [] \<or> hd (drop (length flag') ?text) = CHR ''=''"
    and "drop (length flag') ?text = [] \<longrightarrow> opt"
    by (auto simp: parse_flag_value_def flag_argument_def Let_def split: if_splits)
  then have split: "?text = flag' @ drop (length flag') ?text" by (metis append_take_drop_id)
  show False
  proof (cases "drop (length flag') ?text")
    case Nil
    then have "?text = flag'" using split by simp
    then show False using assms(2) by (metis Un_iff append.simps(2) list.set_intros(1) set_append)
  next
    case (Cons c r)
    then have eq: "flag @ CHR ''='' # v = flag' @ CHR ''='' # r" using split rest by simp
    have "takeWhile (\<lambda>c. c \<noteq> CHR ''='') (flag @ CHR ''='' # v) = flag"
      using assms(1) by (induction flag) auto
    moreover have "takeWhile (\<lambda>c. c \<noteq> CHR ''='') (flag' @ CHR ''='' # r) = flag'"
      using assms(2) by (induction flag') auto
    ultimately show False using eq assms(3) by simp
  qed
qed

lemma try_own:
  "try_string (flag_argument flag v) flag us fl = (Some (us (\<lambda>_. v) fl), [])"
  "try_bool (flag_argument flag v) flag ub fl =
     (Some (ub (\<lambda>_. \<not> (v \<noteq> [] \<and> (hd v = CHR ''0'' \<or> hd v = CHR ''f'' \<or> hd v = CHR ''F''))) fl), [])"
  "- (2 ^ 31) \<le> i \<Longrightarrow> i < 2 ^ 31 \<Longrightarrow>
   try_int32 (flag_argument flag (string_of_int i)) flag ui fl = (Some (ui (\<lambda>_. i) fl), [])"
  by (simp_all only: try_string_def try_bool_def try_int32_def parse_string_flag_def parse_bool_flag_def
      parse_int32_flag_def parse_flag_value_own option.case option.map parse_int32_inverse Let_def prod.case)

lemma try_other:
  assumes "CHR ''='' \<notin> set flag" and "CHR ''='' \<notin> set flag'" and "flag \<noteq> flag'"
  shows "try_string (flag_argument flag v) flag' us fl = (None, [])"
    and "try_bool (flag_argument flag v) flag' ub fl = (None, [])"
    and "try_int32 (flag_argument flag v) flag' ui fl = (None, [])"
  using parse_flag_value_other [OF assms]
  by (simp_all add: try_string_def try_bool_def try_int32_def parse_string_flag_def parse_bool_flag_def
      parse_int32_flag_def)

lemma or_else_simps [simp]: "or_else (Some f, w) b = (Some f, w)" "or_else (None, w) b = (fst b, w @ snd b)"
  by (simp_all add: or_else_def)

lemma flags_parsed:
  "parse_google_test_flag (flag_argument ''filter'' v) fl = (Some (fl\<lparr>fl_filter := v\<rparr>), [])"
  "parse_google_test_flag (flag_argument ''output'' v) fl = (Some (fl\<lparr>fl_output := v\<rparr>), [])"
  "- (2 ^ 31) \<le> i \<Longrightarrow> i < 2 ^ 31 \<Longrightarrow>
   parse_google_test_flag (flag_argument ''repeat'' (string_of_int i)) fl = (Some (fl\<lparr>fl_repeat := i\<rparr>), [])"
  "- (2 ^ 31) \<le> i \<Longrightarrow> i < 2 ^ 31 \<Longrightarrow>
   parse_google_test_flag (flag_argument ''random_seed'' (string_of_int i)) fl =
     (Some (fl\<lparr>fl_random_seed := i\<rparr>), [])"
  unfolding parse_google_test_flag_def by (simp_all add: try_other try_own)

subsection \<open>The arguments that are kept\<close>

definition recognised :: "string \<Rightarrow> bool" where
  "recognised a \<longleftrightarrow> fst (parse_google_test_flag (c_str (string_stream_to_string a)) (default_flags Map.empty)) \<noteq> None"

lemma or_else_None: "fst (or_else a b) = None \<longleftrightarrow> fst a = None \<and> fst b = None"
  by (cases "fst a") (simp_all add: or_else_def)

lemma try_None:
  "fst (try_bool arg f ub fl) = None \<longleftrightarrow> parse_bool_flag arg f = None"
  "fst (try_string arg f us fl) = None \<longleftrightarrow> parse_string_flag arg f = None"
  "fst (try_int32 arg f ui fl) = None \<longleftrightarrow> fst (parse_int32_flag arg f) = None"
  by (simp_all add: try_bool_def try_string_def try_int32_def split: prod.split)

lemma recognised_whatever_flags:
  "fst (parse_google_test_flag (c_str (string_stream_to_string a)) fl) = None \<longleftrightarrow> \<not> recognised a"
  unfolding recognised_def parse_google_test_flag_def foldr.simps comp_def id_def or_else_None try_None by simp

lemma parse_flags_loop_kept:
  "parse_flags_loop args fl hp = (fl', hp2, kept, out) \<Longrightarrow>
   kept = filter (\<lambda>a. \<not> recognised a) args \<and>
   (hp2 \<longleftrightarrow> hp \<or> (\<exists>a \<in> set kept. asks_for_help (string_stream_to_string a)))"
proof (induction args arbitrary: fl hp fl' hp2 kept out)
  case (Cons a args)
  obtain fl1 out1 where p: "parse_google_test_flag (c_str (string_stream_to_string a)) fl = (fl1, out1)" by fastforce
  show ?case
  proof (cases fl1)
    case None
    obtain fl2 h2 k2 o2 where rest:
        "parse_flags_loop args fl (hp \<or> asks_for_help (string_stream_to_string a)) = (fl2, h2, k2, o2)"
      by (metis prod.collapse)
    have "\<not> recognised a" using recognised_whatever_flags [of a fl] p None by simp
    then show ?thesis using Cons.IH [OF rest] Cons.prems p None rest by auto
  next
    case (Some f)
    obtain fl2 h2 k2 o2 where rest: "parse_flags_loop args f hp = (fl2, h2, k2, o2)" by (metis prod.collapse)
    have "recognised a" using recognised_whatever_flags [of a fl] p Some by simp
    then show ?thesis using Cons.IH [OF rest] Cons.prems p Some rest by auto
  qed
qed simp

text \<open>The saver: what a test did to the flags is undone, one flag excepted.\<close>

lemma restore_flags_same:
  "restore_flags saved current = saved \<longleftrightarrow> fl_show_internal_stack_frames current = fl_show_internal_stack_frames saved"
  by (cases saved) (simp add: restore_flags_def)

subsection \<open>Seeds and shards\<close>

lemma random_seed_valid: "1 \<le> get_random_seed_from_flag now flag \<and> get_random_seed_from_flag now flag \<le> k_max_random_seed"
proof -
  have "0 \<le> uint ((w - 1 :: u32) mod word_of_int k_max_random_seed) \<and>
      uint ((w - 1 :: u32) mod word_of_int k_max_random_seed) < k_max_random_seed" for w
    by (simp add: uint_mod k_max_random_seed_def)
  from this [of "word_of_int now"] this [of "word_of_int flag"] show ?thesis
    by (simp add: get_random_seed_from_flag_def Let_def)
qed

lemma next_seed_valid:
  "1 \<le> seed \<Longrightarrow> seed \<le> k_max_random_seed \<Longrightarrow>
   \<exists>n. get_next_random_seed seed = Inr n \<and> 1 \<le> n \<and> n \<le> k_max_random_seed"
  by (auto simp: get_next_random_seed_def k_max_random_seed_def)

lemma should_shard_consistent:
  assumes "should_shard env shards index False = Inr True"
  shows "\<exists>t i. int32_from_env_or_die env shards (- 1) = Inr t \<and> int32_from_env_or_die env index (- 1) = Inr i \<and>
    1 < t \<and> 0 \<le> i \<and> i < t"
  using assms by (auto simp: should_shard_def split: sum.splits if_splits)

end
