(* ===== verification/Gtest_Filter.thy ===== *)
theory Gtest_Filter
  imports Gtest_Base "HOL-Library.Multiset"
begin

text \<open>
  Which tests gtest runs, and in which order (\<open>gtest/src/gtest.cc\<close>, \<open>gtest-internal-inl.h\<close>): the
  patterns of the filter, the assignment to shards, the generator of random numbers and the
  shuffle. The theory gives the patterns a meaning as languages and proves that the matcher
  decides it, and that shuffling permutes.
\<close>

subsection \<open>Patterns\<close>

fun pattern_matches_string :: "string \<Rightarrow> string \<Rightarrow> bool" where
  "pattern_matches_string [] str \<longleftrightarrow> str = []"
| "pattern_matches_string (p # pattern) str \<longleftrightarrow>
     (if p = CHR '':'' then str = []
      else if p = CHR ''?'' then (case str of [] \<Rightarrow> False | _ # rest \<Rightarrow> pattern_matches_string pattern rest)
      else if p = CHR ''*'' then
        (case str of [] \<Rightarrow> False | _ # rest \<Rightarrow> pattern_matches_string (p # pattern) rest) \<or>
        pattern_matches_string pattern str
      else (case str of [] \<Rightarrow> False | c # rest \<Rightarrow> p = c \<and> pattern_matches_string pattern rest))"

declare pattern_matches_string.simps [simp del]

function matches_filter :: "string \<Rightarrow> string \<Rightarrow> bool" where
  "matches_filter name cur_pattern \<longleftrightarrow>
     pattern_matches_string cur_pattern name \<or>
     (case dropWhile (\<lambda>c. c \<noteq> CHR '':'') cur_pattern of [] \<Rightarrow> False | _ # rest \<Rightarrow> matches_filter name rest)"
  by pat_completeness auto

termination
proof (relation "measure (\<lambda>(_, p). length p)")
  fix name cur_pattern rest :: string and c
  assume "dropWhile (\<lambda>c. c \<noteq> CHR '':'') cur_pattern = c # rest"
  then have "length (c # rest) \<le> length cur_pattern" by (metis length_dropWhile_le)
  then show "((name, rest), (name, cur_pattern)) \<in> measure (\<lambda>(_, p). length p)" by simp
qed simp

declare matches_filter.simps [simp del]

definition filter_matches_test :: "string \<Rightarrow> string \<Rightarrow> string \<Rightarrow> bool" where
  "filter_matches_test flag test_case_name test_name \<longleftrightarrow>
     (let full_name = test_case_name @ ''.'' @ test_name;
          positive = takeWhile (\<lambda>c. c \<noteq> CHR ''-'') flag;
          dash = dropWhile (\<lambda>c. c \<noteq> CHR ''-'') flag;
          (positive, negative) =
            (if dash = [] then (flag, []) else ((if positive = [] then ''*'' else positive), tl dash))
      in matches_filter full_name positive \<and> \<not> matches_filter full_name negative)"

definition k_disable_test_filter :: string where
  "k_disable_test_filter = ''DISABLED_*:*/DISABLED_*''"

definition k_death_test_case_filter :: string where
  "k_death_test_case_filter = ''*DeathTest:*DeathTest/*''"

definition get_output_format :: "string \<Rightarrow> string" where
  "get_output_format gtest_output_flag = takeWhile (\<lambda>c. c \<noteq> CHR '':'') gtest_output_flag"

definition should_run_test_on_shard :: "int \<Rightarrow> int \<Rightarrow> int \<Rightarrow> bool" where
  "should_run_test_on_shard total_shards shard_index test_id \<longleftrightarrow> test_id mod total_shards = shard_index"

subsection \<open>Random numbers\<close>

definition k_max_range :: u32 where
  "k_max_range = push_bit 31 1"

text \<open>The state is the number that was generated last. It moves before the range is checked.\<close>

definition random_generate :: "u32 \<Rightarrow> u32 \<Rightarrow> fault + u32 \<times> u32" where
  "random_generate rng state =
     (let state = (1103515245 * state + 12345) mod k_max_range
      in if \<not> 0 < rng then Inl Assertion_failure
         else if \<not> rng \<le> k_max_range then Inl Assertion_failure
         else Inr (state mod rng, state))"

text \<open>The loop of \<open>ShuffleRange\<close> over the shrinking width.\<close>

fun shuffle_loop :: "nat \<Rightarrow> nat \<Rightarrow> u32 \<Rightarrow> 'a list \<Rightarrow> fault + 'a list \<times> u32" where
  "shuffle_loop begin range_width state v =
     (if 2 \<le> range_width then
        (case random_generate (of_nat range_width) state of
           Inl f \<Rightarrow> Inl f
         | Inr (r, state) \<Rightarrow>
             let last_in_range = begin + range_width - 1; selected = begin + unat r
             in shuffle_loop begin (range_width - 1) state
                  (v[selected := v ! last_in_range, last_in_range := v ! selected]))
      else Inr (v, state))"

declare shuffle_loop.simps [simp del]

definition shuffle_range :: "u32 \<Rightarrow> int \<Rightarrow> int \<Rightarrow> 'a list \<Rightarrow> fault + 'a list \<times> u32" where
  "shuffle_range state begin end v =
     (let size = int (length v)
      in if \<not> (0 \<le> begin \<and> begin \<le> size) then Inl Assertion_failure
         else if \<not> (begin \<le> end \<and> end \<le> size) then Inl Assertion_failure
         else shuffle_loop (nat begin) (nat (end - begin)) state v)"

definition shuffle :: "u32 \<Rightarrow> 'a list \<Rightarrow> fault + 'a list \<times> u32" where
  "shuffle state v = shuffle_range state 0 (int (length v)) v"

text \<open>\<open>GetElementOr\<close>\<close>

definition get_element_or :: "'a list \<Rightarrow> int \<Rightarrow> 'a \<Rightarrow> 'a" where
  "get_element_or v i default_value = (if i < 0 \<or> int (length v) \<le> i then default_value else v ! nat i)"

subsection \<open>The language of a pattern\<close>

fun glob_lang :: "string \<Rightarrow> string set" where
  "glob_lang [] = {[]}"
| "glob_lang (p # ps) =
     (if p = CHR ''?'' then {c # s |c s. s \<in> glob_lang ps}
      else if p = CHR ''*'' then {u @ s |u s. s \<in> glob_lang ps}
      else {p # s |s. s \<in> glob_lang ps})"

lemma star_unfold: "s \<in> glob_lang (CHR ''*'' # ps) \<longleftrightarrow>
    (\<exists>c s'. s = c # s' \<and> s' \<in> glob_lang (CHR ''*'' # ps)) \<or> s \<in> glob_lang ps"
proof
  assume "s \<in> glob_lang (CHR ''*'' # ps)"
  then obtain u t where "s = u @ t" "t \<in> glob_lang ps" by auto
  then show "(\<exists>c s'. s = c # s' \<and> s' \<in> glob_lang (CHR ''*'' # ps)) \<or> s \<in> glob_lang ps"
    by (cases u) auto
next
  assume "(\<exists>c s'. s = c # s' \<and> s' \<in> glob_lang (CHR ''*'' # ps)) \<or> s \<in> glob_lang ps"
  then show "s \<in> glob_lang (CHR ''*'' # ps)"
    by (auto intro: exI [of _ "[]"]) (metis append_Cons)
qed

lemma pattern_matches_lang:
  "pattern_matches_string p s \<longleftrightarrow> s \<in> glob_lang (takeWhile (\<lambda>c. c \<noteq> CHR '':'') p)"
proof (induction p s rule: pattern_matches_string.induct)
  case (1 str)
  then show ?case by (simp add: pattern_matches_string.simps)
next
  case (2 p pattern str)
  note step = pattern_matches_string.simps(2) [of p pattern str]
  consider "p = CHR '':''" | "p = CHR ''?''" | "p = CHR ''*''"
    | "p \<noteq> CHR '':''" "p \<noteq> CHR ''?''" "p \<noteq> CHR ''*''"
    by blast
  then show ?case
  proof cases
    case 3
    let ?ps = "takeWhile (\<lambda>c. c \<noteq> CHR '':'') pattern"
    have "pattern_matches_string (p # pattern) str \<longleftrightarrow>
        (\<exists>c s'. str = c # s' \<and> s' \<in> glob_lang (CHR ''*'' # ?ps)) \<or> str \<in> glob_lang ?ps"
      using 2 3 by (subst pattern_matches_string.simps) (auto split: list.split simp del: glob_lang.simps)
    then show ?thesis using star_unfold [of str ?ps] 3 by simp
  next
    case 1
    then show ?thesis unfolding step by simp
  next
    case 2
    then show ?thesis using "2.IH"(1) unfolding step by (cases str) auto
  next
    case 4
    then show ?thesis using "2.IH"(4) unfolding step by (cases str) auto
  qed
qed

text \<open>The patterns of a filter, between the colons.\<close>

function patterns_of :: "string \<Rightarrow> string list" where
  "patterns_of f =
     takeWhile (\<lambda>c. c \<noteq> CHR '':'') f #
     (case dropWhile (\<lambda>c. c \<noteq> CHR '':'') f of [] \<Rightarrow> [] | _ # rest \<Rightarrow> patterns_of rest)"
  by pat_completeness auto

termination
proof (relation "measure length")
  fix f rest :: string and c
  assume "dropWhile (\<lambda>c. c \<noteq> CHR '':'') f = c # rest"
  then have "length (c # rest) \<le> length f" by (metis length_dropWhile_le)
  then show "(rest, f) \<in> measure length" by simp
qed simp

declare patterns_of.simps [simp del]

lemma matches_filter_lang: "matches_filter name f \<longleftrightarrow> (\<exists>p \<in> set (patterns_of f). name \<in> glob_lang p)"
proof (induction name f rule: matches_filter.induct)
  case (1 name f)
  note unfold = matches_filter.simps [of name f] patterns_of.simps [of f] pattern_matches_lang
  show ?case
  proof (cases "dropWhile (\<lambda>c. c \<noteq> CHR '':'') f")
    case Nil
    show ?thesis unfolding unfold Nil by simp
  next
    case (Cons c rest)
    from "1.IH" [OF Cons] show ?thesis unfolding unfold Cons by auto
  qed
qed

subsection \<open>Shuffling\<close>

lemma random_generate_range:
  assumes "0 < rng" and "rng \<le> k_max_range"
  shows "\<exists>r state'. random_generate rng state = Inr (r, state') \<and> r < rng"
  using assms by (auto simp: random_generate_def Let_def word_mod_less_divisor)

lemma k_max_range_unat: "unat k_max_range = 2 ^ 31"
  by (simp add: k_max_range_def)

lemma shuffle_loop_permutes:
  assumes "b + w \<le> length v" and "w \<le> 2 ^ 31"
  shows "\<exists>v' state'. shuffle_loop b w state v = Inr (v', state') \<and> mset v' = mset v \<and>
    take b v' = take b v \<and> drop (b + w) v' = drop (b + w) v"
  using assms
proof (induction b w state v rule: shuffle_loop.induct)
  case (1 b w state v)
  show ?case
  proof (cases "2 \<le> w")
    case False
    then show ?thesis by (simp add: shuffle_loop.simps [of b w])
  next
    case True
    have w: "unat (of_nat w :: u32) = w" using "1.prems"(2) by (simp add: unat_of_nat)
    then have "0 < (of_nat w :: u32)" "(of_nat w :: u32) \<le> k_max_range"
      using True "1.prems"(2) k_max_range_unat by (simp_all add: word_less_nat_alt word_le_nat_alt)
    then obtain r state1 where g: "random_generate (of_nat w) state = Inr (r, state1)" and "r < of_nat w"
      using random_generate_range by blast
    then have r: "unat r < w" using w by (simp add: word_less_nat_alt)
    let ?last = "b + w - 1" and ?sel = "b + unat r"
    let ?v = "v[?sel := v ! ?last, ?last := v ! ?sel]"
    have prems: "b + (w - 1) \<le> length ?v" "w - 1 \<le> 2 ^ 31" using "1.prems" by simp_all
    obtain v' state' where v': "shuffle_loop b (w - 1) state1 ?v = Inr (v', state')" "mset v' = mset ?v"
        "take b v' = take b ?v" "drop (b + (w - 1)) v' = drop (b + (w - 1)) ?v"
      using "1.IH" [OF True g refl refl refl prems] by blast
    have "mset ?v = mset v" using r "1.prems"(1) True by (intro mset_swap) auto
    moreover have "take b ?v = take b v" using True by simp
    moreover have "drop (b + w) v' = drop (b + w) v"
    proof -
      have "drop 1 (drop (b + (w - 1)) v') = drop 1 (drop (b + (w - 1)) ?v)" using v'(4) by simp
      moreover have "1 + (b + (w - 1)) = b + w" using True by simp
      ultimately have "drop (b + w) v' = drop (b + w) ?v" by (simp only: drop_drop)
      then show ?thesis using r True by (simp add: drop_update_cancel)
    qed
    ultimately show ?thesis using v' g True by (auto simp: shuffle_loop.simps [of b w])
  qed
qed

lemma shuffle_range_permutes:
  assumes "0 \<le> b" and "b \<le> e" and "e \<le> int (length v)" and "length v \<le> 2 ^ 31"
  shows "\<exists>v' state'. shuffle_range state b e v = Inr (v', state') \<and> mset v' = mset v \<and>
    take (nat b) v' = take (nat b) v \<and> drop (nat e) v' = drop (nat e) v"
proof -
  have "nat b + nat (e - b) = nat e" using assms by simp
  then show ?thesis
    using shuffle_loop_permutes [of "nat b" "nat (e - b)" v state] assms
    by (simp add: shuffle_range_def)
qed

lemma shuffle_permutes:
  "length v \<le> 2 ^ 31 \<Longrightarrow> \<exists>v' state'. shuffle state v = Inr (v', state') \<and> mset v' = mset v"
  using shuffle_range_permutes [of 0 "int (length v)" v state] by (auto simp: shuffle_def)

text \<open>Each test runs on exactly one of the shards.\<close>

lemma one_shard:
  assumes "0 < shards"
  shows "\<exists>!i. 0 \<le> i \<and> i < shards \<and> should_run_test_on_shard shards i n"
  using assms by (auto simp: should_run_test_on_shard_def)

end
