(* ===== verification/Assertion_Properties.thy ===== *)
theory Assertion_Properties
  imports Unordered_Elements Simple_Regex Gtest_Assertions Gtest_Flags Gtest_Filter
begin

text \<open>
  What the matchers, the printers and the parsers of the test library under
  \<open>ext/gmock-1.7.0\<close> promise to the tests of the client.
\<close>

subsection \<open>Matching\<close>

text \<open>
  C28: \<open>FindMaxBipartiteMatching\<close> never trips over its own check, and the pairs it returns are a
  matching of elements with matchers along edges of the graph that no other matching exceeds.
\<close>

theorem matching_is_maximum:
  "\<exists>ps. find_max_bipartite_matching g = Inr ps \<and> distinct ps \<and> is_matching g (set ps) \<and>
    (\<forall>M. is_matching g M \<longrightarrow> card M \<le> length ps)"
  by (rule max_matching)

theorem matching_is_maximum_witness:
  "\<exists>ps. find_max_bipartite_matching \<lparr>mm_elements = 2, mm_matchers = 2, mm_matched = [True, True, True, False]\<rparr> = Inr ps \<and>
    2 \<le> length ps"
proof -
  let ?g = "\<lparr>mm_elements = 2, mm_matchers = 2, mm_matched = [True, True, True, False]\<rparr>"
  have "is_matching ?g {(0, 1), (1, 0)}"
    by (simp add: is_matching_def has_edge_def space_index_def numeral_2_eq_2)
  moreover have "card {(0 :: nat, 1 :: nat), (1, 0)} = 2" by simp
  ultimately show ?thesis using matching_is_maximum [of ?g] by metis
qed

text \<open>
  C29: \<open>UnorderedElementsAre\<close> accepts a container exactly when there are as many elements as matchers
  and some bijection gives every element a matcher that matches it.
\<close>

theorem unordered_elements_verdict:
  "\<exists>l'. match_unordered ms pr xs l = Inr (length xs = length ms \<and>
    (\<exists>f. bij_betw f {..<length xs} {..<length ms} \<and> (\<forall>i < length xs. matches (ms ! f i) (xs ! i))), l')"
  by (rule match_unordered_verdict)

theorem unordered_elements_verdict_witness:
  "\<exists>l'. match_unordered [\<lparr>mt_match_and_explain = \<lambda>x. (x = 1, []), mt_describe_to = [], mt_describe_negation_to = []\<rparr>,
      \<lparr>mt_match_and_explain = \<lambda>x. (x = 2, []), mt_describe_to = [], mt_describe_negation_to = []\<rparr>]
    (\<lambda>_. []) [2 :: int, 1] None = Inr (True, l')"
proof -
  let ?ms = "[\<lparr>mt_match_and_explain = \<lambda>x. (x = 1, []), mt_describe_to = [], mt_describe_negation_to = []\<rparr>,
      \<lparr>mt_match_and_explain = \<lambda>x. (x = 2, []), mt_describe_to = [], mt_describe_negation_to = []\<rparr>] :: int matcher list"
  have two: "{..<Suc (Suc 0)} = {0, 1}" by auto
  have "bij_betw (\<lambda>i. 1 - i) {..<length [2 :: int, 1]} {..<length ?ms}"
    by (auto simp: two bij_betw_def inj_on_def)
  moreover have "\<forall>i < length [2 :: int, 1]. matches (?ms ! (1 - i)) ([2, 1] ! i)"
    by (auto simp: matches_def less_Suc_eq)
  ultimately have "length [2 :: int, 1] = length ?ms \<and> (\<exists>f. bij_betw f {..<length [2 :: int, 1]} {..<length ?ms} \<and>
      (\<forall>i < length [2 :: int, 1]. matches (?ms ! f i) ([2, 1] ! i)))"
    by (intro conjI exI [of _ "\<lambda>i. 1 - i"]) simp_all
  then show ?thesis using unordered_elements_verdict [of ?ms "\<lambda>_. []" "[2, 1]" None] by simp
qed

subsection \<open>Regular expressions\<close>

text \<open>
  The simple regular expressions that \<open>ValidateRegex\<close> accepts are the ones with a parse.
\<close>

theorem regex_validation_is_parsing:
  "fst (validate_regex (Some r)) \<longleftrightarrow> parse_regex (strip_caret r) \<noteq> None"
  by (rule validate_parses)

text \<open>
  C30: The matcher of a validated expression decides its language: a text matches in part when some
  piece of it is a word of the language, anchored as the caret and the dollar say, and it matches
  in full when it is such a word, unless the expression ends in an escaped dollar.
\<close>

theorem regex_matches_language:
  assumes "fst (validate_regex (Some r))" and "length str \<le> text_limit"
  shows "re_partial_match (Some str) (fst (re_init (Some r))) =
      Some (\<exists>u w v. str = u @ w @ v \<and> w \<in> regex_lang r \<and>
        (strip_caret r \<noteq> r \<longrightarrow> u = []) \<and> (ends_in_dollar r \<longrightarrow> v = [])) \<and>
    (ends_in_dollar r \<or> r = [] \<or> last r \<noteq> CHR ''$'' \<longrightarrow>
      re_full_match (Some str) (fst (re_init (Some r))) = Some (str \<in> regex_lang r))"
  using partial_match_language [OF assms] full_match_language [OF assms] by blast

theorem regex_matches_language_witness:
  "re_full_match (Some ''ab'') (fst (re_init (Some ''ab''))) = Some True"
proof -
  have valid: "fst (validate_regex (Some ''ab''))"
    by (simp add: validate_parses strip_caret_def take_repeat_def is_repeat_def is_in_set_def)
  have "''ab'' \<in> regex_lang ''ab''"
    by (auto simp: regex_lang_def strip_caret_def take_repeat_def is_repeat_def is_in_set_def atom_matches_char_def
        intro: exI [of _ "''a''"] exI [of _ "''b''"])
  then show ?thesis using regex_matches_language [OF valid, of "''ab''"] by (simp add: text_limit_def)
qed

text \<open>
  C40: A validated expression that ends in an escaped dollar matches in full every text that begins
  with one of its words, whatever follows, though every word ends in a dollar itself:
  \<open>RE::Init\<close> takes the escaped dollar for an anchor and does not append one.
\<close>

theorem regex_escaped_dollar_not_anchored:
  assumes "fst (validate_regex (Some r))" and "length str \<le> text_limit"
    and "\<not> ends_in_dollar r" and "r \<noteq> []" and "last r = CHR ''$''"
  shows "re_full_match (Some str) (fst (re_init (Some r))) = Some (\<exists>w v. str = w @ v \<and> w \<in> regex_lang r) \<and>
    (str \<in> regex_lang r \<longrightarrow> str \<noteq> [] \<and> last str = CHR ''$'')"
  using full_match_escaped_dollar [OF assms] escaped_dollar_words [OF _ assms(3-5)] by blast

theorem regex_escaped_dollar_not_anchored_witness:
  "re_full_match (Some ''$100'') (fst (re_init (Some (backslash # ''$'')))) = Some True \<and>
   ''$100'' \<notin> regex_lang (backslash # ''$'')"
proof -
  let ?r = "backslash # ''$''"
  have parse: "parse_regex (strip_caret ?r) = Some ([(True, CHR ''$'', None)], False)"
    by (simp add: strip_caret_def is_valid_escape_def is_ascii_punct_def is_in_set_def take_repeat_def)
  then have valid: "fst (validate_regex (Some ?r))" "\<not> ends_in_dollar ?r"
    by (simp_all add: validate_parses ends_in_dollar_def)
  have "''$'' \<in> regex_lang ?r"
    using parse by (auto simp: regex_lang_def atom_matches_char_def is_ascii_punct_def is_in_set_def intro!: exI [of _ "''$''"])
  then have "\<exists>w v. ''$100'' = w @ v \<and> w \<in> regex_lang ?r" by (intro exI [of _ "''$''"] exI [of _ "''100''"]) simp
  then show ?thesis
    using regex_escaped_dollar_not_anchored [OF valid(1) _ valid(2), of "''$100''"] by (simp add: text_limit_def)
qed

subsection \<open>Text\<close>

text \<open>
  C37: A wide text of Unicode characters, in UTF-16 with surrogate pairs or in UTF-32, becomes UTF-8
  from which a decoder reads the same characters.
\<close>

theorem wide_text_roundtrip:
  assumes "list_all scalar_value cps"
  shows "decode_all (wide_string_to_utf8 2 (concat (map utf16_of cps))) = Some (map unat cps) \<and>
    decode_all (wide_string_to_utf8 4 cps) = Some (map unat cps)"
  using wide_string_utf16 [OF assms] wide_string_utf32 [of cps] assms
  by (auto simp: list_all_iff scalar_encodable)

theorem wide_text_roundtrip_witness:
  "decode_all (wide_string_to_utf8 2 [0x41, 0xD83D, 0xDE00]) = Some [0x41, 0x1F600]"
proof -
  have "concat (map utf16_of [0x41, 0x1F600]) = [0x41, 0xD83D, 0xDE00]" by (simp add: utf16_of_def)
  then show ?thesis using wide_text_roundtrip [of "[0x41, 0x1F600]"] by (simp add: scalar_value_def)
qed

text \<open>
  C38: A string that is printed as a literal, with its escapes and its splits behind hexadecimal
  escapes, reads back as that string under the rules of C++, unless a digit follows a NUL.
\<close>

theorem printed_string_roundtrip:
  assumes "\<not> nul_before_digit codes"
  shows "\<exists>body. print_chars_as_string_to wide codes = quote_begin wide @ body \<and>
    read_literal wide body = Some (map unat codes)"
  using assms by (rule printed_string_reads_back)

theorem printed_string_roundtrip_witness:
  "\<exists>body. print_chars_as_string_to True [0x80, 0x41, 0x22] = quote_begin True @ body \<and>
    read_literal True body = Some [0x80, 0x41, 0x22]"
  using printed_string_roundtrip [of "[0x80, 0x41, 0x22]" True] by (simp add: is_octal_code_def)

subsection \<open>Numbers\<close>

text \<open>
  C39: Two floating-point numbers of any width are almost equal exactly when neither is a NaN and the
  distance of the two, counted in representable numbers and without a wrap-around, is at most four:
  at most three numbers lie strictly between them.
\<close>

theorem almost_equal_within_four_ulps:
  "almost_equals fraction a b \<longleftrightarrow>
   \<not> is_nan fraction a \<and> \<not> is_nan fraction b \<and> \<bar>sam_value a - sam_value b\<bar> \<le> 4"
  by (rule almost_equals_distance)

text \<open>
  An integer that is printed and parsed as the value of a flag comes back when it has 32 bits, and
  is refused otherwise, however large it is.
\<close>

theorem printed_integer_parses:
  "fst (parse_int32 text (string_of_int i)) = (if - (2 ^ 31) \<le> i \<and> i < 2 ^ 31 then Some i else None)"
  by (rule parse_int32_printed)

subsection \<open>The command line and the filter\<close>

text \<open>
  The arguments that stay on the command line are the ones that are no flags of gtest, in their
  order, whatever the flags are set to; help is shown when one of them asks for it; and the name
  of the program stays.
\<close>

theorem command_line_keeps_other_arguments:
  "\<exists>fl' printed. parse_google_test_flags_only (program # args) fl help_flag =
     (fl', help_flag \<or> list_ex (asks_for_help \<circ> string_stream_to_string) (filter (\<lambda>a. \<not> recognised a) args),
      program # filter (\<lambda>a. \<not> recognised a) args, printed)"
proof -
  obtain fl' h kept printed where p: "parse_flags_loop args fl help_flag = (fl', h, kept, printed)"
    by (metis prod.collapse)
  from parse_flags_loop_kept [OF this] show ?thesis
    by (auto simp: parse_google_test_flags_only_def p list_ex_iff)
qed

text \<open>
  C31: A test is selected by a filter exactly when its full name is in the language of one of the
  patterns before the first dash, all names when there is none but a dash, and in that of no
  pattern behind the dash.
\<close>

theorem filter_selects_by_patterns:
  "filter_matches_test flag test_case_name test_name \<longleftrightarrow>
     (let name = test_case_name @ ''.'' @ test_name;
          positive = takeWhile (\<lambda>c. c \<noteq> CHR ''-'') flag; negative = tl (dropWhile (\<lambda>c. c \<noteq> CHR ''-'') flag)
      in (positive = [] \<and> flag \<noteq> [] \<or> (\<exists>p \<in> set (patterns_of positive). name \<in> glob_lang p)) \<and>
        \<not> (\<exists>p \<in> set (patterns_of negative). name \<in> glob_lang p))"
proof -
  have all: "matches_filter name ''*''" for name
    by (simp add: matches_filter_lang patterns_of.simps)
  have none: "\<not> matches_filter (test_case_name @ ''.'' @ test_name) []"
    by (simp add: matches_filter_lang patterns_of.simps)
  show ?thesis
  proof (cases "dropWhile (\<lambda>c. c \<noteq> CHR ''-'') flag")
    case Nil
    then have all_of_it: "takeWhile (\<lambda>c. c \<noteq> CHR ''-'') flag = flag"
      by (simp add: dropWhile_eq_Nil_conv takeWhile_eq_all_conv)
    show ?thesis unfolding filter_matches_test_def Let_def Nil all_of_it matches_filter_lang [symmetric] list.sel
      using none by (cases flag) auto
  next
    case (Cons d rest)
    then have "flag \<noteq> []" by auto
    moreover have "\<not> (\<exists>p \<in> set (patterns_of []). test_case_name @ ''.'' @ test_name \<in> glob_lang p)"
      using none by (simp add: matches_filter_lang)
    ultimately show ?thesis using Cons all
      by (auto simp: filter_matches_test_def Let_def simp flip: matches_filter_lang)
  qed
qed

end
