(* ===== verification/Gtest_Result.thy ===== *)
theory Gtest_Result
  imports Gtest_Assertions
begin

text \<open>
  What a test leaves behind in gtest: the results of its parts, that is of its assertions
  (\<open>gtest-test-part.h\<close>, \<open>gtest-test-part.cc\<close>), and the object that collects them together with the
  properties that the test records (\<open>TestResult\<close> in \<open>gtest.cc\<close>). The theory proves that keys are
  recorded once, with the last value, and never under a reserved name.
\<close>

subsection \<open>Test parts\<close>

datatype part_type = K_success | K_non_fatal_failure | K_fatal_failure

record test_part_result =
  tp_type :: part_type
  tp_file_name :: string
  tp_line_number :: int
  tp_summary :: string
  tp_message :: string

definition k_stack_trace_marker :: string where
  "k_stack_trace_marker = newline @ ''Stack trace:'' @ newline"

text \<open>What comes before the first occurrence of a text, all of it when there is none.\<close>

fun before_first :: "string \<Rightarrow> string \<Rightarrow> string" where
  "before_first marker [] = []"
| "before_first marker (c # cs) =
     (if take (length marker) (c # cs) = marker then [] else c # before_first marker cs)"

definition extract_summary :: "string \<Rightarrow> string" where
  "extract_summary message = before_first k_stack_trace_marker message"

definition make_test_part_result :: "part_type \<Rightarrow> string option \<Rightarrow> int \<Rightarrow> string \<Rightarrow> test_part_result" where
  "make_test_part_result a_type a_file_name a_line_number a_message =
     \<lparr>tp_type = a_type,
      tp_file_name = (case a_file_name of None \<Rightarrow> [] | Some f \<Rightarrow> f),
      tp_line_number = a_line_number,
      tp_summary = extract_summary a_message,
      tp_message = a_message\<rparr>"

definition part_file_name :: "test_part_result \<Rightarrow> string option" where
  "part_file_name r = (if tp_file_name r = [] then None else Some (tp_file_name r))"

definition part_passed :: "test_part_result \<Rightarrow> bool" where
  "part_passed r \<longleftrightarrow> tp_type r = K_success"

definition part_failed :: "test_part_result \<Rightarrow> bool" where
  "part_failed r \<longleftrightarrow> tp_type r \<noteq> K_success"

definition part_nonfatally_failed :: "test_part_result \<Rightarrow> bool" where
  "part_nonfatally_failed r \<longleftrightarrow> tp_type r = K_non_fatal_failure"

definition part_fatally_failed :: "test_part_result \<Rightarrow> bool" where
  "part_fatally_failed r \<longleftrightarrow> tp_type r = K_fatal_failure"

text \<open>\<open>operator<<\<close>; streaming a null file name into an ostream has no defined behaviour.\<close>

definition stream_test_part_result :: "test_part_result \<Rightarrow> fault + string" where
  "stream_test_part_result r =
     (case part_file_name r of
        None \<Rightarrow> Inl Null_dereference
      | Some file \<Rightarrow>
          Inr (file @ '':'' @ string_of_int (tp_line_number r) @ '': '' @
            (if tp_type r = K_success then ''Success''
             else if tp_type r = K_fatal_failure then ''Fatal failure''
             else ''Non-fatal failure'') @ '':'' @ newline @ tp_message r @ newline))"

subsection \<open>Lists of parts\<close>

text \<open>\<open>GetTestPartResult\<close> of the array and of the result abort when the index is out of range.\<close>

definition get_test_part_result :: "test_part_result list \<Rightarrow> int \<Rightarrow> fault + test_part_result" where
  "get_test_part_result parts i =
     (if i < 0 \<or> int (length parts) \<le> i then Inl Assertion_failure else Inr (parts ! nat i))"

definition count_if :: "('a \<Rightarrow> bool) \<Rightarrow> 'a list \<Rightarrow> nat" where
  "count_if predicate c = fold (\<lambda>x count. if predicate x then count + 1 else count) c 0"

lemma count_if_filter: "count_if p c = length (filter p c)"
proof -
  have "fold (\<lambda>x count. if p x then count + 1 else count) c n = n + length (filter p c)" for n
    by (induction c arbitrary: n) auto
  then show ?thesis by (simp add: count_if_def)
qed

definition has_one_failure :: "test_part_result list \<Rightarrow> part_type \<Rightarrow> string \<Rightarrow> fault + assertion_result" where
  "has_one_failure results type substr =
     (let expected = (if type = K_fatal_failure then ''1 fatal failure'' else ''1 non-fatal failure'')
      in if length results \<noteq> 1 then
           (if list_ex (\<lambda>r. part_file_name r = None) results then Inl Null_dereference
            else Inr (append_message assertion_failure
              (''Expected: '' @ expected @ newline @ ''  Actual: '' @ string_of_nat (length results) @ '' failures'' @
               concat (map (\<lambda>r. newline @ (case stream_test_part_result r of Inl _ \<Rightarrow> [] | Inr t \<Rightarrow> t)) results))))
         else let r = hd results
           in if tp_type r \<noteq> type then
                (case stream_test_part_result r of
                   Inl f \<Rightarrow> Inl f
                 | Inr t \<Rightarrow> Inr (failure_with [''Expected: '', expected, newline, ''  Actual:'' @ newline, t]))
              else if \<not> contains (c_str substr) (c_str (tp_message r)) then
                (case stream_test_part_result r of
                   Inl f \<Rightarrow> Inl f
                 | Inr t \<Rightarrow> Inr (failure_with [''Expected: '', expected, '' containing '' @ [quote], substr,
                     [quote] @ newline, ''  Actual:'' @ newline, t]))
              else Inr assertion_success)"

subsection \<open>The result of a test\<close>

type_synonym test_property = "string \<times> string"

record test_result =
  rs_parts :: "test_part_result list"
  rs_properties :: "test_property list"
  rs_death_test_count :: nat
  rs_elapsed_time :: int

definition empty_result :: test_result where
  "empty_result = \<lparr>rs_parts = [], rs_properties = [], rs_death_test_count = 0, rs_elapsed_time = 0\<rparr>"

definition get_test_property :: "test_result \<Rightarrow> int \<Rightarrow> fault + test_property" where
  "get_test_property r i =
     (if i < 0 \<or> int (length (rs_properties r)) \<le> i then Inl Assertion_failure else Inr (rs_properties r ! nat i))"

definition clear_test_part_results :: "test_result \<Rightarrow> test_result" where
  "clear_test_part_results r = r\<lparr>rs_parts := []\<rparr>"

definition add_test_part_result :: "test_part_result \<Rightarrow> test_result \<Rightarrow> test_result" where
  "add_test_part_result part r = r\<lparr>rs_parts := rs_parts r @ [part]\<rparr>"

definition clear_result :: "test_result \<Rightarrow> test_result" where
  "clear_result r = r\<lparr>rs_parts := [], rs_properties := [], rs_death_test_count := 0, rs_elapsed_time := 0\<rparr>"

definition result_failed :: "test_result \<Rightarrow> bool" where
  "result_failed r \<longleftrightarrow> list_ex part_failed (rs_parts r)"

definition result_passed :: "test_result \<Rightarrow> bool" where
  "result_passed r \<longleftrightarrow> \<not> result_failed r"

definition has_fatal_failure :: "test_result \<Rightarrow> bool" where
  "has_fatal_failure r \<longleftrightarrow> 0 < count_if part_fatally_failed (rs_parts r)"

definition has_nonfatal_failure :: "test_result \<Rightarrow> bool" where
  "has_nonfatal_failure r \<longleftrightarrow> 0 < count_if part_nonfatally_failed (rs_parts r)"

definition total_part_count :: "test_result \<Rightarrow> nat" where
  "total_part_count r = length (rs_parts r)"

definition test_property_count :: "test_result \<Rightarrow> nat" where
  "test_property_count r = length (rs_properties r)"

subsection \<open>Recorded properties\<close>

definition k_reserved_test_suites_attributes :: "string list" where
  "k_reserved_test_suites_attributes =
     [''disabled'', ''errors'', ''failures'', ''name'', ''random_seed'', ''tests'', ''time'', ''timestamp'']"

definition k_reserved_test_suite_attributes :: "string list" where
  "k_reserved_test_suite_attributes = [''disabled'', ''errors'', ''failures'', ''name'', ''tests'', ''time'']"

definition k_reserved_test_case_attributes :: "string list" where
  "k_reserved_test_case_attributes =
     [''classname'', ''name'', ''status'', ''time'', ''type_param'', ''value_param'']"

definition get_reserved_attributes_for_element :: "string \<Rightarrow> fault + string list" where
  "get_reserved_attributes_for_element xml_element =
     (if xml_element = ''testsuites'' then Inr k_reserved_test_suites_attributes
      else if xml_element = ''testsuite'' then Inr k_reserved_test_suite_attributes
      else if xml_element = ''testcase'' then Inr k_reserved_test_case_attributes
      else Inl Assertion_failure)"

text \<open>The verdict, and the message of the failure that is added.\<close>

definition validate_test_property_name :: "string \<Rightarrow> string list \<Rightarrow> bool \<times> string option" where
  "validate_test_property_name property_name reserved_names =
     (if property_name \<in> set reserved_names
      then (False, Some (''Reserved key used in RecordProperty(): '' @ property_name @ '' ('' @
        format_word_list reserved_names @ '' are reserved by Google Test)''))
      else (True, None))"

definition validate_test_property :: "string \<Rightarrow> test_property \<Rightarrow> fault + bool \<times> string option" where
  "validate_test_property xml_element q =
     map_sum id (validate_test_property_name (fst q)) (get_reserved_attributes_for_element xml_element)"

text \<open>Replaces the value of the first property with the key, or appends the property.\<close>

fun put_property :: "test_property \<Rightarrow> test_property list \<Rightarrow> test_property list" where
  "put_property q [] = [q]"
| "put_property q (p # ps) = (if fst p = fst q then (fst p, snd q) # ps else p # put_property q ps)"

definition record_property :: "string \<Rightarrow> test_property \<Rightarrow> test_result \<Rightarrow> fault + test_result \<times> string option" where
  "record_property xml_element q r =
     (case validate_test_property xml_element q of
        Inl f \<Rightarrow> Inl f
      | Inr (False, failure) \<Rightarrow> Inr (r, failure)
      | Inr (True, failure) \<Rightarrow> Inr (r\<lparr>rs_properties := put_property q (rs_properties r)\<rparr>, failure))"

lemma put_property_keys: "fst ` set (put_property q ps) = insert (fst q) (fst ` set ps)"
  by (induction ps) auto

lemma put_property_distinct: "distinct (map fst ps) \<Longrightarrow> distinct (map fst (put_property q ps))"
proof (induction ps)
  case (Cons p ps)
  have "fst p \<notin> fst ` set (put_property q ps)" if "fst p \<noteq> fst q" "fst p \<notin> fst ` set ps"
    using that by (simp add: put_property_keys)
  with Cons show ?case by (cases "fst p = fst q") simp_all
qed simp

lemma put_property_lookup: "map_of (put_property q ps) = (map_of ps)(fst q \<mapsto> snd q)"
  by (induction ps) auto

text \<open>An invariant of the recorded properties: each key once, and no reserved one.\<close>

definition properties_ok :: "string list \<Rightarrow> test_property list \<Rightarrow> bool" where
  "properties_ok reserved ps \<longleftrightarrow> distinct (map fst ps) \<and> set (map fst ps) \<inter> set reserved = {}"

lemma record_property_ok:
  assumes "get_reserved_attributes_for_element e = Inr reserved" and "properties_ok reserved (rs_properties r)"
  obtains r' failure where "record_property e q r = Inr (r', failure)" and "properties_ok reserved (rs_properties r')"
    and "failure = None \<longleftrightarrow> fst q \<notin> set reserved"
    and "map_of (rs_properties r') =
      (if fst q \<in> set reserved then map_of (rs_properties r) else (map_of (rs_properties r))(fst q \<mapsto> snd q))"
    and "rs_parts r' = rs_parts r"
proof -
  have "\<exists>r' failure. record_property e q r = Inr (r', failure) \<and> properties_ok reserved (rs_properties r') \<and>
      (failure = None \<longleftrightarrow> fst q \<notin> set reserved) \<and>
      map_of (rs_properties r') =
        (if fst q \<in> set reserved then map_of (rs_properties r) else (map_of (rs_properties r))(fst q \<mapsto> snd q)) \<and>
      rs_parts r' = rs_parts r"
    using assms put_property_keys [of q "rs_properties r"] put_property_distinct [of "rs_properties r" q]
    by (simp add: record_property_def validate_test_property_def validate_test_property_name_def properties_ok_def
        put_property_lookup)
  then show ?thesis using that by blast
qed

lemma failed_iff: "result_failed r \<longleftrightarrow> has_fatal_failure r \<or> has_nonfatal_failure r"
proof -
  have "part_failed p \<longleftrightarrow> part_fatally_failed p \<or> part_nonfatally_failed p" for p
    by (cases "tp_type p") (simp_all add: part_failed_def part_fatally_failed_def part_nonfatally_failed_def)
  then show ?thesis
    by (auto simp: result_failed_def has_fatal_failure_def has_nonfatal_failure_def count_if_filter
        list_ex_iff filter_empty_conv)
qed

end
