(* ===== verification/Gtest_Run.thy ===== *)
theory Gtest_Run
  imports Gtest_Result Gtest_Filter Gtest_Flags
begin

text \<open>
  The engine of gtest (\<open>UnitTestImpl\<close>, \<open>TestCase\<close>, \<open>TestInfo\<close>, \<open>Test\<close> in \<open>gtest/src/gtest.cc\<close> and
  \<open>gtest-internal-inl.h\<close>): registration, filtering and sharding, shuffling, and the run of all
  tests with their set-up and tear-down. What the tests do is a parameter \<open>user\<close>: for each call
  into user code, given how many there were before, the actions and perhaps the exception that
  ends it. A method returns the new state and how it ended; an exception that is not handled ends
  the methods around it. \<open>file_macro\<close> is what \<open>__FILE__\<close> expands to in \<open>gtest.cc\<close>, and \<open>clock\<close> the
  readings of the clock. Tests of a case are named by their position in it.
\<close>

subsection \<open>Tests and test cases\<close>

record test_info =
  ti_case_name :: string
  ti_name :: string
  ti_type_param :: "string option"
  ti_value_param :: "string option"
  ti_fixture_class_id :: nat
  ti_should_run :: bool
  ti_is_disabled :: bool
  ti_matches_filter :: bool
  ti_result :: test_result

definition make_test_info ::
  "string \<Rightarrow> string \<Rightarrow> string option \<Rightarrow> string option \<Rightarrow> nat \<Rightarrow> test_info" where
  "make_test_info case_name name type_param value_param fixture =
     \<lparr>ti_case_name = case_name, ti_name = name, ti_type_param = type_param, ti_value_param = value_param,
      ti_fixture_class_id = fixture, ti_should_run = False, ti_is_disabled = False,
      ti_matches_filter = False, ti_result = empty_result\<rparr>"

definition test_passed :: "test_info \<Rightarrow> bool" where
  "test_passed t \<longleftrightarrow> ti_should_run t \<and> result_passed (ti_result t)"

definition test_failed :: "test_info \<Rightarrow> bool" where
  "test_failed t \<longleftrightarrow> ti_should_run t \<and> result_failed (ti_result t)"

definition test_reportable_disabled :: "test_info \<Rightarrow> bool" where
  "test_reportable_disabled t \<longleftrightarrow> ti_matches_filter t \<and> ti_is_disabled t"

record test_case =
  tc_name :: string
  tc_type_param :: "string option"
  tc_tests :: "test_info list"
  tc_indices :: "int list"
  tc_should_run :: bool
  tc_ad_hoc :: test_result
  tc_elapsed_time :: int

definition make_test_case :: "string \<Rightarrow> string option \<Rightarrow> test_case" where
  "make_test_case name type_param =
     \<lparr>tc_name = name, tc_type_param = type_param, tc_tests = [], tc_indices = [], tc_should_run = False,
      tc_ad_hoc = empty_result, tc_elapsed_time = 0\<rparr>"

definition successful_test_count where "successful_test_count c = count_if test_passed (tc_tests c)"
definition failed_test_count where "failed_test_count c = count_if test_failed (tc_tests c)"
definition reportable_disabled_test_count where
  "reportable_disabled_test_count c = count_if test_reportable_disabled (tc_tests c)"
definition disabled_test_count where "disabled_test_count c = count_if ti_is_disabled (tc_tests c)"
definition reportable_test_count where "reportable_test_count c = count_if ti_matches_filter (tc_tests c)"
definition test_to_run_count where "test_to_run_count c = count_if ti_should_run (tc_tests c)"
definition total_test_count where "total_test_count c = length (tc_tests c)"

definition case_failed :: "test_case \<Rightarrow> bool" where
  "case_failed c \<longleftrightarrow> 0 < failed_test_count c"

definition add_test_info_to_case :: "test_info \<Rightarrow> test_case \<Rightarrow> test_case" where
  "add_test_info_to_case t c =
     c\<lparr>tc_tests := tc_tests c @ [t], tc_indices := tc_indices c @ [int (length (tc_indices c))]\<rparr>"

text \<open>\<open>GetTestInfo\<close> and \<open>GetMutableTestInfo\<close>: the position of the test, \<open>None\<close> for a null pointer.\<close>

definition get_test_info :: "int \<Rightarrow> test_case \<Rightarrow> nat option" where
  "get_test_info i c =
     (let index = get_element_or (tc_indices c) i (- 1) in if index < 0 then None else Some (nat index))"

definition clear_case_result :: "test_case \<Rightarrow> test_case" where
  "clear_case_result c =
     c\<lparr>tc_ad_hoc := clear_result (tc_ad_hoc c),
       tc_tests := map (\<lambda>t. t\<lparr>ti_result := clear_result (ti_result t)\<rparr>) (tc_tests c)\<rparr>"

definition unshuffle_case :: "test_case \<Rightarrow> test_case" where
  "unshuffle_case c = c\<lparr>tc_indices := map int [0..<length (tc_indices c)]\<rparr>"

subsection \<open>The state of the unit test\<close>

datatype user_call =
    Set_up_environment nat
  | Tear_down_environment nat
  | Set_up_test_case string
  | Tear_down_test_case string
  | Create_test string string
  | Set_up string string
  | Test_body string string
  | Tear_down string string
  | Delete_test string string

datatype action = Report part_type "string option" int string | Record string string

datatype exn = Gtest_failure | Std_exception string | Other_exception

type_synonym user_code = "user_call \<Rightarrow> nat \<Rightarrow> action list \<times> exn option"

datatype event =
    Test_program_start
  | Test_iteration_start int
  | Environments_set_up_start
  | Environments_set_up_end
  | Test_case_start string
  | Test_start string string
  | Test_part test_part_result
  | Test_end string string
  | Test_case_end string
  | Environments_tear_down_start
  | Environments_tear_down_end
  | Test_iteration_end int
  | Test_program_end
  | User_call user_call

record trace_info =
  trace_file :: string
  trace_line :: int
  trace_message :: string

text \<open>
  \<open>ut_null_delete_returns\<close> is not of the source: it says what the compiled program does in the one
  place where the source leaves its behaviour undefined and a usual run gets there, the call of
  \<open>DeleteSelf_\<close> on a null pointer. Either it returns, as in the builds that gtest's own test of
  exceptions observes, or it crashes; no theorem depends on the value that a new program has.
\<close>

record unit_test =
  ut_cases :: "test_case list"
  ut_indices :: "int list"
  ut_last_death :: int
  ut_current_case :: "nat option"
  ut_current_test :: "nat option"
  ut_ad_hoc :: test_result
  ut_environments :: nat
  ut_random :: u32
  ut_random_seed :: int
  ut_flags :: gtest_flags
  ut_catch_exceptions :: bool
  ut_trace_stack :: "trace_info list"
  ut_ticks :: nat
  ut_start_timestamp :: int
  ut_elapsed_time :: int
  ut_events :: "event list"
  ut_calls :: nat
  ut_null_delete_returns :: bool

definition make_unit_test :: "gtest_flags \<Rightarrow> unit_test" where
  "make_unit_test flags =
     \<lparr>ut_cases = [], ut_indices = [], ut_last_death = - 1, ut_current_case = None, ut_current_test = None,
      ut_ad_hoc = empty_result, ut_environments = 0, ut_random = 0, ut_random_seed = 0, ut_flags = flags,
      ut_catch_exceptions = False, ut_trace_stack = [], ut_ticks = 0, ut_start_timestamp = 0,
      ut_elapsed_time = 0, ut_events = [], ut_calls = 0, ut_null_delete_returns = True\<rparr>"

definition sum_over_test_case_list :: "(test_case \<Rightarrow> nat) \<Rightarrow> test_case list \<Rightarrow> nat" where
  "sum_over_test_case_list method cs = fold (\<lambda>c sum. sum + method c) cs 0"

definition successful_test_case_count where
  "successful_test_case_count u = count_if (\<lambda>c. tc_should_run c \<and> \<not> case_failed c) (ut_cases u)"
definition failed_test_case_count where
  "failed_test_case_count u = count_if (\<lambda>c. tc_should_run c \<and> case_failed c) (ut_cases u)"
definition test_case_to_run_count where "test_case_to_run_count u = count_if tc_should_run (ut_cases u)"

definition unit_failed :: "unit_test \<Rightarrow> bool" where
  "unit_failed u \<longleftrightarrow> 0 < failed_test_case_count u \<or> result_failed (ut_ad_hoc u)"

text \<open>
  The constant \<open>GetTestCase\<close> (for listeners) looks the order up and then ignores it; its sibling
  \<open>GetMutableTestCase\<close>, by which the tests are run, does not.
\<close>

definition get_test_case :: "int \<Rightarrow> unit_test \<Rightarrow> nat option" where
  "get_test_case i u =
     (let index = get_element_or (ut_indices u) i (- 1) in if index < 0 then None else Some (nat i))"

definition get_mutable_test_case :: "int \<Rightarrow> unit_test \<Rightarrow> nat option" where
  "get_mutable_test_case i u =
     (let index = get_element_or (ut_indices u) i (- 1) in if index < 0 then None else Some (nat index))"

definition update_case :: "nat \<Rightarrow> (test_case \<Rightarrow> test_case) \<Rightarrow> unit_test \<Rightarrow> unit_test" where
  "update_case i f u = u\<lparr>ut_cases := (ut_cases u)[i := f (ut_cases u ! i)]\<rparr>"

definition update_test :: "nat \<Rightarrow> nat \<Rightarrow> (test_info \<Rightarrow> test_info) \<Rightarrow> unit_test \<Rightarrow> unit_test" where
  "update_test i j f u = update_case i (\<lambda>c. c\<lparr>tc_tests := (tc_tests c)[j := f (tc_tests c ! j)]\<rparr>) u"

subsection \<open>Registration\<close>

definition find_test_case :: "string \<Rightarrow> unit_test \<Rightarrow> nat option" where
  "find_test_case name u = find (\<lambda>i. tc_name (ut_cases u ! i) = name) [0..<length (ut_cases u)]"

text \<open>Returns the position of the case; a new death test case goes behind the last one.\<close>

definition get_or_create_test_case :: "string \<Rightarrow> string option \<Rightarrow> unit_test \<Rightarrow> unit_test \<times> nat" where
  "get_or_create_test_case test_case_name type_param u =
     (case find_test_case test_case_name u of
        Some i \<Rightarrow> (u, i)
      | None \<Rightarrow>
          let new_test_case = make_test_case test_case_name type_param;
              indices = ut_indices u @ [int (length (ut_indices u))]
          in if matches_filter test_case_name k_death_test_case_filter
             then let last = ut_last_death u + 1; at = nat last
               in (u\<lparr>ut_last_death := last,
                     ut_cases := take at (ut_cases u) @ new_test_case # drop at (ut_cases u),
                     ut_indices := indices\<rparr>, at)
             else (u\<lparr>ut_cases := ut_cases u @ [new_test_case], ut_indices := indices\<rparr>, length (ut_cases u)))"

definition add_test_info :: "test_info \<Rightarrow> unit_test \<Rightarrow> unit_test" where
  "add_test_info t u =
     (let (u, i) = get_or_create_test_case (ti_case_name t) (ti_type_param t) u
      in update_case i (add_test_info_to_case t) u)"

definition make_and_register_test_info ::
  "string \<Rightarrow> string \<Rightarrow> string option \<Rightarrow> string option \<Rightarrow> nat \<Rightarrow> unit_test \<Rightarrow> unit_test" where
  "make_and_register_test_info test_case_name name type_param value_param fixture_class_id u =
     add_test_info (make_test_info test_case_name name type_param value_param fixture_class_id) u"

definition add_environment :: "unit_test \<Rightarrow> unit_test" where
  "add_environment u = u\<lparr>ut_environments := ut_environments u + 1\<rparr>"

subsection \<open>Filtering\<close>

text \<open>
  The loop of \<open>FilterTests\<close> over the tests of one case, with the count of runnable tests that
  numbers them, and over the cases. \<open>shards\<close> is \<open>None\<close> when sharding is ignored.
\<close>

fun filter_case_tests ::
  "gtest_flags \<Rightarrow> (int \<times> int) option \<Rightarrow> string \<Rightarrow> nat \<Rightarrow> test_info list \<Rightarrow> nat \<times> test_info list" where
  "filter_case_tests flags shards case_name runnable [] = (runnable, [])"
| "filter_case_tests flags shards case_name runnable (t # ts) =
     (let is_disabled = matches_filter case_name k_disable_test_filter \<or> matches_filter (ti_name t) k_disable_test_filter;
          matches = filter_matches_test (fl_filter flags) case_name (ti_name t);
          is_runnable = ((fl_also_run_disabled_tests flags \<or> \<not> is_disabled) \<and> matches);
          is_selected = (is_runnable \<and> (case shards of None \<Rightarrow> True
            | Some (total_shards, shard_index) \<Rightarrow> should_run_test_on_shard total_shards shard_index (int runnable)));
          (runnable, ts) = filter_case_tests flags shards case_name (runnable + of_bool is_runnable) ts
      in (runnable, t\<lparr>ti_is_disabled := is_disabled, ti_matches_filter := matches, ti_should_run := is_selected\<rparr> # ts))"

fun filter_cases :: "gtest_flags \<Rightarrow> (int \<times> int) option \<Rightarrow> nat \<Rightarrow> test_case list \<Rightarrow> test_case list" where
  "filter_cases flags shards runnable [] = []"
| "filter_cases flags shards runnable (c # cs) =
     (let (runnable, ts) = filter_case_tests flags shards (tc_name c) runnable (tc_tests c)
      in c\<lparr>tc_tests := ts, tc_should_run := list_ex ti_should_run ts\<rparr> # filter_cases flags shards runnable cs)"

text \<open>The environment variables of the shards are read again here; \<open>Inl\<close> ends the process.\<close>

definition filter_tests :: "environment \<Rightarrow> bool \<Rightarrow> unit_test \<Rightarrow> string + unit_test \<times> nat" where
  "filter_tests env honor_sharding_protocol u =
     (let go = (\<lambda>shards. let cs = filter_cases (ut_flags u) shards 0 (ut_cases u)
            in Inr (u\<lparr>ut_cases := cs\<rparr>, sum_list (map test_to_run_count cs)))
      in if honor_sharding_protocol then
           (case int32_from_env_or_die env ''GTEST_TOTAL_SHARDS'' (- 1) of
              Inl e \<Rightarrow> Inl e
            | Inr total_shards \<Rightarrow>
                (case int32_from_env_or_die env ''GTEST_SHARD_INDEX'' (- 1) of
                   Inl e \<Rightarrow> Inl e
                 | Inr shard_index \<Rightarrow> go (Some (total_shards, shard_index))))
         else go None)"

text \<open>The text that \<open>ListTestsMatchingFilter\<close> prints.\<close>

fun one_line_loop :: "nat \<Rightarrow> nat \<Rightarrow> string \<Rightarrow> string" where
  "one_line_loop i max_length [] = []"
| "one_line_loop i max_length (c # str) =
     (if max_length \<le> i then ''...''
      else if c = CHR 0x0A then [backslash] @ ''n'' @ one_line_loop (i + 2) max_length str
      else c # one_line_loop (i + 1) max_length str)"

definition print_on_one_line :: "string option \<Rightarrow> nat \<Rightarrow> string" where
  "print_on_one_line str max_length = (case str of None \<Rightarrow> [] | Some s \<Rightarrow> one_line_loop 0 max_length s)"

definition list_tests_matching_filter :: "unit_test \<Rightarrow> string" where
  "list_tests_matching_filter u = concat (map (\<lambda>c.
     (let ts = filter ti_matches_filter (tc_tests c)
      in if ts = [] then []
         else tc_name c @ ''.'' @
           (if tc_type_param c \<noteq> None then ''  # TypeParam = '' @ print_on_one_line (tc_type_param c) 250 else []) @ newline @
           concat (map (\<lambda>t. ''  '' @ ti_name t @
             (if ti_value_param t \<noteq> None then ''  # GetParam() = '' @ print_on_one_line (ti_value_param t) 250 else []) @
             newline) ts))) (ut_cases u))"

subsection \<open>Shuffling\<close>

fun shuffle_cases :: "u32 \<Rightarrow> test_case list \<Rightarrow> fault + test_case list \<times> u32" where
  "shuffle_cases state [] = Inr ([], state)"
| "shuffle_cases state (c # cs) =
     (case shuffle state (tc_indices c) of
        Inl f \<Rightarrow> Inl f
      | Inr (indices, state) \<Rightarrow>
          (case shuffle_cases state cs of
             Inl f \<Rightarrow> Inl f
           | Inr (cs, state) \<Rightarrow> Inr (c\<lparr>tc_indices := indices\<rparr> # cs, state)))"

definition shuffle_tests :: "unit_test \<Rightarrow> fault + unit_test" where
  "shuffle_tests u =
     (case shuffle_range (ut_random u) 0 (ut_last_death u + 1) (ut_indices u) of
        Inl f \<Rightarrow> Inl f
      | Inr (indices, state) \<Rightarrow>
          (case shuffle_range state (ut_last_death u + 1) (int (length (ut_cases u))) indices of
             Inl f \<Rightarrow> Inl f
           | Inr (indices, state) \<Rightarrow>
               (case shuffle_cases state (ut_cases u) of
                  Inl f \<Rightarrow> Inl f
                | Inr (cs, state) \<Rightarrow> Inr (u\<lparr>ut_indices := indices, ut_cases := cs, ut_random := state\<rparr>))))"

definition unshuffle_tests :: "unit_test \<Rightarrow> unit_test" where
  "unshuffle_tests u =
     u\<lparr>ut_cases := map unshuffle_case (ut_cases u),
       ut_indices := map int [0..<length (ut_cases u)] @ drop (length (ut_cases u)) (ut_indices u)\<rparr>"

subsection \<open>Results and exceptions\<close>

datatype outcome = Returned | Threw exn | Crashed fault

text \<open>One method after another, unless an exception is on its way.\<close>

definition and_then ::
  "(unit_test \<Rightarrow> unit_test \<times> outcome) \<Rightarrow> (unit_test \<Rightarrow> unit_test \<times> outcome) \<Rightarrow> unit_test \<Rightarrow> unit_test \<times> outcome" where
  "and_then f g u = (case f u of (u, Returned) \<Rightarrow> g u | stopped \<Rightarrow> stopped)"

definition plainly :: "(unit_test \<Rightarrow> unit_test) \<Rightarrow> unit_test \<Rightarrow> unit_test \<times> outcome" where
  "plainly f u = (f u, Returned)"

definition notify :: "event \<Rightarrow> unit_test \<Rightarrow> unit_test" where
  "notify e u = u\<lparr>ut_events := ut_events u @ [e]\<rparr>"

definition get_time :: "(nat \<Rightarrow> int) \<Rightarrow> unit_test \<Rightarrow> int \<times> unit_test" where
  "get_time clock u = (clock (ut_ticks u), u\<lparr>ut_ticks := ut_ticks u + 1\<rparr>)"

definition current_test_result :: "unit_test \<Rightarrow> test_result" where
  "current_test_result u =
     (case (ut_current_case u, ut_current_test u) of
        (Some i, Some j) \<Rightarrow> ti_result (tc_tests (ut_cases u ! i) ! j)
      | _ \<Rightarrow> ut_ad_hoc u)"

definition update_current_result :: "(test_result \<Rightarrow> test_result) \<Rightarrow> unit_test \<Rightarrow> unit_test" where
  "update_current_result f u =
     (case (ut_current_case u, ut_current_test u) of
        (Some i, Some j) \<Rightarrow> update_test i j (\<lambda>t. t\<lparr>ti_result := f (ti_result t)\<rparr>) u
      | _ \<Rightarrow> u\<lparr>ut_ad_hoc := f (ut_ad_hoc u)\<rparr>)"

definition traced_message :: "string \<Rightarrow> string \<Rightarrow> unit_test \<Rightarrow> string" where
  "traced_message message os_stack_trace u =
     (let stack = ut_trace_stack u;
          msg = message @ (if stack \<noteq> [] then newline @ ''Google Test trace:'' @
            concat (map (\<lambda>t. newline @ format_file_location (Some (trace_file t)) (trace_line t) @ '' '' @ trace_message t)
              (rev stack)) else []);
          msg = msg @ (if os_stack_trace \<noteq> [] then k_stack_trace_marker @ os_stack_trace else [])
      in string_stream_to_string msg)"

text \<open>\<open>UnitTest::AddTestPartResult\<close> with the default reporters.\<close>

definition add_unit_test_part ::
  "part_type \<Rightarrow> string option \<Rightarrow> int \<Rightarrow> string \<Rightarrow> string \<Rightarrow> unit_test \<Rightarrow> unit_test \<times> outcome" where
  "add_unit_test_part result_type file_name line_number message os_stack_trace u =
     (let result = make_test_part_result result_type file_name line_number (traced_message message os_stack_trace u);
          u = notify (Test_part result) (update_current_result (add_test_part_result result) u)
      in if result_type = K_success then (u, Returned)
         else if fl_break_on_failure (ut_flags u) then (u, Crashed Null_dereference)
         else if fl_throw_on_failure (ut_flags u) then (u, Threw Gtest_failure)
         else (u, Returned))"

text \<open>\<open>ADD_FAILURE() << message\<close>, by way of \<open>AssertHelper\<close>.\<close>

definition add_failure :: "string \<Rightarrow> int \<Rightarrow> string \<Rightarrow> unit_test \<Rightarrow> unit_test \<times> outcome" where
  "add_failure file_macro line message =
     add_unit_test_part K_non_fatal_failure (Some file_macro) line (append_user_message ''Failed'' message) []"

definition report_failure_in_unknown_location :: "part_type \<Rightarrow> string \<Rightarrow> unit_test \<Rightarrow> unit_test \<times> outcome" where
  "report_failure_in_unknown_location result_type message = add_unit_test_part result_type None (- 1) message []"

definition push_gtest_trace :: "trace_info \<Rightarrow> unit_test \<Rightarrow> unit_test" where
  "push_gtest_trace t u = u\<lparr>ut_trace_stack := ut_trace_stack u @ [t]\<rparr>"

definition pop_gtest_trace :: "unit_test \<Rightarrow> unit_test" where
  "pop_gtest_trace u = u\<lparr>ut_trace_stack := butlast (ut_trace_stack u)\<rparr>"

text \<open>\<open>UnitTestImpl::RecordProperty\<close>: for the test, its case or the program, whichever is running.\<close>

definition unit_record_property :: "string \<Rightarrow> test_property \<Rightarrow> unit_test \<Rightarrow> unit_test \<times> outcome" where
  "unit_record_property file_macro p u =
     (let (xml_element, result) =
            (case (ut_current_case u, ut_current_test u) of
               (Some i, Some j) \<Rightarrow> (''testcase'', ti_result (tc_tests (ut_cases u ! i) ! j))
             | (Some i, None) \<Rightarrow> (''testsuite'', tc_ad_hoc (ut_cases u ! i))
             | (None, _) \<Rightarrow> (''testsuites'', ut_ad_hoc u))
      in case record_property xml_element p result of
           Inl f \<Rightarrow> (u, Crashed f)
         | Inr (_, Some message) \<Rightarrow> add_failure file_macro 1822 message u
         | Inr (result, None) \<Rightarrow>
             ((case (ut_current_case u, ut_current_test u) of
                 (Some i, Some j) \<Rightarrow> update_test i j (\<lambda>t. t\<lparr>ti_result := result\<rparr>) u
               | (Some i, None) \<Rightarrow> update_case i (\<lambda>c. c\<lparr>tc_ad_hoc := result\<rparr>) u
               | (None, _) \<Rightarrow> u\<lparr>ut_ad_hoc := result\<rparr>), Returned))"

subsection \<open>Calls into user code\<close>

fun perform :: "string \<Rightarrow> action \<Rightarrow> unit_test \<Rightarrow> unit_test \<times> outcome" where
  "perform file_macro (Report type file line message) = add_unit_test_part type file line message []"
| "perform file_macro (Record key value) = unit_record_property file_macro (key, value)"

fun perform_all :: "string \<Rightarrow> action list \<Rightarrow> unit_test \<Rightarrow> unit_test \<times> outcome" where
  "perform_all file_macro [] = plainly id"
| "perform_all file_macro (a # as) = and_then (perform file_macro a) (perform_all file_macro as)"

definition call_user :: "user_code \<Rightarrow> string \<Rightarrow> user_call \<Rightarrow> unit_test \<Rightarrow> unit_test \<times> outcome" where
  "call_user user file_macro call u =
     (let (actions, thrown) = user call (ut_calls u); u = notify (User_call call) u\<lparr>ut_calls := ut_calls u + 1\<rparr>
      in and_then (perform_all file_macro actions)
           (\<lambda>u. (u, case thrown of None \<Rightarrow> Returned | Some e \<Rightarrow> Threw e)) u)"

definition format_cxx_exception_message :: "string option \<Rightarrow> string \<Rightarrow> string" where
  "format_cxx_exception_message description location =
     string_stream_to_string ((case description of
         Some d \<Rightarrow> ''C++ exception with description '' @ [quote] @ d @ [quote]
       | None \<Rightarrow> ''Unknown C++ exception'') @ '' thrown in '' @ location @ ''.'')"

text \<open>
  \<open>HandleExceptionsInMethodIfSupported\<close>; the flag that is returned is false when an exception was
  handled, in which case the code returns the 0 of the result type.
\<close>

definition handle_exceptions ::
  "(unit_test \<Rightarrow> unit_test \<times> outcome) \<Rightarrow> string \<Rightarrow> unit_test \<Rightarrow> unit_test \<times> outcome \<times> bool" where
  "handle_exceptions method location u =
     (if ut_catch_exceptions u then
        (case method u of
           (u, Threw (Std_exception what)) \<Rightarrow>
             (let (u, r) = report_failure_in_unknown_location K_fatal_failure
                (format_cxx_exception_message (Some what) location) u in (u, r, False))
         | (u, Threw Other_exception) \<Rightarrow>
             (let (u, r) = report_failure_in_unknown_location K_fatal_failure
                (format_cxx_exception_message None location) u in (u, r, False))
         | (u, r) \<Rightarrow> (u, r, True))
      else let (u, r) = method u in (u, r, True))"

definition handled :: "(unit_test \<Rightarrow> unit_test \<times> outcome) \<Rightarrow> string \<Rightarrow> unit_test \<Rightarrow> unit_test \<times> outcome" where
  "handled method location u = (let (u, r, _) = handle_exceptions method location u in (u, r))"

subsection \<open>Running a test\<close>

definition test_type_id :: nat where
  "test_type_id = 0"

text \<open>The message of \<open>HasSameFixtureClass\<close> for the test \<open>this\<close> where the first test is \<open>first\<close>.\<close>

definition fixture_message :: "test_info \<Rightarrow> test_info \<Rightarrow> string" where
  "fixture_message first_test this_test =
     (let first_is_TEST = (ti_fixture_class_id first_test = test_type_id);
          this_is_TEST = (ti_fixture_class_id this_test = test_type_id)
      in if first_is_TEST \<or> this_is_TEST then
           (let TEST_name = (if first_is_TEST then ti_name first_test else ti_name this_test);
                TEST_F_name = (if first_is_TEST then ti_name this_test else ti_name first_test)
            in ''All tests in the same test case must use the same test fixture'' @ newline @
              ''class, so mixing TEST_F and TEST in the same test case is'' @ newline @
              ''illegal.  In test case '' @ ti_case_name this_test @ '','' @ newline @
              ''test '' @ TEST_F_name @ '' is defined using TEST_F but'' @ newline @
              ''test '' @ TEST_name @ '' is defined using TEST.  You probably'' @ newline @
              ''want to change the TEST to TEST_F or move it to another test'' @ newline @ ''case.'')
         else ''All tests in the same test case must use the same test fixture'' @ newline @
           ''class.  However, in test case '' @ ti_case_name this_test @ '','' @ newline @
           ''you defined test '' @ ti_name first_test @ '' and test '' @ ti_name this_test @ newline @
           ''using two different test fixture classes.  This can happen if'' @ newline @
           ''the two classes are from different namespaces or translation'' @ newline @
           ''units and have the same name.  You should probably rename one'' @ newline @
           ''of the classes to put the tests into different test cases.'')"

definition test_run :: "user_code \<Rightarrow> string \<Rightarrow> nat \<Rightarrow> nat \<Rightarrow> unit_test \<Rightarrow> unit_test \<times> outcome" where
  "test_run user file_macro i j u =
     (let first_test = tc_tests (ut_cases u ! i) ! 0; this_test = tc_tests (ut_cases u ! i) ! j;
          c = ti_case_name this_test; n = ti_name this_test
      in if ti_fixture_class_id this_test \<noteq> ti_fixture_class_id first_test
         then add_failure file_macro (if ti_fixture_class_id first_test = test_type_id \<or>
             ti_fixture_class_id this_test = test_type_id then 1977 else 1989)
           (fixture_message first_test this_test) u
         else and_then (handled (call_user user file_macro (Set_up c n)) ''SetUp()'')
           (and_then (\<lambda>u. if \<not> has_fatal_failure (current_test_result u)
               then handled (call_user user file_macro (Test_body c n)) ''the test body'' u else (u, Returned))
             (handled (call_user user file_macro (Tear_down c n)) ''TearDown()'')) u)"

text \<open>
  \<open>TestInfo::Run\<close>. When the constructor threw and the exception was handled, \<open>test\<close> is null, and
  \<open>DeleteSelf_\<close>, that is \<open>delete this\<close>, is called on it all the same.
\<close>

definition test_info_run ::
  "user_code \<Rightarrow> string \<Rightarrow> (nat \<Rightarrow> int) \<Rightarrow> nat \<Rightarrow> nat \<Rightarrow> unit_test \<Rightarrow> unit_test \<times> outcome" where
  "test_info_run user file_macro clock i j u =
     (let t = tc_tests (ut_cases u ! i) ! j; c = ti_case_name t; n = ti_name t
      in if \<not> ti_should_run t then (u, Returned)
         else
           let u = notify (Test_start c n) (u\<lparr>ut_current_test := Some j\<rparr>);
               (start, u) = get_time clock u;
               (u, r, created) = handle_exceptions (call_user user file_macro (Create_test c n))
                 ''the test fixture's constructor'' u
           in if r \<noteq> Returned then (u, r)
              else and_then (\<lambda>u. if created \<and> \<not> has_fatal_failure (current_test_result u)
                  then test_run user file_macro i j u else (u, Returned))
                (and_then (if created
                    then handled (call_user user file_macro (Delete_test c n)) ''the test fixture's destructor''
                    else (\<lambda>u. (u, if ut_null_delete_returns u then Returned else Crashed Null_dereference)))
                  (plainly (\<lambda>u. let (now, u) = get_time clock u;
                      u = update_test i j (\<lambda>t. t\<lparr>ti_result := (ti_result t)\<lparr>rs_elapsed_time := now - start\<rparr>\<rparr>) u
                    in (notify (Test_end c n) u)\<lparr>ut_current_test := None\<rparr>))) u)"

subsection \<open>Running a test case\<close>

fun run_tests_of_case ::
  "user_code \<Rightarrow> string \<Rightarrow> (nat \<Rightarrow> int) \<Rightarrow> nat \<Rightarrow> nat list \<Rightarrow> unit_test \<Rightarrow> unit_test \<times> outcome" where
  "run_tests_of_case user file_macro clock i [] = plainly id"
| "run_tests_of_case user file_macro clock i (k # ks) =
     and_then (\<lambda>u. case get_test_info (int k) (ut_cases u ! i) of
         None \<Rightarrow> (u, Crashed Null_dereference)
       | Some j \<Rightarrow> test_info_run user file_macro clock i j u)
       (run_tests_of_case user file_macro clock i ks)"

definition test_case_run ::
  "user_code \<Rightarrow> string \<Rightarrow> (nat \<Rightarrow> int) \<Rightarrow> nat \<Rightarrow> unit_test \<Rightarrow> unit_test \<times> outcome" where
  "test_case_run user file_macro clock i u =
     (let c = ut_cases u ! i; name = tc_name c
      in if \<not> tc_should_run c then (u, Returned)
         else
           let u = notify (Test_case_start name) (u\<lparr>ut_current_case := Some i\<rparr>)
           in and_then (handled (call_user user file_macro (Set_up_test_case name)) ''SetUpTestCase()'')
             (\<lambda>u. let (start, u) = get_time clock u
               in and_then (run_tests_of_case user file_macro clock i [0..<total_test_count c])
                 (and_then (plainly (\<lambda>u. let (now, u) = get_time clock u
                     in update_case i (\<lambda>c. c\<lparr>tc_elapsed_time := now - start\<rparr>) u))
                   (and_then (handled (call_user user file_macro (Tear_down_test_case name)) ''TearDownTestCase()'')
                     (plainly (\<lambda>u. (notify (Test_case_end name) u)\<lparr>ut_current_case := None\<rparr>)))) u) u)"

subsection \<open>Running all tests\<close>

fun run_each :: "(nat \<Rightarrow> unit_test \<Rightarrow> unit_test \<times> outcome) \<Rightarrow> nat list \<Rightarrow> unit_test \<Rightarrow> unit_test \<times> outcome" where
  "run_each f [] = plainly id"
| "run_each f (i # is) = and_then (f i) (run_each f is)"

definition run_cases :: "user_code \<Rightarrow> string \<Rightarrow> (nat \<Rightarrow> int) \<Rightarrow> unit_test \<Rightarrow> unit_test \<times> outcome" where
  "run_cases user file_macro clock u =
     run_each (\<lambda>k u. case get_mutable_test_case (int k) u of
         None \<Rightarrow> (u, Crashed Null_dereference)
       | Some i \<Rightarrow> test_case_run user file_macro clock i u) [0..<length (ut_cases u)] u"

definition clear_non_ad_hoc_test_result :: "unit_test \<Rightarrow> unit_test" where
  "clear_non_ad_hoc_test_result u = u\<lparr>ut_cases := map clear_case_result (ut_cases u)\<rparr>"

text \<open>One pass of the loop of \<open>RunAllTests\<close>, without its last statements.\<close>

definition run_iteration ::
  "user_code \<Rightarrow> string \<Rightarrow> (nat \<Rightarrow> int) \<Rightarrow> bool \<Rightarrow> int \<Rightarrow> unit_test \<Rightarrow> unit_test \<times> outcome" where
  "run_iteration user file_macro clock has_tests_to_run i u =
     (let (start, u) = get_time clock (clear_non_ad_hoc_test_result u)
      in and_then (\<lambda>u. if has_tests_to_run \<and> fl_shuffle (ut_flags u)
           then (case shuffle_tests (u\<lparr>ut_random := word_of_int (ut_random_seed u)\<rparr>) of
               Inl f \<Rightarrow> (u, Crashed f) | Inr u \<Rightarrow> (u, Returned))
           else (u, Returned))
         (and_then (plainly (notify (Test_iteration_start i)))
           (and_then (if has_tests_to_run
               then and_then (plainly (notify Environments_set_up_start))
                 (and_then (\<lambda>u. run_each (\<lambda>e. call_user user file_macro (Set_up_environment e)) [0..<ut_environments u] u)
                   (and_then (plainly (notify Environments_set_up_end))
                     (and_then (\<lambda>u. if \<not> has_fatal_failure (current_test_result u)
                         then run_cases user file_macro clock u else (u, Returned))
                       (and_then (plainly (notify Environments_tear_down_start))
                         (and_then (\<lambda>u. run_each (\<lambda>e. call_user user file_macro (Tear_down_environment e))
                             (rev [0..<ut_environments u]) u)
                           (plainly (notify Environments_tear_down_end)))))))
               else plainly id)
             (plainly (\<lambda>u. let (now, u) = get_time clock u
               in notify (Test_iteration_end i) (u\<lparr>ut_elapsed_time := now - start\<rparr>))))) u)"

text \<open>
  The loop itself: \<open>fuel\<close> bounds the iterations, which have no bound when the repeat count is
  negative. The result carries whether an iteration failed.
\<close>

fun run_iterations ::
  "user_code \<Rightarrow> string \<Rightarrow> (nat \<Rightarrow> int) \<Rightarrow> bool \<Rightarrow> int \<Rightarrow> nat \<Rightarrow> int \<Rightarrow> bool \<Rightarrow> unit_test \<Rightarrow> (unit_test \<times> outcome \<times> bool) option" where
  "run_iterations user file_macro clock has_tests_to_run repeat fuel i failed u =
     (if \<not> repeat < 0 \<and> i = repeat then Some (u, Returned, failed)
      else case fuel of
          0 \<Rightarrow> None
        | Suc fuel \<Rightarrow>
            (case run_iteration user file_macro clock has_tests_to_run i u of
               (u, Returned) \<Rightarrow>
                 (let failed = (failed \<or> unit_failed u); u = unshuffle_tests u
                  in if fl_shuffle (ut_flags u) then
                       (case get_next_random_seed (ut_random_seed u) of
                          Inl f \<Rightarrow> Some (u, Crashed f, failed)
                        | Inr seed \<Rightarrow> run_iterations user file_macro clock has_tests_to_run repeat fuel (i + 1) failed
                            (u\<lparr>ut_random_seed := seed\<rparr>))
                     else run_iterations user file_macro clock has_tests_to_run repeat fuel (i + 1) failed u)
             | (u, r) \<Rightarrow> Some (u, r, failed)))"

declare run_iterations.simps [simp del]

text \<open>
  What \<open>RunAllTests\<close> does once the tests are filtered and not merely listed; \<open>repeat\<close> is 1 in the
  child process of a death test. The last component is the verdict that is returned.
\<close>

definition run_filtered_tests ::
  "user_code \<Rightarrow> string \<Rightarrow> (nat \<Rightarrow> int) \<Rightarrow> bool \<Rightarrow> bool \<Rightarrow> nat \<Rightarrow> unit_test \<Rightarrow> (unit_test \<times> outcome \<times> bool) option" where
  "run_filtered_tests user file_macro clock in_subprocess_for_death_test has_tests_to_run fuel u =
     (let (now, u) = (if fl_shuffle (ut_flags u) \<and> fl_random_seed (ut_flags u) = 0 then get_time clock u else (0, u));
          u = u\<lparr>ut_random_seed := (if fl_shuffle (ut_flags u)
            then get_random_seed_from_flag now (fl_random_seed (ut_flags u)) else 0)\<rparr>;
          (start, u) = get_time clock u;
          u = notify Test_program_start (u\<lparr>ut_start_timestamp := start\<rparr>);
          repeat = (if in_subprocess_for_death_test then 1 else fl_repeat (ut_flags u))
      in case run_iterations user file_macro clock has_tests_to_run repeat fuel 0 False u of
           None \<Rightarrow> None
         | Some (u, Returned, failed) \<Rightarrow> Some (notify Test_program_end u, Returned, \<not> failed)
         | Some (u, r, failed) \<Rightarrow> Some (u, r, False))"

datatype run_result = Exit_failure string | Out_of_fuel | Finished unit_test outcome bool

text \<open>
  \<open>RunAllTests\<close>: \<open>initialized\<close> and \<open>help\<close> are the globals. \<open>Exit_failure\<close> is \<open>exit\<close>, with what was
  printed; the sharding variables of the process environment decide. The initialization that is
  repeated at this point, and the status file of the shards, are not part of the model.
\<close>

definition run_all_tests ::
  "user_code \<Rightarrow> string \<Rightarrow> (nat \<Rightarrow> int) \<Rightarrow> environment \<Rightarrow> bool \<Rightarrow> bool \<Rightarrow> bool \<Rightarrow> nat \<Rightarrow> unit_test \<Rightarrow> run_result" where
  "run_all_tests user file_macro clock env initialized help_flag in_subprocess_for_death_test fuel u =
     (if \<not> initialized then Finished u Returned False
      else if help_flag then Finished u Returned True
      else case should_shard env ''GTEST_TOTAL_SHARDS'' ''GTEST_SHARD_INDEX'' in_subprocess_for_death_test of
        Inl e \<Rightarrow> Exit_failure e
      | Inr sharding \<Rightarrow>
          (case filter_tests env sharding u of
             Inl e \<Rightarrow> Exit_failure e
           | Inr (u, selected) \<Rightarrow>
               if fl_list_tests (ut_flags u) then Finished u Returned True
               else case run_filtered_tests user file_macro clock in_subprocess_for_death_test (0 < selected) fuel u of
                   None \<Rightarrow> Out_of_fuel
                 | Some (u, r, verdict) \<Rightarrow> Finished u r verdict))"

text \<open>
  \<open>UnitTest::Run\<close>; an exception out of an environment is handled here. The program ends with an
  exit code, or an exception leaves \<open>Run\<close>, or it stops at a fault, and then there is no exit code.
\<close>

datatype program_end = Exit_code int | Left_by exn | Stopped_at fault

definition unit_test_run ::
  "user_code \<Rightarrow> string \<Rightarrow> (nat \<Rightarrow> int) \<Rightarrow> environment \<Rightarrow> bool \<Rightarrow> bool \<Rightarrow> nat \<Rightarrow> unit_test \<Rightarrow> (unit_test \<times> program_end) option" where
  "unit_test_run user file_macro clock env initialized help_flag fuel u =
     (let u = u\<lparr>ut_catch_exceptions := fl_catch_exceptions (ut_flags u)\<rparr>
      in case run_all_tests user file_macro clock env initialized help_flag
             (fl_internal_run_death_test (ut_flags u) \<noteq> []) fuel u of
           Exit_failure e \<Rightarrow> Some (u, Exit_code 1)
         | Out_of_fuel \<Rightarrow> None
         | Finished u r verdict \<Rightarrow>
             (let (u, r, normal) = handle_exceptions (\<lambda>u. (u, r)) ''auxiliary test code (environments or event listeners)'' u
              in Some (u, case r of
                  Returned \<Rightarrow> Exit_code (if normal \<and> verdict then 0 else 1)
                | Threw e \<Rightarrow> Left_by e
                | Crashed f \<Rightarrow> Stopped_at f)))"

end
