(* ===== verification/Gtest_Run_Properties.thy ===== *)
theory Gtest_Run_Properties
  imports Gtest_Run
begin

text \<open>
  What the engine of gtest promises: death tests come first and stay first, the shards divide the
  tests among them, and shuffling is undone.
\<close>

subsection \<open>Registration\<close>

definition is_death_test_case :: "test_case \<Rightarrow> bool" where
  "is_death_test_case c \<longleftrightarrow> matches_filter (tc_name c) k_death_test_case_filter"

text \<open>The invariant between registrations: the death test cases are the first ones.\<close>

definition registered :: "unit_test \<Rightarrow> bool" where
  "registered u \<longleftrightarrow>
     - 1 \<le> ut_last_death u \<and> ut_last_death u < int (length (ut_cases u)) \<and>
     (\<forall>i < length (ut_cases u). is_death_test_case (ut_cases u ! i) \<longleftrightarrow> int i \<le> ut_last_death u) \<and>
     ut_indices u = map int [0..<length (ut_cases u)] \<and>
     distinct (map tc_name (ut_cases u)) \<and>
     (\<forall>c \<in> set (ut_cases u). tc_indices c = map int [0..<length (tc_tests c)])"

lemma registered_initially: "registered (make_unit_test flags)"
  by (simp add: registered_def make_unit_test_def)

lemma find_test_case_Some:
  "find_test_case name u = Some i \<Longrightarrow> i < length (ut_cases u) \<and> tc_name (ut_cases u ! i) = name"
  by (auto simp: find_test_case_def find_Some_iff)

lemma find_test_case_None: "find_test_case name u = None \<Longrightarrow> name \<notin> set (map tc_name (ut_cases u))"
  by (auto simp: find_test_case_def find_None_iff in_set_conv_nth)

lemma insert_nth:
  "k \<le> length xs \<Longrightarrow> (take k xs @ x # drop k xs) ! i = (if i < k then xs ! i else if i = k then x else xs ! (i - 1))"
  by (auto simp: nth_append min_def nth_Cons' )

lemma get_or_create_registered:
  assumes "registered u" and "get_or_create_test_case name tp u = (u', i)"
  shows "registered u' \<and> i < length (ut_cases u') \<and> tc_name (ut_cases u' ! i) = name"
proof (cases "find_test_case name u")
  case (Some k)
  then show ?thesis using assms find_test_case_Some [OF Some] by (auto simp: get_or_create_test_case_def)
next
  case None
  let ?cs = "ut_cases u" and ?new = "make_test_case name tp" and ?last = "ut_last_death u"
  note fresh = find_test_case_None [OF None]
  have new: "tc_name ?new = name" "tc_indices ?new = map int [0..<length (tc_tests ?new)]"
    by (simp_all add: make_test_case_def)
  have reg: "- 1 \<le> ?last" "?last < int (length ?cs)"
      "\<And>i. i < length ?cs \<Longrightarrow> is_death_test_case (?cs ! i) \<longleftrightarrow> int i \<le> ?last"
      "ut_indices u = map int [0..<length ?cs]" "distinct (map tc_name ?cs)"
      "\<And>c. c \<in> set ?cs \<Longrightarrow> tc_indices c = map int [0..<length (tc_tests c)]"
    using assms(1) by (auto simp: registered_def)
  show ?thesis
  proof (cases "is_death_test_case ?new")
    case True
    define k where "k = nat (?last + 1)"
    have k: "int k = ?last + 1" "k \<le> length ?cs" using reg(1,2) by (auto simp: k_def)
    let ?cs' = "take k ?cs @ ?new # drop k ?cs"
    have u': "u' = u\<lparr>ut_last_death := ?last + 1, ut_cases := ?cs', ut_indices := ut_indices u @ [int (length (ut_indices u))]\<rparr>"
      and i: "i = k"
      using assms(2) None True
      by (auto simp: get_or_create_test_case_def is_death_test_case_def new Let_def k_def)
    have "is_death_test_case (?cs' ! j) \<longleftrightarrow> int j \<le> ?last + 1" if "j < length ?cs'" for j
      using that k reg(3) [of j] reg(3) [of "j - 1"] True by (auto simp: insert_nth)
    moreover have "distinct (map tc_name ?cs')"
    proof -
      have "mset (map tc_name ?cs') = mset (name # map tc_name ?cs)"
        using mset_append [of "map tc_name (take k ?cs)" "map tc_name (drop k ?cs)"]
        by (simp add: new flip: map_append)
      then show ?thesis using reg(5) fresh by (metis distinct.simps(2) mset_eq_imp_distinct_iff)
    qed
    moreover have "tc_indices c = map int [0..<length (tc_tests c)]" if "c \<in> set ?cs'" for c
      using that reg(6) new(2) by (auto dest: in_set_takeD in_set_dropD)
    ultimately show ?thesis using u' i k reg new by (auto simp: registered_def insert_nth)
  next
    case False
    have u': "u' = u\<lparr>ut_cases := ?cs @ [?new], ut_indices := ut_indices u @ [int (length (ut_indices u))]\<rparr>"
      and i: "i = length ?cs"
      using assms(2) None False
      by (auto simp: get_or_create_test_case_def is_death_test_case_def new Let_def)
    have "is_death_test_case ((?cs @ [?new]) ! j) \<longleftrightarrow> int j \<le> ?last" if "j < length (?cs @ [?new])" for j
      using that reg(2) reg(3) [of j] False by (auto simp: nth_append)
    then show ?thesis using u' i reg new fresh by (auto simp: registered_def)
  qed
qed

lemma add_test_info_registered:
  assumes "registered u"
  shows "registered (add_test_info t u)"
proof -
  obtain u1 i where g: "get_or_create_test_case (ti_case_name t) (ti_type_param t) u = (u1, i)" by fastforce
  from get_or_create_registered [OF assms g] have r: "registered u1" "i < length (ut_cases u1)" by auto
  let ?c = "add_test_info_to_case t (ut_cases u1 ! i)"
  have c: "tc_name ?c = tc_name (ut_cases u1 ! i)" "tc_indices ?c = map int [0..<length (tc_tests ?c)]"
    using r by (auto simp: add_test_info_to_case_def registered_def)
  have "is_death_test_case ((ut_cases u1)[i := ?c] ! j) = is_death_test_case (ut_cases u1 ! j)" for j
    using r(2) by (cases "j = i") (simp_all add: is_death_test_case_def c)
  moreover have "map tc_name ((ut_cases u1)[i := ?c]) = map tc_name (ut_cases u1)"
    using r(2) by (simp add: map_update c list_update_same_conv)
  moreover have "tc_indices d = map int [0..<length (tc_tests d)]" if "d \<in> set ((ut_cases u1)[i := ?c])" for d
    using that r(1) c(2) set_update_subset_insert [of "ut_cases u1" i ?c] by (auto simp: registered_def)
  ultimately show ?thesis using r(1) g by (simp add: add_test_info_def update_case_def registered_def)
qed

subsection \<open>Shards\<close>

definition selected :: "(int \<times> int) option \<Rightarrow> gtest_flags \<Rightarrow> nat \<Rightarrow> test_case list \<Rightarrow> bool list" where
  "selected shards flags runnable cs =
     concat (map (\<lambda>c. map ti_should_run (tc_tests c)) (filter_cases flags shards runnable cs))"

text \<open>The count of runnable tests does not depend on the shard.\<close>

lemma filter_case_tests_count:
  "fst (filter_case_tests flags shards name r ts) = fst (filter_case_tests flags None name r ts)"
  by (induction ts arbitrary: r) (simp_all add: Let_def case_prod_beta)

lemma filter_case_tests_length: "length (snd (filter_case_tests flags shards name r ts)) = length ts"
  by (induction ts arbitrary: r) (simp_all add: Let_def case_prod_beta)

lemma filter_case_tests_shard:
  assumes "0 < n"
  shows "p < length ts \<Longrightarrow>
    (ti_should_run (snd (filter_case_tests flags None name r ts) ! p) \<longrightarrow>
      (\<exists>!s. 0 \<le> s \<and> s < n \<and> ti_should_run (snd (filter_case_tests flags (Some (n, s)) name r ts) ! p))) \<and>
    (\<not> ti_should_run (snd (filter_case_tests flags None name r ts) ! p) \<longrightarrow>
      (\<forall>s. \<not> ti_should_run (snd (filter_case_tests flags (Some (n, s)) name r ts) ! p)))"
proof (induction ts arbitrary: r p)
  case (Cons t ts)
  show ?case
  proof (cases p)
    case 0
    then show ?thesis using one_shard [OF assms, of "int r"] by (simp add: Let_def case_prod_beta)
  next
    case (Suc q)
    let ?run = "r + of_bool ((fl_also_run_disabled_tests flags \<or> \<not> (matches_filter name k_disable_test_filter \<or>
        matches_filter (ti_name t) k_disable_test_filter)) \<and> filter_matches_test (fl_filter flags) name (ti_name t))"
    have step: "snd (filter_case_tests flags shards name r (t # ts)) ! p = snd (filter_case_tests flags shards name ?run ts) ! q"
      for shards using Suc by (simp add: Let_def case_prod_beta)
    have "q < length ts" using Cons.prems Suc by simp
    then show ?thesis unfolding step by (rule Cons.IH)
  qed
qed simp

lemma filter_cases_Cons:
  "filter_cases flags shards r (c # cs) =
   c\<lparr>tc_tests := snd (filter_case_tests flags shards (tc_name c) r (tc_tests c)),
     tc_should_run := list_ex ti_should_run (snd (filter_case_tests flags shards (tc_name c) r (tc_tests c)))\<rparr> #
   filter_cases flags shards (fst (filter_case_tests flags None (tc_name c) r (tc_tests c))) cs"
  using filter_case_tests_count [of flags shards "tc_name c" r "tc_tests c"] by (simp add: case_prod_beta)

lemma shards_partition:
  assumes "0 < n" and "p < length (selected None flags r cs)"
  shows "(selected None flags r cs ! p \<longrightarrow> (\<exists>!s. 0 \<le> s \<and> s < n \<and> selected (Some (n, s)) flags r cs ! p)) \<and>
    (\<not> selected None flags r cs ! p \<longrightarrow> (\<forall>s. \<not> selected (Some (n, s)) flags r cs ! p))"
  using assms(2)
proof (induction cs arbitrary: r p)
  case (Cons c cs)
  let ?ts = "\<lambda>shards. snd (filter_case_tests flags shards (tc_name c) r (tc_tests c))"
  let ?r = "fst (filter_case_tests flags None (tc_name c) r (tc_tests c))"
  have sel: "selected shards flags r (c # cs) = map ti_should_run (?ts shards) @ selected shards flags ?r cs" for shards
    unfolding selected_def filter_cases_Cons by simp
  have len: "length (?ts shards) = length (tc_tests c)" for shards by (rule filter_case_tests_length)
  show ?case
  proof (cases "p < length (tc_tests c)")
    case True
    then have "selected shards flags r (c # cs) ! p = ti_should_run (?ts shards ! p)" for shards
      by (simp add: sel nth_append len)
    then show ?thesis using filter_case_tests_shard [OF assms(1) True, of flags "tc_name c" r] by simp
  next
    case False
    then have "selected shards flags r (c # cs) ! p = selected shards flags ?r cs ! (p - length (tc_tests c))" for shards
      by (simp add: sel nth_append len)
    moreover have "p - length (tc_tests c) < length (selected None flags ?r cs)"
      using Cons.prems False by (simp add: sel len)
    ultimately show ?thesis using Cons.IH [of "p - length (tc_tests c)" ?r] by simp
  qed
qed (simp add: selected_def)

subsection \<open>Shuffling\<close>

lemma shuffle_cases_permutes:
  assumes "\<And>c. c \<in> set cs \<Longrightarrow> tc_indices c = map int [0..<length (tc_tests c)] \<and> length (tc_tests c) \<le> 2 ^ 31"
  shows "\<exists>cs' state'. shuffle_cases state cs = Inr (cs', state') \<and> map unshuffle_case cs' = cs \<and>
    map tc_name cs' = map tc_name cs \<and> map tc_tests cs' = map tc_tests cs \<and> map tc_should_run cs' = map tc_should_run cs \<and>
    (\<forall>c \<in> set cs'. mset (tc_indices c) = mset (map int [0..<length (tc_tests c)]))"
  using assms
proof (induction cs arbitrary: state)
  case (Cons c cs)
  have c: "tc_indices c = map int [0..<length (tc_tests c)]" "length (tc_tests c) \<le> 2 ^ 31"
    using Cons.prems [of c] by simp_all
  then obtain idx state1 where i: "shuffle state (tc_indices c) = Inr (idx, state1)" "mset idx = mset (tc_indices c)"
    using shuffle_permutes [of "tc_indices c" state] by auto
  obtain cs' state' where cs': "shuffle_cases state1 cs = Inr (cs', state')" "map unshuffle_case cs' = cs"
      "map tc_name cs' = map tc_name cs" "map tc_tests cs' = map tc_tests cs" "map tc_should_run cs' = map tc_should_run cs"
      "\<forall>c \<in> set cs'. mset (tc_indices c) = mset (map int [0..<length (tc_tests c)])"
    using Cons.IH [of state1] Cons.prems by (auto simp del: One_nat_def)
  have "length idx = length (tc_tests c)" using mset_eq_length [OF i(2)] c(1) by simp
  then have "unshuffle_case (c\<lparr>tc_indices := idx\<rparr>) = c" using c(1) by (simp add: unshuffle_case_def)
  then show ?case using i cs' c by simp
qed simp

lemma shuffle_tests_order:
  assumes "registered u" and "length (ut_cases u) \<le> 2 ^ 31" and "\<forall>c \<in> set (ut_cases u). length (tc_tests c) \<le> 2 ^ 31"
  obtains u' where "shuffle_tests u = Inr u'"
    and "mset (take (nat (ut_last_death u + 1)) (ut_indices u')) = mset (map int [0..<nat (ut_last_death u + 1)])"
    and "mset (ut_indices u') = mset (map int [0..<length (ut_cases u)])"
    and "map tc_tests (ut_cases u') = map tc_tests (ut_cases u)"
    and "map tc_should_run (ut_cases u') = map tc_should_run (ut_cases u)"
    and "\<forall>c \<in> set (ut_cases u'). mset (tc_indices c) = mset (map int [0..<length (tc_tests c)])"
    and "unshuffle_tests u' = u\<lparr>ut_random := ut_random u'\<rparr>"
proof -
  let ?last = "ut_last_death u + 1" and ?n = "length (ut_cases u)"
  have last: "0 \<le> ?last" "?last \<le> int ?n" and idx: "ut_indices u = map int [0..<?n]"
    using assms(1) by (auto simp: registered_def)
  then have len: "length (ut_indices u) = ?n" by simp
  obtain v state where v: "shuffle_range (ut_random u) 0 ?last (ut_indices u) = Inr (v, state)"
      "mset v = mset (ut_indices u)" "drop (nat ?last) v = drop (nat ?last) (ut_indices u)"
    using shuffle_range_permutes [of 0 ?last "ut_indices u" "ut_random u"] last len assms(2) by auto
  have lenv: "length v = ?n" using mset_eq_length [OF v(2)] len by simp
  obtain w state1 where w: "shuffle_range state ?last (int ?n) v = Inr (w, state1)"
      "mset w = mset v" "take (nat ?last) w = take (nat ?last) v"
    using shuffle_range_permutes [of ?last "int ?n" v state] last lenv assms(2) by auto
  have lenw: "length w = ?n" using mset_eq_length [OF w(2)] lenv by simp
  obtain cs state2 where cs: "shuffle_cases state1 (ut_cases u) = Inr (cs, state2)" "map unshuffle_case cs = ut_cases u"
      "map tc_tests cs = map tc_tests (ut_cases u)" "map tc_should_run cs = map tc_should_run (ut_cases u)"
      "\<forall>c \<in> set cs. mset (tc_indices c) = mset (map int [0..<length (tc_tests c)])"
    using shuffle_cases_permutes [of "ut_cases u" state1] assms(1,3) by (auto simp: registered_def)
  let ?u = "u\<lparr>ut_indices := w, ut_cases := cs, ut_random := state2\<rparr>"
  have "mset (take (nat ?last) v) + mset (drop (nat ?last) v) =
      mset (take (nat ?last) (ut_indices u)) + mset (drop (nat ?last) (ut_indices u))"
    using v(2) by (metis append_take_drop_id mset_append)
  then have "mset (take (nat ?last) w) = mset (take (nat ?last) (ut_indices u))" using v(3) w(3) by simp
  also have "take (nat ?last) (ut_indices u) = map int [0..<nat ?last]"
    using last by (simp add: idx take_map)
  finally have "mset (take (nat ?last) w) = mset (map int [0..<nat ?last])" .
  moreover have "length cs = ?n" using arg_cong [OF cs(2), of length] by simp
  then have "unshuffle_tests ?u = u\<lparr>ut_random := ut_random ?u\<rparr>"
    using cs(2) idx lenw by (simp add: unshuffle_tests_def)
  ultimately show ?thesis using that [of ?u] v w cs idx by (simp add: shuffle_tests_def)
qed

subsection \<open>The loop over the iterations\<close>

text \<open>With a repeat count that is not negative, as much fuel as iterations is enough.\<close>

lemma run_iterations_end:
  "0 \<le> repeat \<Longrightarrow> i \<le> repeat \<Longrightarrow> nat (repeat - i) \<le> fuel \<Longrightarrow>
   \<exists>r. run_iterations user file_macro clock has_tests repeat fuel i failed u = Some r"
proof (induction fuel arbitrary: i failed u)
  case 0
  then show ?case by (simp add: run_iterations.simps)
next
  case (Suc fuel)
  show ?case
  proof (cases "i = repeat")
    case True
    then show ?thesis using Suc.prems by (simp add: run_iterations.simps)
  next
    case False
    then have "i + 1 \<le> repeat" "nat (repeat - (i + 1)) \<le> fuel" using Suc.prems by simp_all
    note IH = Suc.IH [OF Suc.prems(1) this]
    obtain u1 r where it: "run_iteration user file_macro clock has_tests i u = (u1, r)" by fastforce
    show ?thesis
    proof (cases r)
      case Returned
      then show ?thesis using False it IH
        by (cases "get_next_random_seed (ut_random_seed (unshuffle_tests u1))")
          (simp_all add: run_iterations.simps [of _ _ _ _ _ "Suc fuel"] Let_def)
    qed (simp_all add: run_iterations.simps [of _ _ _ _ _ "Suc fuel"] it False)
  qed
qed

end
