(* ===== verification/Gtest_Run_Complete.thy ===== *)
theory Gtest_Run_Complete
  imports Gtest_Run_Properties
begin

text \<open>
  A run creates every selected test exactly once. The operations of the engine are specified by
  what they leave alone (names, order, selection and flags) and by the tests that they create, in
  rules that follow their composition; the tests may report what they like and throw what they
  like, in their constructors too where the call of \<open>DeleteSelf_\<close> on a null pointer returns.
\<close>

subsection \<open>What a run leaves alone, and what it creates\<close>

definition case_shape :: "test_case \<Rightarrow> string \<times> int list \<times> bool \<times> (string \<times> string \<times> bool) list" where
  "case_shape c = (tc_name c, tc_indices c, tc_should_run c,
     map (\<lambda>t. (ti_case_name t, ti_name t, ti_should_run t)) (tc_tests c))"

definition shape ::
  "unit_test \<Rightarrow> (string \<times> int list \<times> bool \<times> (string \<times> string \<times> bool) list) list \<times> int list \<times> gtest_flags \<times> bool \<times>
     nat \<times> int \<times> int \<times> bool" where
  "shape u = (map case_shape (ut_cases u), ut_indices u, ut_flags u, ut_catch_exceptions u, ut_environments u,
     ut_last_death u, ut_random_seed u, ut_null_delete_returns u)"

definition created_by :: "event \<Rightarrow> (string \<times> string) list" where
  "created_by e = (case e of User_call (Create_test c n) \<Rightarrow> [(c, n)] | _ \<Rightarrow> [])"

definition created :: "unit_test \<Rightarrow> (string \<times> string) list" where
  "created u = concat (map created_by (ut_events u))"

text \<open>The operation returns, in any state of the given shape, having created these tests.\<close>

definition does where
  "does f s L \<longleftrightarrow> (\<forall>u. shape u = s \<longrightarrow>
     (\<exists>u'. f u = (u', Returned) \<and> shape u' = s \<and> created u' = created u @ L))"

text \<open>The operation may throw what \<open>handle_exceptions\<close> handles.\<close>

definition tries where
  "tries f s L \<longleftrightarrow> (\<forall>u. shape u = s \<longrightarrow>
     (\<exists>u' r. f u = (u', r) \<and> (r = Returned \<or> (\<exists>e. r = Threw e \<and> e \<noteq> Gtest_failure)) \<and>
       shape u' = s \<and> created u' = created u @ L))"

lemma doesI: "(\<And>u. shape u = s \<Longrightarrow> \<exists>u'. f u = (u', Returned) \<and> shape u' = s \<and> created u' = created u @ L) \<Longrightarrow> does f s L"
  by (simp add: does_def)

lemma doesE:
  assumes "does f s L" and "shape u = s"
  obtains u' where "f u = (u', Returned)" and "shape u' = s" and "created u' = created u @ L"
  using assms by (auto simp: does_def)

lemma does_then:
  assumes "does f s L" and "does g s M"
  shows "does (and_then f g) s (L @ M)"
proof (rule doesI)
  fix u assume "shape u = s"
  with assms(1) obtain u1 where u1: "f u = (u1, Returned)" "shape u1 = s" "created u1 = created u @ L" by (rule doesE)
  from assms(2) u1(2) obtain u2 where "g u1 = (u2, Returned)" "shape u2 = s" "created u2 = created u1 @ M" by (rule doesE)
  with u1 show "\<exists>u'. and_then f g u = (u', Returned) \<and> shape u' = s \<and> created u' = created u @ L @ M"
    by (simp add: and_then_def)
qed

lemma does_plainly:
  assumes "\<And>u. shape u = s \<Longrightarrow> shape (f u) = s \<and> created (f u) = created u"
  shows "does (plainly f) s []"
  using assms by (auto simp: does_def plainly_def)

lemma does_start:
  assumes "\<And>u. shape u = s \<Longrightarrow> shape (h u) = s \<and> created (h u) = created u" and "does f s L"
  shows "does (\<lambda>u. f (h u)) s L"
  by (rule doesI) (metis assms doesE)

lemma does_cong: "(\<And>u. shape u = s \<Longrightarrow> f u = g u) \<Longrightarrow> does g s L \<Longrightarrow> does f s L"
  by (simp add: does_def)

lemma does_if:
  "does f s [] \<Longrightarrow> does (\<lambda>u. if b u then f u else (u, Returned)) s []"
  by (simp add: does_def)

subsection \<open>Updates that keep the shape\<close>

lemma created_notify [simp]: "created (notify e u) = created u @ created_by e"
  by (simp add: created_def notify_def)

lemma shape_notify [simp]: "shape (notify e u) = shape u"
  by (simp add: shape_def notify_def)

lemma map_update_same: "(map g xs)[i := g (xs ! i)] = map g xs"
  by (cases "i < length xs") (auto intro: list_update_same_conv [THEN iffD2] simp: list_update_beyond)

lemma shape_update_case:
  assumes "\<And>c. case_shape (f c) = case_shape c"
  shows "shape (update_case i f u) = shape u"
  using assms by (simp add: shape_def update_case_def map_update map_update_same)

lemma created_update_case [simp]: "created (update_case i f u) = created u"
  by (simp add: created_def update_case_def)

lemma shape_update_test:
  assumes "\<And>t. ti_case_name (f t) = ti_case_name t \<and> ti_name (f t) = ti_name t \<and> ti_should_run (f t) = ti_should_run t"
  shows "shape (update_test i j f u) = shape u"
  unfolding update_test_def
proof (rule shape_update_case)
  fix c :: test_case
  let ?g = "\<lambda>t. (ti_case_name t, ti_name t, ti_should_run t)"
  have "?g (f t) = ?g t" for t using assms by simp
  then have "map ?g ((tc_tests c)[j := f (tc_tests c ! j)]) = map ?g (tc_tests c)"
    by (simp add: map_update) (rule map_update_same [where g = ?g])
  then show "case_shape (c\<lparr>tc_tests := (tc_tests c)[j := f (tc_tests c ! j)]\<rparr>) = case_shape c"
    by (simp add: case_shape_def)
qed

lemma created_update_test [simp]: "created (update_test i j f u) = created u"
  by (simp add: update_test_def)

lemma update_current_result_keeps [simp]:
  "shape (update_current_result f u) = shape u" "created (update_current_result f u) = created u"
  by (auto simp: update_current_result_def shape_update_test split: option.split)
     (simp_all add: shape_def created_def)

lemma update_current_result_flags [simp]: "ut_flags (update_current_result f u) = ut_flags u"
  by (auto simp: update_current_result_def update_test_def update_case_def split: option.split)

lemma notify_flags [simp]: "ut_flags (notify e u) = ut_flags u"
  by (simp add: notify_def)

lemma get_time_keeps [simp]:
  "shape (snd (get_time clock u)) = shape u" "created (snd (get_time clock u)) = created u"
  by (simp_all add: get_time_def shape_def created_def)

lemma shape_flags: "shape u = shape v \<Longrightarrow> ut_flags u = ut_flags v \<and> ut_catch_exceptions u = ut_catch_exceptions v"
  by (simp add: shape_def)

subsection \<open>Calls into user code\<close>

text \<open>The flags that turn a failure into an exit are off, and exceptions are handled.\<close>

definition lenient where
  "lenient s \<longleftrightarrow> (case s of (_, _, flags, catch, _) \<Rightarrow>
     \<not> fl_break_on_failure flags \<and> \<not> fl_throw_on_failure flags \<and> catch)"

lemma lenient_shape:
  "lenient (shape u) \<longleftrightarrow> \<not> fl_break_on_failure (ut_flags u) \<and> \<not> fl_throw_on_failure (ut_flags u) \<and> ut_catch_exceptions u"
  by (simp add: lenient_def shape_def)

lemma does_add_part: "lenient s \<Longrightarrow> does (add_unit_test_part type file line message trace) s []"
  by (rule doesI) (auto simp: lenient_shape add_unit_test_part_def Let_def created_by_def)

lemma record_property_total:
  assumes "e \<in> {''testcase'', ''testsuite'', ''testsuites''}"
  shows "\<exists>r' m. record_property e p r = Inr (r', m)"
proof -
  from assms obtain reserved where "get_reserved_attributes_for_element e = Inr reserved"
    by (auto simp: get_reserved_attributes_for_element_def)
  moreover obtain b failure where "validate_test_property_name (fst p) reserved = (b, failure)" by fastforce
  ultimately show ?thesis by (cases b) (simp_all add: record_property_def validate_test_property_def)
qed

lemma does_record:
  assumes "lenient s"
  shows "does (unit_record_property file_macro p) s []"
proof (rule doesI)
  fix u assume u: "shape u = s"
  have failure: "\<exists>u'. add_failure file_macro 1822 m u = (u', Returned) \<and> shape u' = s \<and> created u' = created u" for m
    using does_add_part [OF assms] u by (force simp: add_failure_def does_def)
  have go: "\<exists>u'. (case record_property e p r of Inl f \<Rightarrow> (u, Crashed f) | Inr (_, Some m) \<Rightarrow> add_failure file_macro 1822 m u
        | Inr (x, None) \<Rightarrow> (put x, Returned)) = (u', Returned) \<and> shape u' = s \<and> created u' = created u"
    if e: "e \<in> {''testcase'', ''testsuite'', ''testsuites''}" and put: "\<And>x. shape (put x) = s \<and> created (put x) = created u"
    for e r put
  proof -
    from record_property_total [OF e] obtain r' m where "record_property e p r = Inr (r', m)" by blast
    then show ?thesis using failure put by (cases m) simp_all
  qed
  show "\<exists>u'. unit_record_property file_macro p u = (u', Returned) \<and> shape u' = s \<and> created u' = created u @ []"
  proof (cases "ut_current_case u")
    case none: None
    have "shape (u\<lparr>ut_ad_hoc := x\<rparr>) = s \<and> created (u\<lparr>ut_ad_hoc := x\<rparr>) = created u" for x
      using u by (simp add: shape_def created_def)
    then show ?thesis using go [of "''testsuites''" "\<lambda>x. u\<lparr>ut_ad_hoc := x\<rparr>" "ut_ad_hoc u"]
      unfolding unit_record_property_def none Let_def option.case prod.case by simp
  next
    case i: (Some i)
    show ?thesis
    proof (cases "ut_current_test u")
      case None
      then show ?thesis
        using u go [of "''testsuite''" "\<lambda>x. update_case i (\<lambda>c. c\<lparr>tc_ad_hoc := x\<rparr>) u" "tc_ad_hoc (ut_cases u ! i)"]
        unfolding unit_record_property_def i None Let_def option.case prod.case
        by (simp add: shape_update_case case_shape_def)
    next
      case (Some j)
      then show ?thesis
        using u go [of "''testcase''" "\<lambda>x. update_test i j (\<lambda>t. t\<lparr>ti_result := x\<rparr>) u"
          "ti_result (tc_tests (ut_cases u ! i) ! j)"]
        unfolding unit_record_property_def i Some Let_def option.case prod.case
        by (simp add: shape_update_test)
    qed
  qed
qed

lemma does_perform: "lenient s \<Longrightarrow> does (perform file_macro a) s []"
  by (cases a) (simp_all add: does_add_part does_record)

lemma does_nothing: "does (plainly id) s []"
  by (rule does_plainly) simp

lemma does_perform_all: "lenient s \<Longrightarrow> does (perform_all file_macro as) s []"
proof (induction as)
  case Nil
  then show ?case by (simp add: does_nothing)
next
  case (Cons a as)
  from does_then [OF does_perform [OF Cons.prems] Cons.IH [OF Cons.prems], of file_macro a] show ?case by simp
qed

text \<open>User code that reports failures by the assertions, not by throwing their exception itself.\<close>

definition well_behaved :: "user_code \<Rightarrow> bool" where
  "well_behaved user \<longleftrightarrow> (\<forall>call n. snd (user call n) \<noteq> Some Gtest_failure)"

text \<open>No constructor throws; or, if one does, the call of \<open>DeleteSelf_\<close> on a null pointer returns.\<close>

definition constructors_return :: "user_code \<Rightarrow> bool" where
  "constructors_return user \<longleftrightarrow> (\<forall>c m n. snd (user (Create_test c m) n) = None)"

definition survives_creation where
  "survives_creation user s \<longleftrightarrow> constructors_return user \<or> (case s of (_, _, _, _, _, _, _, null_ok) \<Rightarrow> null_ok)"

lemma survives_shape: "survives_creation user (shape u) \<longleftrightarrow> constructors_return user \<or> ut_null_delete_returns u"
  by (simp add: survives_creation_def shape_def)

lemma call_user_state:
  assumes "lenient s" and "shape u = s"
  shows "\<exists>u'. call_user user file_macro call u =
      (u', case snd (user call (ut_calls u)) of None \<Rightarrow> Returned | Some e \<Rightarrow> Threw e) \<and>
    shape u' = s \<and> created u' = created u @ created_by (User_call call)"
proof -
  obtain as e where user: "user call (ut_calls u) = (as, e)" by fastforce
  let ?u = "notify (User_call call) u\<lparr>ut_calls := ut_calls u + 1\<rparr>"
  have "shape ?u = s \<and> created ?u = created u @ created_by (User_call call)"
    using assms(2) by (simp add: shape_def created_def notify_def)
  then obtain u' where "perform_all file_macro as ?u = (u', Returned)" "shape u' = s"
      "created u' = created u @ created_by (User_call call)"
    using does_perform_all [OF assms(1), of file_macro as] by (metis append_Nil2 doesE)
  then show ?thesis by (auto simp: call_user_def user and_then_def)
qed

lemma tries_call_user:
  assumes "lenient s" and "well_behaved user"
  shows "tries (call_user user file_macro call) s (created_by (User_call call))"
  unfolding tries_def
proof (intro allI impI)
  fix u assume "shape u = s"
  from call_user_state [OF assms(1) this, of user file_macro call] assms(2)
  show "\<exists>u' r. call_user user file_macro call u = (u', r) \<and> (r = Returned \<or> (\<exists>e. r = Threw e \<and> e \<noteq> Gtest_failure)) \<and>
      shape u' = s \<and> created u' = created u @ created_by (User_call call)"
    by (cases "snd (user call (ut_calls u))") (auto simp: well_behaved_def)
qed

lemma handle_state:
  assumes "lenient s" and "tries f s L" and u: "shape u = s"
  shows "\<exists>u' normal. handle_exceptions f location u = (u', Returned, normal) \<and> shape u' = s \<and> created u' = created u @ L \<and>
    (normal \<longleftrightarrow> snd (f u) = Returned)"
proof -
  from assms obtain u1 r where f: "f u = (u1, r)" "r = Returned \<or> (\<exists>e. r = Threw e \<and> e \<noteq> Gtest_failure)"
      "shape u1 = s" "created u1 = created u @ L" by (auto simp: tries_def)
  have catch: "ut_catch_exceptions u" using assms(1) u lenient_shape by blast
  have report: "\<exists>u2. report_failure_in_unknown_location K_fatal_failure m u1 = (u2, Returned) \<and> shape u2 = s \<and>
      created u2 = created u1 @ []" for m
    using does_add_part [OF assms(1)] f(3) unfolding does_def report_failure_in_unknown_location_def by blast
  show ?thesis
  proof (cases r)
    case Returned
    then show ?thesis using f catch by (intro exI [of _ u1] exI [of _ True]) (simp add: handle_exceptions_def)
  next
    case (Threw e)
    define message where "message = format_cxx_exception_message
      (case e of Std_exception what \<Rightarrow> Some what | _ \<Rightarrow> None) location"
    from report obtain u2 where "report_failure_in_unknown_location K_fatal_failure message u1 = (u2, Returned)"
        "shape u2 = s" "created u2 = created u1" by force
    moreover have "e \<noteq> Gtest_failure" using Threw f(2) by simp
    ultimately show ?thesis using f(1,4) Threw catch
      by (intro exI [of _ u2] exI [of _ False], cases e) (simp_all add: handle_exceptions_def message_def)
  next
    case (Crashed x)
    with f(2) show ?thesis by simp
  qed
qed

lemma does_handled:
  assumes "lenient s" and "tries f s L"
  shows "does (handled f location) s L"
proof (rule doesI)
  fix u assume "shape u = s"
  from handle_state [OF assms this, of location] show "\<exists>u'. handled f location u = (u', Returned) \<and> shape u' = s \<and> created u' = created u @ L"
    by (auto simp: handled_def)
qed

subsection \<open>Tests\<close>

lemmas does_then_quiet = does_then [where L = "[]", simplified]

lemma does_apply: "does f s L \<Longrightarrow> shape u = s \<Longrightarrow> \<exists>u'. f u = (u', Returned) \<and> shape u' = s \<and> created u' = created u @ L"
  by (simp add: does_def)

lemma does_quiet_call:
  assumes "lenient s" and "well_behaved user" and "created_by (User_call call) = []"
  shows "does (handled (call_user user file_macro call) location) s []"
  using does_handled [OF assms(1) tries_call_user [OF assms(1,2)], of file_macro call location] assms(3) by simp

lemma does_test_run:
  assumes "lenient s" and "well_behaved user"
  shows "does (test_run user file_macro i j) s []"
proof (rule doesI)
  fix u assume u: "shape u = s"
  note quiet = does_quiet_call [OF assms]
  have "does (add_failure file_macro line m) s []" for line m
    unfolding add_failure_def using assms(1) by (rule does_add_part)
  moreover have "does (and_then (handled (call_user user file_macro (Set_up c n)) ''SetUp()'')
           (and_then (\<lambda>u. if \<not> has_fatal_failure (current_test_result u)
               then handled (call_user user file_macro (Test_body c n)) ''the test body'' u else (u, Returned))
             (handled (call_user user file_macro (Tear_down c n)) ''TearDown()''))) s []" for c n
    by (intro does_then_quiet does_if quiet) (simp_all add: created_by_def)
  ultimately show "\<exists>u'. test_run user file_macro i j u = (u', Returned) \<and> shape u' = s \<and> created u' = created u @ []"
    unfolding test_run_def Let_def using u by (auto simp: does_def)
qed

definition pick :: "string \<times> string \<times> bool \<Rightarrow> (string \<times> string) list" where
  "pick t = (case t of (c, n, run) \<Rightarrow> if run then [(c, n)] else [])"

lemma does_test_info_run:
  assumes "lenient s" and "well_behaved user" and "survives_creation user s"
    and "i < length (fst s)" and "fst s ! i = (name, idx, run, ts)" and "j < length ts"
  shows "does (test_info_run user file_macro clock i j) s (pick (ts ! j))"
proof (rule doesI)
  fix u assume u: "shape u = s"
  let ?t = "tc_tests (ut_cases u ! i) ! j"
  have i: "i < length (ut_cases u)" and c: "case_shape (ut_cases u ! i) = (name, idx, run, ts)"
    using assms(4,5) u by (auto simp: shape_def)
  then have t: "ts ! j = (ti_case_name ?t, ti_name ?t, ti_should_run ?t)"
    using assms(6) by (auto simp: case_shape_def)
  show "\<exists>u'. test_info_run user file_macro clock i j u = (u', Returned) \<and> shape u' = s \<and> created u' = created u @ pick (ts ! j)"
  proof (cases "ti_should_run ?t")
    case False
    then show ?thesis using u by (simp add: test_info_run_def pick_def t Let_def)
  next
    case True
    let ?c = "ti_case_name ?t" and ?n = "ti_name ?t"
    obtain start u1 where u1: "get_time clock (notify (Test_start ?c ?n) (u\<lparr>ut_current_test := Some j\<rparr>)) = (start, u1)"
      by fastforce
    then have "u1 = snd (get_time clock (notify (Test_start ?c ?n) (u\<lparr>ut_current_test := Some j\<rparr>)))" by simp
    then have s1: "shape u1 = s" "created u1 = created u"
      using u by (simp_all add: created_by_def) (simp_all add: shape_def created_def)
    from handle_state [OF assms(1) tries_call_user [OF assms(1,2)] s1(1),
        of file_macro "Create_test ?c ?n" "''the test fixture's constructor''"]
    obtain u2 made where u2: "handle_exceptions (call_user user file_macro (Create_test ?c ?n))
          ''the test fixture's constructor'' u1 = (u2, Returned, made)" "shape u2 = s"
        "created u2 = created u1 @ [(?c, ?n)]" "made \<longleftrightarrow> snd (call_user user file_macro (Create_test ?c ?n) u1) = Returned"
      unfolding created_by_def event.case user_call.case by blast
    have deleted: "does (if made then handled (call_user user file_macro (Delete_test ?c ?n)) ''the test fixture's destructor''
        else (\<lambda>u. (u, if ut_null_delete_returns u then Returned else Crashed Null_dereference))) s []"
    proof (cases made)
      case True
      then show ?thesis using does_quiet_call [OF assms(1,2), of "Delete_test ?c ?n"] by (simp add: created_by_def)
    next
      case False
      then have "\<not> constructors_return user"
        using u2(4) call_user_state [OF assms(1) s1(1), of user file_macro "Create_test ?c ?n"]
        by (auto simp: constructors_return_def split: option.splits)
      then have "ut_null_delete_returns v" if "shape v = s" for v using assms(3) that survives_shape by blast
      then show ?thesis using False by (simp add: does_def)
    qed
    have run: "does (\<lambda>u. if made \<and> \<not> has_fatal_failure (current_test_result u)
        then test_run user file_macro i j u else (u, Returned)) s []"
      by (rule does_if [OF does_test_run [OF assms(1,2)]])
    have "does (and_then (\<lambda>u. if made \<and> \<not> has_fatal_failure (current_test_result u)
        then test_run user file_macro i j u else (u, Returned))
      (and_then (if made then handled (call_user user file_macro (Delete_test ?c ?n)) ''the test fixture's destructor''
        else (\<lambda>u. (u, if ut_null_delete_returns u then Returned else Crashed Null_dereference)))
        (plainly (\<lambda>u. let (now, u) = get_time clock u;
            u = update_test i j (\<lambda>t. t\<lparr>ti_result := (ti_result t)\<lparr>rs_elapsed_time := now - start\<rparr>\<rparr>) u
          in (notify (Test_end ?c ?n) u)\<lparr>ut_current_test := None\<rparr>)))) s []"
    proof (intro does_then_quiet run deleted does_plainly)
      fix u :: unit_test
      assume "shape u = s"
      let ?u = "\<lambda>now. update_test i j (\<lambda>t. t\<lparr>ti_result := (ti_result t)\<lparr>rs_elapsed_time := now - start\<rparr>\<rparr>) (snd (get_time clock u))"
      have "shape (?u now) = s \<and> created (?u now) = created u" for now
        using \<open>shape u = s\<close> by (simp add: shape_update_test)
      moreover have "shape (v\<lparr>ut_current_test := None\<rparr>) = shape v \<and> created (v\<lparr>ut_current_test := None\<rparr>) = created v" for v
        by (simp add: shape_def created_def)
      ultimately show "shape (let (now, u) = get_time clock u;
            u = update_test i j (\<lambda>t. t\<lparr>ti_result := (ti_result t)\<lparr>rs_elapsed_time := now - start\<rparr>\<rparr>) u
          in (notify (Test_end ?c ?n) u)\<lparr>ut_current_test := None\<rparr>) = s \<and>
        created (let (now, u) = get_time clock u;
            u = update_test i j (\<lambda>t. t\<lparr>ti_result := (ti_result t)\<lparr>rs_elapsed_time := now - start\<rparr>\<rparr>) u
          in (notify (Test_end ?c ?n) u)\<lparr>ut_current_test := None\<rparr>) = created u"
        by (simp add: Let_def case_prod_beta created_by_def)
    qed
    from doesE [OF this u2(2)] obtain u3 where "and_then (\<lambda>u. if made \<and> \<not> has_fatal_failure (current_test_result u)
        then test_run user file_macro i j u else (u, Returned))
      (and_then (if made then handled (call_user user file_macro (Delete_test ?c ?n)) ''the test fixture's destructor''
        else (\<lambda>u. (u, if ut_null_delete_returns u then Returned else Crashed Null_dereference)))
        (plainly (\<lambda>u. let (now, u) = get_time clock u;
            u = update_test i j (\<lambda>t. t\<lparr>ti_result := (ti_result t)\<lparr>rs_elapsed_time := now - start\<rparr>\<rparr>) u
          in (notify (Test_end ?c ?n) u)\<lparr>ut_current_test := None\<rparr>))) u2 = (u3, Returned)"
      "shape u3 = s" "created u3 = created u2 @ []" .
    then show ?thesis
      using True u1 u2(1,3) s1(2) by (simp add: test_info_run_def pick_def t Let_def)
  qed
qed

subsection \<open>Test cases\<close>

definition in_order :: "int list \<Rightarrow> 'a list \<Rightarrow> 'a list" where
  "in_order idx xs = map (\<lambda>i. xs ! nat i) idx"

lemma permuted_range:
  assumes "mset idx = mset (map int [0..<n])"
  shows "length idx = n" and "i \<in> set idx \<Longrightarrow> 0 \<le> i \<and> nat i < n"
proof -
  show "length idx = n" using mset_eq_length [OF assms] by simp
  show "i \<in> set idx \<Longrightarrow> 0 \<le> i \<and> nat i < n" using mset_eq_setD [OF assms] by auto
qed

lemma in_order_permutes:
  assumes "mset idx = mset (map int [0..<length xs])"
  shows "mset (in_order idx xs) = mset xs"
proof -
  have "mset (in_order idx xs) = mset (map (\<lambda>i. xs ! nat i) (map int [0..<length xs]))"
    unfolding in_order_def by (metis assms mset_map)
  also have "map (\<lambda>i. xs ! nat i) (map int [0..<length xs]) = xs" by (simp add: comp_def map_nth)
  finally show ?thesis .
qed

lemma does_run_tests:
  assumes "lenient s" and "well_behaved user" and "survives_creation user s"
    and "i < length (fst s)" and "fst s ! i = (name, idx, run, ts)"
    and "\<And>k. k \<in> set ks \<Longrightarrow> k < length idx \<and> 0 \<le> idx ! k \<and> nat (idx ! k) < length ts"
  shows "does (run_tests_of_case user file_macro clock i ks) s (concat (map (\<lambda>k. pick (ts ! nat (idx ! k))) ks))"
  using assms(6)
proof (induction ks)
  case Nil
  then show ?case by (simp add: does_nothing)
next
  case (Cons k ks)
  have k: "k < length idx" "0 \<le> idx ! k" "nat (idx ! k) < length ts" using Cons.prems [of k] by auto
  have "does (\<lambda>u. case get_test_info (int k) (ut_cases u ! i) of
         None \<Rightarrow> (u, Crashed Null_dereference)
       | Some j \<Rightarrow> test_info_run user file_macro clock i j u) s (pick (ts ! nat (idx ! k)))"
  proof (rule does_cong [OF _ does_test_info_run [OF assms(1-5) k(3)]])
    fix u assume "shape u = s"
    then have "tc_indices (ut_cases u ! i) = idx" using assms(4,5) by (auto simp: shape_def case_shape_def)
    then show "(case get_test_info (int k) (ut_cases u ! i) of None \<Rightarrow> (u, Crashed Null_dereference)
       | Some j \<Rightarrow> test_info_run user file_macro clock i j u) = test_info_run user file_macro clock i (nat (idx ! k)) u"
      using k by (simp add: get_test_info_def get_element_or_def)
  qed
  from does_then [OF this Cons.IH] Cons.prems show ?case by simp
qed

definition case_creates :: "string \<times> int list \<times> bool \<times> (string \<times> string \<times> bool) list \<Rightarrow> (string \<times> string) list" where
  "case_creates c = (case c of (name, idx, run, ts) \<Rightarrow> if run then concat (map pick (in_order idx ts)) else [])"

lemma does_timed:
  assumes "\<And>start. does (f start) s L"
  shows "does (\<lambda>u. let (start, u) = get_time clock u in f start u) s L"
proof (rule doesI)
  fix u assume u: "shape u = s"
  obtain start v where v: "get_time clock u = (start, v)" by fastforce
  then have "shape v = s" "created v = created u" using get_time_keeps [of clock u] u by simp_all
  with does_apply [OF assms [of start], of v] show "\<exists>u'. (let (start, u) = get_time clock u in f start u) = (u', Returned) \<and>
      shape u' = s \<and> created u' = created u @ L" by (simp add: v)
qed

lemma does_finish_case:
  assumes "lenient s" and "well_behaved user"
  shows "does (and_then (plainly (\<lambda>u. let (now, u) = get_time clock u
             in update_case i (\<lambda>c. c\<lparr>tc_elapsed_time := now - start\<rparr>) u))
           (and_then (handled (call_user user file_macro (Tear_down_test_case name)) ''TearDownTestCase()'')
             (plainly (\<lambda>u. (notify (Test_case_end name) u)\<lparr>ut_current_case := None\<rparr>)))) s []"
proof (intro does_then_quiet does_quiet_call does_plainly assms)
  fix u :: unit_test
  assume "shape u = s"
  then show "shape (let (now, u) = get_time clock u in update_case i (\<lambda>c. c\<lparr>tc_elapsed_time := now - start\<rparr>) u) = s \<and>
      created (let (now, u) = get_time clock u in update_case i (\<lambda>c. c\<lparr>tc_elapsed_time := now - start\<rparr>) u) = created u"
    by (simp add: case_prod_beta Let_def shape_update_case case_shape_def)
  have "shape (v\<lparr>ut_current_case := None\<rparr>) = shape v \<and> created (v\<lparr>ut_current_case := None\<rparr>) = created v" for v
    by (simp add: shape_def created_def)
  then show "shape ((notify (Test_case_end name) u)\<lparr>ut_current_case := None\<rparr>) = s \<and>
      created ((notify (Test_case_end name) u)\<lparr>ut_current_case := None\<rparr>) = created u"
    using \<open>shape u = s\<close> by (simp add: created_by_def)
qed (simp add: created_by_def)

lemma does_test_case_run:
  assumes "lenient s" and "well_behaved user" and "survives_creation user s"
    and "i < length (fst s)" and "fst s ! i = (name, idx, run, ts)"
    and "mset idx = mset (map int [0..<length ts])"
  shows "does (test_case_run user file_macro clock i) s (case_creates (fst s ! i))"
proof (rule doesI)
  fix u assume u: "shape u = s"
  let ?c = "ut_cases u ! i" and ?ks = "[0..<length ts]"
  have c: "case_shape ?c = (name, idx, run, ts)" using assms(4,5) u by (auto simp: shape_def)
  then have len: "total_test_count ?c = length ts" and run: "tc_should_run ?c = run"
    by (auto simp: case_shape_def total_test_count_def)
  note idx = permuted_range [OF assms(6)]
  have in_range: "k < length idx \<and> 0 \<le> idx ! k \<and> nat (idx ! k) < length ts" if "k \<in> set ?ks" for k
    using that idx nth_mem [of k idx] by auto
  have "map (\<lambda>k. pick (ts ! nat (idx ! k))) ?ks = map pick (in_order idx ts)"
    by (rule nth_equalityI) (simp_all add: in_order_def idx(1))
  then have "does (run_tests_of_case user file_macro clock i ?ks) s (concat (map pick (in_order idx ts)))"
    using does_run_tests [OF assms(1-5), of ?ks file_macro clock] in_range by simp
  from does_then [OF this does_finish_case [OF assms(1,2)]]
  have rest: "does (\<lambda>u. let (start, u) = get_time clock u
               in and_then (run_tests_of_case user file_macro clock i ?ks)
                 (and_then (plainly (\<lambda>u. let (now, u) = get_time clock u
                     in update_case i (\<lambda>c. c\<lparr>tc_elapsed_time := now - start\<rparr>) u))
                   (and_then (handled (call_user user file_macro (Tear_down_test_case (tc_name ?c))) ''TearDownTestCase()'')
                     (plainly (\<lambda>u. (notify (Test_case_end (tc_name ?c)) u)\<lparr>ut_current_case := None\<rparr>)))) u)
      s (concat (map pick (in_order idx ts)))"
    by (intro does_timed) simp
  show "\<exists>u'. test_case_run user file_macro clock i u = (u', Returned) \<and> shape u' = s \<and>
    created u' = created u @ case_creates (fst s ! i)"
  proof (cases run)
    case False
    then show ?thesis using u run by (simp add: test_case_run_def case_creates_def assms(5) Let_def)
  next
    case True
    let ?u = "notify (Test_case_start (tc_name ?c)) (u\<lparr>ut_current_case := Some i\<rparr>)"
    have s1: "shape ?u = s" "created ?u = created u"
      using u by (simp_all add: created_by_def) (simp_all add: shape_def created_def)
    have "created_by (User_call (Set_up_test_case (tc_name ?c))) = []" by (simp add: created_by_def)
    from does_apply [OF does_then_quiet [OF does_quiet_call [OF assms(1,2) this] rest] s1(1)]
    show ?thesis using s1(2) True run len
      by (simp only: test_case_run_def Let_def case_creates_def assms(5) prod.case not_True_eq_False if_True if_False)
  qed
qed

subsection \<open>All cases\<close>

definition orderly :: "unit_test \<Rightarrow> bool" where
  "orderly u \<longleftrightarrow>
     mset (ut_indices u) = mset (map int [0..<length (ut_cases u)]) \<and>
     (\<forall>c \<in> set (ut_cases u). mset (tc_indices c) = mset (map int [0..<length (tc_tests c)]) \<and>
       tc_should_run c = list_ex ti_should_run (tc_tests c))"

text \<open>The selected tests of the cases, in the order of their registration.\<close>

definition selected_tests :: "test_case list \<Rightarrow> (string \<times> string) list" where
  "selected_tests cs =
     concat (map (\<lambda>c. map (\<lambda>t. (ti_case_name t, ti_name t)) (filter ti_should_run (tc_tests c))) cs)"

lemma does_run_each:
  assumes "\<And>k. k \<in> set ks \<Longrightarrow> does (f k) s (L k)"
  shows "does (run_each f ks) s (concat (map L ks))"
  using assms
proof (induction ks)
  case Nil
  then show ?case by (simp add: does_nothing)
next
  case (Cons k ks)
  then show ?case using does_then [of "f k" s "L k" "run_each f ks"] by simp
qed

lemma mset_concat_map:
  "mset xs = mset ys \<Longrightarrow> mset (concat (map f xs)) = mset (concat (map f ys))"
proof -
  assume "mset xs = mset ys"
  moreover have "mset (concat (map f zs)) = \<Sum>\<^sub># (image_mset (\<lambda>z. mset (f z)) (mset zs))" for zs
    by (induction zs) simp_all
  ultimately show ?thesis by simp
qed

lemma case_creates_selected:
  assumes "mset (tc_indices c) = mset (map int [0..<length (tc_tests c)])"
    and "tc_should_run c = list_ex ti_should_run (tc_tests c)"
  shows "mset (case_creates (case_shape c)) = mset (selected_tests [c])"
proof -
  let ?g = "\<lambda>t. (ti_case_name t, ti_name t, ti_should_run t)"
  have pick: "concat (map pick (map ?g ts)) = map (\<lambda>t. (ti_case_name t, ti_name t)) (filter ti_should_run ts)" for ts
    by (induction ts) (simp_all add: pick_def)
  show ?thesis
  proof (cases "tc_should_run c")
    case True
    have "mset (in_order (tc_indices c) (map ?g (tc_tests c))) = mset (map ?g (tc_tests c))"
      by (rule in_order_permutes) (simp add: assms(1))
    from mset_concat_map [OF this, of pick] True show ?thesis
      by (simp only: case_creates_def case_shape_def selected_tests_def pick prod.case if_True list.map concat.simps append_Nil2)
  next
    case False
    then have "filter ti_should_run (tc_tests c) = []" using assms(2) by (simp add: filter_empty_conv list_ex_iff)
    then show ?thesis using False by (simp add: case_creates_def case_shape_def selected_tests_def)
  qed
qed

lemma does_run_cases:
  assumes "lenient (shape u)" and "well_behaved user" and "survives_creation user (shape u)" and "orderly u"
  shows "does (run_each (\<lambda>k u. case get_mutable_test_case (int k) u of
         None \<Rightarrow> (u, Crashed Null_dereference)
       | Some i \<Rightarrow> test_case_run user file_macro clock i u) [0..<length (ut_cases u)]) (shape u)
    (concat (map case_creates (in_order (ut_indices u) (map case_shape (ut_cases u)))))"
proof -
  let ?s = "shape u" and ?idx = "ut_indices u" and ?cs = "map case_shape (ut_cases u)"
  have perm: "mset ?idx = mset (map int [0..<length (ut_cases u)])" using assms(4) by (simp add: orderly_def)
  note idx = permuted_range [OF perm]
  have "does (\<lambda>u. case get_mutable_test_case (int k) u of
         None \<Rightarrow> (u, Crashed Null_dereference)
       | Some i \<Rightarrow> test_case_run user file_macro clock i u) ?s (case_creates (?cs ! nat (?idx ! k)))"
    if "k \<in> set [0..<length (ut_cases u)]" for k
  proof -
    have k: "k < length ?idx" "0 \<le> ?idx ! k" "nat (?idx ! k) < length (ut_cases u)"
      using that idx nth_mem [of k ?idx] by auto
    let ?c = "ut_cases u ! nat (?idx ! k)"
    have "mset (tc_indices ?c) = mset (map int [0..<length (tc_tests ?c)])"
      using assms(4) k(3) by (simp add: orderly_def)
    then have "does (test_case_run user file_macro clock (nat (?idx ! k))) ?s (case_creates (fst ?s ! nat (?idx ! k)))"
      using k(3) by (intro does_test_case_run [OF assms(1-3)]) (auto simp: shape_def case_shape_def)
    then have run: "does (test_case_run user file_macro clock (nat (?idx ! k))) ?s (case_creates (?cs ! nat (?idx ! k)))"
      by (simp add: shape_def)
    have "(case get_mutable_test_case (int k) v of None \<Rightarrow> (v, Crashed Null_dereference)
         | Some i \<Rightarrow> test_case_run user file_macro clock i v) = test_case_run user file_macro clock (nat (?idx ! k)) v"
      if "shape v = ?s" for v
    proof -
      have "ut_indices v = ?idx" using that by (simp add: shape_def)
      then show ?thesis using k by (simp add: get_mutable_test_case_def get_element_or_def)
    qed
    from does_cong [OF this run] show ?thesis .
  qed
  then have "does (run_each (\<lambda>k u. case get_mutable_test_case (int k) u of
         None \<Rightarrow> (u, Crashed Null_dereference)
       | Some i \<Rightarrow> test_case_run user file_macro clock i u) [0..<length (ut_cases u)]) ?s
      (concat (map (\<lambda>k. case_creates (?cs ! nat (?idx ! k))) [0..<length (ut_cases u)]))"
    by (rule does_run_each)
  moreover have "map (\<lambda>k. case_creates (?cs ! nat (?idx ! k))) [0..<length (ut_cases u)] = map case_creates (in_order ?idx ?cs)"
    by (rule nth_equalityI) (simp_all add: in_order_def idx(1))
  ultimately show ?thesis by simp
qed

lemma run_cases_creates_all:
  assumes "orderly u" and "ut_catch_exceptions u" and "\<not> fl_break_on_failure (ut_flags u)" and "\<not> fl_throw_on_failure (ut_flags u)"
    and "well_behaved user" and "survives_creation user (shape u)"
  shows "\<exists>u'. run_cases user file_macro clock u = (u', Returned) \<and> shape u' = shape u \<and>
    mset (created u') = mset (created u) + mset (selected_tests (ut_cases u))"
proof -
  let ?cs = "map case_shape (ut_cases u)"
  have len: "lenient (shape u)" using assms by (simp add: lenient_shape)
  from does_apply [OF does_run_cases [OF len assms(5,6,1)] refl]
  obtain u' where u': "run_cases user file_macro clock u = (u', Returned)" "shape u' = shape u"
      "created u' = created u @ concat (map case_creates (in_order (ut_indices u) ?cs))"
    by (auto simp: run_cases_def)
  have "mset (concat (map case_creates (in_order (ut_indices u) ?cs))) = mset (concat (map case_creates ?cs))"
    using assms(1) by (intro mset_concat_map in_order_permutes) (simp add: orderly_def)
  also have "\<dots> = mset (selected_tests (ut_cases u))"
  proof -
    have "mset (concat (map case_creates (map case_shape cs))) = mset (selected_tests cs)" if "set cs \<subseteq> set (ut_cases u)" for cs
      using that
    proof (induction cs)
      case (Cons c cs)
      then have "mset (case_creates (case_shape c)) = mset (selected_tests [c])"
        using assms(1) by (intro case_creates_selected) (auto simp: orderly_def)
      with Cons show ?case by (simp add: selected_tests_def)
    qed (simp add: selected_tests_def)
    then show ?thesis by blast
  qed
  finally show ?thesis using u' by simp
qed

subsection \<open>The states in which a run starts\<close>

text \<open>Filtering and shuffling leave an orderly state, and shuffling keeps the selection.\<close>

lemma filter_cases_orderly:
  assumes "\<And>c. c \<in> set cs \<Longrightarrow> mset (tc_indices c) = mset (map int [0..<length (tc_tests c)])"
    and "c \<in> set (filter_cases flags shards r cs)"
  shows "mset (tc_indices c) = mset (map int [0..<length (tc_tests c)]) \<and> tc_should_run c = list_ex ti_should_run (tc_tests c)"
  using assms
proof (induction cs arbitrary: r)
  case (Cons d cs)
  then show ?case unfolding filter_cases_Cons by (auto simp: filter_case_tests_length)
qed simp

lemma filter_cases_length: "length (filter_cases flags shards r cs) = length cs"
proof (induction cs arbitrary: r)
  case (Cons c cs)
  then show ?case unfolding filter_cases_Cons by simp
qed simp

lemma filter_tests_orderly:
  assumes "registered u" and "filter_tests env honor u = Inr (u', n)"
  shows "orderly u'"
proof -
  obtain shards where u': "u' = u\<lparr>ut_cases := filter_cases (ut_flags u) shards 0 (ut_cases u)\<rparr>"
    using assms(2) by (auto simp: filter_tests_def Let_def split: if_splits sum.splits)
  show ?thesis using assms(1) filter_cases_orderly [of "ut_cases u" _ "ut_flags u" shards 0]
    by (auto simp: u' orderly_def registered_def filter_cases_length)
qed

lemma selected_tests_map:
  assumes "map tc_tests cs = map tc_tests cs'"
  shows "selected_tests cs = selected_tests cs'"
proof -
  have "selected_tests cs = concat (map (\<lambda>ts. map (\<lambda>t. (ti_case_name t, ti_name t)) (filter ti_should_run ts)) (map tc_tests cs))"
    for cs by (simp add: selected_tests_def comp_def)
  then show ?thesis unfolding assms by (simp only: assms)
qed

lemma shuffle_tests_orderly:
  assumes "registered u" and "orderly u" and "length (ut_cases u) \<le> 2 ^ 31"
    and "\<forall>c \<in> set (ut_cases u). length (tc_tests c) \<le> 2 ^ 31"
  shows "\<exists>u'. shuffle_tests u = Inr u' \<and> orderly u' \<and> selected_tests (ut_cases u') = selected_tests (ut_cases u)"
proof -
  from assms(1,3,4) obtain u' where u': "shuffle_tests u = Inr u'" "mset (ut_indices u') = mset (map int [0..<length (ut_cases u)])"
      "map tc_tests (ut_cases u') = map tc_tests (ut_cases u)" "map tc_should_run (ut_cases u') = map tc_should_run (ut_cases u)"
      "\<forall>c \<in> set (ut_cases u'). mset (tc_indices c) = mset (map int [0..<length (tc_tests c)])"
    by (rule shuffle_tests_order)
  have len: "length (ut_cases u') = length (ut_cases u)" using arg_cong [OF u'(3), of length] by simp
  have "tc_should_run c = list_ex ti_should_run (tc_tests c)" if "c \<in> set (ut_cases u')" for c
  proof -
    from that obtain k where k: "k < length (ut_cases u')" "c = ut_cases u' ! k" by (auto simp: in_set_conv_nth)
    let ?d = "ut_cases u ! k"
    have "tc_tests c = tc_tests ?d" "tc_should_run c = tc_should_run ?d"
      using k len arg_cong [OF u'(3), of "\<lambda>xs. xs ! k"] arg_cong [OF u'(4), of "\<lambda>xs. xs ! k"] by simp_all
    moreover have "?d \<in> set (ut_cases u)" using k len by simp
    ultimately show ?thesis using assms(2) by (auto simp: orderly_def)
  qed
  then have "orderly u'" using u' len by (simp add: orderly_def)
  then show ?thesis using u'(1) selected_tests_map [OF u'(3)] by blast
qed

end
