(* ===== verification/Gtest_Run_Returns.thy ===== *)
theory Gtest_Run_Returns
  imports Gtest_Run_Complete
begin

text \<open>
  A run of the test program comes back: from a registered and filtered state every iteration returns
  or lets an exception out of an environment, and leaves the next one a state like its own. All
  that an iteration needs of a state is in its shape.
\<close>

subsection \<open>States that are ready for an iteration\<close>

definition ready :: "user_code \<Rightarrow> unit_test \<Rightarrow> bool" where
  "ready user u \<longleftrightarrow>
     registered u \<and> orderly u \<and> lenient (shape u) \<and> survives_creation user (shape u) \<and>
     length (ut_cases u) \<le> 2 ^ 31 \<and> (\<forall>c \<in> set (ut_cases u). length (tc_tests c) \<le> 2 ^ 31) \<and>
     (fl_shuffle (ut_flags u) \<longrightarrow> 1 \<le> ut_random_seed u \<and> ut_random_seed u \<le> k_max_random_seed)"

lemma readyD:
  assumes "ready user u"
  shows "registered u" and "orderly u" and "lenient (shape u)" and "survives_creation user (shape u)"
    and "length (ut_cases u) \<le> 2 ^ 31" and "\<forall>c \<in> set (ut_cases u). length (tc_tests c) \<le> 2 ^ 31"
    and "fl_shuffle (ut_flags u) \<Longrightarrow> 1 \<le> ut_random_seed u \<and> ut_random_seed u \<le> k_max_random_seed"
  using assms by (auto simp: ready_def)

lemma case_shape_eqD:
  assumes "case_shape c = case_shape d"
  shows "tc_name c = tc_name d" and "tc_indices c = tc_indices d" and "length (tc_tests c) = length (tc_tests d)"
    and "tc_should_run c = tc_should_run d" and "list_ex ti_should_run (tc_tests c) = list_ex ti_should_run (tc_tests d)"
proof -
  have tests: "map (\<lambda>t. (ti_case_name t, ti_name t, ti_should_run t)) (tc_tests c) =
      map (\<lambda>t. (ti_case_name t, ti_name t, ti_should_run t)) (tc_tests d)"
    using assms by (simp add: case_shape_def)
  then show "length (tc_tests c) = length (tc_tests d)" by (rule map_eq_imp_length_eq)
  have "map ti_should_run (tc_tests c) = map ti_should_run (tc_tests d)"
    using arg_cong [OF tests, of "map (snd \<circ> snd)"] by (simp add: comp_def)
  then have same: "set (map ti_should_run (tc_tests c)) = set (map ti_should_run (tc_tests d))" by (rule arg_cong)
  have member: "list_ex ti_should_run ts \<longleftrightarrow> True \<in> set (map ti_should_run ts)" for ts by (induction ts) auto
  show "list_ex ti_should_run (tc_tests c) = list_ex ti_should_run (tc_tests d)" by (simp only: member same)
qed (use assms in \<open>simp_all add: case_shape_def\<close>)

lemma shape_eqD:
  assumes "shape u = shape v"
  shows "length (ut_cases u) = length (ut_cases v)" and "ut_indices u = ut_indices v" and "ut_flags u = ut_flags v"
    and "ut_last_death u = ut_last_death v" and "ut_random_seed u = ut_random_seed v"
    and "ut_environments u = ut_environments v"
    and "i < length (ut_cases v) \<Longrightarrow> case_shape (ut_cases u ! i) = case_shape (ut_cases v ! i)"
    and "map tc_name (ut_cases u) = map tc_name (ut_cases v)"
proof -
  have cases: "map case_shape (ut_cases u) = map case_shape (ut_cases v)" using assms by (simp add: shape_def)
  then show len: "length (ut_cases u) = length (ut_cases v)" by (rule map_eq_imp_length_eq)
  show "case_shape (ut_cases u ! i) = case_shape (ut_cases v ! i)" if "i < length (ut_cases v)"
    using arg_cong [OF cases, of "\<lambda>xs. xs ! i"] that len by simp
  show "map tc_name (ut_cases u) = map tc_name (ut_cases v)"
    using arg_cong [OF cases, of "map fst"] by (simp add: comp_def case_shape_def)
qed (use assms in \<open>simp_all add: shape_def\<close>)

lemma case_like:
  assumes "shape u = shape v" and "c \<in> set (ut_cases u)"
  obtains d where "d \<in> set (ut_cases v)" and "case_shape c = case_shape d"
proof -
  obtain i where i: "i < length (ut_cases u)" "c = ut_cases u ! i" using assms(2) by (auto simp: in_set_conv_nth)
  show thesis
    by (rule that [of "ut_cases v ! i"]) (use i shape_eqD(1,7) [OF assms(1)] in \<open>simp_all add: nth_mem\<close>)
qed

lemma registered_shape:
  assumes "shape u = shape v" and "registered v"
  shows "registered u"
proof -
  note eq = shape_eqD [OF assms(1)]
  have "is_death_test_case (ut_cases u ! i) = is_death_test_case (ut_cases v ! i)" if "i < length (ut_cases v)" for i
    using case_shape_eqD(1) [OF eq(7) [OF that]] by (simp add: is_death_test_case_def)
  moreover have "tc_indices c = map int [0..<length (tc_tests c)]" if c: "c \<in> set (ut_cases u)" for c
  proof -
    obtain d where "d \<in> set (ut_cases v)" "case_shape c = case_shape d" using case_like [OF assms(1) c] by blast
    with assms(2) case_shape_eqD(2,3) [of c d] show ?thesis by (simp add: registered_def)
  qed
  ultimately show ?thesis using assms(2) by (simp add: registered_def eq)
qed

lemma orderly_shape:
  assumes "shape u = shape v" and "orderly v"
  shows "orderly u"
proof -
  have "mset (tc_indices c) = mset (map int [0..<length (tc_tests c)]) \<and> tc_should_run c = list_ex ti_should_run (tc_tests c)"
    if c: "c \<in> set (ut_cases u)" for c
  proof -
    obtain d where "d \<in> set (ut_cases v)" "case_shape c = case_shape d" using case_like [OF assms(1) c] by blast
    with assms(2) case_shape_eqD(2-5) [of c d] show ?thesis by (simp add: orderly_def)
  qed
  then show ?thesis using assms(2) shape_eqD(1,2) [OF assms(1)] by (simp add: orderly_def)
qed

lemma ready_same:
  assumes "shape u = shape v" and "ready user v"
  shows "ready user u"
proof -
  have "length (tc_tests c) \<le> 2 ^ 31" if c: "c \<in> set (ut_cases u)" for c
  proof -
    obtain d where "d \<in> set (ut_cases v)" "case_shape c = case_shape d" using case_like [OF assms(1) c] by blast
    with readyD(6) [OF assms(2)] case_shape_eqD(3) [of c d] show ?thesis by simp
  qed
  then show ?thesis
    using registered_shape [OF assms(1)] orderly_shape [OF assms(1)] shape_eqD(1,3,5) [OF assms(1)] assms
    unfolding ready_def by simp
qed

lemma unshuffle_shape:
  assumes "shape u = shape v"
  shows "shape (unshuffle_tests u) = shape (unshuffle_tests v)"
proof -
  note eq = shape_eqD [OF assms]
  have one: "case_shape (unshuffle_case c) = case_shape (unshuffle_case d)" if "case_shape c = case_shape d" for c d
    using that case_shape_eqD(2) [OF that] by (simp add: case_shape_def unshuffle_case_def)
  have "map case_shape (map unshuffle_case (ut_cases u)) = map case_shape (map unshuffle_case (ut_cases v))"
  proof (rule nth_equalityI)
    fix i assume "i < length (map case_shape (map unshuffle_case (ut_cases u)))"
    then have i: "i < length (ut_cases v)" using eq(1) by simp
    from one [OF eq(7) [OF i]] show "map case_shape (map unshuffle_case (ut_cases u)) ! i =
        map case_shape (map unshuffle_case (ut_cases v)) ! i" using i eq(1) by simp
  qed (simp add: eq(1))
  moreover have "ut_catch_exceptions u = ut_catch_exceptions v" "ut_null_delete_returns u = ut_null_delete_returns v"
    using assms by (simp_all add: shape_def)
  ultimately show ?thesis using eq(1-6) by (simp add: shape_def unshuffle_tests_def)
qed

lemma unshuffle_registered:
  assumes "registered u"
  shows "shape (unshuffle_tests u) = shape u"
proof -
  have "unshuffle_case c = c" if "c \<in> set (ut_cases u)" for c
    using assms that by (simp add: registered_def unshuffle_case_def)
  then have "map unshuffle_case (ut_cases u) = ut_cases u" by (rule map_idI)
  moreover have "ut_indices u = map int [0..<length (ut_cases u)]" using assms by (simp add: registered_def)
  ultimately show ?thesis by (simp add: shape_def unshuffle_tests_def)
qed

lemma unshuffle_failed [simp]: "unit_failed (unshuffle_tests u) = unit_failed u"
proof -
  have same: "tc_should_run (unshuffle_case c) = tc_should_run c" "case_failed (unshuffle_case c) = case_failed c" for c
    by (simp_all add: unshuffle_case_def case_failed_def failed_test_count_def)
  have "count_if P (map unshuffle_case cs) = count_if (\<lambda>c. P (unshuffle_case c)) cs" for P cs
    by (simp add: count_if_def fold_map comp_def)
  then show ?thesis by (simp add: unit_failed_def unshuffle_tests_def failed_test_case_count_def same)
qed

subsection \<open>Operations that come back\<close>

definition comes_back where
  "comes_back f s \<longleftrightarrow> (\<forall>u. shape u = s \<longrightarrow>
     (\<exists>u' r. f u = (u', r) \<and> (r = Returned \<or> (\<exists>e. r = Threw e \<and> e \<noteq> Gtest_failure)) \<and> shape u' = s))"

lemma comes_backE:
  assumes "comes_back f s" and "shape u = s"
  obtains u' r where "f u = (u', r)" and "r = Returned \<or> (\<exists>e. r = Threw e \<and> e \<noteq> Gtest_failure)" and "shape u' = s"
  using assms unfolding comes_back_def by blast

lemma tries_comes_back:
  assumes "tries f s L"
  shows "comes_back f s"
  unfolding comes_back_def
proof (intro allI impI)
  fix u assume "shape u = s"
  with assms obtain u' r where "f u = (u', r)" "r = Returned \<or> (\<exists>e. r = Threw e \<and> e \<noteq> Gtest_failure)" "shape u' = s"
    unfolding tries_def by blast
  then show "\<exists>u' r. f u = (u', r) \<and> (r = Returned \<or> (\<exists>e. r = Threw e \<and> e \<noteq> Gtest_failure)) \<and> shape u' = s" by blast
qed

lemma does_comes_back:
  assumes "does f s L"
  shows "comes_back f s"
  unfolding comes_back_def
proof (intro allI impI)
  fix u assume "shape u = s"
  with assms obtain u' where "f u = (u', Returned)" "shape u' = s" by (rule doesE)
  then show "\<exists>u' r. f u = (u', r) \<and> (r = Returned \<or> (\<exists>e. r = Threw e \<and> e \<noteq> Gtest_failure)) \<and> shape u' = s" by blast
qed

lemma comes_back_then:
  assumes "comes_back f s" and "comes_back g s"
  shows "comes_back (and_then f g) s"
  unfolding comes_back_def
proof (intro allI impI)
  fix u assume "shape u = s"
  with assms(1) obtain u1 r where f: "f u = (u1, r)" "r = Returned \<or> (\<exists>e. r = Threw e \<and> e \<noteq> Gtest_failure)" "shape u1 = s"
    unfolding comes_back_def by blast
  show "\<exists>u' r. and_then f g u = (u', r) \<and> (r = Returned \<or> (\<exists>e. r = Threw e \<and> e \<noteq> Gtest_failure)) \<and> shape u' = s"
  proof (cases "r = Returned")
    case True
    with assms(2) f show ?thesis by (simp add: comes_back_def and_then_def)
  next
    case False
    with f(2) obtain e where "r = Threw e" by blast
    with f show ?thesis by (simp add: and_then_def)
  qed
qed

lemma comes_back_plainly: "(\<And>u. shape u = s \<Longrightarrow> shape (f u) = s) \<Longrightarrow> comes_back (plainly f) s"
  by (simp add: comes_back_def plainly_def)

lemma comes_back_if: "comes_back f s \<Longrightarrow> comes_back (\<lambda>u. if b u then f u else (u, Returned)) s"
  by (simp add: comes_back_def)

lemma comes_back_each: "(\<And>k. comes_back (f k) s) \<Longrightarrow> comes_back (run_each f ks) s"
  by (induction ks) (simp_all add: comes_back_then comes_back_plainly)

lemma comes_back_at: "(\<And>u. shape u = s \<Longrightarrow> f u = g u) \<Longrightarrow> comes_back g s \<Longrightarrow> comes_back f s"
  by (simp add: comes_back_def)

definition runnable :: "user_code \<Rightarrow> unit_test \<Rightarrow> bool" where
  "runnable user u \<longleftrightarrow> orderly u \<and> lenient (shape u) \<and> survives_creation user (shape u)"

lemma comes_back_cases:
  assumes "runnable user u" and "well_behaved user"
  shows "comes_back (run_cases user file_macro clock) (shape u)"
proof (rule comes_back_at)
  fix v assume v: "shape v = shape u"
  show "run_cases user file_macro clock v = run_each (\<lambda>k u. case get_mutable_test_case (int k) u of
         None \<Rightarrow> (u, Crashed Null_dereference)
       | Some i \<Rightarrow> test_case_run user file_macro clock i u) [0..<length (ut_cases u)] v"
    using shape_eqD(1) [OF v] by (simp add: run_cases_def)
qed (use assms in \<open>auto simp: runnable_def intro: does_comes_back does_run_cases\<close>)

subsection \<open>One iteration\<close>

definition after_shuffle ::
  "user_code \<Rightarrow> string \<Rightarrow> (nat \<Rightarrow> int) \<Rightarrow> bool \<Rightarrow> int \<Rightarrow> int \<Rightarrow> unit_test \<Rightarrow> unit_test \<times> outcome" where
  "after_shuffle user file_macro clock has_tests_to_run i start =
     and_then (plainly (notify (Test_iteration_start i)))
       (and_then (if has_tests_to_run
           then and_then (plainly (notify Environments_set_up_start))
             (and_then (\<lambda>u. run_each (\<lambda>e. call_user user file_macro (Set_up_environment e)) [0..<ut_environments u] u)
               (and_then (plainly (notify Environments_set_up_end))
                 (and_then (\<lambda>u. if \<not> has_fatal_failure (current_test_result u)
                     then run_cases user file_macro clock u else (u, Returned))
                   (and_then (plainly (notify Environments_tear_down_start))
                     (and_then (\<lambda>u. run_each (\<lambda>e. call_user user file_macro (Tear_down_environment e))
                         (rev [0..<ut_environments u]) u)
                       (plainly (notify Environments_tear_down_end)))))))
           else plainly id)
         (plainly (\<lambda>u. let (now, u) = get_time clock u
           in notify (Test_iteration_end i) (u\<lparr>ut_elapsed_time := now - start\<rparr>))))"

lemma run_iteration_eq:
  "run_iteration user file_macro clock has_tests i u =
     (let (start, u) = get_time clock (clear_non_ad_hoc_test_result u)
      in and_then (\<lambda>u. if has_tests \<and> fl_shuffle (ut_flags u)
           then (case shuffle_tests (u\<lparr>ut_random := word_of_int (ut_random_seed u)\<rparr>) of
               Inl f \<Rightarrow> (u, Crashed f) | Inr u \<Rightarrow> (u, Returned))
           else (u, Returned)) (after_shuffle user file_macro clock has_tests i start) u)"
  by (simp only: run_iteration_def after_shuffle_def)

lemma and_then_Returned: "f u = (w, Returned) \<Longrightarrow> and_then f g u = g w"
  by (simp add: and_then_def)

lemma comes_back_environments:
  assumes "\<And>k. comes_back (f k) (shape u)"
  shows "comes_back (\<lambda>v. run_each f (g (ut_environments v)) v) (shape u)"
proof (rule comes_back_at)
  fix v assume "shape v = shape u"
  then have "ut_environments v = ut_environments u" by (rule shape_eqD(6))
  then show "run_each f (g (ut_environments v)) v = run_each f (g (ut_environments u)) v" by (simp only:)
qed (rule comes_back_each, rule assms)

lemma after_shuffle_comes_back:
  assumes "runnable user u" and "well_behaved user"
  shows "comes_back (after_shuffle user file_macro clock has_tests i start) (shape u)"
proof -
  let ?s = "shape u"
  have "lenient ?s" using assms(1) by (simp add: runnable_def)
  note call = tries_comes_back [OF tries_call_user [OF this assms(2)]]
  have up: "comes_back (\<lambda>v. run_each (\<lambda>e. call_user user file_macro (Set_up_environment e)) [0..<ut_environments v] v) ?s"
    and down: "comes_back (\<lambda>v. run_each (\<lambda>e. call_user user file_macro (Tear_down_environment e)) (rev [0..<ut_environments v]) v) ?s"
    by (rule comes_back_environments [where g = "\<lambda>n. [0..<n]"], rule call,
      rule comes_back_environments [where g = "\<lambda>n. rev [0..<n]"], rule call)
  have quiet: "comes_back (plainly (notify e)) ?s" for e by (rule comes_back_plainly) simp
  have finish: "comes_back (plainly (\<lambda>u. let (now, u) = get_time clock u
      in notify (Test_iteration_end i) (u\<lparr>ut_elapsed_time := now - start\<rparr>))) ?s"
  proof (rule comes_back_plainly)
    fix v assume v: "shape v = ?s"
    have "shape (x\<lparr>ut_elapsed_time := t\<rparr>) = shape x" for x t by (simp add: shape_def)
    then have "shape (let (now, u) = get_time clock v in notify (Test_iteration_end i) (u\<lparr>ut_elapsed_time := now - start\<rparr>)) =
        shape (snd (get_time clock v))" by (simp add: case_prod_beta)
    also have "\<dots> = ?s" using v by (simp only: get_time_keeps)
    finally show "shape (let (now, u) = get_time clock v in notify (Test_iteration_end i) (u\<lparr>ut_elapsed_time := now - start\<rparr>)) = ?s" .
  qed
  have none: "comes_back (plainly id) ?s" by (rule comes_back_plainly) simp
  show ?thesis
  proof (cases has_tests)
    case True
    show ?thesis unfolding after_shuffle_def if_P [OF True]
      by (intro comes_back_then quiet up down finish comes_back_if comes_back_cases [OF assms])
  next
    case False
    show ?thesis unfolding after_shuffle_def if_not_P [OF False] by (intro comes_back_then quiet finish none)
  qed
qed

lemma shuffled_runnable:
  assumes "ready user v"
  shows "\<exists>w. shuffle_tests v = Inr w \<and> runnable user w \<and> shape (unshuffle_tests w) = shape v"
proof -
  note v = readyD [OF assms]
  obtain w where w: "shuffle_tests v = Inr w" "orderly w"
    using shuffle_tests_orderly [OF v(1,2,5,6)] by blast
  obtain w' where w': "shuffle_tests v = Inr w'" "unshuffle_tests w' = v\<lparr>ut_random := ut_random w'\<rparr>"
    using shuffle_tests_order [OF v(1,5,6)] by metis
  have restored: "unshuffle_tests w = v\<lparr>ut_random := ut_random w\<rparr>" using w(1) w' by simp
  have "ut_flags w = ut_flags (unshuffle_tests w)" "ut_catch_exceptions w = ut_catch_exceptions (unshuffle_tests w)"
    "ut_null_delete_returns w = ut_null_delete_returns (unshuffle_tests w)"
    by (simp_all add: unshuffle_tests_def)
  then have "lenient (shape w)" "survives_creation user (shape w)"
    using v(3,4) unfolding restored lenient_shape survives_shape by simp_all
  moreover have "shape (unshuffle_tests w) = shape v" unfolding restored by (simp add: shape_def)
  ultimately show ?thesis using w by (simp add: runnable_def)
qed

lemma run_iteration_comes_back:
  assumes "ready user u" and "well_behaved user"
  shows "\<exists>u' r. run_iteration user file_macro clock has_tests i u = (u', r) \<and>
    (r = Returned \<or> (\<exists>e. r = Threw e \<and> e \<noteq> Gtest_failure)) \<and> lenient (shape u') \<and> shape (unshuffle_tests u') = shape u"
proof -
  obtain start u1 where u1: "get_time clock (clear_non_ad_hoc_test_result u) = (start, u1)" by fastforce
  have "shape (clear_non_ad_hoc_test_result u) = shape u"
    by (simp add: shape_def clear_non_ad_hoc_test_result_def clear_case_result_def case_shape_def comp_def)
  then have s1: "shape u1 = shape u" using get_time_keeps(1) [of clock "clear_non_ad_hoc_test_result u"] u1 by simp
  define v where "v = u1\<lparr>ut_random := word_of_int (ut_random_seed u1)\<rparr>"
  have sv: "shape v = shape u" using s1 by (simp add: v_def shape_def)
  obtain w where w: "(if has_tests \<and> fl_shuffle (ut_flags u1) then shuffle_tests v else Inr u1) = Inr w"
      "runnable user w" "shape (unshuffle_tests w) = shape u"
  proof (cases "has_tests \<and> fl_shuffle (ut_flags u1)")
    case True
    then show thesis using that shuffled_runnable [OF ready_same [OF sv assms(1)]] sv by auto
  next
    case False
    note r1 = readyD [OF ready_same [OF s1 assms(1)]]
    from False show thesis
      by (intro that [of u1]) (use r1(2-4) unshuffle_registered [OF r1(1)] s1 in \<open>auto simp: runnable_def\<close>)
  qed
  have "run_iteration user file_macro clock has_tests i u = after_shuffle user file_macro clock has_tests i start w"
    unfolding run_iteration_eq u1 Let_def prod.case v_def [symmetric]
    by (rule and_then_Returned) (use w(1) in \<open>auto simp: v_def [symmetric] split: if_splits\<close>)
  moreover obtain u' r where r: "after_shuffle user file_macro clock has_tests i start w = (u', r)"
      "r = Returned \<or> (\<exists>e. r = Threw e \<and> e \<noteq> Gtest_failure)" "shape u' = shape w"
    using after_shuffle_comes_back [OF w(2) assms(2)] unfolding comes_back_def by blast
  ultimately show ?thesis
    using unshuffle_shape [OF r(3)] w(2,3) by (simp add: runnable_def)
qed

subsection \<open>All iterations\<close>

lemma run_iterations_come_back:
  assumes "well_behaved user" and "ready user u" and "0 \<le> repeat" and "i \<le> repeat" and "nat (repeat - i) \<le> fuel"
  shows "\<exists>u' r failed'. run_iterations user file_macro clock has_tests repeat fuel i failed u = Some (u', r, failed') \<and>
    (r = Returned \<or> (\<exists>e. r = Threw e \<and> e \<noteq> Gtest_failure)) \<and> lenient (shape u') \<and>
    (r = Returned \<and> \<not> failed' \<longrightarrow> \<not> failed \<and> (i < repeat \<longrightarrow> \<not> unit_failed u'))"
  using assms(2,4,5)
proof (induction fuel arbitrary: i failed u)
  case 0
  then show ?case using assms(3) readyD(3) [OF 0(1)] by (simp add: run_iterations.simps)
next
  case (Suc fuel)
  show ?case
  proof (cases "i = repeat")
    case True
    then show ?thesis using assms(3) readyD(3) [OF Suc.prems(1)] by (simp add: run_iterations.simps)
  next
    case False
    then have i: "i < repeat" "i + 1 \<le> repeat" "nat (repeat - (i + 1)) \<le> fuel" using Suc.prems by simp_all
    obtain u1 r where it: "run_iteration user file_macro clock has_tests i u = (u1, r)"
        "r = Returned \<or> (\<exists>e. r = Threw e \<and> e \<noteq> Gtest_failure)" "lenient (shape u1)" "shape (unshuffle_tests u1) = shape u"
      using run_iteration_comes_back [OF Suc.prems(1) assms(1)] by blast
    show ?thesis
    proof (cases "r = Returned")
      case False
      with it(2) obtain e where "r = Threw e" "e \<noteq> Gtest_failure" by blast
      then show ?thesis using it(1,3) i(1) assms(3) by (simp add: run_iterations.simps [of _ _ _ _ _ "Suc fuel"])
    next
      case True
      define v where "v = unshuffle_tests u1"
      have rv: "ready user v" using ready_same [OF it(4) Suc.prems(1)] by (simp add: v_def)
      obtain seed where seed: "fl_shuffle (ut_flags v) \<Longrightarrow> get_next_random_seed (ut_random_seed v) = Inr seed \<and>
          1 \<le> seed \<and> seed \<le> k_max_random_seed"
        using next_seed_valid readyD(7) [OF rv] by blast
      define w where "w = (if fl_shuffle (ut_flags v) then v\<lparr>ut_random_seed := seed\<rparr> else v)"
      have "ready user (v\<lparr>ut_random_seed := seed\<rparr>)" if "fl_shuffle (ut_flags v)"
        using rv seed [OF that]
        by (simp add: ready_def registered_def orderly_def lenient_shape survives_shape is_death_test_case_def)
      then have rw: "ready user w" using rv by (simp add: w_def)
      have "run_iterations user file_macro clock has_tests repeat (Suc fuel) i failed u =
          run_iterations user file_macro clock has_tests repeat fuel (i + 1) (failed \<or> unit_failed u1) w"
        using it(1) True i(1) assms(3) seed
        by (simp add: run_iterations.simps [of _ _ _ _ _ "Suc fuel"] Let_def w_def v_def)
      moreover have "unit_failed w = unit_failed u1"
        unfolding unshuffle_failed [of u1, symmetric]
        by (simp add: w_def v_def unit_failed_def failed_test_case_count_def del: unshuffle_failed)
      moreover have "run_iterations user file_macro clock has_tests repeat fuel (i + 1) (failed \<or> unit_failed u1) w =
          Some (w, Returned, failed \<or> unit_failed u1)" if "i + 1 = repeat"
        using that assms(3) by (simp add: run_iterations.simps)
      ultimately show ?thesis
        using Suc.IH [OF rw i(2,3), of "failed \<or> unit_failed u1"] i(2) by (cases "i + 1 = repeat") auto
    qed
  qed
qed

end
