(* ===== verification/Runner_Properties.thy ===== *)
theory Runner_Properties
  imports Gtest_Run_Returns
begin

text \<open>
  What the engine of gtest promises about registration, filtering, sharding, shuffling and the run
  of the tests, with the helper lemmas that join its phases.
\<close>

subsection \<open>From registration to the run\<close>

lemma filter_cases_names: "map tc_name (filter_cases flags shards r cs) = map tc_name cs"
proof (induction cs arbitrary: r)
  case (Cons c cs)
  then show ?case unfolding filter_cases_Cons by simp
qed simp

lemma filter_cases_indices:
  "map (\<lambda>c. (tc_indices c, length (tc_tests c))) (filter_cases flags shards r cs) =
   map (\<lambda>c. (tc_indices c, length (tc_tests c))) cs"
proof (induction cs arbitrary: r)
  case (Cons c cs)
  then show ?case unfolding filter_cases_Cons by (simp add: filter_case_tests_length)
qed simp

lemma filter_cases_member:
  assumes "c \<in> set (filter_cases flags shards r cs)"
  shows "\<exists>d \<in> set cs. tc_indices c = tc_indices d \<and> length (tc_tests c) = length (tc_tests d)"
proof -
  let ?g = "\<lambda>c. (tc_indices c, length (tc_tests c))"
  have "?g c \<in> set (map ?g (filter_cases flags shards r cs))" using assms by simp
  then have "?g c \<in> set (map ?g cs)" unfolding filter_cases_indices .
  then show ?thesis by auto
qed

lemma filter_tests_cases:
  assumes "filter_tests env honor u = Inr (v, n)"
  obtains shards where "v = u\<lparr>ut_cases := filter_cases (ut_flags u) shards 0 (ut_cases u)\<rparr>"
  using assms by (auto simp: filter_tests_def Let_def split: if_splits sum.splits)

lemma filter_tests_registered:
  assumes "registered u" and "filter_tests env honor u = Inr (v, n)"
  shows "registered v"
proof -
  from assms(2) obtain shards where v: "v = u\<lparr>ut_cases := filter_cases (ut_flags u) shards 0 (ut_cases u)\<rparr>"
    by (rule filter_tests_cases)
  let ?cs = "filter_cases (ut_flags u) shards 0 (ut_cases u)"
  have name: "tc_name (?cs ! i) = tc_name (ut_cases u ! i)" if "i < length (ut_cases u)" for i
    using that arg_cong [OF filter_cases_names [of "ut_flags u" shards 0 "ut_cases u"], of "\<lambda>xs. xs ! i"]
    by (simp add: filter_cases_length)
  have "tc_indices c = map int [0..<length (tc_tests c)]" if "c \<in> set ?cs" for c
    using filter_cases_member [OF that] assms(1) by (auto simp: registered_def)
  then show ?thesis using assms(1) name
    by (simp add: v registered_def filter_cases_length filter_cases_names is_death_test_case_def)
qed

lemma filter_tests_flags:
  "filter_tests env honor u = Inr (v, n) \<Longrightarrow> ut_flags v = ut_flags u \<and> ut_catch_exceptions v = ut_catch_exceptions u \<and>
   ut_events v = ut_events u \<and> length (ut_cases v) = length (ut_cases u)"
  by (erule filter_tests_cases) (simp add: filter_cases_length)

lemma filter_tests_small:
  assumes "filter_tests env honor u = Inr (v, n)" and "\<forall>c \<in> set (ut_cases u). length (tc_tests c) \<le> m"
  shows "\<forall>c \<in> set (ut_cases v). length (tc_tests c) \<le> m"
proof
  fix c assume c: "c \<in> set (ut_cases v)"
  from assms(1) obtain shards where v: "v = u\<lparr>ut_cases := filter_cases (ut_flags u) shards 0 (ut_cases u)\<rparr>"
    by (rule filter_tests_cases)
  then have "c \<in> set (filter_cases (ut_flags u) shards 0 (ut_cases u))" using c by simp
  from filter_cases_member [OF this] show "length (tc_tests c) \<le> m" using assms(2) by auto
qed

lemma shuffle_tests_keeps:
  "shuffle_tests v = Inr w \<Longrightarrow> ut_flags w = ut_flags v \<and> ut_catch_exceptions w = ut_catch_exceptions v \<and> ut_events w = ut_events v"
  by (auto simp: shuffle_tests_def split: sum.splits)

text \<open>
  However tests are registered, the death test cases come first, the order of the run is the
  identity, the names of the cases differ, and so it is inside the cases.
\<close>

theorem registration_is_ordered:
  "registered (foldl (\<lambda>u (c, n, type, value, fixture). make_and_register_test_info c n type value fixture u)
     (make_unit_test flags) tests)"
proof -
  have "registered (foldl (\<lambda>u (c, n, type, value, fixture). make_and_register_test_info c n type value fixture u) u tests)"
    if "registered u" for u
    using that
    by (induction tests arbitrary: u) (auto simp: make_and_register_test_info_def add_test_info_registered)
  then show ?thesis using registered_initially by blast
qed

text \<open>A program with one test, for the examples.\<close>

definition one_test :: unit_test where
  "one_test = make_and_register_test_info ''A'' ''b'' None None 0 (make_unit_test (default_flags Map.empty))"

lemma one_test_registered: "registered one_test"
  unfolding one_test_def make_and_register_test_info_def
  by (intro add_test_info_registered registered_initially)

lemma one_test_cases:
  "ut_cases one_test = [\<lparr>tc_name = ''A'', tc_type_param = None, tc_tests = [make_test_info ''A'' ''b'' None None 0],
    tc_indices = [0], tc_should_run = False, tc_ad_hoc = empty_result, tc_elapsed_time = 0\<rparr>]"
  by code_simp

lemma one_test_selected: "selected None (default_flags Map.empty) 0 (ut_cases one_test) = [True]"
  by code_simp

text \<open>
  C34: Among the tests that a filter selects, each is selected on exactly one of the shards, and a test
  that is not selected is on none.
\<close>

theorem shards_divide_the_tests:
  assumes "0 < n" and "p < length (selected None flags r cs)"
  shows "if selected None flags r cs ! p
    then \<exists>!s. 0 \<le> s \<and> s < n \<and> selected (Some (n, s)) flags r cs ! p
    else \<forall>s. \<not> selected (Some (n, s)) flags r cs ! p"
  using shards_partition [OF assms] by simp

theorem shards_divide_the_tests_witness:
  "\<exists>!s. 0 \<le> s \<and> s < 3 \<and> selected (Some (3, s)) (default_flags Map.empty) 0 (ut_cases one_test) ! 0"
  using shards_divide_the_tests [of 3 0 "default_flags Map.empty" 0 "ut_cases one_test"]
  by (simp add: one_test_selected)

text \<open>
  C33: A shuffle keeps the death test cases in front, puts all cases and all tests in some order, and
  the inverse operation restores the order of registration, whatever the seed was.
\<close>

theorem shuffle_is_undone:
  assumes "registered u" and "length (ut_cases u) \<le> 2 ^ 31" and "\<forall>c \<in> set (ut_cases u). length (tc_tests c) \<le> 2 ^ 31"
  shows "\<exists>u'. shuffle_tests u = Inr u' \<and>
    mset (take (nat (ut_last_death u + 1)) (ut_indices u')) = mset (map int [0..<nat (ut_last_death u + 1)]) \<and>
    mset (ut_indices u') = mset (map int [0..<length (ut_cases u)]) \<and>
    (\<forall>c \<in> set (ut_cases u'). mset (tc_indices c) = mset (map int [0..<length (tc_tests c)])) \<and>
    unshuffle_tests u' = u\<lparr>ut_random := ut_random u'\<rparr>"
  by (rule shuffle_tests_order [OF assms]) blast

theorem shuffle_is_undone_witness:
  "\<exists>u'. shuffle_tests one_test = Inr u' \<and> unshuffle_tests u' = one_test\<lparr>ut_random := ut_random u'\<rparr>"
  using shuffle_is_undone [OF one_test_registered] by (auto simp: one_test_cases make_test_info_def)

text \<open>
  C27: With \<open>catch_exceptions\<close> on and \<open>break_on_failure\<close> and \<open>throw_on_failure\<close> off, a pass over the cases
  (\<open>run_cases\<close>, which \<open>RunAllTests\<close> begins unless the environments have failed fatally), shuffled or
  not, creates every selected test exactly once and returns, whatever the tests report and whatever
  they throw. A constructor may throw too where the call of \<open>DeleteSelf_\<close> on the null pointer, which
  has no defined behaviour, returns; the tests throw no exception of gtest itself.
\<close>

theorem selected_tests_run_once:
  assumes "registered u" and "length (ut_cases u) \<le> 2 ^ 31" and "\<forall>c \<in> set (ut_cases u). length (tc_tests c) \<le> 2 ^ 31"
    and "filter_tests env honor u = Inr (v, n)" and "w = v \<or> shuffle_tests v = Inr w"
    and "ut_catch_exceptions u" and "\<not> fl_break_on_failure (ut_flags u)" and "\<not> fl_throw_on_failure (ut_flags u)"
    and "well_behaved user" and "constructors_return user \<or> ut_null_delete_returns u"
  shows "\<exists>u'. run_cases user file_macro clock w = (u', Returned) \<and>
    mset (created u') = mset (created u) + mset (selected_tests (ut_cases v))"
proof -
  note flags = filter_tests_flags [OF assms(4)]
  have v: "registered v" "orderly v"
    using filter_tests_registered [OF assms(1,4)] filter_tests_orderly [OF assms(1,4)] by auto
  obtain shards where "v = u\<lparr>ut_cases := filter_cases (ut_flags u) shards 0 (ut_cases u)\<rparr>"
    using assms(4) by (rule filter_tests_cases)
  then have null: "ut_null_delete_returns w = ut_null_delete_returns u"
    using assms(5) by (auto simp: shuffle_tests_def split: sum.splits)
  have "orderly w \<and> selected_tests (ut_cases w) = selected_tests (ut_cases v)"
    using assms(5)
  proof
    assume "shuffle_tests v = Inr w"
    then show ?thesis
      using shuffle_tests_orderly [OF v] flags assms(2) filter_tests_small [OF assms(4,3)] by auto
  qed (use v in simp)
  moreover have "ut_flags w = ut_flags u" "ut_catch_exceptions w = ut_catch_exceptions u" "created w = created u"
    using assms(5) flags shuffle_tests_keeps [of v w] by (auto simp: created_def)
  ultimately show ?thesis
    using run_cases_creates_all [of w user file_macro clock] assms(6-) null by (auto simp: survives_shape)
qed

theorem selected_tests_run_once_witness:
  "\<exists>v n u'. filter_tests Map.empty False (one_test\<lparr>ut_catch_exceptions := True\<rparr>) = Inr (v, n) \<and>
    run_cases (\<lambda>call n. ([Report K_fatal_failure None 1 ''failed''], case call of Create_test _ _ \<Rightarrow> Some Other_exception | _ \<Rightarrow> None))
      ''gtest.cc'' int v = (u', Returned) \<and> mset (created u') = {#(''A'', ''b'')#}"
proof -
  let ?user = "\<lambda>call n. ([Report K_fatal_failure None 1 ''failed''], case call of Create_test _ _ \<Rightarrow> Some Other_exception | _ \<Rightarrow> None)"
  let ?u = "one_test\<lparr>ut_catch_exceptions := True\<rparr>"
  obtain v n where v: "filter_tests Map.empty False ?u = Inr (v, n)" by (simp add: filter_tests_def Let_def)
  then have sel: "selected_tests (ut_cases v) = selected_tests (filter_cases (ut_flags one_test) None 0 (ut_cases one_test))"
    by (auto simp: filter_tests_def Let_def)
  have one: "selected_tests (filter_cases (ut_flags one_test) None 0 (ut_cases one_test)) = [(''A'', ''b'')]"
    and flags: "\<not> fl_break_on_failure (ut_flags one_test)" "\<not> fl_throw_on_failure (ut_flags one_test)"
      "ut_null_delete_returns one_test"
    and none: "created one_test = []"
    by code_simp+
  have reg: "registered ?u" using one_test_registered by (simp add: registered_def)
  have user: "well_behaved ?user" by (auto simp: well_behaved_def split: user_call.split)
  have "\<exists>u'. run_cases ?user ''gtest.cc'' int v = (u', Returned) \<and>
      mset (created u') = mset (created ?u) + mset (selected_tests (ut_cases v))"
    by (rule selected_tests_run_once [OF reg _ _ v disjI1 [OF refl] _ _ _ user])
      (use flags in \<open>simp_all add: one_test_cases make_test_info_def\<close>)
  moreover have "created ?u = []" using none by (simp add: created_def)
  ultimately show ?thesis using v sel one by auto
qed

subsection \<open>The end of a run\<close>



lemma ready_seed:
  assumes "ready user u" and "fl_shuffle (ut_flags u) \<longrightarrow> 1 \<le> seed \<and> seed \<le> k_max_random_seed"
  shows "ready user (u\<lparr>ut_random_seed := seed\<rparr>)"
  using assms by (simp add: ready_def registered_def orderly_def lenient_shape survives_shape is_death_test_case_def)






subsection \<open>Recorded properties\<close>

text \<open>
  Whatever properties are recorded in a result, each key stands there once, with the value that was
  recorded last, and the keys that the XML report reserves for the element never do.
\<close>

theorem properties_keep_last_value:
  assumes "get_reserved_attributes_for_element e = Inr reserved"
  shows "\<exists>r. foldl (\<lambda>r q. case r of Inl f \<Rightarrow> Inl f | Inr r \<Rightarrow> map_sum id fst (record_property e q r)) (Inr empty_result) qs = Inr r \<and>
    distinct (map fst (rs_properties r)) \<and> set (map fst (rs_properties r)) \<inter> set reserved = {} \<and>
    map_of (rs_properties r) = map_of (rev (filter (\<lambda>q. fst q \<notin> set reserved) qs))"
proof (induction qs rule: rev_induct)
  case Nil
  then show ?case by (simp add: empty_result_def)
next
  case (snoc q qs)
  then obtain r where r: "foldl (\<lambda>r q. case r of Inl f \<Rightarrow> Inl f | Inr r \<Rightarrow> map_sum id fst (record_property e q r)) (Inr empty_result) qs = Inr r"
      "properties_ok reserved (rs_properties r)"
      "map_of (rs_properties r) = map_of (rev (filter (\<lambda>q. fst q \<notin> set reserved) qs))"
    by (auto simp: properties_ok_def)
  from assms r(2) obtain r' failure where "record_property e q r = Inr (r', failure)"
      "properties_ok reserved (rs_properties r')"
      "map_of (rs_properties r') = (if fst q \<in> set reserved then map_of (rs_properties r) else (map_of (rs_properties r))(fst q \<mapsto> snd q))"
    by (rule record_property_ok)
  then show ?case using r by (auto simp: properties_ok_def map_add_def fun_eq_iff split: option.split)
qed

theorem properties_keep_last_value_witness:
  "\<exists>r. foldl (\<lambda>r q. case r of Inl f \<Rightarrow> Inl f | Inr r \<Rightarrow> map_sum id fst (record_property ''testcase'' q r)) (Inr empty_result)
      [(''k'', ''1''), (''name'', ''x''), (''k'', ''2'')] = Inr r \<and> map_of (rs_properties r) = [''k'' \<mapsto> ''2'']"
proof -
  have "get_reserved_attributes_for_element ''testcase'' = Inr k_reserved_test_case_attributes"
    by (simp add: get_reserved_attributes_for_element_def)
  from properties_keep_last_value [OF this, of "[(''k'', ''1''), (''name'', ''x''), (''k'', ''2'')]"]
  show ?thesis by (simp add: k_reserved_test_case_attributes_def) blast
qed

end
