(* ===== verification/Gmock_Cardinalities.thy ===== *)
theory Gmock_Cardinalities
  imports Gtest_Base
begin

text \<open>
  How often a mocked function is expected to be called: \<open>gmock-cardinalities.h\<close> and
  \<open>gmock-cardinalities.cc\<close> of the vendored gmock. A cardinality is a record of what its virtual
  functions do, so that a cardinality of the user's own is a value of the same type; the locale
  \<open>call_bounds\<close> holds what an expectation relies on, and every cardinality that \<open>Between\<close> makes
  is an interpretation of it.
\<close>

named_theorems mock_simps \<open>unfolding rules of gmock's small operations\<close>

definition int_max :: int where
  "int_max = 2147483647"

record cardinality =
  cd_lower_bound :: int
  cd_upper_bound :: int
  cd_satisfied :: "int \<Rightarrow> bool"
  cd_saturated :: "int \<Rightarrow> bool"
  cd_describe :: string

definition over_saturated_by :: "cardinality \<Rightarrow> int \<Rightarrow> bool" where
  "over_saturated_by c call_count \<longleftrightarrow> cd_saturated c call_count \<and> \<not> cd_satisfied c call_count"

definition format_times :: "int \<Rightarrow> string" where
  "format_times n =
     (if n = 1 then ''once'' else if n = 2 then ''twice'' else string_of_int n @ '' times'')"

definition describe_between :: "int \<Rightarrow> int \<Rightarrow> string" where
  "describe_between least most =
     (if least = 0 then
        (if most = 0 then ''never called''
         else if most = int_max then ''called any number of times''
         else ''called at most '' @ format_times most)
      else if least = most then ''called '' @ format_times least
      else if most = int_max then ''called at least '' @ format_times least
      else ''called between '' @ string_of_int least @ '' and '' @ string_of_int most @ '' times'')"

definition describe_actual_call_count :: "int \<Rightarrow> string" where
  "describe_actual_call_count actual_call_count =
     (if 0 < actual_call_count then ''called '' @ format_times actual_call_count else ''never called'')"

text \<open>
  The constructor of \<open>BetweenCardinalityImpl\<close>: the cardinality, and the line and the message of the
  failure that it reports when the bounds are not a range.
\<close>

definition between_problem :: "int \<Rightarrow> int \<Rightarrow> (int \<times> string) option" where
  "between_problem least most =
     (if least < 0 then Some (59, ''The invocation lower bound must be >= 0, '' @
        ''but is actually '' @ string_of_int least @ ''.'')
      else if most < 0 then Some (63, ''The invocation upper bound must be >= 0, '' @
        ''but is actually '' @ string_of_int most @ ''.'')
      else if most < least then Some (68, ''The invocation upper bound ('' @ string_of_int most @
        '') must be >= the invocation lower bound ('' @ string_of_int least @ '').'')
      else None)"

type_synonym made_cardinality = "cardinality \<times> (int \<times> string) option"

definition between_impl :: "int \<Rightarrow> int \<Rightarrow> cardinality" where
  "between_impl min_arg max_arg =
     (let least = (if 0 \<le> min_arg then min_arg else 0);
          most = (if least \<le> max_arg then max_arg else least)
      in \<lparr>cd_lower_bound = least, cd_upper_bound = most,
          cd_satisfied = (\<lambda>call_count. least \<le> call_count \<and> call_count \<le> most),
          cd_saturated = (\<lambda>call_count. most \<le> call_count),
          cd_describe = describe_between least most\<rparr>)"

definition between_calls :: "int \<Rightarrow> int \<Rightarrow> made_cardinality" where
  "between_calls least most = (between_impl least most, between_problem least most)"

definition at_least :: "int \<Rightarrow> made_cardinality" where
  "at_least n = between_calls n int_max"

definition at_most :: "int \<Rightarrow> made_cardinality" where
  "at_most n = between_calls 0 n"

definition any_number :: "made_cardinality" where
  "any_number = at_least 0"

definition exactly_calls :: "int \<Rightarrow> made_cardinality" where
  "exactly_calls n = between_calls n n"

lemmas cardinality_defs =
  at_least_def at_most_def any_number_def exactly_calls_def between_calls_def int_max_def

subsection \<open>What an expectation relies on\<close>

text \<open>
  A count once too large stays too large, the bounds are estimates of the satisfying counts, and a
  count that is not yet saturated can be raised by one without missing a satisfying count.
\<close>

locale call_bounds =
  fixes c :: cardinality
  assumes saturated_mono: "cd_saturated c n \<Longrightarrow> n \<le> m \<Longrightarrow> cd_saturated c m"
    and satisfied_le: "cd_satisfied c n \<Longrightarrow> n \<le> cd_upper_bound c"
    and satisfied_ge: "cd_satisfied c n \<Longrightarrow> cd_lower_bound c \<le> n"
    and saturated_iff: "cd_saturated c n \<longleftrightarrow> (\<forall>m > n. \<not> cd_satisfied c m)"
begin

lemma over_saturated_mono:
  assumes "over_saturated_by c n" and "n \<le> m"
  shows "over_saturated_by c m"
proof (cases "n = m")
  case False
  then have "n < m"
    using assms(2) by simp
  then show ?thesis
    using assms saturated_mono [of n m] saturated_iff [of n] by (auto simp: over_saturated_by_def)
qed (use assms in simp)

lemma excessive_call_over_saturates: "cd_saturated c n \<Longrightarrow> over_saturated_by c (n + 1)"
  using saturated_mono [of n "n + 1"] saturated_iff [of n] by (simp add: over_saturated_by_def)

lemma unsaturated_reaches_satisfied: "\<not> cd_saturated c n \<Longrightarrow> \<exists>m > n. cd_satisfied c m"
  using saturated_iff by blast

end

lemma between_satisfied [simp]:
  "cd_satisfied (between_impl a b) n \<longleftrightarrow> max 0 a \<le> n \<and> n \<le> max (max 0 a) b"
  by (simp add: between_impl_def Let_def max_def)

lemma between_saturated [simp]: "cd_saturated (between_impl a b) n \<longleftrightarrow> max (max 0 a) b \<le> n"
  by (simp add: between_impl_def Let_def max_def)

lemma between_bounds [simp]:
  "cd_lower_bound (between_impl a b) = max 0 a"
  "cd_upper_bound (between_impl a b) = max (max 0 a) b"
  by (simp_all add: between_impl_def Let_def max_def)

interpretation between: call_bounds "between_impl a b" for a b
proof
  show "cd_saturated (between_impl a b) n \<longleftrightarrow> (\<forall>m > n. \<not> cd_satisfied (between_impl a b) m)" for n
  proof
    assume "\<forall>m > n. \<not> cd_satisfied (between_impl a b) m"
    then show "cd_saturated (between_impl a b) n"
      using not_le_imp_less by (fastforce dest: spec [of _ "max (max 0 a) b"])
  qed auto
qed auto

lemma between_over_saturated [simp]:
  "over_saturated_by (between_impl a b) n \<longleftrightarrow> max (max 0 a) b < n"
  by (auto simp: over_saturated_by_def)

lemma between_problem_iff: "between_problem a b = None \<longleftrightarrow> 0 \<le> a \<and> a \<le> b"
  by (auto simp: between_problem_def)

end
