(* ===== verification/Gmock_Actions.thy ===== *)
theory Gmock_Actions
  imports Gmock_Cardinalities Gtest_Printers Unordered_Elements
begin

text \<open>
  What a mocked function does when it is called: \<open>gmock-actions.h\<close>, \<open>gmock-more-actions.h\<close> and the
  composition of \<open>gmock-generated-actions.h\<close>; and the matching of argument tuples of
  \<open>gmock-matchers.h\<close>. Arguments and results of all functions are values of one type \<open>'v\<close>. An
  action acts on the memory of the test, of type \<open>'m\<close>: what it does through a pointer is a
  function of the memory, given where the source has the pointer. \<open>Action_null\<close> is an action
  without an implementation, which stands for \<open>DoDefault()\<close>.
\<close>

datatype 'v mock_result = Returned_value "'v option" | Thrown string | Aborted_with string

datatype ('v, 'm) mock_action = Action_null | Action_impl "'v list \<Rightarrow> 'm \<Rightarrow> 'm \<times> 'v mock_result"

fun is_do_default :: "('v, 'm) mock_action \<Rightarrow> bool" where
  "is_do_default Action_null = True"
| "is_do_default (Action_impl _) = False"

text \<open>\<open>Action::Perform\<close>; a failed \<open>Assert\<close> reports a fatal failure and aborts.\<close>

fun perform_action :: "('v, 'm) mock_action \<Rightarrow> 'v list \<Rightarrow> 'm \<Rightarrow> 'm \<times> 'v mock_result" where
  "perform_action Action_null args m =
     (m, Aborted_with (''You are using DoDefault() inside a composite action like '' @
       ''DoAll() or WithArgs().  This is not supported for technical '' @
       ''reasons.  Please instead spell out the default action, or '' @
       ''assign the default action to an Action variable and use '' @
       ''the variable in various places.''))"
| "perform_action (Action_impl f) args m = f args m"

subsection \<open>Actions\<close>

definition do_default :: "('v, 'm) mock_action" where
  "do_default = Action_null"

definition return_value :: "'v \<Rightarrow> ('v, 'm) mock_action" where
  "return_value v = Action_impl (\<lambda>_ m. (m, Returned_value (Some v)))"

definition return_void :: "('v, 'm) mock_action" where
  "return_void = Action_impl (\<lambda>_ m. (m, Returned_value None))"

definition return_arg :: "nat \<Rightarrow> ('v, 'm) mock_action" where
  "return_arg k = Action_impl (\<lambda>args m. (m, Returned_value (Some (args ! k))))"

definition return_pointee :: "('m \<Rightarrow> 'v) \<Rightarrow> ('v, 'm) mock_action" where
  "return_pointee pointer = Action_impl (\<lambda>_ m. (m, Returned_value (Some (pointer m))))"

definition assign_value :: "('v \<Rightarrow> 'm \<Rightarrow> 'm) \<Rightarrow> 'v \<Rightarrow> ('v, 'm) mock_action" where
  "assign_value ptr val = Action_impl (\<lambda>_ m. (ptr val m, Returned_value None))"

definition set_errno_and_return :: "(int \<Rightarrow> 'm \<Rightarrow> 'm) \<Rightarrow> int \<Rightarrow> 'v \<Rightarrow> ('v, 'm) mock_action" where
  "set_errno_and_return set_errno errval result =
     Action_impl (\<lambda>_ m. (set_errno errval m, Returned_value (Some result)))"

definition set_arg_pointee :: "('v \<Rightarrow> 'v \<Rightarrow> 'm \<Rightarrow> 'm) \<Rightarrow> nat \<Rightarrow> 'v \<Rightarrow> ('v, 'm) mock_action" where
  "set_arg_pointee store n x = Action_impl (\<lambda>args m. (store (args ! n) x m, Returned_value None))"

definition save_arg :: "('v \<Rightarrow> 'm \<Rightarrow> 'm) \<Rightarrow> nat \<Rightarrow> ('v, 'm) mock_action" where
  "save_arg pointer k = Action_impl (\<lambda>args m. (pointer (args ! k) m, Returned_value None))"

definition save_arg_pointee :: "('v \<Rightarrow> 'm \<Rightarrow> 'm) \<Rightarrow> ('v \<Rightarrow> 'm \<Rightarrow> 'v) \<Rightarrow> nat \<Rightarrow> ('v, 'm) mock_action" where
  "save_arg_pointee pointer load k =
     Action_impl (\<lambda>args m. (pointer (load (args ! k) m) m, Returned_value None))"

definition invoke_without_args :: "('m \<Rightarrow> 'm \<times> 'v mock_result) \<Rightarrow> ('v, 'm) mock_action" where
  "invoke_without_args function_impl = Action_impl (\<lambda>_. function_impl)"

definition throw_exception :: "string \<Rightarrow> ('v, 'm) mock_action" where
  "throw_exception exception = Action_impl (\<lambda>_ m. (m, Thrown exception))"

fun drop_result :: "'v mock_result \<Rightarrow> 'v mock_result" where
  "drop_result (Returned_value _) = Returned_value None"
| "drop_result (Thrown e) = Thrown e"
| "drop_result (Aborted_with e) = Aborted_with e"

definition ignore_result :: "('v, 'm) mock_action \<Rightarrow> ('v, 'm) mock_action" where
  "ignore_result a = Action_impl (\<lambda>args m. map_prod id drop_result (perform_action a args m))"

text \<open>\<open>DoBothAction\<close>; \<open>DoAll\<close> nests it to the right.\<close>

definition do_both :: "('v, 'm) mock_action \<Rightarrow> ('v, 'm) mock_action \<Rightarrow> ('v, 'm) mock_action" where
  "do_both action1 action2 = Action_impl (\<lambda>args m.
     (case perform_action action1 args m of
        (m, Returned_value _) \<Rightarrow> perform_action action2 args m
      | (m, r) \<Rightarrow> (m, r)))"

fun do_all :: "('v, 'm) mock_action list \<Rightarrow> ('v, 'm) mock_action" where
  "do_all [] = Action_null"
| "do_all [a] = a"
| "do_all (a # as) = do_both a (do_all as)"

definition with_args :: "nat list \<Rightarrow> ('v, 'm) mock_action \<Rightarrow> ('v, 'm) mock_action" where
  "with_args ks a = Action_impl (\<lambda>args. perform_action a (map ((!) args) ks))"

subsection \<open>Tuples of arguments\<close>

definition print_if_not_empty :: "string \<Rightarrow> string" where
  "print_if_not_empty explanation = (if explanation \<noteq> [] then '', '' @ explanation else [])"

text \<open>\<open>A<T>()\<close>, which matches anything.\<close>

definition any_matcher :: "'a matcher" where
  "any_matcher = \<lparr>mt_match_and_explain = (\<lambda>_. (True, [])), mt_describe_to = ''is anything'',
     mt_describe_negation_to = ''never matches''\<rparr>"

fun prefix_matches :: "'v matcher list \<Rightarrow> 'v list \<Rightarrow> nat \<Rightarrow> bool" where
  "prefix_matches ms vs 0 = True"
| "prefix_matches ms vs (Suc n) = (prefix_matches ms vs n \<and> matches (ms ! n) (vs ! n))"

definition tuple_matches :: "'v matcher list \<Rightarrow> 'v list \<Rightarrow> bool" where
  "tuple_matches ms vs = prefix_matches ms vs (length vs)"

fun explain_prefix_failures :: "('v \<Rightarrow> string) \<Rightarrow> 'v matcher list \<Rightarrow> 'v list \<Rightarrow> nat \<Rightarrow> string" where
  "explain_prefix_failures pr ms vs 0 = []"
| "explain_prefix_failures pr ms vs (Suc n) =
     explain_prefix_failures pr ms vs n @
     (case mt_match_and_explain (ms ! n) (vs ! n) of (matched, listened) \<Rightarrow>
        if matched then []
        else ''  Expected arg #'' @ string_of_nat n @ '': '' @ mt_describe_to (ms ! n) @
          newline @ ''           Actual: '' @ pr (vs ! n) @ print_if_not_empty listened @ newline)"

definition explain_match_failure_tuple :: "('v \<Rightarrow> string) \<Rightarrow> 'v matcher list \<Rightarrow> 'v list \<Rightarrow> string" where
  "explain_match_failure_tuple pr ms vs = explain_prefix_failures pr ms vs (length ms)"

lemma any_matcher_matches [simp]: "matches any_matcher x"
  by (simp add: any_matcher_def matches_def)

lemma prefix_matches_iff: "prefix_matches ms vs n \<longleftrightarrow> (\<forall>i < n. matches (ms ! i) (vs ! i))"
  by (induction n) (auto simp: less_Suc_eq)

lemma tuple_matches_iff: "length ms = length vs \<Longrightarrow> tuple_matches ms vs \<longleftrightarrow> list_all2 matches ms vs"
  by (auto simp: tuple_matches_def prefix_matches_iff list_all2_conv_all_nth)

lemma tuple_explained_iff:
  "length ms = length vs \<Longrightarrow> explain_match_failure_tuple pr ms vs = [] \<longleftrightarrow> tuple_matches ms vs"
proof -
  have "explain_prefix_failures pr ms vs n = [] \<longleftrightarrow> prefix_matches ms vs n" for n
    by (induction n) (auto simp: matches_def split: prod.split)
  then show "length ms = length vs \<Longrightarrow> ?thesis"
    by (simp add: explain_match_failure_tuple_def tuple_matches_def)
qed

subsection \<open>What composed actions do\<close>

lemma perform_do_both:
  "perform_action (do_both a b) args m =
     (case perform_action a args m of
        (m, Returned_value _) \<Rightarrow> perform_action b args m
      | (m, r) \<Rightarrow> (m, r))"
  by (simp add: do_both_def)

text \<open>Actions that return are performed in order, and the last one gives the result.\<close>

fun run_actions :: "('v, 'm) mock_action list \<Rightarrow> 'v list \<Rightarrow> 'm \<Rightarrow> 'm" where
  "run_actions [] args m = m"
| "run_actions (a # as) args m = run_actions as args (fst (perform_action a args m))"

definition returns :: "('v, 'm) mock_action \<Rightarrow> bool" where
  "returns a \<longleftrightarrow> (\<forall>args m. \<exists>r. snd (perform_action a args m) = Returned_value r)"

lemma returnsE:
  assumes "returns a"
  obtains m' r where "perform_action a args m = (m', Returned_value r)"
  using assms unfolding returns_def by (metis prod.collapse)

lemma perform_do_all:
  "list_all returns as \<Longrightarrow>
   perform_action (do_all (as @ [a])) args m = perform_action a args (run_actions as args m)"
proof (induction as arbitrary: m)
  case (Cons b as)
  obtain m' r where b: "perform_action b args m = (m', Returned_value r)"
    using Cons.prems returnsE [of b args m] by auto
  have "do_all ((b # as) @ [a]) = do_both b (do_all (as @ [a]))"
    by (cases "as @ [a]") simp_all
  then show ?case
    using Cons by (simp add: perform_do_both b)
qed simp

text \<open>A composite action that contains \<open>DoDefault()\<close> aborts.\<close>

lemma do_default_inside_aborts:
  "list_all returns as \<Longrightarrow>
   \<exists>why. perform_action (do_all (as @ do_default # [])) args m = (run_actions as args m, Aborted_with why)"
  by (simp add: perform_do_all do_default_def)

lemma returning_actions [simp]:
  "returns (return_value v)" "returns return_void" "returns (save_arg p k)" "returns (return_arg k)"
  by (simp_all add: returns_def return_value_def return_void_def save_arg_def return_arg_def)

end
