(* ===== verification/Gmock_World.thy ===== *)
theory Gmock_World
  imports Gmock_Actions Gtest_Result "HOL-Library.Monad_Syntax"
begin

text \<open>
  Expectations of the vendored gmock: \<open>ExpectationBase\<close>, \<open>TypedExpectation\<close>, \<open>Sequence\<close> and
  \<open>InSequence\<close> of \<open>gmock-spec-builders.h\<close> and \<open>gmock-spec-builders.cc\<close>, with the logging of
  \<open>gmock-internal-utils.cc\<close>. Objects that the source shares by pointers are entries of the
  record \<open>gmock_world\<close>, and a pointer is the index of an entry; later objects have greater
  addresses, so that a \<open>std::set\<close> of pointers is a list in ascending order. A section under
  \<open>g_gmock_mutex\<close> is one step. The prerequisites of an expectation are followed by recursion,
  as in the source; \<open>None\<close> means that the recursion does not end (\<open>stack\<close> is deeper than any
  chain of different expectations).
\<close>

subsection \<open>State\<close>

datatype clause =
    K_none | K_with | K_times | K_in_sequence | K_after | K_will_once | K_will_repeatedly
  | K_retires_on_saturation

fun clause_index :: "clause \<Rightarrow> nat" where
  "clause_index K_none = 0"
| "clause_index K_with = 1"
| "clause_index K_times = 2"
| "clause_index K_in_sequence = 3"
| "clause_index K_after = 4"
| "clause_index K_will_once = 5"
| "clause_index K_will_repeatedly = 6"
| "clause_index K_retires_on_saturation = 7"

instantiation clause :: linorder
begin

definition less_eq_clause :: "clause \<Rightarrow> clause \<Rightarrow> bool" where
  "less_eq_clause a b \<longleftrightarrow> clause_index a \<le> clause_index b"

definition less_clause :: "clause \<Rightarrow> clause \<Rightarrow> bool" where
  "less_clause a b \<longleftrightarrow> clause_index a < clause_index b"

instance
proof
  show "a \<le> b \<Longrightarrow> b \<le> a \<Longrightarrow> a = b" for a b :: clause
    by (cases a; cases b) (simp_all add: less_eq_clause_def)
qed (auto simp: less_eq_clause_def less_clause_def)

end

datatype on_call_clause = On_none | On_with | On_will_by_default

datatype call_reaction = K_allow | K_warn | K_fail

datatype log_severity = K_info | K_warning

text \<open>
  \<open>ex_owner\<close> is the raw pointer \<open>owner_\<close> to the mocker that made the expectation. It dangles when a
  sequence, a handle or a later expectation keeps the expectation longer than the mocker lives; it
  is followed only by \<open>GetHandle\<close>.
\<close>

record ('v, 'm) expectation =
  ex_file :: string
  ex_line :: int
  ex_source_text :: string
  ex_cardinality_specified :: bool
  ex_cardinality :: cardinality
  ex_prerequisites :: "nat list"
  ex_call_count :: int
  ex_retired :: bool
  ex_actions :: "('v, 'm) mock_action list"
  ex_extra_matcher_specified :: bool
  ex_repeated_action_specified :: bool
  ex_retires_on_saturation :: bool
  ex_last_clause :: clause
  ex_action_count_checked :: bool
  ex_owner :: nat
  ex_matchers :: "'v matcher list"
  ex_extra_matcher :: "'v list matcher"
  ex_repeated_action :: "('v, 'm) mock_action"

record ('v, 'm) on_call_spec =
  on_file :: string
  on_line :: int
  on_last_clause :: on_call_clause
  on_matchers :: "'v matcher list"
  on_extra_matcher :: "'v list matcher"
  on_action :: "('v, 'm) mock_action"

text \<open>
  \<open>fm_result\<close> is \<open>None\<close> for a function without a result, and otherwise the result type and its
  built-in default value. A type's default value that was set is in \<open>gw_defaults\<close>.
\<close>

record ('v, 'm) function_mocker =
  fm_mock_obj :: "nat option"
  fm_name :: "string option"
  fm_on_call_specs :: "('v, 'm) on_call_spec list"
  fm_expectations :: "nat list"
  fm_result :: "(nat \<times> 'v option) option"

record mock_object_state =
  mo_first_used_file :: "string option"
  mo_first_used_line :: int
  mo_first_used_test_case :: string
  mo_first_used_test :: string
  mo_leakable :: bool
  mo_function_mockers :: "nat list"

record ('v, 'm) gmock_world =
  gw_expectations :: "('v, 'm) expectation option list"
  gw_mockers :: "('v, 'm) function_mocker option list"
  gw_sequences :: "nat option list"
  gw_implicit_sequence :: "nat option"
  gw_handles :: "nat list"
  gw_registry :: "(nat \<times> mock_object_state) list"
  gw_reactions :: "nat \<rightharpoonup> call_reaction"
  gw_defaults :: "nat \<rightharpoonup> 'v"
  gw_verbose :: string
  gw_catch_leaked_mocks :: bool
  gw_current_test :: "(string \<times> string) option"
  gw_output :: string
  gw_failures :: "test_part_result list"
  gw_memory :: 'm

definition stack :: "('v, 'm) gmock_world \<Rightarrow> nat" where
  "stack w = Suc (length (gw_expectations w))"

text \<open>
  The object at an address; for a destroyed one the value is unspecified, as in the source. That
  the statements of a test follow no pointer to a destroyed object is a theorem (\<open>Gmock_Tests\<close>).
\<close>

definition exp_at :: "('v, 'm) gmock_world \<Rightarrow> nat \<Rightarrow> ('v, 'm) expectation" where
  "exp_at w e = the (gw_expectations w ! e)"

definition mocker_at :: "('v, 'm) gmock_world \<Rightarrow> nat \<Rightarrow> ('v, 'm) function_mocker" where
  "mocker_at w f = the (gw_mockers w ! f)"

definition change_exp ::
  "nat \<Rightarrow> (('v, 'm) expectation \<Rightarrow> ('v, 'm) expectation) \<Rightarrow> ('v, 'm) gmock_world \<Rightarrow> ('v, 'm) gmock_world" where
  "change_exp e f w = w\<lparr>gw_expectations := (gw_expectations w)[e := Some (f (exp_at w e))]\<rparr>"

definition change_mocker ::
  "nat \<Rightarrow> (('v, 'm) function_mocker \<Rightarrow> ('v, 'm) function_mocker) \<Rightarrow> ('v, 'm) gmock_world \<Rightarrow>
   ('v, 'm) gmock_world" where
  "change_mocker f g w = w\<lparr>gw_mockers := (gw_mockers w)[f := Some (g (mocker_at w f))]\<rparr>"

subsection \<open>Failures and logs\<close>

definition report_failure ::
  "part_type \<Rightarrow> string option \<Rightarrow> int \<Rightarrow> string \<Rightarrow> ('v, 'm) gmock_world \<Rightarrow> ('v, 'm) gmock_world" where
  "report_failure type file line message w =
     w\<lparr>gw_failures := gw_failures w @ [make_test_part_result type file line message]\<rparr>"

text \<open>\<open>Expect\<close>, for a source location and a message.\<close>

definition gmock_expect ::
  "bool \<Rightarrow> string option \<Rightarrow> int \<Rightarrow> string \<Rightarrow> ('v, 'm) gmock_world \<Rightarrow> ('v, 'm) gmock_world" where
  "gmock_expect condition file line message w =
     (if \<not> condition then report_failure K_non_fatal_failure file line message w else w)"

definition log_is_visible :: "string \<Rightarrow> log_severity \<Rightarrow> bool" where
  "log_is_visible verbose severity =
     (if verbose = ''info'' then True
      else if verbose = ''error'' then False
      else severity = K_warning)"

text \<open>\<open>Log\<close>; \<open>CurrentStackTrace\<close> of the vendored gtest is the empty text.\<close>

definition log_text :: "log_severity \<Rightarrow> string \<Rightarrow> int \<Rightarrow> string" where
  "log_text severity message stack_frames_to_skip =
     (if severity = K_warning then newline @ ''GMOCK WARNING:'' else []) @
     (if message = [] \<or> hd message \<noteq> hd newline then newline else []) @ message @
     (if 0 \<le> stack_frames_to_skip
      then (if message \<noteq> [] \<and> last message \<noteq> hd newline then newline else []) @
        ''Stack trace:'' @ newline
      else [])"

definition gmock_log ::
  "log_severity \<Rightarrow> string \<Rightarrow> int \<Rightarrow> ('v, 'm) gmock_world \<Rightarrow> ('v, 'm) gmock_world" where
  "gmock_log severity message stack_frames_to_skip w =
     (if \<not> log_is_visible (gw_verbose w) severity then w
      else w\<lparr>gw_output := gw_output w @ log_text severity message stack_frames_to_skip\<rparr>)"

definition log_with_location ::
  "log_severity \<Rightarrow> string \<Rightarrow> int \<Rightarrow> string \<Rightarrow> ('v, 'm) gmock_world \<Rightarrow> ('v, 'm) gmock_world" where
  "log_with_location severity file line message =
     gmock_log severity (file @ '':'' @ string_of_int line @ '': '' @ message @ newline) 0"

subsection \<open>The state of an expectation\<close>

definition new_expectation :: "nat \<Rightarrow> string \<Rightarrow> int \<Rightarrow> string \<Rightarrow> 'v matcher list \<Rightarrow> ('v, 'm) expectation" where
  "new_expectation owner a_file a_line a_source_text m =
     \<lparr>ex_file = a_file, ex_line = a_line, ex_source_text = a_source_text,
      ex_cardinality_specified = False, ex_cardinality = fst (exactly_calls 1),
      ex_prerequisites = [], ex_call_count = 0, ex_retired = False, ex_actions = [],
      ex_extra_matcher_specified = False, ex_repeated_action_specified = False,
      ex_retires_on_saturation = False, ex_last_clause = K_none, ex_action_count_checked = False,
      ex_owner = owner, ex_matchers = m, ex_extra_matcher = any_matcher, ex_repeated_action = do_default\<rparr>"

definition is_satisfied :: "('v, 'm) expectation \<Rightarrow> bool" where
  "is_satisfied x = cd_satisfied (ex_cardinality x) (ex_call_count x)"

definition is_saturated :: "('v, 'm) expectation \<Rightarrow> bool" where
  "is_saturated x = cd_saturated (ex_cardinality x) (ex_call_count x)"

definition is_over_saturated :: "('v, 'm) expectation \<Rightarrow> bool" where
  "is_over_saturated x = over_saturated_by (ex_cardinality x) (ex_call_count x)"

definition expectation_matches :: "('v, 'm) expectation \<Rightarrow> 'v list \<Rightarrow> bool" where
  "expectation_matches x args \<longleftrightarrow> tuple_matches (ex_matchers x) args \<and> matches (ex_extra_matcher x) args"

definition retire :: "nat \<Rightarrow> ('v, 'm) gmock_world \<Rightarrow> ('v, 'm) gmock_world" where
  "retire e = change_exp e (\<lambda>x. x\<lparr>ex_retired := True\<rparr>)"

definition increment_call_count :: "nat \<Rightarrow> ('v, 'm) gmock_world \<Rightarrow> ('v, 'm) gmock_world" where
  "increment_call_count e = change_exp e (\<lambda>x. x\<lparr>ex_call_count := ex_call_count x + 1\<rparr>)"

definition describe_location :: "('v, 'm) expectation \<Rightarrow> string" where
  "describe_location x = format_file_location (Some (ex_file x)) (ex_line x) @ '' ''"

definition describe_call_count :: "('v, 'm) expectation \<Rightarrow> string" where
  "describe_call_count x =
     ''         Expected: to be '' @ cd_describe (ex_cardinality x) @
     newline @ ''           Actual: '' @ describe_actual_call_count (ex_call_count x) @
     '' - '' @ (if is_over_saturated x then ''over-saturated''
       else if is_saturated x then ''saturated''
       else if is_satisfied x then ''satisfied'' else ''unsatisfied'') @
     '' and '' @ (if ex_retired x then ''retired'' else ''active'')"

definition describe_extra_matcher :: "('v, 'm) expectation \<Rightarrow> string" where
  "describe_extra_matcher x =
     (if ex_extra_matcher_specified x
      then ''    Expected args: '' @ mt_describe_to (ex_extra_matcher x) @ newline else [])"

text \<open>\<open>Some True\<close> when an expectation has too many actions, \<open>Some False\<close> when it has too few.\<close>

definition action_count_problem :: "('v, 'm) expectation \<Rightarrow> bool option" where
  "action_count_problem x =
     (let action_count = int (length (ex_actions x));
          upper_bound = cd_upper_bound (ex_cardinality x);
          lower_bound = cd_lower_bound (ex_cardinality x)
      in if upper_bound < action_count \<or> (action_count = upper_bound \<and> ex_repeated_action_specified x)
         then Some True
         else if 0 < action_count \<and> action_count < lower_bound \<and> \<not> ex_repeated_action_specified x
         then Some False
         else None)"

definition action_count_message :: "bool \<Rightarrow> ('v, 'm) expectation \<Rightarrow> string" where
  "action_count_message too_many x =
     describe_location x @ ''Too '' @ (if too_many then ''many'' else ''few'') @
     '' actions specified in '' @ ex_source_text x @ ''...'' @ newline @
     ''Expected to be '' @ cd_describe (ex_cardinality x) @
     '', but has '' @ (if too_many then [] else ''only '') @
     string_of_nat (length (ex_actions x)) @ '' WillOnce()'' @
     (if length (ex_actions x) = 1 then [] else ''s'') @
     (if ex_repeated_action_specified x then '' and a WillRepeatedly()'' else []) @ ''.''"

definition check_action_count :: "nat \<Rightarrow> ('v, 'm) gmock_world \<Rightarrow> ('v, 'm) gmock_world" where
  "check_action_count e w =
     (let x = exp_at w e
      in if ex_action_count_checked x then w
         else let w = change_exp e (\<lambda>x. x\<lparr>ex_action_count_checked := True\<rparr>) w
         in if \<not> ex_cardinality_specified x then w
            else case action_count_problem x of
              None \<Rightarrow> w
            | Some too_many \<Rightarrow> gmock_log K_warning (action_count_message too_many x) (- 1) w)"

subsection \<open>Prerequisites\<close>

fun every :: "('a \<Rightarrow> bool option) \<Rightarrow> 'a list \<Rightarrow> bool option" where
  "every p [] = Some True"
| "every p (x # xs) =
     (case p x of None \<Rightarrow> None | Some False \<Rightarrow> Some False | Some True \<Rightarrow> every p xs)"

fun each_in_turn :: "('a \<Rightarrow> 's \<Rightarrow> 's option) \<Rightarrow> 'a list \<Rightarrow> 's \<Rightarrow> 's option" where
  "each_in_turn f [] s = Some s"
| "each_in_turn f (x # xs) s = Option.bind (f x s) (each_in_turn f xs)"

fun all_prerequisites_are_satisfied :: "nat \<Rightarrow> ('v, 'm) gmock_world \<Rightarrow> nat \<Rightarrow> bool option" where
  "all_prerequisites_are_satisfied 0 w e = None"
| "all_prerequisites_are_satisfied (Suc n) w e =
     every (\<lambda>p. if \<not> is_satisfied (exp_at w p) then Some False else all_prerequisites_are_satisfied n w p)
       (ex_prerequisites (exp_at w e))"

fun retire_all_prerequisites :: "nat \<Rightarrow> nat \<Rightarrow> ('v, 'm) gmock_world \<Rightarrow> ('v, 'm) gmock_world option" where
  "retire_all_prerequisites 0 e w = None"
| "retire_all_prerequisites (Suc n) e w =
     (if ex_retired (exp_at w e) then Some w
      else each_in_turn
        (\<lambda>p w. if ex_retired (exp_at w p) then Some w
           else map_option (retire p) (retire_all_prerequisites n p w))
        (ex_prerequisites (exp_at w e)) w)"

fun find_unsatisfied_prerequisites ::
  "nat \<Rightarrow> ('v, 'm) gmock_world \<Rightarrow> nat \<Rightarrow> nat list \<Rightarrow> nat list option" where
  "find_unsatisfied_prerequisites 0 w e result = None"
| "find_unsatisfied_prerequisites (Suc n) w e result =
     each_in_turn
       (\<lambda>p result. if is_satisfied (exp_at w p)
          then (if ex_call_count (exp_at w p) = 0 then find_unsatisfied_prerequisites n w p result
            else Some result)
          else Some (insort_insert p result))
       (ex_prerequisites (exp_at w e)) result"

subsection \<open>Sequences\<close>

definition add_to_sequence :: "nat \<Rightarrow> nat \<Rightarrow> ('v, 'm) gmock_world \<Rightarrow> ('v, 'm) gmock_world" where
  "add_to_sequence s e w =
     (if gw_sequences w ! s \<noteq> Some e then
        (let w = (case gw_sequences w ! s of
                None \<Rightarrow> w
              | Some p \<Rightarrow> change_exp e (\<lambda>x. x\<lparr>ex_prerequisites := insort_insert p (ex_prerequisites x)\<rparr>) w)
         in w\<lparr>gw_sequences := (gw_sequences w)[s := Some e]\<rparr>)
      else w)"

definition new_sequence :: "('v, 'm) gmock_world \<Rightarrow> ('v, 'm) gmock_world \<times> nat" where
  "new_sequence w = (w\<lparr>gw_sequences := gw_sequences w @ [None]\<rparr>, length (gw_sequences w))"

text \<open>The constructor of \<open>InSequence\<close>; the second component is \<open>sequence_created_\<close>.\<close>

definition in_sequence_begin :: "('v, 'm) gmock_world \<Rightarrow> ('v, 'm) gmock_world \<times> bool" where
  "in_sequence_begin w =
     (if gw_implicit_sequence w = None then
        (let (w, s) = new_sequence w in (w\<lparr>gw_implicit_sequence := Some s\<rparr>, True))
      else (w, False))"

subsection \<open>The end of an expectation\<close>

text \<open>
  An expectation lives as long as a function mocker, a sequence, a handle of the test or a later
  expectation points to it. \<open>release_all\<close> drops pointers one after the other; a destroyed
  expectation drops those to its prerequisites.
\<close>

definition owned :: "nat \<Rightarrow> ('v, 'm) gmock_world \<Rightarrow> bool" where
  "owned e w \<longleftrightarrow>
     list_ex (\<lambda>f. case f of None \<Rightarrow> False | Some f \<Rightarrow> e \<in> set (fm_expectations f)) (gw_mockers w) \<or>
     list_ex (\<lambda>x. case x of None \<Rightarrow> False | Some x \<Rightarrow> e \<in> set (ex_prerequisites x)) (gw_expectations w) \<or>
     Some e \<in> set (gw_sequences w) \<or> e \<in> set (gw_handles w)"

definition destroy_expectation :: "nat \<Rightarrow> ('v, 'm) gmock_world \<Rightarrow> ('v, 'm) gmock_world" where
  "destroy_expectation e w =
     (let w = check_action_count e w in w\<lparr>gw_expectations := (gw_expectations w)[e := None]\<rparr>)"

definition alive :: "('v, 'm) gmock_world \<Rightarrow> nat \<Rightarrow> bool" where
  "alive w e \<longleftrightarrow> e < length (gw_expectations w) \<and> gw_expectations w ! e \<noteq> None"

definition living :: "('v, 'm) gmock_world \<Rightarrow> nat set" where
  "living w = {e. alive w e}"

lemma finite_living [simp]: "finite (living w)"
  by (rule finite_subset [of _ "{..<length (gw_expectations w)}"]) (auto simp: living_def alive_def)

lemma gmock_log_expectations [simp]: "gw_expectations (gmock_log sev msg k w) = gw_expectations w"
  by (simp add: gmock_log_def)

lemma living_check_action_count [simp]: "alive w e \<Longrightarrow> living (check_action_count e w) = living w"
  by (auto simp: check_action_count_def Let_def change_exp_def living_def alive_def nth_list_update
      split: option.split)

lemma living_destroy: "alive w e \<Longrightarrow> living (destroy_expectation e w) = living w - {e}"
proof -
  assume e: "alive w e"
  have "living (w'\<lparr>gw_expectations := (gw_expectations w')[e := None]\<rparr>) = living w' - {e}" for w' :: "('a, 'b) gmock_world"
    by (cases "e < length (gw_expectations w')") (auto simp: living_def alive_def nth_list_update)
  then show ?thesis
    using e by (simp add: destroy_expectation_def Let_def)
qed

lemma card_living_destroy: "alive w e \<Longrightarrow> card (living (destroy_expectation e w)) < card (living w)"
  unfolding living_destroy by (rule card_Diff1_less [OF finite_living]) (simp add: living_def)

function release_all :: "nat list \<Rightarrow> ('v, 'm) gmock_world \<Rightarrow> ('v, 'm) gmock_world" where
  "release_all [] w = w"
| "release_all (e # es) w =
     (if e \<in> set es \<or> owned e w \<or> \<not> alive w e then release_all es w
      else release_all (ex_prerequisites (exp_at w e) @ es) (destroy_expectation e w))"
  by pat_completeness auto
termination
  by (relation "measures [\<lambda>(es, w). card (living w), \<lambda>(es, w). length es]")
    (auto simp: card_living_destroy)

definition in_sequence_end :: "bool \<Rightarrow> ('v, 'm) gmock_world \<Rightarrow> ('v, 'm) gmock_world" where
  "in_sequence_end sequence_created w =
     (if sequence_created then
        (case gw_implicit_sequence w of
           None \<Rightarrow> w
         | Some s \<Rightarrow>
             let last_expectation = gw_sequences w ! s;
                 w = w\<lparr>gw_sequences := (gw_sequences w)[s := None], gw_implicit_sequence := None\<rparr>
             in (case last_expectation of None \<Rightarrow> w | Some e \<Rightarrow> release_all [e] w))
      else w)"

end
