(* ===== verification/Gmock_Mocker.thy ===== *)
theory Gmock_Mocker
  imports Gmock_World
begin

text \<open>
  Mocked functions and mock objects of the vendored gmock: the clauses of \<open>EXPECT_CALL\<close> and
  \<open>ON_CALL\<close>, \<open>FunctionMockerBase\<close>, \<open>UntypedFunctionMockerBase\<close> and \<open>Mock\<close>. A statement of the
  test is one operation with the list of its clauses. \<open>pr\<close> prints a value; what a call of the
  source returns, throws or aborts with is a \<open>mock_result\<close>.
\<close>

subsection \<open>The clauses of an expectation\<close>

datatype ('v, 'm) expect_clause =
    Clause_with "'v list matcher"
  | Clause_times made_cardinality
  | Clause_in_sequence nat
  | Clause_after "nat list"
  | Clause_will_once "('v, 'm) mock_action"
  | Clause_will_repeatedly "('v, 'm) mock_action"
  | Clause_retires_on_saturation

text \<open>\<open>ExpectSpecProperty\<close> of an expectation, and the failure of a cardinality's constructor.\<close>

definition expect_spec_property ::
  "nat \<Rightarrow> bool \<Rightarrow> string \<Rightarrow> ('v, 'm) gmock_world \<Rightarrow> ('v, 'm) gmock_world" where
  "expect_spec_property e property failure_message w =
     gmock_expect property (Some (ex_file (exp_at w e))) (ex_line (exp_at w e)) failure_message w"

definition report_problem :: "(int \<times> string) option \<Rightarrow> ('v, 'm) gmock_world \<Rightarrow> ('v, 'm) gmock_world" where
  "report_problem problem w =
     (case problem of
        None \<Rightarrow> w
      | Some (line, message) \<Rightarrow>
          report_failure K_non_fatal_failure (Some ''src/gmock-cardinalities.cc'') line message w)"

definition clause_with ::
  "nat \<Rightarrow> 'v list matcher \<Rightarrow> ('v, 'm) gmock_world \<Rightarrow> ('v, 'm) gmock_world" where
  "clause_with e m w =
     (let last = ex_last_clause (exp_at w e);
          w = (if last = K_with
               then expect_spec_property e False (''.With() cannot appear '' @
                 ''more than once in an EXPECT_CALL().'') w
               else expect_spec_property e (last < K_with) (''.With() must be the first '' @
                 ''clause in an EXPECT_CALL().'') w)
      in change_exp e (\<lambda>x. x\<lparr>ex_last_clause := K_with, ex_extra_matcher := m,
           ex_extra_matcher_specified := True\<rparr>) w)"

definition untyped_times ::
  "nat \<Rightarrow> cardinality \<Rightarrow> ('v, 'm) gmock_world \<Rightarrow> ('v, 'm) gmock_world" where
  "untyped_times e a_cardinality w =
     (let last = ex_last_clause (exp_at w e);
          w = (if last = K_times
               then expect_spec_property e False (''.Times() cannot appear '' @
                 ''more than once in an EXPECT_CALL().'') w
               else expect_spec_property e (last < K_times) (''.Times() cannot appear after '' @
                 ''.InSequence(), .WillOnce(), .WillRepeatedly(), '' @ ''or .RetiresOnSaturation().'') w)
      in change_exp e (\<lambda>x. x\<lparr>ex_last_clause := K_times, ex_cardinality_specified := True,
           ex_cardinality := a_cardinality\<rparr>) w)"

text \<open>
  \<open>InSequence\<close> takes the handle of the expectation from \<open>GetHandle\<close>, which finds the expectation
  itself: the mocker of the statement is its owner and has just added it (\<open>get_handle_held\<close>).
\<close>

definition clause_in_sequence :: "nat \<Rightarrow> nat \<Rightarrow> ('v, 'm) gmock_world \<Rightarrow> ('v, 'm) gmock_world" where
  "clause_in_sequence e s w =
     (let w = expect_spec_property e (ex_last_clause (exp_at w e) \<le> K_in_sequence)
                (''.InSequence() cannot appear after .After(),'' @
                 '' .WillOnce(), .WillRepeatedly(), or '' @ ''.RetiresOnSaturation().'') w
      in add_to_sequence s e (change_exp e (\<lambda>x. x\<lparr>ex_last_clause := K_in_sequence\<rparr>) w))"

definition clause_after :: "nat \<Rightarrow> nat list \<Rightarrow> ('v, 'm) gmock_world \<Rightarrow> ('v, 'm) gmock_world" where
  "clause_after e s w =
     (let w = expect_spec_property e (ex_last_clause (exp_at w e) \<le> K_after)
                (''.After() cannot appear after .WillOnce(),'' @
                 '' .WillRepeatedly(), or '' @ ''.RetiresOnSaturation().'') w
      in change_exp e (\<lambda>x. x\<lparr>ex_last_clause := K_after,
           ex_prerequisites := fold insort_insert s (ex_prerequisites x)\<rparr>) w)"

definition clause_will_once ::
  "nat \<Rightarrow> ('v, 'm) mock_action \<Rightarrow> ('v, 'm) gmock_world \<Rightarrow> ('v, 'm) gmock_world" where
  "clause_will_once e a w =
     (let w = expect_spec_property e (ex_last_clause (exp_at w e) \<le> K_will_once)
                (''.WillOnce() cannot appear after '' @
                 ''.WillRepeatedly() or .RetiresOnSaturation().'') w
      in change_exp e (\<lambda>x.
           let x = x\<lparr>ex_last_clause := K_will_once, ex_actions := ex_actions x @ [a]\<rparr>
           in if \<not> ex_cardinality_specified x
              then x\<lparr>ex_cardinality := fst (exactly_calls (int (length (ex_actions x))))\<rparr>
              else x) w)"

definition clause_will_repeatedly ::
  "nat \<Rightarrow> ('v, 'm) mock_action \<Rightarrow> ('v, 'm) gmock_world \<Rightarrow> ('v, 'm) gmock_world" where
  "clause_will_repeatedly e a w =
     (let last = ex_last_clause (exp_at w e);
          w = (if last = K_will_repeatedly
               then expect_spec_property e False (''.WillRepeatedly() cannot appear '' @
                 ''more than once in an EXPECT_CALL().'') w
               else expect_spec_property e (last < K_will_repeatedly)
                 (''.WillRepeatedly() cannot appear '' @ ''after .RetiresOnSaturation().'') w)
      in check_action_count e (change_exp e (\<lambda>x.
           let x = x\<lparr>ex_last_clause := K_will_repeatedly, ex_repeated_action_specified := True,
                 ex_repeated_action := a\<rparr>
           in if \<not> ex_cardinality_specified x
              then x\<lparr>ex_cardinality := fst (at_least (int (length (ex_actions x))))\<rparr>
              else x) w))"

definition clause_retires_on_saturation :: "nat \<Rightarrow> ('v, 'm) gmock_world \<Rightarrow> ('v, 'm) gmock_world" where
  "clause_retires_on_saturation e w =
     (let w = expect_spec_property e (ex_last_clause (exp_at w e) < K_retires_on_saturation)
                (''.RetiresOnSaturation() cannot appear '' @ ''more than once.'') w
      in check_action_count e (change_exp e (\<lambda>x. x\<lparr>ex_last_clause := K_retires_on_saturation,
           ex_retires_on_saturation := True\<rparr>) w))"

fun apply_clause ::
  "nat \<Rightarrow> ('v, 'm) expect_clause \<Rightarrow> ('v, 'm) gmock_world \<Rightarrow> ('v, 'm) gmock_world" where
  "apply_clause e (Clause_with m) w = clause_with e m w"
| "apply_clause e (Clause_times (c, problem)) w = untyped_times e c (report_problem problem w)"
| "apply_clause e (Clause_in_sequence s) w = clause_in_sequence e s w"
| "apply_clause e (Clause_after s) w = clause_after e s w"
| "apply_clause e (Clause_will_once a) w = clause_will_once e a w"
| "apply_clause e (Clause_will_repeatedly a) w = clause_will_repeatedly e a w"
| "apply_clause e Clause_retires_on_saturation w = clause_retires_on_saturation e w"

subsection \<open>The registry of mock objects\<close>

definition fresh_object_state :: mock_object_state where
  "fresh_object_state =
     \<lparr>mo_first_used_file = None, mo_first_used_line = - 1, mo_first_used_test_case = [],
      mo_first_used_test = [], mo_leakable = False, mo_function_mockers = []\<rparr>"

text \<open>An access to an element of a \<open>std::map\<close>, which makes the element when it is missing.\<close>

fun update_state ::
  "nat \<Rightarrow> (mock_object_state \<Rightarrow> mock_object_state) \<Rightarrow> (nat \<times> mock_object_state) list \<Rightarrow>
   (nat \<times> mock_object_state) list" where
  "update_state k f [] = [(k, f fresh_object_state)]"
| "update_state k f ((l, v) # xs) =
     (if k = l then (l, f v) # xs
      else if k < l then (k, f fresh_object_state) # (l, v) # xs
      else (l, v) # update_state k f xs)"

definition change_registry ::
  "nat \<Rightarrow> (mock_object_state \<Rightarrow> mock_object_state) \<Rightarrow> ('v, 'm) gmock_world \<Rightarrow> ('v, 'm) gmock_world" where
  "change_registry mock_obj f w = w\<lparr>gw_registry := update_state mock_obj f (gw_registry w)\<rparr>"

definition allow_leak :: "nat \<Rightarrow> ('v, 'm) gmock_world \<Rightarrow> ('v, 'm) gmock_world" where
  "allow_leak mock_obj = change_registry mock_obj (\<lambda>s. s\<lparr>mo_leakable := True\<rparr>)"

definition register_mocker :: "nat \<Rightarrow> nat \<Rightarrow> ('v, 'm) gmock_world \<Rightarrow> ('v, 'm) gmock_world" where
  "register_mocker mock_obj f =
     change_registry mock_obj (\<lambda>s. s\<lparr>mo_function_mockers := insort_insert f (mo_function_mockers s)\<rparr>)"

definition register_use ::
  "nat \<Rightarrow> string \<Rightarrow> int \<Rightarrow> ('v, 'm) gmock_world \<Rightarrow> ('v, 'm) gmock_world" where
  "register_use mock_obj file line w =
     change_registry mock_obj (\<lambda>s.
       if mo_first_used_file s = None then
         (let s = s\<lparr>mo_first_used_file := Some file, mo_first_used_line := line\<rparr>
          in case gw_current_test w of
            None \<Rightarrow> s
          | Some (test_case_name, test_name) \<Rightarrow>
              s\<lparr>mo_first_used_test_case := test_case_name, mo_first_used_test := test_name\<rparr>)
       else s) w"

fun erase_mocker :: "nat \<Rightarrow> (nat \<times> mock_object_state) list \<Rightarrow> (nat \<times> mock_object_state) list" where
  "erase_mocker f [] = []"
| "erase_mocker f ((k, s) # xs) =
     (if f \<in> set (mo_function_mockers s) then
        (let s = s\<lparr>mo_function_mockers := remove1 f (mo_function_mockers s)\<rparr>
         in if mo_function_mockers s = [] then xs else (k, s) # xs)
      else (k, s) # erase_mocker f xs)"

definition unregister_mocker :: "nat \<Rightarrow> ('v, 'm) gmock_world \<Rightarrow> ('v, 'm) gmock_world" where
  "unregister_mocker f w = w\<lparr>gw_registry := erase_mocker f (gw_registry w)\<rparr>"

definition set_reaction :: "nat \<Rightarrow> call_reaction \<Rightarrow> ('v, 'm) gmock_world \<Rightarrow> ('v, 'm) gmock_world" where
  "set_reaction mock_obj reaction w = w\<lparr>gw_reactions := (gw_reactions w)(mock_obj \<mapsto> reaction)\<rparr>"

text \<open>The constructors of \<open>NiceMock\<close>, \<open>NaggyMock\<close> and \<open>StrictMock\<close>, and their destructors.\<close>

definition nice_mock :: "nat \<Rightarrow> ('v, 'm) gmock_world \<Rightarrow> ('v, 'm) gmock_world" where
  "nice_mock mock_obj = set_reaction mock_obj K_allow"

definition naggy_mock :: "nat \<Rightarrow> ('v, 'm) gmock_world \<Rightarrow> ('v, 'm) gmock_world" where
  "naggy_mock mock_obj = set_reaction mock_obj K_warn"

definition strict_mock :: "nat \<Rightarrow> ('v, 'm) gmock_world \<Rightarrow> ('v, 'm) gmock_world" where
  "strict_mock mock_obj = set_reaction mock_obj K_fail"

definition unregister_call_reaction :: "nat \<Rightarrow> ('v, 'm) gmock_world \<Rightarrow> ('v, 'm) gmock_world" where
  "unregister_call_reaction mock_obj w = w\<lparr>gw_reactions := (gw_reactions w)(mock_obj := None)\<rparr>"

definition get_reaction :: "nat \<Rightarrow> ('v, 'm) gmock_world \<Rightarrow> call_reaction" where
  "get_reaction mock_obj w = (case gw_reactions w mock_obj of None \<Rightarrow> K_warn | Some r \<Rightarrow> r)"

subsection \<open>Statements\<close>

definition new_mocker :: "(nat \<times> 'v option) option \<Rightarrow> ('v, 'm) gmock_world \<Rightarrow> ('v, 'm) gmock_world \<times> nat" where
  "new_mocker result w =
     (w\<lparr>gw_mockers := gw_mockers w @ [Some \<lparr>fm_mock_obj = None, fm_name = None,
        fm_on_call_specs = [], fm_expectations = [], fm_result = result\<rparr>]\<rparr>, length (gw_mockers w))"

definition register_owner :: "nat \<Rightarrow> nat \<Rightarrow> ('v, 'm) gmock_world \<Rightarrow> ('v, 'm) gmock_world" where
  "register_owner mock_obj f w =
     register_mocker mock_obj f (change_mocker f (\<lambda>m. m\<lparr>fm_mock_obj := Some mock_obj\<rparr>) w)"

definition set_owner_and_name ::
  "nat \<Rightarrow> string \<Rightarrow> nat \<Rightarrow> ('v, 'm) gmock_world \<Rightarrow> ('v, 'm) gmock_world" where
  "set_owner_and_name mock_obj name f =
     change_mocker f (\<lambda>m. m\<lparr>fm_mock_obj := Some mock_obj, fm_name := Some name\<rparr>)"

text \<open>\<open>AddNewExpectation\<close>; \<open>MockObject()\<close> is there, as \<open>RegisterOwner\<close> has been called.\<close>

definition add_new_expectation ::
  "nat \<Rightarrow> string \<Rightarrow> int \<Rightarrow> string \<Rightarrow> 'v matcher list \<Rightarrow> ('v, 'm) gmock_world \<Rightarrow> ('v, 'm) gmock_world \<times> nat" where
  "add_new_expectation f file line source_text m w =
     (let w = register_use (the (fm_mock_obj (mocker_at w f))) file line w;
          e = length (gw_expectations w);
          w = w\<lparr>gw_expectations := gw_expectations w @ [Some (new_expectation f file line source_text m)]\<rparr>;
          w = change_mocker f (\<lambda>fm. fm\<lparr>fm_expectations := fm_expectations fm @ [e]\<rparr>) w
      in case gw_implicit_sequence w of
           None \<Rightarrow> (w, e)
         | Some s \<Rightarrow> (add_to_sequence s e w, e))"

text \<open>\<open>EXPECT_CALL(obj, call)\<close> with its clauses.\<close>

definition expect_call ::
  "nat \<Rightarrow> nat \<Rightarrow> string \<Rightarrow> int \<Rightarrow> string \<Rightarrow> string \<Rightarrow> 'v matcher list \<Rightarrow> ('v, 'm) expect_clause list \<Rightarrow>
   ('v, 'm) gmock_world \<Rightarrow> ('v, 'm) gmock_world \<times> nat" where
  "expect_call mock_obj f file line obj call m clauses w =
     (let source_text = ''EXPECT_CALL('' @ obj @ '', '' @ call @ '')'';
          w = register_owner mock_obj f w;
          w = log_with_location K_info file line (source_text @ '' invoked'') w;
          (w, e) = add_new_expectation f file line source_text m w
      in (fold (apply_clause e) clauses w, e))"

datatype ('v, 'm) on_clause = On_clause_with "'v list matcher" | On_clause_will_by_default "('v, 'm) mock_action"

definition change_last_spec ::
  "nat \<Rightarrow> (('v, 'm) on_call_spec \<Rightarrow> ('v, 'm) on_call_spec) \<Rightarrow> ('v, 'm) gmock_world \<Rightarrow> ('v, 'm) gmock_world" where
  "change_last_spec f g =
     change_mocker f (\<lambda>m. m\<lparr>fm_on_call_specs := butlast (fm_on_call_specs m) @ [g (last (fm_on_call_specs m))]\<rparr>)"

fun apply_on_clause :: "nat \<Rightarrow> ('v, 'm) on_clause \<Rightarrow> ('v, 'm) gmock_world \<Rightarrow> ('v, 'm) gmock_world" where
  "apply_on_clause f (On_clause_with m) w =
     (let spec = last (fm_on_call_specs (mocker_at w f));
          w = gmock_expect (on_last_clause spec = On_none) (Some (on_file spec)) (on_line spec)
                (''.With() cannot appear '' @ ''more than once in an ON_CALL().'') w
      in change_last_spec f (\<lambda>s. s\<lparr>on_last_clause := On_with, on_extra_matcher := m\<rparr>) w)"
| "apply_on_clause f (On_clause_will_by_default a) w =
     (let spec = last (fm_on_call_specs (mocker_at w f));
          w = gmock_expect (on_last_clause spec \<noteq> On_will_by_default) (Some (on_file spec)) (on_line spec)
                (''.WillByDefault() must appear '' @ ''exactly once in an ON_CALL().'') w;
          w = gmock_expect (\<not> is_do_default a) (Some (on_file spec)) (on_line spec)
                ''DoDefault() cannot be used in ON_CALL().'' w
      in change_last_spec f (\<lambda>s. s\<lparr>on_last_clause := On_will_by_default, on_action := a\<rparr>) w)"

text \<open>\<open>ON_CALL(obj, call)\<close> with its clauses.\<close>

definition on_call ::
  "nat \<Rightarrow> nat \<Rightarrow> string \<Rightarrow> int \<Rightarrow> string \<Rightarrow> string \<Rightarrow> 'v matcher list \<Rightarrow> ('v, 'm) on_clause list \<Rightarrow>
   ('v, 'm) gmock_world \<Rightarrow> ('v, 'm) gmock_world" where
  "on_call mock_obj f file line obj call m clauses w =
     (let w = register_owner mock_obj f w;
          w = log_with_location K_info file line (''ON_CALL('' @ obj @ '', '' @ call @ '') invoked'') w;
          w = register_use (the (fm_mock_obj (mocker_at w f))) file line w;
          w = change_mocker f (\<lambda>fm. fm\<lparr>fm_on_call_specs := fm_on_call_specs fm @
                [\<lparr>on_file = file, on_line = line, on_last_clause = On_none, on_matchers = m,
                  on_extra_matcher = any_matcher, on_action = Action_null\<rparr>]\<rparr>) w
      in fold (apply_on_clause f) clauses w)"

end
