(* ===== verification/Gmock_Call.thy ===== *)
theory Gmock_Call
  imports Gmock_Mocker
begin

text \<open>
  A call of a mocked function, the verification of its expectations and the end of mock objects:
  the rest of \<open>gmock-spec-builders.h\<close> and \<open>gmock-spec-builders.cc\<close>. \<open>None\<close> is a call that does
  not end because prerequisites form a cycle. The action of a call is performed after the
  critical section; an action that calls mocked functions itself is a further call.
\<close>

subsection \<open>Default actions\<close>

definition spec_matches :: "('v, 'm) on_call_spec \<Rightarrow> 'v list \<Rightarrow> bool" where
  "spec_matches s args \<longleftrightarrow> tuple_matches (on_matchers s) args \<and> matches (on_extra_matcher s) args"

definition find_on_call_spec :: "'v list \<Rightarrow> ('v, 'm) function_mocker \<Rightarrow> ('v, 'm) on_call_spec option" where
  "find_on_call_spec args fm = find (\<lambda>s. spec_matches s args) (rev (fm_on_call_specs fm))"

definition default_result :: "('v, 'm) function_mocker \<Rightarrow> ('v, 'm) gmock_world \<Rightarrow> 'v option option" where
  "default_result fm w =
     (case fm_result fm of
        None \<Rightarrow> Some None
      | Some (result_type, built_in) \<Rightarrow>
          (case gw_defaults w result_type of
             Some v \<Rightarrow> Some (Some v)
           | None \<Rightarrow> map_option Some built_in))"

definition set_default_value :: "nat \<Rightarrow> 'v \<Rightarrow> ('v, 'm) gmock_world \<Rightarrow> ('v, 'm) gmock_world" where
  "set_default_value result_type x w = w\<lparr>gw_defaults := (gw_defaults w)(result_type \<mapsto> x)\<rparr>"

definition clear_default_value :: "nat \<Rightarrow> ('v, 'm) gmock_world \<Rightarrow> ('v, 'm) gmock_world" where
  "clear_default_value result_type w = w\<lparr>gw_defaults := (gw_defaults w)(result_type := None)\<rparr>"

text \<open>A failed \<open>Assert\<close> reports a fatal failure and aborts the program.\<close>

definition assert_failed ::
  "string \<Rightarrow> int \<Rightarrow> string \<Rightarrow> ('v, 'm) gmock_world \<Rightarrow> ('v, 'm) gmock_world \<times> 'v mock_result" where
  "assert_failed file line message w =
     (report_failure K_fatal_failure (Some file) line message w, Aborted_with message)"

definition run_action ::
  "('v, 'm) mock_action \<Rightarrow> 'v list \<Rightarrow> ('v, 'm) gmock_world \<Rightarrow> ('v, 'm) gmock_world \<times> 'v mock_result" where
  "run_action a args w = (case perform_action a args (gw_memory w) of (m, r) \<Rightarrow> (w\<lparr>gw_memory := m\<rparr>, r))"

definition perform_default_action ::
  "nat \<Rightarrow> 'v list \<Rightarrow> string \<Rightarrow> ('v, 'm) gmock_world \<Rightarrow> ('v, 'm) gmock_world \<times> 'v mock_result" where
  "perform_default_action f args call_description w =
     (case find_on_call_spec args (mocker_at w f) of
        Some spec \<Rightarrow>
          if on_last_clause spec = On_will_by_default then run_action (on_action spec) args w
          else assert_failed (on_file spec) (on_line spec)
            (''.WillByDefault() must appear exactly '' @ ''once in an ON_CALL().'') w
      | None \<Rightarrow>
          (case default_result (mocker_at w f) w of
             Some v \<Rightarrow> (w, Returned_value v)
           | None \<Rightarrow> (w, Thrown (call_description @ newline @
               ''    The mock function has no default action '' @
               ''set, and its return type has no default value set.''))))"

definition describe_default_action :: "nat \<Rightarrow> 'v list \<Rightarrow> ('v, 'm) gmock_world \<Rightarrow> string" where
  "describe_default_action f args w =
     (case find_on_call_spec args (mocker_at w f) of
        None \<Rightarrow> (if fm_result (mocker_at w f) = None then ''returning directly.'' else ''returning default value.'') @
          newline
      | Some spec \<Rightarrow> ''taking default action specified at:'' @ newline @
          format_file_location (Some (on_file spec)) (on_line spec) @ newline)"

subsection \<open>The expectation that handles a call\<close>

definition should_handle_arguments ::
  "nat \<Rightarrow> 'v list \<Rightarrow> ('v, 'm) gmock_world \<Rightarrow> (('v, 'm) gmock_world \<times> bool) option" where
  "should_handle_arguments e args w =
     (let w = check_action_count e w
      in if ex_retired (exp_at w e) then Some (w, False)
         else do {
           satisfied \<leftarrow> all_prerequisites_are_satisfied (stack w) w e;
           Some (w, satisfied \<and> expectation_matches (exp_at w e) args)
         })"

text \<open>The newest expectation is asked first.\<close>

fun find_matching_from ::
  "nat list \<Rightarrow> 'v list \<Rightarrow> ('v, 'm) gmock_world \<Rightarrow> (('v, 'm) gmock_world \<times> nat option) option" where
  "find_matching_from [] args w = Some (w, None)"
| "find_matching_from (e # es) args w = do {
     (w, handles) \<leftarrow> should_handle_arguments e args w;
     if handles then Some (w, Some e) else find_matching_from es args w
   }"

definition find_matching_expectation ::
  "nat \<Rightarrow> 'v list \<Rightarrow> ('v, 'm) gmock_world \<Rightarrow> (('v, 'm) gmock_world \<times> nat option) option" where
  "find_matching_expectation f args w = find_matching_from (rev (fm_expectations (mocker_at w f))) args w"

definition get_current_action ::
  "nat \<Rightarrow> nat \<Rightarrow> 'v list \<Rightarrow> ('v, 'm) gmock_world \<Rightarrow> ('v, 'm) gmock_world \<times> ('v, 'm) mock_action" where
  "get_current_action f e args w =
     (let x = exp_at w e;
          count = ex_call_count x;
          action_count = int (length (ex_actions x));
          w = (if 0 < action_count \<and> \<not> ex_repeated_action_specified x \<and> action_count < count
               then gmock_log K_warning (describe_location x @ ''Actions ran out in '' @ ex_source_text x @
                 ''...'' @ newline @ ''Called '' @ string_of_int count @ '' times, but only '' @
                 string_of_int action_count @ '' WillOnce()'' @
                 (if action_count = 1 then '' is'' else ''s are'') @ '' specified - '' @
                 describe_default_action f args w) 1 w
               else w)
      in (w, if count \<le> action_count then ex_actions x ! nat (count - 1) else ex_repeated_action x))"

text \<open>The action, or \<open>None\<close> for the default action, and what is told of the call.\<close>

definition get_action_for_arguments ::
  "nat \<Rightarrow> nat \<Rightarrow> 'v list \<Rightarrow> ('v, 'm) gmock_world \<Rightarrow>
   (('v, 'm) gmock_world \<times> ('v, 'm) mock_action option \<times> string \<times> string) option" where
  "get_action_for_arguments f e args w =
     (if is_saturated (exp_at w e) then
        (let w = increment_call_count e w
         in Some (w, None, ''Mock function called more times than expected - '' @ describe_default_action f args w,
              describe_call_count (exp_at w e)))
      else do {
        w \<leftarrow> retire_all_prerequisites (stack w) e (increment_call_count e w);
        let w = (if ex_retires_on_saturation (exp_at w e) \<and> is_saturated (exp_at w e) then retire e w else w);
        let (w, a) = get_current_action f e args w;
        Some (w, Some a, ''Mock function call matches '' @ ex_source_text (exp_at w e) @ ''...'' @ newline, [])
      })"

subsection \<open>Explanations\<close>

definition explain_match_result ::
  "('v \<Rightarrow> string) \<Rightarrow> nat \<Rightarrow> 'v list \<Rightarrow> ('v, 'm) gmock_world \<Rightarrow> string option" where
  "explain_match_result pr e args w =
     (let x = exp_at w e
      in if ex_retired x then
           Some (''         Expected: the expectation is active'' @ newline @
             ''           Actual: it is retired'' @ newline)
         else if \<not> expectation_matches x args then
           Some ((if \<not> tuple_matches (ex_matchers x) args
              then explain_match_failure_tuple pr (ex_matchers x) args else []) @
             (case mt_match_and_explain (ex_extra_matcher x) args of (matched, listened) \<Rightarrow>
                if matched then []
                else ''    Expected args: '' @ mt_describe_to (ex_extra_matcher x) @
                  newline @ ''           Actual: don'' @ [apostrophe] @ ''t match'' @
                  print_if_not_empty listened @ newline))
         else do {
           satisfied \<leftarrow> all_prerequisites_are_satisfied (stack w) w e;
           if \<not> satisfied then do {
             unsatisfied_prereqs \<leftarrow> find_unsatisfied_prerequisites (stack w) w e [];
             Some (''         Expected: all pre-requisites are satisfied'' @ newline @
               ''           Actual: the following immediate pre-requisites '' @
               ''are not satisfied:'' @ newline @
               concat (map (\<lambda>(i, p). describe_location (exp_at w p) @ ''pre-requisite #'' @ string_of_nat i @ newline)
                 (zip [0..<length unsatisfied_prereqs] unsatisfied_prereqs)) @
               ''                   (end of pre-requisites)'' @ newline)
           }
           else Some (''The call matches the expectation.'' @ newline)
         })"

fun tried_expectations ::
  "('v \<Rightarrow> string) \<Rightarrow> nat \<Rightarrow> nat \<Rightarrow> nat list \<Rightarrow> 'v list \<Rightarrow> ('v, 'm) gmock_world \<Rightarrow> string option" where
  "tried_expectations pr count i [] args w = Some []"
| "tried_expectations pr count i (e # es) args w = do {
     explanation \<leftarrow> explain_match_result pr e args w;
     rest \<leftarrow> tried_expectations pr count (Suc i) es args w;
     Some (newline @ describe_location (exp_at w e) @
       (if 1 < count then ''tried expectation #'' @ string_of_nat i @ '': '' else []) @
       ex_source_text (exp_at w e) @ ''...'' @ newline @ explanation @
       describe_call_count (exp_at w e) @ rest)
   }"

definition print_tried_expectations ::
  "('v \<Rightarrow> string) \<Rightarrow> nat \<Rightarrow> 'v list \<Rightarrow> ('v, 'm) gmock_world \<Rightarrow> string option" where
  "print_tried_expectations pr f args w =
     (let count = length (fm_expectations (mocker_at w f))
      in map_option (\<lambda>text. ''Google Mock tried the following '' @ string_of_nat count @ '' '' @
           (if count = 1 then ''expectation, but it didn'' @ [apostrophe] @ ''t match''
            else ''expectations, but none matched'') @ '':'' @ newline @ text)
         (tried_expectations pr count 0 (fm_expectations (mocker_at w f)) args w))"

definition describe_uninteresting_call :: "('v \<Rightarrow> string) \<Rightarrow> nat \<Rightarrow> 'v list \<Rightarrow> ('v, 'm) gmock_world \<Rightarrow> string" where
  "describe_uninteresting_call pr f args w =
     ''Uninteresting mock function call - '' @ describe_default_action f args w @
     ''    Function call: '' @ the (fm_name (mocker_at w f)) @ print_tuple_to (map pr args)"

subsection \<open>The call\<close>

definition report_uninteresting_call ::
  "call_reaction \<Rightarrow> string \<Rightarrow> ('v, 'm) gmock_world \<Rightarrow> ('v, 'm) gmock_world" where
  "report_uninteresting_call reaction msg w =
     (case reaction of
        K_allow \<Rightarrow> gmock_log K_info msg 3 w
      | K_warn \<Rightarrow> gmock_log K_warning msg 3 w
      | K_fail \<Rightarrow> gmock_expect False None (- 1) msg w)"

text \<open>\<open>PrintAsActionResult\<close>; a function without a result has no result holder.\<close>

definition print_action_result :: "('v \<Rightarrow> string) \<Rightarrow> 'v option \<Rightarrow> string" where
  "print_action_result pr v =
     (case v of None \<Rightarrow> [] | Some v \<Rightarrow> newline @ ''          Returns: '' @ pr v)"

definition uninteresting_call ::
  "('v \<Rightarrow> string) \<Rightarrow> nat \<Rightarrow> 'v list \<Rightarrow> ('v, 'm) gmock_world \<Rightarrow> ('v, 'm) gmock_world \<times> 'v mock_result" where
  "uninteresting_call pr f args w =
     (let reaction = get_reaction (the (fm_mock_obj (mocker_at w f))) w;
          need_to_report =
            (if reaction = K_allow then log_is_visible (gw_verbose w) K_info
             else if reaction = K_warn then log_is_visible (gw_verbose w) K_warning
             else True)
      in if \<not> need_to_report then perform_default_action f args [] w
         else let ss = describe_uninteresting_call pr f args w
         in case perform_default_action f args ss w of
              (w, Returned_value v) \<Rightarrow>
                (report_uninteresting_call reaction (ss @ print_action_result pr v) w, Returned_value v)
            | (w, r) \<Rightarrow> (w, r))"

text \<open>
  The critical section: the expectation that handles the call, its action, whether the call is
  excessive, and the two descriptions.
\<close>

definition untyped_find_matching_expectation ::
  "('v \<Rightarrow> string) \<Rightarrow> nat \<Rightarrow> 'v list \<Rightarrow> ('v, 'm) gmock_world \<Rightarrow>
   (('v, 'm) gmock_world \<times> nat option \<times> ('v, 'm) mock_action option \<times> bool \<times> string \<times> string) option" where
  "untyped_find_matching_expectation pr f args w = do {
     (w, found) \<leftarrow> find_matching_expectation f args w;
     case found of
       None \<Rightarrow> do {
         why \<leftarrow> print_tried_expectations pr f args w;
         Some (w, None, None, False,
           newline @ ''Unexpected mock function call - '' @ describe_default_action f args w, why)
       }
     | Some e \<Rightarrow> do {
         let is_excessive = is_saturated (exp_at w e);
         (w, action, what, why) \<leftarrow> get_action_for_arguments f e args w;
         let action = (case action of None \<Rightarrow> None | Some a \<Rightarrow> if is_do_default a then None else Some a);
         Some (w, Some e, action, is_excessive, what, why)
       }
   }"

definition perform_found ::
  "nat \<Rightarrow> ('v, 'm) mock_action option \<Rightarrow> 'v list \<Rightarrow> string \<Rightarrow> ('v, 'm) gmock_world \<Rightarrow>
   ('v, 'm) gmock_world \<times> 'v mock_result" where
  "perform_found f action args call_description w =
     (case action of
        None \<Rightarrow> perform_default_action f args call_description w
      | Some a \<Rightarrow> run_action a args w)"

definition untyped_invoke_with ::
  "('v \<Rightarrow> string) \<Rightarrow> nat \<Rightarrow> 'v list \<Rightarrow> ('v, 'm) gmock_world \<Rightarrow> (('v, 'm) gmock_world \<times> 'v mock_result) option" where
  "untyped_invoke_with pr f args w =
     (if fm_expectations (mocker_at w f) = [] then Some (uninteresting_call pr f args w)
      else do {
        (w, found, action, is_excessive, what, why) \<leftarrow> untyped_find_matching_expectation pr f args w;
        let need_to_report_call = (found = None \<or> is_excessive \<or> log_is_visible (gw_verbose w) K_info);
        if \<not> need_to_report_call then Some (perform_found f action args [] w)
        else do {
          let ss = what @ ''    Function call: '' @ the (fm_name (mocker_at w f)) @ print_tuple_to (map pr args);
          let location = (case found of None \<Rightarrow> (None, - 1)
                | Some e \<Rightarrow> (Some (ex_file (exp_at w e)), ex_line (exp_at w e)));
          let loc = (case found of None \<Rightarrow> [] | Some e \<Rightarrow> describe_location (exp_at w e));
          Some (case perform_found f action args ss w of
              (w, Returned_value v) \<Rightarrow>
                (let ss = ss @ print_action_result pr v @ newline @ why
                 in (if found = None then gmock_expect False None (- 1) ss w
                     else if is_excessive then gmock_expect False (fst location) (snd location) ss w
                     else gmock_log K_info (loc @ ss) 2 w,
                     Returned_value v))
            | (w, r) \<Rightarrow> (w, r))
        }
      })"

text \<open>What \<open>MOCK_METHODn\<close> makes of a call of the method.\<close>

definition mock_method ::
  "('v \<Rightarrow> string) \<Rightarrow> nat \<Rightarrow> string \<Rightarrow> nat \<Rightarrow> 'v list \<Rightarrow> ('v, 'm) gmock_world \<Rightarrow>
   (('v, 'm) gmock_world \<times> 'v mock_result) option" where
  "mock_method pr mock_obj name f args w =
     untyped_invoke_with pr f args (set_owner_and_name mock_obj name f w)"

subsection \<open>Verification\<close>

fun verify_each ::
  "nat list \<Rightarrow> ('v, 'm) gmock_world \<Rightarrow> ('v, 'm) gmock_world \<times> bool" where
  "verify_each [] w = (w, True)"
| "verify_each (e # es) w =
     (let x = exp_at w e
      in if is_over_saturated x then (fst (verify_each es w), False)
         else if \<not> is_satisfied x then
           (fst (verify_each es
              (gmock_expect False (Some (ex_file x)) (ex_line x)
                (''Actual function call count doesn'' @ [apostrophe] @ ''t match '' @ ex_source_text x @ ''...'' @
                 newline @ describe_extra_matcher x @ describe_call_count x) w)), False)
         else verify_each es w)"

definition verify_and_clear_expectations_locked ::
  "nat \<Rightarrow> ('v, 'm) gmock_world \<Rightarrow> ('v, 'm) gmock_world \<times> bool" where
  "verify_and_clear_expectations_locked f w =
     (let expectations = fm_expectations (mocker_at w f);
          (w, expectations_met) = verify_each expectations w;
          w = change_mocker f (\<lambda>fm. fm\<lparr>fm_expectations := []\<rparr>) w
      in (release_all expectations w, expectations_met))"

definition clear_default_actions_locked :: "nat \<Rightarrow> ('v, 'm) gmock_world \<Rightarrow> ('v, 'm) gmock_world" where
  "clear_default_actions_locked f = change_mocker f (\<lambda>fm. fm\<lparr>fm_on_call_specs := []\<rparr>)"

definition object_mockers :: "nat \<Rightarrow> ('v, 'm) gmock_world \<Rightarrow> nat list" where
  "object_mockers mock_obj w =
     (case map_of (gw_registry w) mock_obj of None \<Rightarrow> [] | Some s \<Rightarrow> mo_function_mockers s)"

fun verify_mockers :: "nat list \<Rightarrow> ('v, 'm) gmock_world \<Rightarrow> ('v, 'm) gmock_world \<times> bool" where
  "verify_mockers [] w = (w, True)"
| "verify_mockers (f # fs) w =
     (let (w, met) = verify_and_clear_expectations_locked f w;
          (w, all_met) = verify_mockers fs w
      in (w, met \<and> all_met))"

text \<open>\<open>Mock::VerifyAndClearExpectations\<close> and \<open>Mock::VerifyAndClear\<close>.\<close>

definition verify_and_clear_expectations ::
  "nat \<Rightarrow> ('v, 'm) gmock_world \<Rightarrow> ('v, 'm) gmock_world \<times> bool" where
  "verify_and_clear_expectations mock_obj w = verify_mockers (object_mockers mock_obj w) w"

definition verify_and_clear :: "nat \<Rightarrow> ('v, 'm) gmock_world \<Rightarrow> ('v, 'm) gmock_world \<times> bool" where
  "verify_and_clear mock_obj w =
     verify_and_clear_expectations mock_obj (fold clear_default_actions_locked (object_mockers mock_obj w) w)"

text \<open>The destructor of a function mocker, and the exit of the program.\<close>

definition destroy_mocker :: "nat \<Rightarrow> ('v, 'm) gmock_world \<Rightarrow> ('v, 'm) gmock_world" where
  "destroy_mocker f w =
     (let w = fst (verify_and_clear_expectations_locked f w);
          w = clear_default_actions_locked f (unregister_mocker f w)
      in w\<lparr>gw_mockers := (gw_mockers w)[f := None]\<rparr>)"

definition leak_message :: "(nat \<Rightarrow> string) \<Rightarrow> nat \<times> mock_object_state \<Rightarrow> string" where
  "leak_message address = (\<lambda>(k, s).
     newline @ format_file_location (mo_first_used_file s) (mo_first_used_line s) @
     '' ERROR: this mock object'' @
     (if mo_first_used_test s \<noteq> [] then '' (used in test '' @ mo_first_used_test_case s @ ''.'' @
        mo_first_used_test s @ '')'' else []) @
     '' should be deleted but never is. Its address is @'' @ address k @ ''.'')"

text \<open>The output, and the code of \<open>_exit\<close> when objects have leaked.\<close>

definition destroy_registry :: "(nat \<Rightarrow> string) \<Rightarrow> ('v, 'm) gmock_world \<Rightarrow> ('v, 'm) gmock_world \<times> int option" where
  "destroy_registry address w =
     (if \<not> gw_catch_leaked_mocks w then (w, None)
      else let leaked = filter (\<lambda>(k, s). \<not> mo_leakable s) (gw_registry w)
      in if leaked \<noteq> []
         then (w\<lparr>gw_output := gw_output w @ concat (map (leak_message address) leaked) @
             newline @ ''ERROR: '' @ string_of_nat (length leaked) @ '' leaked mock '' @
             (if length leaked = 1 then ''object'' else ''objects'') @ '' found at program exit.'' @ newline\<rparr>,
           Some 1)
         else (w, None))"

end
