(* ===== verification/Gmock_Book.thy ===== *)
theory Gmock_Book
  imports Gmock_Call
begin

text \<open>
  What gmock promises about calls, without its pointers and messages. A \<open>book\<close> maps the addresses
  of the living expectations to their state; \<open>book_call\<close> gives the verdict on a call in terms of
  the transitive prerequisites. The theory proves that the code of \<open>Gmock_World\<close> and \<open>Gmock_Call\<close>
  implements it: recursions end when prerequisites are older than what needs them, and the
  short cut of \<open>RetireAllPreRequisites\<close> is sound because retired expectations are closed under
  prerequisites.
\<close>

type_synonym ('v, 'm) book = "nat \<rightharpoonup> ('v, 'm) expectation"

definition book :: "('v, 'm) gmock_world \<Rightarrow> ('v, 'm) book" where
  "book w e = (if e < length (gw_expectations w)
     then map_option (\<lambda>x. x\<lparr>ex_action_count_checked := True\<rparr>) (gw_expectations w ! e) else None)"

definition needs :: "('v, 'm) book \<Rightarrow> (nat \<times> nat) set" where
  "needs B = {(e, p). \<exists>x. B e = Some x \<and> p \<in> set (ex_prerequisites x)}"

definition satisfied_in :: "('v, 'm) book \<Rightarrow> nat \<Rightarrow> bool" where
  "satisfied_in B e \<longleftrightarrow> (\<exists>x. B e = Some x \<and> is_satisfied x)"

definition retired_in :: "('v, 'm) book \<Rightarrow> nat \<Rightarrow> bool" where
  "retired_in B e \<longleftrightarrow> (\<exists>x. B e = Some x \<and> ex_retired x)"

definition eligible :: "('v, 'm) book \<Rightarrow> 'v list \<Rightarrow> nat \<Rightarrow> bool" where
  "eligible B args e \<longleftrightarrow> (\<exists>x. B e = Some x \<and> \<not> ex_retired x \<and> expectation_matches x args) \<and>
     (\<forall>p. (e, p) \<in> (needs B)\<^sup>+ \<longrightarrow> satisfied_in B p)"

definition retire_set :: "nat set \<Rightarrow> ('v, 'm) book \<Rightarrow> ('v, 'm) book" where
  "retire_set S B = (\<lambda>e. if e \<in> S then map_option (\<lambda>x. x\<lparr>ex_retired := True\<rparr>) (B e) else B e)"

definition count_call :: "nat \<Rightarrow> ('v, 'm) book \<Rightarrow> ('v, 'm) book" where
  "count_call e B = B(e := map_option (\<lambda>x. x\<lparr>ex_call_count := ex_call_count x + 1\<rparr>) (B e))"

datatype verdict = Unmatched | Excessive nat | Handled nat

definition retires_now :: "('v, 'm) book \<Rightarrow> nat \<Rightarrow> nat set" where
  "retires_now B e = (needs B)\<^sup>+ `` {e} \<union>
     {d. d = e \<and> (\<exists>x. B e = Some x \<and> ex_retires_on_saturation x \<and> is_saturated x)}"

definition book_call :: "nat list \<Rightarrow> 'v list \<Rightarrow> ('v, 'm) book \<Rightarrow> ('v, 'm) book \<times> verdict" where
  "book_call es args B =
     (case find (eligible B args) (rev es) of
        None \<Rightarrow> (B, Unmatched)
      | Some e \<Rightarrow>
          (if is_saturated (the (B e)) then (count_call e B, Excessive e)
           else (retire_set (retires_now (count_call e B) e) (count_call e B), Handled e)))"

definition book_ok :: "('v, 'm) book \<Rightarrow> bool" where
  "book_ok B \<longleftrightarrow> (\<forall>e p. (e, p) \<in> needs B \<longrightarrow> p < e \<and> B p \<noteq> None)"

definition retired_closed :: "('v, 'm) book \<Rightarrow> bool" where
  "retired_closed B \<longleftrightarrow> (\<forall>e p. (e, p) \<in> needs B \<longrightarrow> retired_in B e \<longrightarrow> retired_in B p)"

subsection \<open>Books\<close>

lemma checked_irrelevant [simp]:
  "is_satisfied (x\<lparr>ex_action_count_checked := b\<rparr>) = is_satisfied x"
  "is_saturated (x\<lparr>ex_action_count_checked := b\<rparr>) = is_saturated x"
  "is_over_saturated (x\<lparr>ex_action_count_checked := b\<rparr>) = is_over_saturated x"
  "expectation_matches (x\<lparr>ex_action_count_checked := b\<rparr>) args = expectation_matches x args"
  "is_satisfied (x\<lparr>ex_retired := b\<rparr>) = is_satisfied x"
  "is_saturated (x\<lparr>ex_retired := b\<rparr>) = is_saturated x"
  "is_over_saturated (x\<lparr>ex_retired := b\<rparr>) = is_over_saturated x"
  "expectation_matches (x\<lparr>ex_retired := b\<rparr>) args = expectation_matches x args"
  "expectation_matches (x\<lparr>ex_call_count := n\<rparr>) args = expectation_matches x args"
  by (simp_all add: is_satisfied_def is_saturated_def is_over_saturated_def expectation_matches_def)

lemma book_alive: "alive w e \<Longrightarrow> book w e = Some ((exp_at w e)\<lparr>ex_action_count_checked := True\<rparr>)"
  by (auto simp: book_def alive_def exp_at_def)

lemma book_None: "book w e = None \<longleftrightarrow> \<not> alive w e"
  by (auto simp: book_def alive_def)

lemma alive_iff: "alive w e \<longleftrightarrow> book w e \<noteq> None"
  by (simp add: book_None)

lemma needs_retire_set [simp]: "needs (retire_set S B) = needs B"
  by (auto simp: needs_def retire_set_def split: if_splits)

lemma needs_count_call [simp]: "needs (count_call e B) = needs B"
  by (auto simp: needs_def count_call_def split: if_splits)

lemma retire_set_None [simp]: "retire_set S B e = None \<longleftrightarrow> B e = None"
  by (simp add: retire_set_def)

lemma count_call_None [simp]: "count_call d B e = None \<longleftrightarrow> B e = None"
  by (simp add: count_call_def)

lemma retire_set_Un: "retire_set S (retire_set T B) = retire_set (S \<union> T) B"
  by (auto simp: retire_set_def fun_eq_iff option.map_comp o_def intro!: map_option_cong)

lemma retire_set_empty [simp]: "retire_set {} B = B"
  by (simp add: retire_set_def)

lemma retire_set_retired: "(\<And>e. e \<in> S \<Longrightarrow> retired_in B e) \<Longrightarrow> retire_set S B = B"
  by (fastforce simp: retire_set_def retired_in_def fun_eq_iff)

lemma retired_in_retire_set: "retired_in (retire_set S B) e \<longleftrightarrow> retired_in B e \<or> e \<in> S \<and> B e \<noteq> None"
  by (auto simp: retired_in_def retire_set_def)

lemma satisfied_in_retire_set [simp]: "satisfied_in (retire_set S B) e = satisfied_in B e"
  by (auto simp: satisfied_in_def retire_set_def)

lemma retired_in_count_call [simp]: "retired_in (count_call e B) d = retired_in B d"
  by (auto simp: retired_in_def count_call_def)

lemma book_ok_retire_set [simp]: "book_ok (retire_set S B) = book_ok B"
  by (simp add: book_ok_def)

lemma book_ok_count_call [simp]: "book_ok (count_call e B) = book_ok B"
  by (simp add: book_ok_def)

lemma retired_closed_count_call [simp]: "retired_closed (count_call e B) = retired_closed B"
  by (simp add: retired_closed_def)

lemma needs_older: "(e, p) \<in> (needs B)\<^sup>+ \<Longrightarrow> book_ok B \<Longrightarrow> p < e \<and> B p \<noteq> None"
  by (induction rule: trancl_induct) (unfold book_ok_def, blast, meson less_trans)

lemma retired_closed_trancl:
  "(e, p) \<in> (needs B)\<^sup>+ \<Longrightarrow> retired_closed B \<Longrightarrow> retired_in B e \<Longrightarrow> retired_in B p"
  by (induction rule: trancl_induct) (auto simp: retired_closed_def)

lemma retired_closed_retire_set:
  assumes "retired_closed B" and "book_ok B" and "(needs B)\<^sup>+ `` S \<subseteq> S"
  shows "retired_closed (retire_set S B)"
  using assms by (fastforce simp: retired_closed_def retired_in_retire_set book_ok_def Image_def)

subsection \<open>The code keeps the book\<close>

lemma book_cong: "gw_expectations w = gw_expectations w' \<Longrightarrow> book w = book w'"
  by (simp add: book_def fun_eq_iff)

lemma book_change_exp:
  "alive w e \<Longrightarrow> book (change_exp e f w) =
     (book w)(e \<mapsto> (f (exp_at w e))\<lparr>ex_action_count_checked := True\<rparr>)"
  by (auto simp: book_def change_exp_def alive_def fun_eq_iff nth_list_update)

lemma alive_change_exp [simp]: "alive w e \<Longrightarrow> alive (change_exp e f w) d = alive w d"
  by (auto simp: alive_def change_exp_def nth_list_update)

lemma length_change_exp [simp]: "length (gw_expectations (change_exp e f w)) = length (gw_expectations w)"
  by (simp add: change_exp_def)

lemma book_gmock_log [simp]: "book (gmock_log sev msg k w) = book w"
  by (rule book_cong) simp

lemma book_check_action_count [simp]: "alive w e \<Longrightarrow> book (check_action_count e w) = book w"
  by (auto simp: check_action_count_def Let_def book_change_exp book_alive fun_eq_iff split: option.split)

lemma alive_book: "book w = book w' \<Longrightarrow> alive w e = alive w' e"
  using book_None by metis

lemma exp_at_book:
  assumes "alive w e"
  shows "is_satisfied (exp_at w e) = satisfied_in (book w) e"
    and "ex_retired (exp_at w e) = retired_in (book w) e"
    and "is_saturated (exp_at w e) = is_saturated (the (book w e))"
    and "ex_prerequisites (exp_at w e) = ex_prerequisites (the (book w e))"
    and "expectation_matches (exp_at w e) args = expectation_matches (the (book w e)) args"
  using book_alive [OF assms] by (simp_all add: satisfied_in_def retired_in_def)

lemma needs_exp_at: "alive w e \<Longrightarrow> (e, p) \<in> needs (book w) \<longleftrightarrow> p \<in> set (ex_prerequisites (exp_at w e))"
  using book_alive [of w e] by (simp add: needs_def)

lemma needs_trancl_first:
  "(e, p) \<in> r\<^sup>+ \<longleftrightarrow> (\<exists>q. (e, q) \<in> r \<and> (q = p \<or> (q, p) \<in> r\<^sup>+))"
  by (meson r_into_trancl trancl_into_trancl2 tranclD rtranclD)

lemma every_Some: "(\<And>x. x \<in> set xs \<Longrightarrow> p x = Some (q x)) \<Longrightarrow> every p xs = Some (\<forall>x \<in> set xs. q x)"
  by (induction xs) (auto split: bool.split)

lemma all_prerequisites_spec:
  assumes "book_ok (book w)"
  shows "alive w e \<Longrightarrow> e < n \<Longrightarrow> all_prerequisites_are_satisfied n w e =
    Some (\<forall>p. (e, p) \<in> (needs (book w))\<^sup>+ \<longrightarrow> satisfied_in (book w) p)"
proof (induction n arbitrary: e)
  case (Suc n)
  define good where "good p \<longleftrightarrow> satisfied_in (book w) p \<and>
    (\<forall>q. (p, q) \<in> (needs (book w))\<^sup>+ \<longrightarrow> satisfied_in (book w) q)" for p
  have p: "p < e \<and> alive w p" if "p \<in> set (ex_prerequisites (exp_at w e))" for p
    using assms that needs_exp_at [OF Suc.prems(1), of p] by (auto simp: book_ok_def book_None)
  have "every (\<lambda>p. if \<not> is_satisfied (exp_at w p) then Some False
      else all_prerequisites_are_satisfied n w p) (ex_prerequisites (exp_at w e)) =
    Some (\<forall>p \<in> set (ex_prerequisites (exp_at w e)). good p)"
  proof (rule every_Some)
    fix p
    assume "p \<in> set (ex_prerequisites (exp_at w e))"
    with p [of p] Suc.prems(2) show "(if \<not> is_satisfied (exp_at w p) then Some False
        else all_prerequisites_are_satisfied n w p) = Some (good p)"
      by (auto simp: good_def exp_at_book Suc.IH)
  qed
  moreover have "(e, p) \<in> (needs (book w))\<^sup>+ \<longleftrightarrow>
      (\<exists>q \<in> set (ex_prerequisites (exp_at w e)). q = p \<or> (q, p) \<in> (needs (book w))\<^sup>+)" for p
    by (subst needs_trancl_first) (auto simp: needs_exp_at Suc.prems(1))
  then have "(\<forall>p \<in> set (ex_prerequisites (exp_at w e)). good p) \<longleftrightarrow>
      (\<forall>p. (e, p) \<in> (needs (book w))\<^sup>+ \<longrightarrow> satisfied_in (book w) p)"
    unfolding good_def by blast
  ultimately show ?case
    by simp
qed simp

lemma book_retire: "alive w e \<Longrightarrow> book (retire e w) = retire_set {e} (book w)"
  by (simp add: retire_def book_change_exp retire_set_def book_alive fun_eq_iff)

lemma count_then_checked:
  "x\<lparr>ex_call_count := n, ex_action_count_checked := b\<rparr> = x\<lparr>ex_action_count_checked := b, ex_call_count := n\<rparr>"
  by simp

lemma book_increment: "alive w e \<Longrightarrow> book (increment_call_count e w) = count_call e (book w)"
  by (simp add: increment_call_count_def book_change_exp count_call_def book_alive count_then_checked)

lemma retire_all_spec:
  assumes "book_ok (book w)" and "retired_closed (book w)"
  shows "alive w e \<Longrightarrow> e < n \<Longrightarrow>
    \<exists>w'. retire_all_prerequisites n e w = Some w' \<and> book w' = retire_set ((needs (book w))\<^sup>+ `` {e}) (book w)"
  using assms
proof (induction n arbitrary: e w)
  case (Suc n)
  show ?case
  proof (cases "ex_retired (exp_at w e)")
    case True
    then have "retire_set ((needs (book w))\<^sup>+ `` {e}) (book w) = book w"
      using retired_closed_trancl [OF _ Suc.prems(4)] Suc.prems(1)
      by (intro retire_set_retired) (auto simp: exp_at_book)
    with True show ?thesis
      by simp
  next
    case False
    define ps where "ps = ex_prerequisites (exp_at w e)"
    define part where "part T = (\<Union>p \<in> T. insert p ((needs (book w))\<^sup>+ `` {p}))" for T
    have p: "p < e \<and> alive w p" if "p \<in> set ps" for p
      using Suc.prems(3) that needs_exp_at [OF Suc.prems(1), of p]
      by (auto simp: book_ok_def book_None ps_def)
    have closed: "(needs (book w))\<^sup>+ `` part T \<subseteq> part T" for T
      by (auto simp: part_def intro: trancl_trans)
    have step: "\<exists>v'. (if ex_retired (exp_at v p) then Some v
          else map_option (retire p) (retire_all_prerequisites n p v)) = Some v' \<and>
        book v' = retire_set (part (insert p T)) (book w)"
      if v: "book v = retire_set (part T) (book w)" and q: "p \<in> set ps" for v T p
    proof -
      have alive: "alive v p" and ok: "book_ok (book v)" "retired_closed (book v)"
        using p [OF q] v Suc.prems closed by (simp_all add: alive_iff retired_closed_retire_set)
      show ?thesis
      proof (cases "ex_retired (exp_at v p)")
        case True
        have "retire_set (insert p ((needs (book w))\<^sup>+ `` {p})) (book v) = book v"
          using True alive retired_closed_trancl [OF _ ok(2)] v
          by (intro retire_set_retired) (auto simp: exp_at_book)
        with True v show ?thesis
          by (simp add: retire_set_Un part_def Un_commute)
      next
        case False
        obtain v' where v': "retire_all_prerequisites n p v = Some v'"
            "book v' = retire_set ((needs (book v))\<^sup>+ `` {p}) (book v)"
          using Suc.IH [OF alive _ ok] p [OF q] Suc.prems(2) by auto
        have "alive v' p"
          using alive v'(2) by (simp add: alive_iff)
        with False v v' show ?thesis
          by (simp add: book_retire retire_set_Un part_def Un_ac)
      qed
    qed
    have "\<exists>w'. each_in_turn (\<lambda>p w. if ex_retired (exp_at w p) then Some w
          else map_option (retire p) (retire_all_prerequisites n p w)) qs v = Some w' \<and>
        book w' = retire_set (part (set qs \<union> T)) (book w)"
      if "book v = retire_set (part T) (book w)" and "set qs \<subseteq> set ps" for qs T v
      using that
    proof (induction qs arbitrary: v T)
      case (Cons q qs)
      obtain v' where "(if ex_retired (exp_at v q) then Some v
            else map_option (retire q) (retire_all_prerequisites n q v)) = Some v'"
          "book v' = retire_set (part (insert q T)) (book w)"
        using step [OF Cons.prems(1), of q] Cons.prems(2) by auto
      then show ?case
        using Cons.IH [of v' "insert q T"] Cons.prems(2) by simp
    qed simp
    from this [of w "{}" ps] have "\<exists>w'. each_in_turn (\<lambda>p w. if ex_retired (exp_at w p) then Some w
          else map_option (retire p) (retire_all_prerequisites n p w)) ps w = Some w' \<and>
        book w' = retire_set (part (set ps)) (book w)"
      by (simp add: part_def)
    moreover have "part (set ps) = (needs (book w))\<^sup>+ `` {e}"
      unfolding part_def using needs_exp_at [OF Suc.prems(1)]
      by (auto simp: ps_def needs_trancl_first [of e])
    ultimately show ?thesis
      using False by (simp add: ps_def)
  qed
qed simp

lemma each_in_turn_total:
  "(\<And>p r. p \<in> set ps \<Longrightarrow> g p r \<noteq> None) \<Longrightarrow> each_in_turn g ps r \<noteq> None"
  by (induction ps arbitrary: r) (auto simp: bind_eq_None_conv)

lemma find_unsatisfied_spec:
  assumes "book_ok (book w)"
  shows "alive w e \<Longrightarrow> e < n \<Longrightarrow> find_unsatisfied_prerequisites n w e result \<noteq> None"
proof (induction n arbitrary: e result)
  case (Suc n)
  have p: "p < e \<and> alive w p" if "p \<in> set (ex_prerequisites (exp_at w e))" for p
    using assms that needs_exp_at [OF Suc.prems(1), of p] by (auto simp: book_ok_def book_None)
  have "find_unsatisfied_prerequisites n w p r \<noteq> None" if "p \<in> set (ex_prerequisites (exp_at w e))" for p r
    using p [OF that] Suc.prems(2) by (intro Suc.IH) simp_all
  then show ?case
    unfolding find_unsatisfied_prerequisites.simps by (intro each_in_turn_total) auto
qed simp

subsection \<open>The code implements the book\<close>

text \<open>Nothing but expectations and the output differ.\<close>

definition logged :: "('v, 'm) gmock_world \<Rightarrow> ('v, 'm) gmock_world \<Rightarrow> bool" where
  "logged w w' \<longleftrightarrow> (\<exists>xs out. w' = w\<lparr>gw_expectations := xs, gw_output := out\<rparr>)"

lemma logged_refl [simp]: "logged w w"
  unfolding logged_def by (rule exI [of _ "gw_expectations w"], rule exI [of _ "gw_output w"]) simp

lemma loggedI: "logged w (w\<lparr>gw_expectations := xs, gw_output := out\<rparr>)"
  unfolding logged_def by blast

lemma logged_trans [trans]: "logged u v \<Longrightarrow> logged v w \<Longrightarrow> logged u w"
  by (auto simp: logged_def [of _ v] logged_def [of v] intro!: loggedI)

lemma logged_change_exp [simp]: "logged w (change_exp e g w)"
  unfolding logged_def change_exp_def by (rule exI, rule exI [of _ "gw_output w"]) simp

lemma logged_gmock_log [simp]: "logged w (gmock_log sev msg k w)"
  unfolding logged_def gmock_log_def
  by (rule exI [of _ "gw_expectations w"]) (auto intro: exI [of _ "gw_output w"])

lemma logged_check_action_count [simp]: "logged w (check_action_count e w)"
  by (auto simp: check_action_count_def Let_def split: option.split
      intro: logged_trans [OF logged_change_exp logged_gmock_log])

lemma each_in_turn_logged:
  assumes "each_in_turn g ps v = Some v'" and "\<And>p v v'. g p v = Some v' \<Longrightarrow> logged v v'"
  shows "logged v v'"
  using assms by (induction ps arbitrary: v) (auto simp: bind_eq_Some_conv, metis logged_trans)

lemma logged_retire_all: "retire_all_prerequisites n e w = Some w' \<Longrightarrow> logged w w'"
proof (induction n arbitrary: e w w')
  case (Suc n)
  show ?case
  proof (cases "ex_retired (exp_at w e)")
    case False
    with Suc.prems have "each_in_turn (\<lambda>p w. if ex_retired (exp_at w p) then Some w
        else map_option (retire p) (retire_all_prerequisites n p w)) (ex_prerequisites (exp_at w e)) w = Some w'"
      by simp
    then show ?thesis
      by (rule each_in_turn_logged)
        (auto simp: retire_def intro: logged_trans [OF Suc.IH logged_change_exp] split: if_splits)
  qed (use Suc.prems in simp)
qed simp

lemma logged_fields:
  assumes "logged w w'"
  shows "gw_mockers w' = gw_mockers w" and "gw_failures w' = gw_failures w"
    and "gw_sequences w' = gw_sequences w" and "gw_handles w' = gw_handles w"
    and "gw_verbose w' = gw_verbose w" and "gw_memory w' = gw_memory w"
    and "mocker_at w' f = mocker_at w f" and "gw_implicit_sequence w' = gw_implicit_sequence w"
    and "gw_defaults w' = gw_defaults w"
  using assms by (auto simp: logged_def mocker_at_def)

lemma alive_stack: "alive w e \<Longrightarrow> e < stack w"
  by (simp add: alive_def stack_def)

lemma should_handle_spec:
  assumes "book_ok (book w)" and e: "alive w e"
  shows "\<exists>w'. should_handle_arguments e args w = Some (w', eligible (book w) args e) \<and>
    book w' = book w \<and> logged w w'"
proof -
  define v where "v = check_action_count e w"
  have v: "book v = book w" "logged w v" "alive v e"
    using e by (simp_all add: v_def alive_iff)
  have "eligible (book w) args e \<longleftrightarrow> \<not> retired_in (book v) e \<and>
      (\<forall>p. (e, p) \<in> (needs (book v))\<^sup>+ \<longrightarrow> satisfied_in (book v) p) \<and> expectation_matches (exp_at v e) args"
    using book_alive [OF v(3)] v(1) by (auto simp: eligible_def retired_in_def)
  with all_prerequisites_spec [of v e "stack v"] v assms(1) alive_stack [OF v(3)] show ?thesis
    unfolding should_handle_arguments_def Let_def v_def [symmetric]
    by (auto simp: exp_at_book)
qed

lemma find_matching_spec:
  "book_ok (book w) \<Longrightarrow> (\<And>e. e \<in> set es \<Longrightarrow> alive w e) \<Longrightarrow>
   \<exists>w'. find_matching_from es args w = Some (w', find (eligible (book w) args) es) \<and>
     book w' = book w \<and> logged w w'"
proof (induction es arbitrary: w)
  case (Cons e es)
  obtain v where v: "should_handle_arguments e args w = Some (v, eligible (book w) args e)"
      "book v = book w" "logged w v"
    using should_handle_spec [OF Cons.prems(1), of e args] Cons.prems(2) by auto
  show ?case
  proof (cases "eligible (book w) args e")
    case False
    obtain w' where "find_matching_from es args v = Some (w', find (eligible (book v) args) es)"
        "book w' = book v" "logged v w'"
      using Cons.IH [of v] Cons.prems v(2) by (auto simp: alive_iff)
    with False v show ?thesis
      using logged_trans by fastforce
  qed (use v in auto)
qed auto

lemma explain_match_result_spec: "book_ok (book w) \<Longrightarrow> alive w e \<Longrightarrow> explain_match_result pr e args w \<noteq> None"
  using all_prerequisites_spec [of w e "stack w"] find_unsatisfied_spec [of w e "stack w" "[]"] alive_stack [of w e]
  by (auto simp: explain_match_result_def Let_def)

lemma tried_expectations_spec:
  "book_ok (book w) \<Longrightarrow> (\<And>e. e \<in> set es \<Longrightarrow> alive w e) \<Longrightarrow> tried_expectations pr c i es args w \<noteq> None"
proof (induction es arbitrary: i)
  case (Cons e es)
  have "explain_match_result pr e args w \<noteq> None" and "tried_expectations pr c (Suc i) es args w \<noteq> None"
    using Cons.IH [OF Cons.prems] explain_match_result_spec [OF Cons.prems(1)] Cons.prems(2) by simp_all
  then show ?case
    by auto
qed simp

end
