(* ===== verification/Gmock_Refine.thy ===== *)
theory Gmock_Refine
  imports Gmock_Book
begin

text \<open>
  Calls of mocked functions implement \<open>book_call\<close>: the critical section gives its verdict and its
  book, the action is the one that the number of earlier calls selects, and the report that
  follows is a failure exactly for unmatched and excessive calls.
\<close>

definition chosen_action :: "('v, 'm) expectation \<Rightarrow> ('v, 'm) mock_action" where
  "chosen_action x =
     (if ex_call_count x < int (length (ex_actions x)) then ex_actions x ! nat (ex_call_count x)
      else ex_repeated_action x)"

definition normalised :: "('v, 'm) mock_action \<Rightarrow> ('v, 'm) mock_action option" where
  "normalised a = (if is_do_default a then None else Some a)"

definition action_for :: "verdict \<Rightarrow> ('v, 'm) book \<Rightarrow> ('v, 'm) mock_action option" where
  "action_for v B = (case v of Handled e \<Rightarrow> normalised (chosen_action (the (B e))) | _ \<Rightarrow> None)"

fun verdict_of :: "nat option \<Rightarrow> bool \<Rightarrow> verdict" where
  "verdict_of None is_excessive = Unmatched"
| "verdict_of (Some e) is_excessive = (if is_excessive then Excessive e else Handled e)"

definition mocker_ok :: "('v, 'm) gmock_world \<Rightarrow> nat \<Rightarrow> bool" where
  "mocker_ok w f \<longleftrightarrow> (\<forall>e \<in> set (fm_expectations (mocker_at w f)). \<exists>x. book w e = Some x \<and> ex_owner x = f)"

lemma mocker_ok_frame:
  assumes "mocker_ok w f" and "set (fm_expectations (mocker_at w' f)) \<subseteq> set (fm_expectations (mocker_at w f))"
    and "\<And>e x. book w e = Some x \<Longrightarrow> e \<in> set (fm_expectations (mocker_at w f)) \<Longrightarrow>
      \<exists>y. book w' e = Some y \<and> ex_owner y = ex_owner x"
  shows "mocker_ok w' f"
  unfolding mocker_ok_def
proof
  fix e assume "e \<in> set (fm_expectations (mocker_at w' f))"
  then have e: "e \<in> set (fm_expectations (mocker_at w f))" using assms(2) by blast
  with assms(1) obtain x where "book w e = Some x" "ex_owner x = f" by (auto simp: mocker_ok_def)
  with assms(3) [OF _ e] show "\<exists>x. book w' e = Some x \<and> ex_owner x = f" by blast
qed

lemma mocker_ok_alive: "mocker_ok w f \<Longrightarrow> e \<in> set (fm_expectations (mocker_at w f)) \<Longrightarrow> alive w e"
  by (auto simp: mocker_ok_def alive_iff)

lemma find_SomeD: "find P xs = Some x \<Longrightarrow> x \<in> set xs \<and> P x"
  by (auto simp: find_Some_iff)

lemma get_current_action_spec:
  "logged w (fst (get_current_action f e args w)) \<and>
   book (fst (get_current_action f e args w)) = book w \<and>
   snd (get_current_action f e args w) =
     (if ex_call_count (exp_at w e) \<le> int (length (ex_actions (exp_at w e)))
      then ex_actions (exp_at w e) ! nat (ex_call_count (exp_at w e) - 1)
      else ex_repeated_action (exp_at w e))"
  by (simp add: get_current_action_def Let_def)

lemma chosen_action_counted:
  "(if ex_call_count x + 1 \<le> int (length (ex_actions x)) then ex_actions x ! nat (ex_call_count x + 1 - 1)
    else ex_repeated_action x) = chosen_action x"
  by (simp add: chosen_action_def)

text \<open>The book of an expectation that is counted, and what its prerequisites become.\<close>

lemma get_action_excessive:
  assumes "alive w e" and "is_saturated (exp_at w e)"
  shows "\<exists>w' what why. get_action_for_arguments f e args w = Some (w', None, what, why) \<and>
    book w' = count_call e (book w) \<and> logged w w'"
  using assms by (simp add: get_action_for_arguments_def book_increment Let_def)
    (simp add: increment_call_count_def)

lemma book_same_alive: "book w' = retire_set S (count_call e (book w)) \<Longrightarrow> alive w' d = alive w d"
  by (simp add: alive_iff)

lemma book_fields:
  assumes "alive w e" and "book w e = Some x"
  shows "ex_call_count (exp_at w e) = ex_call_count x" and "ex_actions (exp_at w e) = ex_actions x"
    and "ex_repeated_action (exp_at w e) = ex_repeated_action x"
    and "ex_retires_on_saturation (exp_at w e) = ex_retires_on_saturation x"
    and "is_saturated (exp_at w e) = is_saturated x"
    and "ex_cardinality (exp_at w e) = ex_cardinality x"
  using book_alive [OF assms(1)] assms(2) by auto

lemma get_action_handled:
  assumes ok: "book_ok (book w)" "retired_closed (book w)" and e: "alive w e"
    and "\<not> is_saturated (exp_at w e)"
  shows "\<exists>w' what why. get_action_for_arguments f e args w =
      Some (w', Some (chosen_action (the (book w e))), what, why) \<and>
    book w' = retire_set (retires_now (count_call e (book w)) e) (count_call e (book w)) \<and> logged w w'"
proof -
  define u where "u = increment_call_count e w"
  have u: "book u = count_call e (book w)" "alive u e" "logged w u"
    using e by (simp_all add: u_def book_increment alive_iff) (simp add: increment_call_count_def)
  obtain v where v: "retire_all_prerequisites (stack w) e u = Some v"
      "book v = retire_set ((needs (book u))\<^sup>+ `` {e}) (book u)"
    using retire_all_spec [of u e "stack w"] u ok alive_stack [OF e] by auto
  have "alive v e" and "logged u v"
    using u v by (simp_all add: alive_iff logged_retire_all)
  obtain x where x: "book w e = Some x"
    using e by (auto simp: alive_iff)
  have "e \<notin> (needs (book w))\<^sup>+ `` {e}"
    using needs_older [OF _ ok(1), of e e] by auto
  then have x': "book v e = Some (x\<lparr>ex_call_count := ex_call_count x + 1\<rparr>)"
    by (simp add: v(2) u(1) retire_set_def) (simp add: count_call_def x)
  define v' where "v' = (if ex_retires_on_saturation (exp_at v e) \<and> is_saturated (exp_at v e) then retire e v else v)"
  have v': "book v' = retire_set (retires_now (book u) e) (book u)"
    using \<open>alive v e\<close> x' x
    by (auto simp: v'_def book_retire v(2) retire_set_Un retires_now_def book_fields u(1) count_call_def
        intro!: arg_cong [of _ _ "\<lambda>S. retire_set S _"])
  have "logged v v'"
    by (simp add: v'_def retire_def)
  have "alive v' e"
    using \<open>alive v e\<close> v' v(2) by (simp add: alive_iff)
  have "\<exists>y. book v' e = Some y \<and> ex_call_count y = ex_call_count x + 1 \<and> ex_actions y = ex_actions x \<and>
      ex_repeated_action y = ex_repeated_action x"
    by (simp add: v' u(1) retire_set_def count_call_def x)
  then have x'': "ex_call_count (exp_at v' e) = ex_call_count x + 1"
      "ex_actions (exp_at v' e) = ex_actions x" "ex_repeated_action (exp_at v' e) = ex_repeated_action x"
    using book_fields [OF \<open>alive v' e\<close>] by auto
  have "get_action_for_arguments f e args w = Some (fst (get_current_action f e args v'),
      Some (snd (get_current_action f e args v')),
      ''Mock function call matches '' @ ex_source_text (exp_at (fst (get_current_action f e args v')) e) @ ''...'' @
        newline, [])"
    using assms(4) v(1) by (simp add: get_action_for_arguments_def u_def [symmetric] v'_def [symmetric] Let_def case_prod_beta)
  moreover have "snd (get_current_action f e args v') = chosen_action x"
    by (simp add: get_current_action_spec x'' chosen_action_def)
  moreover have "logged w (fst (get_current_action f e args v'))"
    using u(3) \<open>logged u v\<close> \<open>logged v v'\<close> get_current_action_spec [of v' f e args] logged_trans by blast
  ultimately show ?thesis
    using get_current_action_spec [of v' f e args] by (simp add: x v' u(1))
qed

theorem critical_section_refines:
  assumes ok: "book_ok (book w)" "retired_closed (book w)" and "mocker_ok w f"
  obtains w' found action is_excessive what why
  where "untyped_find_matching_expectation pr f args w = Some (w', found, action, is_excessive, what, why)"
    and "logged w w'"
    and "book_call (fm_expectations (mocker_at w f)) args (book w) = (book w', verdict_of found is_excessive)"
    and "action = action_for (verdict_of found is_excessive) (book w)"
    and "\<And>e. found = Some e \<Longrightarrow> alive w' e"
proof -
  let ?es = "fm_expectations (mocker_at w f)"
  obtain v where v: "find_matching_expectation f args w = Some (v, find (eligible (book w) args) (rev ?es))"
      "book v = book w" "logged w v"
    using find_matching_spec [OF ok(1), of "rev ?es" args] mocker_ok_alive [OF assms(3)]
    by (auto simp: find_matching_expectation_def)
  have es: "fm_expectations (mocker_at v f) = ?es"
    using logged_fields [OF v(3)] by simp
  show thesis
  proof (cases "find (eligible (book w) args) (rev ?es)")
    case None
    have "print_tried_expectations pr f args v \<noteq> None"
      using tried_expectations_spec [of v ?es pr _ 0 args] ok(1) mocker_ok_alive [OF assms(3)] v(2)
      by (auto simp: print_tried_expectations_def es Let_def alive_iff)
    then obtain why where "print_tried_expectations pr f args v = Some why"
      by auto
    with None v show thesis
      by (intro that [of v None None False "newline @ ''Unexpected mock function call - '' @
          describe_default_action f args v" why])
        (simp_all add: untyped_find_matching_expectation_def book_call_def action_for_def)
  next
    case (Some e)
    have e: "alive v e"
      using find_SomeD [OF Some] mocker_ok_alive [OF assms(3)] v(2) by (simp add: alive_iff)
    have saturated: "is_saturated (exp_at v e) = is_saturated (the (book w e))"
      using exp_at_book(3) [OF e] v(2) by simp
    show thesis
    proof (cases "is_saturated (exp_at v e)")
      case True
      obtain w' what why where "get_action_for_arguments f e args v = Some (w', None, what, why)"
          "book w' = count_call e (book v)" "logged v w'"
        using get_action_excessive [OF e True] by blast
      with Some v True saturated e show thesis
        by (intro that [of w' "Some e" None True what why])
          (auto simp: untyped_find_matching_expectation_def book_call_def action_for_def alive_iff
            intro: logged_trans)
    next
      case False
      obtain w' what why where "get_action_for_arguments f e args v =
            Some (w', Some (chosen_action (the (book v e))), what, why)"
          "book w' = retire_set (retires_now (count_call e (book v)) e) (count_call e (book v))" "logged v w'"
        using get_action_handled [OF _ _ e False] ok v(2) by metis
      with Some v False saturated e show thesis
        by (intro that [of w' "Some e" "normalised (chosen_action (the (book v e)))" False what why])
          (auto simp: untyped_find_matching_expectation_def book_call_def action_for_def alive_iff
            normalised_def intro: logged_trans)
    qed
  qed
qed

subsection \<open>The whole call\<close>

text \<open>An action changes the memory; a failed assertion adds a failure and ends the program.\<close>

definition performed :: "('v, 'm) gmock_world \<Rightarrow> 'v mock_result \<Rightarrow> ('v, 'm) gmock_world \<Rightarrow> bool" where
  "performed w r w' \<longleftrightarrow> (\<exists>m fs. w' = w\<lparr>gw_memory := m, gw_failures := gw_failures w @ fs\<rparr> \<and>
     (fs \<noteq> [] \<longrightarrow> (\<exists>why. r = Aborted_with why)))"

lemma performedI: "performed w r (w\<lparr>gw_memory := m\<rparr>)"
  unfolding performed_def by (rule exI [of _ m], rule exI [of _ "[]"]) simp

lemma performed_refl [simp]: "performed w r w"
  using performedI [of w r "gw_memory w"] by simp

lemma run_action_performed: "run_action a args w = (w', r) \<Longrightarrow> performed w r w'"
  by (auto simp: run_action_def intro: performedI split: prod.splits)

lemma assert_failed_performed: "assert_failed file line msg w = (w', r) \<Longrightarrow> performed w r w'"
  unfolding assert_failed_def report_failure_def performed_def
  by (intro exI [of _ "gw_memory w"] exI [of _ "[make_test_part_result K_fatal_failure (Some file) line msg]"]) auto

lemma default_performed: "perform_default_action f args d w = (w', r) \<Longrightarrow> performed w r w'"
  by (auto simp: perform_default_action_def split: option.splits if_splits
      intro: run_action_performed assert_failed_performed)

lemma perform_found_performed: "perform_found f action args d w = (w', r) \<Longrightarrow> performed w r w'"
  by (auto simp: perform_found_def split: option.splits intro: run_action_performed default_performed)

lemma performed_fields:
  assumes "performed w r w'"
  shows "gw_mockers w' = gw_mockers w" and "gw_expectations w' = gw_expectations w"
    and "gw_sequences w' = gw_sequences w" and "gw_handles w' = gw_handles w"
    and "book w' = book w" and "gw_verbose w' = gw_verbose w"
    and "gw_implicit_sequence w' = gw_implicit_sequence w"
    and "r = Returned_value v \<Longrightarrow> gw_failures w' = gw_failures w" and "gw_registry w' = gw_registry w"
    and "gw_defaults w' = gw_defaults w"
  using assms by (auto simp: performed_def book_def fun_eq_iff)

definition mocker_alive :: "('v, 'm) gmock_world \<Rightarrow> nat \<Rightarrow> bool" where
  "mocker_alive w f \<longleftrightarrow> f < length (gw_mockers w) \<and> gw_mockers w ! f \<noteq> None"

lemma mocker_at_change:
  "mocker_alive w f \<Longrightarrow> mocker_at (change_mocker f g w) h = (if h = f then g (mocker_at w f) else mocker_at w h)"
  by (simp add: mocker_at_def change_mocker_def mocker_alive_def)

lemma change_mocker_fields [simp]:
  "gw_expectations (change_mocker f g w) = gw_expectations w" "book (change_mocker f g w) = book w"
  "gw_failures (change_mocker f g w) = gw_failures w" "gw_sequences (change_mocker f g w) = gw_sequences w"
  "gw_handles (change_mocker f g w) = gw_handles w" "gw_verbose (change_mocker f g w) = gw_verbose w"
  "gw_implicit_sequence (change_mocker f g w) = gw_implicit_sequence w"
  "gw_registry (change_mocker f g w) = gw_registry w"
  "alive (change_mocker f g w) e = alive w e"
  by (simp_all add: change_mocker_def book_def fun_eq_iff alive_def)

text \<open>The failures that a call adds when its action returns.\<close>

definition call_failures :: "verdict \<Rightarrow> test_part_result list \<Rightarrow> bool" where
  "call_failures v fs = (case v of Handled _ \<Rightarrow> fs = [] | _ \<Rightarrow> length fs = 1 \<and> list_all part_nonfatally_failed fs)"

definition returned :: "'v mock_result \<Rightarrow> bool" where
  "returned r \<longleftrightarrow> (\<exists>v. r = Returned_value v)"

lemma gmock_expect_False [simp]:
  "gw_failures (gmock_expect False file line msg w) =
     gw_failures w @ [make_test_part_result K_non_fatal_failure file line msg]"
  "gw_mockers (gmock_expect False file line msg w) = gw_mockers w"
  "gw_sequences (gmock_expect b file line msg w) = gw_sequences w"
  "gw_handles (gmock_expect b file line msg w) = gw_handles w"
  "gw_implicit_sequence (gmock_expect b file line msg w) = gw_implicit_sequence w"
  "gw_defaults (gmock_expect b file line msg w) = gw_defaults w"
  "gw_memory (gmock_expect b file line msg w) = gw_memory w"
  "gw_registry (gmock_expect b file line msg w) = gw_registry w"
  "gw_expectations (gmock_expect b file line msg w) = gw_expectations w"
  "book (gmock_expect b file line msg w) = book w"
  by (simp_all add: gmock_expect_def report_failure_def book_def fun_eq_iff)

lemma gmock_log_fields [simp]:
  "gw_failures (gmock_log sev msg k w) = gw_failures w" "gw_mockers (gmock_log sev msg k w) = gw_mockers w"
  "gw_sequences (gmock_log sev msg k w) = gw_sequences w" "gw_handles (gmock_log sev msg k w) = gw_handles w"
  "gw_implicit_sequence (gmock_log sev msg k w) = gw_implicit_sequence w"
  "gw_defaults (gmock_log sev msg k w) = gw_defaults w"
  "gw_memory (gmock_log sev msg k w) = gw_memory w"
  "gw_registry (gmock_log sev msg k w) = gw_registry w"
  by (simp_all add: gmock_log_def)

lemma nonfatal_part [simp]: "part_nonfatally_failed (make_test_part_result K_non_fatal_failure file line msg)"
  by (simp add: part_nonfatally_failed_def make_test_part_result_def)

text \<open>What all components of the world but expectations, failures, output and memory keep.\<close>

definition same_owners :: "('v, 'm) gmock_world \<Rightarrow> ('v, 'm) gmock_world \<Rightarrow> bool" where
  "same_owners w w' \<longleftrightarrow> gw_mockers w' = gw_mockers w \<and> gw_sequences w' = gw_sequences w \<and>
     gw_handles w' = gw_handles w \<and> gw_implicit_sequence w' = gw_implicit_sequence w \<and>
     gw_registry w' = gw_registry w"

lemma same_owners_trans: "same_owners u v \<Longrightarrow> same_owners v w \<Longrightarrow> same_owners u w"
  by (simp add: same_owners_def)

lemma performed_same_owners: "performed w r w' \<Longrightarrow> same_owners w w'"
  by (auto simp: performed_def same_owners_def)

lemma logged_same_owners: "logged w w' \<Longrightarrow> same_owners w w'"
  by (auto simp: logged_def same_owners_def)

theorem invoke_refines:
  assumes "book_ok (book w)" and "retired_closed (book w)" and "mocker_ok w f"
    and "fm_expectations (mocker_at w f) \<noteq> []"
  obtains w' r v fs d u t
  where "untyped_invoke_with pr f args w = Some (w', r)"
    and "book_call (fm_expectations (mocker_at w f)) args (book w) = (book w', v)"
    and "gw_failures w' = gw_failures w @ fs" and "returned r \<Longrightarrow> call_failures v fs"
    and "same_owners w w'"
    and "perform_found f (action_for v (book w)) args d u = (t, r)" and "logged w u" and "gw_defaults w' = gw_defaults w"
    and "gw_memory w' = gw_memory t" and "gw_memory u = gw_memory w"
proof -
  obtain u found action is_excessive what why
    where u: "untyped_find_matching_expectation pr f args w = Some (u, found, action, is_excessive, what, why)"
      "logged w u" "book_call (fm_expectations (mocker_at w f)) args (book w) = (book u, verdict_of found is_excessive)"
      "action = action_for (verdict_of found is_excessive) (book w)"
    using critical_section_refines [OF assms(1-3)] by metis
  define silent where "silent \<longleftrightarrow> \<not> (found = None \<or> is_excessive \<or> log_is_visible (gw_verbose u) K_info)"
  show thesis
  proof (cases silent)
    case True
    obtain t r where t: "perform_found f action args [] u = (t, r)"
      by (rule prod.exhaust)
    note p = perform_found_performed [OF t]
    have "gw_failures t = gw_failures w @ drop (length (gw_failures w)) (gw_failures t)"
      using p logged_fields(2) [OF u(2)] by (auto simp: performed_def)
    moreover have "returned r \<Longrightarrow> gw_failures t = gw_failures w"
      using performed_fields(8) [OF p] logged_fields(2) [OF u(2)] by (auto simp: returned_def)
    moreover have "\<exists>e. verdict_of found is_excessive = Handled e"
      using True by (cases found) (auto simp: silent_def)
    moreover have "untyped_invoke_with pr f args w = Some (t, r)"
      using True assms(4) by (simp add: untyped_invoke_with_def u(1) t silent_def Let_def)
    moreover have "same_owners w t"
      using logged_same_owners [OF u(2)] performed_same_owners [OF p] by (rule same_owners_trans)
    ultimately show thesis
      using u t performed_fields(5,10) [OF p] logged_fields(6,9) [OF u(2)]
      by (intro that [of t r "verdict_of found is_excessive" "drop (length (gw_failures w)) (gw_failures t)" "[]" u t])
        (auto simp: call_failures_def)
  next
    case False
    define ss where "ss = what @ ''    Function call: '' @ the (fm_name (mocker_at u f)) @ print_tuple_to (map pr args)"
    obtain t r where t: "perform_found f action args ss u = (t, r)"
      by (rule prod.exhaust)
    note p = perform_found_performed [OF t]
    define location where "location = (case found of None \<Rightarrow> (None, - 1)
      | Some e \<Rightarrow> (Some (ex_file (exp_at u e)), ex_line (exp_at u e)))"
    define loc where "loc = (case found of None \<Rightarrow> [] | Some e \<Rightarrow> describe_location (exp_at u e))"
    define reported where "reported v = (let ss = ss @ print_action_result pr v @ newline @ why
       in if found = None then gmock_expect False None (- 1) ss t
          else if is_excessive then gmock_expect False (fst location) (snd location) ss t
          else gmock_log K_info (loc @ ss) 2 t)" for v
    have invoke: "untyped_invoke_with pr f args w =
        Some (case r of Returned_value v \<Rightarrow> (reported v, r) | _ \<Rightarrow> (t, r))"
      using False assms(4) t
      by (cases r) (auto simp: untyped_invoke_with_def u(1) silent_def Let_def reported_def ss_def
          location_def loc_def)
    have performing: "perform_found f (action_for (verdict_of found is_excessive) (book w)) args ss u = (t, r)"
      using t u(4) by simp
    have defaults: "gw_defaults t = gw_defaults w" "gw_memory u = gw_memory w"
      using performed_fields(10) [OF p] logged_fields(6,9) [OF u(2)] by simp_all
    have r: "book (reported v) = book u \<and> same_owners w (reported v) \<and> gw_defaults (reported v) = gw_defaults t \<and>
        gw_memory (reported v) = gw_memory t \<and>
        (\<exists>fs. gw_failures (reported v) = gw_failures t @ fs \<and> call_failures (verdict_of found is_excessive) fs)" for v
      using p logged_same_owners [OF u(2)] performed_fields [OF p]
      by (auto simp: reported_def Let_def same_owners_def call_failures_def)
    show thesis
    proof (cases r)
      case (Returned_value v)
      have "gw_failures t = gw_failures w"
        using performed_fields(8) [OF p Returned_value] logged_fields(2) [OF u(2)] by simp
      with r [of v] invoke Returned_value u(2,3) show thesis
        using performing defaults
        by (auto intro: that [of "reported v" r "verdict_of found is_excessive" _ ss u t])
    next
      case (Thrown why')
      then show thesis
        using that [of t r "verdict_of found is_excessive" "drop (length (gw_failures w)) (gw_failures t)" ss u t]
          p logged_fields(2) [OF u(2)] invoke u(2,3) performing defaults performed_fields(5) [OF p]
          same_owners_trans [OF logged_same_owners [OF u(2)] performed_same_owners [OF p]]
        by (auto simp: returned_def performed_def)
    next
      case (Aborted_with why')
      then show thesis
        using that [of t r "verdict_of found is_excessive" "drop (length (gw_failures w)) (gw_failures t)" ss u t]
          p logged_fields(2) [OF u(2)] invoke u(2,3) performing defaults performed_fields(5) [OF p]
          same_owners_trans [OF logged_same_owners [OF u(2)] performed_same_owners [OF p]]
        by (auto simp: returned_def performed_def)
    qed
  qed
qed

end
