(* ===== verification/Gmock_Runs.thy ===== *)
theory Gmock_Runs
  imports Gmock_Refine
begin

text \<open>
  Runs of calls. A run of the book is a list of calls, each of one mocker, and gives a verdict on
  each; the theory proves what the verdicts keep: expectations are counted exactly by the calls
  they took, an expectation never takes a call after one that needs it, and the calls of a strict
  sequence are exactly those of the sequence.
\<close>

subsection \<open>One call\<close>

lemma book_call_keeps:
  assumes "book_ok B" and "retired_closed B" and "book_call es args B = (B', v)"
  shows "book_ok B' \<and> retired_closed B' \<and> needs B' = needs B"
proof (cases v)
  case (Handled e)
  have "(needs B)\<^sup>+ `` retires_now (count_call e B) e \<subseteq> retires_now (count_call e B) e"
    by (auto simp: retires_now_def intro: trancl_trans)
  with assms Handled show ?thesis
    by (auto simp: book_call_def retired_closed_retire_set split: option.splits if_splits)
qed (use assms in \<open>auto simp: book_call_def split: option.splits if_splits\<close>)

lemma book_call_taken:
  assumes "book_call es args B = (B', v)" and "v = Handled e \<or> v = Excessive e"
  shows "e \<in> set es" and "eligible B args e"
proof -
  have "find (eligible B args) (rev es) = Some e"
    using assms by (auto simp: book_call_def split: option.splits if_splits)
  then show "e \<in> set es" and "eligible B args e"
    using find_SomeD by fastforce+
qed

text \<open>A call changes neither matchers, cardinalities nor actions, and counts as the verdict says.\<close>

definition taken_by :: "nat \<Rightarrow> verdict \<Rightarrow> bool" where
  "taken_by e v \<longleftrightarrow> v = Handled e \<or> v = Excessive e"

lemma retire_count_state:
  "B e = Some x \<Longrightarrow> retire_set S (count_call d B) e =
     Some (x\<lparr>ex_call_count := ex_call_count x + (if e = d then 1 else 0), ex_retired := ex_retired x \<or> e \<in> S\<rparr>)"
  by (cases x) (auto simp: retire_set_def count_call_def)

lemma book_call_state:
  assumes "book_call es args B = (B', v)" and "B e = Some x"
  shows "\<exists>r. B' e = Some (x\<lparr>ex_call_count := ex_call_count x + (if taken_by e v then 1 else 0),
    ex_retired := r\<rparr>) \<and> (ex_retired x \<longrightarrow> r)"
proof (cases v)
  case Unmatched
  then have "B' = B"
    using assms(1) by (auto simp: book_call_def split: option.splits if_splits)
  with assms(2) Unmatched show ?thesis
    by (cases x) (auto simp: taken_by_def)
next
  case (Excessive d)
  then have "B' = retire_set {} (count_call d B)"
    using assms(1) by (auto simp: book_call_def split: option.splits if_splits)
  with retire_count_state [of B e x "{}" d, OF assms(2)] Excessive show ?thesis
    by (intro exI [of _ "ex_retired x"]) (auto simp: taken_by_def)
next
  case (Handled d)
  then obtain S where "B' = retire_set S (count_call d B)"
    using assms(1) by (auto simp: book_call_def split: option.splits if_splits)
  with retire_count_state [of B e x S d, OF assms(2)] Handled show ?thesis
    by (auto simp: taken_by_def)
qed

lemma book_call_retires:
  assumes "book_call es args B = (B', Handled e)" and "(e, p) \<in> (needs B)\<^sup>+" and "book_ok B"
  shows "retired_in B' p"
proof -
  have "B p \<noteq> None"
    using needs_older [OF assms(2,3)] by simp
  then show ?thesis
    using assms(1,2)
    by (auto simp: book_call_def retired_in_retire_set retires_now_def split: option.splits if_splits)
qed

lemma book_call_keeps_retired:
  "book_call es args B = (B', v) \<Longrightarrow> retired_in B p \<Longrightarrow> retired_in B' p"
  using book_call_state [of es args B B' v p] by (auto simp: retired_in_def)

lemma eligible_not_retired: "eligible B args e \<Longrightarrow> \<not> retired_in B e"
  by (auto simp: eligible_def retired_in_def)

subsection \<open>Runs\<close>

fun book_run :: "(nat \<Rightarrow> nat list) \<Rightarrow> (nat \<times> 'v list) list \<Rightarrow> ('v, 'm) book \<Rightarrow> ('v, 'm) book \<times> verdict list" where
  "book_run ms [] B = (B, [])"
| "book_run ms ((f, args) # calls) B =
     (let (B, v) = book_call (ms f) args B; (B, vs) = book_run ms calls B in (B, v # vs))"

lemma book_run_Cons:
  assumes "book_run ms ((f, args) # calls) B = (B', vs)"
  obtains C v us where "book_call (ms f) args B = (C, v)" and "book_run ms calls C = (B', us)" and "vs = v # us"
  using assms that
  by (cases "book_call (ms f) args B"; cases "book_run ms calls (fst (book_call (ms f) args B))") simp

lemma book_run_keeps:
  "book_ok B \<Longrightarrow> retired_closed B \<Longrightarrow> book_run ms calls B = (B', vs) \<Longrightarrow>
   book_ok B' \<and> retired_closed B' \<and> needs B' = needs B \<and> length vs = length calls"
proof (induction calls arbitrary: B vs)
  case (Cons c calls)
  obtain f args where c: "c = (f, args)"
    by (cases c)
  obtain C v us where "book_call (ms f) args B = (C, v)" "book_run ms calls C = (B', us)" "vs = v # us"
    using Cons.prems(3) unfolding c by (rule book_run_Cons)
  then show ?case
    using Cons.IH [of C us] book_call_keeps [OF Cons.prems(1,2)] by force
qed simp

lemma book_run_state:
  "book_run ms calls B = (B', vs) \<Longrightarrow> B e = Some x \<Longrightarrow>
   \<exists>r. B' e = Some (x\<lparr>ex_call_count := ex_call_count x + int (length (filter (taken_by e) vs)),
     ex_retired := r\<rparr>)"
proof (induction calls arbitrary: B vs x)
  case Nil
  then have "x = x\<lparr>ex_call_count := ex_call_count x, ex_retired := ex_retired x\<rparr>"
    by simp
  with Nil show ?case
    by (auto intro: exI [of _ "ex_retired x"])
next
  case (Cons c calls)
  obtain f args where c: "c = (f, args)"
    by (cases c)
  obtain C v us where C: "book_call (ms f) args B = (C, v)" "book_run ms calls C = (B', us)" "vs = v # us"
    using Cons.prems(1) unfolding c by (rule book_run_Cons)
  obtain r where "C e = Some (x\<lparr>ex_call_count := ex_call_count x + (if taken_by e v then 1 else 0), ex_retired := r\<rparr>)"
    using book_call_state [OF C(1) Cons.prems(2)] by blast
  from Cons.IH [OF C(2) this] show ?case
    by (auto simp: C(3) add.assoc split: if_splits)
qed

lemma book_run_retired_idle:
  "retired_in B p \<Longrightarrow> book_run ms calls B = (B', vs) \<Longrightarrow> v \<in> set vs \<Longrightarrow> \<not> taken_by p v"
proof (induction calls arbitrary: B vs)
  case (Cons c calls)
  obtain f args where c: "c = (f, args)"
    by (cases c)
  obtain C u us where C: "book_call (ms f) args B = (C, u)" "book_run ms calls C = (B', us)" "vs = u # us"
    using Cons.prems(2) unfolding c by (rule book_run_Cons)
  have "\<not> taken_by p u"
    using book_call_taken(2) [OF C(1)] eligible_not_retired Cons.prems(1) by (auto simp: taken_by_def)
  then show ?case
    using Cons.IH [OF book_call_keeps_retired [OF C(1) Cons.prems(1)] C(2)] Cons.prems(3) C(3) by auto
qed simp

text \<open>Once an expectation has handled a call, what it needs takes no call any more.\<close>

lemma book_run_order:
  "book_ok B \<Longrightarrow> retired_closed B \<Longrightarrow> (e, p) \<in> (needs B)\<^sup>+ \<Longrightarrow> book_run ms calls B = (B', vs) \<Longrightarrow>
   i < j \<Longrightarrow> j < length vs \<Longrightarrow> vs ! i = Handled e \<Longrightarrow> \<not> taken_by p (vs ! j)"
proof (induction calls arbitrary: B vs i j)
  case (Cons c calls)
  obtain f args where c: "c = (f, args)"
    by (cases c)
  obtain C u us where C: "book_call (ms f) args B = (C, u)" "book_run ms calls C = (B', us)" "vs = u # us"
    using Cons.prems(4) unfolding c by (rule book_run_Cons)
  note keeps = book_call_keeps [OF Cons.prems(1,2) C(1)]
  have j: "us ! (j - 1) \<in> set us" "vs ! j = us ! (j - 1)"
    using Cons.prems(5,6) C(3) by auto
  show ?case
  proof (cases i)
    case 0
    then have "retired_in C p"
      using C(1,3) Cons.prems(1,3,7) by (auto intro: book_call_retires)
    with book_run_retired_idle [OF this C(2)] j show ?thesis
      by auto
  next
    case (Suc i')
    then show ?thesis
      using Cons.IH [of C us i' "j - 1"] keeps Cons.prems C by auto
  qed
qed simp

text \<open>When an expectation takes a call, everything it needs is satisfied.\<close>

lemma taken_when_satisfied:
  "book_call es args B = (B', v) \<Longrightarrow> taken_by e v \<Longrightarrow> (e, p) \<in> (needs B)\<^sup>+ \<Longrightarrow> satisfied_in B p"
  using book_call_taken(2) [of es args B B' v e] by (auto simp: taken_by_def eligible_def)

lemma book_run_satisfied:
  "book_ok B \<Longrightarrow> retired_closed B \<Longrightarrow> (e, p) \<in> (needs B)\<^sup>+ \<Longrightarrow> book_run ms calls B = (B', vs) \<Longrightarrow>
   i < length vs \<Longrightarrow> taken_by e (vs ! i) \<Longrightarrow> satisfied_in (fst (book_run ms (take i calls) B)) p"
proof (induction calls arbitrary: B vs i)
  case (Cons c calls)
  obtain f args where c: "c = (f, args)"
    by (cases c)
  obtain C u us where C: "book_call (ms f) args B = (C, u)" "book_run ms calls C = (B', us)" "vs = u # us"
    using Cons.prems(4) unfolding c by (rule book_run_Cons)
  note keeps = book_call_keeps [OF Cons.prems(1,2) C(1)]
  show ?case
  proof (cases i)
    case 0
    with taken_when_satisfied [OF C(1)] Cons.prems(3,6) C(3) show ?thesis
      by simp
  next
    case (Suc i')
    then have "satisfied_in (fst (book_run ms (take i' calls) C)) p"
      using Cons.IH [of C us i'] keeps Cons.prems C by auto
    with Suc C(1) show ?thesis
      by (simp add: c Let_def case_prod_beta)
  qed
qed simp

subsection \<open>A strict sequence\<close>

text \<open>
  \<open>at_stage fs ms es k B\<close>: the expectations \<open>es\<close> form a sequence of single calls, of which the
  first \<open>k\<close> have been made.
\<close>

definition at_stage :: "'v matcher list list \<Rightarrow> nat list \<Rightarrow> nat \<Rightarrow> ('v, 'm) book \<Rightarrow> bool" where
  "at_stage ms es k B \<longleftrightarrow> distinct es \<and> length ms = length es \<and> k \<le> length es \<and>
     (\<forall>i < length es. \<exists>x. B (es ! i) = Some x \<and> ex_matchers x = ms ! i \<and> ex_extra_matcher x = any_matcher \<and>
        ex_prerequisites x = (if i = 0 then [] else [es ! (i - 1)]) \<and>
        ex_cardinality x = between_impl 1 1 \<and> \<not> ex_retires_on_saturation x \<and>
        ex_call_count x = (if i < k then 1 else 0) \<and> (ex_retired x \<longleftrightarrow> i + 1 < k))"

lemma at_stageD:
  assumes "at_stage ms es k B" and "i < length es"
  obtains x where "B (es ! i) = Some x" and "ex_matchers x = ms ! i" and "ex_extra_matcher x = any_matcher"
    and "ex_prerequisites x = (if i = 0 then [] else [es ! (i - 1)])"
    and "ex_cardinality x = between_impl 1 1" and "\<not> ex_retires_on_saturation x"
    and "ex_call_count x = (if i < k then 1 else 0)" and "ex_retired x \<longleftrightarrow> i + 1 < k"
  using assms unfolding at_stage_def by blast

lemma at_stage_satisfied: "at_stage ms es k B \<Longrightarrow> i < length es \<Longrightarrow> satisfied_in B (es ! i) \<longleftrightarrow> i < k"
  by (erule at_stageD) (auto simp: satisfied_in_def is_satisfied_def split: if_splits)

lemma at_stage_needs_one:
  "at_stage ms es k B \<Longrightarrow> i < length es \<Longrightarrow> (es ! i, p) \<in> needs B \<longleftrightarrow> 0 < i \<and> p = es ! (i - 1)"
  by (erule at_stageD) (auto simp: needs_def split: if_splits)

lemma at_stage_needs:
  assumes "at_stage ms es k B"
  shows "i < length es \<Longrightarrow> (es ! i, p) \<in> (needs B)\<^sup>+ \<longleftrightarrow> (\<exists>j < i. p = es ! j)"
proof (induction i)
  case 0
  then show ?case
    using at_stage_needs_one [OF assms, of 0] by (subst needs_trancl_first) simp
next
  case (Suc i)
  have "(es ! Suc i, p) \<in> (needs B)\<^sup>+ \<longleftrightarrow> es ! i = p \<or> (es ! i, p) \<in> (needs B)\<^sup>+"
    using at_stage_needs_one [OF assms Suc.prems] by (subst needs_trancl_first) auto
  then show ?case
    using Suc by (auto simp: less_Suc_eq)
qed

lemma at_stage_eligible:
  assumes B: "at_stage ms es k B" and i: "i < length es"
  shows "eligible B args (es ! i) \<longleftrightarrow> i \<le> k \<and> k \<le> i + 1 \<and> tuple_matches (ms ! i) args"
proof -
  obtain x where x: "B (es ! i) = Some x" "ex_matchers x = ms ! i" "ex_extra_matcher x = any_matcher"
      "ex_retired x \<longleftrightarrow> i + 1 < k"
    using at_stageD [OF B i] by metis
  have "(\<forall>p. (es ! i, p) \<in> (needs B)\<^sup>+ \<longrightarrow> satisfied_in B p) \<longleftrightarrow> (\<forall>j < i. j < k)"
    using at_stage_needs [OF B i] at_stage_satisfied [OF B] i by auto
  also have "\<dots> \<longleftrightarrow> i \<le> k"
    by (metis le_less_linear less_irrefl not_le_imp_less order.strict_trans2)
  finally show ?thesis
    using x by (auto simp: eligible_def expectation_matches_def)
qed

lemma find_append: "find P (xs @ ys) = (case find P xs of None \<Rightarrow> find P ys | Some x \<Rightarrow> Some x)"
  by (induction xs) auto

lemma at_stage_next:
  assumes B: "at_stage ms es k B" and k: "k < length es" and "P (es ! k)" and "tuple_matches (ms ! k) args"
  shows "find (eligible B args) (rev (filter P es)) = Some (es ! k)"
proof -
  have "\<not> eligible B args e" if e: "e \<in> set (drop (Suc k) es)" for e
  proof -
    obtain i where "i < length (drop (Suc k) es)" and "e = drop (Suc k) es ! i"
      using e unfolding in_set_conv_nth by blast
    then have i: "e = es ! (Suc k + i)" "Suc k + i < length es"
      using k by simp_all
    then show ?thesis
      using at_stage_eligible [OF B, of "Suc k + i" args] by simp
  qed
  then have "find (eligible B args) (rev (filter P (drop (Suc k) es))) = None"
    by (auto simp: find_None_iff)
  moreover have "eligible B args (es ! k)"
    using at_stage_eligible [OF B k] assms(4) by simp
  moreover have "rev (filter P es) =
      rev (filter P (drop (Suc k) es)) @ es ! k # rev (filter P (take k es))"
    using assms(3) by (subst id_take_nth_drop [OF k]) simp
  ultimately show ?thesis
    by (simp add: find_append)
qed

lemma at_stage_step:
  assumes B: "at_stage ms es k B" and "book_call (filter P es) args B = (B', v)"
  shows "(\<exists>e. v = Handled e) \<longleftrightarrow> k < length es \<and> P (es ! k) \<and> tuple_matches (ms ! k) args"
    and "v = Handled e \<Longrightarrow> at_stage ms es (Suc k) B'"
proof -
  have handled: "k < length es \<and> P (es ! k) \<and> tuple_matches (ms ! k) args \<and> e = es ! k" if v: "v = Handled e" for e
  proof -
    obtain i where i: "e = es ! i" "i < length es" "P e" "eligible B args e"
      using book_call_taken [OF assms(2), of e] v by (auto simp: in_set_conv_nth)
    obtain x where x: "B e = Some x" "ex_cardinality x = between_impl 1 1" "ex_call_count x = (if i < k then 1 else 0)"
      using at_stageD [OF B i(2)] i(1) by metis
    have "\<not> is_saturated x"
      using assms(2) v x(1) by (auto simp: book_call_def split: option.splits if_splits)
    then have "k \<le> i"
      using x by (auto simp: is_saturated_def split: if_splits)
    with i at_stage_eligible [OF B i(2), of args] show ?thesis
      by auto
  qed
  have follows: "v = Handled (es ! k) \<and> B' = retire_set {es ! j |j. j < k} (count_call (es ! k) B)"
    if k: "k < length es" "P (es ! k)" "tuple_matches (ms ! k) args"
  proof -
    obtain x where x: "B (es ! k) = Some x" "ex_cardinality x = between_impl 1 1" "ex_call_count x = 0"
        "\<not> ex_retires_on_saturation x"
      using at_stageD [OF B k(1)] by (metis less_irrefl)
    have "retires_now (count_call (es ! k) B) (es ! k) = {es ! j |j. j < k}"
      using at_stage_needs [OF B k(1)] x by (auto simp: retires_now_def) (auto simp: count_call_def)
    with assms(2) x at_stage_next [OF B k(1), of P args] k show ?thesis
      by (simp add: book_call_def is_saturated_def)
  qed
  show "(\<exists>e. v = Handled e) \<longleftrightarrow> k < length es \<and> P (es ! k) \<and> tuple_matches (ms ! k) args"
    using handled follows by blast
  show "at_stage ms es (Suc k) B'" if v: "v = Handled e"
  proof -
    have k: "k < length es" and B': "B' = retire_set {es ! j |j. j < k} (count_call (es ! k) B)"
      using handled [OF v] follows by auto
    have dist: "distinct es"
      using B by (simp add: at_stage_def)
    have "\<exists>x. B' (es ! i) = Some x \<and> ex_matchers x = ms ! i \<and> ex_extra_matcher x = any_matcher \<and>
        ex_prerequisites x = (if i = 0 then [] else [es ! (i - 1)]) \<and>
        ex_cardinality x = between_impl 1 1 \<and> \<not> ex_retires_on_saturation x \<and>
        ex_call_count x = (if i < Suc k then 1 else 0) \<and> (ex_retired x \<longleftrightarrow> i + 1 < Suc k)"
      if i: "i < length es" for i
    proof -
      obtain x where x: "B (es ! i) = Some x" "ex_matchers x = ms ! i" "ex_extra_matcher x = any_matcher"
          "ex_prerequisites x = (if i = 0 then [] else [es ! (i - 1)])"
          "ex_cardinality x = between_impl 1 1" "\<not> ex_retires_on_saturation x"
          "ex_call_count x = (if i < k then 1 else 0)" "ex_retired x \<longleftrightarrow> i + 1 < k"
        using at_stageD [OF B i] by metis
      have "es ! i \<in> {es ! j |j. j < k} \<longleftrightarrow> i < k" and "es ! i = es ! k \<longleftrightarrow> i = k"
        using dist i k nth_eq_iff_index_eq by force+
      with x show ?thesis
        by (auto simp: B' retire_set_def count_call_def)
    qed
    then show ?thesis
      using B k by (simp add: at_stage_def)
  qed
qed

definition handled :: "verdict \<Rightarrow> bool" where
  "handled v \<longleftrightarrow> (\<exists>e. v = Handled e)"

text \<open>All calls are handled exactly when they are the next ones of the sequence.\<close>

lemma at_stage_run:
  assumes "at_stage ms es k B" and "book_run (\<lambda>f. filter (\<lambda>e. owner e = f) es) calls B = (B', vs)"
  shows "list_all handled vs \<longleftrightarrow> k + length calls \<le> length es \<and>
      (\<forall>i < length calls. owner (es ! (k + i)) = fst (calls ! i) \<and> tuple_matches (ms ! (k + i)) (snd (calls ! i)))"
    and "list_all handled vs \<Longrightarrow> at_stage ms es (k + length calls) B'"
proof -
  have "(list_all handled vs \<longleftrightarrow> k + length calls \<le> length es \<and>
      (\<forall>i < length calls. owner (es ! (k + i)) = fst (calls ! i) \<and> tuple_matches (ms ! (k + i)) (snd (calls ! i)))) \<and>
    (list_all handled vs \<longrightarrow> at_stage ms es (k + length calls) B')"
    using assms
  proof (induction calls arbitrary: k B vs)
    case Nil
    then show ?case
      by (auto simp: at_stage_def)
  next
    case (Cons c calls)
    obtain f args where c: "c = (f, args)"
      by (cases c)
    obtain C u us where C: "book_call (filter (\<lambda>e. owner e = f) es) args B = (C, u)"
        "book_run (\<lambda>f. filter (\<lambda>e. owner e = f) es) calls C = (B', us)" "vs = u # us"
      using Cons.prems(2) unfolding c by (rule book_run_Cons)
    note step = at_stage_step [OF Cons.prems(1) C(1)]
    show ?case
    proof (cases "handled u")
      case True
      then have "at_stage ms es (Suc k) C" and now: "k < length es" "owner (es ! k) = f" "tuple_matches (ms ! k) args"
        using step by (auto simp: handled_def)
      with Cons.IH [OF this(1) C(2)] True show ?thesis
        by (auto simp: C(3) c less_Suc_eq_0_disj)
    next
      case False
      then show ?thesis
        using step(1) by (auto simp: C(3) c handled_def)
    qed
  qed
  then show "list_all handled vs \<longleftrightarrow> k + length calls \<le> length es \<and>
      (\<forall>i < length calls. owner (es ! (k + i)) = fst (calls ! i) \<and> tuple_matches (ms ! (k + i)) (snd (calls ! i)))"
    and "list_all handled vs \<Longrightarrow> at_stage ms es (k + length calls) B'"
    by blast+
qed

end
