(* ===== verification/Gmock_Safety.thy ===== *)
theory Gmock_Safety
  imports Gmock_Runs
begin

text \<open>
  The steps of a test that uses mocks, and their invariant: no pointer of the world dangles but
  the raw owner of an expectation that its mocker no longer holds, prerequisites are older than what needs them, and retired expectations are closed under
  prerequisites. So every call of a mocked function ends. The steps are an interpretation of
  \<open>step_system\<close>.
\<close>

definition world_ok :: "('v, 'm) gmock_world \<Rightarrow> bool" where
  "world_ok w \<longleftrightarrow>
     book_ok (book w) \<and> retired_closed (book w) \<and>
     (\<forall>f. mocker_alive w f \<longrightarrow> mocker_ok w f) \<and>
     (\<forall>e. Some e \<in> set (gw_sequences w) \<longrightarrow> alive w e) \<and>
     (\<forall>e \<in> set (gw_handles w). alive w e) \<and>
     (\<forall>s. gw_implicit_sequence w = Some s \<longrightarrow> s < length (gw_sequences w))"

lemma world_ok_cong:
  assumes "book w' = book w" and "same_owners w w'"
  shows "world_ok w' \<longleftrightarrow> world_ok w"
proof -
  have "alive w' e = alive w e" for e
    by (simp add: alive_iff assms(1))
  then show ?thesis
    using assms by (simp add: world_ok_def same_owners_def mocker_alive_def mocker_ok_def mocker_at_def)
qed

lemma same_owners_simps [simp]:
  "same_owners w w"
  "same_owners w (gmock_expect b file line msg w)"
  "same_owners w (gmock_log sev msg k w)"
  "same_owners w (report_failure t file line msg w)"
  "same_owners w (change_exp e g w)"
  by (simp_all add: same_owners_def gmock_expect_def gmock_log_def report_failure_def change_exp_def)

lemma book_simps [simp]:
  "book (report_failure t file line msg w) = book w"
  "book (change_registry obj h w) = book w"
  by (rule book_cong, simp add: report_failure_def change_registry_def)+

lemma world_ok_simps [simp]:
  "world_ok (gmock_expect b file line msg w) = world_ok w"
  "world_ok (gmock_log sev msg k w) = world_ok w"
  "world_ok (report_failure t file line msg w) = world_ok w"
  by (rule world_ok_cong; simp)+

lemma world_ok_change_registry [simp]: "world_ok (change_registry obj h w) = world_ok w"
proof -
  have "alive (change_registry obj h w) e = alive w e" for e
    by (simp add: alive_iff)
  then show ?thesis
    by (simp add: world_ok_def mocker_alive_def mocker_ok_def mocker_at_def) (simp add: change_registry_def)
qed

text \<open>A change of a mocker that leaves its expectations alone.\<close>

lemma world_ok_change_mocker:
  assumes "mocker_alive w f"
    and "set (fm_expectations (g (mocker_at w f))) \<subseteq> {e. \<exists>x. book w e = Some x \<and> ex_owner x = f}" and "world_ok w"
  shows "world_ok (change_mocker f g w)"
  using assms mocker_at_change [OF assms(1), of g]
  by (auto simp: world_ok_def mocker_ok_def mocker_alive_def)
    (auto simp: change_mocker_def nth_list_update split: if_splits)

lemma mocker_alive_change [simp]: "mocker_alive (change_mocker f g w) h \<longleftrightarrow> mocker_alive w h \<or> h = f \<and> f < length (gw_mockers w)"
  by (cases "f < length (gw_mockers w)") (auto simp: mocker_alive_def change_mocker_def nth_list_update)

subsection \<open>Expectations\<close>

text \<open>What holds between the clauses of \<open>EXPECT_CALL\<close>: the newest expectation is described.\<close>

definition describing :: "nat \<Rightarrow> ('v, 'm) gmock_world \<Rightarrow> bool" where
  "describing e w \<longleftrightarrow> world_ok w \<and> alive w e \<and> Suc e = length (gw_expectations w) \<and> \<not> retired_in (book w) e"

lemma describing_cong:
  "book w' = book w \<Longrightarrow> same_owners w w' \<Longrightarrow> length (gw_expectations w') = length (gw_expectations w) \<Longrightarrow>
   describing e w' \<longleftrightarrow> describing e w"
  using world_ok_cong [of w' w] alive_book [of w' w e] by (simp add: describing_def)

lemma length_expectations [simp]:
  "length (gw_expectations (gmock_expect b file line msg w)) = length (gw_expectations w)"
  "length (gw_expectations (report_failure t file line msg w)) = length (gw_expectations w)"
  "length (gw_expectations (check_action_count e w)) = length (gw_expectations w)"
  by (simp_all add: report_failure_def check_action_count_def Let_def split: option.split)

text \<open>The described expectation is changed, with prerequisites that are older.\<close>

lemma describing_change:
  assumes "describing e w" and "\<not> ex_retired (g (exp_at w e))" and "ex_owner (g (exp_at w e)) = ex_owner (exp_at w e)"
    and "\<And>p. p \<in> set (ex_prerequisites (g (exp_at w e))) \<Longrightarrow> p \<noteq> e \<and> alive w p"
  shows "describing e (change_exp e g w)"
proof -
  let ?x = "(g (exp_at w e))\<lparr>ex_action_count_checked := True\<rparr>"
  have e: "alive w e" and ok: "world_ok w" and l: "Suc e = length (gw_expectations w)"
    using assms(1) by (auto simp: describing_def)
  have B: "book (change_exp e g w) = (book w)(e \<mapsto> ?x)"
    using e by (rule book_change_exp)
  have older: "p < e \<and> book w p \<noteq> None" if "p \<in> set (ex_prerequisites ?x)" for p
  proof -
    have "p \<noteq> e" and "alive w p"
      using assms(4) that by auto
    then show ?thesis
      using l by (auto simp: alive_def book_def)
  qed
  have needs: "(d, p) \<in> needs (book (change_exp e g w)) \<longleftrightarrow>
      (if d = e then p \<in> set (ex_prerequisites ?x) else (d, p) \<in> needs (book w))" for d p
    by (auto simp: needs_def B)
  have retired: "retired_in (book (change_exp e g w)) d \<longleftrightarrow> d \<noteq> e \<and> retired_in (book w) d" for d
    using assms(2) by (auto simp: retired_in_def B)
  have "book_ok (book (change_exp e g w))"
    using ok older unfolding book_ok_def needs by (auto simp: book_ok_def world_ok_def B)
  moreover have "retired_closed (book (change_exp e g w))"
    using ok assms(1) unfolding retired_closed_def needs retired
    by (auto simp: world_ok_def retired_closed_def describing_def)
  moreover have mockers: "gw_mockers (change_exp e g w) = gw_mockers w"
    by (simp add: change_exp_def)
  have "mocker_ok (change_exp e g w) f" if "mocker_ok w f" for f
    using that by (rule mocker_ok_frame) (use assms(3) exp_at_book e book_alive [OF e] in \<open>auto simp: B mockers mocker_at_def\<close>)
  moreover have "same_owners w (change_exp e g w)"
    by simp
  ultimately show ?thesis
    using ok e l retired [of e]
    by (auto simp: describing_def world_ok_def same_owners_def mocker_alive_def)
qed

lemma describing_simps [simp]:
  "describing e (gmock_expect b file line msg w) = describing e w"
  "describing e (report_failure t file line msg w) = describing e w"
  "describing e (gmock_log sev msg k w) = describing e w"
  by (rule describing_cong; simp)+

lemma describing_check [simp]: "describing e w \<Longrightarrow> describing e (check_action_count e w)"
  by (subst describing_cong [of _ w]) (auto simp: describing_def logged_same_owners)

lemma exp_at_expect [simp]:
  "exp_at (gmock_expect b file line msg w) e = exp_at w e"
  "exp_at (report_failure t file line msg w) e = exp_at w e"
  by (simp_all add: exp_at_def gmock_expect_def report_failure_def)

lemma describing_prerequisites:
  assumes "describing e w" and "p \<in> set (ex_prerequisites (exp_at w e))"
  shows "p \<noteq> e \<and> alive w p"
proof -
  have "(e, p) \<in> needs (book w)"
    using assms by (simp add: needs_exp_at describing_def)
  then show ?thesis
    using assms(1) by (auto simp: describing_def world_ok_def book_ok_def book_None)
qed

lemma describing_active: "describing e w \<Longrightarrow> \<not> ex_retired (exp_at w e)"
  by (simp add: describing_def exp_at_book)

text \<open>Which clauses a test may write: it has the sequences, and handles of earlier expectations.\<close>

fun clause_allowed :: "('v, 'm) gmock_world \<Rightarrow> ('v, 'm) expect_clause \<Rightarrow> bool" where
  "clause_allowed w (Clause_in_sequence s) = (s < length (gw_sequences w))"
| "clause_allowed w (Clause_after ps) = (set ps \<subseteq> set (gw_handles w))"
| "clause_allowed w _ = True"

lemma describing_add_to_sequence:
  assumes "describing e w" and "s < length (gw_sequences w)"
  shows "describing e (add_to_sequence s e w)"
proof (cases "gw_sequences w ! s = Some e")
  case False
  define v where "v = (case gw_sequences w ! s of None \<Rightarrow> w
      | Some p \<Rightarrow> change_exp e (\<lambda>x. x\<lparr>ex_prerequisites := insort_insert p (ex_prerequisites x)\<rparr>) w)"
  have v: "describing e v" "gw_sequences v = gw_sequences w"
  proof -
    show "describing e v"
    proof (cases "gw_sequences w ! s")
      case (Some p)
      then have "alive w p" and "p \<noteq> e"
        using assms False by (auto simp: describing_def world_ok_def in_set_conv_nth)
      then show ?thesis
        using assms(1) describing_active [OF assms(1)]
        by (auto simp: v_def Some set_insort_insert intro!: describing_change
            dest: describing_prerequisites [OF assms(1)])
    qed (use assms(1) in \<open>simp add: v_def\<close>)
    show "gw_sequences v = gw_sequences w"
      by (simp add: v_def change_exp_def split: option.split)
  qed
  have book: "book (v\<lparr>gw_sequences := ss\<rparr>) = book v" and alive: "alive (v\<lparr>gw_sequences := ss\<rparr>) d = alive v d" for ss d
    by (simp_all add: book_def alive_def fun_eq_iff)
  have "d = e \<or> Some d \<in> set (gw_sequences v)" if "Some d \<in> set ((gw_sequences v)[s := Some e])" for d
    using that set_update_subset_insert [of "gw_sequences v" s "Some e"] by auto
  then have "describing e (v\<lparr>gw_sequences := (gw_sequences v)[s := Some e]\<rparr>)"
    using v(1) unfolding describing_def world_ok_def mocker_alive_def mocker_ok_def mocker_at_def book alive
    by auto
  then show ?thesis
    using False v(2) by (simp add: add_to_sequence_def v_def [symmetric])
qed (use assms in \<open>simp add: add_to_sequence_def\<close>)

lemma describing_plain_change:
  assumes "describing e w" and "ex_retired (g (exp_at w e)) = ex_retired (exp_at w e)"
    and "ex_owner (g (exp_at w e)) = ex_owner (exp_at w e)"
    and "ex_prerequisites (g (exp_at w e)) = ex_prerequisites (exp_at w e)"
  shows "describing e (change_exp e g w)"
  using assms describing_active [OF assms(1)]
  by (intro describing_change) (auto dest: describing_prerequisites [OF assms(1)])

lemma set_fold_insort_insert: "set (fold insort_insert xs ys) = set xs \<union> set ys"
  by (induction xs arbitrary: ys) (auto simp: set_insort_insert)

lemma describing_clause:
  assumes "describing e w" and "clause_allowed w c" and "e \<notin> set (gw_handles w)"
  shows "describing e (apply_clause e c w)"
proof (cases c)
  case (Clause_times cp)
  then show ?thesis
    using assms(1)
    by (cases cp) (auto simp: untyped_times_def expect_spec_property_def report_problem_def Let_def
        intro!: describing_plain_change split: option.split)
next
  case (Clause_in_sequence s)
  have "describing e (change_exp e (\<lambda>x. x\<lparr>ex_last_clause := K_in_sequence\<rparr>) (expect_spec_property e b msg w))" for b msg
    using assms(1) by (auto simp: expect_spec_property_def intro!: describing_plain_change)
  moreover have "s < length (gw_sequences (change_exp e (\<lambda>x. x\<lparr>ex_last_clause := K_in_sequence\<rparr>)
      (expect_spec_property e b msg w)))" for b msg
    using assms(2) Clause_in_sequence by (simp add: change_exp_def expect_spec_property_def)
  ultimately show ?thesis
    by (simp add: Clause_in_sequence clause_in_sequence_def Let_def describing_add_to_sequence)
next
  case (Clause_after ps)
  have "\<forall>p \<in> set ps \<union> set (ex_prerequisites (exp_at w e)). p \<noteq> e \<and> alive w p"
    using assms describing_prerequisites [OF assms(1)] by (auto simp: Clause_after describing_def world_ok_def)
  moreover have "alive (expect_spec_property e b msg w) p = alive w p" for b msg p
    by (simp add: alive_iff expect_spec_property_def)
  ultimately show ?thesis
    using assms(1) describing_active [OF assms(1)] unfolding Clause_after apply_clause.simps clause_after_def Let_def
    by (intro describing_change) (auto simp: expect_spec_property_def set_fold_insort_insert alive_iff)
qed (use assms(1) in \<open>auto simp: clause_with_def clause_will_once_def clause_will_repeatedly_def
    clause_retires_on_saturation_def expect_spec_property_def Let_def
    intro!: describing_check describing_plain_change split: if_splits\<close>)

lemma gmock_expect_owners [simp]:
  "gw_handles (report_problem problem w) = gw_handles w"
  "gw_sequences (report_problem problem w) = gw_sequences w"
  "gw_handles (change_exp e g w) = gw_handles w"
  "gw_sequences (change_exp e g w) = gw_sequences w"
  "gw_handles (expect_spec_property e b msg w) = gw_handles w"
  "gw_sequences (expect_spec_property e b msg w) = gw_sequences w"
  "gw_handles (check_action_count e w) = gw_handles w"
  "gw_sequences (check_action_count e w) = gw_sequences w"
  "gw_handles (add_to_sequence s e w) = gw_handles w"
  "length (gw_sequences (add_to_sequence s e w)) = length (gw_sequences w)"
  using logged_fields [OF logged_check_action_count [of w e]]
  by (simp_all add: report_problem_def report_failure_def change_exp_def expect_spec_property_def
      add_to_sequence_def Let_def split: option.split prod.split)

lemma clause_owners:
  "gw_handles (apply_clause e c w) = gw_handles w"
  "length (gw_sequences (apply_clause e c w)) = length (gw_sequences w)"
  by (cases c; auto simp: clause_with_def untyped_times_def clause_in_sequence_def clause_after_def
      clause_will_once_def clause_will_repeatedly_def clause_retires_on_saturation_def Let_def)+

lemma clause_allowed_apply [simp]: "clause_allowed (apply_clause e c w) d = clause_allowed w d"
  by (cases d) (simp_all only: clause_allowed.simps clause_owners)

lemma describing_clauses:
  "describing e w \<Longrightarrow> list_all (clause_allowed w) cs \<Longrightarrow> e \<notin> set (gw_handles w) \<Longrightarrow>
   describing e (fold (apply_clause e) cs w)"
proof (induction cs arbitrary: w)
  case (Cons c cs)
  have "list_all (clause_allowed (apply_clause e c w)) cs" and "describing e (apply_clause e c w)"
      and "e \<notin> set (gw_handles (apply_clause e c w))"
    using Cons.prems describing_clause [of e w c] clause_owners(1) [of e c w] by (simp_all add: list_all_iff)
  then show ?case
    using Cons.IH by simp
qed simp

lemma gmock_expect_mockers [simp]:
  "gw_mockers (change_registry obj h w) = gw_mockers w"
  "mocker_alive (change_registry obj h w) f = mocker_alive w f"
  "mocker_at (change_registry obj h w) f = mocker_at w f"
  "mocker_alive (gmock_log sev msg k w) f = mocker_alive w f"
  "mocker_at (gmock_log sev msg k w) f = mocker_at w f"
  "mocker_alive (gmock_expect b file line msg w) f = mocker_alive w f"
  "mocker_at (gmock_expect b file line msg w) f = mocker_at w f"
  by (simp_all add: change_registry_def gmock_log_def gmock_expect_def report_failure_def mocker_alive_def
      mocker_at_def)

lemma mocker_expectations_owned:
  "world_ok w \<Longrightarrow> mocker_alive w f \<Longrightarrow>
   set (fm_expectations (mocker_at w f)) \<subseteq> {e. \<exists>x. book w e = Some x \<and> ex_owner x = f}"
  by (auto simp: world_ok_def mocker_ok_def)

lemma mocker_expectations_alive:
  "world_ok w \<Longrightarrow> mocker_alive w f \<Longrightarrow> set (fm_expectations (mocker_at w f)) \<subseteq> {e. alive w e}"
  using mocker_expectations_owned [of w f] by (auto simp: alive_iff)

lemma world_ok_mocker_plain:
  assumes "world_ok w" and "mocker_alive w f"
    and "fm_expectations (g (mocker_at w f)) = fm_expectations (mocker_at w f)"
  shows "world_ok (change_mocker f g w)"
  using assms mocker_expectations_owned [OF assms(1,2)] by (intro world_ok_change_mocker) simp_all

lemma world_ok_register_owner:
  "world_ok w \<Longrightarrow> mocker_alive w f \<Longrightarrow> world_ok (register_owner obj f w)"
  by (simp add: register_owner_def register_mocker_def world_ok_mocker_plain)

lemma mocker_alive_register_owner [simp]: "mocker_alive w f \<Longrightarrow> mocker_alive (register_owner obj f w) f"
  by (simp add: register_owner_def register_mocker_def)

text \<open>A new expectation that no one needs.\<close>

lemma describing_new:
  assumes "world_ok w" and "mocker_alive w f"
  shows "describing (length (gw_expectations w)) (change_mocker f
    (\<lambda>fm. fm\<lparr>fm_expectations := fm_expectations fm @ [length (gw_expectations w)]\<rparr>)
    (w\<lparr>gw_expectations := gw_expectations w @ [Some (new_expectation f file line text m)]\<rparr>))"
proof -
  let ?e = "length (gw_expectations w)"
  let ?x = "(new_expectation f file line text m)\<lparr>ex_action_count_checked := True\<rparr>"
  define v where "v = w\<lparr>gw_expectations := gw_expectations w @ [Some (new_expectation f file line text m)]\<rparr>"
  have B: "book v = (book w)(?e \<mapsto> ?x)"
    by (auto simp: book_def v_def fun_eq_iff nth_append)
  have alive: "alive v d \<longleftrightarrow> alive w d \<or> d = ?e" for d
    by (auto simp: alive_iff B)
  have none: "book w ?e = None"
    by (simp add: book_def)
  have needs: "needs (book v) = needs (book w)"
    using none by (auto simp: needs_def B new_expectation_def split: if_splits)
  have retired: "retired_in (book v) d = retired_in (book w) d" for d
    using none by (auto simp: retired_in_def B new_expectation_def)
  have owners: "gw_mockers v = gw_mockers w" "gw_sequences v = gw_sequences w" "gw_handles v = gw_handles w"
      "gw_implicit_sequence v = gw_implicit_sequence w"
    by (simp_all add: v_def)
  have "mocker_ok v g" if "mocker_ok w g" for g
    using that by (rule mocker_ok_frame) (use none in \<open>auto simp: B mocker_at_def owners\<close>)
  then have v: "world_ok v" "mocker_alive v f"
    using assms unfolding world_ok_def book_ok_def retired_closed_def needs retired owners
    by (auto simp: B alive mocker_alive_def owners)
  have "world_ok (change_mocker f (\<lambda>fm. fm\<lparr>fm_expectations := fm_expectations fm @ [?e]\<rparr>) v)"
    using v mocker_expectations_owned [OF v] by (intro world_ok_change_mocker) (auto simp: B new_expectation_def)
  then show ?thesis
    unfolding v_def [symmetric] using alive retired none
    by (simp add: describing_def retired_in_def) (simp add: v_def)
qed

lemma describing_add_new_expectation:
  assumes "world_ok w" and "mocker_alive w f" and "add_new_expectation f file line text m w = (w', e)"
  shows "describing e w'" and "gw_handles w' = gw_handles w"
    and "length (gw_sequences w') = length (gw_sequences w)" and "e = length (gw_expectations w)"
proof -
  define u where "u = register_use (the (fm_mock_obj (mocker_at w f))) file line w"
  have u: "world_ok u" "mocker_alive u f" "length (gw_expectations u) = length (gw_expectations w)"
      "gw_sequences u = gw_sequences w" "gw_handles u = gw_handles w"
      "gw_implicit_sequence u = gw_implicit_sequence w"
    using assms(1,2) by (simp_all add: u_def register_use_def) (simp_all add: change_registry_def)
  define v where "v = change_mocker f (\<lambda>fm. fm\<lparr>fm_expectations := fm_expectations fm @ [length (gw_expectations u)]\<rparr>)
    (u\<lparr>gw_expectations := gw_expectations u @ [Some (new_expectation f file line text m)]\<rparr>)"
  have v: "describing (length (gw_expectations u)) v"
    unfolding v_def using u(1,2) by (rule describing_new)
  have owners: "gw_sequences v = gw_sequences w" "gw_handles v = gw_handles w"
      "gw_implicit_sequence v = gw_implicit_sequence w"
    using u(4-6) by (simp_all add: v_def)
  have w': "e = length (gw_expectations w)" "w' = (case gw_implicit_sequence v of None \<Rightarrow> v
      | Some s \<Rightarrow> add_to_sequence s (length (gw_expectations u)) v)"
    using assms(3) u(3-6) owners(3)
    by (auto simp: add_new_expectation_def Let_def u_def [symmetric] v_def [symmetric] split: option.splits)
  show "e = length (gw_expectations w)"
    by (rule w'(1))
  show "gw_handles w' = gw_handles w" and "length (gw_sequences w') = length (gw_sequences w)"
    using owners by (simp_all add: w'(2) split: option.split)
  show "describing e w'"
    using v u(3) assms(1) owners
    by (auto simp: w' world_ok_def split: option.split intro!: describing_add_to_sequence)
qed

lemma world_ok_expect_call:
  assumes ok: "world_ok w" "mocker_alive w f" and "list_all (clause_allowed w) clauses"
    and "expect_call obj f file line o_text c_text m clauses w = (w', e)"
  shows "world_ok w'" and "alive w' e"
proof -
  define st where "st = ''EXPECT_CALL('' @ o_text @ '', '' @ c_text @ '')''"
  define v where "v = log_with_location K_info file line (st @ '' invoked'') (register_owner obj f w)"
  have v: "world_ok v" "mocker_alive v f" "gw_handles v = gw_handles w"
      "length (gw_sequences v) = length (gw_sequences w)" "gw_expectations v = gw_expectations w"
    using ok by (simp_all add: v_def log_with_location_def world_ok_register_owner)
      (simp_all add: register_owner_def register_mocker_def change_registry_def)
  obtain u d where u: "add_new_expectation f file line st m v = (u, d)"
    by (rule prod.exhaust)
  note new = describing_add_new_expectation [OF v(1,2) u]
  have w': "w' = fold (apply_clause d) clauses u" "e = d"
    using assms(4) unfolding expect_call_def Let_def st_def [symmetric] v_def [symmetric] u by auto
  have "list_all (clause_allowed u) clauses"
  proof -
    have "clause_allowed w c \<longleftrightarrow> clause_allowed u c" for c
      using new(2,3) v(3,4) by (cases c) simp_all
    then show ?thesis
      using assms(3) by (simp add: list_all_iff)
  qed
  moreover have "d \<notin> set (gw_handles u)"
    using v(1,3) new(2,4) by (auto simp: world_ok_def alive_def)
  ultimately have "describing e w'"
    using describing_clauses [OF new(1)] by (simp add: w')
  then show "world_ok w'" and "alive w' e"
    by (simp_all add: describing_def)
qed

lemma world_ok_on_clause:
  assumes "world_ok w" and "mocker_alive w f"
  shows "world_ok (apply_on_clause f c w) \<and> mocker_alive (apply_on_clause f c w) f"
  using assms by (cases c) (simp_all add: Let_def change_last_spec_def world_ok_mocker_plain)

lemma world_ok_on_clauses:
  "world_ok w \<Longrightarrow> mocker_alive w f \<Longrightarrow> world_ok (fold (apply_on_clause f) cs w)"
  by (induction cs arbitrary: w) (simp_all add: world_ok_on_clause)

lemma world_ok_on_call:
  assumes "world_ok w" and "mocker_alive w f"
  shows "world_ok (on_call obj f file line o_text c_text m clauses w)"
  using assms unfolding on_call_def Let_def log_with_location_def register_use_def
  by (intro world_ok_on_clauses) (simp_all add: world_ok_mocker_plain world_ok_register_owner)

subsection \<open>The end of expectations and mockers\<close>

lemma not_ownedD:
  assumes "\<not> owned e w"
  shows "mocker_alive w f \<Longrightarrow> e \<notin> set (fm_expectations (mocker_at w f))"
    and "(d, e) \<notin> needs (book w)" and "Some e \<notin> set (gw_sequences w)" and "e \<notin> set (gw_handles w)"
proof -
  show "Some e \<notin> set (gw_sequences w)" and "e \<notin> set (gw_handles w)"
    using assms by (auto simp: owned_def)
  show "e \<notin> set (fm_expectations (mocker_at w f))" if f: "mocker_alive w f"
  proof -
    obtain m where m: "gw_mockers w ! f = Some m"
      using f by (auto simp: mocker_alive_def)
    then have "Some m \<in> set (gw_mockers w)"
      using f nth_mem [of f "gw_mockers w"] by (simp add: mocker_alive_def)
    with assms m show ?thesis
      by (auto simp: owned_def list_ex_iff mocker_at_def)
  qed
  show "(d, e) \<notin> needs (book w)"
  proof
    assume "(d, e) \<in> needs (book w)"
    then have "alive w d" and "e \<in> set (ex_prerequisites (exp_at w d))"
      using needs_exp_at [of w d e] by (auto simp: needs_def alive_iff)
    moreover obtain x where x: "gw_expectations w ! d = Some x"
      using \<open>alive w d\<close> by (auto simp: alive_def)
    moreover have "Some x \<in> set (gw_expectations w)"
      using \<open>alive w d\<close> nth_mem [of d "gw_expectations w"] x by (simp add: alive_def)
    ultimately show False
      using assms by (auto simp: owned_def list_ex_iff exp_at_def)
  qed
qed

lemma book_destroy: "alive w e \<Longrightarrow> book (destroy_expectation e w) = (book w)(e := None)"
proof -
  assume e: "alive w e"
  have "book (v\<lparr>gw_expectations := (gw_expectations v)[e := None]\<rparr>) = (book v)(e := None)"
    if "e < length (gw_expectations v)" for v :: "('a, 'b) gmock_world"
    using that by (auto simp: book_def fun_eq_iff nth_list_update)
  moreover have "e < length (gw_expectations (check_action_count e w))"
    using e by (simp add: alive_def)
  ultimately show ?thesis
    using e by (simp add: destroy_expectation_def Let_def)
qed

lemma same_owners_destroy [simp]: "same_owners w (destroy_expectation e w)"
  using logged_same_owners [OF logged_check_action_count [of w e]]
  by (simp add: destroy_expectation_def Let_def same_owners_def)

lemma world_ok_destroy:
  assumes ok: "world_ok w" and e: "alive w e" and "\<not> owned e w"
  shows "world_ok (destroy_expectation e w)"
proof -
  note free = not_ownedD [OF assms(3)]
  have owners: "same_owners w (destroy_expectation e w)"
    by simp
  have alive: "alive (destroy_expectation e w) d \<longleftrightarrow> alive w d \<and> d \<noteq> e" for d
    by (simp add: alive_iff book_destroy [OF e])
  have needs: "(d, p) \<in> needs (book (destroy_expectation e w)) \<longleftrightarrow> d \<noteq> e \<and> (d, p) \<in> needs (book w)" for d p
    by (auto simp: needs_def book_destroy [OF e])
  have retired: "retired_in (book (destroy_expectation e w)) d \<longleftrightarrow> d \<noteq> e \<and> retired_in (book w) d" for d
    by (auto simp: retired_in_def book_destroy [OF e])
  have "book_ok (book (destroy_expectation e w))"
    using ok free(2) unfolding book_ok_def needs by (auto simp: world_ok_def book_ok_def book_destroy [OF e])
  moreover have "retired_closed (book (destroy_expectation e w))"
    using ok free(2) unfolding retired_closed_def needs retired by (auto simp: world_ok_def retired_closed_def)
  moreover have "mocker_ok (destroy_expectation e w) f" if "mocker_alive (destroy_expectation e w) f" for f
  proof -
    have f: "mocker_alive w f" "mocker_at (destroy_expectation e w) f = mocker_at w f"
      using that owners by (simp_all add: same_owners_def mocker_alive_def mocker_at_def)
    then have "mocker_ok w f" using ok by (simp add: world_ok_def)
    then show ?thesis by (rule mocker_ok_frame) (use f free(1) [OF f(1)] in \<open>auto simp: book_destroy [OF e]\<close>)
  qed
  ultimately show ?thesis
    using ok owners free(3,4) unfolding world_ok_def same_owners_def alive by auto
qed

lemma world_ok_release_all: "world_ok w \<Longrightarrow> world_ok (release_all es w) \<and> same_owners w (release_all es w)"
proof (induction es w rule: release_all.induct)
  case (2 e es w)
  show ?case
  proof (cases "e \<in> set es \<or> owned e w \<or> \<not> alive w e")
    case False
    then have "world_ok (destroy_expectation e w)"
      using 2(3) world_ok_destroy by auto
    with 2(2) False show ?thesis
      using same_owners_trans [OF same_owners_destroy] by auto
  qed (use 2 in auto)
qed simp

lemma verify_each_spec:
  "book (fst (verify_each es w)) = book w \<and> same_owners w (fst (verify_each es w))"
  by (induction es arbitrary: w) (auto simp: Let_def intro: same_owners_trans [OF same_owners_simps(2)])

lemma same_owners_mocker: "same_owners w w' \<Longrightarrow> mocker_alive w' f = mocker_alive w f"
  by (simp add: same_owners_def mocker_alive_def)

lemma world_ok_verify:
  assumes "world_ok w" and "mocker_alive w f"
  shows "world_ok (fst (verify_and_clear_expectations_locked f w)) \<and>
    (\<forall>g. mocker_alive (fst (verify_and_clear_expectations_locked f w)) g = mocker_alive w g) \<and>
    gw_implicit_sequence (fst (verify_and_clear_expectations_locked f w)) = gw_implicit_sequence w"
proof -
  define es where "es = fm_expectations (mocker_at w f)"
  define v where "v = change_mocker f (\<lambda>fm. fm\<lparr>fm_expectations := []\<rparr>) (fst (verify_each es w))"
  note each = verify_each_spec [of es w]
  have "world_ok (fst (verify_each es w))" and "mocker_alive (fst (verify_each es w)) f"
    using assms each world_ok_cong same_owners_mocker by blast+
  then have "world_ok v"
    unfolding v_def by (intro world_ok_change_mocker) simp_all
  moreover have "mocker_alive v g = mocker_alive w g" for g
    using assms(2) same_owners_mocker [of w "fst (verify_each es w)" g] each
    by (auto simp: v_def mocker_alive_def [of w f] same_owners_def)
  moreover have "gw_implicit_sequence v = gw_implicit_sequence w"
    using each by (simp add: v_def same_owners_def)
  moreover have "fst (verify_and_clear_expectations_locked f w) = release_all es v"
    by (simp add: verify_and_clear_expectations_locked_def Let_def es_def v_def case_prod_beta)
  ultimately show ?thesis
    using world_ok_release_all [of v es] same_owners_mocker [of v "release_all es v"]
    by (auto simp: same_owners_def)
qed

lemma world_ok_verify_mockers:
  "world_ok w \<Longrightarrow> (\<And>f. f \<in> set fs \<Longrightarrow> mocker_alive w f) \<Longrightarrow> world_ok (fst (verify_mockers fs w))"
proof (induction fs arbitrary: w)
  case (Cons f fs)
  then show ?case
    using world_ok_verify [OF Cons.prems(1), of f]
    by (auto simp: Let_def case_prod_beta)
qed simp

lemma world_ok_clear_defaults:
  "world_ok w \<Longrightarrow> (\<And>f. f \<in> set fs \<Longrightarrow> mocker_alive w f) \<Longrightarrow>
   world_ok (fold clear_default_actions_locked fs w) \<and>
   (\<forall>g. mocker_alive (fold clear_default_actions_locked fs w) g = mocker_alive w g)"
proof (induction fs arbitrary: w)
  case (Cons f fs)
  have "mocker_alive (clear_default_actions_locked f w) g = mocker_alive w g" for g
    using Cons.prems(2) [of f] by (auto simp: clear_default_actions_locked_def mocker_alive_def [of w f])
  moreover have "world_ok (clear_default_actions_locked f w)"
    using Cons.prems by (simp add: clear_default_actions_locked_def world_ok_mocker_plain)
  ultimately show ?case
    using Cons.IH [of "clear_default_actions_locked f w"] Cons.prems(2) by simp
qed simp

end
