(* ===== verification/Gmock_Registry.thy ===== *)
theory Gmock_Registry
  imports Gmock_Safety
begin

text \<open>
  The registry of mock objects: each registered mocker is alive and belongs to the object under
  which it is registered, so that verification never follows a pointer to a destroyed mocker.
  With \<open>world_ok\<close> this is the invariant \<open>test_ok\<close> of a test.
\<close>

definition registry_ok :: "('v, 'm) gmock_world \<Rightarrow> bool" where
  "registry_ok w \<longleftrightarrow> sorted_wrt (<) (map fst (gw_registry w)) \<and>
     (\<forall>(obj, s) \<in> set (gw_registry w). distinct (mo_function_mockers s) \<and>
       (\<forall>f \<in> set (mo_function_mockers s). mocker_alive w f \<and> fm_mock_obj (mocker_at w f) = Some obj))"

definition test_ok :: "('v, 'm) gmock_world \<Rightarrow> bool" where
  "test_ok w \<longleftrightarrow> world_ok w \<and> registry_ok w"

lemma registry_ok_cong: "same_owners w w' \<Longrightarrow> registry_ok w' \<longleftrightarrow> registry_ok w"
  by (simp add: registry_ok_def same_owners_def mocker_alive_def mocker_at_def)

lemma registry_okD:
  assumes "registry_ok w" and "(obj, s) \<in> set (gw_registry w)"
  shows "distinct (mo_function_mockers s)"
    and "f \<in> set (mo_function_mockers s) \<Longrightarrow> mocker_alive w f \<and> fm_mock_obj (mocker_at w f) = Some obj"
  using assms unfolding registry_ok_def by blast+

lemma registry_ok_frame:
  assumes "registry_ok w" and "gw_registry w' = gw_registry w"
    and "\<And>f. mocker_alive w f \<Longrightarrow> mocker_alive w' f \<and> fm_mock_obj (mocker_at w' f) = fm_mock_obj (mocker_at w f)"
  shows "registry_ok w'"
  using assms by (fastforce simp: registry_ok_def)

lemma registry_ok_change_mocker:
  assumes "registry_ok w" and "mocker_alive w f"
    and "fm_mock_obj (g (mocker_at w f)) = fm_mock_obj (mocker_at w f) \<or> fm_mock_obj (mocker_at w f) = None"
  shows "registry_ok (change_mocker f g w)"
  using assms by (fastforce simp: registry_ok_def mocker_at_change)

lemma keys_update_state: "set (map fst (update_state k h xs)) = insert k (set (map fst xs))"
  by (induction k h xs rule: update_state.induct) (simp_all add: insert_commute)

lemma sorted_update_state:
  "sorted_wrt (<) (map fst xs) \<Longrightarrow> sorted_wrt (<) (map fst (update_state k h xs))"
proof (induction k h xs rule: update_state.induct)
  case (2 k h l v xs)
  show ?case
  proof (cases "l < k")
    case True
    then have "\<forall>a \<in> set (map fst (update_state k h xs)). l < a"
      using 2(2) unfolding keys_update_state by auto
    then show ?thesis
      using 2 True by simp
  next
    case False
    then show ?thesis
      using 2(2) by fastforce
  qed
qed simp

lemma set_update_state:
  "(obj, s) \<in> set (update_state k h xs) \<Longrightarrow>
   (obj, s) \<in> set xs \<or> obj = k \<and> (s = h fresh_object_state \<or> (\<exists>t. (k, t) \<in> set xs \<and> s = h t))"
  by (induction xs) (auto split: if_splits)

lemma registry_ok_change_registry:
  assumes "registry_ok w"
    and "\<And>s. distinct (mo_function_mockers s) \<Longrightarrow> distinct (mo_function_mockers (h s))"
    and "\<And>s f. f \<in> set (mo_function_mockers (h s)) \<Longrightarrow> f \<in> set (mo_function_mockers s) \<or>
      mocker_alive w f \<and> fm_mock_obj (mocker_at w f) = Some obj"
  shows "registry_ok (change_registry obj h w)"
proof -
  have good: "distinct (mo_function_mockers s) \<and>
      (\<forall>f \<in> set (mo_function_mockers s). mocker_alive w f \<and> fm_mock_obj (mocker_at w f) = Some k)"
    if "(k, s) \<in> set (update_state obj h (gw_registry w))" for k s
    using set_update_state [OF that]
  proof (elim disjE exE conjE)
    assume "(k, s) \<in> set (gw_registry w)"
    with assms(1) show ?thesis
      by (fastforce simp: registry_ok_def)
  next
    assume "k = obj" and "s = h fresh_object_state"
    with assms(2) [of fresh_object_state] assms(3) [of _ fresh_object_state] show ?thesis
      by (auto simp: fresh_object_state_def)
  next
    fix t
    assume "k = obj" and "s = h t" and "(obj, t) \<in> set (gw_registry w)"
    with assms show ?thesis
      by (fastforce simp: registry_ok_def)
  qed
  have "gw_registry (change_registry obj h w) = update_state obj h (gw_registry w)"
    by (simp add: change_registry_def)
  then show ?thesis
    using assms(1) good sorted_update_state unfolding registry_ok_def by auto
qed

lemma registry_ok_register_use: "registry_ok w \<Longrightarrow> registry_ok (register_use obj file line w)"
  unfolding register_use_def
  by (rule registry_ok_change_registry) (auto simp: Let_def split: option.splits if_splits prod.splits)

lemma registry_ok_register_owner:
  assumes "registry_ok w" and "mocker_alive w f" and "fm_mock_obj (mocker_at w f) \<in> {None, Some obj}"
  shows "registry_ok (register_owner obj f w)"
  unfolding register_owner_def register_mocker_def
  using assms by (intro registry_ok_change_registry registry_ok_change_mocker)
    (auto simp: distinct_insort_insert set_insort_insert mocker_at_change)

lemma registry_ok_simps [simp]:
  "registry_ok (gmock_expect b file line msg w) = registry_ok w"
  "registry_ok (gmock_log sev msg k w) = registry_ok w"
  "registry_ok (change_exp e g w) = registry_ok w"
  "registry_ok (report_failure t file line msg w) = registry_ok w"
  "registry_ok (check_action_count e w) = registry_ok w"
  by (rule registry_ok_cong; simp add: logged_same_owners)+

lemma registry_ok_updates [simp]:
  "registry_ok (w\<lparr>gw_expectations := xs\<rparr>) = registry_ok w"
  "registry_ok (w\<lparr>gw_sequences := ss\<rparr>) = registry_ok w"
  "registry_ok (w\<lparr>gw_handles := es\<rparr>) = registry_ok w"
  "registry_ok (w\<lparr>gw_implicit_sequence := s\<rparr>) = registry_ok w"
  "registry_ok (w\<lparr>gw_reactions := r\<rparr>) = registry_ok w"
  "registry_ok (expect_spec_property e b msg w) = registry_ok w"
  "registry_ok (report_problem p w) = registry_ok w"
  by (simp_all add: registry_ok_def mocker_alive_def mocker_at_def expect_spec_property_def report_problem_def
      gmock_expect_def report_failure_def split: option.split prod.split)

lemma registry_ok_add_to_sequence [simp]: "registry_ok (add_to_sequence s e w) = registry_ok w"
  by (simp add: add_to_sequence_def Let_def split: option.split)

lemma registry_ok_clause [simp]: "registry_ok (apply_clause e c w) = registry_ok w"
  by (cases c) (auto simp: clause_with_def untyped_times_def clause_in_sequence_def clause_after_def
      clause_will_once_def clause_will_repeatedly_def clause_retires_on_saturation_def Let_def split: if_splits)

lemma registry_ok_clauses [simp]: "registry_ok (fold (apply_clause e) cs w) = registry_ok w"
  by (induction cs arbitrary: w) simp_all

subsection \<open>Statements\<close>

lemma mocker_at_log [simp]: "mocker_at (log_with_location sev file line msg w) f = mocker_at w f"
  "mocker_alive (log_with_location sev file line msg w) f = mocker_alive w f"
  "registry_ok (log_with_location sev file line msg w) = registry_ok w"
  by (simp_all add: log_with_location_def)

lemma registry_ok_add_new_expectation:
  assumes "registry_ok w" and "mocker_alive w f" and "add_new_expectation f file line text m w = (w', e)"
  shows "registry_ok w'"
proof -
  define v where "v = (register_use (the (fm_mock_obj (mocker_at w f))) file line w)
    \<lparr>gw_expectations := gw_expectations (register_use (the (fm_mock_obj (mocker_at w f))) file line w) @
      [Some (new_expectation f file line text m)]\<rparr>"
  have "registry_ok v"
    using assms(1) by (simp add: v_def registry_ok_register_use)
  moreover have "mocker_alive v f"
    using assms(2) by (simp add: v_def register_use_def change_registry_def mocker_alive_def)
  ultimately have "registry_ok (change_mocker f (\<lambda>fm. fm\<lparr>fm_expectations := fm_expectations fm @ [e]\<rparr>) v)" for e
    by (intro registry_ok_change_mocker) simp_all
  then show ?thesis
    using assms(3) by (auto simp: add_new_expectation_def Let_def v_def split: option.splits)
qed

lemma registry_ok_expect_call:
  assumes "registry_ok w" and "mocker_alive w f" and "fm_mock_obj (mocker_at w f) \<in> {None, Some obj}"
  shows "registry_ok (fst (expect_call obj f file line o_text c_text m clauses w))"
proof -
  define st where "st = ''EXPECT_CALL('' @ o_text @ '', '' @ c_text @ '')''"
  define v where "v = log_with_location K_info file line (st @ '' invoked'') (register_owner obj f w)"
  obtain u d where u: "add_new_expectation f file line st m v = (u, d)"
    by (rule prod.exhaust)
  have "registry_ok v" and "mocker_alive v f"
    using assms by (simp_all add: v_def registry_ok_register_owner)
  then have "registry_ok u"
    using u by (rule registry_ok_add_new_expectation)
  then show ?thesis
    unfolding expect_call_def Let_def st_def [symmetric] v_def [symmetric] u by simp
qed

lemma registry_ok_on_clauses:
  "registry_ok w \<Longrightarrow> mocker_alive w f \<Longrightarrow> registry_ok (fold (apply_on_clause f) cs w)"
proof (induction cs arbitrary: w)
  case (Cons c cs)
  have "registry_ok (apply_on_clause f c w) \<and> mocker_alive (apply_on_clause f c w) f"
    using Cons.prems by (cases c) (simp_all add: Let_def change_last_spec_def registry_ok_change_mocker)
  then show ?case
    using Cons.IH by simp
qed simp

lemma registry_ok_on_call:
  assumes "registry_ok w" and "mocker_alive w f" and "fm_mock_obj (mocker_at w f) \<in> {None, Some obj}"
  shows "registry_ok (on_call obj f file line o_text c_text m clauses w)"
proof -
  define v where "v = register_use (the (fm_mock_obj (mocker_at (register_owner obj f w) f))) file line
    (log_with_location K_info file line (''ON_CALL('' @ o_text @ '', '' @ c_text @ '') invoked'') (register_owner obj f w))"
  have "registry_ok v"
    using assms by (simp add: v_def registry_ok_register_use registry_ok_register_owner)
  moreover have "mocker_alive v f"
    using assms(2) by (simp add: v_def register_use_def)
  ultimately show ?thesis
    unfolding on_call_def Let_def mocker_at_log v_def [symmetric]
    by (intro registry_ok_on_clauses registry_ok_change_mocker) (simp_all add: mocker_at_change)
qed

lemma object_mockers_alive:
  "registry_ok w \<Longrightarrow> f \<in> set (object_mockers obj w) \<Longrightarrow> mocker_alive w f"
  by (cases "map_of (gw_registry w) obj") (auto simp: registry_ok_def object_mockers_def dest!: map_of_SomeD)

subsection \<open>Verification\<close>

lemma registry_ok_verify:
  assumes "world_ok w" and "registry_ok w" and "mocker_alive w f"
  shows "registry_ok (fst (verify_and_clear_expectations_locked f w))"
proof -
  define es where "es = fm_expectations (mocker_at w f)"
  define v where "v = fst (verify_each es w)"
  define u where "u = change_mocker f (\<lambda>fm. fm\<lparr>fm_expectations := []\<rparr>) v"
  have v: "same_owners w v" "book v = book w"
    using verify_each_spec [of es w] by (simp_all add: v_def)
  then have ok: "world_ok v" "registry_ok v" "mocker_alive v f"
    using assms world_ok_cong registry_ok_cong same_owners_mocker by blast+
  have "registry_ok u"
    unfolding u_def using ok(2,3) by (rule registry_ok_change_mocker) simp
  moreover have "world_ok u"
    unfolding u_def using ok by (intro world_ok_change_mocker) simp_all
  moreover have "fst (verify_and_clear_expectations_locked f w) = release_all es u"
    by (simp add: verify_and_clear_expectations_locked_def Let_def es_def v_def u_def case_prod_beta)
  ultimately show ?thesis
    using registry_ok_cong [of u "release_all es u"] world_ok_release_all [of u es] by simp
qed

lemma test_ok_verify_mockers:
  "test_ok w \<Longrightarrow> (\<And>f. f \<in> set fs \<Longrightarrow> mocker_alive w f) \<Longrightarrow> test_ok (fst (verify_mockers fs w))"
proof (induction fs arbitrary: w)
  case (Cons f fs)
  have f: "mocker_alive w f" and ok: "world_ok w" "registry_ok w"
    using Cons.prems by (simp_all add: test_ok_def)
  let ?v = "fst (verify_and_clear_expectations_locked f w)"
  have "test_ok ?v"
    using world_ok_verify [OF ok(1) f] registry_ok_verify [OF ok f] by (simp add: test_ok_def)
  moreover have "mocker_alive ?v g" if "g \<in> set fs" for g
    using world_ok_verify [OF ok(1) f] Cons.prems(2) that by simp
  ultimately show ?case
    using Cons.IH [of ?v] by (simp add: Let_def case_prod_beta)
qed simp

lemma registry_ok_clear_defaults:
  "registry_ok w \<Longrightarrow> (\<And>f. f \<in> set fs \<Longrightarrow> mocker_alive w f) \<Longrightarrow>
   registry_ok (fold clear_default_actions_locked fs w)"
  by (induction fs arbitrary: w) (simp_all add: clear_default_actions_locked_def registry_ok_change_mocker)

subsection \<open>The end of a mocker\<close>

definition without :: "nat \<Rightarrow> mock_object_state \<Rightarrow> mock_object_state \<Rightarrow> bool" where
  "without f t s \<longleftrightarrow> distinct (mo_function_mockers s) \<and>
     set (mo_function_mockers s) = set (mo_function_mockers t) - {f}"

lemma erase_mocker_spec:
  assumes "sorted_wrt (<) (map fst xs)" and "\<And>k s. (k, s) \<in> set xs \<Longrightarrow> distinct (mo_function_mockers s)"
    and "\<And>k s. (k, s) \<in> set xs \<Longrightarrow> f \<in> set (mo_function_mockers s) \<Longrightarrow> k = obj"
  shows "sorted_wrt (<) (map fst (erase_mocker f xs)) \<and>
    (\<forall>(k, s) \<in> set (erase_mocker f xs). \<exists>t. (k, t) \<in> set xs \<and> without f t s)"
  using assms
proof (induction xs)
  case (Cons x xs)
  obtain l v where x: "x = (l, v)"
    by (cases x)
  have v: "distinct (mo_function_mockers v)" and l: "l < k" if "(k, s) \<in> set xs" for k s
    using Cons.prems(1,2) that by (auto simp: x)
  show ?case
  proof (cases "f \<in> set (mo_function_mockers v)")
    case True
    define v' where "v' = v\<lparr>mo_function_mockers := remove1 f (mo_function_mockers v)\<rparr>"
    have "distinct (mo_function_mockers v)"
      using Cons.prems(2) by (auto simp: x)
    then have v': "without f v v'"
      by (simp add: v'_def without_def)
    have "without f s s" if s: "(k, s) \<in> set xs" for k s
    proof -
      have "l = obj" and "k \<noteq> l"
        using Cons.prems(3) [of l v] True l [OF s] by (simp_all add: x)
      then show ?thesis
        using Cons.prems(2,3) [of k s] s by (auto simp: without_def)
    qed
    then have rest: "\<forall>(k, s) \<in> set xs. \<exists>t. (k, t) \<in> set (x # xs) \<and> without f t s"
      by auto
    have "set (erase_mocker f (x # xs)) \<subseteq> insert (l, v') (set xs)"
        and "sorted_wrt (<) (map fst (erase_mocker f (x # xs)))"
      using True Cons.prems(1) by (auto simp: x v'_def Let_def)
    moreover have "\<exists>t. (k, t) \<in> set (x # xs) \<and> without f t s" if "(k, s) \<in> insert (l, v') (set xs)" for k s
      using that rest v' x by auto
    ultimately show ?thesis
      by blast
  next
    case False
    have prems: "sorted_wrt (<) (map fst xs)" "(k, s) \<in> set xs \<Longrightarrow> distinct (mo_function_mockers s)"
        "(k, s) \<in> set xs \<Longrightarrow> f \<in> set (mo_function_mockers s) \<Longrightarrow> k = obj" for k s
      using Cons.prems(1) Cons.prems(2,3) [of k s] by simp_all
    have "sorted_wrt (<) (map fst (erase_mocker f xs)) \<and>
        (\<forall>(k, s) \<in> set (erase_mocker f xs). \<exists>t. (k, t) \<in> set xs \<and> without f t s)"
      using prems by (rule Cons.IH)
    then have IH: "sorted_wrt (<) (map fst (erase_mocker f xs))"
        "\<forall>(k, s) \<in> set (erase_mocker f xs). \<exists>t. (k, t) \<in> set xs \<and> without f t s"
      by (rule conjunct1, rule conjunct2)
    have "l < k" if "(k, s) \<in> set (erase_mocker f xs)" for k s
      using IH(2) l that by blast
    moreover have "without f v v"
      using False Cons.prems(2) by (auto simp: x without_def)
    ultimately show ?thesis
      using False IH by (auto simp: x)
  qed
qed simp

lemma registry_ok_destroy_mocker:
  assumes "registry_ok w" and "mocker_alive w f"
  shows "registry_ok (clear_default_actions_locked f (unregister_mocker f w)
    \<lparr>gw_mockers := (gw_mockers (clear_default_actions_locked f (unregister_mocker f w)))[f := None]\<rparr>)"
proof -
  define w' where "w' = clear_default_actions_locked f (unregister_mocker f w)
    \<lparr>gw_mockers := (gw_mockers (clear_default_actions_locked f (unregister_mocker f w)))[f := None]\<rparr>"
  have "sorted_wrt (<) (map fst (erase_mocker f (gw_registry w))) \<and>
      (\<forall>(k, s) \<in> set (erase_mocker f (gw_registry w)). \<exists>t. (k, t) \<in> set (gw_registry w) \<and> without f t s)"
  proof (rule erase_mocker_spec)
    show "sorted_wrt (<) (map fst (gw_registry w))"
      using assms(1) by (simp add: registry_ok_def)
    show "distinct (mo_function_mockers s)" if "(k, s) \<in> set (gw_registry w)" for k s
      using registry_okD(1) [OF assms(1) that] .
    show "k = the (fm_mock_obj (mocker_at w f))"
      if "(k, s) \<in> set (gw_registry w)" "f \<in> set (mo_function_mockers s)" for k s
      using registry_okD(2) [OF assms(1) that] by simp
  qed
  then have erased: "sorted_wrt (<) (map fst (erase_mocker f (gw_registry w)))"
      "\<forall>(k, s) \<in> set (erase_mocker f (gw_registry w)). \<exists>t. (k, t) \<in> set (gw_registry w) \<and> without f t s"
    by (rule conjunct1, rule conjunct2)
  have u: "gw_registry w' = erase_mocker f (gw_registry w)"
      "g \<noteq> f \<Longrightarrow> mocker_alive w' g = mocker_alive w g" "g \<noteq> f \<Longrightarrow> mocker_at w' g = mocker_at w g" for g
    using assms(2) by (simp_all add: w'_def clear_default_actions_locked_def change_mocker_def unregister_mocker_def
        mocker_alive_def mocker_at_def)
  have "distinct (mo_function_mockers s) \<and>
      (\<forall>g \<in> set (mo_function_mockers s). mocker_alive w' g \<and> fm_mock_obj (mocker_at w' g) = Some k)"
    if entry: "(k, s) \<in> set (erase_mocker f (gw_registry w))" for k s
  proof -
    obtain t where t: "(k, t) \<in> set (gw_registry w)" and "without f t s"
      using erased(2) entry by blast
    have "mocker_alive w' g \<and> fm_mock_obj (mocker_at w' g) = Some k" if "g \<in> set (mo_function_mockers s)" for g
    proof -
      have "g \<noteq> f" and "g \<in> set (mo_function_mockers t)"
        using \<open>without f t s\<close> that by (simp_all add: without_def)
      with registry_okD(2) [OF assms(1) t] show ?thesis
        by (simp add: u(2,3))
    qed
    with \<open>without f t s\<close> show ?thesis
      by (simp add: without_def)
  qed
  with erased(1) have "registry_ok w'"
    unfolding registry_ok_def u(1) by blast
  then show ?thesis
    by (simp add: w'_def)
qed

lemma test_ok_destroy_mocker:
  assumes "test_ok w" and "mocker_alive w f"
  shows "test_ok (destroy_mocker f w)"
proof -
  define v where "v = fst (verify_and_clear_expectations_locked f w)"
  have v: "world_ok v" "registry_ok v" "mocker_alive v f"
    using world_ok_verify [of w f] registry_ok_verify [of w f] assms by (simp_all add: v_def test_ok_def)
  define u where "u = clear_default_actions_locked f (unregister_mocker f v)"
  have destroyed: "destroy_mocker f w = u\<lparr>gw_mockers := (gw_mockers u)[f := None]\<rparr>"
    by (simp add: destroy_mocker_def Let_def v_def u_def)
  have u: "book u = book v" "gw_sequences u = gw_sequences v" "gw_handles u = gw_handles v"
      "gw_implicit_sequence u = gw_implicit_sequence v" "alive u e = alive v e"
      "g \<noteq> f \<Longrightarrow> mocker_alive u g = mocker_alive v g" "g \<noteq> f \<Longrightarrow> mocker_at u g = mocker_at v g" for e g
    using v(3) by (simp_all add: u_def clear_default_actions_locked_def change_mocker_def unregister_mocker_def
        mocker_alive_def mocker_at_def book_def fun_eq_iff alive_def)
  have book: "book (destroy_mocker f w) = book u"
    by (simp add: destroyed book_def fun_eq_iff)
  have gone: "mocker_alive (destroy_mocker f w) g \<longleftrightarrow> mocker_alive v g \<and> g \<noteq> f"
      "g \<noteq> f \<Longrightarrow> mocker_at (destroy_mocker f w) g = mocker_at v g" for g
  proof -
    have "mocker_alive (destroy_mocker f w) g \<longleftrightarrow> mocker_alive u g \<and> g \<noteq> f"
      by (cases "g = f") (auto simp: destroyed mocker_alive_def)
    then show "mocker_alive (destroy_mocker f w) g \<longleftrightarrow> mocker_alive v g \<and> g \<noteq> f"
      using u(6) by auto
    show "g \<noteq> f \<Longrightarrow> mocker_at (destroy_mocker f w) g = mocker_at v g"
      using u(7) [of g] by (simp add: destroyed mocker_at_def)
  qed
  have alive: "alive (destroy_mocker f w) e = alive v e" for e
    using u(1) book by (simp add: alive_iff)
  have rest: "gw_sequences (destroy_mocker f w) = gw_sequences v" "gw_handles (destroy_mocker f w) = gw_handles v"
      "gw_implicit_sequence (destroy_mocker f w) = gw_implicit_sequence v"
    using u by (simp_all add: destroyed)
  have "world_ok (destroy_mocker f w)"
    using v(1) gone unfolding world_ok_def book u(1) alive rest mocker_ok_def by auto
  moreover have "registry_ok (destroy_mocker f w)"
    using registry_ok_destroy_mocker [OF v(2,3)] by (simp add: destroyed u_def)
  ultimately show ?thesis
    by (simp add: test_ok_def)
qed

subsection \<open>Calls\<close>

lemma uninteresting_spec:
  "book (fst (uninteresting_call pr f args w)) = book w \<and> same_owners w (fst (uninteresting_call pr f args w))"
proof -
  define reaction where "reaction = get_reaction (the (fm_mock_obj (mocker_at w f))) w"
  define need_to_report where "need_to_report \<longleftrightarrow>
    (if reaction = K_allow then log_is_visible (gw_verbose w) K_info
     else if reaction = K_warn then log_is_visible (gw_verbose w) K_warning else True)"
  define ss where "ss = describe_uninteresting_call pr f args w"
  have p: "book u = book w \<and> same_owners w u" if "perform_default_action f args d w = (u, r)" for d u r
    using default_performed [OF that] performed_fields(5) performed_same_owners by blast
  have r: "book (report_uninteresting_call k msg u) = book u \<and> same_owners u (report_uninteresting_call k msg u)" for k msg u
    by (cases k) (simp_all add: report_uninteresting_call_def)
  show ?thesis
  proof (cases "need_to_report")
    case True
    then have "\<exists>u r k msg. perform_default_action f args ss w = (u, r) \<and>
        fst (uninteresting_call pr f args w) \<in> {u, report_uninteresting_call k msg u}"
      by (auto simp: uninteresting_call_def Let_def need_to_report_def reaction_def ss_def split: prod.split mock_result.split)
    then obtain u r' k msg where "perform_default_action f args ss w = (u, r')"
        "fst (uninteresting_call pr f args w) = u \<or>
         fst (uninteresting_call pr f args w) = report_uninteresting_call k msg u"
      by blast
    with p [of ss u r'] r [of k msg u] same_owners_trans show ?thesis
      by auto
  next
    case False
    then have "uninteresting_call pr f args w = perform_default_action f args [] w"
      by (auto simp: uninteresting_call_def Let_def need_to_report_def reaction_def)
    with p show ?thesis
      by (metis prod.collapse)
  qed
qed

end
