(* ===== verification/Gmock_Tests.thy ===== *)
theory Gmock_Tests
  imports Gmock_Registry
begin

text \<open>
  A test that uses mocks, as the sequence of its statements: mocked functions are made and
  destroyed, expectations and default actions are set, mocked functions are called, sequences
  begin and end, and mock objects are verified. A statement is \<open>None\<close> when it does not end, follows
  a pointer to a destroyed object or stops the program by an assertion of gmock; this never happens
  to a statement that is allowed, which is the \<open>step_system\<close> of the theory.
\<close>

datatype ('v, 'm) test_step =
    Make_mocker "(nat \<times> 'v option) option"
  | Make_object nat call_reaction
  | End_object nat
  | Leak_allowed nat
  | Expect nat nat string int string string "'v matcher list" "('v, 'm) expect_clause list"
  | By_default nat nat string int string string "'v matcher list" "('v, 'm) on_clause list"
  | Call nat string nat "'v list"
  | Keep_expectation nat
  | Copy_expectation nat
  | Drop_expectation nat
  | Make_sequence
  | Begin_in_sequence
  | End_in_sequence
  | Verify_expectations nat
  | Verify_everything nat
  | Destroy_mocker nat
  | Set_default nat 'v
  | Clear_default nat

text \<open>
  \<open>GetHandleOf\<close> looks the expectation up in the list of the mocker; without it the assertion
  fails, which ends the program. \<open>GetHandle\<close> follows \<open>owner_\<close>: there is no result when the
  expectation or its owner is destroyed.
\<close>

definition get_handle_of :: "nat \<Rightarrow> nat \<Rightarrow> ('v, 'm) gmock_world \<Rightarrow> nat option" where
  "get_handle_of f e w = find (\<lambda>d. d = e) (fm_expectations (mocker_at w f))"

definition get_handle :: "nat \<Rightarrow> ('v, 'm) gmock_world \<Rightarrow> nat option" where
  "get_handle e w =
     (if \<not> alive w e then None
      else let f = ex_owner (exp_at w e)
      in if mocker_alive w f then get_handle_of f e w else None)"

text \<open>
  A handle is made from a reference to the expectation, as in \<open>Expectation e = EXPECT_CALL(...)\<close>,
  or from another handle.
\<close>

definition keep_expectation :: "nat \<Rightarrow> ('v, 'm) gmock_world \<Rightarrow> ('v, 'm) gmock_world option" where
  "keep_expectation e w = map_option (\<lambda>d. w\<lparr>gw_handles := d # gw_handles w\<rparr>) (get_handle e w)"

definition copy_expectation :: "nat \<Rightarrow> ('v, 'm) gmock_world \<Rightarrow> ('v, 'm) gmock_world" where
  "copy_expectation e w = w\<lparr>gw_handles := e # gw_handles w\<rparr>"

definition drop_expectation :: "nat \<Rightarrow> ('v, 'm) gmock_world \<Rightarrow> ('v, 'm) gmock_world" where
  "drop_expectation e w = release_all [e] (w\<lparr>gw_handles := remove1 e (gw_handles w)\<rparr>)"

fun do_step ::
  "('v \<Rightarrow> string) \<Rightarrow> ('v, 'm) test_step \<Rightarrow> ('v, 'm) gmock_world \<Rightarrow> ('v, 'm) gmock_world option" where
  "do_step pr (Make_mocker result) w = Some (fst (new_mocker result w))"
| "do_step pr (Make_object obj reaction) w = Some (set_reaction obj reaction w)"
| "do_step pr (End_object obj) w = Some (unregister_call_reaction obj w)"
| "do_step pr (Leak_allowed obj) w = Some (allow_leak obj w)"
| "do_step pr (Expect obj f file line o_text c_text m clauses) w =
     Some (fst (expect_call obj f file line o_text c_text m clauses w))"
| "do_step pr (By_default obj f file line o_text c_text m clauses) w =
     Some (on_call obj f file line o_text c_text m clauses w)"
| "do_step pr (Call obj name f args) w = map_option fst (mock_method pr obj name f args w)"
| "do_step pr (Keep_expectation e) w = keep_expectation e w"
| "do_step pr (Copy_expectation e) w = Some (copy_expectation e w)"
| "do_step pr (Drop_expectation e) w = Some (drop_expectation e w)"
| "do_step pr Make_sequence w = Some (fst (new_sequence w))"
| "do_step pr Begin_in_sequence w = Some (fst (in_sequence_begin w))"
| "do_step pr End_in_sequence w = Some (in_sequence_end True w)"
| "do_step pr (Verify_expectations obj) w = Some (fst (verify_and_clear_expectations obj w))"
| "do_step pr (Verify_everything obj) w = Some (fst (verify_and_clear obj w))"
| "do_step pr (Destroy_mocker f) w = Some (destroy_mocker f w)"
| "do_step pr (Set_default t v) w = Some (set_default_value t v w)"
| "do_step pr (Clear_default t) w = Some (clear_default_value t w)"

text \<open>
  A test has the mockers, sequences and expectations that it uses, and a mocker has one object. A
  reference to an expectation is used while a mocker holds the expectation.
\<close>

definition held :: "nat \<Rightarrow> ('v, 'm) gmock_world \<Rightarrow> bool" where
  "held e w \<longleftrightarrow> list_ex (\<lambda>f. mocker_alive w f \<and> e \<in> set (fm_expectations (mocker_at w f))) [0..<length (gw_mockers w)]"

definition mocker_of :: "nat \<Rightarrow> nat \<Rightarrow> ('v, 'm) gmock_world \<Rightarrow> bool" where
  "mocker_of obj f w \<longleftrightarrow> mocker_alive w f \<and> fm_mock_obj (mocker_at w f) \<in> {None, Some obj}"

fun step_allowed :: "('v, 'm) test_step \<Rightarrow> ('v, 'm) gmock_world \<Rightarrow> bool" where
  "step_allowed (Expect obj f file line o_text c_text m clauses) w =
     (mocker_of obj f w \<and> list_all (clause_allowed w) clauses)"
| "step_allowed (By_default obj f file line o_text c_text m clauses) w = mocker_of obj f w"
| "step_allowed (Call obj name f args) w = mocker_of obj f w"
| "step_allowed (Keep_expectation e) w = held e w"
| "step_allowed (Copy_expectation e) w = (e \<in> set (gw_handles w))"
| "step_allowed (Destroy_mocker f) w = mocker_alive w f"
| "step_allowed _ w = True"

subsection \<open>The invariant\<close>

lemma book_call_alive: "book_call es args B = (B', v) \<Longrightarrow> B' e = None \<longleftrightarrow> B e = None"
  by (auto simp: book_call_def split: option.splits if_splits)

lemma book_call_owner:
  "book_call es args B = (B', v) \<Longrightarrow> B e = Some x \<Longrightarrow> \<exists>y. B' e = Some y \<and> ex_owner y = ex_owner x"
  by (auto simp: book_call_def retire_set_def count_call_def split: option.splits if_splits)

text \<open>While a mocker holds an expectation, \<open>GetHandle\<close> of the expectation finds it there.\<close>

lemma get_handle_held:
  assumes "world_ok w" and "held e w"
  shows "get_handle e w = Some e" and "alive w e"
proof -
  obtain f where f: "mocker_alive w f" "e \<in> set (fm_expectations (mocker_at w f))"
    using assms(2) by (auto simp: held_def list_ex_iff)
  with assms(1) show e: "alive w e" using mocker_expectations_alive by blast
  from f assms(1) obtain x where "book w e = Some x" "ex_owner x = f" using mocker_expectations_owned by blast
  then have "ex_owner (exp_at w e) = f" using book_alive [OF e] by auto
  moreover have "find (\<lambda>d. d = e) es = Some e" if "e \<in> set es" for es
    using that by (induction es) auto
  ultimately show "get_handle e w = Some e" using e f by (simp add: get_handle_def get_handle_of_def Let_def)
qed

lemma test_ok_call:
  assumes "test_ok w" and "mocker_of obj f w"
  obtains w' r where "mock_method pr obj name f args w = Some (w', r)" and "test_ok w'"
proof -
  define v where "v = set_owner_and_name obj name f w"
  have f: "mocker_alive w f"
    using assms(2) by (simp add: mocker_of_def)
  have v: "world_ok v" "registry_ok v" "mocker_alive v f"
    using assms f by (auto simp: v_def set_owner_and_name_def test_ok_def mocker_of_def world_ok_mocker_plain
        intro!: registry_ok_change_mocker)
  then have ok: "book_ok (book v)" "retired_closed (book v)" "mocker_ok v f"
    by (simp_all add: world_ok_def)
  show thesis
  proof (cases "fm_expectations (mocker_at v f) = []")
    case True
    obtain u r where u: "uninteresting_call pr f args v = (u, r)"
      by (rule prod.exhaust)
    have "test_ok u"
      using uninteresting_spec [of pr f args v] v world_ok_cong [of u v] registry_ok_cong [of v u]
      by (simp add: u test_ok_def)
    with True u show thesis
      by (intro that [of u r]) (simp_all add: mock_method_def untyped_invoke_with_def v_def [symmetric])
  next
    case False
    obtain u r k fs where u: "untyped_invoke_with pr f args v = Some (u, r)"
        "book_call (fm_expectations (mocker_at v f)) args (book v) = (book u, k)" "same_owners v u"
      using invoke_refines [OF ok False] by metis
    have "mocker_ok u g" if "mocker_ok v g" for g
      using that by (rule mocker_ok_frame) (use book_call_owner [OF u(2)] u(3) in \<open>auto simp: same_owners_def mocker_at_def\<close>)
    then have "world_ok u"
      using v(1) book_call_keeps [OF ok(1,2) u(2)] book_call_alive [OF u(2)] u(3)
      unfolding world_ok_def same_owners_def mocker_alive_def alive_iff by auto
    with u v show thesis
      using registry_ok_cong [OF u(3)]
      by (intro that [of u r]) (simp_all add: mock_method_def v_def [symmetric] test_ok_def)
  qed
qed

lemma test_ok_cong: "book w' = book w \<Longrightarrow> same_owners w w' \<Longrightarrow> test_ok w' \<longleftrightarrow> test_ok w"
  using world_ok_cong [of w' w] registry_ok_cong [of w w'] by (simp add: test_ok_def)

lemma test_ok_release_all: "test_ok w \<Longrightarrow> test_ok (release_all es w)"
  using world_ok_release_all [of w es] registry_ok_cong [of w "release_all es w"] by (simp add: test_ok_def)

text \<open>Fewer pointers, or the same.\<close>

lemma test_ok_fewer:
  assumes "test_ok w" and "book w' = book w" and "gw_mockers w' = gw_mockers w" and "gw_registry w' = gw_registry w"
    and "\<And>e. Some e \<in> set (gw_sequences w') \<Longrightarrow> alive w e" and "\<And>e. e \<in> set (gw_handles w') \<Longrightarrow> alive w e"
    and "\<And>s. gw_implicit_sequence w' = Some s \<Longrightarrow> s < length (gw_sequences w')"
  shows "test_ok w'"
proof -
  have "alive w' e = alive w e" for e
    by (simp add: alive_iff assms(2))
  with assms show ?thesis
    unfolding test_ok_def world_ok_def registry_ok_def mocker_alive_def mocker_ok_def mocker_at_def by auto
qed

lemma test_okD:
  assumes "test_ok w"
  shows "Some e \<in> set (gw_sequences w) \<Longrightarrow> alive w e" and "e \<in> set (gw_handles w) \<Longrightarrow> alive w e"
    and "gw_implicit_sequence w = Some s \<Longrightarrow> s < length (gw_sequences w)"
  using assms by (simp_all add: test_ok_def world_ok_def)

lemma book_updates [simp]:
  "book (w\<lparr>gw_sequences := ss\<rparr>) = book w" "book (w\<lparr>gw_handles := es\<rparr>) = book w"
  "book (w\<lparr>gw_implicit_sequence := i\<rparr>) = book w" "book (w\<lparr>gw_reactions := rs\<rparr>) = book w"
  "book (w\<lparr>gw_defaults := ds\<rparr>) = book w" "book (w\<lparr>gw_mockers := ms\<rparr>) = book w"
  by (rule book_cong; simp)+

lemma test_ok_copy: "test_ok w \<Longrightarrow> alive w e \<Longrightarrow> test_ok (copy_expectation e w)"
  unfolding copy_expectation_def by (rule test_ok_fewer) (auto dest: test_okD)

lemma test_ok_keep: "test_ok w \<Longrightarrow> held e w \<Longrightarrow> \<exists>w'. keep_expectation e w = Some w' \<and> test_ok w'"
  using get_handle_held [of w e] test_ok_copy [of w e] by (simp add: keep_expectation_def copy_expectation_def test_ok_def)

lemma test_ok_drop: "test_ok w \<Longrightarrow> test_ok (drop_expectation e w)"
  unfolding drop_expectation_def
  by (intro test_ok_release_all, rule test_ok_fewer) (auto dest: test_okD set_remove1_subset [THEN subsetD])

lemma test_ok_new_sequence: "test_ok w \<Longrightarrow> test_ok (fst (new_sequence w))"
  unfolding new_sequence_def fst_conv by (rule test_ok_fewer) (auto dest: test_okD intro: less_SucI)

lemma test_ok_in_sequence_begin:
  assumes "test_ok w"
  shows "test_ok (fst (in_sequence_begin w))"
proof (cases "gw_implicit_sequence w")
  case None
  have "test_ok (w\<lparr>gw_sequences := gw_sequences w @ [None], gw_implicit_sequence := Some (length (gw_sequences w))\<rparr>)"
    using assms by (rule test_ok_fewer) (auto dest: test_okD [OF assms])
  then show ?thesis
    by (simp add: None in_sequence_begin_def new_sequence_def)
qed (use assms in \<open>simp add: in_sequence_begin_def\<close>)

lemma test_ok_in_sequence_end:
  assumes "test_ok w"
  shows "test_ok (in_sequence_end b w)"
proof (cases "b \<and> gw_implicit_sequence w \<noteq> None")
  case True
  then obtain s where s: "gw_implicit_sequence w = Some s"
    by auto
  have "test_ok (w\<lparr>gw_sequences := (gw_sequences w)[s := None], gw_implicit_sequence := None\<rparr>)"
    using assms by (rule test_ok_fewer) (auto dest!: set_update_subset_insert [THEN subsetD] dest: test_okD [OF assms])
  then show ?thesis
    using True s by (simp add: in_sequence_end_def Let_def test_ok_release_all del: release_all.simps split: option.split)
qed (use assms in \<open>auto simp: in_sequence_end_def\<close>)

lemma test_ok_new_mocker:
  assumes "test_ok w"
  shows "test_ok (fst (new_mocker result w))"
proof -
  define n where "n = length (gw_mockers w)"
  define w' where "w' = fst (new_mocker result w)"
  have new: "fm_expectations (mocker_at w' n) = []" and old: "mocker_alive w' f \<longleftrightarrow> mocker_alive w f \<or> f = n"
      "mocker_alive w f \<Longrightarrow> mocker_at w' f = mocker_at w f" for f
    by (auto simp: w'_def n_def new_mocker_def mocker_at_def mocker_alive_def nth_append)
  have same: "book w' = book w" "gw_sequences w' = gw_sequences w" "gw_handles w' = gw_handles w"
      "gw_implicit_sequence w' = gw_implicit_sequence w" "gw_registry w' = gw_registry w"
    by (simp_all add: w'_def new_mocker_def)
  have alive: "alive w' e = alive w e" for e
    by (simp add: alive_iff same(1))
  have "mocker_ok w' f" if f: "mocker_alive w' f" for f
  proof (cases "f = n")
    case False
    then have "mocker_alive w f"
      using f old(1) by simp
    moreover have "mocker_ok w f"
      using assms \<open>mocker_alive w f\<close> unfolding test_ok_def world_ok_def by blast
    ultimately show ?thesis
      unfolding mocker_ok_def same(1) old(2) [OF \<open>mocker_alive w f\<close>] by blast
  qed (simp add: mocker_ok_def new)
  then have "world_ok w'"
    using assms unfolding test_ok_def world_ok_def same alive by blast
  moreover have "registry_ok w'"
  proof (rule registry_ok_frame [of w])
    show "registry_ok w"
      using assms by (simp add: test_ok_def)
    show "mocker_alive w' f \<and> fm_mock_obj (mocker_at w' f) = fm_mock_obj (mocker_at w f)" if "mocker_alive w f" for f
      using old [of f] that by simp
  qed (rule same(5))
  ultimately show ?thesis
    by (simp add: test_ok_def w'_def)
qed

lemma test_ok_plain:
  assumes "test_ok w"
  shows "test_ok (set_reaction obj r w)" "test_ok (unregister_call_reaction obj w)"
    "test_ok (set_default_value t v w)" "test_ok (clear_default_value t w)"
  unfolding set_reaction_def unregister_call_reaction_def set_default_value_def clear_default_value_def
  using assms by (rule test_ok_fewer; auto dest: test_okD [OF assms])+

lemma test_ok_allow_leak: "test_ok w \<Longrightarrow> test_ok (allow_leak obj w)"
  by (auto simp: allow_leak_def test_ok_def intro!: registry_ok_change_registry)

lemma test_ok_verify_expectations: "test_ok w \<Longrightarrow> test_ok (fst (verify_and_clear_expectations obj w))"
  unfolding verify_and_clear_expectations_def
  by (rule test_ok_verify_mockers) (auto simp: test_ok_def intro: object_mockers_alive)

lemma test_ok_verify_everything:
  assumes "test_ok w"
  shows "test_ok (fst (verify_and_clear obj w))"
proof -
  have "mocker_alive w f" if "f \<in> set (object_mockers obj w)" for f
    using assms that object_mockers_alive by (auto simp: test_ok_def)
  then have "test_ok (fold clear_default_actions_locked (object_mockers obj w) w)"
    using assms world_ok_clear_defaults registry_ok_clear_defaults unfolding test_ok_def by blast
  then show ?thesis
    unfolding verify_and_clear_def by (rule test_ok_verify_expectations)
qed

lemma test_ok_step:
  assumes ok: "test_ok w" and allowed: "step_allowed s w"
  shows "\<exists>w'. do_step pr s w = Some w' \<and> test_ok w'"
proof (cases s)
  case (Expect obj f fl ln o_text c_text m clauses)
  obtain w' e where w': "expect_call obj f fl ln o_text c_text m clauses w = (w', e)"
    by (rule prod.exhaust)
  have f: "mocker_alive w f" "fm_mock_obj (mocker_at w f) \<in> {None, Some obj}" "list_all (clause_allowed w) clauses"
    using allowed by (simp_all add: Expect mocker_of_def)
  have "world_ok w" and "registry_ok w"
    using ok by (simp_all add: test_ok_def)
  with f w' show ?thesis
    using world_ok_expect_call(1) [OF _ f(1,3) w'] registry_ok_expect_call [OF _ f(1,2)]
    by (simp add: Expect test_ok_def) (metis fst_conv)
next
  case (Call obj name f args)
  then show ?thesis
    using allowed test_ok_call [OF ok, of obj f pr name args] by (metis do_step.simps(7) fst_conv option.simps(9) step_allowed.simps(3))
next
  case (By_default obj f fl ln o_text c_text m clauses)
  then show ?thesis
    using ok allowed by (simp add: test_ok_def mocker_of_def world_ok_on_call registry_ok_on_call)
qed (use ok allowed in \<open>simp_all add: test_ok_keep test_ok_copy test_okD(2) test_ok_drop test_ok_new_sequence test_ok_in_sequence_begin
    test_ok_in_sequence_end test_ok_new_mocker test_ok_plain test_ok_allow_leak test_ok_verify_expectations
    test_ok_verify_everything test_ok_destroy_mocker\<close>)

subsection \<open>Tests\<close>

text \<open>The state of a test is \<open>None\<close> once a statement does not end.\<close>

definition run_statement ::
  "('v \<Rightarrow> string) \<Rightarrow> ('v, 'm) gmock_world option \<Rightarrow> ('v, 'm) test_step \<Rightarrow> ('v, 'm) gmock_world option" where
  "run_statement pr w s = Option.bind w (do_step pr s)"

lemma run_statement_Some: "run_statement pr (Some w) s = do_step pr s w"
  by (simp add: run_statement_def)

definition statement_allowed :: "('v, 'm) gmock_world option \<Rightarrow> ('v, 'm) test_step \<Rightarrow> bool" where
  "statement_allowed w s = (case w of None \<Rightarrow> False | Some w \<Rightarrow> step_allowed s w)"

interpretation mock_test: step_system "run_statement pr" statement_allowed "\<lambda>w. \<exists>v. w = Some v \<and> test_ok v"
  by unfold_locales (auto simp: run_statement_def statement_allowed_def intro: test_ok_step)

text \<open>The world in which a test program starts.\<close>

definition fresh_world :: "string \<Rightarrow> 'm \<Rightarrow> ('v, 'm) gmock_world" where
  "fresh_world verbose memory =
     \<lparr>gw_expectations = [], gw_mockers = [], gw_sequences = [], gw_implicit_sequence = None, gw_handles = [],
      gw_registry = [], gw_reactions = Map.empty, gw_defaults = Map.empty, gw_verbose = verbose,
      gw_catch_leaked_mocks = True, gw_current_test = None, gw_output = [], gw_failures = [], gw_memory = memory\<rparr>"

lemma test_ok_fresh: "test_ok (fresh_world verbose memory)"
  by (simp add: test_ok_def world_ok_def registry_ok_def fresh_world_def book_ok_def retired_closed_def needs_def
      book_def mocker_alive_def)

end
