(* ===== verification/Gmock_Sequences.thy ===== *)
theory Gmock_Sequences
  imports Gmock_Tests
begin

text \<open>
  What a test observes of its mocks: a run of calls reports one failure for each call that no
  expectation handles, and verification succeeds exactly when every expectation was called as often
  as its cardinality says. For a block of expectations in \<open>InSequence\<close> both together accept
  exactly one run of calls.
\<close>

subsection \<open>Mockers of which every action returns\<close>

definition sound_mocker :: "('v, 'm) gmock_world \<Rightarrow> nat \<Rightarrow> bool" where
  "sound_mocker w f \<longleftrightarrow>
     list_all (\<lambda>s. on_last_clause s = On_will_by_default \<and> returns (on_action s))
       (fm_on_call_specs (mocker_at w f)) \<and>
     default_result (mocker_at w f) w \<noteq> None"

definition sound_book :: "('v, 'm) book \<Rightarrow> bool" where
  "sound_book B \<longleftrightarrow> (\<forall>e x. B e = Some x \<longrightarrow> 0 \<le> ex_call_count x \<and>
     list_all (\<lambda>a. is_do_default a \<or> returns a) (ex_repeated_action x # ex_actions x))"

text \<open>What calls leave of the mockers.\<close>

definition keeps_mockers :: "('v, 'm) gmock_world \<Rightarrow> ('v, 'm) gmock_world \<Rightarrow> bool" where
  "keeps_mockers w w' \<longleftrightarrow> gw_defaults w' = gw_defaults w \<and> gw_implicit_sequence w' = gw_implicit_sequence w \<and>
     gw_sequences w' = gw_sequences w \<and> gw_handles w' = gw_handles w \<and>
     (\<forall>g. mocker_alive w' g = mocker_alive w g \<and>
       fm_expectations (mocker_at w' g) = fm_expectations (mocker_at w g) \<and>
       fm_on_call_specs (mocker_at w' g) = fm_on_call_specs (mocker_at w g) \<and>
       fm_result (mocker_at w' g) = fm_result (mocker_at w g))"

lemma keeps_mockers_refl [simp]: "keeps_mockers w w"
  by (simp add: keeps_mockers_def)

lemma keeps_mockers_trans: "keeps_mockers u v \<Longrightarrow> keeps_mockers v w \<Longrightarrow> keeps_mockers u w"
  by (simp add: keeps_mockers_def)

lemma same_owners_keeps: "same_owners w w' \<Longrightarrow> gw_defaults w' = gw_defaults w \<Longrightarrow> keeps_mockers w w'"
  by (simp add: keeps_mockers_def same_owners_def mocker_alive_def mocker_at_def)

lemma keeps_mockers_sound: "keeps_mockers w w' \<Longrightarrow> sound_mocker w' f = sound_mocker w f"
  by (simp add: keeps_mockers_def sound_mocker_def default_result_def split: option.split)

lemma keeps_mockers_named:
  "mocker_alive w f \<Longrightarrow> keeps_mockers w (set_owner_and_name obj name f w)"
  unfolding keeps_mockers_def set_owner_and_name_def
  by (simp add: mocker_at_change mocker_alive_def [of w f]) (simp add: change_mocker_def)

lemma default_returns:
  assumes "sound_mocker w f" and "perform_default_action f args d w = (w', r)"
  shows "returned r"
proof (cases "find_on_call_spec args (mocker_at w f)")
  case None
  with assms show ?thesis
    by (auto simp: perform_default_action_def sound_mocker_def returned_def)
next
  case (Some s)
  then have "s \<in> set (fm_on_call_specs (mocker_at w f))"
    by (auto simp: find_on_call_spec_def dest: find_SomeD)
  then have "on_last_clause s = On_will_by_default" and "returns (on_action s)"
    using assms(1) by (auto simp: sound_mocker_def list_all_iff)
  with Some assms(2) show ?thesis
    by (auto simp: perform_default_action_def run_action_def returns_def returned_def split: prod.splits) (metis snd_conv)
qed

lemma chosen_action_in:
  assumes "0 \<le> ex_call_count x"
  shows "chosen_action x \<in> set (ex_repeated_action x # ex_actions x)"
proof (cases "ex_call_count x < int (length (ex_actions x))")
  case True
  then have "nat (ex_call_count x) < length (ex_actions x)"
    using assms by (simp add: nat_less_iff)
  with True show ?thesis
    by (simp add: chosen_action_def)
qed (simp add: chosen_action_def)

lemma perform_found_returns:
  assumes "sound_mocker w f" and "sound_book B" and "book_call es args B = (B', v)"
    and "perform_found f (action_for v B) args d w = (w', r)"
  shows "returned r"
proof (cases "action_for v B")
  case None
  with assms(1,4) show ?thesis
    by (auto simp: perform_found_def intro: default_returns)
next
  case (Some a)
  then obtain e where e: "v = Handled e" "normalised (chosen_action (the (B e))) = Some a"
    by (auto simp: action_for_def split: verdict.splits)
  then obtain x where x: "B e = Some x"
    using book_call_taken(2) [OF assms(3)] by (auto simp: eligible_def)
  then have "is_do_default (chosen_action x) \<or> returns (chosen_action x)"
    using assms(2) chosen_action_in [of x] unfolding sound_book_def list_all_iff by blast
  with e(2) x have "returns a"
    by (auto simp: normalised_def split: if_splits)
  with Some assms(4) show ?thesis
    by (auto simp: perform_found_def run_action_def returns_def returned_def split: prod.splits) (metis snd_conv)
qed

lemma sound_book_call:
  assumes "sound_book B" and "book_call es args B = (B', v)"
  shows "sound_book B'"
  unfolding sound_book_def
proof (intro allI impI)
  fix e x'
  assume x': "B' e = Some x'"
  then obtain x where x: "B e = Some x"
    using book_call_alive [OF assms(2), of e] by auto
  obtain r where "B' e = Some (x\<lparr>ex_call_count := ex_call_count x + (if taken_by e v then 1 else 0), ex_retired := r\<rparr>)"
    using book_call_state [OF assms(2) x] by blast
  with assms(1) x x' show "0 \<le> ex_call_count x' \<and>
      list_all (\<lambda>a. is_do_default a \<or> returns a) (ex_repeated_action x' # ex_actions x')"
    unfolding sound_book_def by fastforce
qed

subsection \<open>Runs of calls\<close>

definition interesting :: "(nat \<Rightarrow> nat) \<Rightarrow> ('v, 'm) gmock_world \<Rightarrow> nat \<Rightarrow> bool" where
  "interesting obj w f \<longleftrightarrow> mocker_of (obj f) f w \<and> fm_expectations (mocker_at w f) \<noteq> [] \<and> sound_mocker w f"

definition call_of :: "(nat \<Rightarrow> nat) \<Rightarrow> (nat \<Rightarrow> string) \<Rightarrow> nat \<times> 'v list \<Rightarrow> ('v, 'm) test_step" where
  "call_of obj name = (\<lambda>(f, args). Call (obj f) (name f) f args)"

lemma call_spec:
  assumes ok: "test_ok w" and f: "interesting obj w f" and "sound_book (book w)"
  obtains w' v fs
  where "do_step pr (call_of obj name (f, args)) w = Some w'" and "test_ok w'"
    and "book_call (fm_expectations (mocker_at w f)) args (book w) = (book w', v)"
    and "keeps_mockers w w'" and "gw_failures w' = gw_failures w @ fs" and "call_failures v fs"
    and "\<And>g. interesting obj w' g = interesting obj w g"
proof -
  have of: "mocker_of (obj f) f w" and alive: "mocker_alive w f"
    using f by (simp_all add: interesting_def mocker_of_def)
  define u where "u = set_owner_and_name (obj f) (name f) f w"
  have keeps: "keeps_mockers w u"
    unfolding u_def using alive by (rule keeps_mockers_named)
  have u: "book u = book w" "gw_failures u = gw_failures w"
    by (simp_all add: u_def set_owner_and_name_def)
  have es: "fm_expectations (mocker_at u f) = fm_expectations (mocker_at w f)" "sound_mocker u f"
    using keeps f keeps_mockers_sound [OF keeps] by (simp_all add: keeps_mockers_def interesting_def)
  have "world_ok u"
    using ok alive by (simp add: u_def set_owner_and_name_def test_ok_def world_ok_mocker_plain)
  then have ok': "book_ok (book u)" "retired_closed (book u)" "mocker_ok u f"
    using keeps alive by (simp_all add: world_ok_def keeps_mockers_def)
  have "fm_expectations (mocker_at u f) \<noteq> []"
    using f es by (simp add: interesting_def)
  then obtain w' r v fs d s t where w': "untyped_invoke_with pr f args u = Some (w', r)"
      "book_call (fm_expectations (mocker_at u f)) args (book u) = (book w', v)"
      "gw_failures w' = gw_failures u @ fs" "returned r \<Longrightarrow> call_failures v fs" "same_owners u w'"
      "perform_found f (action_for v (book u)) args d s = (t, r)" "logged u s" "gw_defaults w' = gw_defaults u"
    by (rule invoke_refines [OF ok', where pr = pr and args = args]) blast
  have "sound_mocker s f"
    using es(2) keeps_mockers_sound [OF same_owners_keeps [OF logged_same_owners [OF w'(7)] logged_fields(9) [OF w'(7)]]]
    by simp
  then have "returned r"
    using assms(3) w'(2,6) unfolding u(1) by (rule perform_found_returns)
  have "mock_method pr (obj f) (name f) f args w = Some (w', r)"
    using w'(1) by (simp add: mock_method_def u_def)
  moreover have "test_ok w'"
    using test_ok_call [OF ok of, of pr "name f" args] calculation by (metis option.inject prod.inject)
  moreover have "keeps_mockers w w'"
    using keeps same_owners_keeps [OF w'(5,8)] by (rule keeps_mockers_trans)
  moreover have "interesting obj w' g = interesting obj w g" for g
  proof -
    have "fm_mock_obj (mocker_at w' g) = (if g = f then Some (obj f) else fm_mock_obj (mocker_at w g))"
      using w'(5) alive by (simp add: u_def set_owner_and_name_def same_owners_def mocker_at_def [of w'] mocker_at_change
          flip: mocker_at_def [of "change_mocker _ _ _"])
    with calculation(3) keeps_mockers_sound [OF calculation(3)] of show ?thesis
      by (auto simp: interesting_def mocker_of_def keeps_mockers_def)
  qed
  ultimately show thesis
    using w'(2-4) \<open>returned r\<close> by (intro that [of w' v fs]) (simp_all add: call_of_def u es)
qed

text \<open>A run of calls of mockers with expectations gives the verdicts of the book, and reports them.\<close>

theorem calls_spec:
  assumes "test_ok w" and "sound_book (book w)" and "\<And>f. f \<in> fst ` set calls \<Longrightarrow> interesting obj w f"
  obtains w' vs fs
  where "run_steps (run_statement pr) (Some w) (map (call_of obj name) calls) = Some w'" and "test_ok w'"
    and "book_run (\<lambda>f. fm_expectations (mocker_at w f)) calls (book w) = (book w', vs)"
    and "keeps_mockers w w'" and "gw_failures w' = gw_failures w @ fs"
    and "length fs = length (filter (\<lambda>v. \<not> handled v) vs)" and "list_all part_nonfatally_failed fs"
proof -
  have "\<exists>w' vs fs. run_steps (run_statement pr) (Some w) (map (call_of obj name) calls) = Some w' \<and> test_ok w' \<and>
      book_run (\<lambda>f. fm_expectations (mocker_at w f)) calls (book w) = (book w', vs) \<and> keeps_mockers w w' \<and>
      gw_failures w' = gw_failures w @ fs \<and> length fs = length (filter (\<lambda>v. \<not> handled v) vs) \<and>
      list_all part_nonfatally_failed fs"
    using assms
  proof (induction calls arbitrary: w)
    case Nil
    then show ?case
      by simp
  next
    case (Cons c calls)
    obtain f args where c: "c = (f, args)"
      by (cases c)
    have f: "interesting obj w f"
      using Cons.prems(3) by (simp add: c)
    obtain u v fs where u: "do_step pr (call_of obj name (f, args)) w = Some u" "test_ok u"
        "book_call (fm_expectations (mocker_at w f)) args (book w) = (book u, v)" "keeps_mockers w u"
        "gw_failures u = gw_failures w @ fs" "call_failures v fs" "\<And>g. interesting obj u g = interesting obj w g"
      using call_spec [OF Cons.prems(1) f Cons.prems(2), where pr = pr and name = name and args = args] by blast
    have "(\<lambda>f. fm_expectations (mocker_at u f)) = (\<lambda>f. fm_expectations (mocker_at w f))"
      using u(4) by (simp add: keeps_mockers_def)
    then obtain w' vs gs where w': "run_steps (run_statement pr) (Some u) (map (call_of obj name) calls) = Some w'" "test_ok w'"
        "book_run (\<lambda>f. fm_expectations (mocker_at w f)) calls (book u) = (book w', vs)" "keeps_mockers u w'"
        "gw_failures w' = gw_failures u @ gs" "length gs = length (filter (\<lambda>v. \<not> handled v) vs)"
        "list_all part_nonfatally_failed gs"
      using Cons.IH [OF u(2) sound_book_call [OF Cons.prems(2) u(3)]] Cons.prems(3) u(7) by auto
    have "length fs = (if handled v then 0 else 1)" and "list_all part_nonfatally_failed fs"
      using u(6) by (auto simp: call_failures_def handled_def split: verdict.splits)
    moreover have "keeps_mockers w w'"
      using u(4) w'(4) by (rule keeps_mockers_trans)
    ultimately show ?case
      using u w' by (intro exI [of _ w'] exI [of _ "v # vs"] exI [of _ "fs @ gs"])
        (simp add: c run_statement_Some)
  qed
  with that show thesis
    by blast
qed

subsection \<open>Verification\<close>

lemma verify_each_verdict:
  "snd (verify_each es w) \<longleftrightarrow>
     (\<forall>e \<in> set es. \<not> is_over_saturated (exp_at w e) \<and> is_satisfied (exp_at w e))"
  by (induction es arbitrary: w) (auto simp: Let_def)

lemma verify_each_failures:
  "\<exists>fs. gw_failures (fst (verify_each es w)) = gw_failures w @ fs \<and> list_all part_nonfatally_failed fs \<and>
     length fs = length (filter (\<lambda>e. \<not> is_over_saturated (exp_at w e) \<and> \<not> is_satisfied (exp_at w e)) es)"
proof (induction es arbitrary: w)
  case (Cons e es)
  show ?case
  proof (cases "is_over_saturated (exp_at w e) \<or> is_satisfied (exp_at w e)")
    case True
    with Cons.IH [of w] show ?thesis
      by (auto simp: Let_def)
  next
    case False
    define why where "why = ''Actual function call count doesn'' @ [apostrophe] @ ''t match '' @
      ex_source_text (exp_at w e) @ ''...'' @ newline @ describe_extra_matcher (exp_at w e) @ describe_call_count (exp_at w e)"
    define u where "u = gmock_expect False (Some (ex_file (exp_at w e))) (ex_line (exp_at w e)) why w"
    have "fst (verify_each (e # es) w) = fst (verify_each es u)"
      using False by (simp add: u_def why_def Let_def)
    moreover have "exp_at u d = exp_at w d" for d
      by (simp add: u_def)
    moreover have "gw_failures u = gw_failures w @ [make_test_part_result K_non_fatal_failure
        (Some (ex_file (exp_at w e))) (ex_line (exp_at w e)) why]"
      by (simp add: u_def)
    ultimately show ?thesis
      using Cons.IH [of u] False by auto
  qed
qed simp

lemma release_all_failures [simp]: "gw_failures (release_all es w) = gw_failures w"
proof (induction es w rule: release_all.induct)
  case (2 e es w)
  have "gw_failures (destroy_expectation e w) = gw_failures w"
    using logged_fields(2) [OF logged_check_action_count [of w e]] by (simp add: destroy_expectation_def Let_def)
  with 2 show ?case
    by simp
qed simp

end
