(* ===== verification/Gmock_In_Order.thy ===== *)
theory Gmock_In_Order
  imports Gmock_Sequences
begin

text \<open>
  A block of expectations in \<open>InSequence\<close>. Each \<open>EXPECT_CALL\<close> of the block gets the one before it
  as its prerequisite, so that the block is at stage 0 of a strict sequence (\<open>at_stage\<close> of
  \<open>Gmock_Runs\<close>).
\<close>

lemma newest_expectation:
  fixes w :: "('v, 'm) gmock_world"
  assumes "mocker_alive w f" and "gw_implicit_sequence w = Some s" and "s < length (gw_sequences w)"
    and "gw_sequences w ! s \<noteq> Some (length (gw_expectations w))"
    and "expect_call obj f fl ln o_text c_text m [] w = (w', e)"
  shows "e = length (gw_expectations w)"
    and "\<exists>x. book w' = (book w)(e \<mapsto> x) \<and> ex_matchers x = m \<and> ex_extra_matcher x = any_matcher \<and>
      ex_prerequisites x = (case gw_sequences w ! s of None \<Rightarrow> [] | Some p \<Rightarrow> [p]) \<and>
      ex_cardinality x = between_impl 1 1 \<and> \<not> ex_retires_on_saturation x \<and> ex_call_count x = 0 \<and>
      \<not> ex_retired x \<and> ex_actions x = [] \<and> ex_repeated_action x = do_default"
    and "gw_sequences w' = (gw_sequences w)[s := Some e]" and "gw_implicit_sequence w' = Some s"
    and "length (gw_expectations w') = Suc (length (gw_expectations w))"
    and "gw_failures w' = gw_failures w" and "gw_defaults w' = gw_defaults w" and "gw_handles w' = gw_handles w"
    and "mocker_alive w' g = mocker_alive w g"
    and "fm_expectations (mocker_at w' g) = fm_expectations (mocker_at w g) @ (if g = f then [e] else [])"
    and "fm_on_call_specs (mocker_at w' g) = fm_on_call_specs (mocker_at w g)"
    and "fm_result (mocker_at w' g) = fm_result (mocker_at w g)"
    and "fm_mock_obj (mocker_at w' g) = (if g = f then Some obj else fm_mock_obj (mocker_at w g))"
proof -
  define st where "st = ''EXPECT_CALL('' @ o_text @ '', '' @ c_text @ '')''"
  define a where "a = register_use obj fl ln (log_with_location K_info fl ln (st @ '' invoked'') (register_owner obj f w))"
  define n where "n = length (gw_expectations w)"
  define b where "b = change_mocker f (\<lambda>fm. fm\<lparr>fm_expectations := fm_expectations fm @ [n]\<rparr>)
    (a\<lparr>gw_expectations := gw_expectations a @ [Some (new_expectation f fl ln st m)]\<rparr>)"
  have a: "gw_expectations a = gw_expectations w" "gw_sequences a = gw_sequences w"
      "gw_implicit_sequence a = gw_implicit_sequence w" "gw_failures a = gw_failures w"
      "gw_defaults a = gw_defaults w" "gw_handles a = gw_handles w"
      "gw_mockers a = (gw_mockers w)[f := Some ((mocker_at w f)\<lparr>fm_mock_obj := Some obj\<rparr>)]"
    by (simp_all add: a_def register_use_def log_with_location_def gmock_log_def register_owner_def
        register_mocker_def change_registry_def change_mocker_def)
  have owner: "the (fm_mock_obj (mocker_at (log_with_location K_info fl ln (st @ '' invoked'') (register_owner obj f w)) f)) = obj"
    using assms(1) by (simp add: register_owner_def register_mocker_def mocker_at_change)
  have w': "w' = add_to_sequence s n b" "e = n"
    using assms(2,5) a(3) unfolding expect_call_def Let_def st_def [symmetric] add_new_expectation_def owner
      a_def [symmetric] n_def a(1) b_def
    by (auto simp: change_mocker_def split: option.splits)
  show "e = length (gw_expectations w)"
    by (simp add: w'(2) n_def)
  have b: "gw_sequences b = gw_sequences w" "gw_implicit_sequence b = Some s" "gw_failures b = gw_failures w"
      "gw_defaults b = gw_defaults w" "gw_handles b = gw_handles w"
      "gw_expectations b = gw_expectations w @ [Some (new_expectation f fl ln st m)]"
    using assms(2) by (simp_all add: b_def a) (simp add: change_mocker_def a)
  show "gw_sequences w' = (gw_sequences w)[s := Some e]" and "gw_implicit_sequence w' = Some s"
    and "length (gw_expectations w') = Suc (length (gw_expectations w))"
    and "gw_failures w' = gw_failures w" and "gw_defaults w' = gw_defaults w" and "gw_handles w' = gw_handles w"
    using assms(4) b by (auto simp: w' add_to_sequence_def change_exp_def n_def split: option.split)
  have at: "mocker_at a f = (mocker_at w f)\<lparr>fm_mock_obj := Some obj\<rparr>"
    using assms(1) by (simp add: mocker_at_def [of a] mocker_alive_def a(7))
  have ms: "gw_mockers w' = (gw_mockers w)[f := Some ((mocker_at w f)\<lparr>fm_mock_obj := Some obj,
      fm_expectations := fm_expectations (mocker_at w f) @ [e]\<rparr>)]"
  proof -
    have "gw_mockers w' = gw_mockers b"
      by (simp add: w' add_to_sequence_def change_exp_def Let_def split: option.split)
    also have "\<dots> = (gw_mockers a)[f := Some ((mocker_at a f)\<lparr>fm_expectations := fm_expectations (mocker_at a f) @ [n]\<rparr>)]"
      by (simp add: b_def change_mocker_def mocker_at_def)
    finally show ?thesis
      by (simp add: a(7) at w'(2))
  qed
  show alive: "mocker_alive w' g = mocker_alive w g"
    using assms(1) by (cases "g = f") (auto simp: mocker_alive_def ms)
  have "mocker_at w' g = (if g = f then (mocker_at w f)\<lparr>fm_mock_obj := Some obj,
      fm_expectations := fm_expectations (mocker_at w f) @ [e]\<rparr> else mocker_at w g)"
    using assms(1) by (simp add: mocker_at_def [of w'] ms mocker_alive_def) (simp add: mocker_at_def)
  then show "fm_expectations (mocker_at w' g) = fm_expectations (mocker_at w g) @ (if g = f then [e] else [])"
    and "fm_on_call_specs (mocker_at w' g) = fm_on_call_specs (mocker_at w g)"
    and "fm_result (mocker_at w' g) = fm_result (mocker_at w g)"
    and "fm_mock_obj (mocker_at w' g) = (if g = f then Some obj else fm_mock_obj (mocker_at w g))"
    by simp_all
  define x :: "('v, 'm) expectation" where "x = (new_expectation f fl ln st m)\<lparr>ex_prerequisites :=
    (case gw_sequences w ! s of None \<Rightarrow> [] | Some p \<Rightarrow> [p])\<rparr>"
  have "gw_expectations w' = gw_expectations w @ [Some x]"
  proof (cases "gw_sequences w ! s")
    case None
    then show ?thesis
      by (simp add: w' add_to_sequence_def b x_def) (simp add: new_expectation_def)
  next
    case (Some p)
    moreover have "exp_at b n = new_expectation f fl ln st m"
      by (simp add: exp_at_def b(6) n_def nth_append)
    ultimately show ?thesis
      using assms(4) by (simp add: w' add_to_sequence_def change_exp_def b x_def n_def list_update_append)
        (simp add: new_expectation_def insort_insert_key_def)
  qed
  then have "book w' = (book w)(e \<mapsto> x\<lparr>ex_action_count_checked := True\<rparr>)"
    by (auto simp: book_def fun_eq_iff nth_append w'(2) n_def)
  then show "\<exists>x. book w' = (book w)(e \<mapsto> x) \<and> ex_matchers x = m \<and> ex_extra_matcher x = any_matcher \<and>
      ex_prerequisites x = (case gw_sequences w ! s of None \<Rightarrow> [] | Some p \<Rightarrow> [p]) \<and>
      ex_cardinality x = between_impl 1 1 \<and> \<not> ex_retires_on_saturation x \<and> ex_call_count x = 0 \<and>
      \<not> ex_retired x \<and> ex_actions x = [] \<and> ex_repeated_action x = do_default"
    by (intro exI conjI, assumption) (simp_all add: x_def new_expectation_def exactly_calls_def between_calls_def)
qed

subsection \<open>The block\<close>

text \<open>An \<open>EXPECT_CALL\<close> without clauses: mocker, file, line, texts and the argument matchers.\<close>

type_synonym 'v sequenced_call = "nat \<times> string \<times> int \<times> string \<times> string \<times> 'v matcher list"

definition sequenced_mocker :: "'v sequenced_call \<Rightarrow> nat" where
  "sequenced_mocker x = fst x"

definition sequenced_matchers :: "'v sequenced_call \<Rightarrow> 'v matcher list" where
  "sequenced_matchers x = (case x of (f, fl, ln, o_text, c_text, m) \<Rightarrow> m)"

definition expect_of :: "(nat \<Rightarrow> nat) \<Rightarrow> 'v sequenced_call \<Rightarrow> ('v, 'm) test_step" where
  "expect_of obj x = (case x of (f, fl, ln, o_text, c_text, m) \<Rightarrow> Expect (obj f) f fl ln o_text c_text m [])"

definition block_expectations :: "nat \<Rightarrow> 'v sequenced_call list \<Rightarrow> nat \<Rightarrow> nat list" where
  "block_expectations n xs g = filter (\<lambda>e. sequenced_mocker (xs ! (e - n)) = g) [n..<n + length xs]"

definition in_block ::
  "('v, 'm) gmock_world \<Rightarrow> (nat \<Rightarrow> nat) \<Rightarrow> 'v sequenced_call list \<Rightarrow> ('v, 'm) gmock_world \<Rightarrow> bool" where
  "in_block w obj xs w' \<longleftrightarrow>
     test_ok w' \<and> sound_book (book w') \<and>
     gw_implicit_sequence w' = Some (length (gw_sequences w)) \<and>
     gw_sequences w' = gw_sequences w @
       [if xs = [] then None else Some (length (gw_expectations w) + length xs - 1)] \<and>
     length (gw_expectations w') = length (gw_expectations w) + length xs \<and>
     at_stage (map sequenced_matchers xs) [length (gw_expectations w)..<length (gw_expectations w) + length xs] 0 (book w') \<and>
     gw_failures w' = gw_failures w \<and> gw_defaults w' = gw_defaults w \<and>
     (\<forall>g. mocker_alive w' g = mocker_alive w g \<and>
       fm_expectations (mocker_at w' g) = fm_expectations (mocker_at w g) @
         block_expectations (length (gw_expectations w)) xs g \<and>
       fm_on_call_specs (mocker_at w' g) = fm_on_call_specs (mocker_at w g) \<and>
       fm_result (mocker_at w' g) = fm_result (mocker_at w g) \<and>
       fm_mock_obj (mocker_at w' g) =
         (if g \<in> sequenced_mocker ` set xs then Some (obj g) else fm_mock_obj (mocker_at w g)))"

lemma block_expectations_snoc:
  "block_expectations n (xs @ [x]) g = block_expectations n xs g @ (if g = sequenced_mocker x then [n + length xs] else [])"
proof -
  have "filter (\<lambda>e. sequenced_mocker ((xs @ [x]) ! (e - n)) = g) [n..<n + length xs] =
      filter (\<lambda>e. sequenced_mocker (xs ! (e - n)) = g) [n..<n + length xs]"
    by (rule filter_cong) (auto simp: nth_append)
  then show ?thesis
    by (auto simp: block_expectations_def)
qed

lemma at_stage_snoc:
  assumes "at_stage ms [n..<n + k] 0 B" and "ex_matchers x = m" and "ex_extra_matcher x = any_matcher"
    and "ex_prerequisites x = (if k = 0 then [] else [n + k - 1])" and "ex_cardinality x = between_impl 1 1"
    and "\<not> ex_retires_on_saturation x" and "ex_call_count x = 0" and "\<not> ex_retired x"
  shows "at_stage (ms @ [m]) [n..<n + Suc k] 0 (B(n + k \<mapsto> x))"
proof -
  have len: "length ms = k"
    using assms(1) by (simp add: at_stage_def)
  have "\<exists>y. (B(n + k \<mapsto> x)) ([n..<n + Suc k] ! i) = Some y \<and> ex_matchers y = (ms @ [m]) ! i \<and>
      ex_extra_matcher y = any_matcher \<and>
      ex_prerequisites y = (if i = 0 then [] else [[n..<n + Suc k] ! (i - 1)]) \<and>
      ex_cardinality y = between_impl 1 1 \<and> \<not> ex_retires_on_saturation y \<and>
      ex_call_count y = (if i < 0 then 1 else 0) \<and> (ex_retired y \<longleftrightarrow> i + 1 < 0)"
    if i: "i < Suc k" for i
  proof (cases "i = k")
    case True
    then show ?thesis
      using assms(2-) len by (auto simp: nth_append simp del: upt_Suc)
  next
    case False
    then have i': "i < length [n..<n + k]" "i < k"
      using i by simp_all
    obtain y where "B ([n..<n + k] ! i) = Some y" "ex_matchers y = ms ! i" "ex_extra_matcher y = any_matcher"
        "ex_prerequisites y = (if i = 0 then [] else [[n..<n + k] ! (i - 1)])" "ex_cardinality y = between_impl 1 1"
        "\<not> ex_retires_on_saturation y" "ex_call_count y = 0" "\<not> ex_retired y"
      using at_stageD [OF assms(1) i'(1)] by auto
    then show ?thesis
      using i' len by (auto simp: nth_append simp del: upt_Suc)
  qed
  moreover have "distinct [n..<n + Suc k]" and "length (ms @ [m]) = length [n..<n + Suc k]"
    using len by (simp_all del: upt_Suc)
  ultimately show ?thesis
    unfolding at_stage_def by simp
qed

lemma sound_book_update:
  "sound_book B \<Longrightarrow> 0 \<le> ex_call_count x \<Longrightarrow> ex_actions x = [] \<Longrightarrow> ex_repeated_action x = do_default \<Longrightarrow>
   sound_book (B(e \<mapsto> x))"
  by (auto simp: sound_book_def do_default_def)

lemma in_block_empty:
  assumes "test_ok w" and "sound_book (book w)" and "gw_implicit_sequence w = None"
  shows "in_block w obj [] (fst (in_sequence_begin w))"
proof -
  define v where "v = fst (in_sequence_begin w)"
  have v: "v = w\<lparr>gw_sequences := gw_sequences w @ [None], gw_implicit_sequence := Some (length (gw_sequences w))\<rparr>"
    using assms(3) by (simp add: v_def in_sequence_begin_def new_sequence_def)
  have "test_ok v"
    unfolding v_def using assms(1) by (rule test_ok_in_sequence_begin)
  then show ?thesis
    unfolding v_def [symmetric] using assms(2)
    by (simp add: in_block_def v at_stage_def block_expectations_def mocker_alive_def mocker_at_def)
qed

lemma in_block_expect:
  fixes w w' :: "('v, 'm) gmock_world"
  assumes block: "in_block w obj xs w'" and f: "mocker_of (obj (sequenced_mocker x)) (sequenced_mocker x) w"
  obtains w'' where "do_step pr (expect_of obj x) w' = Some w''" and "in_block w obj (xs @ [x]) w''"
proof -
  obtain f fl ln o_text c_text m where x: "x = (f, fl, ln, o_text, c_text, m)"
    by (cases x)
  define n where "n = length (gw_expectations w)"
  define s where "s = length (gw_sequences w)"
  obtain w'' e where e: "expect_call (obj f) f fl ln o_text c_text m [] w' = (w'', e)"
    by (rule prod.exhaust)
  note old = block [unfolded in_block_def, folded n_def s_def]
  have alive: "mocker_alive w' f" and owner: "mocker_of (obj f) f w'"
    using f old by (auto simp: x sequenced_mocker_def mocker_of_def)
  have s: "gw_implicit_sequence w' = Some s" "s < length (gw_sequences w')"
      "gw_sequences w' ! s = (if xs = [] then None else Some (n + length xs - 1))"
    using old by (simp_all add: s_def nth_append)
  have "gw_sequences w' ! s \<noteq> Some (length (gw_expectations w'))"
    using old s(3) by (cases xs) auto
  note new = newest_expectation [OF alive s(1,2) this e]
  have step: "do_step pr (expect_of obj x) w' = Some w''"
    by (simp add: expect_of_def x e)
  then have ok: "test_ok w''"
    using test_ok_step [of w' "expect_of obj x" pr] old owner by (simp add: expect_of_def x)
  have e': "e = n + length xs"
    using new(1) old by simp
  obtain y where y: "book w'' = (book w')(n + length xs \<mapsto> y)" "ex_matchers y = m" "ex_extra_matcher y = any_matcher"
      "ex_prerequisites y = (if length xs = 0 then [] else [n + length xs - 1])"
      "ex_cardinality y = between_impl 1 1" "\<not> ex_retires_on_saturation y" "ex_call_count y = 0"
      "\<not> ex_retired y" "ex_actions y = []" "ex_repeated_action y = do_default"
    using new(2) s(3) by (auto simp: e')
  have "at_stage (map sequenced_matchers (xs @ [x])) [n..<n + length (xs @ [x])] 0 (book w'')"
    using at_stage_snoc [of "map sequenced_matchers xs" n "length xs" "book w'" y m] old y
    by (simp add: x sequenced_matchers_def del: upt_Suc)
  moreover have "sound_book (book w'')"
    using old y by (simp add: sound_book_update)
  moreover have "gw_sequences w'' = gw_sequences w @ [Some (n + length (xs @ [x]) - 1)]"
    using new(3) old by (simp add: s_def e' list_update_append)
  moreover have "mocker_alive w'' g = mocker_alive w g \<and>
      fm_expectations (mocker_at w'' g) = fm_expectations (mocker_at w g) @ block_expectations n (xs @ [x]) g \<and>
      fm_on_call_specs (mocker_at w'' g) = fm_on_call_specs (mocker_at w g) \<and>
      fm_result (mocker_at w'' g) = fm_result (mocker_at w g) \<and>
      fm_mock_obj (mocker_at w'' g) =
        (if g \<in> sequenced_mocker ` set (xs @ [x]) then Some (obj g) else fm_mock_obj (mocker_at w g))" for g
    using old new(9-13) [of g] by (simp add: block_expectations_snoc e' x sequenced_mocker_def)
  ultimately have "in_block w obj (xs @ [x]) w''"
    using ok old new(4-7) unfolding in_block_def n_def [symmetric] s_def [symmetric] by simp
  with step show thesis
    by (rule that)
qed

lemma in_block_expects:
  assumes "test_ok w" and "sound_book (book w)" and "gw_implicit_sequence w = None"
    and "\<And>x. x \<in> set xs \<Longrightarrow> mocker_of (obj (sequenced_mocker x)) (sequenced_mocker x) w"
  shows "\<exists>w'. run_steps (run_statement pr) (Some w) (Begin_in_sequence # map (expect_of obj) xs) = Some w' \<and>
    in_block w obj xs w'"
  using assms(4)
proof (induction xs rule: rev_induct)
  case Nil
  show ?case
    using in_block_empty [OF assms(1-3)] by (simp add: run_statement_Some)
next
  case (snoc x xs)
  obtain w' where w': "run_steps (run_statement pr) (Some w) (Begin_in_sequence # map (expect_of obj) xs) = Some w'"
      "in_block w obj xs w'"
    using snoc by auto
  obtain w'' where "do_step pr (expect_of obj x) w' = Some w''" and "in_block w obj (xs @ [x]) w''"
    using in_block_expect [OF w'(2), of x pr] snoc.prems by auto
  moreover have "run_steps (run_statement pr) (Some w) (Begin_in_sequence # map (expect_of obj) (xs @ [x])) =
      run_statement pr (run_steps (run_statement pr) (Some w) (Begin_in_sequence # map (expect_of obj) xs)) (expect_of obj x)"
    using run_steps_append [of "run_statement pr" "Some w" "Begin_in_sequence # map (expect_of obj) xs" "[expect_of obj x]"]
    by simp
  ultimately show ?case
    unfolding w'(1) run_statement_Some by metis
qed

text \<open>The end of the block keeps all its expectations, because their mockers own them.\<close>

definition after_block ::
  "('v, 'm) gmock_world \<Rightarrow> (nat \<Rightarrow> nat) \<Rightarrow> 'v sequenced_call list \<Rightarrow> ('v, 'm) gmock_world \<Rightarrow> bool" where
  "after_block w obj xs w' \<longleftrightarrow>
     test_ok w' \<and> sound_book (book w') \<and>
     at_stage (map sequenced_matchers xs) [length (gw_expectations w)..<length (gw_expectations w) + length xs] 0 (book w') \<and>
     gw_failures w' = gw_failures w \<and>
     (\<forall>x \<in> set xs. let g = sequenced_mocker x in
       mocker_of (obj g) g w' \<and> sound_mocker w' g = sound_mocker w g \<and>
       fm_expectations (mocker_at w' g) = fm_expectations (mocker_at w g) @
         block_expectations (length (gw_expectations w)) xs g)"

lemma block_owned:
  assumes "in_block w obj xs w'" and "xs \<noteq> []" and "\<And>x. x \<in> set xs \<Longrightarrow> mocker_alive w (sequenced_mocker x)"
    and "gw_mockers v = gw_mockers w'"
  shows "owned (length (gw_expectations w) + length xs - 1) v"
proof -
  obtain ys y where xs: "xs = ys @ [y]"
    using assms(2) by (metis append_butlast_last_id)
  define g where "g = sequenced_mocker y"
  have "mocker_alive w' g" and g: "length (gw_expectations w) + length xs - 1 \<in> set (fm_expectations (mocker_at w' g))"
    using assms(1) assms(3) [of y] by (simp_all add: in_block_def g_def xs block_expectations_snoc)
  then obtain m where m: "gw_mockers w' ! g = Some m" "g < length (gw_mockers w')"
    by (auto simp: mocker_alive_def)
  from this have "Some m \<in> set (gw_mockers v)"
    using nth_mem [of g "gw_mockers w'"] by (simp add: assms(4))
  with g m show ?thesis
    by (auto simp: owned_def list_ex_iff mocker_at_def intro!: bexI [of _ "Some m"])
qed

lemma in_block_end:
  assumes block: "in_block w obj xs w'" and mockers: "\<And>x. x \<in> set xs \<Longrightarrow> mocker_alive w (sequenced_mocker x)"
  shows "after_block w obj xs (in_sequence_end True w')"
proof -
  define s where "s = length (gw_sequences w)"
  define v where "v = w'\<lparr>gw_sequences := (gw_sequences w')[s := None], gw_implicit_sequence := None\<rparr>"
  have "gw_implicit_sequence w' = Some s"
      "gw_sequences w' ! s = (if xs = [] then None else Some (length (gw_expectations w) + length xs - 1))"
    using block by (auto simp: in_block_def s_def)
  moreover have "xs \<noteq> [] \<Longrightarrow> owned (length (gw_expectations w) + length xs - 1) v"
    using block_owned [OF block _ mockers, of v] by (simp add: v_def)
  ultimately have "in_sequence_end True w' = v"
    by (cases "xs = []") (simp_all add: in_sequence_end_def v_def)
  moreover have "test_ok (in_sequence_end True w')"
    using block by (intro test_ok_in_sequence_end) (simp add: in_block_def)
  moreover have "book v = book w'" "gw_failures v = gw_failures w'"
      "mocker_at v g = mocker_at w' g" "mocker_alive v g = mocker_alive w' g" "gw_defaults v = gw_defaults w'" for g
    by (simp_all add: v_def mocker_at_def mocker_alive_def)
  ultimately show ?thesis
    using block mockers
    by (auto simp: after_block_def in_block_def Let_def mocker_of_def sound_mocker_def default_result_def
        split: option.splits)
qed

subsection \<open>The calls and the verification\<close>

lemma book_run_cong:
  "(\<And>f. f \<in> fst ` set calls \<Longrightarrow> ms f = ms' f) \<Longrightarrow> book_run ms calls B = book_run ms' calls B"
  by (induction calls arbitrary: B) (auto simp: Let_def split: prod.splits)

text \<open>The test: the block in \<open>InSequence\<close>, then the calls.\<close>

definition sequence_test ::
  "(nat \<Rightarrow> nat) \<Rightarrow> (nat \<Rightarrow> string) \<Rightarrow> 'v sequenced_call list \<Rightarrow> (nat \<times> 'v list) list \<Rightarrow> ('v, 'm) test_step list" where
  "sequence_test obj name xs calls =
     Begin_in_sequence # map (expect_of obj) xs @ End_in_sequence # map (call_of obj name) calls"

definition expected_call :: "nat \<times> 'v list \<Rightarrow> 'v sequenced_call \<Rightarrow> bool" where
  "expected_call c x \<longleftrightarrow> fst c = sequenced_mocker x \<and> tuple_matches (sequenced_matchers x) (snd c)"

definition all_verified :: "('v, 'm) gmock_world \<Rightarrow> nat set \<Rightarrow> bool" where
  "all_verified w fs \<longleftrightarrow> (\<forall>f \<in> fs. snd (verify_and_clear_expectations_locked f w))"

lemma verified_iff:
  "snd (verify_and_clear_expectations_locked f w) \<longleftrightarrow>
     (\<forall>e \<in> set (fm_expectations (mocker_at w f)). \<not> is_over_saturated (exp_at w e) \<and> is_satisfied (exp_at w e))"
  by (simp add: verify_and_clear_expectations_locked_def Let_def case_prod_beta verify_each_verdict)

lemma at_stage_verified:
  assumes "at_stage ms es k (book w)" and "i < length es"
  shows "\<not> is_over_saturated (exp_at w (es ! i)) \<and> is_satisfied (exp_at w (es ! i)) \<longleftrightarrow> i < k"
proof -
  obtain x where x: "book w (es ! i) = Some x" "ex_cardinality x = between_impl 1 1" "ex_call_count x = (if i < k then 1 else 0)"
    using at_stageD [OF assms] by metis
  then have "alive w (es ! i)"
    by (simp add: alive_iff)
  from book_fields [OF this x(1)] x show ?thesis
    by (auto simp: is_over_saturated_def is_satisfied_def)
qed

theorem sequence_accepts:
  assumes ok: "test_ok w" "sound_book (book w)" "gw_implicit_sequence w = None"
    and mockers: "\<And>x. x \<in> set xs \<Longrightarrow> mocker_of (obj (sequenced_mocker x)) (sequenced_mocker x) w \<and>
      sound_mocker w (sequenced_mocker x) \<and> fm_expectations (mocker_at w (sequenced_mocker x)) = []"
    and calls: "fst ` set calls \<subseteq> sequenced_mocker ` set xs"
  obtains w' where "run_steps (run_statement pr) (Some w) (sequence_test obj name xs calls) = Some w'" and "test_ok w'"
    and "gw_failures w' = gw_failures w \<and> all_verified w' (sequenced_mocker ` set xs) \<longleftrightarrow> list_all2 expected_call calls xs"
proof -
  define n where "n = length (gw_expectations w)"
  define es where "es = [n..<n + length xs]"
  define owner where "owner e = sequenced_mocker (xs ! (e - n))" for e
  obtain u where u: "run_steps (run_statement pr) (Some w) (Begin_in_sequence # map (expect_of obj) xs) = Some u"
      "in_block w obj xs u"
    using in_block_expects [of w xs obj pr] ok mockers by blast
  define v where "v = in_sequence_end True u"
  have v: "after_block w obj xs v"
    unfolding v_def using u(2) mockers by (intro in_block_end) (simp_all add: mocker_of_def)
  then have stage: "at_stage (map sequenced_matchers xs) es 0 (book v)" and vok: "test_ok v" "sound_book (book v)"
      "gw_failures v = gw_failures w"
    by (simp_all add: after_block_def es_def n_def)
  have exps: "fm_expectations (mocker_at v g) = filter (\<lambda>e. owner e = g) es" if "g \<in> sequenced_mocker ` set xs" for g
    using v mockers that by (auto simp: after_block_def Let_def block_expectations_def owner_def es_def n_def)
  have "interesting obj v f" if f: "f \<in> fst ` set calls" for f
  proof -
    obtain x where x: "x \<in> set xs" "f = sequenced_mocker x"
      using calls f by blast
    then obtain i where i: "i < length xs" "x = xs ! i"
      by (metis in_set_conv_nth)
    have "n + i \<in> set (fm_expectations (mocker_at v f))"
      using x i by (subst exps) (auto simp: es_def owner_def)
    moreover have "mocker_of (obj f) f v" and "sound_mocker v f"
      using v mockers [OF x(1)] x by (simp_all add: after_block_def Let_def)
    ultimately show ?thesis
      unfolding interesting_def by auto
  qed
  then obtain w' vs fs where w': "run_steps (run_statement pr) (Some v) (map (call_of obj name) calls) = Some w'" "test_ok w'"
      "book_run (\<lambda>f. fm_expectations (mocker_at v f)) calls (book v) = (book w', vs)" "keeps_mockers v w'"
      "gw_failures w' = gw_failures v @ fs" "length fs = length (filter (\<lambda>v. \<not> handled v) vs)"
    by (rule calls_spec [OF vok(1,2), of calls obj]) blast+
  have run: "book_run (\<lambda>f. filter (\<lambda>e. owner e = f) es) calls (book v) = (book w', vs)"
  proof (subst book_run_cong [of calls _ "\<lambda>f. fm_expectations (mocker_at v f)"])
    show "filter (\<lambda>e. owner e = f) es = fm_expectations (mocker_at v f)" if f: "f \<in> fst ` set calls" for f
      by (rule exps [OF subsetD [OF calls f], symmetric])
  qed (rule w'(3))
  have no_failure: "gw_failures w' = gw_failures w \<longleftrightarrow> list_all handled vs"
    using w'(5,6) vok(3) by (auto simp: list_all_iff filter_empty_conv)
  have owner: "owner (es ! i) = sequenced_mocker (xs ! i)" if "i < length xs" for i
    using that by (simp add: owner_def es_def)
  note accepted = at_stage_run [OF stage run]
  have "all_verified w' (sequenced_mocker ` set xs) \<longleftrightarrow> length calls = length xs" if h: "list_all handled vs"
  proof -
    have "all_verified w' (sequenced_mocker ` set xs) \<longleftrightarrow> (\<forall>i < length xs.
        \<not> is_over_saturated (exp_at w' (es ! i)) \<and> is_satisfied (exp_at w' (es ! i)))"
    proof -
      have "fm_expectations (mocker_at w' g) = filter (\<lambda>e. owner e = g) es" if "g \<in> sequenced_mocker ` set xs" for g
        using w'(4) exps [OF that] by (simp add: keeps_mockers_def)
      then have "all_verified w' (sequenced_mocker ` set xs) \<longleftrightarrow>
          (\<forall>e \<in> set es. \<not> is_over_saturated (exp_at w' e) \<and> is_satisfied (exp_at w' e))"
        unfolding all_verified_def verified_iff using owner by (fastforce simp: es_def owner_def)
      also have "\<dots> \<longleftrightarrow> (\<forall>i < length xs. \<not> is_over_saturated (exp_at w' (es ! i)) \<and> is_satisfied (exp_at w' (es ! i)))"
        unfolding all_set_conv_all_nth by (simp add: es_def del: nth_upt)
      finally show ?thesis .
    qed
    also have "\<dots> \<longleftrightarrow> (\<forall>i < length xs. i < length calls)"
      using at_stage_verified [OF accepted(2) [OF h]] by (auto simp: es_def)
    also have "\<dots> \<longleftrightarrow> length calls = length xs"
      using accepted(1) h by (auto simp: es_def) (metis le_antisym less_irrefl not_le)
    finally show ?thesis .
  qed
  then have "gw_failures w' = gw_failures w \<and> all_verified w' (sequenced_mocker ` set xs) \<longleftrightarrow> list_all2 expected_call calls xs"
    unfolding no_failure accepted(1) list_all2_conv_all_nth expected_call_def
    using owner by (auto simp: es_def)
  moreover have "run_steps (run_statement pr) (Some w) (sequence_test obj name xs calls) = Some w'"
    using u(1) w'(1) run_steps_append [of "run_statement pr" "Some w" "Begin_in_sequence # map (expect_of obj) xs"
        "End_in_sequence # map (call_of obj name) calls"]
    by (simp add: sequence_test_def v_def run_statement_Some)
  ultimately show thesis
    using that w'(2) by blast
qed

end
