(* ===== verification/Gmock_Properties.thy ===== *)
theory Gmock_Properties
  imports Gmock_In_Order
begin

text \<open>
  What holds of tests that use mocks, each with an instance at a small test: two mocked functions
  of one object, called with an integer.
\<close>

definition equals_matcher :: "int \<Rightarrow> int matcher" where
  "equals_matcher k = \<lparr>mt_match_and_explain = (\<lambda>x. (x = k, [])), mt_describe_to = ''is equal to'',
     mt_describe_negation_to = ''is not equal to''\<rparr>"

definition two_mockers :: "(int, int) gmock_world" where
  "two_mockers = fst (new_mocker None (fst (new_mocker None (fresh_world ''error'' 0))))"

definition show_int :: "int \<Rightarrow> string" where
  "show_int = string_of_int"

definition save_it :: "(int, int) mock_action" where
  "save_it = save_arg (\<lambda>v _. v) 0"

definition one_expectation :: "(int, int) gmock_world" where
  "one_expectation = fst (expect_call 9 0 ''t.cc'' 7 ''m'' ''Open(1)'' [equals_matcher 1]
     [Clause_times (between_calls 1 2), Clause_will_once save_it] two_mockers)"

lemma equals_matcher_matches [simp]: "matches (equals_matcher k) x \<longleftrightarrow> x = k"
  by (simp add: matches_def equals_matcher_def)

lemma two_mockers_ok: "test_ok two_mockers"
  unfolding two_mockers_def by (intro test_ok_new_mocker test_ok_fresh)

lemma two_mockers_fields:
  "book two_mockers = Map.empty" "gw_implicit_sequence two_mockers = None" "gw_failures two_mockers = []"
  "f < 2 \<Longrightarrow> mocker_alive two_mockers f"
  "f < 2 \<Longrightarrow> mocker_at two_mockers f =
     \<lparr>fm_mock_obj = None, fm_name = None, fm_on_call_specs = [], fm_expectations = [], fm_result = None\<rparr>"
  by (auto simp: two_mockers_def new_mocker_def fresh_world_def mocker_alive_def mocker_at_def book_def fun_eq_iff
      less_2_cases_iff)

lemma one_expectation_ok: "test_ok one_expectation"
  using test_ok_step [of two_mockers "Expect 9 0 ''t.cc'' 7 ''m'' ''Open(1)'' [equals_matcher 1]
     [Clause_times (between_calls 1 2), Clause_will_once save_it]" show_int] two_mockers_ok two_mockers_fields(4,5) [of 0]
  by (simp add: one_expectation_def mocker_of_def)

lemma one_expectation_fields:
  "mocker_alive one_expectation 0" "fm_mock_obj (mocker_at one_expectation 0) = Some 9"
  "fm_expectations (mocker_at one_expectation 0) = [0]" "fm_on_call_specs (mocker_at one_expectation 0) = []"
  "fm_result (mocker_at one_expectation 0) = None"
  "\<exists>x. book one_expectation = [0 \<mapsto> x] \<and> ex_call_count x = 0 \<and> ex_actions x = [save_it] \<and>
     ex_repeated_action x = do_default \<and> ex_cardinality x = between_impl 1 2 \<and> ex_matchers x = [equals_matcher 1] \<and>
     ex_extra_matcher x = any_matcher \<and> ex_prerequisites x = [] \<and> \<not> ex_retired x"
proof -
  define empty :: "(int, int) function_mocker" where "empty = \<lparr>fm_mock_obj = None, fm_name = None, fm_on_call_specs = [],
    fm_expectations = [], fm_result = None\<rparr>"
  define u :: "(int, int) gmock_world" where "u = register_owner 9 0 two_mockers"
  have u: "gw_mockers u = [Some (empty\<lparr>fm_mock_obj := Some 9\<rparr>), Some empty]" "gw_expectations u = []"
      "gw_implicit_sequence u = None" "gw_verbose u = ''error''"
    by (simp_all add: u_def empty_def two_mockers_def new_mocker_def fresh_world_def register_owner_def
        register_mocker_def change_registry_def change_mocker_def mocker_at_def)
  define st where "st = ''EXPECT_CALL('' @ ''m'' @ '', '' @ ''Open(1)'' @ '')''"
  define v where "v = fst (add_new_expectation 0 ''t.cc'' 7 st [equals_matcher 1] u)"
  have log: "log_with_location K_info ''t.cc'' 7 (st @ '' invoked'') u = u"
    by (simp add: log_with_location_def gmock_log_def log_is_visible_def u)
  have v: "add_new_expectation 0 ''t.cc'' 7 st [equals_matcher 1] u = (v, 0)"
      "gw_mockers v = [Some (empty\<lparr>fm_mock_obj := Some 9, fm_expectations := [0]\<rparr>), Some empty]"
      "gw_expectations v = [Some (new_expectation 0 ''t.cc'' 7 st [equals_matcher 1])]"
    by (simp_all add: v_def add_new_expectation_def u Let_def register_use_def change_registry_def change_mocker_def
        mocker_at_def empty_def)
  have one: "one_expectation = clause_will_once 0 save_it (untyped_times 0 (between_impl 1 2) v)"
    unfolding one_expectation_def expect_call_def Let_def st_def [symmetric] u_def [symmetric] log v(1)
    by (simp add: between_calls_def between_problem_def report_problem_def)
  have mockers: "gw_mockers one_expectation = gw_mockers v"
    by (simp add: one clause_will_once_def untyped_times_def expect_spec_property_def gmock_expect_def report_failure_def
        change_exp_def Let_def)
  show "mocker_alive one_expectation 0" "fm_mock_obj (mocker_at one_expectation 0) = Some 9"
    "fm_expectations (mocker_at one_expectation 0) = [0]" "fm_on_call_specs (mocker_at one_expectation 0) = []"
    "fm_result (mocker_at one_expectation 0) = None"
    by (simp_all add: mocker_alive_def mocker_at_def mockers v empty_def)
  have "gw_expectations one_expectation = [Some ((new_expectation 0 ''t.cc'' 7 st [equals_matcher 1])
      \<lparr>ex_last_clause := K_will_once, ex_cardinality_specified := True, ex_cardinality := between_impl 1 2,
        ex_actions := [save_it]\<rparr>)]"
    by (simp add: one clause_will_once_def untyped_times_def expect_spec_property_def gmock_expect_def report_failure_def
        change_exp_def exp_at_def v new_expectation_def Let_def less_clause_def less_eq_clause_def)
  then show "\<exists>x. book one_expectation = [0 \<mapsto> x] \<and> ex_call_count x = 0 \<and> ex_actions x = [save_it] \<and>
     ex_repeated_action x = do_default \<and> ex_cardinality x = between_impl 1 2 \<and> ex_matchers x = [equals_matcher 1] \<and>
     ex_extra_matcher x = any_matcher \<and> ex_prerequisites x = [] \<and> \<not> ex_retired x"
    by (intro exI [of _ "(the (gw_expectations one_expectation ! 0))\<lparr>ex_action_count_checked := True\<rparr>"])
      (auto simp: book_def fun_eq_iff new_expectation_def)
qed

lemma one_expectation_sound: "sound_book (book one_expectation)" "interesting (\<lambda>_. 9) one_expectation 0"
proof -
  obtain x where "book one_expectation = [0 \<mapsto> x]" "ex_call_count x = 0" "ex_actions x = [save_it]"
      "ex_repeated_action x = do_default"
    using one_expectation_fields(6) by blast
  then show "sound_book (book one_expectation)"
    by (simp add: sound_book_def save_it_def do_default_def)
  show "interesting (\<lambda>_. 9) one_expectation 0"
    using one_expectation_fields(1-5) by (simp add: interesting_def mocker_of_def sound_mocker_def default_result_def)
qed



text \<open>
  C23: A call of a mocked function with expectations keeps the book: the newest expectation that is
  active, matches the arguments and has all it needs satisfied takes the call; a saturated one
  only counts it, any other retires what it needs and performs the action that its earlier calls
  select. When that action returns, rather than throws or ends the program, the test has learned of
  a failure exactly when no expectation or a saturated one was found.
\<close>

theorem mock_call_keeps_the_book:
  assumes "test_ok w" and "mocker_of obj f w" and "fm_expectations (mocker_at w f) \<noteq> []"
  shows "\<exists>w' r v fs d u t. mock_method pr obj name f args w = Some (w', r) \<and>
    book_call (fm_expectations (mocker_at w f)) args (book w) = (book w', v) \<and>
    perform_found f (action_for v (book w)) args d u = (t, r) \<and>
    gw_memory u = gw_memory w \<and> gw_memory w' = gw_memory t \<and>
    gw_failures w' = gw_failures w @ fs \<and> (returned r \<longrightarrow> call_failures v fs)"
proof -
  define v where "v = set_owner_and_name obj name f w"
  have f: "mocker_alive w f"
    using assms(2) by (simp add: mocker_of_def)
  have same: "book v = book w" "gw_failures v = gw_failures w" "gw_memory v = gw_memory w"
      "fm_expectations (mocker_at v f) = fm_expectations (mocker_at w f)"
    using f by (simp_all add: v_def set_owner_and_name_def mocker_at_change) (simp add: change_mocker_def)
  have "world_ok v" and "mocker_alive v f"
    using assms(1) f by (simp_all add: v_def set_owner_and_name_def test_ok_def world_ok_mocker_plain)
  then have ok: "book_ok (book v)" "retired_closed (book v)" "mocker_ok v f" "fm_expectations (mocker_at v f) \<noteq> []"
    using assms(3) same(4) by (simp_all add: world_ok_def)
  show ?thesis
    using invoke_refines [OF ok, of pr args] unfolding same mock_method_def v_def [symmetric] by metis
qed

theorem mock_call_keeps_the_book_witness:
  "\<exists>w' r v fs d u t. mock_method show_int 9 ''Open'' 0 [1] one_expectation = Some (w', r) \<and>
    book_call (fm_expectations (mocker_at one_expectation 0)) [1] (book one_expectation) = (book w', v) \<and>
    perform_found 0 (action_for v (book one_expectation)) [1] d u = (t, r) \<and>
    gw_memory u = gw_memory one_expectation \<and> gw_memory w' = gw_memory t \<and>
    gw_failures w' = gw_failures one_expectation @ fs \<and> (returned r \<longrightarrow> call_failures v fs)"
  using one_expectation_fields(1-3) by (intro mock_call_keeps_the_book one_expectation_ok) (simp_all add: mocker_of_def)

text \<open>
  C25: In a run of calls of mocked functions with expectations, of which every action returns, one
  nonfatal failure is reported for each call that no expectation handles, and afterwards the
  verification of a mocked function succeeds exactly when each of its expectations took as many
  calls as its cardinality says.
\<close>

theorem verification_counts_calls:
  assumes "test_ok w" and "sound_book (book w)" and "\<And>f. f \<in> fst ` set calls \<Longrightarrow> interesting obj w f"
    and "mocker_alive w g"
  shows "\<exists>w' vs fs. run_steps (run_statement pr) (Some w) (map (call_of obj name) calls) = Some w' \<and>
    book_run (\<lambda>f. fm_expectations (mocker_at w f)) calls (book w) = (book w', vs) \<and>
    gw_failures w' = gw_failures w @ fs \<and> list_all part_nonfatally_failed fs \<and>
    length fs = length (filter (\<lambda>v. \<not> handled v) vs) \<and>
    (snd (verify_and_clear_expectations_locked g w') \<longleftrightarrow>
       (\<forall>e \<in> set (fm_expectations (mocker_at w g)). let x = the (book w e) in
          cd_satisfied (ex_cardinality x) (ex_call_count x + int (length (filter (taken_by e) vs)))))"
proof -
  obtain w' vs fs where w': "run_steps (run_statement pr) (Some w) (map (call_of obj name) calls) = Some w'"
      "test_ok w'" "book_run (\<lambda>f. fm_expectations (mocker_at w f)) calls (book w) = (book w', vs)"
      "keeps_mockers w w'" "gw_failures w' = gw_failures w @ fs"
      "length fs = length (filter (\<lambda>v. \<not> handled v) vs)" "list_all part_nonfatally_failed fs"
    using calls_spec [OF assms(1-3)] by blast
  have "is_over_saturated (exp_at w' e) \<or> \<not> is_satisfied (exp_at w' e) \<longleftrightarrow>
      \<not> cd_satisfied (ex_cardinality (the (book w e)))
        (ex_call_count (the (book w e)) + int (length (filter (taken_by e) vs)))"
    if "e \<in> set (fm_expectations (mocker_at w g))" for e
  proof -
    have "alive w e"
      using mocker_expectations_alive [of w g] assms(1,4) that by (auto simp: test_ok_def)
    then obtain x where x: "book w e = Some x"
      by (auto simp: alive_iff)
    obtain r where r: "book w' e = Some (x\<lparr>ex_call_count := ex_call_count x + int (length (filter (taken_by e) vs)),
        ex_retired := r\<rparr>)"
      using book_run_state [OF w'(3) x] by blast
    then have "alive w' e"
      by (simp add: alive_iff)
    from book_fields [OF this r] x show ?thesis
      by (auto simp: is_over_saturated_def is_satisfied_def over_saturated_by_def)
  qed
  then have "snd (verify_and_clear_expectations_locked g w') \<longleftrightarrow>
      (\<forall>e \<in> set (fm_expectations (mocker_at w g)). let x = the (book w e) in
        cd_satisfied (ex_cardinality x) (ex_call_count x + int (length (filter (taken_by e) vs))))"
    using w'(4) unfolding verified_iff keeps_mockers_def Let_def by auto
  with w' show ?thesis
    by blast
qed

theorem verification_counts_calls_witness:
  "\<exists>w' vs fs. run_steps (run_statement show_int) (Some one_expectation)
      (map (call_of (\<lambda>_. 9) (\<lambda>_. ''Open'')) [(0, [1]), (0, [2]), (0, [1])]) = Some w' \<and>
    book_run (\<lambda>f. fm_expectations (mocker_at one_expectation f)) [(0, [1]), (0, [2]), (0, [1])] (book one_expectation) =
      (book w', vs) \<and>
    gw_failures w' = gw_failures one_expectation @ fs \<and> list_all part_nonfatally_failed fs \<and>
    length fs = length (filter (\<lambda>v. \<not> handled v) vs) \<and>
    (snd (verify_and_clear_expectations_locked 0 w') \<longleftrightarrow>
       (\<forall>e \<in> set (fm_expectations (mocker_at one_expectation 0)). let x = the (book one_expectation e) in
          cd_satisfied (ex_cardinality x) (ex_call_count x + int (length (filter (taken_by e) vs)))))"
  using one_expectation_fields(1) one_expectation_sound(2)
  by (intro verification_counts_calls one_expectation_ok one_expectation_sound(1)) auto

text \<open>
  C26: In such a run an expectation takes a call only when all it needs is satisfied, and once it
  has handled one, nothing it needs takes a call any more.
\<close>

theorem calls_respect_prerequisites:
  assumes "test_ok w" and "sound_book (book w)" and "\<And>f. f \<in> fst ` set calls \<Longrightarrow> interesting obj w f"
    and "(e, p) \<in> (needs (book w))\<^sup>+"
  shows "\<exists>w' vs. run_steps (run_statement pr) (Some w) (map (call_of obj name) calls) = Some w' \<and>
    book_run (\<lambda>f. fm_expectations (mocker_at w f)) calls (book w) = (book w', vs) \<and>
    (\<forall>i < length vs. taken_by e (vs ! i) \<longrightarrow>
      satisfied_in (fst (book_run (\<lambda>f. fm_expectations (mocker_at w f)) (take i calls) (book w))) p) \<and>
    (\<forall>i j. i < j \<and> j < length vs \<and> vs ! i = Handled e \<longrightarrow> \<not> taken_by p (vs ! j))"
proof -
  obtain w' vs where w': "run_steps (run_statement pr) (Some w) (map (call_of obj name) calls) = Some w'"
      "book_run (\<lambda>f. fm_expectations (mocker_at w f)) calls (book w) = (book w', vs)"
    using calls_spec [OF assms(1-3)] by metis
  have ok: "book_ok (book w)" "retired_closed (book w)"
    using assms(1) by (simp_all add: test_ok_def world_ok_def)
  show ?thesis
    using w' book_run_satisfied [OF ok assms(4) w'(2)] book_run_order [OF ok assms(4) w'(2)]
    by (intro exI conjI) auto
qed

definition open_then_close :: "int sequenced_call list" where
  "open_then_close = [(0, ''t.cc'', 7, ''m'', ''Open(1)'', [equals_matcher 1]),
     (1, ''t.cc'', 8, ''m'', ''Close(2)'', [equals_matcher 2])]"

lemma open_then_close_mockers:
  "x \<in> set open_then_close \<Longrightarrow> mocker_of 9 (sequenced_mocker x) two_mockers \<and>
     sound_mocker two_mockers (sequenced_mocker x) \<and> fm_expectations (mocker_at two_mockers (sequenced_mocker x)) = []"
  by (auto simp: open_then_close_def sequenced_mocker_def mocker_of_def two_mockers_fields sound_mocker_def
      default_result_def)

lemma two_mockers_sound: "sound_book (book two_mockers)"
  by (simp add: two_mockers_fields sound_book_def)

theorem calls_respect_prerequisites_witness:
  "\<exists>w :: (int, int) gmock_world. (1, 0) \<in> (needs (book w))\<^sup>+ \<and>
    (\<exists>w' vs. run_steps (run_statement show_int) (Some w) (map (call_of (\<lambda>_. 9) (\<lambda>_. ''m'')) [(0, [1]), (1, [2])]) = Some w' \<and>
    book_run (\<lambda>f. fm_expectations (mocker_at w f)) [(0, [1]), (1, [2])] (book w) = (book w', vs) \<and>
    (\<forall>i < length vs. taken_by 1 (vs ! i) \<longrightarrow>
      satisfied_in (fst (book_run (\<lambda>f. fm_expectations (mocker_at w f)) (take i [(0, [1]), (1, [2])]) (book w))) 0) \<and>
    (\<forall>i j. i < j \<and> j < length vs \<and> vs ! i = Handled 1 \<longrightarrow> \<not> taken_by 0 (vs ! j)))"
proof -
  have n: "length (gw_expectations two_mockers) = 0"
    by (simp add: two_mockers_def new_mocker_def fresh_world_def)
  obtain w where w: "in_block two_mockers (\<lambda>_. 9) open_then_close w"
    using in_block_expects [OF two_mockers_ok two_mockers_sound two_mockers_fields(2), of open_then_close "\<lambda>_. 9" show_int]
      open_then_close_mockers by blast
  have stage: "at_stage (map sequenced_matchers open_then_close) [0, 1] 0 (book w)" and ok: "test_ok w" "sound_book (book w)"
    using w by (simp_all add: in_block_def n open_then_close_def upt_rec [of _ 2] numeral_2_eq_2 upt_rec)
  have needs: "(1, 0) \<in> (needs (book w))\<^sup>+"
    using at_stage_needs_one [OF stage, of 1 0] by (auto intro: r_into_trancl)
  have "interesting (\<lambda>_. 9) w f" if "f \<in> fst ` set [(0 :: nat, [1 :: int]), (1, [2])]" for f
  proof -
    have f: "f < 2" "f \<in> sequenced_mocker ` set open_then_close"
      using that by (auto simp: open_then_close_def sequenced_mocker_def)
    then have "fm_expectations (mocker_at w f) \<noteq> []"
      using w by (auto simp: in_block_def two_mockers_fields n block_expectations_def open_then_close_def
          sequenced_mocker_def filter_empty_conv)
    with f w show ?thesis
      by (simp add: interesting_def mocker_of_def in_block_def two_mockers_fields sound_mocker_def default_result_def)
  qed
  from calls_respect_prerequisites [OF ok this needs] needs show ?thesis
    by blast
qed

text \<open>
  C24: When a test writes expectations in a block of \<open>InSequence\<close> and then calls the mocked functions,
  no failure is reported and the verification of all of them succeeds exactly when the calls are
  those of the block, in their order, with matching arguments, and no others.
\<close>

theorem sequence_accepts_exactly_its_calls:
  assumes "test_ok w" and "sound_book (book w)" and "gw_implicit_sequence w = None"
    and "\<And>x. x \<in> set xs \<Longrightarrow> mocker_of (obj (sequenced_mocker x)) (sequenced_mocker x) w \<and>
      sound_mocker w (sequenced_mocker x) \<and> fm_expectations (mocker_at w (sequenced_mocker x)) = []"
    and "fst ` set calls \<subseteq> sequenced_mocker ` set xs"
  shows "\<exists>w'. run_steps (run_statement pr) (Some w) (sequence_test obj name xs calls) = Some w' \<and>
    (gw_failures w' = gw_failures w \<and> all_verified w' (sequenced_mocker ` set xs) \<longleftrightarrow> list_all2 expected_call calls xs)"
  using sequence_accepts [OF assms, of pr name] by metis

theorem sequence_accepts_exactly_its_calls_witness:
  "(\<exists>w'. run_steps (run_statement show_int) (Some two_mockers)
      (sequence_test (\<lambda>_. 9) (\<lambda>_. ''m'') open_then_close [(0, [1]), (1, [2])]) = Some w' \<and>
     gw_failures w' = [] \<and> all_verified w' (sequenced_mocker ` set open_then_close)) \<and>
   (\<exists>w'. run_steps (run_statement show_int) (Some two_mockers)
      (sequence_test (\<lambda>_. 9) (\<lambda>_. ''m'') open_then_close [(1, [2]), (0, [1])]) = Some w' \<and>
     \<not> (gw_failures w' = [] \<and> all_verified w' (sequenced_mocker ` set open_then_close)))"
proof -
  have "\<exists>w'. run_steps (run_statement show_int) (Some two_mockers)
        (sequence_test (\<lambda>_. 9) (\<lambda>_. ''m'') open_then_close calls) = Some w' \<and>
      (gw_failures w' = gw_failures two_mockers \<and> all_verified w' (sequenced_mocker ` set open_then_close) \<longleftrightarrow>
        list_all2 expected_call calls open_then_close)"
    if "fst ` set calls \<subseteq> {0, 1}" for calls
    using that open_then_close_mockers
    by (intro sequence_accepts_exactly_its_calls two_mockers_ok two_mockers_sound two_mockers_fields(2))
      (auto simp: open_then_close_def sequenced_mocker_def)
  from this [of "[(0, [1]), (1, [2])]"] this [of "[(1, [2]), (0, [1])]"]
  have accepted: "\<exists>w'. run_steps (run_statement show_int) (Some two_mockers)
        (sequence_test (\<lambda>_. 9) (\<lambda>_. ''m'') open_then_close calls) = Some w' \<and>
      (gw_failures w' = gw_failures two_mockers \<and> all_verified w' (sequenced_mocker ` set open_then_close) \<longleftrightarrow>
        list_all2 expected_call calls open_then_close)"
    if "calls = [(0, [1]), (1, [2])] \<or> calls = [(1, [2]), (0, [1])]" for calls
    using that by auto
  have "list_all2 expected_call [(0, [1]), (1, [2])] open_then_close"
      "\<not> list_all2 expected_call [(1, [2]), (0, [1])] open_then_close"
    by (simp_all add: open_then_close_def expected_call_def sequenced_mocker_def sequenced_matchers_def tuple_matches_iff)
  with accepted [OF disjI1 [OF refl]] accepted [OF disjI2 [OF refl]] show ?thesis
    unfolding two_mockers_fields(3) by blast
qed

end
