(* ===== verification/Gtest_Filepath.thy ===== *)
theory Gtest_Filepath
  imports Gtest_Flags Gtest_Filter Gtest_Text
begin

text \<open>
  Path names (\<open>gtest/src/gtest-filepath.cc\<close>) and the output flag of \<open>gtest/src/gtest.cc\<close>, as they
  are compiled for POSIX. A \<open>FilePath\<close> is the string that it holds; every one is made by
  \<open>file_path\<close>, which normalises. The file system is a parameter: a record of what \<open>stat\<close> answers
  (\<open>None\<close> when it fails, else whether it is a directory) and of what \<open>mkdir\<close> does, over a state
  \<open>'s\<close>. The theory proves what normalisation keeps and removes, that a directory name and a file
  name recombine to the path, that the search for an unused name ends with the first one, and
  when the creation of directories ends and succeeds.
\<close>

subsection \<open>Normalisation\<close>

definition is_path_separator :: "char \<Rightarrow> bool" where
  "is_path_separator c \<longleftrightarrow> c = CHR ''/''"

function normalize_loop :: "string \<Rightarrow> string" where
  "normalize_loop [] = []"
| "normalize_loop (c # src) =
     (if \<not> is_path_separator c then c # normalize_loop src
      else c # normalize_loop (dropWhile is_path_separator src))"
  by pat_completeness auto
termination
  by (relation "measure length") (auto simp: length_dropWhile_le less_Suc_eq_le)

definition normalize :: "string \<Rightarrow> string" where
  "normalize pathname = normalize_loop (c_str pathname)"

definition file_path :: "string \<Rightarrow> string" where
  "file_path pathname = normalize pathname"

subsection \<open>Parts of a path\<close>

text \<open>The position that \<open>strrchr\<close> finds.\<close>

fun strrchr :: "string \<Rightarrow> char \<Rightarrow> nat option" where
  "strrchr [] c = None"
| "strrchr (x # xs) c =
     (case strrchr xs c of Some i \<Rightarrow> Some (Suc i) | None \<Rightarrow> if x = c then Some 0 else None)"

definition get_current_dir :: "string option \<Rightarrow> string" where
  "get_current_dir getcwd = file_path (case getcwd of None \<Rightarrow> [] | Some cwd \<Rightarrow> cwd)"

definition is_directory :: "string \<Rightarrow> bool" where
  "is_directory p \<longleftrightarrow> p \<noteq> [] \<and> is_path_separator (last p)"

definition is_root_directory :: "string \<Rightarrow> bool" where
  "is_root_directory p \<longleftrightarrow> length p = 1 \<and> is_path_separator (hd p)"

definition is_absolute_path :: "string \<Rightarrow> bool" where
  "is_absolute_path p = (case p of [] \<Rightarrow> False | c # _ \<Rightarrow> is_path_separator c)"

definition remove_extension :: "string \<Rightarrow> string \<Rightarrow> string" where
  "remove_extension extension p =
     (let dot_extension = ''.'' @ extension
      in if ends_with_case_insensitive p dot_extension
         then file_path (take (length p - length dot_extension) p) else p)"

definition find_last_path_separator :: "string \<Rightarrow> nat option" where
  "find_last_path_separator p = strrchr p CHR ''/''"

definition remove_directory_name :: "string \<Rightarrow> string" where
  "remove_directory_name p =
     (case find_last_path_separator p of Some last_sep \<Rightarrow> file_path (drop (last_sep + 1) p) | None \<Rightarrow> p)"

definition remove_file_name :: "string \<Rightarrow> string" where
  "remove_file_name p =
     file_path (case find_last_path_separator p of Some last_sep \<Rightarrow> take (last_sep + 1) p | None \<Rightarrow> ''./'')"

definition remove_trailing_path_separator :: "string \<Rightarrow> string" where
  "remove_trailing_path_separator p =
     (if is_directory p then file_path (take (length p - 1) p) else p)"

definition concat_paths :: "string \<Rightarrow> string \<Rightarrow> string" where
  "concat_paths directory relative_path =
     (if directory = [] then relative_path
      else let dir = remove_trailing_path_separator directory
        in file_path (dir @ ''/'' @ relative_path))"

definition make_file_name :: "string \<Rightarrow> string \<Rightarrow> int \<Rightarrow> string \<Rightarrow> string" where
  "make_file_name directory base_name number extension =
     concat_paths directory (file_path
       (if number = 0 then base_name @ ''.'' @ extension
        else base_name @ ''_'' @ string_of_int number @ ''.'' @ extension))"

subsection \<open>The file system\<close>

record 's file_system =
  fs_stat :: "'s \<Rightarrow> string \<Rightarrow> bool option"
  fs_mkdir :: "string \<Rightarrow> 's \<Rightarrow> 's \<times> bool"
  fs_open :: "string \<Rightarrow> 's \<Rightarrow> 's \<times> bool"

definition file_or_directory_exists :: "'s file_system \<Rightarrow> 's \<Rightarrow> string \<Rightarrow> bool" where
  "file_or_directory_exists fs s p \<longleftrightarrow> fs_stat fs s p \<noteq> None"

definition directory_exists :: "'s file_system \<Rightarrow> 's \<Rightarrow> string \<Rightarrow> bool" where
  "directory_exists fs s p \<longleftrightarrow> fs_stat fs s p = Some True"

text \<open>
  The loop of \<open>GenerateUniqueFileName\<close>, from a number on. \<open>None\<close> stands for the overflow of the
  \<open>int\<close> that counts, which has no defined behaviour.
\<close>

definition int_max :: int where "int_max = 2 ^ 31 - 1"

function generate_from ::
  "'s file_system \<Rightarrow> 's \<Rightarrow> string \<Rightarrow> string \<Rightarrow> string \<Rightarrow> int \<Rightarrow> string option" where
  "generate_from fs s directory base_name extension number =
     (if int_max \<le> number then None
      else let full_pathname = make_file_name directory base_name number extension
        in if file_or_directory_exists fs s full_pathname
           then generate_from fs s directory base_name extension (number + 1) else Some full_pathname)"
  by pat_completeness auto
termination
  by (relation "measure (\<lambda>(fs, s, d, b, e, number). nat (int_max - number))") auto

declare generate_from.simps [simp del]

definition generate_unique_file_name ::
  "'s file_system \<Rightarrow> 's \<Rightarrow> string \<Rightarrow> string \<Rightarrow> string \<Rightarrow> string option" where
  "generate_unique_file_name fs s directory base_name extension =
     generate_from fs s directory base_name extension 0"

definition create_folder :: "'s file_system \<Rightarrow> string \<Rightarrow> 's \<Rightarrow> 's \<times> bool" where
  "create_folder fs p s =
     (case fs_mkdir fs p s of (s, ok) \<Rightarrow> if ok then (s, True) else (s, directory_exists fs s p))"

text \<open>\<open>None\<close>: the recursion does not end.\<close>

partial_function (option) create_directories_recursively ::
  "'s file_system \<Rightarrow> string \<Rightarrow> 's \<Rightarrow> ('s \<times> bool) option" where
  [code]: "create_directories_recursively fs p s =
     (if \<not> is_directory p then Some (s, False)
      else if length p = 0 \<or> directory_exists fs s p then Some (s, True)
      else let parent = remove_file_name (remove_trailing_path_separator p)
        in Option.bind (create_directories_recursively fs parent s)
          (\<lambda>r. if snd r then Some (create_folder fs p (fst r)) else Some (fst r, False)))"

subsection \<open>The output flag\<close>

definition k_default_output_file :: string where "k_default_output_file = ''test_detail.xml''"

definition get_current_executable_name :: "string \<Rightarrow> string" where
  "get_current_executable_name g_executable_path = remove_directory_name (file_path g_executable_path)"

definition get_absolute_path_to_output_file ::
  "'s file_system \<Rightarrow> 's \<Rightarrow> string \<Rightarrow> string \<Rightarrow> gtest_flags \<Rightarrow> string option" where
  "get_absolute_path_to_output_file fs s original_working_dir g_executable_path flags =
     (case dropWhile (\<lambda>c. c \<noteq> CHR '':'') (c_str (fl_output flags)) of
        [] \<Rightarrow> Some (concat_paths (file_path original_working_dir) (file_path k_default_output_file))
      | colon # after \<Rightarrow>
          let output_name = file_path after;
              output_name = (if \<not> is_absolute_path output_name
                then concat_paths (file_path original_working_dir) (file_path after) else output_name)
          in if \<not> is_directory output_name then Some output_name
             else generate_unique_file_name fs s output_name
               (get_current_executable_name g_executable_path) (get_output_format (c_str (fl_output flags))))"


subsection \<open>What normalisation does\<close>

lemma separator_simps [simp]:
  "is_path_separator CHR ''/''" "\<not> is_path_separator CHR ''.''" "\<not> is_path_separator CHR ''_''"
  by (simp_all add: is_path_separator_def)

abbreviation single :: "string \<Rightarrow> bool" where
  "single \<equiv> successively (\<lambda>a b. \<not> (is_path_separator a \<and> is_path_separator b))"

definition path_ok :: "string \<Rightarrow> bool" where
  "path_ok p \<longleftrightarrow> nul \<notin> set p \<and> single p"

lemma normalize_loop_Nil_iff [simp]: "normalize_loop s = [] \<longleftrightarrow> s = []"
  by (cases s) auto

lemma normalize_loop_hd: "s \<noteq> [] \<Longrightarrow> hd (normalize_loop s) = hd s"
  by (cases s) auto

lemma normalize_loop_set: "set (normalize_loop s) \<subseteq> set s"
proof (induction s rule: normalize_loop.induct)
  case (2 c src)
  then show ?case using set_dropWhileD [of _ is_path_separator src] by (cases "is_path_separator c") auto
qed simp

lemma normalize_loop_single: "single (normalize_loop s)"
proof (induction s rule: normalize_loop.induct)
  case (2 c src)
  let ?rest = "dropWhile is_path_separator src"
  have "\<not> is_path_separator (hd (normalize_loop ?rest))" if "?rest \<noteq> []"
    using hd_dropWhile [OF that] normalize_loop_hd [OF that] by simp
  then show ?case using 2 by (cases "is_path_separator c") (simp_all add: successively_Cons, blast)
qed simp

lemma normalize_loop_step:
  "\<not> is_path_separator c \<or> src = [] \<or> \<not> is_path_separator (hd src) \<Longrightarrow>
   normalize_loop (c # src) = c # normalize_loop src"
  by (cases src) auto

lemma normalize_loop_id: "single s \<Longrightarrow> normalize_loop s = s"
  by (induction s) (auto simp: successively_Cons normalize_loop_step simp del: normalize_loop.simps(2))

lemma c_str_id: "nul \<notin> set s \<Longrightarrow> c_str s = s"
  unfolding c_str_def by (rule takeWhile_eq_all_conv [THEN iffD2]) auto

lemma nul_notin_c_str [simp]: "nul \<notin> set (c_str s)"
  unfolding c_str_def by (auto dest: set_takeWhileD)

lemma file_path_ok: "path_ok (file_path s)"
  using normalize_loop_set [of "c_str s"] normalize_loop_single [of "c_str s"] nul_notin_c_str [of s]
  by (auto simp: path_ok_def file_path_def normalize_def)

lemma file_path_id: "path_ok p \<Longrightarrow> file_path p = p"
  by (simp add: path_ok_def file_path_def normalize_def c_str_id normalize_loop_id)

lemma file_path_loop: "nul \<notin> set p \<Longrightarrow> file_path p = normalize_loop p"
  by (simp add: file_path_def normalize_def c_str_id)

lemma path_ok_append1: "path_ok (p @ q) \<Longrightarrow> path_ok p"
  and path_ok_append2: "path_ok (p @ q) \<Longrightarrow> path_ok q"
  by (auto simp: path_ok_def successively_append_iff)

text \<open>A text behind a proper path that it cannot run together with.\<close>

lemma normalize_loop_append:
  assumes "\<not> is_path_separator c"
  shows "single p \<Longrightarrow> normalize_loop (p @ c # q) = p @ c # normalize_loop q"
proof (induction p)
  case (Cons d src)
  have "normalize_loop (d # src @ c # q) = d # normalize_loop (src @ c # q)"
    using Cons.prems assms by (cases src) (auto simp: successively_Cons intro: normalize_loop_step
        simp del: normalize_loop.simps(2))
  then show ?case using Cons by (auto simp: successively_Cons simp del: normalize_loop.simps(2))
qed (use assms in simp)

lemma normalize_loop_join:
  "single p \<Longrightarrow> \<not> is_directory p \<Longrightarrow>
   normalize_loop (p @ CHR ''/'' # q) = p @ CHR ''/'' # normalize_loop (dropWhile is_path_separator q)"
proof (induction p)
  case (Cons d src)
  have "normalize_loop (d # src @ CHR ''/'' # q) = d # normalize_loop (src @ CHR ''/'' # q)"
    using Cons.prems by (cases src) (auto simp: successively_Cons is_directory_def intro: normalize_loop_step
        simp del: normalize_loop.simps(2))
  moreover have "\<not> is_directory src" using Cons.prems(2) by (auto simp: is_directory_def split: if_splits)
  ultimately show ?case using Cons by (auto simp: successively_Cons simp del: normalize_loop.simps(2))
qed simp


subsection \<open>Directory and file names\<close>

lemma strrchr_None [simp]: "strrchr s c = None \<longleftrightarrow> c \<notin> set s"
  by (induction s) (auto split: option.splits)

lemma strrchr_last [simp]: "c \<notin> set q \<Longrightarrow> strrchr (p @ c # q) c = Some (length p)"
  by (induction p) (auto split: option.split)

lemma is_directory_append [simp]: "is_directory (p @ [CHR ''/''])"
  by (simp add: is_directory_def)

lemma is_directoryE:
  assumes "is_directory p" obtains q where "p = q @ [CHR ''/'']"
  using assms unfolding is_directory_def is_path_separator_def by (metis append_butlast_last_id)

lemma path_ok_not_directory: "path_ok (q @ [CHR ''/'']) \<Longrightarrow> \<not> is_directory q"
  by (auto simp: path_ok_def successively_append_iff is_directory_def)

lemma remove_trailing_eq: "path_ok (q @ [CHR ''/'']) \<Longrightarrow> remove_trailing_path_separator (q @ [CHR ''/'']) = q"
  by (simp add: remove_trailing_path_separator_def file_path_id path_ok_append1)

lemma remove_trailing_ok:
  assumes "path_ok p"
  shows "path_ok (remove_trailing_path_separator p)" and "\<not> is_directory (remove_trailing_path_separator p)"
proof -
  have "path_ok (remove_trailing_path_separator p) \<and> \<not> is_directory (remove_trailing_path_separator p)"
  proof (cases "is_directory p")
    case True
    then obtain q where "p = q @ [CHR ''/'']" by (rule is_directoryE)
    with assms show ?thesis by (simp add: remove_trailing_eq path_ok_append1 path_ok_not_directory)
  qed (use assms in \<open>simp add: remove_trailing_path_separator_def\<close>)
  then show "path_ok (remove_trailing_path_separator p)" "\<not> is_directory (remove_trailing_path_separator p)" by auto
qed

lemma names_of_parts:
  assumes "path_ok (d @ CHR ''/'' # f)" and "CHR ''/'' \<notin> set f"
  shows "remove_directory_name (d @ CHR ''/'' # f) = f" "remove_file_name (d @ CHR ''/'' # f) = d @ ''/''"
proof -
  have "path_ok f" using path_ok_append2 [of "d @ ''/''" f] assms by simp
  moreover have "path_ok (d @ ''/'')" using path_ok_append1 [of "d @ ''/''" f] assms by simp
  ultimately show "remove_directory_name (d @ CHR ''/'' # f) = f"
    "remove_file_name (d @ CHR ''/'' # f) = d @ ''/''"
    using assms by (simp_all add: remove_directory_name_def remove_file_name_def find_last_path_separator_def
        file_path_id)
qed

lemma current_directory_ok: "path_ok ''./''"
  by (simp add: path_ok_def)

lemma names_without_separator:
  "CHR ''/'' \<notin> set p \<Longrightarrow> remove_directory_name p = p"
  "CHR ''/'' \<notin> set p \<Longrightarrow> remove_file_name p = ''./''"
  using strrchr_None [of p "CHR ''/''", THEN iffD2]
  by (simp_all add: remove_directory_name_def remove_file_name_def find_last_path_separator_def
      file_path_id current_directory_ok del: strrchr_None)

lemma names_recombine:
  assumes "path_ok p"
  shows "is_directory (remove_file_name p)" and "CHR ''/'' \<notin> set (remove_directory_name p)"
    and "concat_paths (remove_file_name p) (remove_directory_name p) = (if CHR ''/'' \<in> set p then p else ''./'' @ p)"
proof -
  have "is_directory (remove_file_name p) \<and> CHR ''/'' \<notin> set (remove_directory_name p) \<and>
    concat_paths (remove_file_name p) (remove_directory_name p) = (if CHR ''/'' \<in> set p then p else ''./'' @ p)"
  proof (cases "CHR ''/'' \<in> set p")
    case True
    then obtain d f where p: "p = d @ CHR ''/'' # f" and f: "CHR ''/'' \<notin> set f" by (metis split_list_last)
    have "path_ok (d @ ''/'')" using path_ok_append1 [of "d @ ''/''" f] assms p by simp
    with assms p f show ?thesis
      by (simp add: names_of_parts concat_paths_def remove_trailing_eq file_path_id)
  next
    case False
    then have "normalize_loop (''.'' @ CHR ''/'' # p) = ''.'' @ CHR ''/'' # p"
      using assms by (intro normalize_loop_id) (cases p, auto simp: path_ok_def successively_Cons is_path_separator_def)
    moreover have "remove_trailing_path_separator ''./'' = ''.''"
      using remove_trailing_eq [of "''.''"] current_directory_ok by simp
    ultimately show ?thesis using False assms
      by (simp add: names_without_separator concat_paths_def file_path_loop path_ok_def is_directory_def)
  qed
  then show "is_directory (remove_file_name p)" "CHR ''/'' \<notin> set (remove_directory_name p)"
    "concat_paths (remove_file_name p) (remove_directory_name p) = (if CHR ''/'' \<in> set p then p else ''./'' @ p)"
    by auto
qed

subsection \<open>Unused names\<close>

lemma single_no_separator: "CHR ''/'' \<notin> set q \<Longrightarrow> single q"
  by (induction q) (auto simp: successively_Cons is_path_separator_def)

lemma string_of_nat_digits: "c \<in> set (string_of_nat n) \<Longrightarrow> is_digit c"
  using string_of_nat_decimal [of n] by (auto simp: list_all_iff)

lemma string_of_int_plain: "c \<in> set (string_of_int i) \<Longrightarrow> c \<noteq> CHR ''/'' \<and> c \<noteq> nul"
  using string_of_nat_digits [of c "nat \<bar>i\<bar>"]
  by (auto simp: string_of_int_def is_digit_def between_def split: if_splits)

text \<open>What distinguishes the candidates: the text behind the common base name.\<close>

definition name_suffix :: "string \<Rightarrow> int \<Rightarrow> string" where
  "name_suffix extension number =
     (if number = 0 then ''.'' @ extension else ''_'' @ string_of_int number @ ''.'' @ extension)"

lemma name_suffix_inj:
  assumes "name_suffix e m = name_suffix e n" and "0 \<le> m" and "0 \<le> n" shows "m = n"
proof -
  have "decimal (string_of_nat k) = k" for k using string_of_nat_decimal by blast
  then have "string_of_nat k = string_of_nat l \<longleftrightarrow> k = l" for k l by metis
  with assms show ?thesis by (auto simp: name_suffix_def string_of_int_def split: if_splits)
qed

lemma normalize_name:
  assumes "path_ok base" and "nul \<notin> set extension"
  shows "file_path (if number = 0 then base @ ''.'' @ extension
      else base @ ''_'' @ string_of_int number @ ''.'' @ extension) =
    base @ name_suffix (normalize_loop extension) number"
proof -
  have "single (string_of_int number)" and "nul \<notin> set (string_of_int number)"
    using string_of_int_plain by (blast intro: single_no_separator)+
  with assms show ?thesis
    by (auto simp: file_path_loop path_ok_def normalize_loop_append name_suffix_def simp del: normalize_loop.simps(2))
qed

lemma name_suffix_hd: "name_suffix e n \<noteq> [] \<and> \<not> is_path_separator (hd (name_suffix e n))"
  by (simp add: name_suffix_def)

lemma dropWhile_before:
  "ys \<noteq> [] \<Longrightarrow> \<not> P (hd ys) \<Longrightarrow> dropWhile P (xs @ ys) = dropWhile P xs @ ys"
  by (cases ys) (simp_all add: dropWhile_append3)

lemma make_file_name_shape:
  assumes "path_ok directory" and "path_ok base_name" and "nul \<notin> set extension"
  obtains prefix where "\<And>number. make_file_name directory base_name number extension =
    prefix @ name_suffix (normalize_loop extension) number"
proof (cases "directory = []")
  case True
  then show ?thesis using that normalize_name [OF assms(2,3)] by (simp add: make_file_name_def concat_paths_def)
next
  case False
  let ?dir = "remove_trailing_path_separator directory" and ?sfx = "name_suffix (normalize_loop extension)"
  let ?rel = "\<lambda>number. base_name @ ?sfx number"
  have dir: "path_ok ?dir" "\<not> is_directory ?dir" using remove_trailing_ok [OF assms(1)] by auto
  have "make_file_name directory base_name number extension =
      (?dir @ CHR ''/'' # dropWhile is_path_separator base_name) @ ?sfx number" for number
  proof -
    have rel: "path_ok (?rel number)"
      using file_path_ok normalize_name [OF assms(2,3)] by metis
    have drop: "dropWhile is_path_separator (?rel number) = dropWhile is_path_separator base_name @ ?sfx number"
      using name_suffix_hd by (intro dropWhile_before) auto
    have "single (dropWhile is_path_separator (?rel number))"
      using rel by (metis path_ok_def successively_append_iff takeWhile_dropWhile_id)
    moreover have "make_file_name directory base_name number extension = normalize_loop (?dir @ CHR ''/'' # ?rel number)"
      using False dir rel normalize_name [OF assms(2,3), of number]
      by (simp add: make_file_name_def concat_paths_def file_path_loop path_ok_def)
    ultimately show ?thesis using dir
      by (simp add: normalize_loop_join path_ok_def normalize_loop_id drop del: normalize_loop.simps(2))
  qed
  then show ?thesis by (rule that)
qed

lemma make_file_name_inj:
  assumes "path_ok directory" and "path_ok base_name" and "nul \<notin> set extension"
  shows "inj_on (\<lambda>number. make_file_name directory base_name number extension) {0..<int_max}"
proof -
  obtain prefix where "\<And>number. make_file_name directory base_name number extension =
      prefix @ name_suffix (normalize_loop extension) number"
    using assms by (rule make_file_name_shape) blast
  then show ?thesis by (auto intro!: inj_onI dest: name_suffix_inj)
qed

lemma generate_from_first:
  assumes "number \<le> k" and "k < int_max"
    and "\<not> file_or_directory_exists fs s (make_file_name d b k e)"
    and "\<And>j. number \<le> j \<Longrightarrow> j < k \<Longrightarrow> file_or_directory_exists fs s (make_file_name d b j e)"
  shows "generate_from fs s d b e number = Some (make_file_name d b k e)"
  using assms
proof (induction fs s d b e number rule: generate_from.induct)
  case (1 fs s d b e number)
  show ?case
  proof (cases "number = k")
    case True
    then show ?thesis using 1(3,4) by (simp add: generate_from.simps)
  next
    case False
    then show ?thesis using 1 by (subst generate_from.simps) (simp add: Let_def)
  qed
qed

lemma generate_unique_first:
  assumes names: "path_ok d" "path_ok b" "nul \<notin> set e"
    and few: "finite {p. file_or_directory_exists fs s p}" "card {p. file_or_directory_exists fs s p} < nat int_max"
  obtains k where "0 \<le> k" and "k < int_max"
    and "generate_unique_file_name fs s d b e = Some (make_file_name d b k e)"
    and "\<not> file_or_directory_exists fs s (make_file_name d b k e)"
    and "\<And>j. 0 \<le> j \<Longrightarrow> j < k \<Longrightarrow> file_or_directory_exists fs s (make_file_name d b j e)"
proof -
  let ?free = "\<lambda>n. \<not> file_or_directory_exists fs s (make_file_name d b (int n) e)"
  have "\<exists>n. n < nat int_max \<and> ?free n"
  proof (rule ccontr)
    assume none: "\<not> (\<exists>n. n < nat int_max \<and> ?free n)"
    have "(\<lambda>k. make_file_name d b k e) ` {0..<int_max} \<subseteq> {p. file_or_directory_exists fs s p}"
      using none by (force dest: spec [of _ "nat _"])
    then have "card {0..<int_max} \<le> card {p. file_or_directory_exists fs s p}"
      using few(1) make_file_name_inj [OF names] by (intro card_inj_on_le)
    with few(2) show False by simp
  qed
  then obtain n where n: "n < nat int_max" "?free n" by blast
  define m where "m = (LEAST n. ?free n)"
  have m: "?free m" "m \<le> n" "\<And>j. j < m \<Longrightarrow> \<not> ?free j"
    unfolding m_def using LeastI [of ?free, OF n(2)] Least_le [of ?free, OF n(2)] not_less_Least [of _ ?free] by auto
  have before: "file_or_directory_exists fs s (make_file_name d b j e)" if "0 \<le> j" "j < int m" for j
    using m(3) [of "nat j"] that by simp
  have "generate_unique_file_name fs s d b e = Some (make_file_name d b (int m) e)"
    unfolding generate_unique_file_name_def using m n before by (intro generate_from_first) auto
  then show ?thesis using that [of "int m"] m n before by auto
qed

subsection \<open>Creating directories\<close>

lemma parent_directory:
  assumes "path_ok p" and "is_directory p"
  defines "parent \<equiv> remove_file_name (remove_trailing_path_separator p)"
  shows "path_ok parent" and "is_directory parent" and "parent = ''./'' \<or> length parent < length p"
proof -
  obtain q where p: "p = q @ [CHR ''/'']" using assms(2) by (rule is_directoryE)
  have q: "path_ok q" using assms(1) unfolding p by (rule path_ok_append1)
  have parent: "parent = remove_file_name q" using assms(1) by (simp add: parent_def p remove_trailing_eq)
  then show "path_ok parent" by (simp add: remove_file_name_def file_path_ok)
  show "is_directory parent" using names_recombine(1) [OF q] parent by simp
  show "parent = ''./'' \<or> length parent < length p"
  proof (cases "CHR ''/'' \<in> set q")
    case True
    then obtain d f where "q = d @ CHR ''/'' # f" "CHR ''/'' \<notin> set f" by (metis split_list_last)
    with q show ?thesis by (simp add: parent p names_of_parts)
  qed (simp add: parent names_without_separator)
qed

lemma create_directories_ends:
  assumes "directory_exists fs s ''./''" and "path_ok p"
  shows "\<exists>r. create_directories_recursively fs p s = Some r"
  using assms(2)
proof (induction "length p" arbitrary: p rule: less_induct)
  case less
  let ?parent = "remove_file_name (remove_trailing_path_separator p)"
  show ?case
  proof (cases "is_directory p \<and> \<not> directory_exists fs s p")
    case False
    then show ?thesis by (subst create_directories_recursively.simps) auto
  next
    case True
    note parent = parent_directory [OF less.prems]
    have "\<exists>r. create_directories_recursively fs ?parent s = Some r"
    proof (cases "?parent = ''./''")
      case True
      then show ?thesis using assms(1) by (subst create_directories_recursively.simps) auto
    next
      case False
      then show ?thesis using less.hyps parent True by blast
    qed
    then show ?thesis by (subst create_directories_recursively.simps) (auto simp: Let_def)
  qed
qed

text \<open>Without a current directory the recursion goes from \<open>./\<close> to \<open>./\<close> for ever.\<close>

lemma create_directories_diverges:
  assumes "\<not> directory_exists fs s ''./''"
  shows "create_directories_recursively fs ''./'' s = None"
proof (rule ccontr)
  assume "create_directories_recursively fs ''./'' s \<noteq> None"
  then obtain r where r: "create_directories_recursively fs ''./'' s = Some r" by blast
  have parent: "remove_file_name (remove_trailing_path_separator ''./'') = ''./''"
    using remove_trailing_eq [of "''.''"] current_directory_ok by (simp add: names_without_separator)
  have "fs' = fs \<longrightarrow> p = ''./'' \<longrightarrow> s' \<noteq> s" if "create_directories_recursively fs' p s' = Some r'" for fs' p s' r'
    using that
  proof (induction rule: create_directories_recursively.raw_induct [rotated, consumes 1, case_names step])
    case (step rec fs' p s' r')
    then show ?case using assms parent
      by (auto simp: Let_def is_directory_def split: if_splits bind_splits)
  qed
  with r show False by blast
qed

text \<open>
  What is documented of \<open>mkdir\<close>: where it reports success there is a directory afterwards, and it
  removes none.
\<close>

definition mkdir_law :: "'s file_system \<Rightarrow> bool" where
  "mkdir_law fs \<longleftrightarrow> (\<forall>q s. (snd (fs_mkdir fs q s) \<longrightarrow> directory_exists fs (fst (fs_mkdir fs q s)) q) \<and>
     (\<forall>r. directory_exists fs s r \<longrightarrow> directory_exists fs (fst (fs_mkdir fs q s)) r))"

lemma create_folder_exists:
  "mkdir_law fs \<Longrightarrow> create_folder fs p s = (s', True) \<Longrightarrow> directory_exists fs s' p"
  by (auto simp: create_folder_def mkdir_law_def split: prod.splits if_splits) (metis fst_conv snd_conv)

lemma create_folder_keeps:
  "mkdir_law fs \<Longrightarrow> create_folder fs p s = (s', ok) \<Longrightarrow> directory_exists fs s r \<Longrightarrow> directory_exists fs s' r"
  by (auto simp: create_folder_def mkdir_law_def split: prod.splits if_splits) (metis fst_conv)+

lemma create_directories_keeps:
  assumes law: "mkdir_law fs" and "create_directories_recursively fs p s = Some r" and "directory_exists fs s d"
  shows "directory_exists fs (fst r) d \<and> (snd r \<longrightarrow> p \<noteq> [] \<longrightarrow> directory_exists fs (fst r) p)"
proof -
  have "fs' = fs \<longrightarrow> directory_exists fs s' d \<longrightarrow>
      directory_exists fs (fst r') d \<and> (snd r' \<longrightarrow> p' \<noteq> [] \<longrightarrow> directory_exists fs (fst r') p')"
    if "create_directories_recursively fs' p' s' = Some r'" for fs' p' s' r'
    using that
  proof (induction rule: create_directories_recursively.raw_induct [rotated, consumes 1, case_names step])
    case (step rec fs' p s r)
    let ?parent = "remove_file_name (remove_trailing_path_separator p)"
    show ?case
    proof (cases "fs' = fs \<and> is_directory p \<and> \<not> directory_exists fs s p")
      case False
      then show ?thesis using step by (auto split: if_splits)
    next
      case True
      then obtain r1 where r1: "rec fs ?parent s = Some r1"
        and r: "r = (if snd r1 then create_folder fs p (fst r1) else (fst r1, False))"
        using step(2) by (auto simp: Let_def is_directory_def split: if_splits bind_splits)
      have "directory_exists fs s d \<longrightarrow> directory_exists fs (fst r1) d" using step(1) r1 by blast
      then show ?thesis
        using create_folder_exists [OF law, of p "fst r1" "fst r"] create_folder_keeps [OF law, of p "fst r1" "fst r" "snd r" d]
        unfolding r by (cases "create_folder fs p (fst r1)") auto
    qed
  qed
  with assms show ?thesis by blast
qed

end
