(* ===== verification/Gtest_Xml.thy ===== *)
theory Gtest_Xml
  imports Gtest_Run Gtest_Filepath
begin

text \<open>
  The report of a run as XML (\<open>XmlUnitTestResultPrinter\<close> in \<open>gtest/src/gtest.cc\<close>): the escaping of
  attribute values and of CDATA sections, the attributes and elements of tests, test cases and the
  whole run, and the handler of the end of an iteration, which makes the directory and the file.
  A printer yields the text that it streams, or the fault that ends the process. A plain \<open>char\<close> is
  signed, as it is for the compilers of x86. \<open>localtime\<close> depends on the time zone of the process
  and is a parameter.
\<close>

subsection \<open>Escaping\<close>

definition signed_char :: "char \<Rightarrow> int" where
  "signed_char c = (let n = of_char c :: int in if n < 128 then n else n - 256)"

definition is_normalizable_whitespace :: "char \<Rightarrow> bool" where
  "is_normalizable_whitespace c \<longleftrightarrow> c = CHR 0x09 \<or> c = CHR 0x0A \<or> c = CHR 0x0D"

definition is_valid_xml_character :: "char \<Rightarrow> bool" where
  "is_valid_xml_character c \<longleftrightarrow> is_normalizable_whitespace c \<or> 0x20 \<le> signed_char c"

definition escape_xml_char :: "bool \<Rightarrow> char \<Rightarrow> string" where
  "escape_xml_char is_attribute ch =
     (if ch = CHR ''<'' then ''&lt;''
      else if ch = CHR ''>'' then ''&gt;''
      else if ch = CHR ''&'' then ''&amp;''
      else if ch = apostrophe then (if is_attribute then ''&apos;'' else [apostrophe])
      else if ch = quote then (if is_attribute then ''&quot;'' else [quote])
      else if is_valid_xml_character ch then
        (if is_attribute \<and> is_normalizable_whitespace ch
         then ''&#x'' @ format_byte (of_char ch) @ '';'' else [ch])
      else [])"

definition escape_xml :: "string \<Rightarrow> bool \<Rightarrow> string" where
  "escape_xml str is_attribute = string_stream_to_string (concat (map (escape_xml_char is_attribute) str))"

definition escape_xml_attribute :: "string \<Rightarrow> string" where
  "escape_xml_attribute str = escape_xml str True"

definition escape_xml_text :: "string \<Rightarrow> string" where
  "escape_xml_text str = escape_xml str False"

definition remove_invalid_xml_characters :: "string \<Rightarrow> string" where
  "remove_invalid_xml_characters str = filter is_valid_xml_character str"

text \<open>The position of the first occurrence of a text.\<close>

fun strstr :: "string \<Rightarrow> string \<Rightarrow> nat option" where
  "strstr [] needle = (if needle = [] then Some 0 else None)"
| "strstr (c # cs) needle =
     (if take (length needle) (c # cs) = needle then Some 0 else map_option Suc (strstr cs needle))"

lemma strstr_bound: "strstr s m = Some i \<Longrightarrow> i + length m \<le> length s"
proof (induction s arbitrary: i)
  case (Cons c s)
  show ?case
  proof (cases "take (length m) (c # s) = m")
    case True
    then have "length m \<le> length (c # s)" by (metis length_take min.cobounded1)
    with True Cons.prems show ?thesis by simp
  next
    case False
    with Cons show ?thesis by auto
  qed
qed (auto split: if_splits)

function cdata_loop :: "string \<Rightarrow> string" where
  "cdata_loop segment =
     (case strstr segment '']]>'' of
        Some next_segment \<Rightarrow>
          take next_segment segment @ '']]>]]&gt;<![CDATA['' @ cdata_loop (drop (next_segment + 3) segment)
      | None \<Rightarrow> segment)"
  by pat_completeness auto
termination
  by (relation "measure length") (auto dest: strstr_bound)

declare cdata_loop.simps [simp del]

definition output_xml_cdata_section :: "string \<Rightarrow> string" where
  "output_xml_cdata_section data = ''<![CDATA['' @ cdata_loop data @ '']]>''"

subsection \<open>Times\<close>

text \<open>
  \<open>ss << ms/1000.0\<close>: the double nearest to \<open>ms\<close>, divided, and printed with six significant
  digits. A positive double is a fraction of natural numbers; \<open>nearest\<close> rounds to 53 binary
  digits, half to even.
\<close>

definition round_half_even :: "nat \<Rightarrow> nat \<Rightarrow> nat" where
  "round_half_even n d =
     (let q = n div d; r = n mod d in if d < 2 * r \<or> (2 * r = d \<and> odd q) then q + 1 else q)"

fun bit_length :: "nat \<Rightarrow> nat" where
  "bit_length n = (if n = 0 then 0 else Suc (bit_length (n div 2)))"

declare bit_length.simps [simp del]

definition nearest :: "nat \<times> nat \<Rightarrow> nat \<times> nat" where
  "nearest q = (case q of (n, d) \<Rightarrow>
     let scale = int (bit_length d) - int (bit_length n) + 53;
         scaled = (\<lambda>s. (n * 2 ^ nat s, d * 2 ^ nat (- s)));
         scale = (case scaled scale of (a, b) \<Rightarrow> if b * 2 ^ 53 \<le> a then scale - 1 else scale)
     in case scaled scale of (a, b) \<Rightarrow> (round_half_even a b * 2 ^ nat (- scale), 2 ^ nat scale))"

text \<open>The decimal exponent of a fraction and its six leading digits, rounded.\<close>

function decimal_exponent :: "nat \<Rightarrow> nat \<Rightarrow> nat" where
  "decimal_exponent n d = (if d = 0 \<or> n < 10 * d then 0 else Suc (decimal_exponent n (10 * d)))"
  by pat_completeness auto
termination
  by (relation "measure (\<lambda>(n, d). n - d)") auto

declare decimal_exponent.simps [simp del]

definition strip_zeros :: "string \<Rightarrow> string" where
  "strip_zeros ds = rev (dropWhile (\<lambda>c. c = CHR ''0'') (rev ds))"

definition with_fraction :: "string \<Rightarrow> string \<Rightarrow> string" where
  "with_fraction whole fraction =
     (if strip_zeros fraction = [] then whole else whole @ ''.'' @ strip_zeros fraction)"

text \<open>\<open>%g\<close> of a fraction that is at least one thousandth.\<close>

definition format_general :: "nat \<times> nat \<Rightarrow> string" where
  "format_general q = (case q of (n, d) \<Rightarrow>
     let e = int (decimal_exponent (1000 * n) d) - 3;
         digits = round_half_even (n * 10 ^ nat (5 - e)) (d * 10 ^ nat (e - 5));
         (digits, e) = (if digits = 10 ^ 6 then (10 ^ 5, e + 1) else (digits, e));
         text = string_of_nat digits
     in if e < 0 then with_fraction ''0'' (replicate (nat (- e) - 1) CHR ''0'' @ text)
        else if e < 6 then with_fraction (take (nat e + 1) text) (drop (nat e + 1) text)
        else with_fraction (take 1 text) (drop 1 text) @ ''e+'' @ width2 (string_of_nat (nat e)))"

definition format_time_in_millis_as_seconds :: "int \<Rightarrow> string" where
  "format_time_in_millis_as_seconds ms =
     (if ms = 0 then ''0''
      else (if ms < 0 then ''-'' else []) @
        format_general (nearest (let (n, d) = nearest (nat \<bar>ms\<bar>, 1) in (n, 1000 * d))))"

record tm =
  tm_sec :: int
  tm_min :: int
  tm_hour :: int
  tm_mday :: int
  tm_mon :: int
  tm_year :: int

definition format_epoch_time_in_millis_as_iso8601 :: "(int \<Rightarrow> tm option) \<Rightarrow> int \<Rightarrow> string" where
  "format_epoch_time_in_millis_as_iso8601 localtime ms =
     (let seconds = (if ms < 0 then - (- ms div 1000) else ms div 1000)
      in case localtime seconds of
           None \<Rightarrow> []
         | Some t \<Rightarrow>
             string_of_int (tm_year t + 1900) @ ''-'' @ format_int_width2 (tm_mon t + 1) @ ''-'' @
             format_int_width2 (tm_mday t) @ ''T'' @ format_int_width2 (tm_hour t) @ '':'' @
             format_int_width2 (tm_min t) @ '':'' @ format_int_width2 (tm_sec t))"

subsection \<open>Attributes and elements\<close>

text \<open>What is streamed one after another; a fault ends the process and the stream.\<close>

fun streamed :: "(fault + string) list \<Rightarrow> fault + string" where
  "streamed [] = Inr []"
| "streamed (Inl f # pieces) = Inl f"
| "streamed (Inr t # pieces) = map_sum id ((@) t) (streamed pieces)"

definition output_xml_attribute :: "string \<Rightarrow> string \<Rightarrow> string \<Rightarrow> fault + string" where
  "output_xml_attribute element_name name val =
     (case get_reserved_attributes_for_element element_name of
        Inl f \<Rightarrow> Inl f
      | Inr allowed_names \<Rightarrow>
          if name \<in> set allowed_names
          then Inr ('' '' @ name @ ''='' @ [quote] @ escape_xml_attribute val @ [quote])
          else Inl Assertion_failure)"

definition test_properties_as_xml_attributes :: "test_result \<Rightarrow> string" where
  "test_properties_as_xml_attributes result =
     string_stream_to_string (concat (map (\<lambda>(key, val).
       '' '' @ c_str key @ ''='' @ [quote] @ escape_xml_attribute (c_str val) @ [quote]) (rs_properties result)))"

definition format_compiler_independent_file_location :: "string option \<Rightarrow> int \<Rightarrow> string" where
  "format_compiler_independent_file_location file line =
     (let file_name = (case file of None \<Rightarrow> ''unknown file'' | Some f \<Rightarrow> f)
      in if line < 0 then file_name else file_name @ '':'' @ string_of_int line)"

definition part_location :: "test_part_result \<Rightarrow> string" where
  "part_location part =
     format_compiler_independent_file_location (map_option c_str (part_file_name part)) (tp_line_number part)"

definition output_xml_failure :: "test_part_result \<Rightarrow> string" where
  "output_xml_failure part =
     (let location = part_location part;
          summary = location @ newline @ c_str (tp_summary part);
          detail = location @ newline @ c_str (tp_message part)
      in ''      <failure message='' @ [quote] @ escape_xml_attribute (c_str summary) @ [quote] @
         '' type='' @ [quote, quote] @ ''>'' @
         output_xml_cdata_section (c_str (remove_invalid_xml_characters detail)) @ ''</failure>'' @ newline)"

text \<open>The loop over the parts, with the failures so far; yields their number as well.\<close>

fun output_xml_parts :: "nat \<Rightarrow> test_part_result list \<Rightarrow> string \<times> nat" where
  "output_xml_parts failures [] = ([], failures)"
| "output_xml_parts failures (part # parts) =
     (if part_failed part then
        (case output_xml_parts (failures + 1) parts of (later, n) \<Rightarrow>
           ((if failures + 1 = 1 then ''>'' @ newline else []) @ output_xml_failure part @ later, n))
      else output_xml_parts failures parts)"

definition output_xml_test_info :: "string \<Rightarrow> test_info \<Rightarrow> fault + string" where
  "output_xml_test_info test_case_name t =
     (let result = ti_result t; k_testcase = ''testcase'';
          (parts, failures) = output_xml_parts 0 (rs_parts result)
      in streamed
        [Inr ''    <testcase'',
         output_xml_attribute k_testcase ''name'' (c_str (ti_name t)),
         (case ti_value_param t of None \<Rightarrow> Inr [] | Some v \<Rightarrow> output_xml_attribute k_testcase ''value_param'' (c_str v)),
         (case ti_type_param t of None \<Rightarrow> Inr [] | Some p \<Rightarrow> output_xml_attribute k_testcase ''type_param'' (c_str p)),
         output_xml_attribute k_testcase ''status'' (if ti_should_run t then ''run'' else ''notrun''),
         output_xml_attribute k_testcase ''time'' (format_time_in_millis_as_seconds (rs_elapsed_time result)),
         output_xml_attribute k_testcase ''classname'' (c_str test_case_name),
         Inr (test_properties_as_xml_attributes result),
         Inr parts,
         Inr (if failures = 0 then '' />'' @ newline else ''    </testcase>'' @ newline)])"

text \<open>The test at a place of the order, when it is reportable.\<close>

definition print_xml_test :: "test_case \<Rightarrow> nat \<Rightarrow> fault + string" where
  "print_xml_test c i =
     (case get_test_info (int i) c of
        None \<Rightarrow> Inl Null_dereference
      | Some j \<Rightarrow>
          if ti_matches_filter (tc_tests c ! j) then output_xml_test_info (tc_name c) (tc_tests c ! j) else Inr [])"

definition print_xml_test_case :: "test_case \<Rightarrow> fault + string" where
  "print_xml_test_case c =
     (let k_testsuite = ''testsuite'' in streamed (
        [Inr (''  <'' @ k_testsuite),
         output_xml_attribute k_testsuite ''name'' (c_str (tc_name c)),
         output_xml_attribute k_testsuite ''tests'' (string_of_nat (reportable_test_count c)),
         output_xml_attribute k_testsuite ''failures'' (string_of_nat (failed_test_count c)),
         output_xml_attribute k_testsuite ''disabled'' (string_of_nat (reportable_disabled_test_count c)),
         output_xml_attribute k_testsuite ''errors'' ''0'',
         output_xml_attribute k_testsuite ''time'' (format_time_in_millis_as_seconds (tc_elapsed_time c)),
         Inr (test_properties_as_xml_attributes (tc_ad_hoc c) @ ''>'' @ newline)] @
        map (print_xml_test c) [0..<total_test_count c] @
        [Inr (''  </'' @ k_testsuite @ ''>'' @ newline)]))"

text \<open>The test case at a place, when it has reportable tests.\<close>

definition print_xml_case :: "unit_test \<Rightarrow> nat \<Rightarrow> fault + string" where
  "print_xml_case u i =
     (case get_test_case (int i) u of
        None \<Rightarrow> Inl Null_dereference
      | Some j \<Rightarrow>
          if 0 < reportable_test_count (ut_cases u ! j) then print_xml_test_case (ut_cases u ! j) else Inr [])"

definition xml_declaration :: string where
  "xml_declaration = ''<?xml version='' @ [quote] @ ''1.0'' @ [quote] @ '' encoding='' @ [quote] @ ''UTF-8'' @ [quote] @
     ''?>'' @ newline"

definition print_xml_unit_test :: "(int \<Rightarrow> tm option) \<Rightarrow> unit_test \<Rightarrow> fault + string" where
  "print_xml_unit_test localtime u =
     (let k_testsuites = ''testsuites''; cs = ut_cases u in streamed (
        [Inr xml_declaration,
         Inr (''<'' @ k_testsuites),
         output_xml_attribute k_testsuites ''tests'' (string_of_nat (sum_over_test_case_list reportable_test_count cs)),
         output_xml_attribute k_testsuites ''failures'' (string_of_nat (sum_over_test_case_list failed_test_count cs)),
         output_xml_attribute k_testsuites ''disabled''
           (string_of_nat (sum_over_test_case_list reportable_disabled_test_count cs)),
         output_xml_attribute k_testsuites ''errors'' ''0'',
         output_xml_attribute k_testsuites ''timestamp''
           (format_epoch_time_in_millis_as_iso8601 localtime (ut_start_timestamp u)),
         output_xml_attribute k_testsuites ''time'' (format_time_in_millis_as_seconds (ut_elapsed_time u)),
         (if fl_shuffle (ut_flags u)
          then output_xml_attribute k_testsuites ''random_seed'' (string_of_int (ut_random_seed u)) else Inr []),
         Inr (test_properties_as_xml_attributes (ut_ad_hoc u)),
         output_xml_attribute k_testsuites ''name'' ''AllTests'',
         Inr (''>'' @ newline)] @
        map (print_xml_case u) [0..<length cs] @
        [Inr (''</'' @ k_testsuites @ ''>'' @ newline)]))"

subsection \<open>The end of an iteration\<close>

text \<open>
  How the handler leaves: with the text that it wrote to the file, by \<open>exit\<close> with a message on
  the standard error stream, or by a fault of the printer.
\<close>

datatype report_outcome = Written string string | Exited string | Report_fault fault

definition make_xml_printer :: "string \<Rightarrow> string + string" where
  "make_xml_printer output_file =
     (if output_file = [] then Inl (''XML output file may not be null'' @ newline) else Inr output_file)"

definition on_test_iteration_end ::
  "'s file_system \<Rightarrow> (int \<Rightarrow> tm option) \<Rightarrow> string \<Rightarrow> unit_test \<Rightarrow> 's \<Rightarrow> ('s \<times> report_outcome) option" where
  "on_test_iteration_end fs localtime output_file u s =
     (let output_dir = remove_file_name (file_path output_file);
          failed = Exited (''Unable to open file '' @ [quote] @ c_str output_file @ [quote] @ newline)
      in Option.bind (create_directories_recursively fs output_dir s) (\<lambda>r.
           case (if snd r then fs_open fs (c_str output_file) (fst r) else (fst r, False)) of
             (s, False) \<Rightarrow> Some (s, failed)
           | (s, True) \<Rightarrow>
               Some (s, case print_xml_unit_test localtime u of
                   Inl f \<Rightarrow> Report_fault f
                 | Inr stream \<Rightarrow> Written (c_str output_file) (c_str (string_stream_to_string stream)))))"

end
