(* ===== verification/Xml_Reader.thy ===== *)
theory Xml_Reader
  imports Gtest_Xml Gtest_Printers
begin

text \<open>
  A reader of XML documents, as a receiver of the report has one: start tags with attributes, end
  tags, character data with references, CDATA sections. It rejects what the recommendation
  forbids and the report could contain: an attribute given twice, an end tag that does not match,
  \<open><\<close> in a value, \<open>]]>\<close> in character data, an unknown reference. White space between the elements of
  an element that has no text of its own (all but \<open>failure\<close>) is dropped. The theory proves for
  each piece of text that the printer makes what the reader makes of it in front of any rest.
\<close>

subsection \<open>Tokens\<close>

type_synonym attributes = "(string \<times> string) list"

datatype token = Tag_open string attributes | Tag_close string | Text_char char

definition name_char :: "char \<Rightarrow> bool" where
  "name_char c \<longleftrightarrow> is_alnum c \<or> c \<in> {CHR ''_'', CHR ''-'', CHR ''.'', CHR '':''}"

definition xml_name :: "string \<Rightarrow> bool" where
  "xml_name s \<longleftrightarrow> s \<noteq> [] \<and> list_all name_char s \<and> (is_alpha (hd s) \<or> hd s = CHR ''_'' \<or> hd s = CHR '':'')"

text \<open>A reference behind its \<open>&\<close>: the character, and what follows.\<close>

definition reference_char :: "string \<Rightarrow> char option" where
  "reference_char name =
     (if name = ''lt'' then Some CHR ''<'' else if name = ''gt'' then Some CHR ''>''
      else if name = ''amp'' then Some CHR ''&'' else if name = ''apos'' then Some apostrophe
      else if name = ''quot'' then Some quote
      else if take 2 name = ''#x'' \<and> list_all is_xdigit (drop 2 name) \<and> drop 2 name \<noteq> [] \<and>
        number_in 16 (drop 2 name) < 128
      then Some (char_of (number_in 16 (drop 2 name))) else None)"

definition read_reference :: "string \<Rightarrow> (char \<times> string) option" where
  "read_reference s =
     (let name = takeWhile (\<lambda>c. c \<noteq> CHR '';'') s; rest = drop (length name) s
      in if rest = [] then None else map_option (\<lambda>c. (c, tl rest)) (reference_char name))"

lemma read_reference_shorter: "read_reference s = Some (c, r) \<Longrightarrow> length r < length s"
proof -
  assume a: "read_reference s = Some (c, r)"
  let ?rest = "drop (length (takeWhile (\<lambda>c. c \<noteq> CHR '';'') s)) s"
  have "?rest \<noteq> []" "r = tl ?rest" using a by (auto simp: read_reference_def Let_def split: if_splits)
  moreover have "length ?rest \<le> length s" by simp
  moreover have "length (tl ?rest) < length ?rest" using \<open>?rest \<noteq> []\<close> by (cases ?rest) auto
  ultimately show ?thesis by (metis less_le_trans)
qed

text \<open>The rest of an attribute value, up to its quote; literal white space reads as a space.\<close>

function (sequential) read_value :: "string \<Rightarrow> (string \<times> string) option" where
  "read_value [] = None"
| "read_value (c # s) =
     (if c = quote then Some ([], s)
      else if c = CHR ''<'' then None
      else if c = CHR ''&'' then
        (case read_reference s of None \<Rightarrow> None
         | Some (d, r) \<Rightarrow> map_option (\<lambda>(v, r). (d # v, r)) (read_value r))
      else map_option (\<lambda>(v, r). ((if is_normalizable_whitespace c then CHR '' '' else c) # v, r)) (read_value s))"
  by pat_completeness auto
termination
  by (relation "measure length") (auto dest: read_reference_shorter)

lemma read_value_shorter: "read_value s = Some (v, r) \<Longrightarrow> length r < length s"
proof (induction s arbitrary: v r rule: read_value.induct)
  case (2 c s)
  then show ?case by (fastforce split: if_splits option.splits dest: read_reference_shorter)
qed simp

text \<open>The attributes of a start tag, whether the element is empty, and what follows the tag.\<close>

function (sequential) read_attributes :: "string \<Rightarrow> (attributes \<times> bool \<times> string) option" where
  "read_attributes [] = None"
| "read_attributes (c # s) =
     (if c = CHR ''>'' then Some ([], False, s)
      else if c = CHR ''/'' then (if take 1 s = ''>'' then Some ([], True, drop 1 s) else None)
      else if c = CHR '' '' then
        (let name = takeWhile name_char s; r = drop (length name) s
         in if name = [] then read_attributes s
            else if xml_name name \<and> take 2 r = ''='' @ [quote] then
              (case read_value (drop 2 r) of None \<Rightarrow> None
               | Some (v, r) \<Rightarrow> map_option (\<lambda>(as, t). ((name, v) # as, t)) (read_attributes r))
            else None)
      else None)"
  by pat_completeness auto
termination
  by (relation "measure length") (auto dest!: read_value_shorter)

lemma read_attributes_shorter: "read_attributes s = Some (as, e, r) \<Longrightarrow> length r < length s"
proof (induction s arbitrary: as e r rule: read_attributes.induct)
  case (2 c s)
  then show ?case by (fastforce simp: Let_def split: if_splits option.splits dest: read_value_shorter)
qed simp

function (sequential) read_tokens :: "string \<Rightarrow> token list option" where
  "read_tokens [] = Some []"
| "read_tokens (c # s) =
     (if c = CHR ''<'' then
        (if take 8 s = ''![CDATA['' then
           (case strstr (drop 8 s) '']]>'' of None \<Rightarrow> None
            | Some i \<Rightarrow> map_option ((@) (map Text_char (take i (drop 8 s)))) (read_tokens (drop (i + 3) (drop 8 s))))
         else if take 1 s = ''/'' then
           (let name = takeWhile name_char (drop 1 s); r = drop (length name + 1) s
            in if xml_name name \<and> take 1 r = ''>'' then map_option (Cons (Tag_close name)) (read_tokens (drop 1 r))
               else None)
         else
           (let name = takeWhile name_char s in
            if \<not> xml_name name then None
            else (case read_attributes (drop (length name) s) of None \<Rightarrow> None
              | Some (as, closed, r) \<Rightarrow>
                  map_option (\<lambda>ts. Tag_open name as # (if closed then [Tag_close name] else []) @ ts) (read_tokens r))))
      else if c = CHR ''&'' then
        (case read_reference s of None \<Rightarrow> None
         | Some (d, r) \<Rightarrow> map_option (Cons (Text_char d)) (read_tokens r))
      else if take 3 (c # s) = '']]>'' then None
      else map_option (Cons (Text_char c)) (read_tokens s))"
  by pat_completeness auto
termination
  by (relation "measure length") (auto dest!: read_reference_shorter read_attributes_shorter)

declare read_tokens.simps(2) [simp del] read_attributes.simps(2) [simp del]

subsection \<open>Elements\<close>

datatype xml = Element string attributes string "xml list"

type_synonym frame = "string \<times> attributes \<times> string \<times> xml list"

definition has_text :: "string \<Rightarrow> bool" where
  "has_text name \<longleftrightarrow> name = ''failure''"

definition is_xml_space :: "char \<Rightarrow> bool" where
  "is_xml_space c \<longleftrightarrow> c = CHR '' '' \<or> is_normalizable_whitespace c"

text \<open>The elements that are open, the innermost first.\<close>

fun build :: "frame list \<Rightarrow> token list \<Rightarrow> frame list option" where
  "build st [] = Some st"
| "build st (Tag_open n as # ts) = (if distinct (map fst as) then build ((n, as, [], []) # st) ts else None)"
| "build ((n, as, t, cs) # st) (Text_char c # ts) =
     (if has_text n then build ((n, as, t @ [c], cs) # st) ts
      else if is_xml_space c then build ((n, as, t, cs) # st) ts else None)"
| "build ((n, as, t, cs) # (n', as', t', cs') # st) (Tag_close m # ts) =
     (if m = n then build ((n', as', t', cs' @ [Element n as t cs]) # st) ts else None)"
| "build _ _ = None"

text \<open>A document: the declaration and one element.\<close>

definition read_document :: "string \<Rightarrow> xml option" where
  "read_document s =
     (if take (length xml_declaration) s \<noteq> xml_declaration then None
      else (case read_tokens (drop (length xml_declaration) s) of None \<Rightarrow> None
        | Some ts \<Rightarrow> (case build [([], [], [], [])] ts of
              Some [(_, _, _, [e])] \<Rightarrow> Some e
            | _ \<Rightarrow> None)))"

subsection \<open>Values\<close>

lemma string_stream_id: "nul \<notin> set s \<Longrightarrow> string_stream_to_string s = s"
  by (induction s) (auto simp: string_stream_to_string_def)

lemma valid_not_nul [simp]: "\<not> is_valid_xml_character nul"
  by (simp add: is_valid_xml_character_def is_normalizable_whitespace_def signed_char_def)

lemma char_codes:
  "char_of (57 :: nat) = CHR ''9''" "char_of (65 :: nat) = CHR ''A''" "char_of (68 :: nat) = CHR ''D''"
  "char_of (9 :: nat) = CHR 0x09" "char_of (10 :: nat) = CHR 0x0A" "char_of (13 :: nat) = CHR 0x0D"
  "char_of (48 :: nat) = CHR ''0''"
  by code_simp+

lemma whitespace_escapes: "format_byte 9 = ''09''" "format_byte 10 = ''0A''" "format_byte 13 = ''0D''"
  by (simp_all add: format_byte_def width2_def hex_of_nat.simps hex_digit_def char_codes)

lemma escaped_specials:
  "escape_xml_char a CHR ''<'' = ''&lt;''" "escape_xml_char a CHR ''>'' = ''&gt;''"
  "escape_xml_char a CHR ''&'' = ''&amp;''"
  "escape_xml_char a apostrophe = (if a then ''&apos;'' else [apostrophe])"
  "escape_xml_char a quote = (if a then ''&quot;'' else [quote])"
  by (simp_all add: escape_xml_char_def)

lemma escaped_whitespace:
  "escape_xml_char a CHR 0x09 = (if a then ''&#x09;'' else [CHR 0x09])"
  "escape_xml_char a CHR 0x0A = (if a then ''&#x0A;'' else [CHR 0x0A])"
  "escape_xml_char a CHR 0x0D = (if a then ''&#x0D;'' else [CHR 0x0D])"
  by (simp_all add: escape_xml_char_def is_valid_xml_character_def is_normalizable_whitespace_def whitespace_escapes)

lemma escaped_other:
  "c \<notin> {CHR ''<'', CHR ''>'', CHR ''&'', apostrophe, quote} \<Longrightarrow> \<not> is_normalizable_whitespace c \<Longrightarrow>
   escape_xml_char a c = filter is_valid_xml_character [c]"
  by (simp add: escape_xml_char_def)

lemma xml_char_cases:
  obtains "c = CHR ''<''" | "c = CHR ''>''" | "c = CHR ''&''" | "c = apostrophe" | "c = quote"
    | "c = CHR 0x09" | "c = CHR 0x0A" | "c = CHR 0x0D"
    | "c \<notin> {CHR ''<'', CHR ''>'', CHR ''&'', apostrophe, quote}" "\<not> is_normalizable_whitespace c"
  unfolding is_normalizable_whitespace_def by blast

lemma escape_char_plain: "nul \<notin> set (escape_xml_char a c)"
  by (cases c rule: xml_char_cases)
    (simp_all add: escaped_specials escaped_whitespace escaped_other, metis valid_not_nul)

lemma escape_xml_eq: "escape_xml s a = concat (map (escape_xml_char a) s)"
  unfolding escape_xml_def using escape_char_plain by (intro string_stream_id) auto

lemma read_reference_eq:
  "CHR '';'' \<notin> set name \<Longrightarrow> read_reference (name @ CHR '';'' # r) = map_option (\<lambda>c. (c, r)) (reference_char name)"
  by (simp add: read_reference_def takeWhile_append)

lemma references:
  "read_reference (CHR ''l'' # CHR ''t'' # CHR '';'' # r) = Some (CHR ''<'', r)"
  "read_reference (CHR ''g'' # CHR ''t'' # CHR '';'' # r) = Some (CHR ''>'', r)"
  "read_reference (CHR ''a'' # CHR ''m'' # CHR ''p'' # CHR '';'' # r) = Some (CHR ''&'', r)"
  "read_reference (CHR ''a'' # CHR ''p'' # CHR ''o'' # CHR ''s'' # CHR '';'' # r) = Some (apostrophe, r)"
  "read_reference (CHR ''q'' # CHR ''u'' # CHR ''o'' # CHR ''t'' # CHR '';'' # r) = Some (quote, r)"
  "read_reference (CHR ''#'' # CHR ''x'' # CHR ''0'' # CHR ''9'' # CHR '';'' # r) = Some (CHR 0x09, r)"
  "read_reference (CHR ''#'' # CHR ''x'' # CHR ''0'' # CHR ''A'' # CHR '';'' # r) = Some (CHR 0x0A, r)"
  "read_reference (CHR ''#'' # CHR ''x'' # CHR ''0'' # CHR ''D'' # CHR '';'' # r) = Some (CHR 0x0D, r)"
  using read_reference_eq [of "''lt''" r] read_reference_eq [of "''gt''" r] read_reference_eq [of "''amp''" r]
    read_reference_eq [of "''apos''" r] read_reference_eq [of "''quot''" r] read_reference_eq [of "''#x09''" r]
    read_reference_eq [of "''#x0A''" r] read_reference_eq [of "''#x0D''" r]
  by (simp_all add: reference_char_def is_xdigit_def is_digit_def between_def number_in_def xdigit_value_def char_codes)

lemma valid_specials [simp]:
  "is_valid_xml_character CHR ''<''" "is_valid_xml_character CHR ''>''" "is_valid_xml_character CHR ''&''"
  "is_valid_xml_character apostrophe" "is_valid_xml_character quote"
  by (simp_all add: is_valid_xml_character_def signed_char_def)

lemma read_value_plain:
  assumes "c \<noteq> quote" and "c \<noteq> CHR ''<''" and "c \<noteq> CHR ''&''" and "\<not> is_normalizable_whitespace c"
  shows "read_value (c # s) = map_option (\<lambda>(v, r). (c # v, r)) (read_value s)"
  using assms by simp

lemma read_value_reference:
  "read_reference s = Some (d, r) \<Longrightarrow>
   read_value (CHR ''&'' # s) = map_option (\<lambda>(v, r). (d # v, r)) (read_value r)"
  by simp

lemma valid_whitespace [simp]:
  "is_valid_xml_character CHR 0x09" "is_valid_xml_character CHR 0x0A" "is_valid_xml_character CHR 0x0D"
  by (simp_all add: is_valid_xml_character_def is_normalizable_whitespace_def)

lemma read_value_char:
  "read_value (escape_xml_char True c @ s) =
    map_option (\<lambda>(v, r). (filter is_valid_xml_character [c] @ v, r)) (read_value s)"
proof (cases c rule: xml_char_cases)
  case 9
  then show ?thesis
    by (cases "read_value s") (auto simp: escaped_other read_value_plain simp del: read_value.simps)
qed (simp_all add: escaped_specials escaped_whitespace read_value_reference references del: read_value.simps)

lemma read_value_escape:
  "read_value (escape_xml_attribute v @ quote # r) = Some (filter is_valid_xml_character v, r)"
proof (induction v)
  case (Cons c v)
  then show ?case
    using read_value_char [of c "escape_xml_attribute v @ quote # r"]
    by (simp add: escape_xml_attribute_def escape_xml_eq del: read_value.simps)
qed (simp add: escape_xml_attribute_def escape_xml_eq)

subsection \<open>Tags\<close>

definition attribute_text :: "string \<times> string \<Rightarrow> string" where
  "attribute_text a = '' '' @ fst a @ ''='' @ [quote] @ escape_xml_attribute (snd a) @ [quote]"

definition kept :: "string \<times> string \<Rightarrow> string \<times> string" where
  "kept a = (fst a, filter is_valid_xml_character (snd a))"

lemma not_name_chars [simp]:
  "\<not> name_char CHR ''=''" "\<not> name_char CHR ''>''" "\<not> name_char CHR ''/''" "\<not> name_char CHR '' ''"
  "\<not> name_char CHR ''!''"
  by (simp_all add: name_char_def is_alnum_def is_alpha_def is_lower_def is_upper_def is_digit_def between_def)

lemma take_name: "xml_name n \<Longrightarrow> \<not> name_char c \<Longrightarrow> takeWhile name_char (n @ c # s) = n"
  by (simp add: xml_name_def takeWhile_append2 list_all_iff)

lemma read_attributes_attribute:
  assumes "xml_name (fst a)"
  shows "read_attributes (attribute_text a @ s) = map_option (\<lambda>(as, t). (kept a # as, t)) (read_attributes s)"
proof -
  obtain n v where a: "a = (n, v)" by force
  have n: "takeWhile name_char (n @ CHR ''='' # quote # escape_xml_attribute v @ quote # s) = n" "n \<noteq> []"
    using assms by (simp_all add: a take_name xml_name_def)
  then show ?thesis using assms
    by (simp add: a attribute_text_def kept_def read_attributes.simps(2) read_value_escape Let_def del: read_value.simps)
qed

lemma read_attributes_all:
  "list_all xml_name (map fst as) \<Longrightarrow> read_attributes (concat (map attribute_text as) @ s) =
    map_option (\<lambda>(bs, t). (map kept as @ bs, t)) (read_attributes s)"
proof (induction as)
  case (Cons a as)
  then show ?case by (cases "read_attributes s") (auto simp: read_attributes_attribute)
qed (simp add: option.map_id)

lemma read_attributes_end:
  "read_attributes (CHR ''>'' # s) = Some ([], False, s)"
  "read_attributes (CHR '' '' # CHR ''/'' # CHR ''>'' # s) = Some ([], True, s)"
  by (simp_all add: read_attributes.simps(2))

lemma read_tokens_tag:
  assumes n: "xml_name n" and "\<not> name_char c"
  shows "read_tokens (CHR ''<'' # n @ c # r) =
    (case read_attributes (c # r) of None \<Rightarrow> None
     | Some (as, closed, r) \<Rightarrow>
         map_option (\<lambda>ts. Tag_open n as # (if closed then [Tag_close n] else []) @ ts) (read_tokens r))"
proof -
  have hd: "name_char (hd n)" "n \<noteq> []" using n by (cases n; auto simp: xml_name_def)+
  then have "take 8 (n @ c # r) \<noteq> ''![CDATA[''" "take 1 (n @ c # r) \<noteq> ''/''" by (cases n; auto)+
  then show ?thesis using assms by (simp add: read_tokens.simps(2) take_name)
qed

lemma read_tokens_open:
  assumes "xml_name n" and "list_all xml_name (map fst as)"
  shows "read_tokens (''<'' @ n @ concat (map attribute_text as) @ ''>'' @ s) =
      map_option (Cons (Tag_open n (map kept as))) (read_tokens s)"
    and "read_tokens (''<'' @ n @ concat (map attribute_text as) @ '' />'' @ s) =
      map_option (\<lambda>ts. Tag_open n (map kept as) # Tag_close n # ts) (read_tokens s)"
proof -
  obtain c r where cr: "concat (map attribute_text as) @ ''>'' @ s = c # r" "\<not> name_char c"
    by (cases as) (auto simp: attribute_text_def)
  then show "read_tokens (''<'' @ n @ concat (map attribute_text as) @ ''>'' @ s) =
      map_option (Cons (Tag_open n (map kept as))) (read_tokens s)"
    using read_tokens_tag [OF assms(1) cr(2), of r] read_attributes_all [OF assms(2), of "''>'' @ s"]
    by (simp add: read_attributes_end)
  obtain c r where cr: "concat (map attribute_text as) @ '' />'' @ s = c # r" "\<not> name_char c"
    by (cases as) (auto simp: attribute_text_def)
  then show "read_tokens (''<'' @ n @ concat (map attribute_text as) @ '' />'' @ s) =
      map_option (\<lambda>ts. Tag_open n (map kept as) # Tag_close n # ts) (read_tokens s)"
    using read_tokens_tag [OF assms(1) cr(2), of r] read_attributes_all [OF assms(2), of "'' />'' @ s"]
    by (simp add: read_attributes_end)
qed

lemma read_tokens_close:
  "xml_name n \<Longrightarrow> read_tokens (''</'' @ n @ ''>'' @ s) = map_option (Cons (Tag_close n)) (read_tokens s)"
  by (simp add: read_tokens.simps(2) take_name)

lemma read_tokens_plain:
  "c \<notin> {CHR ''<'', CHR ''&'', CHR '']''} \<Longrightarrow> read_tokens (c # s) = map_option (Cons (Text_char c)) (read_tokens s)"
  by (simp add: read_tokens.simps(2))

subsection \<open>CDATA sections\<close>

lemma strstr_Some:
  "strstr s m = Some i \<Longrightarrow> m \<noteq> [] \<Longrightarrow> s = take i s @ m @ drop (i + length m) s \<and> strstr (take i s) m = None"
proof (induction s arbitrary: i)
  case (Cons c s)
  show ?case
  proof (cases "take (length m) (c # s) = m")
    case True
    have "c # s = take (length m) (c # s) @ drop (length m) (c # s)" by (rule append_take_drop_id [symmetric])
    then show ?thesis using Cons.prems True by simp
  next
    case False
    then obtain j where j: "i = Suc j" "strstr s m = Some j" using Cons.prems(1) by auto
    have "take (length m) (take (Suc j) (c # s)) \<noteq> m"
    proof
      assume eq: "take (length m) (take (Suc j) (c # s)) = m"
      then have "length m \<le> length (take (Suc j) (c # s))" by (metis length_take min.cobounded1)
      then have "length m \<le> Suc j" by simp
      with eq False show False by (simp only: take_take min_absorb1 not_True_eq_False)
    qed
    with Cons.IH [OF j(2) Cons.prems(2)] j show ?thesis by simp
  qed
qed simp

lemma take3_append:
  assumes "take 3 (c # seg) \<noteq> '']]>''" shows "take 3 (c # seg @ '']]>'' @ s) \<noteq> '']]>''"
proof (cases seg)
  case (Cons d t)
  with assms show ?thesis by (cases t) simp_all
qed simp

lemma strstr_at_end: "strstr seg '']]>'' = None \<Longrightarrow> strstr (seg @ '']]>'' @ s) '']]>'' = Some (length seg)"
proof (induction seg)
  case (Cons c seg)
  have len: "length '']]>'' = 3" by simp
  from Cons.prems have "take 3 (c # seg) \<noteq> '']]>''" "strstr seg '']]>'' = None"
    by (simp_all only: strstr.simps len option.map_disc_iff split: if_splits) blast+
  then have "take 3 (c # seg @ '']]>'' @ s) \<noteq> '']]>''" "strstr (seg @ '']]>'' @ s) '']]>'' = Some (length seg)"
    using take3_append Cons.IH by blast+
  then show ?case by (simp only: append_Cons strstr.simps len if_False option.map list.size)
      (simp add: numeral_2_eq_2)
qed simp

lemma read_tokens_cdata:
  "read_tokens (''<![CDATA['' @ cdata_loop d @ '']]>'' @ s) = map_option ((@) (map Text_char d)) (read_tokens s)"
proof (induction d rule: cdata_loop.induct)
  case (1 d)
  have section_end: "read_tokens (''<![CDATA['' @ seg @ '']]>'' @ r) = map_option ((@) (map Text_char seg)) (read_tokens r)"
    if "strstr seg '']]>'' = None" for seg r
    using strstr_at_end [OF that, of r] by (simp add: read_tokens.simps(2))
  show ?case
  proof (cases "strstr d '']]>''")
    case None
    then show ?thesis using section_end by (simp add: cdata_loop.simps)
  next
    case (Some i)
    let ?rest = "drop (i + 3) d"
    have d: "d = take i d @ '']]>'' @ ?rest" and none: "strstr (take i d) '']]>'' = None"
      using strstr_Some [OF Some] by (simp_all add: numeral_3_eq_3)
    have gt: "read_tokens (CHR '']'' # CHR '']'' # CHR ''&'' # CHR ''g'' # CHR ''t'' # CHR '';'' # r) =
        map_option ((@) (map Text_char '']]>'')) (read_tokens r)" for r
      by (cases "read_tokens r") (simp_all add: read_tokens.simps(2) references)
    have "read_tokens (''<![CDATA['' @ cdata_loop d @ '']]>'' @ s) =
        map_option ((@) (map Text_char (take i d) @ map Text_char '']]>'' @ map Text_char ?rest)) (read_tokens s)"
      using section_end [OF none] gt 1 [OF Some]
      by (subst cdata_loop.simps) (cases "read_tokens s", simp_all add: Some)
    then show ?thesis by (subst (2) d) simp
  qed
qed

end
