(* ===== verification/Gtest_Report.thy ===== *)
theory Gtest_Report
  imports Xml_Reader
begin

text \<open>
  What the XML report says: the tree of elements for a run, as an abstract specification, and the
  proof that a reader of the printed document gets exactly this tree. A piece of text \<open>grows\<close> some
  elements when the reader, in an element without text of its own, adds them to its children; the
  law is compositional, so each printer is one lemma.
\<close>

subsection \<open>The tree of a report\<close>

definition xml_text :: "string \<Rightarrow> string" where
  "xml_text s = filter is_valid_xml_character s"

definition failure_element :: "test_part_result \<Rightarrow> xml" where
  "failure_element part = Element ''failure''
     [(''message'', xml_text (part_location part @ newline @ c_str (tp_summary part))), (''type'', [])]
     (xml_text (part_location part @ newline @ c_str (tp_message part))) []"

definition result_properties :: "test_result \<Rightarrow> attributes" where
  "result_properties r = map (\<lambda>(key, val). (c_str key, c_str val)) (rs_properties r)"

definition test_attributes :: "string \<Rightarrow> test_info \<Rightarrow> attributes" where
  "test_attributes test_case_name t =
     [(''name'', c_str (ti_name t))] @
     (case ti_value_param t of None \<Rightarrow> [] | Some v \<Rightarrow> [(''value_param'', c_str v)]) @
     (case ti_type_param t of None \<Rightarrow> [] | Some p \<Rightarrow> [(''type_param'', c_str p)]) @
     [(''status'', if ti_should_run t then ''run'' else ''notrun''),
      (''time'', format_time_in_millis_as_seconds (rs_elapsed_time (ti_result t))),
      (''classname'', c_str test_case_name)] @ result_properties (ti_result t)"

definition test_element :: "string \<Rightarrow> test_info \<Rightarrow> xml" where
  "test_element test_case_name t = Element ''testcase'' (map kept (test_attributes test_case_name t)) []
     (map failure_element (filter part_failed (rs_parts (ti_result t))))"

definition case_attributes :: "test_case \<Rightarrow> attributes" where
  "case_attributes c =
     [(''name'', c_str (tc_name c)), (''tests'', string_of_nat (reportable_test_count c)),
      (''failures'', string_of_nat (failed_test_count c)),
      (''disabled'', string_of_nat (reportable_disabled_test_count c)), (''errors'', ''0''),
      (''time'', format_time_in_millis_as_seconds (tc_elapsed_time c))] @ result_properties (tc_ad_hoc c)"

text \<open>The tests of a case in the order in which they ran.\<close>

definition ordered_tests :: "test_case \<Rightarrow> test_info list" where
  "ordered_tests c = map (\<lambda>i. tc_tests c ! nat i) (tc_indices c)"

definition case_element :: "test_case \<Rightarrow> xml" where
  "case_element c = Element ''testsuite'' (map kept (case_attributes c)) []
     (map (test_element (tc_name c)) (filter ti_matches_filter (ordered_tests c)))"

definition unit_attributes :: "(int \<Rightarrow> tm option) \<Rightarrow> unit_test \<Rightarrow> attributes" where
  "unit_attributes localtime u =
     (let cs = ut_cases u in
     [(''tests'', string_of_nat (sum_over_test_case_list reportable_test_count cs)),
      (''failures'', string_of_nat (sum_over_test_case_list failed_test_count cs)),
      (''disabled'', string_of_nat (sum_over_test_case_list reportable_disabled_test_count cs)),
      (''errors'', ''0''),
      (''timestamp'', format_epoch_time_in_millis_as_iso8601 localtime (ut_start_timestamp u)),
      (''time'', format_time_in_millis_as_seconds (ut_elapsed_time u))] @
     (if fl_shuffle (ut_flags u) then [(''random_seed'', string_of_int (ut_random_seed u))] else []) @
     result_properties (ut_ad_hoc u) @ [(''name'', ''AllTests'')])"

definition unit_element :: "(int \<Rightarrow> tm option) \<Rightarrow> unit_test \<Rightarrow> xml" where
  "unit_element localtime u = Element ''testsuites'' (map kept (unit_attributes localtime u)) []
     (map case_element (filter (\<lambda>c. 0 < reportable_test_count c) (ut_cases u)))"

text \<open>
  What a run keeps (\<open>record_property\<close> the properties, registration and shuffling the orders), but
  for the keys: they are printed as they are, so a reader needs them to be XML names.
\<close>

definition reportable_properties :: "string list \<Rightarrow> test_result \<Rightarrow> bool" where
  "reportable_properties reserved r \<longleftrightarrow>
     properties_ok reserved (rs_properties r) \<and> list_all xml_name (map fst (rs_properties r))"

definition reportable_case :: "test_case \<Rightarrow> bool" where
  "reportable_case c \<longleftrightarrow> mset (tc_indices c) = mset (map int [0..<length (tc_tests c)]) \<and>
     reportable_properties k_reserved_test_suite_attributes (tc_ad_hoc c) \<and>
     (\<forall>t \<in> set (tc_tests c). reportable_properties k_reserved_test_case_attributes (ti_result t))"

definition reportable_unit :: "unit_test \<Rightarrow> bool" where
  "reportable_unit u \<longleftrightarrow> mset (ut_indices u) = mset (map int [0..<length (ut_cases u)]) \<and>
     reportable_properties k_reserved_test_suites_attributes (ut_ad_hoc u) \<and>
     (\<forall>c \<in> set (ut_cases u). reportable_case c)"

subsection \<open>Pieces of a document\<close>

definition reads :: "string \<Rightarrow> token list \<Rightarrow> bool" where
  "reads p ts \<longleftrightarrow> (\<forall>s. read_tokens (p @ s) = map_option ((@) ts) (read_tokens s))"

definition grows :: "string \<Rightarrow> xml list \<Rightarrow> bool" where
  "grows p es \<longleftrightarrow> nul \<notin> set p \<and> (\<exists>ts. reads p ts \<and>
     (\<forall>n as t cs st us. \<not> has_text n \<longrightarrow> build ((n, as, t, cs) # st) (ts @ us) = build ((n, as, t, cs @ es) # st) us))"

lemma readsI:
  "(\<And>s. read_tokens (p @ s) = (case read_tokens s of None \<Rightarrow> None | Some us \<Rightarrow> Some (ts @ us))) \<Longrightarrow> reads p ts"
  by (auto simp: reads_def split: option.split)

lemma reads_append: "reads p ts \<Longrightarrow> reads q us \<Longrightarrow> reads (p @ q) (ts @ us)"
  by (rule readsI) (auto simp: reads_def split: option.split)

lemma grows_append:
  assumes "grows p es" and "grows q fs" shows "grows (p @ q) (es @ fs)"
proof -
  obtain ts us where "reads p ts" "reads q us"
    and b: "\<And>n as t cs st vs. \<not> has_text n \<Longrightarrow> build ((n, as, t, cs) # st) (ts @ vs) = build ((n, as, t, cs @ es) # st) vs"
      "\<And>n as t cs st vs. \<not> has_text n \<Longrightarrow> build ((n, as, t, cs) # st) (us @ vs) = build ((n, as, t, cs @ fs) # st) vs"
    using assms by (auto simp: grows_def)
  then have "reads (p @ q) (ts @ us)" by (auto intro: reads_append)
  moreover have "\<forall>n as t cs st vs. \<not> has_text n \<longrightarrow>
      build ((n, as, t, cs) # st) ((ts @ us) @ vs) = build ((n, as, t, cs @ (es @ fs)) # st) vs"
    using b by simp
  ultimately show ?thesis using assms unfolding grows_def by auto
qed

lemma grows_Nil [simp]: "grows [] []"
proof -
  have "reads [] []" by (rule readsI) (simp split: option.split)
  then show ?thesis by (auto simp: grows_def intro!: exI [of _ "[]"])
qed

lemma grows_concat:
  "(\<And>x. x \<in> set xs \<Longrightarrow> grows (f x) (g x)) \<Longrightarrow> grows (concat (map f xs)) (concat (map g xs))"
  by (induction xs) (auto intro: grows_append)

lemma grows_space_char:
  assumes "is_xml_space c" shows "grows [c] []"
proof -
  have "c \<notin> {CHR ''<'', CHR ''&'', CHR '']''}" and "c \<noteq> nul"
    using assms by (auto simp: is_xml_space_def is_normalizable_whitespace_def)
  then have "reads [c] [Text_char c]" by (intro readsI) (simp add: read_tokens_plain split: option.split)
  with assms \<open>c \<noteq> nul\<close> show ?thesis by (auto simp: grows_def intro!: exI [of _ "[Text_char c]"])
qed

lemma grows_space: "list_all is_xml_space p \<Longrightarrow> grows p []"
proof (induction p)
  case (Cons c p)
  then show ?case using grows_append [OF grows_space_char [of c], of p "[]"] by simp
qed simp

lemma build_text: "has_text n \<Longrightarrow>
  build ((n, as, t, cs) # st) (map Text_char x @ us) = build ((n, as, t @ x, cs) # st) us"
  by (induction x arbitrary: t) simp_all

lemma xml_name_plain: "xml_name n \<Longrightarrow> nul \<notin> set n"
  by (auto simp: xml_name_def list_all_iff name_char_def is_alnum_def is_alpha_def is_lower_def is_upper_def
      is_digit_def between_def)

lemma escaped_plain [simp]: "nul \<notin> set (escape_xml_attribute v)"
  by (simp add: escape_xml_attribute_def escape_xml_eq escape_char_plain)

lemma attributes_plain:
  "list_all xml_name (map fst as) \<Longrightarrow> nul \<notin> set (concat (map attribute_text as))"
  by (induction as) (auto simp: attribute_text_def xml_name_plain)

text \<open>Proper attributes of an element: names, each once.\<close>

definition proper :: "attributes \<Rightarrow> bool" where
  "proper as \<longleftrightarrow> list_all xml_name (map fst as) \<and> distinct (map fst as)"

lemma kept_names [simp]: "map fst (map kept as) = map fst as"
  by (simp add: kept_def)

lemma grows_element:
  assumes n: "xml_name n" "\<not> has_text n" and as: "proper as" and body: "grows body es"
  shows "grows (''<'' @ n @ concat (map attribute_text as) @ ''>'' @ body @ ''</'' @ n @ ''>'')
    [Element n (map kept as) [] es]"
proof -
  obtain ts where ts: "reads body ts" and plain: "nul \<notin> set body"
    and b: "\<And>n as t cs st vs. \<not> has_text n \<Longrightarrow> build ((n, as, t, cs) # st) (ts @ vs) = build ((n, as, t, cs @ es) # st) vs"
    using body by (auto simp: grows_def)
  let ?ts = "Tag_open n (map kept as) # ts @ [Tag_close n]"
  have "reads (''<'' @ n @ concat (map attribute_text as) @ ''>'' @ body @ ''</'' @ n @ ''>'') ?ts"
    unfolding reads_def
  proof
    fix s
    show "read_tokens ((''<'' @ n @ concat (map attribute_text as) @ ''>'' @ body @ ''</'' @ n @ ''>'') @ s) =
        map_option ((@) ?ts) (read_tokens s)"
      using read_tokens_open(1) [OF n(1), of as "body @ ''</'' @ n @ ''>'' @ s"] as ts read_tokens_close [OF n(1), of s]
      by (cases "read_tokens s") (simp_all add: reads_def proper_def)
  qed
  moreover have "build ((m, bs, t, cs) # st) (?ts @ us) = build ((m, bs, t, cs @ [Element n (map kept as) [] es]) # st) us"
    for m bs t cs st us using as b n(2) by (simp add: proper_def comp_def kept_def)
  ultimately show ?thesis using as plain xml_name_plain [OF n(1)] attributes_plain [of as]
    unfolding grows_def proper_def by (auto intro!: exI [of _ ?ts])
qed

lemma grows_empty_element:
  assumes n: "xml_name n" "\<not> has_text n" and as: "proper as"
  shows "grows (''<'' @ n @ concat (map attribute_text as) @ '' />'') [Element n (map kept as) [] []]"
proof -
  let ?ts = "[Tag_open n (map kept as), Tag_close n]"
  have "reads (''<'' @ n @ concat (map attribute_text as) @ '' />'') ?ts"
    unfolding reads_def
  proof
    fix s
    show "read_tokens ((''<'' @ n @ concat (map attribute_text as) @ '' />'') @ s) = map_option ((@) ?ts) (read_tokens s)"
      using read_tokens_open(2) [OF n(1), of as s] as by (cases "read_tokens s") (simp_all add: proper_def)
  qed
  moreover have "build ((m, bs, t, cs) # st) (?ts @ us) = build ((m, bs, t, cs @ [Element n (map kept as) [] []]) # st) us"
    for m bs t cs st us using as by (simp add: proper_def comp_def kept_def)
  ultimately show ?thesis using as xml_name_plain [OF n(1)] attributes_plain [of as]
    unfolding grows_def proper_def by (auto intro!: exI [of _ ?ts])
qed

lemma grows_text_element:
  assumes n: "xml_name n" "has_text n" and as: "proper as" and body: "reads body (map Text_char x)" "nul \<notin> set body"
  shows "grows (''<'' @ n @ concat (map attribute_text as) @ ''>'' @ body @ ''</'' @ n @ ''>'')
    [Element n (map kept as) x []]"
proof -
  let ?ts = "Tag_open n (map kept as) # map Text_char x @ [Tag_close n]"
  have "reads (''<'' @ n @ concat (map attribute_text as) @ ''>'' @ body @ ''</'' @ n @ ''>'') ?ts"
    unfolding reads_def
  proof
    fix s
    show "read_tokens ((''<'' @ n @ concat (map attribute_text as) @ ''>'' @ body @ ''</'' @ n @ ''>'') @ s) =
        map_option ((@) ?ts) (read_tokens s)"
      using read_tokens_open(1) [OF n(1), of as "body @ ''</'' @ n @ ''>'' @ s"] as body(1) read_tokens_close [OF n(1), of s]
      by (cases "read_tokens s") (simp_all add: reads_def proper_def)
  qed
  moreover have "build ((m, bs, t, cs) # st) (?ts @ us) = build ((m, bs, t, cs @ [Element n (map kept as) x []]) # st) us"
    for m bs t cs st us using as n(2) by (simp add: proper_def comp_def kept_def build_text)
  ultimately show ?thesis using as body(2) xml_name_plain [OF n(1)] attributes_plain [of as]
    unfolding grows_def proper_def by (auto intro!: exI [of _ ?ts])
qed

subsection \<open>The printers\<close>

lemma streamed_append:
  "streamed (xs @ ys) = (case streamed xs of Inl f \<Rightarrow> Inl f | Inr t \<Rightarrow> map_sum id ((@) t) (streamed ys))"
proof (induction xs)
  case Nil
  then show ?case by (cases "streamed ys") simp_all
next
  case (Cons x xs)
  then show ?case by (cases x; cases "streamed xs"; cases "streamed ys") simp_all
qed

lemma streamed_map:
  "(\<And>x. x \<in> set xs \<Longrightarrow> f x = Inr (g x)) \<Longrightarrow> streamed (map f xs) = Inr (concat (map g xs))"
  by (induction xs) simp_all

lemma output_attribute:
  "get_reserved_attributes_for_element e = Inr names \<Longrightarrow> n \<in> set names \<Longrightarrow>
   output_xml_attribute e n v = Inr (attribute_text (n, v))"
  by (simp add: output_xml_attribute_def attribute_text_def)

lemmas reserved_names = k_reserved_test_case_attributes_def k_reserved_test_suite_attributes_def
  k_reserved_test_suites_attributes_def

lemma reserved_of:
  "get_reserved_attributes_for_element ''testcase'' = Inr k_reserved_test_case_attributes"
  "get_reserved_attributes_for_element ''testsuite'' = Inr k_reserved_test_suite_attributes"
  "get_reserved_attributes_for_element ''testsuites'' = Inr k_reserved_test_suites_attributes"
  by (simp_all add: get_reserved_attributes_for_element_def)

lemma properties_text:
  "test_properties_as_xml_attributes r = concat (map attribute_text (result_properties r))"
proof -
  have "concat (map (\<lambda>(key, val). '' '' @ c_str key @ ''='' @ [quote] @ escape_xml_attribute (c_str val) @ [quote]) ps) =
      concat (map attribute_text (map (\<lambda>(key, val). (c_str key, c_str val)) ps))" for ps
    by (induction ps) (auto simp: attribute_text_def)
  moreover have "nul \<notin> set (concat (map attribute_text (map (\<lambda>(key, val). (c_str key, c_str val)) ps)))" for ps
    by (induction ps) (auto simp: attribute_text_def)
  ultimately show ?thesis
    unfolding test_properties_as_xml_attributes_def result_properties_def by (metis string_stream_id)
qed

lemma property_names:
  assumes "reportable_properties reserved r"
  shows "list_all xml_name (map fst (result_properties r))" and "distinct (map fst (result_properties r))"
    and "set (map fst (result_properties r)) \<inter> set reserved = {}"
proof -
  have "c_str k = k" if "(k, v) \<in> set (rs_properties r)" for k v
    using assms that by (intro c_str_id xml_name_plain) (force simp: reportable_properties_def list_all_iff)
  then have "map fst (result_properties r) = map fst (rs_properties r)" by (auto simp: result_properties_def)
  with assms show "list_all xml_name (map fst (result_properties r))" "distinct (map fst (result_properties r))"
    "set (map fst (result_properties r)) \<inter> set reserved = {}"
    by (auto simp: reportable_properties_def properties_ok_def)
qed

lemma xml_name_decide: "xml_name s \<longleftrightarrow> (case s of [] \<Rightarrow> False | c # _ \<Rightarrow>
   (is_alpha c \<or> c = CHR ''_'' \<or> c = CHR '':'') \<and> list_all name_char s)"
  by (auto simp: xml_name_def split: list.split)

lemma fixed_names:
  "xml_name ''testcase''" "xml_name ''testsuite''" "xml_name ''testsuites''" "xml_name ''failure''"
  "xml_name ''message''" "xml_name ''type''"
  "list_all xml_name k_reserved_test_case_attributes" "list_all xml_name k_reserved_test_suite_attributes"
  "list_all xml_name k_reserved_test_suites_attributes"
  by code_simp+

text \<open>Reserved names, each once, and recorded properties make proper attributes.\<close>

lemma proper_attributes:
  assumes "reportable_properties reserved r" and "distinct (map fst as)" and "set (map fst as) \<subseteq> set reserved"
    and "list_all xml_name reserved"
  shows "proper (as @ result_properties r)"
  using property_names [OF assms(1)] assms(2-) by (auto simp: proper_def list_all_iff)

lemma location_plain: "nul \<notin> set (part_location part)"
proof -
  have "nul \<notin> set (string_of_int i)" for i using string_of_int_plain by blast
  then show ?thesis
    by (auto simp: part_location_def format_compiler_independent_file_location_def Let_def split: option.split)
qed

lemma cdata_plain: "nul \<notin> set d \<Longrightarrow> nul \<notin> set (cdata_loop d)"
proof (induction d rule: cdata_loop.induct)
  case (1 d)
  then show ?case
    by (subst cdata_loop.simps) (auto split: option.split dest: in_set_takeD in_set_dropD)
qed

lemma grows_failure: "grows (output_xml_failure part) [failure_element part]"
proof -
  let ?summary = "part_location part @ newline @ c_str (tp_summary part)"
    and ?detail = "part_location part @ newline @ c_str (tp_message part)"
    and ?as = "[(''message'', part_location part @ newline @ c_str (tp_summary part)), (''type'', [])]"
  have newline: "nul \<notin> set newline" "list_all is_xml_space newline"
    by (simp_all add: newline_def is_xml_space_def is_normalizable_whitespace_def)
  have plain: "c_str ?summary = ?summary" "nul \<notin> set ?detail"
    using location_plain newline by (auto intro!: c_str_id)
  then have clean: "nul \<notin> set (xml_text ?detail)" by (simp add: xml_text_def)
  have "reads (output_xml_cdata_section (xml_text ?detail)) (map Text_char (xml_text ?detail))"
    using read_tokens_cdata [of "xml_text ?detail"] by (simp add: reads_def output_xml_cdata_section_def)
  moreover have "nul \<notin> set (output_xml_cdata_section (xml_text ?detail))"
    using cdata_plain [OF clean] by (simp add: output_xml_cdata_section_def)
  moreover have "proper ?as" by (simp add: proper_def fixed_names)
  ultimately have "grows (''<'' @ ''failure'' @ concat (map attribute_text ?as) @ ''>'' @
      output_xml_cdata_section (xml_text ?detail) @ ''</'' @ ''failure'' @ ''>'')
      [Element ''failure'' (map kept ?as) (xml_text ?detail) []]"
    by (intro grows_text_element) (simp_all add: fixed_names has_text_def)
  then have "grows (''      '' @ (''<'' @ ''failure'' @ concat (map attribute_text ?as) @ ''>'' @
      output_xml_cdata_section (xml_text ?detail) @ ''</'' @ ''failure'' @ ''>'') @ newline)
      ([] @ [Element ''failure'' (map kept ?as) (xml_text ?detail) []] @ [])"
    using newline(2) by (intro grows_append grows_space) (simp_all add: is_xml_space_def)
  moreover have "c_str (remove_invalid_xml_characters ?detail) = xml_text ?detail"
    using clean by (simp add: remove_invalid_xml_characters_def xml_text_def c_str_id)
  ultimately show ?thesis using plain(1)
    by (simp add: output_xml_failure_def failure_element_def attribute_text_def kept_def xml_text_def Let_def
        escape_xml_attribute_def escape_xml_eq)
qed

lemma output_parts:
  "output_xml_parts n parts =
    ((if filter part_failed parts \<noteq> [] \<and> n = 0 then ''>'' @ newline else []) @
      concat (map output_xml_failure (filter part_failed parts)), n + length (filter part_failed parts))"
  by (induction parts arbitrary: n) simp_all

text \<open>The element around what was printed for its children.\<close>

lemma grows_around:
  assumes "xml_name n" and "\<not> has_text n" and "proper as" and "grows body es"
    and "list_all is_xml_space before" and "list_all is_xml_space indent"
  shows "grows (before @ ''<'' @ n @ concat (map attribute_text as) @ ''>'' @ newline @ body @ indent @ ''</'' @ n @ ''>'' @ newline)
    [Element n (map kept as) [] es]"
proof -
  have newline: "list_all is_xml_space newline"
    by (simp add: newline_def is_xml_space_def is_normalizable_whitespace_def)
  then have "grows (newline @ body @ indent) ([] @ es @ [])" using assms by (intro grows_append grows_space)
  then have "grows (before @ (''<'' @ n @ concat (map attribute_text as) @ ''>'' @ (newline @ body @ indent) @ ''</'' @ n @ ''>'') @ newline)
      ([] @ [Element n (map kept as) [] es] @ [])"
    using assms newline by (intro grows_append grows_space grows_element) simp_all
  then show ?thesis by simp
qed

lemma grows_test:
  assumes "reportable_properties k_reserved_test_case_attributes (ti_result t)"
  shows "\<exists>p. output_xml_test_info name t = Inr p \<and> grows p [test_element name t]"
proof -
  let ?as = "test_attributes name t" and ?failed = "filter part_failed (rs_parts (ti_result t))"
  let ?tail = "if ?failed = [] then '' />'' @ newline
    else ''>'' @ newline @ concat (map output_xml_failure ?failed) @ ''    </testcase>'' @ newline"
  have printed: "output_xml_test_info name t = Inr (''    <testcase'' @ concat (map attribute_text ?as) @ ?tail)"
    by (simp add: output_xml_test_info_def output_attribute [OF reserved_of(1)] reserved_names test_attributes_def
        output_parts properties_text Let_def split: option.split)
  have proper: "proper ?as"
    unfolding test_attributes_def append.assoc [symmetric]
    by (rule proper_attributes [OF assms _ _ fixed_names(7)];
        cases "ti_value_param t"; cases "ti_type_param t") (simp_all add: reserved_names)
  have newline: "list_all is_xml_space newline" "list_all is_xml_space ''    ''"
    by (simp_all add: newline_def is_xml_space_def is_normalizable_whitespace_def)
  have name: "xml_name ''testcase''" "\<not> has_text ''testcase''" by (simp_all add: fixed_names has_text_def)
  have "grows (''    <testcase'' @ concat (map attribute_text ?as) @ ?tail) [test_element name t]"
  proof (cases "?failed = []")
    case True
    have "grows (''    '' @ (''<'' @ ''testcase'' @ concat (map attribute_text ?as) @ '' />'') @ newline)
        ([] @ [Element ''testcase'' (map kept ?as) [] []] @ [])"
      using grows_empty_element [OF name proper] newline by (intro grows_append grows_space)
    with True show ?thesis by (simp add: test_element_def)
  next
    case False
    have "grows (concat (map output_xml_failure ?failed)) (concat (map (\<lambda>p. [failure_element p]) ?failed))"
      by (rule grows_concat) (rule grows_failure)
    then have "grows (''    '' @ ''<'' @ ''testcase'' @ concat (map attribute_text ?as) @ ''>'' @ newline @
        concat (map output_xml_failure ?failed) @ ''    '' @ ''</'' @ ''testcase'' @ ''>'' @ newline)
        [Element ''testcase'' (map kept ?as) [] (map failure_element ?failed)]"
      using newline by (intro grows_around [OF name proper]) simp_all
    with False show ?thesis by (simp add: test_element_def)
  qed
  with printed show ?thesis by blast
qed

text \<open>A printer of several elements, some of which may be left out.\<close>

lemma grows_printed:
  assumes "\<And>x. x \<in> set xs \<Longrightarrow> \<exists>p. f x = Inr p \<and> grows p (g x)"
  shows "\<exists>p. streamed (map f xs) = Inr p \<and> grows p (concat (map g xs))"
proof -
  from assms have "\<forall>x. \<exists>p. x \<in> set xs \<longrightarrow> f x = Inr p \<and> grows p (g x)" by blast
  then obtain h where h: "\<And>x. x \<in> set xs \<Longrightarrow> f x = Inr (h x) \<and> grows (h x) (g x)" by metis
  then have "streamed (map f xs) = Inr (concat (map h xs))" by (intro streamed_map) blast
  moreover have "grows (concat (map h xs)) (concat (map g xs))" using h by (intro grows_concat) blast
  ultimately show ?thesis by blast
qed

lemma concat_filtered: "concat (map (\<lambda>x. if P x then [f x] else []) xs) = map f (filter P xs)"
  by (induction xs) simp_all

lemma get_test_info_in_order:
  assumes "mset (tc_indices c) = mset (map int [0..<length (tc_tests c)])" and "i < total_test_count c"
  shows "get_test_info (int i) c = Some (nat (tc_indices c ! i))" and "nat (tc_indices c ! i) < length (tc_tests c)"
    and "length (tc_indices c) = length (tc_tests c)"
proof -
  show len: "length (tc_indices c) = length (tc_tests c)" using mset_eq_length [OF assms(1)] by simp
  have "set (tc_indices c) = int ` {0..<length (tc_tests c)}" using mset_eq_setD [OF assms(1)] by simp
  moreover have "tc_indices c ! i \<in> set (tc_indices c)" using assms(2) len by (simp add: total_test_count_def)
  ultimately have "tc_indices c ! i \<in> int ` {0..<length (tc_tests c)}" by simp
  then show "get_test_info (int i) c = Some (nat (tc_indices c ! i))" "nat (tc_indices c ! i) < length (tc_tests c)"
    using assms(2) len by (auto simp: get_test_info_def get_element_or_def total_test_count_def)
qed

lemma grows_case:
  assumes "reportable_case c"
  shows "\<exists>p. print_xml_test_case c = Inr p \<and> grows p [case_element c]"
proof -
  have perm: "mset (tc_indices c) = mset (map int [0..<length (tc_tests c)])"
    and own: "reportable_properties k_reserved_test_suite_attributes (tc_ad_hoc c)"
    and tests: "\<And>t. t \<in> set (tc_tests c) \<Longrightarrow> reportable_properties k_reserved_test_case_attributes (ti_result t)"
    using assms by (auto simp: reportable_case_def)
  let ?at = "\<lambda>i. tc_tests c ! nat (tc_indices c ! i)" and ?as = "case_attributes c"
  let ?g = "\<lambda>i. if ti_matches_filter (?at i) then [test_element (tc_name c) (?at i)] else []"
  have "\<exists>p. print_xml_test c i = Inr p \<and> grows p (?g i)" if "i \<in> set [0..<total_test_count c]" for i
  proof -
    have i: "i < total_test_count c" using that by simp
    note order = get_test_info_in_order [OF perm i]
    show ?thesis
      using grows_test [OF tests [OF nth_mem [OF order(2)]], of "tc_name c"] by (simp add: print_xml_test_def order(1))
  qed
  then obtain p where p: "streamed (map (print_xml_test c) [0..<total_test_count c]) = Inr p"
    "grows p (concat (map ?g [0..<total_test_count c]))"
    using grows_printed [of "[0..<total_test_count c]" "print_xml_test c" ?g] by blast
  have order: "ordered_tests c = map ?at [0..<total_test_count c]"
    using mset_eq_length [OF perm] by (intro nth_equalityI) (simp_all add: ordered_tests_def total_test_count_def)
  have children: "concat (map ?g [0..<total_test_count c]) =
      map (test_element (tc_name c)) (filter ti_matches_filter (ordered_tests c))"
    using concat_filtered [of "\<lambda>i. ti_matches_filter (?at i)" "\<lambda>i. test_element (tc_name c) (?at i)"]
    by (simp add: order filter_map comp_def)
  have "print_xml_test_case c = Inr (''  '' @ ''<'' @ ''testsuite'' @ concat (map attribute_text ?as) @ ''>'' @ newline @
      p @ ''  '' @ ''</'' @ ''testsuite'' @ ''>'' @ newline)"
    by (simp add: print_xml_test_case_def streamed_append output_attribute [OF reserved_of(2)] reserved_names
        p(1) properties_text case_attributes_def)
  moreover have "proper ?as"
    unfolding case_attributes_def
    by (rule proper_attributes [OF own _ _ fixed_names(8)]) (simp_all add: reserved_names)
  then have "grows (''  '' @ ''<'' @ ''testsuite'' @ concat (map attribute_text ?as) @ ''>'' @ newline @
      p @ ''  '' @ ''</'' @ ''testsuite'' @ ''>'' @ newline) [case_element c]"
    using p(2) unfolding children case_element_def
    by (intro grows_around) (simp_all add: fixed_names has_text_def is_xml_space_def)
  ultimately show ?thesis by blast
qed

lemma unit_attributes_proper:
  assumes "reportable_properties k_reserved_test_suites_attributes (ut_ad_hoc u)"
  shows "proper (unit_attributes localtime u)"
proof -
  have "proper (unit_attributes localtime u) \<longleftrightarrow>
      proper (((if fl_shuffle (ut_flags u) then [(''random_seed'', string_of_int (ut_random_seed u))] else []) @
        map (\<lambda>n. (n, [])) [''tests'', ''failures'', ''disabled'', ''errors'', ''timestamp'', ''time'', ''name'']) @
        result_properties (ut_ad_hoc u))"
    by (auto simp: unit_attributes_def Let_def proper_def)
  also have "\<dots>"
    by (rule proper_attributes [OF assms _ _ fixed_names(9)]; cases "fl_shuffle (ut_flags u)") (simp_all add: reserved_names)
  finally show ?thesis .
qed

theorem report_is_read:
  assumes "reportable_unit u"
  shows "\<exists>doc. print_xml_unit_test localtime u = Inr doc \<and> nul \<notin> set doc \<and>
    read_document doc = Some (unit_element localtime u)"
proof -
  have perm: "mset (ut_indices u) = mset (map int [0..<length (ut_cases u)])"
    and own: "reportable_properties k_reserved_test_suites_attributes (ut_ad_hoc u)"
    and cases: "\<And>c. c \<in> set (ut_cases u) \<Longrightarrow> reportable_case c"
    using assms by (auto simp: reportable_unit_def)
  let ?n = "length (ut_cases u)" and ?at = "\<lambda>i. ut_cases u ! i" and ?as = "unit_attributes localtime u"
  let ?g = "\<lambda>i. if 0 < reportable_test_count (?at i) then [case_element (?at i)] else []"
  have "\<exists>p. print_xml_case u i = Inr p \<and> grows p (?g i)" if "i \<in> set [0..<?n]" for i
  proof -
    have "ut_indices u ! i \<in> set (ut_indices u)" "i < length (ut_indices u)" using mset_eq_length [OF perm] that by auto
    moreover have "set (ut_indices u) = int ` {0..<?n}" using mset_eq_setD [OF perm] by simp
    ultimately have "get_test_case (int i) u = Some i" by (auto simp: get_test_case_def get_element_or_def)
    with grows_case [OF cases [of "?at i"]] that show ?thesis by (simp add: print_xml_case_def)
  qed
  then obtain p where p: "streamed (map (print_xml_case u) [0..<?n]) = Inr p" "grows p (concat (map ?g [0..<?n]))"
    using grows_printed [of "[0..<?n]" "print_xml_case u" ?g] by blast
  have "concat (map ?g [0..<?n]) = map case_element (filter (\<lambda>c. 0 < reportable_test_count c) (map ?at [0..<?n]))"
    using concat_filtered [of "\<lambda>i. 0 < reportable_test_count (?at i)" "\<lambda>i. case_element (?at i)"]
    by (simp add: filter_map comp_def)
  then have children: "concat (map ?g [0..<?n]) = map case_element (filter (\<lambda>c. 0 < reportable_test_count c) (ut_cases u))"
    by (simp add: map_nth)
  let ?root = "[] @ ''<'' @ ''testsuites'' @ concat (map attribute_text ?as) @ ''>'' @ newline @ p @ [] @ ''</'' @ ''testsuites'' @ ''>'' @ newline"
  have printed: "print_xml_unit_test localtime u = Inr (xml_declaration @ ?root)"
    by (simp add: print_xml_unit_test_def streamed_append output_attribute [OF reserved_of(3)] reserved_names
        p(1) properties_text unit_attributes_def Let_def)
  have "grows ?root [unit_element localtime u]"
    using p(2) unit_attributes_proper [OF own] unfolding children unit_element_def
    by (intro grows_around) (simp_all add: fixed_names has_text_def)
  then obtain ts where ts: "reads ?root ts" "nul \<notin> set ?root"
    and b: "\<And>n as t cs st us. \<not> has_text n \<Longrightarrow>
      build ((n, as, t, cs) # st) (ts @ us) = build ((n, as, t, cs @ [unit_element localtime u]) # st) us"
    unfolding grows_def by blast
  have "read_tokens ?root = Some ts" using ts(1) unfolding reads_def by (drule_tac x = "[]" in spec) simp
  moreover have "build [([], [], [], [])] ts = Some [([], [], [], [unit_element localtime u])]"
    using b [of "[]" "[]" "[]" "[]" "[]" "[]"] by (simp add: has_text_def)
  ultimately have "read_document (xml_declaration @ ?root) = Some (unit_element localtime u)"
    by (simp only: read_document_def append_eq_conv_conj) simp
  moreover have "nul \<notin> set xml_declaration" by (simp add: xml_declaration_def newline_def)
  ultimately show ?thesis using printed ts(2) by (metis Un_iff set_append)
qed

subsection \<open>The end of an iteration\<close>

text \<open>How a report may end: written as the tree says, or given up because the file system refused.\<close>

lemma report_outcomes:
  assumes "reportable_unit u" and "directory_exists fs s ''./''"
  shows "\<exists>s' result. on_test_iteration_end fs localtime output_file u s = Some (s', result) \<and>
    (\<exists>r. create_directories_recursively fs (remove_file_name (file_path output_file)) s = Some r \<and>
      (if snd r \<and> snd (fs_open fs (c_str output_file) (fst r))
       then \<exists>doc. result = Written (c_str output_file) doc \<and> read_document doc = Some (unit_element localtime u)
       else \<exists>text. result = Exited text))"
proof -
  let ?dir = "remove_file_name (file_path output_file)"
  have "path_ok ?dir" by (simp add: remove_file_name_def file_path_ok)
  then obtain r where r: "create_directories_recursively fs ?dir s = Some r"
    using create_directories_ends [of fs s ?dir] assms(2) by blast
  obtain doc where doc: "print_xml_unit_test localtime u = Inr doc" "nul \<notin> set doc"
    "read_document doc = Some (unit_element localtime u)"
    using report_is_read [OF assms(1), of localtime] by blast
  obtain s' ok where open_file: "fs_open fs (c_str output_file) (fst r) = (s', ok)" by fastforce
  from doc show ?thesis
    by (cases ok; cases "snd r")
      (auto simp: open_file on_test_iteration_end_def r string_stream_id c_str_id split: bool.splits)
qed

text \<open>Only the characters of ASCII survive in the report.\<close>

lemma ascii_only: "is_valid_xml_character c \<Longrightarrow> (of_char c :: nat) < 128"
proof -
  assume valid: "is_valid_xml_character c"
  have "(of_char c :: int) < 256" by (simp add: of_char_def)
  show ?thesis
  proof (rule ccontr)
    assume "\<not> (of_char c :: nat) < 128"
    then have "\<not> (of_char c :: int) < 128" by (metis of_nat_less_iff of_nat_numeral of_nat_of_char)
    with valid show False using \<open>(of_char c :: int) < 256\<close>
      by (auto simp: is_valid_xml_character_def is_normalizable_whitespace_def signed_char_def)
  qed
qed

end
