(* ===== verification/Gtest_Events.thy ===== *)
theory Gtest_Events
  imports Gtest_Run
begin

text \<open>
  The listeners of test events (\<open>TestEventRepeater\<close> and \<open>TestEventListeners\<close> in
  \<open>gtest/src/gtest.cc\<close>): the list, the order in which events are forwarded, the two default
  listeners and what is deleted when. A listener is a pointer, \<open>None\<close> for \<open>NULL\<close> and otherwise the
  number of an object; \<open>ls_deleted\<close> holds the objects that were deleted. The theory proves that
  with the documented use no deleted listener is in the list or called, that none is deleted
  twice, and that each event reaches exactly the attached listeners, in the order of their
  attachment or the reverse.
\<close>

type_synonym listener = "nat option"

subsection \<open>The repeater\<close>

record repeater =
  rp_forwarding :: bool
  rp_listeners :: "listener list"

definition new_repeater :: repeater where
  "new_repeater = \<lparr>rp_forwarding = True, rp_listeners = []\<rparr>"

definition repeater_append :: "listener \<Rightarrow> repeater \<Rightarrow> repeater" where
  "repeater_append l rp = rp\<lparr>rp_listeners := rp_listeners rp @ [l]\<rparr>"

fun erase_first :: "'a \<Rightarrow> 'a list \<Rightarrow> ('a list) option" where
  "erase_first x [] = None"
| "erase_first x (y # ys) = (if y = x then Some ys else map_option (Cons y) (erase_first x ys))"

definition repeater_release :: "listener \<Rightarrow> repeater \<Rightarrow> repeater \<times> listener" where
  "repeater_release l rp =
     (case erase_first l (rp_listeners rp) of
        Some ls \<Rightarrow> (rp\<lparr>rp_listeners := ls\<rparr>, l)
      | None \<Rightarrow> (rp, None))"

text \<open>The events of \<open>GTEST_REVERSE_REPEATER_METHOD_\<close>, and the end of an iteration.\<close>

fun reversed_event :: "event \<Rightarrow> bool" where
  "reversed_event Environments_set_up_end = True"
| "reversed_event Environments_tear_down_end = True"
| "reversed_event (Test_end _ _) = True"
| "reversed_event (Test_case_end _) = True"
| "reversed_event Test_program_end = True"
| "reversed_event (Test_iteration_end _) = True"
| "reversed_event _ = False"

text \<open>The calls of one event: a null pointer in the list ends the process.\<close>

fun call_each :: "event \<Rightarrow> listener list \<Rightarrow> fault + (nat \<times> event) list" where
  "call_each e [] = Inr []"
| "call_each e (None # ls) = Inl Null_dereference"
| "call_each e (Some l # ls) = map_sum id (Cons (l, e)) (call_each e ls)"

definition repeater_forward :: "event \<Rightarrow> repeater \<Rightarrow> fault + (nat \<times> event) list" where
  "repeater_forward e rp =
     (if rp_forwarding rp
      then call_each e (if reversed_event e then rev (rp_listeners rp) else rp_listeners rp) else Inr [])"

subsection \<open>The listeners of a unit test\<close>

record listeners =
  ls_repeater :: repeater
  ls_printer :: listener
  ls_xml :: listener
  ls_deleted :: "nat list"

definition new_listeners :: listeners where
  "new_listeners = \<lparr>ls_repeater = new_repeater, ls_printer = None, ls_xml = None, ls_deleted = []\<rparr>"

text \<open>\<open>delete\<close> does nothing to a null pointer; deleting twice has no defined behaviour.\<close>

definition delete_listener :: "listener \<Rightarrow> listeners \<Rightarrow> fault + listeners" where
  "delete_listener l ls =
     (case l of
        None \<Rightarrow> Inr ls
      | Some n \<Rightarrow> if n \<in> set (ls_deleted ls) then Inl Invalid_iterator
          else Inr (ls\<lparr>ls_deleted := n # ls_deleted ls\<rparr>))"

definition append_listener :: "listener \<Rightarrow> listeners \<Rightarrow> listeners" where
  "append_listener l ls = ls\<lparr>ls_repeater := repeater_append l (ls_repeater ls)\<rparr>"

definition release_listener :: "listener \<Rightarrow> listeners \<Rightarrow> listeners \<times> listener" where
  "release_listener l ls =
     (let ls = (if l = ls_printer ls then ls\<lparr>ls_printer := None\<rparr>
                else if l = ls_xml ls then ls\<lparr>ls_xml := None\<rparr> else ls)
      in case repeater_release l (ls_repeater ls) of (rp, released) \<Rightarrow> (ls\<lparr>ls_repeater := rp\<rparr>, released))"

definition set_default_result_printer :: "listener \<Rightarrow> listeners \<Rightarrow> fault + listeners" where
  "set_default_result_printer l ls =
     (if ls_printer ls \<noteq> l then
        (case release_listener (ls_printer ls) ls of (ls, released) \<Rightarrow>
           (case delete_listener released ls of
              Inl f \<Rightarrow> Inl f
            | Inr ls \<Rightarrow>
                let ls = ls\<lparr>ls_printer := l\<rparr>
                in Inr (if l \<noteq> None then append_listener l ls else ls)))
      else Inr ls)"

definition set_default_xml_generator :: "listener \<Rightarrow> listeners \<Rightarrow> fault + listeners" where
  "set_default_xml_generator l ls =
     (if ls_xml ls \<noteq> l then
        (case release_listener (ls_xml ls) ls of (ls, released) \<Rightarrow>
           (case delete_listener released ls of
              Inl f \<Rightarrow> Inl f
            | Inr ls \<Rightarrow>
                let ls = ls\<lparr>ls_xml := l\<rparr>
                in Inr (if l \<noteq> None then append_listener l ls else ls)))
      else Inr ls)"

definition event_forwarding_enabled :: "listeners \<Rightarrow> bool" where
  "event_forwarding_enabled ls \<longleftrightarrow> rp_forwarding (ls_repeater ls)"

definition suppress_event_forwarding :: "listeners \<Rightarrow> listeners" where
  "suppress_event_forwarding ls = ls\<lparr>ls_repeater := (ls_repeater ls)\<lparr>rp_forwarding := False\<rparr>\<rparr>"

text \<open>The destructor deletes the repeater, which deletes each of its listeners.\<close>

fun delete_each :: "listener list \<Rightarrow> listeners \<Rightarrow> fault + listeners" where
  "delete_each [] ls = Inr ls"
| "delete_each (l # rest) ls = (case delete_listener l ls of Inl f \<Rightarrow> Inl f | Inr ls \<Rightarrow> delete_each rest ls)"

definition destroy_listeners :: "listeners \<Rightarrow> fault + listeners" where
  "destroy_listeners ls = delete_each (rp_listeners (ls_repeater ls)) ls"

subsection \<open>The configuration of the listeners by flags\<close>

text \<open>
  \<open>ConfigureXmlOutput\<close>: \<open>fresh\<close> is the printer that \<open>new\<close> makes for the output file. Yields what is
  printed on the standard output.
\<close>

definition configure_xml_output :: "string \<Rightarrow> nat \<Rightarrow> listeners \<Rightarrow> fault + listeners \<times> string" where
  "configure_xml_output output_format fresh ls =
     (if output_format = ''xml'' then map_sum id (\<lambda>ls. (ls, [])) (set_default_xml_generator (Some fresh) ls)
      else if output_format \<noteq> [] then
        Inr (ls, ''WARNING: unrecognized output format '' @ [quote] @ c_str output_format @ [quote] @ '' ignored.'' @ newline)
      else Inr (ls, []))"

text \<open>\<open>ConfigureStreamingOutput\<close>: also yields the host and the port of the new listener.\<close>

definition configure_streaming_output ::
  "gtest_flags \<Rightarrow> nat \<Rightarrow> listeners \<Rightarrow> listeners \<times> (string \<times> string) option \<times> string" where
  "configure_streaming_output flags fresh ls =
     (let target = fl_stream_result_to flags
      in if target \<noteq> [] then
           (case dropWhile (\<lambda>c. c \<noteq> CHR '':'') target of
              _ # port \<Rightarrow> (append_listener (Some fresh) ls, Some (takeWhile (\<lambda>c. c \<noteq> CHR '':'') target, port), [])
            | [] \<Rightarrow> (ls, None, ''WARNING: unrecognized streaming target '' @ [quote] @ c_str target @ [quote] @
                '' ignored.'' @ newline))
         else (ls, None, []))"

subsection \<open>Operations of the client\<close>

datatype listener_op =
    Append nat
  | Release listener
  | Set_printer listener
  | Set_xml listener
  | Suppress

fun listener_step :: "fault + listeners \<Rightarrow> listener_op \<Rightarrow> fault + listeners" where
  "listener_step (Inl f) op = Inl f"
| "listener_step (Inr ls) (Append n) = Inr (append_listener (Some n) ls)"
| "listener_step (Inr ls) (Release l) = Inr (fst (release_listener l ls))"
| "listener_step (Inr ls) (Set_printer l) = set_default_result_printer l ls"
| "listener_step (Inr ls) (Set_xml l) = set_default_xml_generator l ls"
| "listener_step (Inr ls) Suppress = Inr (suppress_event_forwarding ls)"

text \<open>The documented use: what is attached is an object that is neither attached nor deleted.\<close>

definition attachable :: "listeners \<Rightarrow> nat \<Rightarrow> bool" where
  "attachable ls n \<longleftrightarrow> Some n \<notin> set (rp_listeners (ls_repeater ls)) \<and> n \<notin> set (ls_deleted ls)"

fun op_allowed :: "fault + listeners \<Rightarrow> listener_op \<Rightarrow> bool" where
  "op_allowed (Inr ls) (Append n) = attachable ls n"
| "op_allowed (Inr ls) (Set_printer l) = (l = ls_printer ls \<or> (case l of None \<Rightarrow> True | Some n \<Rightarrow> attachable ls n))"
| "op_allowed (Inr ls) (Set_xml l) = (l = ls_xml ls \<or> (case l of None \<Rightarrow> True | Some n \<Rightarrow> attachable ls n))"
| "op_allowed _ _ = True"

definition listeners_ok :: "listeners \<Rightarrow> bool" where
  "listeners_ok ls \<longleftrightarrow>
     (let attached = rp_listeners (ls_repeater ls) in
      None \<notin> set attached \<and> distinct attached \<and> distinct (ls_deleted ls) \<and>
      (\<forall>n \<in> set (ls_deleted ls). Some n \<notin> set attached) \<and>
      (ls_printer ls = None \<or> ls_printer ls \<in> set attached) \<and> (ls_xml ls = None \<or> ls_xml ls \<in> set attached) \<and>
      (ls_printer ls = None \<or> ls_printer ls \<noteq> ls_xml ls))"

lemma erase_first_eq: "erase_first x ys = (if x \<in> set ys then Some (remove1 x ys) else None)"
  by (induction ys) auto

lemma release_eq:
  "listeners_ok ls \<Longrightarrow> release_listener l ls =
    (ls\<lparr>ls_printer := if l = ls_printer ls then None else ls_printer ls,
        ls_xml := if l \<noteq> ls_printer ls \<and> l = ls_xml ls then None else ls_xml ls,
        ls_repeater := (ls_repeater ls)\<lparr>rp_listeners := remove1 l (rp_listeners (ls_repeater ls))\<rparr>\<rparr>,
     if l \<in> set (rp_listeners (ls_repeater ls)) then l else None)"
  by (simp add: release_listener_def repeater_release_def erase_first_eq remove1_idem Let_def)

subsection \<open>The invariant\<close>

lemma listeners_okD:
  assumes "listeners_ok ls"
  shows "None \<notin> set (rp_listeners (ls_repeater ls))" "distinct (rp_listeners (ls_repeater ls))" "distinct (ls_deleted ls)"
    "n \<in> set (ls_deleted ls) \<Longrightarrow> Some n \<notin> set (rp_listeners (ls_repeater ls))"
  using assms by (auto simp: listeners_ok_def Let_def)

lemma append_ok: "listeners_ok ls \<Longrightarrow> attachable ls n \<Longrightarrow> listeners_ok (append_listener (Some n) ls)"
  by (auto simp: listeners_ok_def attachable_def append_listener_def repeater_append_def Let_def)

lemma release_ok:
  assumes "listeners_ok ls"
  shows "listeners_ok (fst (release_listener l ls))"
    and "l \<notin> set (rp_listeners (ls_repeater (fst (release_listener l ls))))"
    and "ls_deleted (fst (release_listener l ls)) = ls_deleted ls"
    and "set (rp_listeners (ls_repeater (fst (release_listener l ls)))) \<subseteq> set (rp_listeners (ls_repeater ls))"
    and "snd (release_listener l ls) = (if l \<in> set (rp_listeners (ls_repeater ls)) then l else None)"
    and "l = ls_printer ls \<Longrightarrow> ls_printer (fst (release_listener l ls)) = None"
    and "l = ls_xml ls \<Longrightarrow> l \<noteq> None \<Longrightarrow> ls_xml (fst (release_listener l ls)) = None"
  using assms by (auto simp: release_eq listeners_ok_def Let_def)

lemma delete_released:
  assumes "listeners_ok ls" and "l \<notin> set (rp_listeners (ls_repeater ls))" and "\<And>n. l = Some n \<Longrightarrow> n \<notin> set (ls_deleted ls)"
  obtains ls' where "delete_listener l ls = Inr ls'" and "listeners_ok ls'" and "ls_repeater ls' = ls_repeater ls"
    and "ls_printer ls' = ls_printer ls" and "ls_xml ls' = ls_xml ls"
    and "set (ls_deleted ls') = set (ls_deleted ls) \<union> {n. l = Some n}"
proof (cases l)
  case None
  then show ?thesis using that assms by (simp add: delete_listener_def)
next
  case (Some n)
  have "listeners_ok (ls\<lparr>ls_deleted := n # ls_deleted ls\<rparr>)"
    using assms Some by (auto simp: listeners_ok_def Let_def)
  then show ?thesis using that [of "ls\<lparr>ls_deleted := n # ls_deleted ls\<rparr>"] assms Some by (simp add: delete_listener_def)
qed

text \<open>The common part of the two setters: the old default listener is released and deleted.\<close>

lemma replace_default:
  assumes ok: "listeners_ok ls" and old: "old = None \<or> old \<in> set (rp_listeners (ls_repeater ls))"
  obtains ls' where "(case release_listener old ls of (ls, released) \<Rightarrow> delete_listener released ls) = Inr ls'"
    and "listeners_ok ls'" and "\<And>n. attachable ls n \<Longrightarrow> attachable ls' n"
    and "ls_printer ls' = ls_printer (fst (release_listener old ls))" and "ls_xml ls' = ls_xml (fst (release_listener old ls))"
proof -
  obtain ls1 released where r: "release_listener old ls = (ls1, released)" by fastforce
  note rel = release_ok [OF ok, of old, unfolded r fst_conv snd_conv]
  have "released = old" using rel(5) old by auto
  moreover have "n \<notin> set (ls_deleted ls1)" if "old = Some n" for n
    using old listeners_okD(4) [OF ok, of n] rel(3) that by auto
  ultimately obtain ls2 where ls2: "delete_listener released ls1 = Inr ls2" "listeners_ok ls2"
      "ls_repeater ls2 = ls_repeater ls1" "ls_printer ls2 = ls_printer ls1" "ls_xml ls2 = ls_xml ls1"
      "set (ls_deleted ls2) = set (ls_deleted ls1) \<union> {n. old = Some n}"
    using delete_released [OF rel(1), of released] rel(2) by blast
  have "attachable ls2 n" if "attachable ls n" for n
    using that ls2(3,6) rel(3,4) old by (auto simp: attachable_def)
  then show ?thesis using that [of ls2] ls2 r by simp
qed

lemma attach_default:
  assumes "listeners_ok ls" and "\<And>n. l = Some n \<Longrightarrow> attachable ls n"
  shows "listeners_ok (if l \<noteq> None then append_listener l (ls\<lparr>ls_printer := l\<rparr>) else ls\<lparr>ls_printer := l\<rparr>)"
    and "listeners_ok (if l \<noteq> None then append_listener l (ls\<lparr>ls_xml := l\<rparr>) else ls\<lparr>ls_xml := l\<rparr>)"
  using assms
  by (cases l; auto simp: listeners_ok_def attachable_def append_listener_def repeater_append_def Let_def)+

lemma set_printer_ok:
  assumes ok: "listeners_ok ls" and allowed: "op_allowed (Inr ls) (Set_printer l)"
  shows "\<exists>ls'. set_default_result_printer l ls = Inr ls' \<and> listeners_ok ls' \<and> ls_printer ls' = l"
proof (cases "ls_printer ls = l")
  case False
  have "ls_printer ls = None \<or> ls_printer ls \<in> set (rp_listeners (ls_repeater ls))"
    using ok by (auto simp: listeners_ok_def Let_def)
  then obtain ls1 where ls1: "(case release_listener (ls_printer ls) ls of (ls, released) \<Rightarrow> delete_listener released ls) = Inr ls1"
      "listeners_ok ls1" "\<And>n. attachable ls n \<Longrightarrow> attachable ls1 n"
      "ls_printer ls1 = ls_printer (fst (release_listener (ls_printer ls) ls))"
    using replace_default [OF ok] by blast
  have "ls_printer ls1 = None" using ls1(4) release_ok(6) [OF ok, of "ls_printer ls"] by simp
  have "set_default_result_printer l ls =
      Inr (if l \<noteq> None then append_listener l (ls1\<lparr>ls_printer := l\<rparr>) else ls1\<lparr>ls_printer := l\<rparr>)"
    using ls1(1) False by (auto simp: set_default_result_printer_def Let_def split: prod.splits)
  moreover have "listeners_ok (if l \<noteq> None then append_listener l (ls1\<lparr>ls_printer := l\<rparr>) else ls1\<lparr>ls_printer := l\<rparr>)"
    using allowed False ls1(3) by (intro attach_default ls1(2)) auto
  ultimately show ?thesis by (auto simp: append_listener_def)
qed (use ok in \<open>simp add: set_default_result_printer_def\<close>)

lemma set_xml_ok:
  assumes ok: "listeners_ok ls" and allowed: "op_allowed (Inr ls) (Set_xml l)"
  shows "\<exists>ls'. set_default_xml_generator l ls = Inr ls' \<and> listeners_ok ls' \<and> ls_xml ls' = l"
proof (cases "ls_xml ls = l")
  case False
  have "ls_xml ls = None \<or> ls_xml ls \<in> set (rp_listeners (ls_repeater ls))"
    using ok by (auto simp: listeners_ok_def Let_def)
  then obtain ls1 where ls1: "(case release_listener (ls_xml ls) ls of (ls, released) \<Rightarrow> delete_listener released ls) = Inr ls1"
      "listeners_ok ls1" "\<And>n. attachable ls n \<Longrightarrow> attachable ls1 n"
    using replace_default [OF ok] by blast
  have "set_default_xml_generator l ls =
      Inr (if l \<noteq> None then append_listener l (ls1\<lparr>ls_xml := l\<rparr>) else ls1\<lparr>ls_xml := l\<rparr>)"
    using ls1(1) False by (auto simp: set_default_xml_generator_def Let_def split: prod.splits)
  moreover have "listeners_ok (if l \<noteq> None then append_listener l (ls1\<lparr>ls_xml := l\<rparr>) else ls1\<lparr>ls_xml := l\<rparr>)"
    using allowed False ls1(3) by (intro attach_default ls1(2)) auto
  ultimately show ?thesis by (auto simp: append_listener_def)
qed (use ok in \<open>simp add: set_default_xml_generator_def\<close>)

interpretation listening: step_system listener_step op_allowed "\<lambda>w. \<exists>ls. w = Inr ls \<and> listeners_ok ls"
proof
  fix w op
  assume "\<exists>ls. w = Inr ls \<and> listeners_ok ls" and allowed: "op_allowed w op"
  then obtain ls where w: "w = Inr ls" and ok: "listeners_ok ls" by blast
  show "\<exists>ls'. listener_step w op = Inr ls' \<and> listeners_ok ls'"
  proof (cases op)
    case (Set_printer l)
    then show ?thesis using set_printer_ok [OF ok, of l] allowed w by auto
  next
    case (Set_xml l)
    then show ?thesis using set_xml_ok [OF ok, of l] allowed w by auto
  next
    case Suppress
    then show ?thesis using ok w by (auto simp: suppress_event_forwarding_def listeners_ok_def)
  qed (use ok allowed w append_ok release_ok(1) in auto)
qed

subsection \<open>What the listeners hear\<close>

lemma call_each_eq: "call_each e (map Some ns) = Inr (map (\<lambda>n. (n, e)) ns)"
  by (induction ns) simp_all

lemma attached_list:
  assumes "listeners_ok ls"
  obtains ns where "rp_listeners (ls_repeater ls) = map Some ns" and "distinct ns" and "set ns \<inter> set (ls_deleted ls) = {}"
proof -
  let ?ns = "map the (rp_listeners (ls_repeater ls))"
  have some: "map Some ?ns = rp_listeners (ls_repeater ls)"
    using listeners_okD(1) [OF assms] unfolding map_map by (intro map_idI) (metis comp_apply option.collapse)
  moreover have "distinct ?ns" using listeners_okD(2) [OF assms] by (metis some distinct_map)
  moreover have "set ?ns \<inter> set (ls_deleted ls) = {}"
  proof -
    have "Some n \<in> set (rp_listeners (ls_repeater ls))" if "n \<in> set ?ns" for n
      using that by (metis some image_eqI list.set_map)
    then show ?thesis using listeners_okD(4) [OF assms] by blast
  qed
  ultimately show ?thesis using that by metis
qed

text \<open>The calls that a list of events makes.\<close>

fun forward_all :: "repeater \<Rightarrow> event list \<Rightarrow> fault + (nat \<times> event) list" where
  "forward_all rp [] = Inr []"
| "forward_all rp (e # es) =
     (case repeater_forward e rp of Inl f \<Rightarrow> Inl f | Inr calls \<Rightarrow> map_sum id ((@) calls) (forward_all rp es))"

lemma forward_eq:
  assumes "rp_listeners rp = map Some ns" and "rp_forwarding rp"
  shows "repeater_forward e rp = Inr (map (\<lambda>n. (n, e)) (if reversed_event e then rev ns else ns))"
  using assms call_each_eq [of e "rev ns"] by (simp add: repeater_forward_def call_each_eq rev_map)

lemma heard_by:
  assumes "rp_listeners rp = map Some ns" and "rp_forwarding rp" and "distinct ns" and "n \<in> set ns"
  shows "\<exists>calls. forward_all rp es = Inr calls \<and> map snd (filter (\<lambda>c. fst c = n) calls) = es"
proof (induction es)
  case (Cons e es)
  then obtain calls where calls: "forward_all rp es = Inr calls" "map snd (filter (\<lambda>c. fst c = n) calls) = es" by blast
  have once: "filter (\<lambda>c. fst c = n) (map (\<lambda>m. (m, e)) ms) = [(n, e)]" if "distinct ms" "n \<in> set ms" for ms
    using that by (induction ms) (auto simp: filter_empty_conv)
  have "filter (\<lambda>c. fst c = n) (map (\<lambda>m. (m, e)) (if reversed_event e then rev ns else ns)) = [(n, e)]"
    using assms(3,4) by (intro once) auto
  with calls show ?case using forward_eq [OF assms(1,2), of e] by simp
qed simp

lemma delete_each_eq:
  "distinct (ns @ ls_deleted ls) \<Longrightarrow> \<exists>ls'. delete_each (map Some ns) ls = Inr ls' \<and>
    set (ls_deleted ls') = set ns \<union> set (ls_deleted ls) \<and> distinct (ls_deleted ls')"
proof (induction ns arbitrary: ls)
  case (Cons n ns)
  let ?ls = "ls\<lparr>ls_deleted := n # ls_deleted ls\<rparr>"
  have "delete_listener (Some n) ls = Inr ?ls" using Cons.prems by (simp add: delete_listener_def)
  moreover have "distinct (ns @ ls_deleted ?ls)" using Cons.prems by auto
  ultimately show ?case using Cons.IH [of ?ls] by auto
qed auto

end
