(* ===== verification/Gtest_Streaming.thy ===== *)
theory Gtest_Streaming
  imports Gtest_Run Gtest_Printers
begin

text \<open>
  The listener that streams results to a socket (\<open>StreamingListener\<close> in \<open>gtest-internal-inl.h\<close> and
  \<open>gtest.cc\<close>), and the file that marks a premature exit (\<open>ScopedPrematureExitFile\<close>). The network is
  a parameter: the addresses that \<open>getaddrinfo\<close> finds, whether \<open>socket\<close> and \<open>connect\<close> succeed for
  each, and how many bytes a \<open>write\<close> takes. The theory proves that a receiver which cuts the stream
  into lines and fields gets every field of every message, and that a listener without a
  connection ends the process.
\<close>

subsection \<open>Messages\<close>

definition url_encode :: "string \<Rightarrow> string" where
  "url_encode str = concat (map (\<lambda>ch.
     if ch = CHR ''%'' \<or> ch = CHR ''='' \<or> ch = CHR ''&'' \<or> ch = CHR 0x0A
     then ''%'' @ format_byte (of_char ch) else [ch]) str)"

definition format_bool :: "bool \<Rightarrow> string" where
  "format_bool b = (if b then ''1'' else ''0'')"

definition elapsed :: "int \<Rightarrow> string" where
  "elapsed time = string_of_int time @ ''ms''"

text \<open>The calls of the listener, with what the handlers read of their arguments.\<close>

datatype streaming_call =
    Streaming_start
  | On_test_program_start
  | On_test_program_end unit_test
  | On_test_iteration_start int
  | On_test_iteration_end unit_test
  | On_test_case_start test_case
  | On_test_case_end test_case
  | On_test_start test_info
  | On_test_end test_info
  | On_test_part_result test_part_result

fun streaming_message :: "streaming_call \<Rightarrow> string" where
  "streaming_message Streaming_start = ''gtest_streaming_protocol_version=1.0''"
| "streaming_message On_test_program_start = ''event=TestProgramStart''"
| "streaming_message (On_test_program_end u) =
     ''event=TestProgramEnd&passed='' @ format_bool (\<not> unit_failed u)"
| "streaming_message (On_test_iteration_start iteration) =
     ''event=TestIterationStart&iteration='' @ string_of_int iteration"
| "streaming_message (On_test_iteration_end u) =
     ''event=TestIterationEnd&passed='' @ format_bool (\<not> unit_failed u) @ ''&elapsed_time='' @ elapsed (ut_elapsed_time u)"
| "streaming_message (On_test_case_start c) = ''event=TestCaseStart&name='' @ c_str (tc_name c)"
| "streaming_message (On_test_case_end c) =
     ''event=TestCaseEnd&passed='' @ format_bool (\<not> case_failed c) @ ''&elapsed_time='' @ elapsed (tc_elapsed_time c)"
| "streaming_message (On_test_start t) = ''event=TestStart&name='' @ c_str (ti_name t)"
| "streaming_message (On_test_end t) =
     ''event=TestEnd&passed='' @ format_bool (result_passed (ti_result t)) @
     ''&elapsed_time='' @ elapsed (rs_elapsed_time (ti_result t))"
| "streaming_message (On_test_part_result part) =
     (let file_name = (case map_option c_str (part_file_name part) of None \<Rightarrow> [] | Some f \<Rightarrow> f)
      in ''event=TestPartResult&file='' @ url_encode file_name @
         ''&line='' @ string_of_int (tp_line_number part) @
         ''&message='' @ url_encode (c_str (tp_message part)))"

subsection \<open>The connection\<close>

record socket_writer =
  sw_connected :: bool
  sw_sent :: string
  sw_log :: "string list"

text \<open>
  \<open>MakeConnection\<close>: the addresses in order, each with whether a socket can be made and whether it
  connects; the loop stops at the first connection.
\<close>

fun connect_first :: "(bool \<times> bool) list \<Rightarrow> bool" where
  "connect_first [] = False"
| "connect_first ((has_socket, connects) # addresses) = (if has_socket \<and> connects then True else connect_first addresses)"

definition make_connection ::
  "string option \<Rightarrow> (bool \<times> bool) list \<Rightarrow> string \<Rightarrow> string \<Rightarrow> socket_writer \<Rightarrow> fault + socket_writer" where
  "make_connection address_error addresses host port w =
     (if sw_connected w then Inl Assertion_failure
      else let w = (case address_error of None \<Rightarrow> w
               | Some text \<Rightarrow> w\<lparr>sw_log := sw_log w @ [''stream_result_to: getaddrinfo() failed: '' @ text]\<rparr>);
             connected = connect_first addresses;
             w = w\<lparr>sw_connected := connected\<rparr>
        in Inr (if \<not> connected
             then w\<lparr>sw_log := sw_log w @ [''stream_result_to: failed to connect to '' @ host @ '':'' @ port]\<rparr> else w))"

text \<open>\<open>Send\<close>: \<open>write\<close> takes some of the bytes; a short write is only logged.\<close>

definition send_bytes :: "(string \<Rightarrow> nat) \<Rightarrow> string \<Rightarrow> string \<Rightarrow> string \<Rightarrow> socket_writer \<Rightarrow> fault + socket_writer" where
  "send_bytes written host port text w =
     (if \<not> sw_connected w then Inl Assertion_failure
      else let w' = w\<lparr>sw_sent := sw_sent w @ take (written text) text\<rparr>
        in Inr (if written text \<noteq> length text
             then w'\<lparr>sw_log := sw_log w' @ [''stream_result_to: failed to stream to '' @ host @ '':'' @ port]\<rparr> else w'))"

definition send_ln where
  "send_ln written host port text w = send_bytes written host port (text @ newline) w"

definition close_connection :: "socket_writer \<Rightarrow> fault + socket_writer" where
  "close_connection w = (if \<not> sw_connected w then Inl Assertion_failure else Inr (w\<lparr>sw_connected := False\<rparr>))"

definition on_streaming_call ::
  "(string \<Rightarrow> nat) \<Rightarrow> string \<Rightarrow> string \<Rightarrow> streaming_call \<Rightarrow> socket_writer \<Rightarrow> fault + socket_writer" where
  "on_streaming_call written host port call w =
     (case send_ln written host port (streaming_message call) w of
        Inl f \<Rightarrow> Inl f
      | Inr w \<Rightarrow> (case call of On_test_program_end _ \<Rightarrow> close_connection w | _ \<Rightarrow> Inr w))"

text \<open>The constructor: connects, and says which protocol it speaks.\<close>

definition make_streaming_listener ::
  "(string \<Rightarrow> nat) \<Rightarrow> string option \<Rightarrow> (bool \<times> bool) list \<Rightarrow> string \<Rightarrow> string \<Rightarrow> fault + socket_writer" where
  "make_streaming_listener written address_error addresses host port =
     (case make_connection address_error addresses host port \<lparr>sw_connected = False, sw_sent = [], sw_log = []\<rparr> of
        Inl f \<Rightarrow> Inl f
      | Inr w \<Rightarrow> on_streaming_call written host port Streaming_start w)"

fun on_streaming_calls where
  "on_streaming_calls written host port [] w = Inr w"
| "on_streaming_calls written host port (call # calls) w =
     (case on_streaming_call written host port call w of
        Inl f \<Rightarrow> Inl f
      | Inr w \<Rightarrow> on_streaming_calls written host port calls w)"

subsection \<open>The file that marks a premature exit\<close>

text \<open>
  The constructor, with whether the file could be opened, and the destructor, which removes it:
  the files that are there. The result of \<open>FOpen\<close> is not tested before it is written to.
\<close>

definition create_premature_exit_file :: "string option \<Rightarrow> bool \<Rightarrow> string set \<Rightarrow> fault + string set" where
  "create_premature_exit_file filepath opens files =
     (case filepath of
        None \<Rightarrow> Inr files
      | Some p \<Rightarrow> if p = [] then Inr files else if opens then Inr (insert p files) else Inl Null_dereference)"

definition remove_premature_exit_file :: "string option \<Rightarrow> string set \<Rightarrow> string set" where
  "remove_premature_exit_file filepath files =
     (case filepath of None \<Rightarrow> files | Some p \<Rightarrow> if p = [] then files else files - {p})"

subsection \<open>A receiver\<close>

text \<open>A text cut at each occurrence of a character.\<close>

fun split_at :: "char \<Rightarrow> string \<Rightarrow> string list" where
  "split_at c [] = [[]]"
| "split_at c (d # s) = (if d = c then [] # split_at c s else (d # hd (split_at c s)) # tl (split_at c s))"

function url_decode :: "string \<Rightarrow> string" where
  "url_decode [] = []"
| "url_decode (c # s) =
     (if c = CHR ''%'' then char_of (number_in 16 (take 2 s)) # url_decode (drop 2 s) else c # url_decode s)"
  by pat_completeness auto
termination
  by (relation "measure length") auto

text \<open>The fields of a line, with their decoded values.\<close>

definition read_field :: "string \<Rightarrow> string \<times> string" where
  "read_field s = (takeWhile (\<lambda>c. c \<noteq> CHR ''='') s, url_decode (drop 1 (dropWhile (\<lambda>c. c \<noteq> CHR ''='') s)))"

definition read_line :: "string \<Rightarrow> (string \<times> string) list" where
  "read_line line = map read_field (split_at CHR ''&'' line)"

definition read_stream :: "string \<Rightarrow> (string \<times> string) list list" where
  "read_stream s = map read_line (butlast (split_at CHR 0x0A s))"

text \<open>What each message says.\<close>

fun streaming_fields :: "streaming_call \<Rightarrow> (string \<times> string) list" where
  "streaming_fields Streaming_start = [(''gtest_streaming_protocol_version'', ''1.0'')]"
| "streaming_fields On_test_program_start = [(''event'', ''TestProgramStart'')]"
| "streaming_fields (On_test_program_end u) =
     [(''event'', ''TestProgramEnd''), (''passed'', format_bool (\<not> unit_failed u))]"
| "streaming_fields (On_test_iteration_start iteration) =
     [(''event'', ''TestIterationStart''), (''iteration'', string_of_int iteration)]"
| "streaming_fields (On_test_iteration_end u) =
     [(''event'', ''TestIterationEnd''), (''passed'', format_bool (\<not> unit_failed u)),
      (''elapsed_time'', elapsed (ut_elapsed_time u))]"
| "streaming_fields (On_test_case_start c) = [(''event'', ''TestCaseStart''), (''name'', c_str (tc_name c))]"
| "streaming_fields (On_test_case_end c) =
     [(''event'', ''TestCaseEnd''), (''passed'', format_bool (\<not> case_failed c)),
      (''elapsed_time'', elapsed (tc_elapsed_time c))]"
| "streaming_fields (On_test_start t) = [(''event'', ''TestStart''), (''name'', c_str (ti_name t))]"
| "streaming_fields (On_test_end t) =
     [(''event'', ''TestEnd''), (''passed'', format_bool (result_passed (ti_result t))),
      (''elapsed_time'', elapsed (rs_elapsed_time (ti_result t)))]"
| "streaming_fields (On_test_part_result part) =
     [(''event'', ''TestPartResult''),
      (''file'', (case map_option c_str (part_file_name part) of None \<Rightarrow> [] | Some f \<Rightarrow> f)),
      (''line'', string_of_int (tp_line_number part)), (''message'', c_str (tp_message part))]"

text \<open>Names are sent as they are, so they must not contain what the receiver cuts at.\<close>

definition sendable :: "string \<Rightarrow> bool" where
  "sendable s \<longleftrightarrow> list_all (\<lambda>c. c \<notin> {CHR ''%'', CHR ''='', CHR ''&'', CHR 0x0A}) s"

fun sendable_call :: "streaming_call \<Rightarrow> bool" where
  "sendable_call (On_test_case_start c) = sendable (c_str (tc_name c))"
| "sendable_call (On_test_start t) = sendable (c_str (ti_name t))"
| "sendable_call _ = True"

subsection \<open>The receiver gets what was sent\<close>

lemma byte_formats:
  "format_byte 37 = ''25''" "format_byte 61 = ''3D''" "format_byte 38 = ''26''" "format_byte 10 = ''0A''"
  by code_simp+

lemma read_bytes:
  "char_of (number_in 16 ''25'') = CHR ''%''" "char_of (number_in 16 ''3D'') = CHR ''=''"
  "char_of (number_in 16 ''26'') = CHR ''&''" "char_of (number_in 16 ''0A'') = CHR 0x0A"
  by code_simp+

lemma encode_cases:
  obtains "c = CHR ''%''" | "c = CHR ''=''" | "c = CHR ''&''" | "c = CHR 0x0A"
    | "c \<notin> {CHR ''%'', CHR ''='', CHR ''&'', CHR 0x0A}" by blast

lemma url_encode_Cons:
  "url_encode (CHR ''%'' # s) = ''%25'' @ url_encode s" "url_encode (CHR ''='' # s) = ''%3D'' @ url_encode s"
  "url_encode (CHR ''&'' # s) = ''%26'' @ url_encode s" "url_encode (CHR 0x0A # s) = ''%0A'' @ url_encode s"
  "c \<notin> {CHR ''%'', CHR ''='', CHR ''&'', CHR 0x0A} \<Longrightarrow> url_encode (c # s) = c # url_encode s"
  by (simp_all add: url_encode_def byte_formats)

lemma url_decode_encode: "url_decode (url_encode s) = s"
proof (induction s)
  case (Cons c s)
  then show ?case by (cases c rule: encode_cases) (simp_all add: url_encode_Cons read_bytes)
qed (simp add: url_encode_def)

lemma url_encode_chars: "set (url_encode s) \<inter> {CHR ''='', CHR ''&'', CHR 0x0A} = {}"
proof (induction s)
  case (Cons c s)
  then show ?case by (cases c rule: encode_cases) (simp_all add: url_encode_Cons)
qed (simp add: url_encode_def)

lemma url_encode_sendable: "sendable s \<Longrightarrow> url_encode s = s"
proof (induction s)
  case (Cons c s)
  then show ?case by (simp add: sendable_def url_encode_Cons)
qed (simp add: url_encode_def)

fun joined :: "char \<Rightarrow> string list \<Rightarrow> string" where
  "joined c [] = []"
| "joined c [x] = x"
| "joined c (x # y # xs) = x @ c # joined c (y # xs)"

lemma split_at_append: "c \<notin> set x \<Longrightarrow> split_at c (x @ c # s) = x # split_at c s"
  by (induction x) auto

lemma split_at_whole: "c \<notin> set x \<Longrightarrow> split_at c x = [x]"
  by (induction x) auto

lemma split_at_joined: "xs \<noteq> [] \<Longrightarrow> \<forall>x \<in> set xs. c \<notin> set x \<Longrightarrow> split_at c (joined c xs) = xs"
  by (induction c xs rule: joined.induct) (simp_all add: split_at_append split_at_whole)

lemma split_at_lines: "\<forall>x \<in> set xs. c \<notin> set x \<Longrightarrow> split_at c (concat (map (\<lambda>x. x @ [c]) xs)) = xs @ [[]]"
  by (induction xs) (simp_all add: split_at_append)

definition field_text :: "string \<times> string \<Rightarrow> string" where
  "field_text f = fst f @ ''='' @ url_encode (snd f)"

lemma read_field_text: "CHR ''='' \<notin> set (fst f) \<Longrightarrow> read_field (field_text f) = f"
proof -
  assume k: "CHR ''='' \<notin> set (fst f)"
  have "takeWhile (\<lambda>c. c \<noteq> CHR ''='') (k @ CHR ''='' # r) = k \<and>
      dropWhile (\<lambda>c. c \<noteq> CHR ''='') (k @ CHR ''='' # r) = CHR ''='' # r" if "CHR ''='' \<notin> set k" for k r
    using that by (induction k) auto
  from this [OF k] show ?thesis by (simp add: read_field_def field_text_def url_decode_encode)
qed

lemma digits_sendable: "sendable (string_of_int i)" "sendable (elapsed i)" "sendable (format_bool b)" "sendable ''1.0''"
proof -
  have "sendable (string_of_nat n)" for n
    using string_of_nat_decimal [of n] by (auto simp: sendable_def list_all_iff is_digit_def between_def)
  then show "sendable (string_of_int i)" "sendable (elapsed i)" "sendable (format_bool b)" "sendable ''1.0''"
    by (simp_all add: string_of_int_def elapsed_def format_bool_def sendable_def)
qed

lemma event_names:
  "sendable ''TestProgramStart''" "sendable ''TestProgramEnd''" "sendable ''TestIterationStart''"
  "sendable ''TestIterationEnd''" "sendable ''TestCaseStart''" "sendable ''TestCaseEnd''" "sendable ''TestStart''"
  "sendable ''TestEnd''" "sendable ''TestPartResult''"
  by (simp_all add: sendable_def)

lemma message_text:
  "sendable_call call \<Longrightarrow> streaming_message call = joined CHR ''&'' (map field_text (streaming_fields call))"
  by (cases call)
    (simp_all add: field_text_def Let_def url_encode_sendable digits_sendable event_names split: option.split)

lemma field_keys:
  "f \<in> set (streaming_fields call) \<Longrightarrow> set (fst f) \<inter> {CHR ''='', CHR ''&'', CHR 0x0A} = {}"
  by (cases call) auto

lemma field_text_chars:
  assumes "f \<in> set (streaming_fields call)"
  shows "CHR ''&'' \<notin> set (field_text f)" and "CHR 0x0A \<notin> set (field_text f)"
  using field_keys [OF assms] url_encode_chars [of "snd f"] by (auto simp: field_text_def)

lemma joined_set: "set (joined c xs) \<subseteq> {c} \<union> \<Union> (set ` set xs)"
  by (induction c xs rule: joined.induct) auto

lemma read_line_message: "sendable_call call \<Longrightarrow> read_line (streaming_message call) = streaming_fields call"
proof -
  assume "sendable_call call"
  moreover have "streaming_fields call \<noteq> []" by (cases call) simp_all
  ultimately have "split_at CHR ''&'' (streaming_message call) = map field_text (streaming_fields call)"
    using field_text_chars(1) by (simp add: message_text split_at_joined)
  moreover have "read_field (field_text f) = f" if "f \<in> set (streaming_fields call)" for f
    using field_keys [OF that] by (intro read_field_text) auto
  ultimately show ?thesis by (simp add: read_line_def map_idI)
qed

lemma read_stream_messages:
  assumes "\<forall>call \<in> set calls. sendable_call call"
  shows "read_stream (concat (map (\<lambda>call. streaming_message call @ newline) calls)) = map streaming_fields calls"
proof -
  have "CHR 0x0A \<notin> set (streaming_message call)" if "call \<in> set calls" for call
    using assms that joined_set [of "CHR ''&''" "map field_text (streaming_fields call)"] field_text_chars(2) [of _ call]
    by (auto simp: message_text)
  then have "split_at CHR 0x0A (concat (map (\<lambda>x. x @ [CHR 0x0A]) (map streaming_message calls))) =
      map streaming_message calls @ [[]]"
    by (intro split_at_lines) auto
  then show ?thesis using assms by (simp add: read_stream_def newline_def comp_def read_line_message)
qed

lemma calls_sent:
  assumes "\<And>t. written t = length t"
  shows "\<forall>call \<in> set calls. \<forall>u. call \<noteq> On_test_program_end u \<Longrightarrow> sw_connected w \<Longrightarrow>
    on_streaming_calls written host port calls w =
      Inr (w\<lparr>sw_sent := sw_sent w @ concat (map (\<lambda>call. streaming_message call @ newline) calls)\<rparr>)"
proof (induction calls arbitrary: w)
  case (Cons call calls)
  have "on_streaming_call written host port call w = Inr (w\<lparr>sw_sent := sw_sent w @ streaming_message call @ newline\<rparr>)"
    using Cons.prems assms
    by (auto simp: on_streaming_call_def send_ln_def send_bytes_def split: streaming_call.split)
  with Cons show ?case by simp
qed simp

end
