(* ===== verification/Gtest_Console.thy ===== *)
theory Gtest_Console
  imports Gtest_Report
begin

text \<open>
  The printer of test events on the standard output (\<open>PrettyUnitTestResultPrinter\<close> in
  \<open>gtest/src/gtest.cc\<close>), with its colours. A handler yields the text that it prints. Whether the
  process prints in colours is decided once, at the first coloured text; it is the parameter
  \<open>colors\<close>, with \<open>should_use_color\<close> as the decision. The theory proves that the list of failed
  tests names each of them once and that its length is the number that is printed.
\<close>

subsection \<open>Colours\<close>

definition get_ansi_color_code :: "gtest_color \<Rightarrow> string option" where
  "get_ansi_color_code color =
     (case color of
        Color_red \<Rightarrow> Some ''1''
      | Color_green \<Rightarrow> Some ''2''
      | Color_yellow \<Rightarrow> Some ''3''
      | Color_default \<Rightarrow> None)"

definition should_use_color :: "environment \<Rightarrow> gtest_flags \<Rightarrow> bool \<Rightarrow> bool" where
  "should_use_color env flags stdout_is_tty =
     (let gtest_color = Some (c_str (fl_color flags))
      in if case_insensitive_c_string_equals gtest_color (Some ''auto'') then
           (let term = env ''TERM'';
                term_supports_color = (c_string_equals term (Some ''xterm'') \<or>
                  c_string_equals term (Some ''xterm-color'') \<or> c_string_equals term (Some ''xterm-256color'') \<or>
                  c_string_equals term (Some ''screen'') \<or> c_string_equals term (Some ''screen-256color'') \<or>
                  c_string_equals term (Some ''linux'') \<or> c_string_equals term (Some ''cygwin''))
            in stdout_is_tty \<and> term_supports_color)
         else case_insensitive_c_string_equals gtest_color (Some ''yes'') \<or>
           case_insensitive_c_string_equals gtest_color (Some ''true'') \<or>
           case_insensitive_c_string_equals gtest_color (Some ''t'') \<or>
           c_string_equals gtest_color (Some ''1''))"

definition escape_character :: char where "escape_character = CHR 0x1B"

definition colored_printf :: "bool \<Rightarrow> gtest_color \<Rightarrow> string \<Rightarrow> string" where
  "colored_printf in_color_mode color printed =
     (if \<not> (in_color_mode \<and> color \<noteq> Color_default) then printed
      else [escape_character] @ ''[0;3'' @ (case get_ansi_color_code color of None \<Rightarrow> [] | Some code \<Rightarrow> code) @ ''m'' @
        printed @ [escape_character] @ ''[m'')"

subsection \<open>Counts and results\<close>

definition format_countable_noun :: "nat \<Rightarrow> string \<Rightarrow> string \<Rightarrow> string" where
  "format_countable_noun quantity singular_form plural_form =
     string_of_nat quantity @ '' '' @ (if quantity = 1 then singular_form else plural_form)"

definition format_test_count :: "nat \<Rightarrow> string" where
  "format_test_count test_count = format_countable_noun test_count ''test'' ''tests''"

definition format_test_case_count :: "nat \<Rightarrow> string" where
  "format_test_case_count test_case_count = format_countable_noun test_case_count ''test case'' ''test cases''"

definition test_part_result_type_to_string :: "part_type \<Rightarrow> string" where
  "test_part_result_type_to_string type =
     (case type of K_success \<Rightarrow> ''Success'' | _ \<Rightarrow> ''Failure'' @ newline)"

definition print_test_part_result_to_string :: "test_part_result \<Rightarrow> string" where
  "print_test_part_result_to_string part =
     string_stream_to_string (format_file_location (map_option c_str (part_file_name part)) (tp_line_number part) @
       '' '' @ test_part_result_type_to_string (tp_type part) @ c_str (tp_message part))"

definition print_test_part_result :: "test_part_result \<Rightarrow> string" where
  "print_test_part_result part = c_str (print_test_part_result_to_string part) @ newline"

definition k_type_param_label :: string where "k_type_param_label = ''TypeParam''"
definition k_value_param_label :: string where "k_value_param_label = ''GetParam()''"

definition print_full_test_comment_if_present :: "test_info \<Rightarrow> string" where
  "print_full_test_comment_if_present t =
     (let type_param = map_option c_str (ti_type_param t); value_param = map_option c_str (ti_value_param t)
      in if type_param \<noteq> None \<or> value_param \<noteq> None then
           '', where '' @
           (case type_param of None \<Rightarrow> []
            | Some p \<Rightarrow> k_type_param_label @ '' = '' @ p @ (if value_param \<noteq> None then '' and '' else [])) @
           (case value_param of None \<Rightarrow> [] | Some v \<Rightarrow> k_value_param_label @ '' = '' @ v)
         else [])"

definition print_test_name :: "string \<Rightarrow> string \<Rightarrow> string" where
  "print_test_name test_case test = c_str test_case @ ''.'' @ c_str test"

subsection \<open>The handlers\<close>

text \<open>\<open>Inl\<close>: an environment variable of the shards has no proper value, and the process ends.\<close>

definition pretty_test_iteration_start :: "environment \<Rightarrow> bool \<Rightarrow> unit_test \<Rightarrow> int \<Rightarrow> string + string" where
  "pretty_test_iteration_start env colors u iteration =
     (let flags = ut_flags u; filter_text = c_str (fl_filter flags);
          repeating = (if fl_repeat flags \<noteq> 1
            then newline @ ''Repeating all tests (iteration '' @ string_of_int (iteration + 1) @ '') . . .'' @ newline @ newline
            else []);
          filtering = (if filter_text \<noteq> ''*''
            then colored_printf colors Color_yellow (''Note: Google Test filter = '' @ filter_text @ newline) else []);
          shuffling = (if fl_shuffle flags
            then colored_printf colors Color_yellow
              (''Note: Randomizing tests'' @ [apostrophe] @ '' orders with a seed of '' @
               string_of_int (ut_random_seed u) @ '' .'' @ newline) else []);
          running = colored_printf colors Color_green ''[==========] '' @
            ''Running '' @ format_test_count (sum_over_test_case_list test_to_run_count (ut_cases u)) @ '' from '' @
            format_test_case_count (test_case_to_run_count u) @ ''.'' @ newline
      in case should_shard env ''GTEST_TOTAL_SHARDS'' ''GTEST_SHARD_INDEX'' False of
           Inl e \<Rightarrow> Inl e
         | Inr False \<Rightarrow> Inr (repeating @ filtering @ shuffling @ running)
         | Inr True \<Rightarrow>
             (case int32_from_env_or_die env ''GTEST_SHARD_INDEX'' (- 1) of
                Inl e \<Rightarrow> Inl e
              | Inr shard_index \<Rightarrow>
                  Inr (repeating @ filtering @
                    colored_printf colors Color_yellow (''Note: This is test shard '' @ string_of_int (shard_index + 1) @
                      '' of '' @ (case env ''GTEST_TOTAL_SHARDS'' of None \<Rightarrow> [] | Some shards \<Rightarrow> shards) @ ''.'' @ newline) @
                    shuffling @ running)))"

definition pretty_environments_set_up_start :: "bool \<Rightarrow> string" where
  "pretty_environments_set_up_start colors =
     colored_printf colors Color_green ''[----------] '' @ ''Global test environment set-up.'' @ newline"

definition pretty_test_case_start :: "bool \<Rightarrow> test_case \<Rightarrow> string" where
  "pretty_test_case_start colors c =
     (let counts = format_countable_noun (test_to_run_count c) ''test'' ''tests''
      in colored_printf colors Color_green ''[----------] '' @ counts @ '' from '' @ c_str (tc_name c) @
         (case tc_type_param c of
            None \<Rightarrow> newline
          | Some p \<Rightarrow> '', where '' @ k_type_param_label @ '' = '' @ c_str p @ newline))"

definition pretty_test_start :: "bool \<Rightarrow> test_info \<Rightarrow> string" where
  "pretty_test_start colors t =
     colored_printf colors Color_green ''[ RUN      ] '' @ print_test_name (ti_case_name t) (ti_name t) @ newline"

definition pretty_test_part_result :: "test_part_result \<Rightarrow> string" where
  "pretty_test_part_result part = (if tp_type part = K_success then [] else print_test_part_result part)"

definition pretty_test_end :: "bool \<Rightarrow> gtest_flags \<Rightarrow> test_info \<Rightarrow> string" where
  "pretty_test_end colors flags t =
     (if result_passed (ti_result t) then colored_printf colors Color_green ''[       OK ] ''
      else colored_printf colors Color_red ''[  FAILED  ] '') @
     print_test_name (ti_case_name t) (ti_name t) @
     (if result_failed (ti_result t) then print_full_test_comment_if_present t else []) @
     (if fl_print_time flags then '' ('' @ string_of_int (rs_elapsed_time (ti_result t)) @ '' ms)'' @ newline else newline)"

definition pretty_test_case_end :: "bool \<Rightarrow> gtest_flags \<Rightarrow> test_case \<Rightarrow> string" where
  "pretty_test_case_end colors flags c =
     (if \<not> fl_print_time flags then []
      else colored_printf colors Color_green ''[----------] '' @
        format_countable_noun (test_to_run_count c) ''test'' ''tests'' @ '' from '' @ c_str (tc_name c) @
        '' ('' @ string_of_int (tc_elapsed_time c) @ '' ms total)'' @ newline @ newline)"

definition pretty_environments_tear_down_start :: "bool \<Rightarrow> string" where
  "pretty_environments_tear_down_start colors =
     colored_printf colors Color_green ''[----------] '' @ ''Global test environment tear-down'' @ newline"

text \<open>The inner and the outer loop of \<open>PrintFailedTests\<close>.\<close>

definition failed_test_line :: "bool \<Rightarrow> test_case \<Rightarrow> test_info \<Rightarrow> string" where
  "failed_test_line colors c t =
     colored_printf colors Color_red ''[  FAILED  ] '' @ c_str (tc_name c) @ ''.'' @ c_str (ti_name t) @
     print_full_test_comment_if_present t @ newline"

definition print_failed_test :: "bool \<Rightarrow> test_case \<Rightarrow> nat \<Rightarrow> fault + string" where
  "print_failed_test colors c j =
     (case get_test_info (int j) c of
        None \<Rightarrow> Inl Null_dereference
      | Some k \<Rightarrow>
          let t = tc_tests c ! k
          in if \<not> ti_should_run t \<or> result_passed (ti_result t) then Inr [] else Inr (failed_test_line colors c t))"

definition print_failed_tests_of_case :: "bool \<Rightarrow> unit_test \<Rightarrow> nat \<Rightarrow> fault + string" where
  "print_failed_tests_of_case colors u i =
     (case get_test_case (int i) u of
        None \<Rightarrow> Inl Null_dereference
      | Some k \<Rightarrow>
          let c = ut_cases u ! k
          in if \<not> tc_should_run c \<or> failed_test_count c = 0 then Inr []
             else streamed (map (print_failed_test colors c) [0..<total_test_count c]))"

definition print_failed_tests :: "bool \<Rightarrow> unit_test \<Rightarrow> fault + string" where
  "print_failed_tests colors u =
     (if sum_over_test_case_list failed_test_count (ut_cases u) = 0 then Inr []
      else streamed (map (print_failed_tests_of_case colors u) [0..<length (ut_cases u)]))"

text \<open>\<open>%2d\<close>\<close>

definition two_columns :: "string \<Rightarrow> string" where
  "two_columns s = replicate (2 - length s) CHR '' '' @ s"

definition pretty_test_iteration_end :: "bool \<Rightarrow> unit_test \<Rightarrow> fault + string" where
  "pretty_test_iteration_end colors u =
     (let flags = ut_flags u; cs = ut_cases u;
          num_failures = sum_over_test_case_list failed_test_count cs;
          num_disabled = sum_over_test_case_list reportable_disabled_test_count cs
      in streamed
        [Inr (colored_printf colors Color_green ''[==========] '' @
           format_test_count (sum_over_test_case_list test_to_run_count cs) @ '' from '' @
           format_test_case_count (test_case_to_run_count u) @ '' ran.'' @
           (if fl_print_time flags then '' ('' @ string_of_int (ut_elapsed_time u) @ '' ms total)'' else []) @ newline @
           colored_printf colors Color_green ''[  PASSED  ] '' @
           format_test_count (sum_over_test_case_list successful_test_count cs) @ ''.'' @ newline),
         (if unit_failed u then streamed
           [Inr (colored_printf colors Color_red ''[  FAILED  ] '' @ format_test_count num_failures @ '', listed below:'' @ newline),
            print_failed_tests colors u,
            Inr (newline @ two_columns (string_of_nat num_failures) @ '' FAILED '' @
              (if num_failures = 1 then ''TEST'' else ''TESTS'') @ newline)]
          else Inr []),
         Inr (if num_disabled \<noteq> 0 \<and> \<not> fl_also_run_disabled_tests flags then
            (if num_failures = 0 then newline else []) @
            colored_printf colors Color_yellow (''  YOU HAVE '' @ string_of_nat num_disabled @ '' DISABLED '' @
              (if num_disabled = 1 then ''TEST'' else ''TESTS'') @ newline @ newline)
          else [])])"

subsection \<open>The list of failed tests\<close>

text \<open>The tests that failed, by cases as registered and in each case in the order of the run.\<close>

definition failed_tests :: "unit_test \<Rightarrow> (test_case \<times> test_info) list" where
  "failed_tests u = concat (map (\<lambda>c. map (Pair c) (filter test_failed (ordered_tests c))) (ut_cases u))"

text \<open>What filtering and shuffling establish.\<close>

definition in_run_order :: "unit_test \<Rightarrow> bool" where
  "in_run_order u \<longleftrightarrow> mset (ut_indices u) = mset (map int [0..<length (ut_cases u)]) \<and>
     (\<forall>c \<in> set (ut_cases u). mset (tc_indices c) = mset (map int [0..<length (tc_tests c)]) \<and>
        tc_should_run c = list_ex ti_should_run (tc_tests c))"

lemma mset_ordered_tests:
  assumes "mset (tc_indices c) = mset (map int [0..<length (tc_tests c)])"
  shows "mset (ordered_tests c) = mset (tc_tests c)"
proof -
  have "mset (ordered_tests c) = image_mset (\<lambda>i. tc_tests c ! nat i) (mset (tc_indices c))"
    by (simp add: ordered_tests_def)
  also have "\<dots> = mset (map (\<lambda>i. tc_tests c ! i) [0..<length (tc_tests c)])"
    unfolding assms by (simp add: image_mset.compositionality comp_def)
  finally show ?thesis by (simp add: map_nth)
qed

lemma failed_count: 
  "mset (tc_indices c) = mset (map int [0..<length (tc_tests c)]) \<Longrightarrow>
   length (filter test_failed (ordered_tests c)) = failed_test_count c"
  using mset_ordered_tests [of c] mset_filter size_mset
  by (metis count_if_filter failed_test_count_def)

lemma sum_over_eq: "sum_over_test_case_list f cs = sum_list (map f cs)"
proof -
  have "fold (\<lambda>c sum. sum + f c) cs a = a + sum_list (map f cs)" for a by (induction cs arbitrary: a) simp_all
  then show ?thesis by (simp add: sum_over_test_case_list_def)
qed

lemma failed_tests_count:
  assumes "in_run_order u"
  shows "length (failed_tests u) = sum_over_test_case_list failed_test_count (ut_cases u)"
proof -
  have "length (concat (map (\<lambda>c. map (Pair c) (filter test_failed (ordered_tests c))) cs)) = sum_list (map failed_test_count cs)"
    if "set cs \<subseteq> set (ut_cases u)" for cs
    using that assms by (induction cs) (simp_all add: failed_count in_run_order_def)
  then show ?thesis by (simp add: failed_tests_def sum_over_eq)
qed

lemma print_failed_case:
  assumes perm: "mset (tc_indices c) = mset (map int [0..<length (tc_tests c)])"
  shows "streamed (map (print_failed_test colors c) [0..<total_test_count c]) =
    Inr (concat (map (failed_test_line colors c) (filter test_failed (ordered_tests c))))"
proof -
  let ?at = "\<lambda>i. tc_tests c ! nat (tc_indices c ! i)"
  let ?g = "\<lambda>i. if test_failed (?at i) then failed_test_line colors c (?at i) else []"
  have "print_failed_test colors c i = Inr (?g i)" if "i \<in> set [0..<total_test_count c]" for i
  proof -
    have "i < total_test_count c" using that by simp
    from get_test_info_in_order(1) [OF perm this] show ?thesis
      by (simp add: print_failed_test_def test_failed_def result_passed_def Let_def)
  qed
  then have "streamed (map (print_failed_test colors c) [0..<total_test_count c]) =
      Inr (concat (map ?g [0..<total_test_count c]))" by (rule streamed_map)
  moreover have "ordered_tests c = map ?at [0..<total_test_count c]"
    using mset_eq_length [OF perm] by (intro nth_equalityI) (simp_all add: ordered_tests_def total_test_count_def)
  moreover have "concat (map (\<lambda>x. if P x then f x else []) xs) = concat (map f (filter P xs))"
    for P and f :: "test_info \<Rightarrow> string" and xs by (induction xs) simp_all
  ultimately show ?thesis by (simp add: comp_def) (metis (no_types, lifting) map_map comp_def list.map_cong0)
qed

lemma print_failed_eq:
  assumes "in_run_order u"
  shows "print_failed_tests colors u = Inr (concat (map (\<lambda>(c, t). failed_test_line colors c t) (failed_tests u)))"
proof (cases "sum_over_test_case_list failed_test_count (ut_cases u) = 0")
  case True
  then have "failed_tests u = []" using failed_tests_count [OF assms] by simp
  with True show ?thesis by (simp add: print_failed_tests_def)
next
  case False
  have perm: "mset (ut_indices u) = mset (map int [0..<length (ut_cases u)])" using assms by (simp add: in_run_order_def)
  let ?lines = "\<lambda>c. concat (map (failed_test_line colors c) (filter test_failed (ordered_tests c)))"
  have "print_failed_tests_of_case colors u i = Inr (?lines (ut_cases u ! i))" if "i \<in> set [0..<length (ut_cases u)]" for i
  proof -
    let ?c = "ut_cases u ! i"
    have c: "mset (tc_indices ?c) = mset (map int [0..<length (tc_tests ?c)])" "tc_should_run ?c = list_ex ti_should_run (tc_tests ?c)"
      using assms that by (auto simp: in_run_order_def)
    have "ut_indices u ! i \<in> set (ut_indices u)" "i < length (ut_indices u)" using mset_eq_length [OF perm] that by auto
    moreover have "set (ut_indices u) = int ` {0..<length (ut_cases u)}" using mset_eq_setD [OF perm] by simp
    ultimately have found: "get_test_case (int i) u = Some i" by (auto simp: get_test_case_def get_element_or_def)
    have "?lines ?c = []" if "\<not> tc_should_run ?c \<or> failed_test_count ?c = 0"
    proof -
      have "set (ordered_tests ?c) = set (tc_tests ?c)" using mset_ordered_tests [OF c(1)] by (rule mset_eq_setD)
      then have "filter test_failed (ordered_tests ?c) = []"
        using that failed_count [OF c(1)] c(2) by (auto simp: filter_empty_conv test_failed_def list_ex_iff)
      then show ?thesis by simp
    qed
    then show ?thesis using print_failed_case [OF c(1), of colors] by (auto simp: print_failed_tests_of_case_def found Let_def)
  qed
  then have "print_failed_tests colors u = Inr (concat (map (\<lambda>i. ?lines (ut_cases u ! i)) [0..<length (ut_cases u)]))"
    using False by (simp only: print_failed_tests_def if_False) (rule streamed_map)
  also have "map (\<lambda>i. ?lines (ut_cases u ! i)) [0..<length (ut_cases u)] = map ?lines (ut_cases u)"
    by (intro nth_equalityI) simp_all
  also have "concat (map ?lines (ut_cases u)) = concat (map (\<lambda>(c, t). failed_test_line colors c t) (failed_tests u))"
  proof -
    have "concat (map ?lines cs) = concat (map (\<lambda>(c, t). failed_test_line colors c t)
        (concat (map (\<lambda>c. map (Pair c) (filter test_failed (ordered_tests c))) cs)))" for cs
      by (induction cs) (simp_all add: comp_def)
    then show ?thesis by (simp add: failed_tests_def)
  qed
  finally show ?thesis .
qed

end
