(* ===== verification/Gtest_Typed.thy ===== *)
theory Gtest_Typed
  imports Gtest_Run_Properties
begin

text \<open>
  Type-parameterized tests (\<open>gtest-typed-test.cc\<close> and \<open>gtest-internal.h\<close>): the check that the
  registered names of a test case are those of its tests, and the registration of each test with
  each type by recursion at compile time. The set of defined names is ordered by address; its
  order is a list, and the place of a new name in it is a parameter. The theory proves that the
  check accepts exactly a list of all the names, each once, and that the registration then adds
  each test once for each type.
\<close>

record typed_test_case =
  tt_registered :: bool
  tt_defined :: "string list"

definition new_typed_test_case :: typed_test_case where
  "new_typed_test_case = \<lparr>tt_registered = False, tt_defined = []\<rparr>"

text \<open>\<open>Inl\<close>: the process ends with this on the standard error stream.\<close>

definition add_test_name ::
  "nat \<Rightarrow> string option \<Rightarrow> int \<Rightarrow> string \<Rightarrow> string \<Rightarrow> typed_test_case \<Rightarrow> string + typed_test_case" where
  "add_test_name at file line case_name test_name tt =
     (if tt_registered tt then
        Inl (format_file_location file line @ '' Test '' @ test_name @ '' must be defined before '' @
          ''REGISTER_TYPED_TEST_CASE_P('' @ case_name @ '', ...).'' @ newline)
      else Inr (tt\<lparr>tt_defined := take at (tt_defined tt) @ test_name # drop at (tt_defined tt)\<rparr>))"

definition skip_spaces :: "string \<Rightarrow> string" where
  "skip_spaces str = dropWhile is_space str"

definition skip_comma :: "string \<Rightarrow> string option" where
  "skip_comma str = (case dropWhile (\<lambda>c. c \<noteq> CHR '','') str of [] \<Rightarrow> None | comma # rest \<Rightarrow> Some (dropWhile is_space rest))"

definition get_prefix_until_comma :: "string \<Rightarrow> string" where
  "get_prefix_until_comma str = takeWhile (\<lambda>c. c \<noteq> CHR '','') str"

lemma skip_comma_shorter: "skip_comma s = Some r \<Longrightarrow> length r < length s"
proof -
  assume "skip_comma s = Some r"
  then obtain c t where t: "dropWhile (\<lambda>c. c \<noteq> CHR '','') s = c # t" "r = dropWhile is_space t"
    by (auto simp: skip_comma_def split: list.splits)
  have "length r \<le> length t" unfolding t(2) by (rule length_dropWhile_le)
  moreover have "length (c # t) \<le> length s" unfolding t(1) [symmetric] by (rule length_dropWhile_le)
  ultimately show ?thesis by simp
qed

text \<open>The loop over the registered names, with the names that were found and the errors.\<close>

function verify_names_loop :: "string list \<Rightarrow> string \<Rightarrow> string list \<Rightarrow> string \<Rightarrow> string list \<times> string" where
  "verify_names_loop defined names tests errors =
     (let name = get_prefix_until_comma names;
          (tests, errors) =
            (if name \<in> set tests then (tests, errors @ ''Test '' @ name @ '' is listed more than once.'' @ newline)
             else if name \<in> set defined then (name # tests, errors)
             else (tests, errors @ ''No test named '' @ name @ '' can be found in this test case.'' @ newline))
      in case skip_comma names of
           None \<Rightarrow> (tests, errors)
         | Some names \<Rightarrow> verify_names_loop defined names tests errors)"
  by pat_completeness auto
termination
  by (relation "measure (\<lambda>(defined, names, tests, errors). length names)") (auto dest: skip_comma_shorter)

declare verify_names_loop.simps [simp del]

definition verify_registered_test_names ::
  "string option \<Rightarrow> int \<Rightarrow> string \<Rightarrow> typed_test_case \<Rightarrow> string + typed_test_case \<times> string" where
  "verify_registered_test_names file line registered_tests tt =
     (let registered_tests = skip_spaces registered_tests;
          (tests, errors) = verify_names_loop (tt_defined tt) registered_tests [] [];
          errors = errors @ concat (map (\<lambda>name. if name \<notin> set tests
            then ''You forgot to list test '' @ name @ ''.'' @ newline else []) (tt_defined tt))
      in if errors \<noteq> [] then Inl (format_file_location file line @ '' '' @ errors)
         else Inr (tt\<lparr>tt_registered := True\<rparr>, registered_tests))"

text \<open>\<open>TypeParameterizedTest\<close>: one test with each of the types, a name and a class for each.\<close>

fun register_typed_test ::
  "string \<Rightarrow> string \<Rightarrow> string \<Rightarrow> nat \<Rightarrow> (string \<times> nat) list \<Rightarrow> unit_test \<Rightarrow> unit_test" where
  "register_typed_test prefix case_name test_names index [] u = u"
| "register_typed_test prefix case_name test_names index ((type_name, fixture) # types) u =
     register_typed_test prefix case_name test_names (index + 1) types
       (make_and_register_test_info
         (prefix @ (if prefix = [] then [] else ''/'') @ case_name @ ''/'' @ string_of_nat index)
         (get_prefix_until_comma test_names) (Some type_name) None fixture u)"

text \<open>\<open>TypeParameterizedTestCase\<close>: as many tests as the type list has; a null pointer for the names faults.\<close>

fun register_typed_test_case ::
  "string \<Rightarrow> string \<Rightarrow> nat \<Rightarrow> string option \<Rightarrow> (string \<times> nat) list \<Rightarrow> unit_test \<Rightarrow> fault + unit_test" where
  "register_typed_test_case prefix case_name 0 test_names types u = Inr u"
| "register_typed_test_case prefix case_name (Suc n) test_names types u =
     (case test_names of
        None \<Rightarrow> Inl Null_dereference
      | Some names \<Rightarrow>
          register_typed_test_case prefix case_name n (skip_comma names) types
            (register_typed_test prefix case_name names 0 types u))"

subsection \<open>The names in a list\<close>

function listed_names :: "string \<Rightarrow> string list" where
  "listed_names names =
     get_prefix_until_comma names # (case skip_comma names of None \<Rightarrow> [] | Some names \<Rightarrow> listed_names names)"
  by pat_completeness auto
termination
  by (relation "measure length") (auto dest: skip_comma_shorter)

declare listed_names.simps [simp del]

definition name_step :: "string list \<Rightarrow> string \<Rightarrow> string list \<Rightarrow> string \<Rightarrow> string list \<times> string" where
  "name_step defined name tests errors =
     (if name \<in> set tests then (tests, errors @ ''Test '' @ name @ '' is listed more than once.'' @ newline)
      else if name \<in> set defined then (name # tests, errors)
      else (tests, errors @ ''No test named '' @ name @ '' can be found in this test case.'' @ newline))"

lemma name_step_eq:
  "name_step defined name tests errors = (ts, es) \<Longrightarrow> set tests \<subseteq> set defined \<Longrightarrow>
   (es = [] \<longleftrightarrow> errors = [] \<and> name \<notin> set tests \<and> name \<in> set defined) \<and>
   (es = [] \<longrightarrow> ts = name # tests) \<and> set ts \<subseteq> set defined"
  by (cases "name \<in> set tests"; cases "name \<in> set defined") (auto simp: name_step_def)

lemma verify_loop_step:
  "name_step defined (get_prefix_until_comma names) tests errors = (ts, es) \<Longrightarrow>
   verify_names_loop defined names tests errors =
     (case skip_comma names of None \<Rightarrow> (ts, es) | Some names \<Rightarrow> verify_names_loop defined names ts es)"
  unfolding name_step_def by (subst verify_names_loop.simps) (simp only: Let_def prod.case)

lemma verify_loop_eq:
  "verify_names_loop defined names tests errors = (tests', errors') \<Longrightarrow> set tests \<subseteq> set defined \<Longrightarrow>
   (errors' = [] \<longleftrightarrow> errors = [] \<and> distinct (listed_names names) \<and> set (listed_names names) \<inter> set tests = {} \<and>
      set (listed_names names) \<subseteq> set defined) \<and>
   (errors' = [] \<longrightarrow> set tests' = set tests \<union> set (listed_names names))"
proof (induction "length names" arbitrary: names tests errors rule: less_induct)
  case less
  let ?name = "get_prefix_until_comma names"
  obtain ts es where te: "name_step defined ?name tests errors = (ts, es)" by fastforce
  note unfold = verify_loop_step [OF te] and es = name_step_eq [OF te less.prems(2)]
  show ?case
  proof (cases "skip_comma names")
    case None
    then have "listed_names names = [?name]" by (simp add: listed_names.simps [of names])
    with None unfold less.prems(1) es show ?thesis by auto
  next
    case (Some rest)
    then have names: "listed_names names = ?name # listed_names rest" by (simp add: listed_names.simps [of names])
    have "verify_names_loop defined rest ts es = (tests', errors')" using Some unfold less.prems(1) by simp
    then have IH: "(errors' = [] \<longleftrightarrow> es = [] \<and> distinct (listed_names rest) \<and> set (listed_names rest) \<inter> set ts = {} \<and>
        set (listed_names rest) \<subseteq> set defined) \<and> (errors' = [] \<longrightarrow> set tests' = set ts \<union> set (listed_names rest))"
      using less.hyps [OF skip_comma_shorter [OF Some]] es by blast
    show ?thesis
    proof (cases "es = []")
      case True
      then show ?thesis using IH es unfolding names by auto
    next
      case False
      then show ?thesis using IH es unfolding names by auto
    qed
  qed
qed

lemma concat_lines: "concat (map (\<lambda>n. if P n then f n else []) ns) = [] \<longleftrightarrow> (\<forall>n \<in> set ns. P n \<longrightarrow> f n = [])"
  by (induction ns) auto

lemma verify_iff:
  "(\<exists>r. verify_registered_test_names file line names tt = Inr r) \<longleftrightarrow>
   distinct (listed_names (skip_spaces names)) \<and> set (listed_names (skip_spaces names)) = set (tt_defined tt)"
proof -
  let ?names = "skip_spaces names"
  obtain ts es where te: "verify_names_loop (tt_defined tt) ?names [] [] = (ts, es)" by fastforce
  define forgot where "forgot = concat (map (\<lambda>name. if name \<notin> set ts
    then ''You forgot to list test '' @ name @ ''.'' @ newline else []) (tt_defined tt))"
  have loop: "es = [] \<longleftrightarrow> distinct (listed_names ?names) \<and> set (listed_names ?names) \<subseteq> set (tt_defined tt)"
    "es = [] \<Longrightarrow> set ts = set (listed_names ?names)"
    using verify_loop_eq [OF te] by simp_all
  have "forgot = [] \<longleftrightarrow> (\<forall>name \<in> set (tt_defined tt). name \<in> set ts)"
    unfolding forgot_def concat_lines by simp
  moreover have "verify_registered_test_names file line names tt =
      (if es @ forgot \<noteq> [] then Inl (format_file_location file line @ '' '' @ es @ forgot)
       else Inr (tt\<lparr>tt_registered := True\<rparr>, ?names))"
    unfolding verify_registered_test_names_def Let_def te prod.case forgot_def by (rule refl)
  then have "(\<exists>r. verify_registered_test_names file line names tt = Inr r) \<longleftrightarrow> es = [] \<and> forgot = []"
    by (cases "es @ forgot = []") simp_all
  ultimately show ?thesis using loop by blast
qed

lemma verify_names: "verify_registered_test_names source line names tt = Inr r \<Longrightarrow> snd r = skip_spaces names"
proof -
  assume a: "verify_registered_test_names source line names tt = Inr r"
  obtain ts es where te: "verify_names_loop (tt_defined tt) (skip_spaces names) [] [] = (ts, es)" by fastforce
  have "(if P then Inl x else Inr (y, z)) = Inr r \<Longrightarrow> snd r = z" for P and x :: string and y z
    by (cases P) auto
  from this [OF a [unfolded verify_registered_test_names_def Let_def te prod.case]] show ?thesis .
qed

subsection \<open>What is registered\<close>

definition registered_tests :: "unit_test \<Rightarrow> (string \<times> string \<times> string option) list" where
  "registered_tests u = concat (map (\<lambda>c. map (\<lambda>t. (tc_name c, ti_name t, ti_type_param t)) (tc_tests c)) (ut_cases u))"

lemma concat_update:
  "i < length cs \<Longrightarrow> mset (concat (map f (cs[i := y]))) + mset (f (cs ! i)) = mset (concat (map f cs)) + mset (f y)"
proof (induction cs arbitrary: i)
  case (Cons c cs)
  then show ?case by (cases i) (simp_all add: ac_simps)
qed simp

lemma concat_parts:
  "mset (concat (map f (take k xs))) + mset (concat (map f (drop k xs))) = mset (concat (map f xs))"
proof -
  have "concat (map f xs) = concat (map f (take k xs)) @ concat (map f (drop k xs))"
    by (metis append_take_drop_id concat_append map_append)
  then show ?thesis by simp
qed

lemma add_to_case:
  assumes "i < length (ut_cases u)"
  shows "mset (registered_tests (update_case i (add_test_info_to_case t) u)) =
    add_mset (tc_name (ut_cases u ! i), ti_name t, ti_type_param t) (mset (registered_tests u))"
  using concat_update [OF assms, of "\<lambda>c. map (\<lambda>t. (tc_name c, ti_name t, ti_type_param t)) (tc_tests c)"
      "add_test_info_to_case t (ut_cases u ! i)"]
  by (simp add: registered_tests_def update_case_def add_test_info_to_case_def)

text \<open>The position of the last death test case is one of the list, or there is none.\<close>

definition death_position_ok :: "unit_test \<Rightarrow> bool" where
  "death_position_ok u \<longleftrightarrow> - 1 \<le> ut_last_death u \<and> ut_last_death u < int (length (ut_cases u))"

lemma case_found:
  assumes "get_or_create_test_case case_name tp u = (v, i)" and "death_position_ok u"
  shows "i < length (ut_cases v) \<and> tc_name (ut_cases v ! i) = case_name \<and>
    mset (registered_tests v) = mset (registered_tests u) \<and> death_position_ok v"
proof (cases "find_test_case case_name u")
  case (Some j)
  with assms find_test_case_Some [OF Some] show ?thesis by (auto simp: get_or_create_test_case_def)
next
  case None
  let ?c = "make_test_case case_name tp" and ?at = "nat (ut_last_death u + 1)"
  show ?thesis
  proof (cases "matches_filter case_name k_death_test_case_filter")
    case True
    have at: "?at \<le> length (ut_cases u)" using assms(2) by (auto simp: death_position_ok_def)
    let ?f = "\<lambda>c. map (\<lambda>t. (tc_name c, ti_name t, ti_type_param t)) (tc_tests c)"
    note parts = concat_parts [of ?f ?at "ut_cases u"]
    with True None assms at parts show ?thesis
      by (auto simp: get_or_create_test_case_def Let_def nth_append min_def registered_tests_def make_test_case_def
          death_position_ok_def)
  next
    case False
    with None assms show ?thesis
      by (auto simp: get_or_create_test_case_def Let_def registered_tests_def make_test_case_def death_position_ok_def)
  qed
qed

lemma registers_one:
  assumes "death_position_ok u" and v_def: "v = make_and_register_test_info case_name name tp vp fixture u"
  shows "mset (registered_tests v) = add_mset (case_name, name, tp) (mset (registered_tests u))" and "death_position_ok v"
proof -
  obtain w i where g: "get_or_create_test_case case_name tp u = (w, i)" by fastforce
  note found = case_found [OF g assms(1)]
  have v: "v = update_case i (add_test_info_to_case (make_test_info case_name name tp vp fixture)) w"
    by (simp add: v_def make_and_register_test_info_def add_test_info_def g make_test_info_def)
  show "mset (registered_tests v) = add_mset (case_name, name, tp) (mset (registered_tests u))"
    using add_to_case [of i w "make_test_info case_name name tp vp fixture"] found by (simp add: v make_test_info_def)
  show "death_position_ok v" using found by (simp add: v update_case_def death_position_ok_def)
qed

text \<open>The tests that one name stands for, with the position of each type.\<close>

definition typed_tests :: "string \<Rightarrow> string \<Rightarrow> nat \<Rightarrow> (string \<times> nat) list \<Rightarrow> string \<Rightarrow> (string \<times> string \<times> string option) list" where
  "typed_tests prefix case_name index types name = map (\<lambda>(i, type_name, fixture).
     (prefix @ (if prefix = [] then [] else ''/'') @ case_name @ ''/'' @ string_of_nat i, name, Some type_name))
     (zip [index..<index + length types] types)"

lemma registers_types:
  assumes "death_position_ok u"
  shows "mset (registered_tests (register_typed_test prefix case_name names index types u)) = mset (registered_tests u) +
      mset (typed_tests prefix case_name index types (get_prefix_until_comma names)) \<and>
    death_position_ok (register_typed_test prefix case_name names index types u)"
  using assms
proof (induction types arbitrary: index u)
  case (Cons ty types)
  obtain type_name fixture where ty: "ty = (type_name, fixture)" by fastforce
  have "[index..<index + length (ty # types)] = index # [index + 1..<index + 1 + length types]"
    using upt_conv_Cons [of index "index + length (ty # types)"] by (simp del: upt_Suc)
  with Cons.IH [OF registers_one(2) [OF Cons.prems refl]] show ?case
    by (simp add: ty typed_tests_def registers_one(1) [OF Cons.prems refl] del: upt_Suc)
qed (simp add: typed_tests_def)

lemma registers_all:
  assumes "death_position_ok u" and "n = length (listed_names names)"
  shows "\<exists>v. register_typed_test_case prefix case_name n (Some names) types u = Inr v \<and>
    mset (registered_tests v) = mset (registered_tests u) +
      mset (concat (map (typed_tests prefix case_name 0 types) (listed_names names)))"
  using assms
proof (induction "length names" arbitrary: names n u rule: less_induct)
  case less
  let ?u = "register_typed_test prefix case_name names 0 types u"
  have one: "mset (registered_tests ?u) = mset (registered_tests u) +
      mset (typed_tests prefix case_name 0 types (get_prefix_until_comma names))" "death_position_ok ?u"
    using registers_types [OF less.prems(1)] by auto
  show ?case
  proof (cases "skip_comma names")
    case None
    then have "listed_names names = [get_prefix_until_comma names]" by (simp add: listed_names.simps [of names])
    with less.prems(2) one None show ?thesis by simp
  next
    case (Some rest)
    then have names: "listed_names names = get_prefix_until_comma names # listed_names rest"
      by (simp add: listed_names.simps [of names])
    then obtain m where m: "n = Suc m" "m = length (listed_names rest)" using less.prems(2) by simp
    from less.hyps [OF skip_comma_shorter [OF Some] one(2) m(2)] show ?thesis using one(1) Some by (auto simp: m(1) names)
  qed
qed

end
