(* ===== verification/Gmock_Init.thy ===== *)
theory Gmock_Init
  imports Gtest_Flags Gtest_Text
begin

text \<open>
  The initialisation of gmock (\<open>gmock.cc\<close>): the flags of its command line behind those of gtest,
  and the words of an identifier (\<open>gmock-internal-utils.cc\<close>), which name a matcher in a message.
  The theory proves that the initialisation takes the last value of each flag and leaves exactly
  the other arguments, and that the words are those of the documented expression.
\<close>

subsection \<open>Flags\<close>

record gmock_flags =
  gm_catch_leaked_mocks :: bool
  gm_verbose :: string

definition default_gmock_flags :: gmock_flags where
  "default_gmock_flags = \<lparr>gm_catch_leaked_mocks = True, gm_verbose = ''warning''\<rparr>"

definition parse_google_mock_flag_value :: "string option \<Rightarrow> string option \<Rightarrow> bool \<Rightarrow> string option" where
  "parse_google_mock_flag_value str flag def_optional =
     (case (str, flag) of
        (Some str, Some flag) \<Rightarrow>
          (let flag_str = ''--gmock_'' @ flag; flag_len = length flag_str
           in if take flag_len str \<noteq> flag_str then None
              else let flag_end = drop flag_len str
                in if def_optional \<and> flag_end = [] then Some flag_end
                   else if flag_end = [] \<or> hd flag_end \<noteq> CHR ''='' then None
                   else Some (tl flag_end))
      | _ \<Rightarrow> None)"

text \<open>The value that a flag of the kind has when the argument is this flag.\<close>

definition parse_google_mock_bool_flag :: "string \<Rightarrow> string \<Rightarrow> bool option" where
  "parse_google_mock_bool_flag str flag =
     map_option (\<lambda>v. \<not> (v \<noteq> [] \<and> (hd v = CHR ''0'' \<or> hd v = CHR ''f'' \<or> hd v = CHR ''F'')))
       (parse_google_mock_flag_value (Some str) (Some flag) True)"

definition parse_google_mock_string_flag :: "string \<Rightarrow> string \<Rightarrow> string option" where
  "parse_google_mock_string_flag str flag = parse_google_mock_flag_value (Some str) (Some flag) False"

text \<open>The condition of the loop: the new flags when the argument is one of them.\<close>

definition parse_google_mock_flag :: "string \<Rightarrow> gmock_flags \<Rightarrow> gmock_flags option" where
  "parse_google_mock_flag arg fl =
     (case parse_google_mock_bool_flag arg ''catch_leaked_mocks'' of
        Some v \<Rightarrow> Some (fl\<lparr>gm_catch_leaked_mocks := v\<rparr>)
      | None \<Rightarrow> map_option (\<lambda>v. fl\<lparr>gm_verbose := v\<rparr>) (parse_google_mock_string_flag arg ''verbose''))"

text \<open>
  The loop with its index: \<open>None\<close> when the index leaves the array. Removing an argument shifts
  the later ones, and the index stays where it is.
\<close>

function init_google_mock_loop ::
  "nat \<Rightarrow> string list \<Rightarrow> gmock_flags \<Rightarrow> string list \<times> gmock_flags" where
  "init_google_mock_loop i argv fl =
     (if length argv \<le> i then (argv, fl)
      else case parse_google_mock_flag (c_str (string_stream_to_string (argv ! i))) fl of
             Some fl \<Rightarrow> init_google_mock_loop i (take i argv @ drop (i + 1) argv) fl
           | None \<Rightarrow> init_google_mock_loop (i + 1) argv fl)"
  by pat_completeness auto
termination
  by (relation "measure (\<lambda>(i, argv, fl). length argv - i)") auto

declare init_google_mock_loop.simps [simp del]

text \<open>
  \<open>InitGoogleMockImpl\<close>, with the arguments that \<open>InitGoogleTest\<close> leaves.
\<close>

definition init_google_mock_impl ::
  "(string list \<Rightarrow> string list) \<Rightarrow> string list \<Rightarrow> gmock_flags \<Rightarrow> string list \<times> gmock_flags" where
  "init_google_mock_impl init_google_test argv fl =
     (let argv = init_google_test argv
      in if argv = [] then (argv, fl) else init_google_mock_loop 1 argv fl)"

subsection \<open>The words of an identifier\<close>

fun words_loop :: "char \<Rightarrow> string \<Rightarrow> string \<Rightarrow> string" where
  "words_loop prev_char result [] = result"
| "words_loop prev_char result (p # ps) =
     (let starts_new_word = (is_upper p \<or> (\<not> is_alpha prev_char \<and> is_lower p) \<or> (\<not> is_digit prev_char \<and> is_digit p))
      in words_loop p
        (if is_alnum p then
           (if starts_new_word \<and> result \<noteq> [] then result @ '' '' else result) @ [to_lower p]
         else result) ps)"

definition convert_identifier_name_to_words :: "string \<Rightarrow> string" where
  "convert_identifier_name_to_words id_name = words_loop nul [] id_name"

text \<open>
  The words as documented: each longest part of the form \<open>[A-Za-z][a-z]*\<close> or \<open>[0-9]+\<close>, in lower
  case, with one space between two.
\<close>

function identifier_words :: "string \<Rightarrow> string list" where
  "identifier_words [] = []"
| "identifier_words (c # cs) =
     (if is_alpha c then (c # takeWhile is_lower cs) # identifier_words (dropWhile is_lower cs)
      else if is_digit c then (c # takeWhile is_digit cs) # identifier_words (dropWhile is_digit cs)
      else identifier_words cs)"
  by pat_completeness auto
termination
  by (relation "measure length") (auto simp: length_dropWhile_le less_Suc_eq_le)

fun with_spaces :: "string list \<Rightarrow> string" where
  "with_spaces [] = []"
| "with_spaces [w] = w"
| "with_spaces (w # v # ws) = w @ '' '' @ with_spaces (v # ws)"

subsection \<open>The arguments and the flags\<close>

definition mock_argument :: "string \<Rightarrow> gmock_flags \<Rightarrow> gmock_flags option" where
  "mock_argument a fl = parse_google_mock_flag (c_str (string_stream_to_string a)) fl"

definition is_mock_argument :: "string \<Rightarrow> bool" where
  "is_mock_argument a \<longleftrightarrow> mock_argument a default_gmock_flags \<noteq> None"

definition apply_argument :: "string \<Rightarrow> gmock_flags \<Rightarrow> gmock_flags" where
  "apply_argument a fl = (case mock_argument a fl of Some fl \<Rightarrow> fl | None \<Rightarrow> fl)"

lemma is_mock_argument_iff: "mock_argument a fl \<noteq> None \<longleftrightarrow> is_mock_argument a"
  by (auto simp: is_mock_argument_def mock_argument_def parse_google_mock_flag_def split: option.splits)

lemma init_loop_eq:
  "i \<le> length argv \<Longrightarrow> init_google_mock_loop i argv fl =
    (take i argv @ filter (\<lambda>a. \<not> is_mock_argument a) (drop i argv), fold apply_argument (drop i argv) fl)"
proof (induction i argv fl rule: init_google_mock_loop.induct)
  case (1 i argv fl)
  show ?case
  proof (cases "length argv \<le> i")
    case True
    with 1(3) show ?thesis by (simp add: init_google_mock_loop.simps)
  next
    case False
    then have drop: "drop i argv = argv ! i # drop (i + 1) argv" by (simp add: Cons_nth_drop_Suc)
    show ?thesis
    proof (cases "mock_argument (argv ! i) fl")
      case None
      then have "\<not> is_mock_argument (argv ! i)" "apply_argument (argv ! i) fl = fl"
        using is_mock_argument_iff [of "argv ! i" fl] by (simp_all add: apply_argument_def)
      moreover have "init_google_mock_loop i argv fl = init_google_mock_loop (i + 1) argv fl"
        using False None by (subst init_google_mock_loop.simps) (simp add: mock_argument_def)
      moreover have "take (i + 1) argv = take i argv @ [argv ! i]" using False by (simp add: take_Suc_conv_app_nth)
      ultimately show ?thesis using 1(1) False None by (simp add: drop mock_argument_def)
    next
      case (Some fl')
      let ?argv = "take i argv @ drop (i + 1) argv"
      have "is_mock_argument (argv ! i)" "apply_argument (argv ! i) fl = fl'"
        using is_mock_argument_iff [of "argv ! i" fl] Some by (simp_all add: apply_argument_def)
      moreover have "init_google_mock_loop i argv fl = init_google_mock_loop i ?argv fl'"
        using False Some by (subst init_google_mock_loop.simps) (simp add: mock_argument_def)
      moreover have "take i ?argv = take i argv" "drop i ?argv = drop (i + 1) argv" "i \<le> length ?argv"
        using False by simp_all
      ultimately show ?thesis using 1(2) False Some by (simp add: drop mock_argument_def)
    qed
  qed
qed

subsection \<open>The words are those documented\<close>

lemma kinds_disjoint:
  "is_lower c \<Longrightarrow> \<not> is_upper c" "is_lower c \<Longrightarrow> \<not> is_digit c" "is_upper c \<Longrightarrow> \<not> is_digit c"
  "is_digit c \<Longrightarrow> \<not> is_alpha c"
  by (auto simp: is_lower_def is_upper_def is_digit_def is_alpha_def between_def)

lemma with_spaces_Cons: "with_spaces (w # ws) = w @ (if ws = [] then [] else '' '' @ with_spaces ws)"
  by (cases ws) simp_all

text \<open>What belongs to the word of the character before, and what comes behind.\<close>

definition same_word :: "char \<Rightarrow> char \<Rightarrow> bool" where
  "same_word p c \<longleftrightarrow> is_alpha p \<and> is_lower c \<or> is_digit p \<and> is_digit c"

definition separate :: "string \<Rightarrow> string list \<Rightarrow> string" where
  "separate before ws = (if ws = [] then [] else (if before = [] then [] else '' '') @ with_spaces ws)"

lemma same_word_kinds:
  "is_alpha c \<Longrightarrow> same_word c = is_lower" "is_digit c \<Longrightarrow> same_word c = is_digit"
  "\<not> is_alnum c \<Longrightarrow> same_word c = (\<lambda>_. False)"
  using kinds_disjoint(4) [of c] by (auto simp: same_word_def is_alnum_def fun_eq_iff)

lemma words_unfold:
  "identifier_words (c # cs) =
    (if is_alnum c then (c # takeWhile (same_word c) cs) # identifier_words (dropWhile (same_word c) cs)
     else identifier_words cs)"
  using kinds_disjoint(4) [of c] by (auto simp: is_alnum_def same_word_kinds)

declare identifier_words.simps(2) [simp del]

lemma lower_is_alpha: "is_lower c \<Longrightarrow> is_alpha c"
  by (simp add: is_alpha_def)

lemma words_loop_eq:
  "is_alnum p \<longrightarrow> r \<noteq> [] \<Longrightarrow> words_loop p r s =
    r @ map to_lower (takeWhile (same_word p) s) @
    separate r (map (map to_lower) (identifier_words (dropWhile (same_word p) s)))"
proof (induction s arbitrary: p r)
  case (Cons c cs)
  let ?new = "is_upper c \<or> (\<not> is_alpha p \<and> is_lower c) \<or> (\<not> is_digit p \<and> is_digit c)"
  consider (same) "same_word p c" | (fresh) "\<not> same_word p c" "is_alnum c" | (other) "\<not> is_alnum c" by blast
  then show ?case
  proof cases
    case same
    then have "is_alpha p \<and> is_lower c \<or> is_digit p \<and> is_digit c" by (simp add: same_word_def)
    then have "same_word c = same_word p" and alnum: "is_alnum c" "is_alnum p" and "\<not> ?new"
    proof (atomize (full), elim disjE conjE, goal_cases)
      case 1
      with kinds_disjoint [of c] show ?case by (simp add: same_word_kinds lower_is_alpha is_alnum_def)
    next
      case 2
      with kinds_disjoint [of c] show ?case by (simp add: same_word_kinds is_alnum_def) (metis is_alpha_def)
    qed
    then show ?thesis using Cons.IH [of c "r @ [to_lower c]"] Cons.prems same by (auto simp: separate_def)
  next
    case fresh
    then have "?new" unfolding same_word_def is_alnum_def is_alpha_def by blast
    with fresh show ?thesis using Cons.IH [of c "(if r \<noteq> [] then r @ '' '' else r) @ [to_lower c]"]
      by (simp add: separate_def words_unfold with_spaces_Cons)
  next
    case other
    then have "\<not> same_word p c" "same_word c = (\<lambda>_. False)"
      by (auto simp only: same_word_def is_alnum_def is_alpha_def fun_eq_iff)
    with other show ?thesis using Cons.IH [of c r] by (simp add: words_unfold takeWhile_eq_Nil_iff dropWhile_eq_self_iff)
  qed
qed (simp add: separate_def)

lemma convert_is_documented:
  "convert_identifier_name_to_words s = with_spaces (map (map to_lower) (identifier_words s))"
proof -
  have "\<not> is_alnum nul" "same_word nul = (\<lambda>_. False)"
    by (auto simp: same_word_def is_alnum_def is_alpha_def is_lower_def is_upper_def is_digit_def between_def fun_eq_iff)
  moreover have "takeWhile (\<lambda>_. False) s = []" "dropWhile (\<lambda>_. False) s = s" by (cases s; simp)+
  ultimately show ?thesis
    unfolding convert_identifier_name_to_words_def using words_loop_eq [of nul "[]" s]
    by (simp add: separate_def)
qed

end
