(* ===== verification/Report_Properties.thy ===== *)
theory Report_Properties
  imports Gtest_Report Gtest_Events Gtest_Streaming Gtest_Console Gtest_Typed Gmock_Init Runner_Properties
begin

text \<open>
  What holds of the output of a test program: the XML report and its file, the listeners, the
  stream of results, the list of failures; and of the registration of typed tests.
\<close>

subsection \<open>The report\<close>

text \<open>A file system in which every directory exists and every file opens, for the examples.\<close>

definition open_file_system :: "unit file_system" where
  "open_file_system = \<lparr>fs_stat = (\<lambda>_ p. if is_directory p then Some True else None),
     fs_mkdir = (\<lambda>_ s. (s, False)), fs_open = (\<lambda>_ s. (s, True))\<rparr>"

text \<open>
  C36: When the current directory exists and the recorded keys are XML names, the XML report of an
  iteration is written unless a directory or the file cannot be made, and a reader of XML gets from
  it the tree of the run: its cases and tests in order with their attributes, recorded properties,
  and the messages of all their failures, whatever markup these contain.
\<close>

theorem xml_report_reads_back:
  assumes "reportable_unit u" and "directory_exists fs s ''./''"
  shows "\<exists>s' result r. on_test_iteration_end fs localtime output_file u s = Some (s', result) \<and>
    create_directories_recursively fs (remove_file_name (file_path output_file)) s = Some r \<and>
    (if snd r \<and> snd (fs_open fs (c_str output_file) (fst r))
     then \<exists>doc. result = Written (c_str output_file) doc \<and> read_document doc = Some (unit_element localtime u)
     else \<exists>message. result = Exited message)"
  using report_outcomes [OF assms, of localtime output_file] by blast

theorem xml_report_reads_back_witness:
  "\<exists>doc. on_test_iteration_end open_file_system (\<lambda>_. None) ''out.xml'' one_test () = Some ((), Written ''out.xml'' doc) \<and>
    read_document doc = Some (unit_element (\<lambda>_. None) one_test)"
proof -
  have "ut_indices one_test = [0]" "rs_properties (ut_ad_hoc one_test) = []" by code_simp+
  then have unit: "reportable_unit one_test"
    by (simp add: reportable_unit_def one_test_cases reportable_case_def reportable_properties_def properties_ok_def
        make_test_info_def empty_result_def)
  have dir: "directory_exists open_file_system () ''./''"
    by (simp add: directory_exists_def open_file_system_def is_directory_def)
  have "path_ok ''out.xml''" by (simp add: path_ok_def is_path_separator_def)
  then have parent: "remove_file_name (file_path ''out.xml'') = ''./''"
    by (simp add: file_path_id names_without_separator)
  have made: "create_directories_recursively open_file_system ''./'' () = Some ((), True)"
    using dir by (subst create_directories_recursively.simps) (simp add: is_directory_def)
  show ?thesis
    using xml_report_reads_back [OF unit dir, of "\<lambda>_. None" "''out.xml''"] parent made
    by (auto simp: open_file_system_def c_str_def)
qed

text \<open>
  Every byte of a UTF-8 text outside ASCII is dropped from the report, though its declaration
  names UTF-8: a value comes out as if these bytes had never been there, and a value without ASCII
  characters comes out empty.
\<close>

theorem xml_report_drops_non_ascii:
  "escape_xml_attribute v = escape_xml_attribute (filter (\<lambda>c. (of_char c :: nat) < 128) v) \<and>
   remove_invalid_xml_characters v = remove_invalid_xml_characters (filter (\<lambda>c. (of_char c :: nat) < 128) v) \<and>
   escape_xml_attribute (map char_of [0xC3, 0xBC :: nat]) = []"
proof -
  have other: "escape_xml_char True c = []" if "\<not> (of_char c :: nat) < 128" for c
  proof -
    have "\<not> is_valid_xml_character c" using ascii_only [of c] that by blast
    then show ?thesis by (cases c rule: xml_char_cases) (simp_all add: escaped_other)
  qed
  have "escape_xml_attribute v = escape_xml_attribute (filter (\<lambda>c. (of_char c :: nat) < 128) v)" for v
    unfolding escape_xml_attribute_def escape_xml_eq by (induction v) (simp_all add: other)
  moreover have "remove_invalid_xml_characters v = remove_invalid_xml_characters (filter (\<lambda>c. (of_char c :: nat) < 128) v)"
    unfolding remove_invalid_xml_characters_def filter_filter using ascii_only by (intro filter_cong) auto
  moreover have "escape_xml_attribute (map char_of [0xC3, 0xBC :: nat]) = []"
    unfolding escape_xml_attribute_def escape_xml_eq by (simp add: other)
  ultimately show ?thesis by blast
qed

text \<open>
  While fewer files exist than an \<open>int\<close> can count, the search for a file name that is not in use
  ends, with the first of the numbered names that does not exist.
\<close>

theorem unused_file_name_is_found:
  assumes "path_ok directory" and "path_ok base_name" and "nul \<notin> set extension"
    and "finite {p. file_or_directory_exists fs s p}"
    and "card {p. file_or_directory_exists fs s p} < nat int_max"
  shows "\<exists>k. 0 \<le> k \<and> k < int_max \<and>
    generate_unique_file_name fs s directory base_name extension = Some (make_file_name directory base_name k extension) \<and>
    \<not> file_or_directory_exists fs s (make_file_name directory base_name k extension) \<and>
    (\<forall>j. 0 \<le> j \<and> j < k \<longrightarrow> file_or_directory_exists fs s (make_file_name directory base_name j extension))"
  using generate_unique_first [OF assms] by metis

theorem unused_file_name_is_found_witness:
  "\<exists>k. 0 \<le> k \<and> k < int_max \<and>
    generate_unique_file_name (open_file_system\<lparr>fs_stat := \<lambda>_ p. if p = ''d/t.xml'' then Some False else None\<rparr>) ()
      ''d/'' ''t'' ''xml'' = Some (make_file_name ''d/'' ''t'' k ''xml'') \<and> make_file_name ''d/'' ''t'' k ''xml'' \<noteq> ''d/t.xml''"
proof -
  let ?fs = "open_file_system\<lparr>fs_stat := \<lambda>_ p. if p = ''d/t.xml'' then Some False else None\<rparr>"
  have files: "{p. file_or_directory_exists ?fs () p} = {''d/t.xml''}"
    by (auto simp: file_or_directory_exists_def)
  have paths: "path_ok ''d/''" "path_ok ''t''" "nul \<notin> set ''xml''"
    by (simp_all add: path_ok_def is_path_separator_def)
  have "finite {p. file_or_directory_exists ?fs () p}" "card {p. file_or_directory_exists ?fs () p} < nat int_max"
    unfolding files by (simp_all add: int_max_def)
  from unused_file_name_is_found [OF paths this] show ?thesis by (auto simp: file_or_directory_exists_def)
qed

subsection \<open>Listeners\<close>

text \<open>
  With the documented use of the listeners none is deleted twice and no deleted one is in the
  list; an event is heard by each listener of the list once, in the order of the list or, at the
  end of something, in the reverse order, so that each hears all the events of a run in order.
\<close>

theorem listeners_hear_each_event_once:
  assumes "allowed_run listener_step op_allowed (Inr new_listeners) ops"
  shows "\<exists>ls ns. run_steps listener_step (Inr new_listeners) ops = Inr ls \<and>
    rp_listeners (ls_repeater ls) = map Some ns \<and> distinct ns \<and> set ns \<inter> set (ls_deleted ls) = {} \<and>
    (\<exists>ls'. destroy_listeners ls = Inr ls' \<and> set (ls_deleted ls') = set ns \<union> set (ls_deleted ls)) \<and>
    (event_forwarding_enabled ls \<longrightarrow>
      (\<forall>e. repeater_forward e (ls_repeater ls) = Inr (map (\<lambda>n. (n, e)) (if reversed_event e then rev ns else ns))) \<and>
      (\<forall>es. \<forall>n \<in> set ns. \<exists>calls. forward_all (ls_repeater ls) es = Inr calls \<and>
        map snd (filter (\<lambda>c. fst c = n) calls) = es))"
proof -
  have "listeners_ok new_listeners" by (simp add: listeners_ok_def new_listeners_def new_repeater_def)
  then obtain ls where ls: "run_steps listener_step (Inr new_listeners) ops = Inr ls" "listeners_ok ls"
    using listening.run_inv [OF _ assms] by blast
  obtain ns where ns: "rp_listeners (ls_repeater ls) = map Some ns" "distinct ns" "set ns \<inter> set (ls_deleted ls) = {}"
    using attached_list [OF ls(2)] by blast
  have "distinct (ns @ ls_deleted ls)" using ns listeners_okD(3) [OF ls(2)] by simp
  then have "\<exists>ls'. destroy_listeners ls = Inr ls' \<and> set (ls_deleted ls') = set ns \<union> set (ls_deleted ls)"
    using delete_each_eq [of ns ls] ns(1) by (auto simp: destroy_listeners_def)
  with ls(1) ns show ?thesis
    using forward_eq [OF ns(1)] heard_by [OF ns(1) _ ns(2)] by (auto simp: event_forwarding_enabled_def)
qed

theorem listeners_hear_each_event_once_witness:
  "\<exists>ls ns. run_steps listener_step (Inr new_listeners)
      [Set_printer (Some 0), Set_xml (Some 1), Append 2, Release (Some 0), Set_xml (Some 3)] = Inr ls \<and>
    rp_listeners (ls_repeater ls) = map Some ns \<and> distinct ns \<and> set ns \<inter> set (ls_deleted ls) = {}"
proof -
  have "allowed_run listener_step op_allowed (Inr new_listeners)
      [Set_printer (Some 0), Set_xml (Some 1), Append 2, Release (Some 0), Set_xml (Some 3)]" by code_simp
  from listeners_hear_each_event_once [OF this] show ?thesis by blast
qed

subsection \<open>Streaming\<close>

text \<open>
  A streaming listener that connects and whose bytes are taken tells a receiver, who cuts the
  stream into lines and fields and decodes the values, exactly the fields of each event, whatever
  the files and the messages of failures contain, and closes the connection at the end.
\<close>

theorem streamed_results_are_received:
  assumes "connect_first addresses" and "\<And>t. written t = length t"
    and "\<forall>call \<in> set calls. sendable_call call \<and> (\<forall>u. call \<noteq> On_test_program_end u)"
  shows "\<exists>w w'. make_streaming_listener written None addresses host port = Inr w \<and>
    on_streaming_calls written host port (calls @ [On_test_program_end u]) w = Inr w' \<and> \<not> sw_connected w' \<and>
    read_stream (sw_sent w') = map streaming_fields (Streaming_start # calls @ [On_test_program_end u])"
proof -
  let ?line = "\<lambda>call. streaming_message call @ newline" and ?last = "On_test_program_end u"
  define w where "w = \<lparr>sw_connected = True, sw_sent = ?line Streaming_start, sw_log = []\<rparr>"
  have start: "make_streaming_listener written None addresses host port = Inr w"
    using assms(1,2) by (simp add: make_streaming_listener_def make_connection_def on_streaming_call_def send_ln_def
        send_bytes_def w_def Let_def)
  have more: "on_streaming_calls written host port (xs @ ys) v =
      (case on_streaming_calls written host port xs v of Inl f \<Rightarrow> Inl f | Inr v \<Rightarrow> on_streaming_calls written host port ys v)"
    for xs ys v by (induction xs arbitrary: v) (simp_all split: sum.split)
  have "\<forall>call \<in> set calls. \<forall>u. call \<noteq> On_test_program_end u" "sw_connected w" using assms(3) by (simp_all add: w_def)
  from calls_sent [where written = written, OF assms(2) this]
  have sent: "on_streaming_calls written host port calls w =
      Inr (w\<lparr>sw_sent := sw_sent w @ concat (map ?line calls)\<rparr>)" by simp
  define w' where "w' = \<lparr>sw_connected = False, sw_sent = concat (map ?line (Streaming_start # calls @ [?last])), sw_log = []\<rparr>"
  have "on_streaming_calls written host port [?last] (w\<lparr>sw_sent := sw_sent w @ concat (map ?line calls)\<rparr>) = Inr w'"
    by (simp add: on_streaming_call_def send_ln_def send_bytes_def close_connection_def assms(2) w_def w'_def)
  then have "on_streaming_calls written host port (calls @ [?last]) w = Inr w'" by (simp only: more sent sum.case)
  moreover have "\<forall>call \<in> set (Streaming_start # calls @ [?last]). sendable_call call" using assms(3) by simp
  then have "read_stream (sw_sent w') = map streaming_fields (Streaming_start # calls @ [?last])"
    unfolding w'_def socket_writer.simps by (rule read_stream_messages)
  ultimately show ?thesis using start by (auto simp: w'_def)
qed

theorem streamed_results_are_received_witness:
  "\<exists>w w'. make_streaming_listener length None [(True, False), (True, True)] ''h'' ''1'' = Inr w \<and>
    on_streaming_calls length ''h'' ''1''
      ([On_test_part_result (make_test_part_result K_fatal_failure (Some ''f&g.cc'') 3 ''a=b%'')] @ [On_test_program_end one_test]) w = Inr w' \<and>
    \<not> sw_connected w'"
proof -
  let ?calls = "[On_test_part_result (make_test_part_result K_fatal_failure (Some ''f&g.cc'') 3 ''a=b%'')]"
  have "\<exists>w w'. make_streaming_listener length None [(True, False), (True, True)] ''h'' ''1'' = Inr w \<and>
      on_streaming_calls length ''h'' ''1'' (?calls @ [On_test_program_end one_test]) w = Inr w' \<and> \<not> sw_connected w' \<and>
      read_stream (sw_sent w') = map streaming_fields (Streaming_start # ?calls @ [On_test_program_end one_test])"
    by (rule streamed_results_are_received) simp_all
  then show ?thesis by blast
qed

subsection \<open>Typed tests\<close>

text \<open>
  The registration of a type-parameterized test case is accepted exactly when its names are
  those of the defined tests, each once, and then adds each defined test once with each type.
\<close>

theorem typed_tests_are_registered:
  assumes "death_position_ok u" and "distinct (tt_defined tt)"
  shows "(case verify_registered_test_names source line names tt of
     Inl _ \<Rightarrow> \<not> (distinct (listed_names (skip_spaces names)) \<and> set (listed_names (skip_spaces names)) = set (tt_defined tt))
   | Inr (_, names') \<Rightarrow> mset (listed_names names') = mset (tt_defined tt) \<and>
       (\<exists>v. register_typed_test_case prefix case_name (length (tt_defined tt)) (Some names') types u = Inr v \<and>
         mset (registered_tests v) = mset (registered_tests u) +
           mset (concat (map (typed_tests prefix case_name 0 types) (tt_defined tt)))))"
proof (cases "verify_registered_test_names source line names tt")
  case (Inl e)
  then show ?thesis using verify_iff [of source line names tt] by auto
next
  case (Inr r)
  then have "snd r = skip_spaces names" by (rule verify_names)
  then obtain tt' where r: "r = (tt', skip_spaces names)" by (cases r) auto
  have names: "distinct (listed_names (skip_spaces names))" "set (listed_names (skip_spaces names)) = set (tt_defined tt)"
    using verify_iff [of source line names tt] Inr by auto
  then have listed: "mset (listed_names (skip_spaces names)) = mset (tt_defined tt)"
    using assms(2) by (simp add: set_eq_iff_mset_eq_distinct)
  then have len: "length (tt_defined tt) = length (listed_names (skip_spaces names))" by (metis size_mset)
  have "mset (concat (map f (listed_names (skip_spaces names)))) = mset (concat (map f (tt_defined tt)))"
    for f :: "string \<Rightarrow> (string \<times> string \<times> string option) list"
    using listed by (metis mset_concat mset_map sum_mset_sum_list)
  with registers_all [OF assms(1) len, of prefix case_name types] show ?thesis using Inr r listed by auto
qed

theorem typed_tests_are_registered_witness:
  "mset (listed_names ''A, B'') = {#''A'', ''B''#} \<and>
   (\<exists>v. register_typed_test_case ''P'' ''C'' 2 (Some ''A, B'') [(''int'', 1), (''char'', 2)] one_test = Inr v \<and>
     size (mset (registered_tests v)) = 5)"
proof -
  let ?tt = "\<lparr>tt_registered = False, tt_defined = [''B'', ''A'']\<rparr>"
  have u: "death_position_ok one_test" "length (registered_tests one_test) = 1" by code_simp+
  have "listed_names ''A, B'' = [''A'', ''B'']" and verified: "verify_registered_test_names None 1 '' A, B'' ?tt = Inr (?tt\<lparr>tt_registered := True\<rparr>, ''A, B'')"
    by code_simp+
  have "distinct (tt_defined ?tt)" by simp
  note all = typed_tests_are_registered [OF u(1) this, where source = None and line = 1 and names = "'' A, B''"
      and prefix = "''P''" and case_name = "''C''" and types = "[(''int'', 1), (''char'', 2)]"]
  have len: "length [''B'', ''A''] = 2" by simp
  obtain v where v: "register_typed_test_case ''P'' ''C'' 2 (Some ''A, B'') [(''int'', 1), (''char'', 2)] one_test = Inr v"
    and new: "mset (registered_tests v) = mset (registered_tests one_test) +
      mset (concat (map (typed_tests ''P'' ''C'' 0 [(''int'', 1), (''char'', 2)]) [''B'', ''A'']))"
    using all unfolding verified sum.case prod.case typed_test_case.simps len by blast
  have "size (mset (registered_tests v)) = 5" unfolding new using u(2) by (simp add: typed_tests_def)
  with v show ?thesis using \<open>listed_names ''A, B'' = [''A'', ''B'']\<close> by (auto simp: add_mset_commute)
qed

end
