(* ===== verification/Gtest_Death_Test.thy ===== *)
theory Gtest_Death_Test
  imports Simple_Regex Gtest_Flags Gtest_Filter Gtest_Text
begin

text \<open>
  Death tests (\<open>gtest-death-test.cc\<close>, \<open>gtest-death-test-internal.h\<close>), as compiled for POSIX: the roles
  of parent and child, the byte by which the child reports that its statement did not end the process,
  the verdict of the parent, and the flag by which a re-executed child finds its death test. The
  operating system is a parameter: what \<open>pipe\<close> and \<open>fork\<close> answer, what the reads from the pipe yield,
  the status that \<open>waitpid\<close> yields, and the macros that take it apart; closing a descriptor and
  setting its flags succeed. The theory proves the verdict for every end of the statement, and that
  the flag is read back.
\<close>

subsection \<open>Exit statuses\<close>

text \<open>\<open>WIFEXITED\<close> with \<open>WEXITSTATUS\<close>, \<open>WIFSIGNALED\<close> with \<open>WTERMSIG\<close>, and \<open>WCOREDUMP\<close>.\<close>

record wait_macros =
  wm_exited :: "int \<Rightarrow> int option"
  wm_signaled :: "int \<Rightarrow> int option"
  wm_core_dump :: "int \<Rightarrow> bool"

definition exited_with_code :: "wait_macros \<Rightarrow> int \<Rightarrow> int \<Rightarrow> bool" where
  "exited_with_code wm exit_code exit_status \<longleftrightarrow> wm_exited wm exit_status = Some exit_code"

definition killed_by_signal :: "wait_macros \<Rightarrow> int \<Rightarrow> int \<Rightarrow> bool" where
  "killed_by_signal wm signum exit_status \<longleftrightarrow> wm_signaled wm exit_status = Some signum"

definition exit_summary :: "wait_macros \<Rightarrow> int \<Rightarrow> string" where
  "exit_summary wm exit_code =
     (case wm_exited wm exit_code of
        Some status \<Rightarrow> ''Exited with exit status '' @ string_of_int status
      | None \<Rightarrow> (case wm_signaled wm exit_code of
          Some signum \<Rightarrow> ''Terminated by signal '' @ string_of_int signum
        | None \<Rightarrow> [])) @
     (if wm_core_dump wm exit_code then '' (core dumped)'' else [])"

definition exited_unsuccessfully :: "wait_macros \<Rightarrow> int \<Rightarrow> bool" where
  "exited_unsuccessfully wm exit_status \<longleftrightarrow> \<not> exited_with_code wm 0 exit_status"

definition death_test_thread_warning :: "nat \<Rightarrow> string" where
  "death_test_thread_warning thread_count =
     ''Death tests use fork(), which is unsafe particularly'' @ '' in a threaded context. For this test, Google Test '' @
     (if thread_count = 0 then ''couldn'' @ [apostrophe] @ ''t detect the number of threads.''
      else ''detected '' @ string_of_nat thread_count @ '' threads.'')"

subsection \<open>The state of a death test\<close>

datatype death_test_outcome = Death_in_progress | Death_died | Death_lived | Death_returned | Death_threw

datatype abort_reason = Test_encountered_return_statement | Test_threw_exception | Test_did_not_die

datatype test_role = Oversee_test | Execute_test

record death_test =
  dt_statement :: string
  dt_regex :: re
  dt_spawned :: bool
  dt_status :: int
  dt_outcome :: death_test_outcome
  dt_read_fd :: int
  dt_write_fd :: int

definition make_death_test :: "string \<Rightarrow> re \<Rightarrow> death_test" where
  "make_death_test a_statement a_regex =
     \<lparr>dt_statement = a_statement, dt_regex = a_regex, dt_spawned = False, dt_status = - 1,
      dt_outcome = Death_in_progress, dt_read_fd = - 1, dt_write_fd = - 1\<rparr>"

text \<open>What the process keeps for its death tests; the flag is that of a re-executed child.\<close>

record run_death_test_flag =
  rf_file :: string
  rf_line :: int
  rf_index :: int
  rf_write_fd :: int

record death_process =
  dp_flag :: "run_death_test_flag option"
  dp_last_message :: string
  dp_in_fast_child :: bool
  dp_forwarding :: bool

text \<open>
  How the process ends in place of a return: by a message of severity \<open>FATAL\<close>, by the message of a
  failed check (which a re-executed child writes to the pipe instead of the standard error stream),
  or without a defined behaviour.
\<close>

datatype process_end = Fatal_log string | Aborted string | Aborted_over_pipe int string | Undefined_behaviour

definition death_test_internal_error :: char where "death_test_internal_error = CHR ''I''"

definition death_test_abort :: "death_process \<Rightarrow> string \<Rightarrow> process_end" where
  "death_test_abort p text =
     (case dp_flag p of
        Some flag \<Rightarrow> Aborted_over_pipe (rf_write_fd flag) (death_test_internal_error # c_str text)
      | None \<Rightarrow> Aborted (c_str text))"

definition check_failed :: "string \<Rightarrow> int \<Rightarrow> string \<Rightarrow> string" where
  "check_failed file_macro line expression =
     ''CHECK failed: File '' @ file_macro @ '', line '' @ string_of_int line @ '': '' @ expression"

definition in_death_test_child :: "gtest_flags \<Rightarrow> death_process \<Rightarrow> bool" where
  "in_death_test_child flags p \<longleftrightarrow>
     (if fl_death_test_style flags = ''threadsafe'' then fl_internal_run_death_test flags \<noteq> [] else dp_in_fast_child p)"

subsection \<open>The pipe\<close>

text \<open>
  What the reads of a descriptor meet, in order: bytes, an interruption by a signal, an error; when
  there is nothing left the other end is closed. \<open>read_fd\<close> reads up to a number of bytes.
\<close>

datatype pipe_event = Chunk string | Interruption | Read_error int

datatype read_result = Got string | End_of_file | Interrupted | Failed int

fun read_fd :: "nat \<Rightarrow> pipe_event list \<Rightarrow> read_result \<times> pipe_event list" where
  "read_fd n [] = (End_of_file, [])"
| "read_fd n (Chunk s # es) =
     (if s = [] then read_fd n es else (Got (take n s), if length s \<le> n then es else Chunk (drop n s) # es))"
| "read_fd n (Interruption # es) = (Interrupted, es)"
| "read_fd n (Read_error e # es) = (Failed e, es)"

fun event_size :: "pipe_event \<Rightarrow> nat" where
  "event_size (Chunk s) = Suc (length s)"
| "event_size _ = 1"

lemma read_fd_shorter:
  "(r, es') = read_fd n es \<Longrightarrow> 0 < n \<Longrightarrow> r \<noteq> End_of_file \<Longrightarrow> sum_list (map event_size es') < sum_list (map event_size es)"
  by (induction n es arbitrary: r es' rule: read_fd.induct) (auto simp: less_SucI split: if_splits)

function read_uninterrupted :: "pipe_event list \<Rightarrow> read_result \<times> pipe_event list" where
  "read_uninterrupted es =
     (case read_fd 1 es of
        (Interrupted, es) \<Rightarrow> read_uninterrupted es
      | r \<Rightarrow> r)"
  by pat_completeness auto
termination
  by (relation "measure (\<lambda>es. sum_list (map event_size es))") (auto dest: read_fd_shorter)

declare read_uninterrupted.simps [simp del]

definition get_last_errno_description :: "(int \<Rightarrow> string) \<Rightarrow> int \<Rightarrow> string" where
  "get_last_errno_description strerror errno = (if errno = 0 then [] else strerror errno)"

text \<open>The loops of \<open>FailFromInternalError\<close>, with the message so far; the process then ends.\<close>

function fail_from_internal_error :: "(int \<Rightarrow> string) \<Rightarrow> string \<Rightarrow> pipe_event list \<Rightarrow> process_end" where
  "fail_from_internal_error strerror error es =
     (case read_fd 255 es of
        (Got buffer, es) \<Rightarrow> fail_from_internal_error strerror (error @ c_str buffer) es
      | (Interrupted, es) \<Rightarrow> fail_from_internal_error strerror error es
      | (End_of_file, es) \<Rightarrow> Fatal_log (string_stream_to_string error)
      | (Failed last_error, es) \<Rightarrow>
          Fatal_log (''Error while reading death test internal: '' @ get_last_errno_description strerror last_error @
            '' ['' @ string_of_int last_error @ '']''))"
  by pat_completeness auto
termination
  by (relation "measure (\<lambda>(strerror, error, es). sum_list (map event_size es))") (auto dest: read_fd_shorter)

declare fail_from_internal_error.simps [simp del]

definition death_test_lived :: char where "death_test_lived = CHR ''L''"
definition death_test_returned :: char where "death_test_returned = CHR ''R''"
definition death_test_threw :: char where "death_test_threw = CHR ''T''"

definition read_and_interpret_status_byte ::
  "(int \<Rightarrow> string) \<Rightarrow> pipe_event list \<Rightarrow> death_test \<Rightarrow> process_end + death_test" where
  "read_and_interpret_status_byte strerror es dt =
     (let conclude = (\<lambda>outcome. Inr (dt\<lparr>dt_outcome := outcome, dt_read_fd := - 1\<rparr>))
      in case read_uninterrupted es of
           (Got (flag # _), es) \<Rightarrow>
             if flag = death_test_returned then conclude Death_returned
             else if flag = death_test_threw then conclude Death_threw
             else if flag = death_test_lived then conclude Death_lived
             else if flag = death_test_internal_error then Inl (fail_from_internal_error strerror [] es)
             else Inl (Fatal_log (''Death test child process reported unexpected status byte ('' @
               string_of_int (uint (scast (word_of_int (of_char flag) :: 8 word) :: 32 word)) @ '')''))
         | (Failed errno, es) \<Rightarrow>
             Inl (Fatal_log (''Read from death test child process failed: '' @ get_last_errno_description strerror errno))
         | _ \<Rightarrow> conclude Death_died)"

text \<open>
  \<open>Wait\<close>: \<open>waited\<close> is the status of the child, or \<open>None\<close> when \<open>waitpid\<close> fails. Yields the status as well.
\<close>

definition wait_for_child ::
  "(int \<Rightarrow> string) \<Rightarrow> string \<Rightarrow> pipe_event list \<Rightarrow> int option \<Rightarrow> death_process \<Rightarrow> death_test \<Rightarrow> process_end + int \<times> death_test" where
  "wait_for_child strerror file_macro es waited p dt =
     (if \<not> dt_spawned dt then Inr (0, dt)
      else case read_and_interpret_status_byte strerror es dt of
        Inl e \<Rightarrow> Inl e
      | Inr dt \<Rightarrow>
          (case waited of
             None \<Rightarrow> Inl (death_test_abort p (check_failed file_macro 806 ''waitpid(child_pid_, &status_value, 0) != -1''))
           | Some status_value \<Rightarrow> Inr (status_value, dt\<lparr>dt_status := status_value\<rparr>)))"

subsection \<open>The verdict\<close>

function format_death_test_output :: "string \<Rightarrow> string" where
  "format_death_test_output text_read =
     (let line = takeWhile (\<lambda>c. c \<noteq> CHR 0x0A) text_read; rest = drop (length line + 1) text_read
      in ''[  DEATH   ] '' @ (if length line = length text_read then text_read
           else line @ newline @ format_death_test_output rest))"
  by pat_completeness auto
termination
proof (relation "measure length")
  fix text_read line rest :: string
  assume "line = takeWhile (\<lambda>c. c \<noteq> CHR 0x0A) text_read" "rest = drop (length line + 1) text_read" "length line \<noteq> length text_read"
  moreover from this have "length line < length text_read" by (simp add: length_takeWhile_le order.not_eq_order_implies_strict)
  ultimately show "(rest, text_read) \<in> measure length" by simp
qed simp

declare format_death_test_output.simps [simp del]

definition with_output :: "string \<Rightarrow> string \<Rightarrow> string" where
  "with_output result error_message =
     ''    Result: '' @ result @ newline @ '' Error msg:'' @ newline @ format_death_test_output error_message"

text \<open>
  \<open>Passed\<close>: \<open>error_message\<close> is what the standard error stream held. Yields the verdict, and the
  message is kept by the process. A regular expression beyond the limits has no defined result.
\<close>

definition death_test_passed ::
  "wait_macros \<Rightarrow> string \<Rightarrow> bool \<Rightarrow> death_test \<Rightarrow> death_process \<Rightarrow> process_end + bool \<times> death_process" where
  "death_test_passed wm error_message status_ok dt p =
     (if \<not> dt_spawned dt then Inr (False, p)
      else
        (let conclude = (\<lambda>success buffer. Inr (success, p\<lparr>dp_last_message :=
               string_stream_to_string (''Death test: '' @ dt_statement dt @ newline @ buffer)\<rparr>))
         in case dt_outcome dt of
              Death_lived \<Rightarrow> conclude False (with_output ''failed to die.'' error_message)
            | Death_threw \<Rightarrow> conclude False (with_output ''threw an exception.'' error_message)
            | Death_returned \<Rightarrow> conclude False (with_output ''illegal return in test statement.'' error_message)
            | Death_died \<Rightarrow>
                if status_ok then
                  (case re_partial_match (Some (c_str error_message)) (dt_regex dt) of
                     None \<Rightarrow> Inl Undefined_behaviour
                   | Some True \<Rightarrow> conclude True []
                   | Some False \<Rightarrow> conclude False (''    Result: died but not with expected error.'' @ newline @
                       ''  Expected: '' @ show_c_string (re_pattern (dt_regex dt)) @ newline @
                       ''Actual msg:'' @ newline @ format_death_test_output error_message))
                else conclude False (''    Result: died but not with expected exit code:'' @ newline @
                  ''            '' @ exit_summary wm (dt_status dt) @ newline @
                  ''Actual msg:'' @ newline @ format_death_test_output error_message)
            | Death_in_progress \<Rightarrow>
                Inl (Fatal_log ''DeathTest::Passed somehow called before conclusion of test'')))"

subsection \<open>The flag of a re-executed child\<close>

definition parse_natural_number :: "string \<Rightarrow> int option" where
  "parse_natural_number str =
     (if str = [] \<or> \<not> is_digit (hd str) then None
      else
        (let value = decimal (takeWhile is_digit (c_str str)); rest = dropWhile is_digit (c_str str);
             parse_success = (rest = [] \<and> value < 2 ^ 64);
             parsed = word_of_nat value :: 64 word; result = ucast parsed :: 32 word
         in if parse_success \<and> scast result = parsed then Some (sint result) else None))"

function split_string :: "string \<Rightarrow> char \<Rightarrow> string list" where
  "split_string str delimiter =
     (case dropWhile (\<lambda>c. c \<noteq> delimiter) str of
        [] \<Rightarrow> [str]
      | _ # rest \<Rightarrow> takeWhile (\<lambda>c. c \<noteq> delimiter) str # split_string rest delimiter)"
  by pat_completeness auto
termination
proof (relation "measure (length \<circ> fst)")
  fix str rest :: string and delimiter c
  assume "dropWhile (\<lambda>c. c \<noteq> delimiter) str = c # rest"
  then have "Suc (length rest) \<le> length str" by (metis length_Cons length_dropWhile_le)
  then show "((rest, delimiter), str, delimiter) \<in> measure (length \<circ> fst)" by simp
qed simp

declare split_string.simps [simp del]

definition parse_internal_run_death_test_flag ::
  "gtest_flags \<Rightarrow> death_process \<Rightarrow> process_end + run_death_test_flag option" where
  "parse_internal_run_death_test_flag flags p =
     (let value = fl_internal_run_death_test flags;
          bad = Inl (death_test_abort p (''Bad --gtest_internal_run_death_test flag: '' @ value))
      in if value = [] then Inr None
         else case split_string (c_str value) CHR ''|'' of
           [file, line, index, write_fd] \<Rightarrow>
             (case (parse_natural_number line, parse_natural_number index, parse_natural_number write_fd) of
                (Some line, Some index, Some write_fd) \<Rightarrow>
                  Inr (Some \<lparr>rf_file = file, rf_line = line, rf_index = index, rf_write_fd = write_fd\<rparr>)
              | _ \<Rightarrow> bad)
         | _ \<Rightarrow> bad)"

subsection \<open>The kinds of death tests and their roles\<close>

datatype death_test_kind = Exec_death_test | No_exec_death_test

text \<open>
  The factory, with the count of death tests in the current test, this one included. \<open>None\<close> is the
  result false, with a message; \<open>Some None\<close> is a null pointer: the death test is skipped.
\<close>

definition create_by_style ::
  "gtest_flags \<Rightarrow> death_process \<Rightarrow> death_process \<times> death_test_kind option option" where
  "create_by_style flags p =
     (if fl_death_test_style flags = ''threadsafe'' then (p, Some (Some Exec_death_test))
      else if fl_death_test_style flags = ''fast'' then (p, Some (Some No_exec_death_test))
      else (p\<lparr>dp_last_message := ''Unknown death test style '' @ [quote] @ fl_death_test_style flags @ [quote] @
        '' encountered''\<rparr>, None))"

definition default_death_test_factory_create ::
  "gtest_flags \<Rightarrow> string \<Rightarrow> int \<Rightarrow> int \<Rightarrow> death_process \<Rightarrow> death_process \<times> death_test_kind option option" where
  "default_death_test_factory_create flags file line death_test_index p =
     (case dp_flag p of
        Some flag \<Rightarrow>
          if rf_index flag < death_test_index then
            (p\<lparr>dp_last_message := ''Death test count ('' @ string_of_int death_test_index @
              '') somehow exceeded expected maximum ('' @ string_of_int (rf_index flag) @ '')''\<rparr>, None)
          else if \<not> (rf_file flag = file \<and> rf_line flag = line \<and> rf_index flag = death_test_index) then (p, Some None)
          else create_by_style flags p
      | None \<Rightarrow> create_by_style flags p)"

text \<open>
  The roles: \<open>pipe_fd\<close> is what \<open>pipe\<close> yields, \<open>child_pid\<close> what \<open>fork\<close> (or the start of the other program)
  yields. The fast style runs on in the child (for which \<open>fork\<close> yields 0); also the warning that is logged.
\<close>

definition no_exec_assume_role ::
  "string \<Rightarrow> nat \<Rightarrow> (int \<times> int) option \<Rightarrow> int \<Rightarrow> death_test \<Rightarrow> death_process \<Rightarrow>
    process_end + test_role \<times> death_test \<times> death_process \<times> string list" where
  "no_exec_assume_role file_macro thread_count pipe_fd child_pid dt p =
     (let warnings = (if thread_count \<noteq> 1 then [death_test_thread_warning thread_count] else [])
      in case pipe_fd of
           None \<Rightarrow> Inl (death_test_abort p (check_failed file_macro 829 ''pipe(pipe_fd) != -1''))
         | Some (read_end, write_end) \<Rightarrow>
             let p = p\<lparr>dp_last_message := []\<rparr>
             in if child_pid = - 1 then Inl (death_test_abort p (check_failed file_macro 843 ''child_pid != -1''))
                else if child_pid = 0 then
                  Inr (Execute_test, dt\<lparr>dt_write_fd := write_end\<rparr>, p\<lparr>dp_forwarding := False, dp_in_fast_child := True\<rparr>, warnings)
                else Inr (Oversee_test, dt\<lparr>dt_read_fd := read_end, dt_spawned := True\<rparr>, p, warnings))"

definition death_test_filter_flag :: "string \<Rightarrow> string \<Rightarrow> string" where
  "death_test_filter_flag test_case_name name = ''--gtest_filter='' @ test_case_name @ ''.'' @ name"

definition death_test_internal_flag :: "string \<Rightarrow> int \<Rightarrow> int \<Rightarrow> int \<Rightarrow> string" where
  "death_test_internal_flag file line death_test_index write_end =
     ''--gtest_internal_run_death_test='' @ file @ ''|'' @ string_of_int line @ ''|'' @
     string_of_int death_test_index @ ''|'' @ string_of_int write_end"

text \<open>The threadsafe style, with the arguments of the program that is started.\<close>

definition exec_assume_role ::
  "string \<Rightarrow> string list \<Rightarrow> string \<Rightarrow> string \<Rightarrow> int \<Rightarrow> string \<Rightarrow> int \<Rightarrow> (int \<times> int) option \<Rightarrow> int \<Rightarrow> death_test \<Rightarrow> death_process \<Rightarrow>
    process_end + test_role \<times> death_test \<times> death_process \<times> string list" where
  "exec_assume_role file_macro argvs test_case_name name death_test_index file line pipe_fd child_pid dt p =
     (case dp_flag p of
        Some flag \<Rightarrow> Inr (Execute_test, dt\<lparr>dt_write_fd := rf_write_fd flag\<rparr>, p, [])
      | None \<Rightarrow>
          (case pipe_fd of
             None \<Rightarrow> Inl (death_test_abort p (check_failed file_macro 1113 ''pipe(pipe_fd) != -1''))
           | Some (read_end, write_end) \<Rightarrow>
               let args = argvs @ [death_test_filter_flag test_case_name name,
                     death_test_internal_flag file line death_test_index write_end];
                   p = p\<lparr>dp_last_message := []\<rparr>
               in if child_pid = - 1 then Inl (death_test_abort p (check_failed file_macro 1092 ''child_pid != -1''))
                  else Inr (Oversee_test, dt\<lparr>dt_read_fd := read_end, dt_spawned := True\<rparr>, p, args)))"

subsection \<open>The child\<close>

text \<open>
  How the statement of a death test ends in the child, with what it has written to the standard
  error stream: by a death with a status, by its end, by a return, or by an exception.
\<close>

datatype statement_end =
    Dies int string
  | Ends string
  | Returns string
  | Throws_exception string string
  | Throws_other string

definition abort_byte :: "abort_reason \<Rightarrow> char" where
  "abort_byte reason =
     (if reason = Test_did_not_die then death_test_lived
      else if reason = Test_threw_exception then death_test_threw else death_test_returned)"

text \<open>
  What the child writes to the pipe and to the standard error stream, and its status; \<open>exit_one\<close> is the
  status of a process that has called \<open>_exit(1)\<close>.
\<close>

definition execute_death_test_statement ::
  "int \<Rightarrow> string \<Rightarrow> int \<Rightarrow> statement_end \<Rightarrow> string \<times> string \<times> int" where
  "execute_death_test_statement exit_one file line e =
     (case e of
        Dies status err \<Rightarrow> ([], err, status)
      | Ends err \<Rightarrow> ([abort_byte Test_did_not_die], err, exit_one)
      | Returns err \<Rightarrow> ([abort_byte Test_encountered_return_statement], err, exit_one)
      | Throws_exception what err \<Rightarrow>
          ([abort_byte Test_threw_exception],
           err @ newline @ format_file_location (Some file) line @ '': Caught std::exception-derived exception escaping the '' @
             ''death test statement. Exception message: '' @ what @ newline, exit_one)
      | Throws_other err \<Rightarrow> ([abort_byte Test_threw_exception], err, exit_one))"

text \<open>
  The macro in the parent: waits, applies the predicate to the status, and passes or fails with the
  last message.
\<close>

definition oversee_death_test ::
  "wait_macros \<Rightarrow> (int \<Rightarrow> string) \<Rightarrow> string \<Rightarrow> (int \<Rightarrow> bool) \<Rightarrow> pipe_event list \<Rightarrow> int option \<Rightarrow> string \<Rightarrow> death_test \<Rightarrow>
    death_process \<Rightarrow> process_end + bool \<times> death_process" where
  "oversee_death_test wm strerror file_macro predicate es waited error_message dt p =
     (case wait_for_child strerror file_macro es waited p dt of
        Inl e \<Rightarrow> Inl e
      | Inr (status, dt) \<Rightarrow> death_test_passed wm error_message (predicate status) dt p)"

subsection \<open>What the parent reads\<close>

text \<open>The reads yield the bytes, in any pieces and with any interruptions, and no error.\<close>

fun delivers :: "pipe_event list \<Rightarrow> string \<Rightarrow> bool" where
  "delivers [] bytes \<longleftrightarrow> bytes = []"
| "delivers (Chunk s # es) bytes \<longleftrightarrow> take (length s) bytes = s \<and> delivers es (drop (length s) bytes)"
| "delivers (Interruption # es) bytes \<longleftrightarrow> delivers es bytes"
| "delivers (Read_error e # es) bytes \<longleftrightarrow> False"

lemma delivers_cut: "delivers (Chunk s # es) bytes \<longleftrightarrow> (\<exists>r. bytes = s @ r \<and> delivers es r)"
  by (auto simp: append_eq_conv_conj) (metis append_take_drop_id)

lemma read_delivered:
  "delivers es bytes \<Longrightarrow> \<exists>es'. read_uninterrupted es = (if bytes = [] then End_of_file else Got [hd bytes], es') \<and>
    delivers es' (tl bytes)"
proof (induction es arbitrary: bytes)
  case Nil
  then show ?case by (subst read_uninterrupted.simps) simp
next
  case (Cons e es)
  show ?case
  proof (cases e)
    case (Chunk s)
    then obtain r where r: "bytes = s @ r" "delivers es r" using Cons.prems by (auto simp only: delivers_cut)
    show ?thesis
    proof (cases s)
      case Nil
      then have "read_uninterrupted (e # es) = read_uninterrupted es" "bytes = r"
        using r(1) by (simp_all add: Chunk read_uninterrupted.simps [of "_ # _"] read_uninterrupted.simps [of es])
      then show ?thesis using Cons.IH [OF r(2)] by (cases r) simp_all
    next
      case s: (Cons c cs)
      show ?thesis
      proof (cases cs)
        case Nil
        then show ?thesis using r s by (subst read_uninterrupted.simps) (auto simp: Chunk)
      next
        case (Cons d ds)
        then show ?thesis using r s by (subst read_uninterrupted.simps) (auto simp: Chunk)
      qed
    qed
  next
    case Interruption
    then show ?thesis using Cons by (subst read_uninterrupted.simps) simp
  next
    case (Read_error n)
    then show ?thesis using Cons.prems by simp
  qed
qed

lemmas status_byte_defs = abort_byte_def death_test_lived_def death_test_threw_def death_test_returned_def
  death_test_internal_error_def

definition outcome_of :: "statement_end \<Rightarrow> death_test_outcome" where
  "outcome_of e =
     (case e of Dies status err \<Rightarrow> Death_died | Ends err \<Rightarrow> Death_lived | Returns err \<Rightarrow> Death_returned | _ \<Rightarrow> Death_threw)"

lemma outcome_read:
  assumes "execute_death_test_statement exit_one file line e = (bytes, err, status)" and "delivers es bytes"
  shows "read_and_interpret_status_byte strerror es dt = Inr (dt\<lparr>dt_outcome := outcome_of e, dt_read_fd := - 1\<rparr>)"
proof -
  obtain es' where "read_uninterrupted es = (if bytes = [] then End_of_file else Got [hd bytes], es')"
    using read_delivered [OF assms(2)] by blast
  then show ?thesis using assms(1)
    by (cases e) (auto simp: read_and_interpret_status_byte_def execute_death_test_statement_def outcome_of_def status_byte_defs)
qed

text \<open>The verdict for each end of the statement.\<close>

lemma verdict:
  assumes "execute_death_test_statement exit_one file line e = (bytes, err, status)" and "delivers es bytes"
    and "dt_spawned dt" and "re_partial_match (Some (c_str err)) (dt_regex dt) = Some matched"
  shows "\<exists>p'. oversee_death_test wm strerror file_macro predicate es (Some status) err dt p =
    Inr ((\<exists>s t. e = Dies s t) \<and> predicate status \<and> matched, p')"
proof (cases e)
  case (Dies s t)
  then show ?thesis using outcome_read [OF assms(1,2), of strerror dt] assms(3,4)
    by (cases "predicate status"; cases matched)
      (simp_all add: oversee_death_test_def wait_for_child_def death_test_passed_def outcome_of_def Let_def)
qed (use outcome_read [OF assms(1,2), of strerror dt] assms(3) in
  \<open>simp_all add: oversee_death_test_def wait_for_child_def death_test_passed_def outcome_of_def Let_def\<close>)

subsection \<open>The child finds its death test\<close>

lemma int_through_words:
  assumes "k < 2 ^ 31"
  shows "sint (ucast (word_of_nat k :: 64 word) :: 32 word) = int k"
    and "scast (ucast (word_of_nat k :: 64 word) :: 32 word) = (word_of_nat k :: 64 word)"
proof -
  have "take_bit 64 k = k" using assms by (simp add: take_bit_nat_eq_self)
  moreover have "signed_take_bit 31 (int k) = int k" using assms by (intro signed_take_bit_int_eq_self) simp_all
  ultimately show "sint (ucast (word_of_nat k :: 64 word) :: 32 word) = int k"
    and "scast (ucast (word_of_nat k :: 64 word) :: 32 word) = (word_of_nat k :: 64 word)"
    by (simp_all add: unsigned_of_nat signed_of_nat)
qed

lemma digits_no_nul:
  assumes "list_all is_digit ds"
  shows "c_str ds = ds"
  unfolding c_str_def by (rule takeWhile_eq_all_conv [THEN iffD2])
    (use assms in \<open>auto simp: list_all_iff is_digit_def between_def\<close>)

lemma parse_natural_number_inverse:
  assumes "0 \<le> n" and "n < 2 ^ 31"
  shows "parse_natural_number (string_of_int n) = Some n"
proof -
  define ds where "ds = string_of_nat (nat n)"
  have ds: "list_all is_digit ds" "ds \<noteq> []" "decimal ds = nat n"
    using string_of_nat_decimal [of "nat n"] by (simp_all add: ds_def)
  have cut: "takeWhile is_digit ds = ds" "dropWhile is_digit ds = []" using ds(1) by (simp_all add: list_all_iff)
  have "is_digit (hd ds)" using ds(1,2) by (cases ds) simp_all
  moreover have k: "nat n < 2 ^ 31" using assms by simp
  ultimately show ?thesis using assms(1) ds(2) int_through_words [OF k]
    by (simp add: parse_natural_number_def string_of_int_def Let_def cut ds(3) digits_no_nul [OF ds(1)] flip: ds_def)
qed

text \<open>A number beyond the range of \<open>int\<close> that is not refused.\<close>

lemma natural_number_may_be_negative: "parse_natural_number ''18446744073709551615'' = Some (- 1)"
proof -
  let ?ds = "''18446744073709551615''"
  have "list_all is_digit ?ds" by code_simp
  then have "takeWhile is_digit (c_str ?ds) = ?ds" "dropWhile is_digit (c_str ?ds) = []" "is_digit (hd ?ds)"
    by (simp_all add: digits_no_nul list_all_iff)
  moreover have "decimal ?ds = 18446744073709551615" by (simp add: decimal_def)
  ultimately show ?thesis by (simp add: parse_natural_number_def Let_def)
qed

lemma split_step:
  assumes "d \<notin> set s"
  shows "split_string (s @ d # r) d = s # split_string r d" and "split_string s d = [s]"
proof -
  have cut: "dropWhile (\<lambda>c. c \<noteq> d) (s @ d # r) = d # r" "takeWhile (\<lambda>c. c \<noteq> d) (s @ d # r) = s" "dropWhile (\<lambda>c. c \<noteq> d) s = []"
    using assms by (induction s) auto
  show "split_string (s @ d # r) d = s # split_string r d" and "split_string s d = [s]"
    by (simp_all add: split_string.simps [of "s @ d # r"] split_string.simps [of s] cut)
qed

lemma written_int_plain: "0 \<le> n \<Longrightarrow> CHR ''|'' \<notin> set (string_of_int n) \<and> nul \<notin> set (string_of_int n)"
  using string_of_nat_decimal [of "nat n"]
  by (auto simp: string_of_int_def list_all_iff is_digit_def between_def)

definition death_test_flag_value :: "string \<Rightarrow> int \<Rightarrow> int \<Rightarrow> int \<Rightarrow> string" where
  "death_test_flag_value file line index write_end =
     file @ ''|'' @ string_of_int line @ ''|'' @ string_of_int index @ ''|'' @ string_of_int write_end"

lemma flag_read_back:
  assumes "CHR ''|'' \<notin> set source" and "nul \<notin> set source"
    and "0 \<le> line" and "line < 2 ^ 31" and "0 \<le> index" and "index < 2 ^ 31" and "0 \<le> fd" and "fd < 2 ^ 31"
    and "fl_internal_run_death_test flags = death_test_flag_value source line index fd"
  shows "parse_internal_run_death_test_flag flags p =
    Inr (Some \<lparr>rf_file = source, rf_line = line, rf_index = index, rf_write_fd = fd\<rparr>)"
proof -
  let ?v = "death_test_flag_value source line index fd"
  have "nul \<notin> set ?v" using assms written_int_plain by (simp add: death_test_flag_value_def)
  then have "c_str ?v = ?v" unfolding c_str_def by (intro takeWhile_eq_all_conv [THEN iffD2]) auto
  moreover have "split_string ?v CHR ''|'' = [source, string_of_int line, string_of_int index, string_of_int fd]"
    using assms written_int_plain by (simp add: death_test_flag_value_def split_step)
  moreover have "?v \<noteq> []" by (simp add: death_test_flag_value_def)
  ultimately show ?thesis using assms
    by (simp add: parse_internal_run_death_test_flag_def Let_def parse_natural_number_inverse)
qed

lemma internal_flag_parsed:
  "parse_google_test_flag (flag_argument ''internal_run_death_test'' v) fl =
     (Some (fl\<lparr>fl_internal_run_death_test := v\<rparr>), [])"
  unfolding parse_google_test_flag_def by (simp add: try_other try_own)

lemma plain_argument: "nul \<notin> set a \<Longrightarrow> c_str (string_stream_to_string a) = a"
proof -
  assume a: "nul \<notin> set a"
  then have "string_stream_to_string a = a" unfolding string_stream_to_string_def by (induction a) auto
  moreover have "c_str a = a" using a unfolding c_str_def by (intro takeWhile_eq_all_conv [THEN iffD2]) auto
  ultimately show ?thesis by simp
qed

lemma parse_flags_append:
  "fst (parse_flags_loop (args @ more_args) fl h) = fst (parse_flags_loop more_args (fst (parse_flags_loop args fl h))
    (fst (snd (parse_flags_loop args fl h))))"
proof (induction args arbitrary: fl h)
  case (Cons a args)
  obtain fl1 w where p: "parse_google_test_flag (c_str (string_stream_to_string a)) fl = (fl1, w)" by fastforce
  show ?case using Cons by (cases fl1) (simp_all add: p case_prod_beta Let_def)
qed simp

lemma child_flags:
  assumes "argvs \<noteq> []" and "nul \<notin> set test_case_name" and "nul \<notin> set name" and "nul \<notin> set source"
    and "0 \<le> line" and "0 \<le> index" and "0 \<le> fd"
  shows "\<exists>fl1. fst (parse_google_test_flags_only (argvs @ [death_test_filter_flag test_case_name name,
      death_test_internal_flag source line index fd]) fl h) =
    fl1\<lparr>fl_filter := test_case_name @ ''.'' @ name, fl_internal_run_death_test := death_test_flag_value source line index fd\<rparr>"
proof -
  let ?a = "flag_argument ''filter'' (test_case_name @ ''.'' @ name)"
    and ?b = "flag_argument ''internal_run_death_test'' (death_test_flag_value source line index fd)"
  have args: "death_test_filter_flag test_case_name name = ?a" "death_test_internal_flag source line index fd = ?b"
    by (simp_all add: death_test_filter_flag_def death_test_internal_flag_def flag_argument_def death_test_flag_value_def)
  have "nul \<notin> set ?a" "nul \<notin> set ?b"
    using assms written_int_plain by (simp_all add: flag_argument_def death_test_flag_value_def)
  then have last: "fst (parse_flags_loop [?a, ?b] fl1 h1) = fl1\<lparr>fl_filter := test_case_name @ ''.'' @ name,
      fl_internal_run_death_test := death_test_flag_value source line index fd\<rparr>" for fl1 h1
    by (simp add: plain_argument flags_parsed internal_flag_parsed)
  obtain program rest where argvs: "argvs = program # rest" using assms(1) by (cases argvs) auto
  have "fst (parse_google_test_flags_only (argvs @ [?a, ?b]) fl h) = fst (parse_flags_loop (rest @ [?a, ?b]) fl h)"
    by (simp add: parse_google_test_flags_only_def argvs split: prod.split)
  then show ?thesis unfolding args parse_flags_append last by blast
qed

text \<open>A filter that names one test selects this test only.\<close>

lemma plain_filter:
  assumes "set f \<inter> set ''?*:-'' = {}" and "f \<noteq> []"
  shows "filter_matches_test f c n \<longleftrightarrow> c @ ''.'' @ n = f"
proof -
  have lang: "set f \<inter> set ''?*:-'' = {} \<Longrightarrow> glob_lang f = {f}" for f by (induction f) auto
  have colon: "set f \<inter> set ''?*:-'' = {} \<Longrightarrow> takeWhile (\<lambda>c. c \<noteq> CHR '':'') f = f \<and> dropWhile (\<lambda>c. c \<noteq> CHR '':'') f = [] \<and>
      dropWhile (\<lambda>c. c \<noteq> CHR ''-'') f = []" for f
    by (induction f) auto
  have "matches_filter x f \<longleftrightarrow> x = f" for x
    by (simp add: matches_filter_lang patterns_of.simps [of f] lang [OF assms(1)] colon [OF assms(1)])
  moreover have "\<not> matches_filter (c @ ''.'' @ n) []" by (simp add: matches_filter_lang patterns_of.simps)
  ultimately show ?thesis using assms(2) by (simp add: filter_matches_test_def colon [OF assms(1)])
qed

end
