(* ===== verification/Gtest_Generators.thy ===== *)
theory Gtest_Generators
  imports Gtest_Base
begin

text \<open>
  The generators of parameters for value-parameterized tests (\<open>gtest-param-util.h\<close>,
  \<open>gtest-param-util-generated.h\<close>, \<open>gtest-param-test.h\<close>). A generator is a record of its five
  operations over iterators; the tuples of a product are lists, and its two to ten components are a
  list, with one type for the iterators of all components and one for their values. The locale
  \<open>enumeration\<close> is the contract of a generator; it is interpreted for ranges, lists of values and
  products, whose values are shown to be all combinations in lexicographic order.
\<close>

record ('i, 'a) param_generator =
  pg_begin :: 'i
  pg_end :: 'i
  pg_advance :: "'i \<Rightarrow> fault + 'i"
  pg_current :: "'i \<Rightarrow> 'a"
  pg_equals :: "'i \<Rightarrow> 'i \<Rightarrow> bool"

subsection \<open>Ranges and lists of values\<close>

text \<open>
  The loop that counts the values of a range; \<open>lt\<close> and \<open>add\<close> are the operators of the type. A
  count of \<open>None\<close> means that the loop does not end.
\<close>

partial_function (option) calculate_end_index ::
  "('a \<Rightarrow> 'a \<Rightarrow> bool) \<Rightarrow> ('a \<Rightarrow> 'b \<Rightarrow> 'a) \<Rightarrow> 'a \<Rightarrow> 'a \<Rightarrow> 'b \<Rightarrow> int \<Rightarrow> int option" where
  [code]: "calculate_end_index lt add i stop step end_index =
     (if lt i stop then calculate_end_index lt add (add i step) stop step (end_index + 1) else Some end_index)"

definition range_generator ::
  "('a \<Rightarrow> 'a \<Rightarrow> bool) \<Rightarrow> ('a \<Rightarrow> 'b \<Rightarrow> 'a) \<Rightarrow> 'a \<Rightarrow> 'a \<Rightarrow> 'b \<Rightarrow> ('a \<times> int, 'a) param_generator option" where
  "range_generator lt add start stop step =
     map_option (\<lambda>end_index.
       \<lparr>pg_begin = (start, 0), pg_end = (stop, end_index),
        pg_advance = (\<lambda>(v, index). Inr (add v step, index + 1)),
        pg_current = fst, pg_equals = (\<lambda>(v, index) (w, other_index). index = other_index)\<rparr>)
     (calculate_end_index lt add start stop step 0)"

definition values_in :: "'a list \<Rightarrow> (nat, 'a) param_generator" where
  "values_in container =
     \<lparr>pg_begin = 0, pg_end = length container,
      pg_advance = (\<lambda>i. if i < length container then Inr (i + 1) else Inl Invalid_iterator),
      pg_current = (\<lambda>i. container ! i), pg_equals = (=)\<rparr>"

definition values_of :: "'a list \<Rightarrow> (nat, 'a) param_generator" where
  "values_of vs = values_in vs"

definition bool_values :: "(nat, bool) param_generator" where
  "bool_values = values_of [False, True]"

subsection \<open>Products\<close>

record ('i, 'a) product_iterator =
  pi_currents :: "'i list"
  pi_value :: "'a list"

definition product_at_end :: "('i, 'a) param_generator list \<Rightarrow> 'i list \<Rightarrow> bool" where
  "product_at_end gs cs \<longleftrightarrow> list_ex (\<lambda>(g, c). pg_equals g c (pg_end g)) (zip gs cs)"

definition compute_current_value ::
  "('i, 'a) param_generator list \<Rightarrow> ('i, 'a) product_iterator \<Rightarrow> ('i, 'a) product_iterator" where
  "compute_current_value gs it =
     (if \<not> product_at_end gs (pi_currents it) then it\<lparr>pi_value := map2 pg_current gs (pi_currents it)\<rparr> else it)"

definition make_product_iterator ::
  "('i, 'a) param_generator list \<Rightarrow> 'a list \<Rightarrow> 'i list \<Rightarrow> ('i, 'a) product_iterator" where
  "make_product_iterator gs unassigned cs = compute_current_value gs \<lparr>pi_currents = cs, pi_value = unassigned\<rparr>"

text \<open>
  \<open>Advance\<close> increments the last component; from the last to the second, a component that has
  reached its end goes back to its begin and the component before it is incremented. Yields
  whether the component before these is incremented.
\<close>

fun advance_inner :: "('i, 'a) param_generator list \<Rightarrow> 'i list \<Rightarrow> fault + 'i list \<times> bool" where
  "advance_inner (g # gs) (c # cs) =
     (case advance_inner gs cs of
        Inl f \<Rightarrow> Inl f
      | Inr (cs, increment) \<Rightarrow>
          (case if increment then pg_advance g c else Inr c of
             Inl f \<Rightarrow> Inl f
           | Inr c \<Rightarrow> if pg_equals g c (pg_end g) then Inr (pg_begin g # cs, True) else Inr (c # cs, False)))"
| "advance_inner _ _ = Inr ([], True)"

definition advance_components :: "('i, 'a) param_generator list \<Rightarrow> 'i list \<Rightarrow> fault + 'i list" where
  "advance_components gs cs =
     (case (gs, cs) of
        (g # gs, c # cs) \<Rightarrow>
          (case advance_inner gs cs of
             Inl f \<Rightarrow> Inl f
           | Inr (cs, increment) \<Rightarrow> map_sum id (\<lambda>c. c # cs) (if increment then pg_advance g c else Inr c))
      | _ \<Rightarrow> Inr [])"

definition product_advance ::
  "('i, 'a) param_generator list \<Rightarrow> ('i, 'a) product_iterator \<Rightarrow> fault + ('i, 'a) product_iterator" where
  "product_advance gs it =
     (if product_at_end gs (pi_currents it) then Inl Assertion_failure
      else map_sum id (\<lambda>cs. compute_current_value gs (it\<lparr>pi_currents := cs\<rparr>)) (advance_components gs (pi_currents it)))"

definition product_equals ::
  "('i, 'a) param_generator list \<Rightarrow> ('i, 'a) product_iterator \<Rightarrow> ('i, 'a) product_iterator \<Rightarrow> bool" where
  "product_equals gs it other \<longleftrightarrow>
     product_at_end gs (pi_currents it) \<and> product_at_end gs (pi_currents other) \<or>
     list_all (\<lambda>(g, c, d). pg_equals g c d) (zip gs (zip (pi_currents it) (pi_currents other)))"

text \<open>\<open>unassigned\<close> is the value of a tuple that was made and not yet assigned.\<close>

definition combine ::
  "'a list \<Rightarrow> ('i, 'a) param_generator list \<Rightarrow> (('i, 'a) product_iterator, 'a list) param_generator" where
  "combine unassigned gs =
     \<lparr>pg_begin = make_product_iterator gs unassigned (map pg_begin gs),
      pg_end = make_product_iterator gs unassigned (map pg_end gs),
      pg_advance = product_advance gs, pg_current = pi_value, pg_equals = product_equals gs\<rparr>"

text \<open>The loop of a client over all values of a generator, with the values so far.\<close>

partial_function (option) generated ::
  "('i, 'a) param_generator \<Rightarrow> 'i \<Rightarrow> 'a list \<Rightarrow> (fault + 'a list) option" where
  [code]: "generated g i so_far =
     (if pg_equals g i (pg_end g) then Some (Inr so_far)
      else (case pg_advance g i of
          Inl f \<Rightarrow> Some (Inl f)
        | Inr i' \<Rightarrow> generated g i' (so_far @ [pg_current g i])))"

subsection \<open>The contract of a generator\<close>

text \<open>
  The iterators that a loop from the begin on meets are those at the positions up to the length of
  the sequence, and the last is equal to the end.
\<close>

locale enumeration =
  fixes g :: "('i, 'a) param_generator" and pos :: "nat \<Rightarrow> 'i" and xs :: "'a list"
  assumes starts: "pos 0 = pg_begin g"
    and advances: "k < length xs \<Longrightarrow> pg_advance g (pos k) = Inr (pos (Suc k))"
    and current: "k < length xs \<Longrightarrow> pg_current g (pos k) = xs ! k"
    and equal_positions: "j \<le> length xs \<Longrightarrow> k \<le> length xs \<Longrightarrow> pg_equals g (pos j) (pos k) \<longleftrightarrow> j = k"
    and ends: "k \<le> length xs \<Longrightarrow> pg_equals g (pos k) (pg_end g) \<longleftrightarrow> k = length xs"
    and end_equal: "pg_equals g (pg_end g) (pg_end g)"
begin

lemma begin_at_end: "pg_equals g (pg_begin g) (pg_end g) \<longleftrightarrow> xs = []"
  using ends [of 0] by (simp add: starts)

lemma generated_from:
  "k \<le> length xs \<Longrightarrow> generated g (pos k) (take k xs) = Some (Inr xs)"
proof (induction "length xs - k" arbitrary: k)
  case 0
  then show ?case by (subst generated.simps) (simp add: ends)
next
  case (Suc n)
  then have k: "k < length xs" by simp
  from Suc.hyps(1) [of "Suc k"] Suc.hyps(2) k have "generated g (pos (Suc k)) (take (Suc k) xs) = Some (Inr xs)" by simp
  then show ?case using k ends [of k] by (subst generated.simps) (simp add: advances current take_Suc_conv_app_nth)
qed

lemma generates: "generated g (pg_begin g) [] = Some (Inr xs)"
  using generated_from [of 0] by (simp add: starts)

lemma begin_position: "k \<le> length xs \<Longrightarrow> pg_equals g (pg_begin g) (pos k) \<longleftrightarrow> k = 0"
  using equal_positions [of 0 k] by (auto simp: starts)

end

interpretation listed: enumeration "values_in container" "\<lambda>k. k" container
  by unfold_locales (auto simp: values_in_def)

lemma values_of_enumerates: "enumeration (values_of vs) (\<lambda>k. k) vs"
  unfolding values_of_def by (rule listed.enumeration_axioms)

text \<open>A range of integers with a positive step.\<close>

definition range_size :: "int \<Rightarrow> int \<Rightarrow> int \<Rightarrow> nat" where
  "range_size i stop step = (if i < stop then nat ((stop - i + step - 1) div step) else 0)"

lemma range_size_step:
  assumes "0 < step" and "i < stop"
  shows "range_size i stop step = Suc (range_size (i + step) stop step)"
proof -
  define d where "d = stop - i - 1"
  have "stop - i + step - 1 = d + step" by (simp add: d_def)
  then have "(stop - i + step - 1) div step = (d + step) div step" by (simp only:)
  also have "\<dots> = d div step + 1" using assms(1) div_add_self2 [of step d] by linarith
  finally have now: "range_size i stop step = nat (d div step + 1)" using assms(2) by (simp add: range_size_def)
  have "stop - (i + step) + step - 1 = d" by (simp add: d_def)
  then have later: "range_size (i + step) stop step = (if step \<le> d then nat (d div step) else 0)"
    by (simp add: range_size_def d_def)
  have "0 \<le> d div step" "\<not> step \<le> d \<Longrightarrow> d div step = 0"
    using assms by (simp_all add: d_def pos_imp_zdiv_nonneg_iff)
  then show ?thesis unfolding now later by (simp add: nat_add_distrib)
qed

lemma end_index_of_range:
  assumes "0 < step"
  shows "calculate_end_index (<) (+) i stop step n = Some (n + int (range_size i stop step))"
proof (induction "nat (stop - i)" arbitrary: i n rule: less_induct)
  case less
  show ?case
  proof (cases "i < stop")
    case True
    with assms have "nat (stop - (i + step)) < nat (stop - i)" by simp
    from less [OF this] show ?thesis
      using True by (subst calculate_end_index.simps) (simp add: range_size_step [OF assms True])
  next
    case False
    then show ?thesis by (subst calculate_end_index.simps) (simp add: range_size_def)
  qed
qed

lemma range_enumerates:
  assumes "0 < step"
  shows "\<exists>g. range_generator (<) (+) start stop step = Some g \<and>
    enumeration g (\<lambda>k. (start + int k * step, int k)) (map (\<lambda>k. start + int k * step) [0..<range_size start stop step])"
  unfolding range_generator_def end_index_of_range [OF assms]
  by (simp, unfold_locales) (auto simp: algebra_simps)

text \<open>The values of a range are those below its end that the steps reach.\<close>

lemma range_values:
  assumes "0 < step"
  shows "k < range_size start stop step \<longleftrightarrow> start + int k * step < stop"
proof (induction k arbitrary: start)
  case 0
  then show ?case using range_size_step [OF assms, of start stop] by (auto simp: range_size_def)
next
  case (Suc k)
  show ?case
  proof (cases "start < stop")
    case True
    with Suc [of "start + step"] show ?thesis by (simp add: range_size_step [OF assms True] algebra_simps)
  next
    case False
    moreover have "0 \<le> int (Suc k) * step" using assms by simp
    ultimately show ?thesis by (simp add: range_size_def)
  qed
qed

text \<open>A range of bytes with an even step never ends below 255: the value wraps around before it.\<close>

lemma even_byte_step:
  assumes "even (unat (i :: 8 word))"
  shows "i < 255" and "even (unat (i + 2))"
proof -
  have "unat i < 256" using unsigned_less [of i] by simp
  moreover have "unat i \<noteq> 255" using assms by auto
  ultimately have "unat i < unat (255 :: 8 word)" by simp
  then show "i < 255" by (simp add: word_less_nat_alt)
  have "unat (i + 2) = (unat i + 2) mod 256" by (simp add: unat_word_ariths)
  then show "even (unat (i + 2))" using assms by (simp add: dvd_mod_iff)
qed

lemma byte_range_never_ends:
  assumes "even (unat i)"
  shows "calculate_end_index (<) (+) i (255 :: 8 word) 2 n = None"
proof -
  have "lt = (<) \<longrightarrow> add = (+) \<longrightarrow> stop = (255 :: 8 word) \<longrightarrow> s = 2 \<longrightarrow> odd (unat i)"
    if "calculate_end_index lt add i stop s n = Some m" for lt add i stop s n m
    using that
  proof (induction rule: calculate_end_index.raw_induct [rotated, consumes 1, case_names step])
    case (step loop lt add i stop s n m)
    show ?case
    proof (intro impI notI)
      assume fixed: "lt = (<)" "add = (+)" "stop = 255" "s = 2" and even: "even (unat i)"
      with step(2) have "loop lt add (add i s) stop s (n + 1) = Some m"
        using even_byte_step(1) [OF even] by simp
      from step(1) [OF this] show False using fixed even_byte_step(2) [OF even] by simp
    qed
  qed
  with assms show ?thesis by (cases "calculate_end_index (<) (+) i (255 :: 8 word) 2 n") blast+
qed

subsection \<open>All combinations\<close>

text \<open>The positions of the components at a position of the product: its digits, the first first.\<close>

fun digits :: "nat list \<Rightarrow> nat \<Rightarrow> nat list" where
  "digits [] k = []"
| "digits (l # ls) k = k div prod_list ls # digits ls (k mod prod_list ls)"

lemma length_digits [simp]: "length (digits ls k) = length ls"
  by (induction ls k rule: digits.induct) simp_all

lemma digits_0: "digits ls 0 = replicate (length ls) 0"
  by (induction ls) simp_all

lemma digits_less: "k < prod_list ls \<Longrightarrow> list_all2 (<) (digits ls k) ls"
proof (induction ls k rule: digits.induct)
  case (2 l ls k)
  then have "0 < prod_list ls" by (metis gr0I mult_0_right not_less0 prod_list.Cons)
  with 2 show ?case by (simp add: less_mult_imp_div_less)
qed simp

lemma digits_inj:
  assumes "j < prod_list ls" and "k < prod_list ls" and "digits ls j = digits ls k"
  shows "j = k"
  using assms
proof (induction ls j arbitrary: k rule: digits.induct)
  case (2 l ls j)
  then have "0 < prod_list ls" by (metis gr0I mult_0_right not_less0 prod_list.Cons)
  with 2 have "j div prod_list ls = k div prod_list ls" "j mod prod_list ls = k mod prod_list ls" by simp_all
  then show ?case by (metis div_mult_mod_eq)
qed simp

lemma nth_concat_blocks:
  assumes "\<forall>ys \<in> set yss. length ys = n" and "k < length yss * n"
  shows "concat yss ! k = yss ! (k div n) ! (k mod n)"
  using assms
proof (induction yss arbitrary: k)
  case (Cons ys yss)
  show ?case
  proof (cases "k < n")
    case True
    then show ?thesis using Cons.prems by (simp add: nth_append)
  next
    case False
    with Cons.prems have n: "0 < n" "k - n < length yss * n" by auto
    with False have "k div n = Suc ((k - n) div n)" "k mod n = (k - n) mod n"
      by (simp_all add: le_div_geq le_mod_geq)
    with Cons.IH [OF _ n(2)] Cons.prems False show ?thesis by (simp add: nth_append)
  qed
qed simp

lemma length_product_lists: "length (product_lists xss) = prod_list (map length xss)"
  by (induction xss) (simp_all add: length_concat sum_list_triv comp_def)

lemma nth_product_lists:
  "k < prod_list (map length xss) \<Longrightarrow> product_lists xss ! k = map2 (!) xss (digits (map length xss) k)"
proof (induction xss arbitrary: k)
  case (Cons xs xss)
  let ?n = "prod_list (map length xss)"
  have n: "0 < ?n" "k div ?n < length xs"
    using Cons.prems by (metis gr0I list.simps(9) mult_0_right not_less0 prod_list.Cons,
      simp add: less_mult_imp_div_less)
  have "product_lists (xs # xss) ! k = map (\<lambda>x. map (Cons x) (product_lists xss)) xs ! (k div ?n) ! (k mod ?n)"
    unfolding product_lists.simps using Cons.prems by (intro nth_concat_blocks) (auto simp: length_product_lists)
  then show ?case using n Cons.IH [of "k mod ?n"] by (simp add: length_product_lists)
qed simp

fun all_enumerate ::
  "('i, 'a) param_generator list \<Rightarrow> (nat \<Rightarrow> 'i) list \<Rightarrow> 'a list list \<Rightarrow> bool" where
  "all_enumerate [] [] [] = True"
| "all_enumerate (g # gs) (p # ps) (xs # xss) = (enumeration g p xs \<and> all_enumerate gs ps xss)"
| "all_enumerate _ _ _ = False"

definition at_positions :: "(nat \<Rightarrow> 'i) list \<Rightarrow> nat list \<Rightarrow> 'i list" where
  "at_positions ps ds = map2 (\<lambda>p d. p d) ps ds"

lemma at_positions_simps [simp]:
  "at_positions [] ds = []"
  "at_positions (p # ps) (d # ds) = p d # at_positions ps ds"
  by (simp_all add: at_positions_def)

lemma all_enumerate_lengths: "all_enumerate gs ps xss \<Longrightarrow> length gs = length xss \<and> length ps = length xss"
  by (induction gs ps xss rule: all_enumerate.induct) simp_all

lemma list_all2_lessD: "list_all2 (<) (ds :: nat list) ls \<Longrightarrow> list_all2 (\<le>) ds ls"
  by (erule list_all2_mono) simp

lemma at_end_positions:
  assumes "all_enumerate gs ps xss" and "list_all2 (\<le>) ds (map length xss)"
  shows "product_at_end gs (at_positions ps ds) \<longleftrightarrow> \<not> list_all2 (<) ds (map length xss)"
  using assms
proof (induction gs ps xss arbitrary: ds rule: all_enumerate.induct)
  case (2 g gs p ps xs xss)
  obtain d ds' where ds: "ds = d # ds'" using "2.prems"(2) by (cases ds) auto
  have law: "enumeration g p xs" using "2.prems"(1) by simp
  note ends = enumeration.ends [OF law]
  show ?case using 2 ends [of d] by (auto simp: ds product_at_end_def)
qed (simp_all add: product_at_end_def)

lemma values_at_positions:
  "all_enumerate gs ps xss \<Longrightarrow> list_all2 (<) ds (map length xss) \<Longrightarrow>
    map2 pg_current gs (at_positions ps ds) = map2 (!) xss ds"
proof (induction gs ps xss arbitrary: ds rule: all_enumerate.induct)
  case (2 g gs p ps xs xss)
  obtain d ds' where ds: "ds = d # ds'" using "2.prems"(2) by (cases ds) auto
  have law: "enumeration g p xs" using "2.prems"(1) by simp
  note current = enumeration.current [OF law]
  show ?case using 2 current [of d] by (auto simp: ds)
qed simp_all

lemma equal_at_positions:
  "all_enumerate gs ps xss \<Longrightarrow> list_all2 (\<le>) ds (map length xss) \<Longrightarrow> list_all2 (\<le>) es (map length xss) \<Longrightarrow>
    list_all (\<lambda>(g, c, d). pg_equals g c d) (zip gs (zip (at_positions ps ds) (at_positions ps es))) \<longleftrightarrow> ds = es"
proof (induction gs ps xss arbitrary: ds es rule: all_enumerate.induct)
  case (2 g gs p ps xs xss)
  obtain d ds' where ds: "ds = d # ds'" using "2.prems"(2) by (cases ds) auto
  obtain e es' where es: "es = e # es'" using "2.prems"(3) by (cases es) auto
  have law: "enumeration g p xs" using "2.prems"(1) by simp
  note equal_positions = enumeration.equal_positions [OF law]
  show ?case using 2 equal_positions [of d e] by (auto simp: ds es)
qed simp_all

lemma begin_positions:
  "all_enumerate gs ps xss \<Longrightarrow> at_positions ps (replicate (length xss) 0) = map pg_begin gs"
proof (induction gs ps xss rule: all_enumerate.induct)
  case (2 g gs p ps xs xss)
  have law: "enumeration g p xs" using "2.prems"(1) by simp
  note starts = enumeration.starts [OF law]
  show ?case using 2 starts by simp
qed simp_all

lemma inner_step:
  assumes "all_enumerate gs ps xss" and "k < prod_list (map length xss)"
  shows "advance_inner gs (at_positions ps (digits (map length xss) k)) =
    (if k + 1 < prod_list (map length xss) then Inr (at_positions ps (digits (map length xss) (k + 1)), False)
     else Inr (map pg_begin gs, True))"
  using assms
proof (induction gs ps xss arbitrary: k rule: all_enumerate.induct)
  case (2 g gs p ps xs xss)
  have law: "enumeration g p xs" using "2.prems"(1) by simp
  note starts = enumeration.starts [OF law] and advances = enumeration.advances [OF law] and ends = enumeration.ends [OF law]
  let ?n = "prod_list (map length xss)"
  have n: "0 < ?n" using "2.prems"(2) by (metis gr0I list.simps(9) mult_0_right not_less0 prod_list.Cons)
  then have q: "k div ?n < length xs" using "2.prems"(2) by (simp add: less_mult_imp_div_less)
  have IH: "advance_inner gs (at_positions ps (digits (map length xss) (k mod ?n))) =
      (if k mod ?n + 1 < ?n then Inr (at_positions ps (digits (map length xss) (k mod ?n + 1)), False)
       else Inr (map pg_begin gs, True))"
    using 2 n by simp
  show ?case
  proof (cases "k mod ?n + 1 < ?n")
    case True
    then have "(k + 1) div ?n = k div ?n" "(k + 1) mod ?n = k mod ?n + 1" by (simp_all add: div_Suc mod_Suc)
    moreover from this have "k + 1 < length xs * ?n"
      using q n by (metis div_less_iff_less_mult)
    ultimately show ?thesis using True IH ends [of "k div ?n"] q by simp
  next
    case False
    moreover have "k mod ?n < ?n" using n by simp
    ultimately have wrap: "k mod ?n + 1 = ?n" by linarith
    then have next_digits: "(k + 1) div ?n = k div ?n + 1" "(k + 1) mod ?n = 0" by (simp_all add: div_Suc mod_Suc)
    have "k + 1 < length xs * ?n \<longleftrightarrow> k div ?n + 1 < length xs"
      using n next_digits(1) by (metis div_less_iff_less_mult)
    moreover have "at_positions ps (digits (map length xss) 0) = map pg_begin gs"
      using begin_positions [of gs ps xss] "2.prems"(1) by (simp add: digits_0)
    ultimately show ?thesis
      using False IH next_digits advances [OF q] ends [of "k div ?n + 1"] starts q
      by (auto simp: less_Suc_eq_le)
  qed
qed simp_all

lemma digits_bounds:
  assumes "ls \<noteq> []" and "k \<le> prod_list ls"
  shows "list_all2 (\<le>) (digits ls k) ls" and "list_all2 (<) (digits ls k) ls \<longleftrightarrow> k < prod_list ls"
proof -
  obtain l ls' where ls: "ls = l # ls'" using assms(1) by (cases ls) auto
  consider "k < prod_list ls" | "k = prod_list ls" "prod_list ls' = 0" | "k = prod_list ls" "0 < prod_list ls'"
    using assms(2) by linarith
  then have "list_all2 (\<le>) (digits ls k) ls \<and> (list_all2 (<) (digits ls k) ls \<longleftrightarrow> k < prod_list ls)"
  proof cases
    case 1
    then show ?thesis using digits_less [OF 1] list_all2_lessD by blast
  next
    case 2
    then have "0 \<in> set ls'" using prod_list_zero_iff [of ls'] by simp
    then have "\<not> list_all2 (<) (replicate (length ls') 0) ls'"
      by (auto simp: list_all2_conv_all_nth in_set_conv_nth)
    moreover have "list_all2 (\<le>) (replicate (length ls') 0) ls'" by (simp add: list_all2_conv_all_nth)
    ultimately show ?thesis using 2 by (simp add: ls digits_0)
  next
    case 3
    moreover have "list_all2 (\<le>) (replicate (length ls') 0) ls'" by (simp add: list_all2_conv_all_nth)
    ultimately show ?thesis by (simp add: ls digits_0)
  qed
  then show "list_all2 (\<le>) (digits ls k) ls" and "list_all2 (<) (digits ls k) ls \<longleftrightarrow> k < prod_list ls" by blast+
qed

lemma components_step:
  assumes "all_enumerate gs ps xss" and "k < prod_list (map length xss)" and "gs \<noteq> []"
  shows "advance_components gs (at_positions ps (digits (map length xss) k)) =
    Inr (at_positions ps (digits (map length xss) (k + 1)))"
proof -
  obtain g gs' p ps' xs xss' where gs: "gs = g # gs'" "ps = p # ps'" "xss = xs # xss'"
    using assms(1,3) by (cases "(gs, ps, xss)" rule: all_enumerate.cases) auto
  have law: "enumeration g p xs" using assms(1) by (simp add: gs)
  note advances = enumeration.advances [OF law]
  let ?n = "prod_list (map length xss')"
  have all: "all_enumerate gs' ps' xss'" using assms(1) by (simp add: gs)
  have n: "0 < ?n" using assms(2) by (metis gr0I gs(3) list.simps(9) mult_0_right not_less0 prod_list.Cons)
  then have q: "k div ?n < length xs" "k mod ?n < ?n" using assms(2) by (simp_all add: gs less_mult_imp_div_less)
  note inner = inner_step [OF all q(2)]
  show ?thesis
  proof (cases "k mod ?n + 1 < ?n")
    case True
    then have "(k + 1) div ?n = k div ?n" "(k + 1) mod ?n = k mod ?n + 1" by (simp_all add: div_Suc mod_Suc)
    with True inner show ?thesis by (simp add: advance_components_def gs)
  next
    case False
    with q(2) have "k mod ?n + 1 = ?n" by linarith
    then have "(k + 1) div ?n = k div ?n + 1" "(k + 1) mod ?n = 0" by (simp_all add: div_Suc mod_Suc)
    with False inner show ?thesis
      using advances [OF q(1)] begin_positions [OF all] by (simp add: advance_components_def gs digits_0)
  qed
qed

definition product_position :: "(nat \<Rightarrow> 'i) list \<Rightarrow> 'a list list \<Rightarrow> 'a list \<Rightarrow> nat \<Rightarrow> ('i, 'a) product_iterator" where
  "product_position ps xss unassigned k =
     \<lparr>pi_currents = at_positions ps (digits (map length xss) k),
      pi_value = (if k < length (product_lists xss) then product_lists xss ! k
        else if product_lists xss = [] then unassigned else last (product_lists xss))\<rparr>"

lemma combine_enumerates:
  assumes all: "all_enumerate gs ps xss" and "gs \<noteq> []"
  shows "enumeration (combine unassigned gs) (product_position ps xss unassigned) (product_lists xss)"
proof -
  let ?ls = "map length xss" and ?P = "length (product_lists xss)" and ?pos = "product_position ps xss unassigned"
  have ls: "?ls \<noteq> []" using assms all_enumerate_lengths [OF all] by auto
  have P: "prod_list ?ls = ?P" by (simp add: length_product_lists)
  note bounds = digits_bounds [OF ls, unfolded P]
  have at_end: "product_at_end gs (pi_currents (?pos k)) \<longleftrightarrow> k = ?P" if "k \<le> ?P" for k
    using at_end_positions [OF all bounds(1) [OF that]] bounds(2) [OF that] that by (auto simp: product_position_def)
  have valued: "map2 pg_current gs (pi_currents (?pos k)) = product_lists xss ! k" if "k < ?P" for k
    using values_at_positions [OF all, of "digits ?ls k"] bounds(2) [of k] that nth_product_lists [of k xss] P
    by (simp add: product_position_def)
  have begins: "pi_currents (?pos 0) = map pg_begin gs"
    using begin_positions [OF all] by (simp add: product_position_def digits_0)
  have end_at_end: "product_at_end gs (map pg_end gs)"
    using all assms(2) by (cases "(gs, ps, xss)" rule: all_enumerate.cases)
      (auto simp: product_at_end_def dest: enumeration.end_equal)
  have ends: "pi_currents (pg_end (combine unassigned gs)) = map pg_end gs"
    by (simp add: combine_def make_product_iterator_def compute_current_value_def)
  show ?thesis
  proof
    fix j k
    show "?pos 0 = pg_begin (combine unassigned gs)"
      using valued [of 0] at_end [of 0] begins
      by (cases "?P = 0") (auto simp: combine_def make_product_iterator_def compute_current_value_def product_position_def)
    show "pg_advance (combine unassigned gs) (?pos k) = Inr (?pos (Suc k))" if k: "k < ?P"
    proof -
      have "advance_components gs (pi_currents (?pos k)) = Inr (pi_currents (?pos (Suc k)))"
        using components_step [OF all _ assms(2), of k] k P by (simp add: product_position_def)
      moreover have "?pos k\<lparr>pi_currents := pi_currents (?pos (Suc k))\<rparr> = ?pos (Suc k)" if "Suc k = ?P"
      proof -
        have "product_lists xss \<noteq> []" "k = ?P - 1" using k that by auto
        with that show ?thesis by (simp add: product_position_def last_conv_nth)
      qed
      moreover have "?pos k\<lparr>pi_currents := pi_currents (?pos (Suc k)), pi_value := product_lists xss ! Suc k\<rparr> = ?pos (Suc k)"
        if "Suc k < ?P" using that by (simp add: product_position_def)
      ultimately show ?thesis using k at_end [of k] at_end [of "Suc k"] valued [of "Suc k"]
        by (cases "Suc k = ?P") (simp_all add: combine_def product_advance_def compute_current_value_def)
    qed
    show "pg_current (combine unassigned gs) (?pos k) = product_lists xss ! k" if "k < ?P"
      using that by (simp add: combine_def product_position_def)
    show "pg_equals (combine unassigned gs) (?pos j) (?pos k) \<longleftrightarrow> j = k" if j: "j \<le> ?P" and k: "k \<le> ?P"
    proof -
      have "digits ?ls j = digits ?ls k \<longleftrightarrow> j = k"
        using bounds(2) [OF j] bounds(2) [OF k] digits_inj [of j ?ls k] j k unfolding P by (metis le_neq_implies_less)
      then show ?thesis using at_end [OF j] at_end [OF k] equal_at_positions [OF all bounds(1) [OF j] bounds(1) [OF k]]
        by (auto simp: combine_def product_equals_def) (simp_all add: product_position_def)
    qed
    show "pg_equals (combine unassigned gs) (?pos k) (pg_end (combine unassigned gs)) \<longleftrightarrow> k = ?P" if "k \<le> ?P"
    proof -
      have "product_at_end gs cs"
        if "list_all (\<lambda>(g, c, d). pg_equals g c d) (zip gs (zip cs (map pg_end gs)))" "length cs = length gs" for cs
        using that assms(2) by (cases gs; cases cs) (auto simp: product_at_end_def)
      moreover have "length (pi_currents (?pos k)) = length gs"
        using all_enumerate_lengths [OF all] by (simp add: product_position_def at_positions_def)
      ultimately show ?thesis using at_end [OF that] end_at_end ends
        by (auto simp: combine_def product_equals_def make_product_iterator_def compute_current_value_def)
    qed
    show "pg_equals (combine unassigned gs) (pg_end (combine unassigned gs)) (pg_end (combine unassigned gs))"
      using end_at_end ends by (simp add: combine_def product_equals_def make_product_iterator_def compute_current_value_def)
  qed
qed

end
