(* ===== verification/Gtest_Parameterized.thy ===== *)
theory Gtest_Parameterized
  imports Gtest_Generators Gtest_Typed
begin

text \<open>
  Value-parameterized tests (\<open>gtest-param-util.h\<close>, the macros of \<open>gtest-param-test.h\<close>): the registry of
  test patterns and instantiations, and the registration of each pattern with each value of each
  instantiation. The classes of fixtures and tests that the compiler makes are numbers; all
  parameters have one type, with a printer for each test case. The theory proves that each pattern
  gets one test for every value of every instantiation of its test case, whatever the order in which
  the macros ran.
\<close>

subsection \<open>One test case\<close>

record ('i, 'a) param_test_case =
  pc_name :: string
  pc_type_id :: nat
  pc_print :: "'a \<Rightarrow> string"
  pc_tests :: "(string \<times> string) list"
  pc_instantiations :: "(string \<times> ('i, 'a) param_generator) list"

definition add_test_pattern ::
  "string \<Rightarrow> string \<Rightarrow> ('i, 'a) param_test_case \<Rightarrow> ('i, 'a) param_test_case" where
  "add_test_pattern test_case_name test_base_name c =
     c\<lparr>pc_tests := pc_tests c @ [(test_case_name, test_base_name)]\<rparr>"

definition add_test_case_instantiation ::
  "string \<Rightarrow> ('i, 'a) param_generator \<Rightarrow> ('i, 'a) param_test_case \<Rightarrow> ('i, 'a) param_test_case" where
  "add_test_case_instantiation instantiation_name func c =
     c\<lparr>pc_instantiations := pc_instantiations c @ [(instantiation_name, func)]\<rparr>"

text \<open>A loop over a list whose body may not end or may fault.\<close>

fun for_each :: "('x \<Rightarrow> 'u \<Rightarrow> (fault + 'u) option) \<Rightarrow> 'x list \<Rightarrow> 'u \<Rightarrow> (fault + 'u) option" where
  "for_each body [] u = Some (Inr u)"
| "for_each body (x # xs) u =
     (case body x u of
        None \<Rightarrow> None
      | Some (Inl f) \<Rightarrow> Some (Inl f)
      | Some (Inr u) \<Rightarrow> for_each body xs u)"

text \<open>The loop over the values of a generator, from an iterator on.\<close>

partial_function (option) register_values ::
  "('i, 'a) param_generator \<Rightarrow> ('a \<Rightarrow> string) \<Rightarrow> string \<Rightarrow> string \<Rightarrow> nat \<Rightarrow> 'i \<Rightarrow> nat \<Rightarrow> unit_test \<Rightarrow> (fault + unit_test) option" where
  [code]: "register_values g print test_case_name test_base_name type_id param_it i u =
     (if pg_equals g param_it (pg_end g) then Some (Inr u)
      else
        (let test_name_stream = test_base_name @ ''/'' @ string_of_nat i;
             u = make_and_register_test_info test_case_name test_name_stream None
               (Some (c_str (print (pg_current g param_it)))) type_id u
         in case pg_advance g param_it of
              Inl f \<Rightarrow> Some (Inl f)
            | Inr param_it \<Rightarrow> register_values g print test_case_name test_base_name type_id param_it (i + 1) u))"

definition register_instantiation ::
  "('i, 'a) param_test_case \<Rightarrow> string \<times> string \<Rightarrow> string \<times> ('i, 'a) param_generator \<Rightarrow> unit_test \<Rightarrow> (fault + unit_test) option" where
  "register_instantiation c test_info instantiation u =
     (let (test_case_base_name, test_base_name) = test_info; (instantiation_name, generator) = instantiation;
          test_case_name = (if instantiation_name \<noteq> [] then instantiation_name @ ''/'' else []) @ test_case_base_name
      in register_values generator (pc_print c) test_case_name test_base_name (pc_type_id c) (pg_begin generator) 0 u)"

definition register_tests :: "('i, 'a) param_test_case \<Rightarrow> unit_test \<Rightarrow> (fault + unit_test) option" where
  "register_tests c u =
     for_each (\<lambda>test_info. for_each (register_instantiation c test_info) (pc_instantiations c)) (pc_tests c) u"

subsection \<open>The registry\<close>

definition report_invalid_test_case_type :: "string \<Rightarrow> string option \<Rightarrow> int \<Rightarrow> string" where
  "report_invalid_test_case_type test_case_name file line =
     format_file_location file line @ '' Attempted redefinition of test case '' @ test_case_name @ ''.'' @ newline @
     ''All tests in the same test case must use the same test fixture'' @ newline @
     ''class.  However, in test case '' @ test_case_name @ '', you tried'' @ newline @
     ''to define a test using a fixture class different from the one'' @ newline @
     ''used earlier. This can happen if the two fixture classes are'' @ newline @
     ''from different namespaces and have the same name. You should'' @ newline @
     ''probably rename one of the classes to put the tests into different'' @ newline @ ''test cases.''"

text \<open>
  \<open>GetTestCasePatternHolder\<close>: the registry and the place of the test case in it. \<open>Inl\<close>: the process
  ends with this on the standard error stream.
\<close>

fun find_param_test_case :: "string \<Rightarrow> ('i, 'a) param_test_case list \<Rightarrow> nat option" where
  "find_param_test_case name [] = None"
| "find_param_test_case name (c # cs) =
     (if pc_name c = name then Some 0 else map_option Suc (find_param_test_case name cs))"

definition get_test_case_pattern_holder ::
  "string \<Rightarrow> nat \<Rightarrow> ('a \<Rightarrow> string) \<Rightarrow> string option \<Rightarrow> int \<Rightarrow> ('i, 'a) param_test_case list \<Rightarrow>
    string + ('i, 'a) param_test_case list \<times> nat" where
  "get_test_case_pattern_holder test_case_name type_id print file line cs =
     (case find_param_test_case test_case_name cs of
        Some it \<Rightarrow>
          if pc_type_id (cs ! it) \<noteq> type_id then Inl (report_invalid_test_case_type test_case_name file line)
          else Inr (cs, it)
      | None \<Rightarrow>
          Inr (cs @ [\<lparr>pc_name = test_case_name, pc_type_id = type_id, pc_print = print, pc_tests = [], pc_instantiations = []\<rparr>],
            length cs))"

definition register_all :: "('i, 'a) param_test_case list \<Rightarrow> unit_test \<Rightarrow> (fault + unit_test) option" where
  "register_all cs u = for_each register_tests cs u"

text \<open>\<open>RegisterParameterizedTests\<close>, with its member that remembers the first call.\<close>

definition register_parameterized_tests ::
  "('i, 'a) param_test_case list \<Rightarrow> bool \<times> unit_test \<Rightarrow> (fault + bool \<times> unit_test) option" where
  "register_parameterized_tests cs s =
     (case s of (before, u) \<Rightarrow>
        if \<not> before then map_option (map_sum id (Pair True)) (register_all cs u) else Some (Inr (before, u)))"

text \<open>The macros \<open>TEST_P\<close> and \<open>INSTANTIATE_TEST_CASE_P\<close>, with the fixture class of the test case.\<close>

datatype ('i, 'a) param_macro =
    Test_p string nat string
  | Instantiate_test_case_p string string nat "('i, 'a) param_generator"

definition run_macro ::
  "('a \<Rightarrow> string) \<Rightarrow> string option \<Rightarrow> int \<Rightarrow> ('i, 'a) param_macro \<Rightarrow> ('i, 'a) param_test_case list \<Rightarrow>
    string + ('i, 'a) param_test_case list" where
  "run_macro print file line m cs =
     (case m of
        Test_p test_case_name type_id test_name \<Rightarrow>
          map_sum id (\<lambda>(cs, i). cs[i := add_test_pattern test_case_name test_name (cs ! i)])
            (get_test_case_pattern_holder test_case_name type_id print file line cs)
      | Instantiate_test_case_p prefix test_case_name type_id generator \<Rightarrow>
          map_sum id (\<lambda>(cs, i). cs[i := add_test_case_instantiation prefix generator (cs ! i)])
            (get_test_case_pattern_holder test_case_name type_id print file line cs))"

fun run_macros where
  "run_macros print file line [] cs = Inr cs"
| "run_macros print file line (m # ms) cs =
     (case run_macro print file line m cs of Inl e \<Rightarrow> Inl e | Inr cs \<Rightarrow> run_macros print file line ms cs)"

subsection \<open>What is registered\<close>

text \<open>The tests for a pattern and the values of an instantiation.\<close>

definition value_tests :: "string \<Rightarrow> string \<Rightarrow> string \<Rightarrow> 'a list \<Rightarrow> (string \<times> string \<times> string option) list" where
  "value_tests instantiation_name case_name test_name xs =
     map (\<lambda>i. ((if instantiation_name \<noteq> [] then instantiation_name @ ''/'' else []) @ case_name,
       test_name @ ''/'' @ string_of_nat i, None)) [0..<length xs]"

context enumeration
begin

lemma registers_values:
  assumes "death_position_ok u" and "k \<le> length xs"
  shows "\<exists>v. register_values g print case_name test_name type_id (pos k) k u = Some (Inr v) \<and> death_position_ok v \<and>
    mset (registered_tests v) = mset (registered_tests u) +
      mset (map (\<lambda>i. (case_name, test_name @ ''/'' @ string_of_nat i, None)) [k..<length xs])"
  using assms
proof (induction "length xs - k" arbitrary: k u)
  case 0
  then have "k = length xs" by simp
  with 0 show ?case by (subst register_values.simps) (simp add: ends)
next
  case (Suc n)
  then have k: "k < length xs" by simp
  define v where "v = make_and_register_test_info case_name (test_name @ ''/'' @ string_of_nat k) None
    (Some (c_str (print (pg_current g (pos k))))) type_id u"
  note one = registers_one [OF Suc.prems(1) v_def]
  have n: "n = length xs - Suc k" using Suc.hyps(2) by simp
  from Suc.hyps(1) [OF n one(2)] k obtain w where w: "register_values g print case_name test_name type_id (pos (Suc k)) (Suc k) v = Some (Inr w)"
      "death_position_ok w"
    and new: "mset (registered_tests w) = mset (registered_tests v) +
      mset (map (\<lambda>i. (case_name, test_name @ ''/'' @ string_of_nat i, None)) [Suc k..<length xs])" by auto
  have "register_values g print case_name test_name type_id (pos k) k u = Some (Inr w)"
    using k ends [of k] w(1) unfolding v_def by (subst register_values.simps) (simp add: advances Let_def)
  with w(2) new one(1) show ?case using k by (auto simp: upt_conv_Cons)
qed

lemma registers_instantiation:
  assumes "death_position_ok u"
  shows "\<exists>v. register_instantiation c (case_name, test_name) (prefix, g) u = Some (Inr v) \<and> death_position_ok v \<and>
    mset (registered_tests v) = mset (registered_tests u) + mset (value_tests prefix case_name test_name xs)"
  using registers_values [OF assms, of 0] by (simp add: register_instantiation_def value_tests_def starts Let_def)

end

text \<open>A loop whose body registers the tests \<open>f x\<close> for each \<open>x\<close>.\<close>

lemma for_each_registers:
  assumes "\<And>x u. x \<in> set xs \<Longrightarrow> death_position_ok u \<Longrightarrow>
      \<exists>v. body x u = Some (Inr v) \<and> death_position_ok v \<and> mset (registered_tests v) = mset (registered_tests u) + f x"
    and "death_position_ok u"
  shows "\<exists>v. for_each body xs u = Some (Inr v) \<and> death_position_ok v \<and>
    mset (registered_tests v) = mset (registered_tests u) + sum_list (map f xs)"
  using assms
proof (induction xs arbitrary: u)
  case (Cons x xs)
  obtain v where v: "body x u = Some (Inr v)" "death_position_ok v" "mset (registered_tests v) = mset (registered_tests u) + f x"
    using Cons.prems(1) [of x u] Cons.prems(2) by auto
  have "\<exists>w. for_each body xs v = Some (Inr w) \<and> death_position_ok w \<and>
      mset (registered_tests w) = mset (registered_tests v) + sum_list (map f xs)"
    using Cons.IH [OF _ v(2)] Cons.prems(1) by simp
  with v show ?case by (auto simp: ac_simps)
qed simp

text \<open>The tests of a registry, when \<open>values\<close> are the values that its generators enumerate.\<close>

definition pattern_tests ::
  "(('i, 'a) param_generator \<Rightarrow> 'a list) \<Rightarrow> (string \<times> ('i, 'a) param_generator) list \<Rightarrow> string \<Rightarrow> string \<Rightarrow>
    (string \<times> string \<times> string option) multiset" where
  "pattern_tests values insts case_name test_name =
     sum_list (map (\<lambda>(p, g). mset (value_tests p case_name test_name (values g))) insts)"

definition enumerates_all where
  "enumerates_all values insts \<longleftrightarrow> (\<forall>(p, g) \<in> set insts. \<exists>pos. enumeration g pos (values g))"

lemma registers_case:
  assumes "enumerates_all values (pc_instantiations c)" and "death_position_ok u"
  shows "\<exists>v. register_tests c u = Some (Inr v) \<and> death_position_ok v \<and> mset (registered_tests v) = mset (registered_tests u) +
    sum_list (map (\<lambda>(n, t). pattern_tests values (pc_instantiations c) n t) (pc_tests c))"
  unfolding register_tests_def
proof (rule for_each_registers [OF _ assms(2)])
  fix x :: "string \<times> string" and u
  assume u: "death_position_ok u"
  obtain n t where x: "x = (n, t)" by fastforce
  have "\<exists>v. for_each (register_instantiation c x) (pc_instantiations c) u = Some (Inr v) \<and> death_position_ok v \<and>
      mset (registered_tests v) = mset (registered_tests u) +
        sum_list (map (\<lambda>(p, g). mset (value_tests p n t (values g))) (pc_instantiations c))"
  proof (rule for_each_registers [OF _ u])
    fix y u
    assume y: "y \<in> set (pc_instantiations c)" and u: "death_position_ok u"
    obtain p g where pg: "y = (p, g)" by fastforce
    with y assms(1) obtain pos where "enumeration g pos (values g)" by (auto simp: enumerates_all_def)
    from enumeration.registers_instantiation [OF this u]
    show "\<exists>v. register_instantiation c x y u = Some (Inr v) \<and> death_position_ok v \<and> mset (registered_tests v) =
        mset (registered_tests u) + (case y of (p, g) \<Rightarrow> mset (value_tests p n t (values g)))"
      by (simp add: x pg)
  qed
  then show "\<exists>v. for_each (register_instantiation c x) (pc_instantiations c) u = Some (Inr v) \<and> death_position_ok v \<and>
      mset (registered_tests v) = mset (registered_tests u) + (case x of (n, t) \<Rightarrow> pattern_tests values (pc_instantiations c) n t)"
    by (simp add: x pattern_tests_def)
qed

subsection \<open>The registry after the macros\<close>

fun patterns :: "string \<Rightarrow> ('i, 'a) param_macro list \<Rightarrow> string list" where
  "patterns n [] = []"
| "patterns n (Test_p c ty t # ms) = (if c = n then [t] else []) @ patterns n ms"
| "patterns n (m # ms) = patterns n ms"

fun instantiations :: "string \<Rightarrow> ('i, 'a) param_macro list \<Rightarrow> (string \<times> ('i, 'a) param_generator) list" where
  "instantiations n [] = []"
| "instantiations n (Instantiate_test_case_p p c ty g # ms) = (if c = n then [(p, g)] else []) @ instantiations n ms"
| "instantiations n (m # ms) = instantiations n ms"

fun macro_name :: "('i, 'a) param_macro \<Rightarrow> string" where
  "macro_name (Test_p c ty t) = c"
| "macro_name (Instantiate_test_case_p p c ty g) = c"

fun macro_class :: "('i, 'a) param_macro \<Rightarrow> nat" where
  "macro_class (Test_p c ty t) = ty"
| "macro_class (Instantiate_test_case_p p c ty g) = ty"

definition registry_of :: "('i, 'a) param_macro list \<Rightarrow> ('i, 'a) param_test_case list \<Rightarrow> bool" where
  "registry_of ms cs \<longleftrightarrow> distinct (map pc_name cs) \<and> set (map pc_name cs) = macro_name ` set ms \<and>
     (\<forall>c \<in> set cs. pc_tests c = map (Pair (pc_name c)) (patterns (pc_name c) ms) \<and>
        pc_instantiations c = instantiations (pc_name c) ms \<and>
        (\<forall>m \<in> set ms. macro_name m = pc_name c \<longrightarrow> macro_class m = pc_type_id c))"

lemma registry_ofD:
  assumes "registry_of ms cs"
  shows "distinct (map pc_name cs)" and "pc_name ` set cs = macro_name ` set ms"
    and "c \<in> set cs \<Longrightarrow> pc_tests c = map (Pair (pc_name c)) (patterns (pc_name c) ms)"
    and "c \<in> set cs \<Longrightarrow> pc_instantiations c = instantiations (pc_name c) ms"
    and "c \<in> set cs \<Longrightarrow> m \<in> set ms \<Longrightarrow> macro_name m = pc_name c \<Longrightarrow> macro_class m = pc_type_id c"
  using assms by (simp_all add: registry_of_def)

lemma patterns_append: "patterns n (ms @ ms') = patterns n ms @ patterns n ms'"
  by (induction n ms rule: patterns.induct) simp_all

lemma instantiations_append: "instantiations n (ms @ ms') = instantiations n ms @ instantiations n ms'"
  by (induction n ms rule: instantiations.induct) simp_all

lemma none_without_macro:
  "n \<notin> macro_name ` set ms \<Longrightarrow> patterns n ms = [] \<and> instantiations n ms = []"
proof (induction ms)
  case (Cons m ms)
  then show ?case by (cases m) auto
qed simp

lemma find_param_SomeD:
  "find_param_test_case n cs = Some i \<Longrightarrow> i < length cs \<and> pc_name (cs ! i) = n"
  by (induction cs arbitrary: i) (auto split: if_splits)

lemma find_param_None: "find_param_test_case n cs = None \<longleftrightarrow> n \<notin> pc_name ` set cs"
  by (induction cs) auto

fun macro_update :: "('i, 'a) param_macro \<Rightarrow> ('i, 'a) param_test_case \<Rightarrow> ('i, 'a) param_test_case" where
  "macro_update (Test_p c ty t) = add_test_pattern c t"
| "macro_update (Instantiate_test_case_p p c ty g) = add_test_case_instantiation p g"

lemma macro_update_fields [simp]:
  "pc_name (macro_update m c) = pc_name c" "pc_type_id (macro_update m c) = pc_type_id c"
  by (cases m; simp add: add_test_pattern_def add_test_case_instantiation_def)+

lemma macro_update_adds:
  assumes "pc_name c = macro_name m" and "pc_tests c = map (Pair (pc_name c)) (patterns (pc_name c) ms)"
    and "pc_instantiations c = instantiations (pc_name c) ms"
  shows "pc_tests (macro_update m c) = map (Pair (pc_name c)) (patterns (pc_name c) (ms @ [m]))"
    and "pc_instantiations (macro_update m c) = instantiations (pc_name c) (ms @ [m])"
  using assms by (cases m; simp add: add_test_pattern_def add_test_case_instantiation_def patterns_append instantiations_append)+

lemma other_macro:
  "macro_name m \<noteq> n \<Longrightarrow> patterns n (ms @ [m]) = patterns n ms \<and> instantiations n (ms @ [m]) = instantiations n ms"
  by (cases m) (simp_all add: patterns_append instantiations_append)

lemma run_macro_eq:
  "run_macro print source line m cs = map_sum id (\<lambda>(cs, i). cs[i := macro_update m (cs ! i)])
    (get_test_case_pattern_holder (macro_name m) (macro_class m) print source line cs)"
  by (cases m) (simp_all add: run_macro_def)

definition same_class :: "('i, 'a) param_macro list \<Rightarrow> ('i, 'a) param_macro \<Rightarrow> bool" where
  "same_class ms m \<longleftrightarrow> (\<forall>m' \<in> set ms. macro_name m' = macro_name m \<longrightarrow> macro_class m' = macro_class m)"

lemma update_registry:
  assumes reg: "registry_of ms cs" and i: "i < length cs" "pc_name (cs ! i) = macro_name m" "pc_type_id (cs ! i) = macro_class m"
  shows "registry_of (ms @ [m]) (cs[i := macro_update m (cs ! i)])"
proof -
  have names: "map pc_name (cs[i := macro_update m (cs ! i)]) = map pc_name cs"
    using i(1) by (simp add: map_update list_update_same_conv)
  have "macro_name m \<in> set (map pc_name cs)" using i(1,2) by (metis length_map nth_map nth_mem)
  with reg names have known: "set (map pc_name (cs[i := macro_update m (cs ! i)])) = macro_name ` set (ms @ [m])"
    by (auto simp: registry_of_def)
  have "pc_tests c = map (Pair (pc_name c)) (patterns (pc_name c) (ms @ [m])) \<and>
      pc_instantiations c = instantiations (pc_name c) (ms @ [m]) \<and>
      (\<forall>m' \<in> set (ms @ [m]). macro_name m' = pc_name c \<longrightarrow> macro_class m' = pc_type_id c)"
    if c: "c \<in> set (cs[i := macro_update m (cs ! i)])" for c
  proof -
    obtain j where j: "j < length cs" "c = cs[i := macro_update m (cs ! i)] ! j" using c by (auto simp: in_set_conv_nth)
    have old: "cs ! j \<in> set cs" using j(1) by simp
    show ?thesis
    proof (cases "j = i")
      case True
      then have "c = macro_update m (cs ! i)" using j i(1) by simp
      moreover have "\<forall>m' \<in> set ms. macro_name m' = pc_name (cs ! i) \<longrightarrow> macro_class m' = pc_type_id (cs ! i)"
        using registry_ofD(5) [OF reg, of "cs ! i"] i(1) by simp
      ultimately show ?thesis
        using macro_update_adds [OF i(2) registry_ofD(3,4) [OF reg]] i by auto
    next
      case False
      then have c: "c = cs ! j" using j by simp
      have "map pc_name cs ! j \<noteq> map pc_name cs ! i"
        using reg False i(1) j(1) by (simp add: registry_of_def nth_eq_iff_index_eq del: nth_map)
      then have "macro_name m \<noteq> pc_name c" using i j(1) by (simp add: c)
      with reg old c show ?thesis using other_macro [of m "pc_name c" ms] by (auto simp: registry_of_def)
    qed
  qed
  with reg names known show ?thesis by (simp add: registry_of_def)
qed

lemma extend_registry:
  assumes reg: "registry_of ms cs" and new: "macro_name m \<notin> pc_name ` set cs"
    and c: "c = \<lparr>pc_name = macro_name m, pc_type_id = macro_class m, pc_print = print, pc_tests = [], pc_instantiations = []\<rparr>"
  shows "registry_of (ms @ [m]) (cs @ [macro_update m c])"
proof -
  have none: "patterns (macro_name m) ms = []" "instantiations (macro_name m) ms = []" "macro_name m \<notin> macro_name ` set ms"
    using reg new none_without_macro [of "macro_name m" ms] by (auto simp: registry_of_def)
  have "pc_tests d = map (Pair (pc_name d)) (patterns (pc_name d) (ms @ [m])) \<and>
      pc_instantiations d = instantiations (pc_name d) (ms @ [m]) \<and>
      (\<forall>m' \<in> set (ms @ [m]). macro_name m' = pc_name d \<longrightarrow> macro_class m' = pc_type_id d)"
    if d: "d \<in> set cs" for d
  proof -
    have "macro_name m \<noteq> pc_name d" using new d by auto
    with registry_ofD(3-5) [OF reg d] other_macro [of m "pc_name d" ms] show ?thesis by simp
  qed
  moreover have "pc_tests (macro_update m c) = map (Pair (macro_name m)) (patterns (macro_name m) (ms @ [m]))"
      "pc_instantiations (macro_update m c) = instantiations (macro_name m) (ms @ [m])"
    using macro_update_adds [of c m ms] none by (simp_all add: c)
  moreover have "macro_name m' \<noteq> macro_name m" if "m' \<in> set ms" for m'
    using none(3) that by (metis image_eqI)
  ultimately show ?thesis using registry_ofD(1,2) [OF reg] new by (simp add: registry_of_def c)
qed

lemma run_macro_registry:
  assumes reg: "registry_of ms cs"
  shows "(case run_macro print source line m cs of
     Inl e \<Rightarrow> \<not> same_class ms m | Inr cs' \<Rightarrow> registry_of (ms @ [m]) cs' \<and> same_class ms m)"
proof (cases "find_param_test_case (macro_name m) cs")
  case None
  then have new: "macro_name m \<notin> pc_name ` set cs" by (simp add: find_param_None)
  then have "macro_name m \<notin> macro_name ` set ms" using registry_ofD(2) [OF reg] by simp
  then have "same_class ms m" unfolding same_class_def by (metis image_eqI)
  with extend_registry [OF reg new refl, of print] None show ?thesis
    by (simp add: run_macro_eq get_test_case_pattern_holder_def)
next
  case (Some i)
  have i: "i < length cs" "pc_name (cs ! i) = macro_name m" using find_param_SomeD [OF Some] by simp_all
  then have "macro_name m \<in> pc_name ` set cs" by (metis image_eqI nth_mem)
  then obtain m' where m': "m' \<in> set ms" "macro_name m' = macro_name m" using registry_ofD(2) [OF reg] by auto
  have classes: "macro_class m' = pc_type_id (cs ! i)" if "m' \<in> set ms" "macro_name m' = macro_name m" for m'
    using registry_ofD(5) [OF reg _ that(1)] i that(2) by simp
  show ?thesis
  proof (cases "pc_type_id (cs ! i) = macro_class m")
    case True
    then have "same_class ms m" using classes by (simp add: same_class_def)
    with update_registry [OF reg i True] Some True show ?thesis
      by (simp add: run_macro_eq get_test_case_pattern_holder_def)
  next
    case False
    then have "\<not> same_class ms m" using classes [OF m'] m' by (auto simp: same_class_def)
    with Some False show ?thesis by (simp add: run_macro_eq get_test_case_pattern_holder_def)
  qed
qed

text \<open>All macros of a test case name the same fixture class.\<close>

definition classes_agree :: "('i, 'a) param_macro list \<Rightarrow> bool" where
  "classes_agree ms \<longleftrightarrow> (\<forall>m \<in> set ms. same_class ms m)"

lemma classes_agree_snoc:
  assumes "classes_agree ms" and "same_class ms m"
  shows "classes_agree (ms @ [m])"
  unfolding classes_agree_def same_class_def
proof (intro ballI impI)
  fix a b
  assume "a \<in> set (ms @ [m])" "b \<in> set (ms @ [m])" and same: "macro_name b = macro_name a"
  then consider "a \<in> set ms" "b \<in> set ms" | "a = m" "b \<in> set ms" | "a \<in> set ms" "b = m" | "a = m" "b = m" by auto
  then show "macro_class b = macro_class a"
  proof cases
    case 1
    then have "same_class ms a" using assms(1) by (simp only: classes_agree_def)
    with 1(2) same show ?thesis by (simp only: same_class_def)
  next
    case 2
    with assms(2) same show ?thesis by (simp add: same_class_def)
  next
    case 3
    with assms(2) same show ?thesis by (simp add: same_class_def)
  qed simp
qed

lemma run_macros_registry:
  assumes "registry_of ms0 cs" and "classes_agree ms0"
  shows "(case run_macros print source line ms cs of
     Inl e \<Rightarrow> \<not> classes_agree (ms0 @ ms) | Inr cs' \<Rightarrow> registry_of (ms0 @ ms) cs' \<and> classes_agree (ms0 @ ms))"
  using assms
proof (induction ms arbitrary: ms0 cs)
  case (Cons m ms)
  show ?case
  proof (cases "run_macro print source line m cs")
    case (Inl e)
    then have "\<not> same_class ms0 m" using run_macro_registry [OF Cons.prems(1),
        where print = print and source = source and line = line and m = m] by simp
    then have "\<not> classes_agree (ms0 @ m # ms)" by (auto simp: classes_agree_def same_class_def)
    with Inl show ?thesis by simp
  next
    case (Inr cs')
    then have one: "registry_of (ms0 @ [m]) cs'" "same_class ms0 m"
      using run_macro_registry [OF Cons.prems(1),
        where print = print and source = source and line = line and m = m] by simp_all
    have "classes_agree (ms0 @ [m])" using Cons.prems(2) one(2) by (rule classes_agree_snoc)
    from Cons.IH [OF one(1) this] Inr show ?thesis
      by (cases "run_macros print source line ms cs'") simp_all
  qed
qed simp

subsection \<open>All tests of the macros\<close>

definition macro_tests ::
  "(('i, 'a) param_generator \<Rightarrow> 'a list) \<Rightarrow> ('i, 'a) param_macro list \<Rightarrow> (string \<times> string \<times> string option) multiset" where
  "macro_tests values ms = sum_list (map (\<lambda>m. case m of
     Test_p c ty t \<Rightarrow> pattern_tests values (instantiations c ms) c t
   | Instantiate_test_case_p p c ty g \<Rightarrow> {#}) ms)"

lemma sum_list_single:
  "distinct ns \<Longrightarrow> c \<in> set ns \<Longrightarrow> sum_list (map (\<lambda>n. if c = n then f n else (0 :: 'b :: comm_monoid_add)) ns) = f c"
proof (induction ns)
  case (Cons n ns)
  have "sum_list (map (\<lambda>n. if c = n then f n else 0) ns) = 0" if "c \<notin> set ns"
    using that by (induction ns) auto
  with Cons show ?case by auto
qed simp

lemma sum_by_name:
  fixes K :: "string \<Rightarrow> string \<Rightarrow> 'b multiset"
  assumes "distinct ns" and "macro_name ` set ms \<subseteq> set ns"
  shows "sum_list (map (\<lambda>n. sum_list (map (K n) (patterns n ms))) ns) =
    sum_list (map (\<lambda>m. case m of Test_p c ty t \<Rightarrow> K c t | Instantiate_test_case_p p c ty g \<Rightarrow> {#}) ms)"
  using assms(2)
proof (induction ms)
  case (Cons m ms)
  show ?case
  proof (cases m)
    case (Test_p c ty t)
    have "sum_list (map (\<lambda>n. sum_list (map (K n) (patterns n (m # ms)))) ns) =
        sum_list (map (\<lambda>n. (if c = n then K n t else 0) + sum_list (map (K n) (patterns n ms))) ns)"
      by (rule arg_cong [where f = sum_list], rule map_cong) (simp_all add: Test_p)
    also have "\<dots> = K c t + sum_list (map (\<lambda>n. sum_list (map (K n) (patterns n ms))) ns)"
      using sum_list_single [OF assms(1), of c "\<lambda>n. K n t"] Cons.prems by (simp add: sum_list_addf Test_p)
    finally show ?thesis using Cons by (simp add: Test_p)
  next
    case (Instantiate_test_case_p p c ty g)
    then show ?thesis using Cons by simp
  qed
qed (simp add: sum_list_0)

lemma registers_macros:
  assumes reg: "registry_of ms cs" and "death_position_ok u"
    and enum: "\<forall>m \<in> set ms. case m of Test_p c ty t \<Rightarrow> True
      | Instantiate_test_case_p p c ty g \<Rightarrow> \<exists>pos. enumeration g pos (values g)"
  shows "\<exists>v. register_parameterized_tests cs (False, u) = Some (Inr (True, v)) \<and>
    mset (registered_tests v) = mset (registered_tests u) + macro_tests values ms"
proof -
  have insts: "enumerates_all values (instantiations n ms)" for n
    using enum by (induction n ms rule: instantiations.induct) (auto simp: enumerates_all_def)
  let ?F = "\<lambda>n. sum_list (map (pattern_tests values (instantiations n ms) n) (patterns n ms))"
  have "\<exists>v. for_each register_tests cs u = Some (Inr v) \<and> death_position_ok v \<and>
      mset (registered_tests v) = mset (registered_tests u) + sum_list (map (\<lambda>c. ?F (pc_name c)) cs)"
  proof (rule for_each_registers [OF _ assms(2)])
    fix c u
    assume c: "c \<in> set cs" and "death_position_ok u"
    with registers_case [of "values" c u] insts [of "pc_name c"] registry_ofD(3,4) [OF reg c]
    show "\<exists>v. register_tests c u = Some (Inr v) \<and> death_position_ok v \<and>
        mset (registered_tests v) = mset (registered_tests u) + ?F (pc_name c)"
      by (simp add: comp_def)
  qed
  moreover have "sum_list (map (\<lambda>c. ?F (pc_name c)) cs) = macro_tests values ms"
    using sum_by_name [OF registry_ofD(1) [OF reg], of ms "\<lambda>n. pattern_tests values (instantiations n ms) n"]
      registry_ofD(2) [OF reg] by (simp add: macro_tests_def comp_def)
  ultimately show ?thesis by (auto simp: register_parameterized_tests_def register_all_def)
qed

end
