(* ===== verification/Testing_Properties.thy ===== *)
theory Testing_Properties
  imports Gtest_Death_Test Gtest_Parameterized Report_Properties
begin

text \<open>
  What holds of death tests, whose verdict and whose child process are those of the statement under
  test, and of value-parameterized tests with their generators.
\<close>

subsection \<open>Death tests\<close>

text \<open>The status of a process as Linux encodes it, for the examples.\<close>

definition linux_wait_macros :: wait_macros where
  "linux_wait_macros = \<lparr>wm_exited = (\<lambda>s. if s mod 128 = 0 then Some (s div 256 mod 256) else None),
     wm_signaled = (\<lambda>s. if s mod 128 \<in> {1..126} then Some (s mod 128) else None),
     wm_core_dump = (\<lambda>s. s div 128 mod 2 = 1)\<rparr>"

text \<open>
  The process that oversees a death test passes it exactly when the statement died, the predicate
  holds of its exit status, and its error output has a piece in the language of the expression. It
  does not end abnormally and does not wait for another byte, however the reads from the pipe are
  cut and interrupted, and whether the statement ends, returns or throws.
\<close>

theorem death_test_verdict:
  assumes "no_exec_assume_role file_macro threads (Some (read_end, write_end)) child (make_death_test stmt (fst (re_init (Some r)))) p =
      Inr (Oversee_test, dt, p1, ws)"
    and "execute_death_test_statement exit_one source line e = (bytes, err, status)" and "delivers es bytes"
    and "fst (validate_regex (Some r))" and "length (c_str err) \<le> text_limit"
  shows "\<exists>p2. oversee_death_test wm strerror file_macro predicate es (Some status) err dt p1 =
    Inr ((\<exists>s t. e = Dies s t) \<and> predicate status \<and>
      (\<exists>u w v. c_str err = u @ w @ v \<and> w \<in> regex_lang r \<and>
        (strip_caret r \<noteq> r \<longrightarrow> u = []) \<and> (ends_in_dollar r \<longrightarrow> v = [])), p2)"
proof -
  have "dt_spawned dt" "dt_regex dt = fst (re_init (Some r))"
    using assms(1) by (auto simp: no_exec_assume_role_def make_death_test_def Let_def split: if_splits)
  with verdict [OF assms(2,3), of dt] partial_match_language [OF assms(4,5)] show ?thesis by simp
qed

theorem death_test_verdict_witness:
  "\<exists>p2. oversee_death_test linux_wait_macros (\<lambda>_. []) ''f.cc'' (exited_with_code linux_wait_macros 3) [Interruption] (Some 768) ''oh no''
     ((make_death_test ''die()'' (fst (re_init (Some ''no''))))\<lparr>dt_read_fd := 5, dt_spawned := True\<rparr>)
     \<lparr>dp_flag = None, dp_last_message = [], dp_in_fast_child = False, dp_forwarding = True\<rparr> = Inr (True, p2)"
proof -
  let ?p = "\<lparr>dp_flag = None, dp_last_message = [], dp_in_fast_child = False, dp_forwarding = True\<rparr>"
    and ?dt = "make_death_test ''die()'' (fst (re_init (Some ''no'')))"
  have role: "no_exec_assume_role ''f.cc'' 1 (Some (5, 6)) 77 ?dt ?p =
      Inr (Oversee_test, ?dt\<lparr>dt_read_fd := 5, dt_spawned := True\<rparr>, ?p, [])"
    by (simp add: no_exec_assume_role_def)
  have run: "execute_death_test_statement 256 ''f.cc'' 9 (Dies 768 ''oh no'') = ([], ''oh no'', 768)" and "delivers [Interruption] []"
    by (simp_all add: execute_death_test_statement_def)
  have valid: "fst (validate_regex (Some ''no''))"
    by (simp add: validate_parses strip_caret_def take_repeat_def is_repeat_def is_in_set_def)
  have "''no'' \<in> regex_lang ''no''"
    by (auto simp: regex_lang_def strip_caret_def take_repeat_def is_repeat_def is_in_set_def atom_matches_char_def
        intro: exI [of _ "''n''"] exI [of _ "''o''"])
  then have "\<exists>u w v. c_str ''oh no'' = u @ w @ v \<and> w \<in> regex_lang ''no'' \<and>
      (strip_caret ''no'' \<noteq> ''no'' \<longrightarrow> u = []) \<and> (ends_in_dollar ''no'' \<longrightarrow> v = [])"
    by (intro exI [of _ "''oh ''"] exI [of _ "''no''"] exI [of _ "[]"]) (simp add: c_str_def strip_caret_def)
  moreover have "exited_with_code linux_wait_macros 3 768"
    by (simp add: exited_with_code_def linux_wait_macros_def)
  moreover have "length (c_str ''oh no'') \<le> text_limit" by (simp add: c_str_def text_limit_def)
  ultimately show ?thesis
    using death_test_verdict [OF role run \<open>delivers [Interruption] []\<close> valid, of linux_wait_macros "\<lambda>_. []"
        "exited_with_code linux_wait_macros 3"] by simp
qed

text \<open>
  The arguments with which the threadsafe style starts a child select only the test that runs
  the death test, and give the child a flag with which its factory skips the other death tests,
  creates the same one, and refuses a count beyond it; the child then executes it and reports to
  the end of the pipe that its parent opened.
\<close>

theorem child_runs_its_death_test:
  assumes "exec_assume_role file_macro argvs test_case_name name index source line (Some (read_end, write_end)) child dt p =
      Inr (Oversee_test, dt', p', args)"
    and "argvs \<noteq> []" and "nul \<notin> set test_case_name" and "nul \<notin> set name"
    and "set (test_case_name @ name) \<inter> set ''?*:-'' = {}"
    and "nul \<notin> set source" and "CHR ''|'' \<notin> set source"
    and "0 \<le> line" and "line < 2 ^ 31" and "0 \<le> index" and "index < 2 ^ 31" and "0 \<le> write_end" and "write_end < 2 ^ 31"
    and "fl = fst (parse_google_test_flags_only args defaults help_flag)"
  shows "(\<forall>c n. filter_matches_test (fl_filter fl) c n \<longleftrightarrow> c @ ''.'' @ n = test_case_name @ ''.'' @ name) \<and>
    (\<exists>flag. parse_internal_run_death_test_flag fl q = Inr (Some flag) \<and>
      (\<forall>f l i. snd (default_death_test_factory_create fl f l i (q\<lparr>dp_flag := Some flag\<rparr>)) =
        (if index < i then None
         else if f = source \<and> l = line \<and> i = index then snd (create_by_style fl q) else Some None)) \<and>
      (\<forall>pipe pid. exec_assume_role file_macro argvs test_case_name name index source line pipe pid dt (q\<lparr>dp_flag := Some flag\<rparr>) =
        Inr (Execute_test, dt\<lparr>dt_write_fd := write_end\<rparr>, q\<lparr>dp_flag := Some flag\<rparr>, [])))"
proof -
  let ?flag = "\<lparr>rf_file = source, rf_line = line, rf_index = index, rf_write_fd = write_end\<rparr>"
  have args: "args = argvs @ [death_test_filter_flag test_case_name name, death_test_internal_flag source line index write_end]"
    using assms(1) by (auto simp: exec_assume_role_def Let_def split: option.splits if_splits)
  obtain fl1 where fl: "fl = fl1\<lparr>fl_filter := test_case_name @ ''.'' @ name,
      fl_internal_run_death_test := death_test_flag_value source line index write_end\<rparr>"
    using child_flags [OF assms(2-4,6,8,10,12)] assms(14) unfolding args by blast
  have "set (test_case_name @ ''.'' @ name) \<inter> set ''?*:-'' = {}" using assms(5) by auto
  from plain_filter [OF this]
  have "filter_matches_test (fl_filter fl) c n \<longleftrightarrow> c @ ''.'' @ n = test_case_name @ ''.'' @ name" for c n by (simp add: fl)
  moreover have "parse_internal_run_death_test_flag fl q = Inr (Some ?flag)"
    by (rule flag_read_back [OF assms(7,6,8-13)]) (simp add: fl)
  moreover have "snd (create_by_style fl (q\<lparr>dp_flag := Some ?flag\<rparr>)) = snd (create_by_style fl q)"
    by (simp add: create_by_style_def)
  then have "\<forall>f l i. snd (default_death_test_factory_create fl f l i (q\<lparr>dp_flag := Some ?flag\<rparr>)) =
      (if index < i then None
       else if f = source \<and> l = line \<and> i = index then snd (create_by_style fl q) else Some None)"
    by (auto simp: default_death_test_factory_create_def)
  moreover have "exec_assume_role file_macro argvs test_case_name name index source line pipe pid dt (q\<lparr>dp_flag := Some ?flag\<rparr>) =
      Inr (Execute_test, dt\<lparr>dt_write_fd := write_end\<rparr>, q\<lparr>dp_flag := Some ?flag\<rparr>, [])" for pipe pid
    by (simp add: exec_assume_role_def)
  ultimately show ?thesis by blast
qed

theorem child_runs_its_death_test_witness:
  "\<exists>fl flag. fl = fst (parse_google_test_flags_only
       [''prog'', death_test_filter_flag ''FooDeathTest'' ''Bar'', death_test_internal_flag ''foo.cc'' 12 2 8] (default_flags (\<lambda>_. None)) False) \<and>
     filter_matches_test (fl_filter fl) ''FooDeathTest'' ''Bar'' \<and> \<not> filter_matches_test (fl_filter fl) ''FooDeathTest'' ''Bar2'' \<and>
     snd (default_death_test_factory_create fl ''foo.cc'' 10 1
       \<lparr>dp_flag = Some flag, dp_last_message = [], dp_in_fast_child = False, dp_forwarding = True\<rparr>) = Some None"
proof -
  let ?p = "\<lparr>dp_flag = None, dp_last_message = [], dp_in_fast_child = False, dp_forwarding = True\<rparr>"
    and ?dt = "make_death_test ''die()'' (fst (re_init (Some ''no'')))"
    and ?args = "[''prog'', death_test_filter_flag ''FooDeathTest'' ''Bar'', death_test_internal_flag ''foo.cc'' 12 2 8]"
  define fl where "fl = fst (parse_google_test_flags_only ?args (default_flags (\<lambda>_. None)) False)"
  have role: "exec_assume_role ''d.cc'' [''prog''] ''FooDeathTest'' ''Bar'' 2 ''foo.cc'' 12 (Some (7, 8)) 77 ?dt ?p =
      Inr (Oversee_test, ?dt\<lparr>dt_read_fd := 7, dt_spawned := True\<rparr>, ?p, ?args)"
    by (simp add: exec_assume_role_def)
  have "(\<forall>c n. filter_matches_test (fl_filter fl) c n \<longleftrightarrow> c @ ''.'' @ n = ''FooDeathTest'' @ ''.'' @ ''Bar'') \<and>
      (\<exists>flag. parse_internal_run_death_test_flag fl ?p = Inr (Some flag) \<and>
        (\<forall>f l i. snd (default_death_test_factory_create fl f l i (?p\<lparr>dp_flag := Some flag\<rparr>)) =
          (if 2 < i then None
           else if f = ''foo.cc'' \<and> l = 12 \<and> i = 2 then snd (create_by_style fl ?p) else Some None)) \<and>
        (\<forall>pipe pid. exec_assume_role ''d.cc'' [''prog''] ''FooDeathTest'' ''Bar'' 2 ''foo.cc'' 12 pipe pid ?dt (?p\<lparr>dp_flag := Some flag\<rparr>) =
          Inr (Execute_test, ?dt\<lparr>dt_write_fd := 8\<rparr>, ?p\<lparr>dp_flag := Some flag\<rparr>, [])))"
    by (rule child_runs_its_death_test [OF role _ _ _ _ _ _ _ _ _ _ _ _ fl_def]) simp_all
  then obtain flag where names: "\<forall>c n. filter_matches_test (fl_filter fl) c n \<longleftrightarrow> c @ ''.'' @ n = ''FooDeathTest'' @ ''.'' @ ''Bar''"
    and made: "\<forall>f l i. snd (default_death_test_factory_create fl f l i (?p\<lparr>dp_flag := Some flag\<rparr>)) =
      (if 2 < i then None
       else if f = ''foo.cc'' \<and> l = 12 \<and> i = 2 then snd (create_by_style fl ?p) else Some None)" by blast
  have "snd (default_death_test_factory_create fl ''foo.cc'' 10 1 (?p\<lparr>dp_flag := Some flag\<rparr>)) = Some None"
    by (simp only: made) simp
  with names show ?thesis using fl_def by (intro exI [of _ fl] exI [of _ flag]) simp
qed

subsection \<open>Value-parameterized tests\<close>



text \<open>
  A loop over the values of a product of generators ends and yields all combinations of their
  values, the last component the fastest; it yields none when a component has no values.
\<close>

theorem combine_yields_all_combinations:
  assumes "all_enumerate gs ps xss" and "gs \<noteq> []"
  shows "generated (combine unassigned gs) (pg_begin (combine unassigned gs)) [] = Some (Inr (product_lists xss)) \<and>
    (product_lists xss = [] \<longleftrightarrow> [] \<in> set xss)"
proof
  show "generated (combine unassigned gs) (pg_begin (combine unassigned gs)) [] = Some (Inr (product_lists xss))"
    by (rule enumeration.generates [OF combine_enumerates [OF assms]])
  show "product_lists xss = [] \<longleftrightarrow> [] \<in> set xss" by (induction xss) auto
qed

theorem combine_yields_all_combinations_witness:
  "generated (combine [] [values_of [1, 2], values_of [3, 4, 5 :: nat]]) (pg_begin (combine [] [values_of [1, 2], values_of [3, 4, 5]])) [] =
     Some (Inr [[1, 3], [1, 4], [1, 5], [2, 3], [2, 4], [2, 5]])"
proof -
  have "all_enumerate [values_of [1, 2], values_of [3, 4, 5 :: nat]] [\<lambda>k. k, \<lambda>k. k] [[1, 2], [3, 4, 5]]"
    by (simp add: values_of_enumerates)
  from combine_yields_all_combinations [OF this, of "[]"] show ?thesis by simp
qed

end
