(* ===== verification/Spec2Isabelle.thy ===== *)
theory Spec2Isabelle
  imports Wire_Properties Value_Properties Client_Properties Request_Properties Scheduler_Properties
    Stack_Properties Assertion_Properties Runner_Properties Gmock_Properties
    Report_Properties Testing_Properties
begin

text \<open>
  riak-cpp is a C++ client library for the Riak key-value store. An application calls a client
  (\<open>riak/client.hxx\<close>) to fetch, store and delete objects; the client encodes a protocol
  buffer message, frames it, wraps its own reply handler in a buffering handler and a timeout,
  and hands the bytes to a transport; the transport in the repository is a single socket that
  serves requests one after the other. Replies travel back through the same layers, and siblings
  (concurrent values) are resolved by a function of the application and stored back before a
  fetch is answered. This library models these layers from the source and proves what they keep.

  Theories and the files under \<open>src/riak\<close> that they model:

  \<^item> \<open>Prelude\<close>: bytes, faults (failed assertions, exceptions, undefined behaviour), byte order,
    and the locale \<open>step_system\<close>, by which a one-step invariant becomes an invariant of runs.
  \<^item> \<open>Errors\<close>: \<open>error.hxx\<close>, \<open>error.cxx\<close>.
  \<^item> \<open>Parameters\<close>: \<open>object_access_parameters.hxx\<close>, \<open>request_failure_parameters.hxx\<close>; the
    locale \<open>amendable\<close> is the contract of the amendments, interpreted for each parameter.
  \<^item> \<open>Riak_Proto\<close>: the messages of \<open>riakclient.proto\<close> that the client uses, the types of
    \<open>core_types.hxx\<close> and \<open>sibling_resolution.hxx\<close>, and the record \<open>protobuf\<close> of serialisers.
  \<^item> \<open>Wire_Message\<close>: \<open>message.hxx\<close>, \<open>message.cxx\<close>; the locale \<open>framing\<close> is the contract
    between a framing and its reader, interpreted by \<open>next_partial_response\<close>.
  \<^item> \<open>Request_Context\<close>: \<open>application_request_context.hxx\<close> and \<open>.cxx\<close>, \<open>log.hxx\<close>.
  \<^item> \<open>Client\<close>: \<open>client.hxx\<close>, \<open>client.cxx\<close>, \<open>response_handlers.hxx\<close>: every member function
    of the client and of its request runner. A \<open>std::bind\<close> is a constructor that holds the bound
    arguments; calling it is \<open>run_handler\<close> or \<open>run_updater\<close>. Effects are the trace \<open>events\<close>.
  \<^item> \<open>Client_Accounting\<close>: the client as a system of calls and replies, and the invariant that
    each accepted handler has one answer or one outstanding request; interpretation of \<open>step_system\<close>.
  \<^item> \<open>Get_Protocol\<close>: an abstract machine for a fetch, and the simulation by the code.
  \<^item> \<open>Timed_Request\<close>: \<open>request_with_timeout.hxx\<close>, \<open>request_with_timeout.cxx\<close>; the locale
    \<open>completing_callback\<close> is the contract of its callback.
  \<^item> \<open>Client_Request\<close>: a client handler inside a timed request; interpretation of
    \<open>completing_callback\<close> for every handler of the client.
  \<^item> \<open>Transport\<close>: \<open>transport.hxx\<close>; the locale \<open>termination_option\<close> is the idempotence that
    the header demands of an option.
  \<^item> \<open>Scheduler\<close>: \<open>transports/single_serial_socket/scheduler.hxx\<close> and \<open>.cxx\<close>, with the
    factory of \<open>delivery_provider.cxx\<close>; \<open>Scheduler_Safety\<close> and \<open>Scheduler_Failures\<close> hold its
    invariants, the interpretation of \<open>termination_option\<close>, and the paths after an error.
  \<^item> \<open>Scheduler_Service\<close>: a queue of requests served one after the other to its end.
  \<^item> \<open>Stack\<close>: the client, its timed requests and the scheduler composed as in a program: a
    call of the client is a delivery to the scheduler, an event of the scheduler's trace is a
    response of the timed request, and a dropped option is an exercise of the scheduler.
  \<^item> \<open>Demo\<close>: a concrete environment for the witnesses.
  \<^item> \<open>Wire_Properties\<close>, \<open>Value_Properties\<close>, \<open>Client_Properties\<close>, \<open>Request_Properties\<close>,
    \<open>Scheduler_Properties\<close>, \<open>Stack_Properties\<close> and this theory hold the numbered properties of
    the library and their witnesses.

  The repository carries the test library by which the client is checked,
  \<open>src/ext/gmock-1.7.0\<close>, and its source is modelled too. Theories and files:

  \<^item> \<open>Gtest_Base\<close>: C strings and the characters of \<open>gtest-port.h\<close>.
  \<^item> \<open>Bipartite_Matching\<close>, \<open>Unordered_Elements\<close>: \<open>gmock-matchers.cc\<close>; the search for augmenting
    paths, proved maximum by alternating paths, and the matcher that is built on it.
  \<^item> \<open>Simple_Regex\<close>: the regular expressions of \<open>gtest-port.cc\<close> and their language.
  \<^item> \<open>Gtest_Text\<close>, \<open>Gtest_Printers\<close>: \<open>gtest-message.h\<close>, \<open>gtest-printers.cc\<close> and the conversions
    of \<open>gtest.cc\<close> between wide characters and UTF-8, with the reading of what they print.
  \<^item> \<open>Gtest_Assertions\<close>: the predicates behind \<open>EXPECT_EQ\<close> and its relatives.
  \<^item> \<open>Gtest_Flags\<close>: flags from the environment and the command line, sharding variables, seeds.
  \<^item> \<open>Gtest_Result\<close>, \<open>Gtest_Filter\<close>: test results and recorded properties; filters, random
    numbers and the shuffle of a range.
  \<^item> \<open>Gtest_Run\<close>: \<open>TestInfo\<close>, \<open>TestCase\<close>, \<open>UnitTestImpl\<close> of \<open>gtest.cc\<close>: registration, filters,
    shards, shuffles, and the run of tests, cases and iterations with exceptions as outcomes;
    \<open>Gtest_Run_Properties\<close>, \<open>Gtest_Run_Complete\<close> and \<open>Gtest_Run_Returns\<close> hold its invariants, the
    rules by which a pass creates each selected test, and those by which a program ends. A fixture
    whose constructor throws makes the runner call \<open>DeleteSelf_\<close> on a null pointer, which is
    undefined and which its own tests expect to return: \<open>ut_null_delete_returns\<close> is a parameter.
  \<^item> \<open>Gtest_Events\<close>, \<open>Gtest_Console\<close>, \<open>Gtest_Streaming\<close>: the list of listeners, the printer on the
    standard output, the streaming listener and the file that marks a premature exit.
  \<^item> \<open>Gtest_Filepath\<close>, \<open>Gtest_Xml\<close>: \<open>gtest-filepath.cc\<close> and the printer of the XML report;
    \<open>Xml_Reader\<close> is a reader of such documents, and \<open>Gtest_Report\<close> proves that it gets the tree of
    the run from the report.
  \<^item> \<open>Gtest_Typed\<close>, \<open>Gtest_Generators\<close>, \<open>Gtest_Parameterized\<close>: \<open>gtest-typed-test.cc\<close> and
    \<open>gtest-param-util.h\<close>: tests with types, generators of parameters (the locale \<open>enumeration\<close> is what
    a loop over one relies on), and the registration of tests with values.
  \<^item> \<open>Gtest_Death_Test\<close>: \<open>gtest-death-test.cc\<close>: the roles of parent and child in both styles.
  \<^item> \<open>Report_Properties\<close>, \<open>Testing_Properties\<close>: what holds of the output of a test program, of
    parameterized tests and of death tests.
  \<^item> \<open>Assertion_Properties\<close>, \<open>Runner_Properties\<close>: the numbered properties of the test library.
  \<^item> \<open>Gmock_Init\<close>: the flags of \<open>gmock.cc\<close>, and the words of an identifier.
  \<^item> \<open>Gmock_Cardinalities\<close>: \<open>gmock-cardinalities.h\<close> and \<open>.cc\<close>; the locale \<open>call_bounds\<close> is what
    an expectation relies on, interpreted by \<open>Between\<close>.
  \<^item> \<open>Gmock_Actions\<close>: \<open>gmock-actions.h\<close>, \<open>gmock-more-actions.h\<close>, \<open>DoAll\<close> and \<open>WithArgs\<close> of
    \<open>gmock-generated-actions.h\<close>, and the matching of argument tuples of \<open>gmock-matchers.h\<close>.
  \<^item> \<open>Gmock_World\<close>, \<open>Gmock_Mocker\<close>, \<open>Gmock_Call\<close>: \<open>gmock-spec-builders.h\<close> and \<open>.cc\<close>: expectations,
    sequences and the log; the clauses of \<open>EXPECT_CALL\<close> and \<open>ON_CALL\<close> and the registry of mock
    objects; the call of a mocked function, verification and the end of a mocker. What the source
    shares by pointers are entries of the record \<open>gmock_world\<close>, and a pointer is an index.
  \<^item> \<open>Gmock_Book\<close>, \<open>Gmock_Refine\<close>: what gmock promises of a call, over a map from expectations to
    their state, and the proof that the code implements it; \<open>Gmock_Runs\<close>: runs of calls.
  \<^item> \<open>Gmock_Safety\<close>, \<open>Gmock_Registry\<close>, \<open>Gmock_Tests\<close>: a test with mocks as a sequence of its
    statements; every statement ends and follows no pointer to a destroyed object (an interpretation
    of \<open>step_system\<close>). The raw pointer \<open>owner_\<close> of an expectation is kept: it leads to the mocker that
    holds the expectation, and dangles in one that outlives its mocker.
  \<^item> \<open>Gmock_Sequences\<close>, \<open>Gmock_In_Order\<close>: what a test observes of a run of calls and of a block in
    \<open>InSequence\<close>; \<open>Gmock_Properties\<close>: the numbered properties of mocks.

  Code that is not in the repository is a parameter. The protocol buffer library is the record
  \<open>protobuf\<close>; where a property needs that it reads back what it wrote, that is a hypothesis on
  the one message concerned. The random generator of identifiers is the function \<open>env_uuid\<close>, the
  texts of foreign error codes are \<open>env_strerror\<close>, the contents of uninitialised variables are
  the record \<open>indeterminate\<close> (one value for the whole program), the network is the record
  \<open>network\<close>: what the resolver yields, which endpoints accept, whether a write completes as soon
  as it is started. For the test library the file system, the clock and the time zone, the network
  of the streaming listener, and the answers of \<open>pipe\<close>, \<open>fork\<close>, \<open>read\<close> and \<open>waitpid\<close> are parameters, and
  so are the tests themselves (\<open>user_code\<close>). Boost's timer, socket and service are the lists of waits, started operations
  and queued tasks on which the steps of \<open>Timed_Request\<close> and \<open>Scheduler\<close> act, in any order.

  Steps and locks. \<open>on_response\<close> and \<open>on_timeout\<close> hold their request's mutex, and the scheduler's
  member functions hold the scheduler's; each is one step. The scheduler calls a response handler
  last, after it has released the mutex, so the call is an event of its trace (\<open>Called\<close>) and the
  handler's reaction is a later input; the destructor calls the handlers of pending requests with
  the mutex held, and an application that delivers a new request from such a call would block,
  which the model does not show. The two reads of \<open>exercise\<close> outside the scheduler's mutex are
  taken as atomic with the rest of it, and so are the delivery and the storing of its option in
  \<open>dispatch_via\<close>: the data races that they permit are not modelled. Shutting down a socket is
  taken to succeed; Boost may answer it with an exception when the peer has gone.

  Bounds. Sizes of containers are natural numbers; the length field and the quorums keep their 32
  bits, message codes their 8 bits, identifiers their 128 bits, the random numbers and the bits of
  floating-point numbers their width. Timeouts are integers that no operation computes with. Fuel
  is used in \<open>cut_all\<close>, whose lemma asks for as much fuel as there are messages, and in
  \<open>run_iterations\<close>, where it is the repeat count, which is proved to be enough (\<open>test_program_ends\<close>;
  a negative count repeats for ever). The prerequisites of an expectation are followed to a depth of
  \<open>stack\<close>, one more than there are expectations; as prerequisites are older than what needs them,
  the depth is enough for every test (a property). Call counts of gmock are integers without a
  bound; the source counts in an \<open>int\<close>. Every other function terminates by structural recursion or by a
  measure; the retry of a fetch is not a loop of the code but a chain of replies, whose length is
  bounded by the number of collisions and by nothing else (both are properties).

  Not modelled: \<open>utilities.hxx\<close> (two helpers for promises, used nowhere), \<open>log_null.hxx\<close> and the
  branch of the context without logging (empty shadows of Boost.Log), \<open>compat.hxx\<close> and
  \<open>config.hxx\<close> (macros), the wrappers \<open>asio_tcp_socket.hxx\<close> and \<open>asio_tcp_resolver.hxx\<close> (each
  member forwards to Boost), the messages of \<open>riakclient.proto\<close> that the client never sends or
  reads, spurious wake-ups of the scheduler's condition variable, the build files and the client's
  own tests. Of the test library: the start of another program in a death test (\<open>clone\<close>, \<open>exec\<close> and
  stacks), threads and the actions that call mocked functions themselves (a test with mocks is one
  sequence of statements), the end of a \<open>Sequence\<close> object before the end of the test, actions on
  references, arrays and owned arguments, most matchers and the other templates that the compiler
  expands, the conversions of floating-point numbers to text, the code for Windows, the status file
  of the shards (in \<open>Gtest_Run\<close> a listener is the list of the events it is told; what the listeners
  do with them is in the theories named above), and the fused copies, which
  repeat the files that are modelled.
\<close>

subsection \<open>A reply that comes too late\<close>

lemma to_errc_ok [simp]: "\<not> is_error (to_errc boost_ok)"
  by (simp add: to_errc_def boost_ok_def)

lemma handover_destroy:
  assumes "handover a b rest s"
  shows "sched_next net s (Destroy_option (er_id a)) =
    (sched_next net s (Exercise (er_id a) False))\<lparr>sc_options := (sc_options s)(er_id a := None)\<rparr>"
  using assms by (simp add: handover_def sched_next_simps exercise_option_def socket_cancel_def Let_def)

lemma dropped_then_bytes:
  assumes h: "handover a b rest s" and "nw_write_at_once net (er_id b)"
  shows "last (sc_trace (run_steps (sched_next net) s
    [Destroy_option (er_id a), Run_task 0, Run_task 0, Complete 0 boost_ok d, Run_task 0])) =
    Called (er_id b) (to_errc boost_ok) (length d) d"
  using assms handover_ids(1) [OF h]
  by (simp add: handover_destroy [OF h] handover_exercise [OF h] sched_next_simps(4,5))
    (simp add: handover_def run_next_request_def start_write_def socket_cancel_def
      run_task_def on_write_def on_read_def is_active_def start_read_fields drop_nth_def
      is_boost_error_def boost_ok_def)

text \<open>
  A late reply is given to the next request. A fetch times out and drops its option, which
  tells the scheduler that its connection is clean; the scheduler writes the next request, a
  fetch of another key, to the same socket. When the reply to the first fetch arrives after all,
  the scheduler calls the second request with it, and the second application is told that the
  first one's object is the value of its own key, with an updater that stores at its own key
  under the first one's vector clock.
\<close>

theorem late_reply_given_to_next_request:
  assumes "handover a b rest s" and "nw_write_at_once net (er_id b)"
    and "waits_with [] w req"
    and "complete_message d" and "5 \<le> length d" and "d ! 4 = 10"
    and "length (ind_length (env_indeterminate env)) = 4"
    and "parse_get_resp (env_pb env) (drop 5 d) = Some resp"
    and "gs_content resp = [obj]" and "gs_vclock resp = Some vc"
  shows "last (sc_trace (run_steps (sched_next net) s [Destroy_option (er_id a), Run_task 0,
      Run_task 0, Complete 0 boost_ok d, Run_task 0])) =
      Called (er_id b) (to_errc boost_ok) (length d) d \<and>
    (\<exists>t w' new. request_step (client_callback env cl (Accept_get ctx bk k h)) req
        (Response (to_errc boost_ok) (length d) d) = (t, None) \<and> tr_callback t = ([], w') \<and>
      last (events w') = Answered_get h (make_error_code no_failure) (Some obj)
        (Put_value new bk k (Some vc)))"
proof
  show "last (sc_trace (run_steps (sched_next net) s [Destroy_option (er_id a), Run_task 0,
      Run_task 0, Complete 0 boost_ok d, Run_task 0])) =
      Called (er_id b) (to_errc boost_ok) (length d) d"
    using assms(1,2) by (rule dropped_then_bytes)
  obtain w' new where w': "run_handler env cl (Accept_get ctx bk k h) std_no_error (length d) d w =
      (w', Inr True)" "last (events w') = Answered_get h (make_error_code no_failure) (Some obj)
      (Put_value new bk k (Some vc))"
    using accept_get_single [OF assms(4-10), of cl ctx bk k h w] by blast
  show "\<exists>t w' new. request_step (client_callback env cl (Accept_get ctx bk k h)) req
        (Response (to_errc boost_ok) (length d) d) = (t, None) \<and> tr_callback t = ([], w') \<and>
      last (events w') = Answered_get h (make_error_code no_failure) (Some obj)
        (Put_value new bk k (Some vc))"
    using whole_response [OF assms(3,4) _ w'(1), of d "[]"] w'(2)
    by (auto simp: on_response_code [OF to_errc_ok])
qed

theorem late_reply_given_to_next_request_witness:
  "last (sc_trace (run_steps (sched_next demo_net) demo_queue [Destroy_option (er_id demo_first),
      Run_task 0, Run_task 0, Complete 0 boost_ok (reply_get 1 5), Run_task 0])) =
      Called (er_id demo_second) (to_errc boost_ok) (length (reply_get 1 5)) (reply_get 1 5) \<and>
    (\<exists>t w' new. request_step (client_callback demo_env demo_client (Accept_get
        \<lparr>rc_access_overrides = default_access, rc_failure_defaults = failure_defaults,
          rc_request_id = 0\<rparr> [1] [2] 7)) demo_started
        (Response (to_errc boost_ok) (length (reply_get 1 5)) (reply_get 1 5)) = (t, None) \<and>
      tr_callback t = ([], w') \<and>
      last (events w') = Answered_get 7 (make_error_code no_failure) (Some (demo_object 0))
        (Put_value new [1] [2] (Some [5])))"
  by (rule late_reply_given_to_next_request [where rest = "[]" and w = demo_world
        and resp = "\<lparr>gs_content = [demo_object 0], gs_vclock = Some [5], gs_unchanged = None\<rparr>"])
    (simp_all add: handover_def demo_vclock_def, simp add: demo_net_def)

end
